(* ===== verification/Prelude.thy ===== *)
theory Prelude
  imports
    Complex_Main
    "HOL-Library.Char_ord"
    "HOL-Library.List_Lexorder"
    "HOL-Library.Product_Lexorder"
    "HOL-Library.AList"
    "HOL-Library.Sublist"
    "HOL-Library.Multiset"
begin

text \<open>
  Shared vocabulary of the development.

  Python \<open>str\<close> values are modelled by \<open>string\<close> (lists of characters with codes
  0 to 255, the Latin-1 range of Unicode), Python \<open>float\<close> values by exact rationals
  (\<open>pyfloat\<close>; rounding of binary64 is not modelled), \<open>dict\<close> values by association lists
  in insertion order (\<open>AList.update\<close> keeps the position of a present key and appends a
  new one, as \<open>dict\<close> does), SQLite tables by the list of their rows in rowid order.
  The theory holds the string primitives the components share
  (\<open>split\<close>, \<open>join\<close>, \<open>strip\<close>, \<open>lower\<close>, \<open>partition\<close>, \<open>rsplit\<close>), the aggregates of the SQL
  statements, and the generic lemmas about stable sorting.
\<close>

type_synonym pyfloat = rat

named_theorems pystr \<open>definitions of the string primitives\<close>
named_theorems table_simps \<open>facts about rows selected and updated by key\<close>

section \<open>Characters and strings\<close>

definition code_of :: "char \<Rightarrow> nat" where
  "code_of c = of_char c"

definition py_space :: "char \<Rightarrow> bool" where
  "py_space c \<longleftrightarrow> (let n = code_of c in (9 \<le> n \<and> n \<le> 13) \<or> (28 \<le> n \<and> n \<le> 32) \<or> n = 133 \<or> n = 160)"

definition lower_char :: "char \<Rightarrow> char" where
  "lower_char c = (let n = code_of c in
     if (65 \<le> n \<and> n \<le> 90) \<or> (192 \<le> n \<and> n \<le> 222 \<and> n \<noteq> 215) then char_of (n + 32) else c)"

definition lower :: "string \<Rightarrow> string" where
  "lower s = map lower_char s"

definition strip_of :: "('a \<Rightarrow> bool) \<Rightarrow> 'a list \<Rightarrow> 'a list" where
  "strip_of p s = rev (dropWhile p (rev (dropWhile p s)))"

definition strip :: "string \<Rightarrow> string" where
  "strip s = strip_of py_space s"

definition strip_char :: "char \<Rightarrow> string \<Rightarrow> string" where
  "strip_char c s = strip_of (\<lambda>x. x = c) s"

definition rstrip_char :: "char \<Rightarrow> string \<Rightarrow> string" where
  "rstrip_char c s = rev (dropWhile (\<lambda>x. x = c) (rev s))"

definition lstrip_char :: "char \<Rightarrow> string \<Rightarrow> string" where
  "lstrip_char c s = dropWhile (\<lambda>x. x = c) s"

fun split_on :: "'a \<Rightarrow> 'a list \<Rightarrow> 'a list list" where
  "split_on c [] = [[]]"
| "split_on c (x # xs) =
     (if x = c then [] # split_on c xs
      else (case split_on c xs of [] \<Rightarrow> [[x]] | y # ys \<Rightarrow> (x # y) # ys))"

fun join_with :: "'a list \<Rightarrow> 'a list list \<Rightarrow> 'a list" where
  "join_with s [] = []"
| "join_with s [x] = x"
| "join_with s (x # y # ys) = x @ s @ join_with s (y # ys)"

text \<open>\<open>s.partition(c)\<close>: the part before the first \<open>c\<close>, whether there is one, and the rest.\<close>

definition partition_at :: "'a \<Rightarrow> 'a list \<Rightarrow> 'a list \<times> bool \<times> 'a list" where
  "partition_at c s = (takeWhile (\<lambda>x. x \<noteq> c) s, c \<in> set s, drop 1 (dropWhile (\<lambda>x. x \<noteq> c) s))"

text \<open>\<open>s.rsplit(c, 1)[-1]\<close> and \<open>s.rsplit(c, 1)[0]\<close>.\<close>

definition rsplit_last :: "'a \<Rightarrow> 'a list \<Rightarrow> 'a list" where
  "rsplit_last c s = rev (takeWhile (\<lambda>x. x \<noteq> c) (rev s))"

definition rsplit_first :: "'a \<Rightarrow> 'a list \<Rightarrow> 'a list" where
  "rsplit_first c s = (if c \<in> set s then rev (drop 1 (dropWhile (\<lambda>x. x \<noteq> c) (rev s))) else s)"

text \<open>Truthiness of an \<open>Optional[str]\<close>: \<open>None\<close> and the empty string are falsy.\<close>

definition truthy_str :: "string option \<Rightarrow> bool" where
  "truthy_str v \<longleftrightarrow> v \<noteq> None \<and> v \<noteq> Some []"

definition or_empty :: "string option \<Rightarrow> string" where
  "or_empty v = (case v of None \<Rightarrow> [] | Some s \<Rightarrow> s)"

lemma split_on_nonempty [simp]: "split_on c s \<noteq> []"
  by (induction s) (auto split: list.splits)

lemma split_on_no_sep: "w \<in> set (split_on c s) \<Longrightarrow> c \<notin> set w"
  by (induction s arbitrary: w) (auto split: list.splits if_splits)

lemma join_with_split_on [simp]: "join_with [c] (split_on c s) = s"
proof (induction s)
  case (Cons x xs)
  then show ?case
    by (cases "split_on c xs"; cases "tl (split_on c xs)") auto
qed simp

lemma split_on_append_sep: "c \<notin> set w \<Longrightarrow> split_on c (w @ c # s) = w # split_on c s"
  by (induction w) auto

lemma split_on_single: "c \<notin> set w \<Longrightarrow> split_on c w = [w]"
  by (induction w) auto

lemma split_on_join_with:
  "ws \<noteq> [] \<Longrightarrow> \<forall>w \<in> set ws. c \<notin> set w \<Longrightarrow> split_on c (join_with [c] ws) = ws"
  by (induction "[c]" ws rule: join_with.induct) (auto simp: split_on_single split_on_append_sep)

lemma strip_of_idle: "s = [] \<or> (\<not> p (hd s) \<and> \<not> p (last s)) \<Longrightarrow> strip_of p s = s"
proof -
  assume h: "s = [] \<or> (\<not> p (hd s) \<and> \<not> p (last s))"
  then have "dropWhile p s = s" by (auto simp: dropWhile_eq_self_iff)
  moreover have "dropWhile p (rev s) = rev s"
    using h by (auto simp: dropWhile_eq_self_iff hd_rev)
  ultimately show ?thesis by (simp add: strip_of_def)
qed

lemma set_strip_of: "set (strip_of p s) \<subseteq> set s"
  unfolding strip_of_def by (metis set_dropWhileD set_rev subsetI)

lemma hd_strip_of: "strip_of p s \<noteq> [] \<Longrightarrow> \<not> p (hd (strip_of p s))"
proof -
  assume ne: "strip_of p s \<noteq> []"
  define t where "t = dropWhile p s"
  have tne: "t \<noteq> []" using ne unfolding strip_of_def t_def by force
  have "\<not> p (hd t)" using tne unfolding t_def by (rule hd_dropWhile)
  have suf: "suffix (dropWhile p (rev t)) (rev t)" by (rule suffix_dropWhile)
  have "prefix (strip_of p s) t"
    using suf by (simp add: strip_of_def t_def suffix_to_prefix)
  then have "hd (strip_of p s) = hd t"
    using ne by (auto simp: prefix_def hd_append)
  then show ?thesis using \<open>\<not> p (hd t)\<close> by simp
qed

lemma strip_split: "\<exists>a b. s = a @ strip_of p s @ b"
proof -
  obtain b where b: "rev (dropWhile p s) = b @ dropWhile p (rev (dropWhile p s))"
    using suffix_dropWhile [of p "rev (dropWhile p s)"] by (auto simp: suffix_def)
  obtain a where a: "s = a @ dropWhile p s" using suffix_dropWhile [of p s] by (auto simp: suffix_def)
  have "dropWhile p s = strip_of p s @ rev b" using arg_cong [OF b, of rev] by (simp add: strip_of_def)
  with a show ?thesis by metis
qed

lemma strip_of_strip_of: "strip_of p (strip_of p s) = strip_of p s"
proof (rule strip_of_idle)
  have "\<not> p (last (strip_of p s))" if "strip_of p s \<noteq> []"
    using that hd_dropWhile [of p "rev (dropWhile p s)"] by (simp add: strip_of_def last_rev)
  then show "strip_of p s = [] \<or> (\<not> p (hd (strip_of p s)) \<and> \<not> p (last (strip_of p s)))" using hd_strip_of by blast
qed

lemma partition_at_eq:
  "partition_at c s = (a, True, b) \<Longrightarrow> s = a @ c # b \<and> c \<notin> set a"
  by (induction s arbitrary: a) (auto simp: partition_at_def split: if_splits)

section \<open>SQL aggregates and row updates\<close>

fun sql_max :: "'a::linorder list \<Rightarrow> 'a option" where
  "sql_max [] = None"
| "sql_max (x # xs) = (case sql_max xs of None \<Rightarrow> Some x | Some m \<Rightarrow> Some (max x m))"

fun sql_min :: "'a::linorder list \<Rightarrow> 'a option" where
  "sql_min [] = None"
| "sql_min (x # xs) = (case sql_min xs of None \<Rightarrow> Some x | Some m \<Rightarrow> Some (min x m))"

lemma sql_max_None [simp]: "sql_max xs = None \<longleftrightarrow> xs = []"
  by (cases xs) (auto split: option.splits)

lemma sql_min_None [simp]: "sql_min xs = None \<longleftrightarrow> xs = []"
  by (cases xs) (auto split: option.splits)

lemma sql_max_ge: "sql_max xs = Some m \<Longrightarrow> x \<in> set xs \<Longrightarrow> x \<le> m"
  by (induction xs arbitrary: m) (auto split: option.splits simp: le_max_iff_disj)

lemma sql_min_le: "sql_min xs = Some m \<Longrightarrow> x \<in> set xs \<Longrightarrow> m \<le> x"
  by (induction xs arbitrary: m) (auto split: option.splits simp: min_le_iff_disj)

lemma sql_max_in: "sql_max xs = Some m \<Longrightarrow> m \<in> set xs"
  by (induction xs arbitrary: m) (auto split: option.splits simp: max_def)

lemma sql_min_in: "sql_min xs = Some m \<Longrightarrow> m \<in> set xs"
  by (induction xs arbitrary: m) (auto split: option.splits simp: min_def)

section \<open>Stable sorting\<close>

lemma sort_key_eqI:
  assumes "sorted (map f ys)" "inj_on f (set xs)" "mset xs = mset ys"
  shows "sort_key f xs = ys"
  using assms by (metis sort_key_inj_key_eq)

lemma sort_key_filter: "sort_key f (filter P xs) = filter P (sort_key f xs)"
  by (simp add: filter_sort)

lemma sort_key_Cons_least:
  "\<forall>y \<in> set xs. f x \<le> f y \<Longrightarrow> sort_key f (x # xs) = x # sort_key f xs"
  by (simp add: insort_is_Cons)

lemma find_filter_hd: "List.find P xs = (case filter P xs of [] \<Rightarrow> None | x # _ \<Rightarrow> Some x)"
  by (induction xs) auto

lemma find_SomeD: "List.find P xs = Some x \<Longrightarrow> x \<in> set xs \<and> P x"
  by (induction xs) (auto split: if_splits)

lemma find_NoneD: "List.find P xs = None \<longleftrightarrow> (\<forall>x \<in> set xs. \<not> P x)"
  by (induction xs) auto

lemma find_unique:
  "distinct (map f xs) \<Longrightarrow> x \<in> set xs \<Longrightarrow> List.find (\<lambda>y. f y = f x) xs = Some x"
  by (induction xs) (auto simp: image_iff)


section \<open>Tables with a key column\<close>

text \<open>\<open>SELECT ... WHERE key = ?\<close> with \<open>fetchone\<close>, \<open>UPDATE ... WHERE key = ?\<close> and
  \<open>DELETE ... WHERE p\<close> over a table given as the list of its rows.\<close>

definition row_find :: "('r \<Rightarrow> 'k) \<Rightarrow> 'k \<Rightarrow> 'r list \<Rightarrow> 'r option" where
  "row_find key k rows = List.find (\<lambda>r. key r = k) rows"

definition rows_update :: "('r \<Rightarrow> 'k) \<Rightarrow> 'k \<Rightarrow> ('r \<Rightarrow> 'r) \<Rightarrow> 'r list \<Rightarrow> 'r list" where
  "rows_update key k f rows = map (\<lambda>r. if key r = k then f r else r) rows"

definition rows_delete :: "('r \<Rightarrow> bool) \<Rightarrow> 'r list \<Rightarrow> 'r list" where
  "rows_delete p rows = filter (\<lambda>r. \<not> p r) rows"

lemma row_find_Some: "row_find key k rows = Some r \<Longrightarrow> r \<in> set rows \<and> key r = k"
  unfolding row_find_def by (drule find_SomeD) simp

lemma row_find_None: "row_find key k rows = None \<longleftrightarrow> k \<notin> key ` set rows"
  by (auto simp: row_find_def find_NoneD)

lemma row_find_in: "distinct (map key rows) \<Longrightarrow> r \<in> set rows \<Longrightarrow> row_find key (key r) rows = Some r"
  unfolding row_find_def by (rule find_unique)

lemma rows_update_keys [table_simps]:
  "(\<And>r. key (f r) = key r) \<Longrightarrow> map key (rows_update key k f rows) = map key rows"
  by (induction rows) (auto simp: rows_update_def)

lemma rows_update_map [table_simps]:
  "(\<And>r. g (f r) = g r) \<Longrightarrow> map g (rows_update key k f rows) = map g rows"
  by (induction rows) (auto simp: rows_update_def)

lemma row_find_update [table_simps]:
  "(\<And>r. key (f r) = key r) \<Longrightarrow> row_find key k (rows_update key k' f rows)
     = (if k = k' then map_option f (row_find key k rows) else row_find key k rows)"
  by (induction rows) (auto simp: row_find_def rows_update_def)

lemma rows_update_missing [table_simps]: "row_find key k rows = None \<Longrightarrow> rows_update key k f rows = rows"
  by (induction rows) (auto simp: row_find_def rows_update_def split: if_splits)

lemma rows_update_idle: "\<forall>r \<in> set rows. key r \<noteq> k \<Longrightarrow> rows_update key k f rows = rows"
  by (induction rows) (auto simp: rows_update_def)

lemma filter_rows_update_inv:
  "(\<And>r. P (f r) = P r) \<Longrightarrow> filter P (rows_update key k f rows) = rows_update key k f (filter P rows)"
  by (induction rows) (auto simp: rows_update_def)

lemma length_rows_update [simp]: "length (rows_update key k f rows) = length rows"
  by (simp add: rows_update_def)

lemma set_rows_delete [simp]: "set (rows_delete p rows) = {r \<in> set rows. \<not> p r}"
  by (auto simp: rows_delete_def)

lemma row_split:
  assumes "distinct (map key rows)" "row_find key k rows = Some r"
  shows "\<exists>as bs. rows = as @ r # bs \<and> key r = k \<and> (\<forall>a \<in> set as \<union> set bs. key a \<noteq> k)
    \<and> (\<forall>f. rows_update key k f rows = as @ f r # bs)"
proof -
  have "r \<in> set rows" and k: "key r = k" using row_find_Some [OF assms(2)] by auto
  then obtain as bs where rows: "rows = as @ r # bs" by (auto dest: split_list)
  have ne: "\<forall>a \<in> set as \<union> set bs. key a \<noteq> k" using assms(1) rows k by (fastforce simp: image_iff)
  have "\<forall>f. rows_update key k f rows = as @ f r # bs"
    using rows_update_idle [of as key k] rows_update_idle [of bs key k] ne rows k
    by (simp add: rows_update_def)
  with rows k ne show ?thesis by blast
qed

lemma distinct_map_filter_mono:
  "distinct (map f (filter P xs)) \<Longrightarrow> distinct (map f (filter (\<lambda>x. Q x \<and> P x) xs))"
  by (induction xs) (auto split: if_splits)

lemma distinct_map_filterI: "distinct (map f xs) \<Longrightarrow> distinct (map f (filter P xs))"
  by (induction xs) auto

lemma distinct_filter_mid:
  assumes "distinct (map f (filter P (as @ x # bs)))"
    and "P y \<Longrightarrow> (P x \<and> f y = f x) \<or> f y \<notin> f ` {k \<in> set as \<union> set bs. P k}"
  shows "distinct (map f (filter P (as @ y # bs)))"
  using assms by (cases "P x"; cases "P y") (auto, (force simp: image_iff)+)

text \<open>A uniqueness constraint over the rows selected by \<open>P\<close> survives an update of one row
  when the new row is not selected, keeps its value, or brings a fresh one.\<close>

lemma distinct_rows_update:
  assumes "distinct (map key rows)" "row_find key k rows = Some r"
    and "distinct (map f (filter P rows))"
    and "P (g r) \<Longrightarrow> (P r \<and> f (g r) = f r) \<or> f (g r) \<notin> f ` {x \<in> set rows. P x \<and> key x \<noteq> k}"
  shows "distinct (map f (filter P (rows_update key k g rows)))"
proof -
  obtain as bs where *: "rows = as @ r # bs" "key r = k" "\<forall>a \<in> set as \<union> set bs. key a \<noteq> k"
    "rows_update key k g rows = as @ g r # bs"
    using row_split [OF assms(1,2)] by blast
  have "{x \<in> set as \<union> set bs. P x} = {x \<in> set rows. P x \<and> key x \<noteq> k}" using * by auto
  then show ?thesis using distinct_filter_mid [of f P as r bs "g r"] assms(3,4) * by simp
qed

lemma strictly_sorted_distinct:
  fixes f :: "'a \<Rightarrow> 'b::linorder"
  shows "sorted (map f xs) \<Longrightarrow> distinct (map f xs) \<Longrightarrow> sorted_wrt (\<lambda>x y. f x < f y) xs"
  by (induction xs) (auto simp: image_iff le_less)

end
