(* ===== verification/Srt.thy ===== *)
theory Srt
  imports Decimal
begin

text \<open>
  The SubRip format: \<open>parse_srt\<close> of \<open>src/src/subarr/subtitle_readability.py\<close> and \<open>render_srt\<close> of
  \<open>src/src/subarr/subtitle_retime.py\<close>. Times are integers in milliseconds. The regular
  expressions are written out as matchers; text is Latin-1, where \<open>\d\<close> is an ASCII digit but
  \<open>isdigit\<close> also accepts the three superscript digits, on which \<open>int\<close> raises. \<open>parse_srt\<close>
  returns \<open>None\<close> where the code raises that \<open>ValueError\<close>.
\<close>

definition nl :: char where "nl = char_of (10 :: nat)"
definition cr :: char where "cr = char_of (13 :: nat)"

record cue =
  cu_index :: nat
  cu_start :: int
  cu_end :: int
  cu_lines :: "string list"

section \<open>Time stamps\<close>

definition digits_upto :: "nat \<Rightarrow> string \<Rightarrow> string" where
  "digits_upto n s = take n (takeWhile ascii_digit s)"

definition expect :: "char list \<Rightarrow> string \<Rightarrow> string option" where
  "expect cs s = (case s of [] \<Rightarrow> None | c # r \<Rightarrow> if c \<in> set cs then Some r else None)"

definition ts_to_ms :: "string \<Rightarrow> string \<Rightarrow> string \<Rightarrow> string \<Rightarrow> int" where
  "ts_to_ms h m s ms =
     int ((undec h * 3600 + undec m * 60 + undec s) * 1000
          + undec (take 3 (ms @ replicate (3 - length ms) (CHR ''0''))))"

text \<open>\<open>(\d{1,2}):(\d{2}):(\d{2})[,.](\d{1,3})\<close> at the start of \<open>s\<close>: the time and the rest.\<close>

definition match_clock :: "string \<Rightarrow> (int \<times> string) option" where
  "match_clock s =
     (let h = digits_upto 2 s in
      if h = [] then None
      else (case expect [CHR '':''] (drop (length h) s) of
          None \<Rightarrow> None
        | Some s1 \<Rightarrow>
            (let m = digits_upto 2 s1 in
             if length m \<noteq> 2 then None
             else (case expect [CHR '':''] (drop 2 s1) of
                 None \<Rightarrow> None
               | Some s2 \<Rightarrow>
                   (let sec = digits_upto 2 s2 in
                    if length sec \<noteq> 2 then None
                    else (case expect [CHR '','', CHR ''.''] (drop 2 s2) of
                        None \<Rightarrow> None
                      | Some s3 \<Rightarrow>
                          (let ms = digits_upto 3 s3 in
                           if ms = [] then None
                           else Some (ts_to_ms h m sec ms, drop (length ms) s3))))))))"

definition match_times :: "string \<Rightarrow> (int \<times> int) option" where
  "match_times s =
     (case match_clock s of
        None \<Rightarrow> None
      | Some (a, s1) \<Rightarrow>
          (let s2 = dropWhile py_space s1 in
           if \<not> prefix ''-->'' s2 then None
           else (case match_clock (dropWhile py_space (drop 3 s2)) of
               None \<Rightarrow> None
             | Some (b, _) \<Rightarrow> Some (a, b))))"

text \<open>\<open>_TS.search\<close>: the leftmost match.\<close>

fun search_times :: "string \<Rightarrow> (int \<times> int) option" where
  "search_times [] = None"
| "search_times (c # cs) = (case match_times (c # cs) of Some r \<Rightarrow> Some r | None \<Rightarrow> search_times cs)"

section \<open>Parsing\<close>

fun unify_newlines :: "string \<Rightarrow> string" where
  "unify_newlines [] = []"
| "unify_newlines [c] = [if c = cr then nl else c]"
| "unify_newlines (c # d # cs) =
     (if c = cr \<and> d = nl then nl # unify_newlines cs
      else (if c = cr then nl else c) # unify_newlines (d # cs))"

text \<open>\<open>re.split(r"\n\s*\n", text)\<close>: a newline whose run of white space holds another newline is a
  separator up to the last newline of the run.\<close>

definition after_last_nl :: "string \<Rightarrow> string" where
  "after_last_nl cs =
     (let ws = takeWhile py_space cs in drop (length ws - length (takeWhile (\<lambda>c. c \<noteq> nl) (rev ws))) cs)"

function split_blocks :: "string \<Rightarrow> string list" where
  "split_blocks [] = [[]]"
| "split_blocks (c # cs) =
     (if c = nl \<and> nl \<in> set (takeWhile py_space cs) then [] # split_blocks (after_last_nl cs)
      else (case split_blocks cs of [] \<Rightarrow> [[c]] | b # bs \<Rightarrow> (c # b) # bs))"
  by pat_completeness auto
termination
  by (relation "measure length") (auto simp: after_last_nl_def Let_def)

fun find_times :: "string list \<Rightarrow> nat \<Rightarrow> (nat \<times> int \<times> int) option" where
  "find_times [] i = None"
| "find_times (l # ls) i = (case search_times l of Some r \<Rightarrow> Some (i, r) | None \<Rightarrow> find_times ls (i + 1))"

definition isdigit :: "string \<Rightarrow> bool" where
  "isdigit s \<longleftrightarrow> s \<noteq> [] \<and> list_all (\<lambda>c. ascii_digit c \<or> code_of c \<in> {178, 179, 185}) s"

definition py_int :: "string \<Rightarrow> nat option" where
  "py_int s = (if s \<noteq> [] \<and> list_all ascii_digit s then Some (undec s) else None)"

text \<open>One block: \<open>None\<close> when \<open>int\<close> raises, \<open>Some None\<close> when the block has no time stamp.\<close>

definition parse_block :: "nat \<Rightarrow> string \<Rightarrow> cue option option" where
  "parse_block parsed block =
     (let raw = split_on nl block in
      case find_times raw 0 of
        None \<Rightarrow> Some None
      | Some (ts_i, a, b) \<Rightarrow>
          (let before = (if 0 < ts_i then strip (raw ! (ts_i - 1)) else []);
               idx = (if isdigit before then py_int before else Some (parsed + 1));
               lines = filter (\<lambda>l. strip l \<noteq> []) (drop (ts_i + 1) raw)
           in (case idx of
                 None \<Rightarrow> None
               | Some i \<Rightarrow> Some (Some \<lparr>cu_index = i, cu_start = a, cu_end = b, cu_lines = lines\<rparr>))))"

fun parse_blocks :: "nat \<Rightarrow> string list \<Rightarrow> cue list option" where
  "parse_blocks parsed [] = Some []"
| "parse_blocks parsed (b # bs) =
     (case parse_block parsed b of
        None \<Rightarrow> None
      | Some None \<Rightarrow> parse_blocks parsed bs
      | Some (Some c) \<Rightarrow> map_option (\<lambda>cs. c # cs) (parse_blocks (parsed + 1) bs))"

definition parse_srt :: "string \<Rightarrow> cue list option" where
  "parse_srt text = parse_blocks 0 (split_blocks (strip (unify_newlines text)))"

section \<open>Rendering\<close>

definition ms_to_ts :: "int \<Rightarrow> string" where
  "ms_to_ts ms0 =
     (let ms = nat (max 0 ms0); h = ms div 3600000; r = ms mod 3600000; m = r div 60000; r2 = r mod 60000
      in dec_pad 2 h @ '':'' @ dec_pad 2 m @ '':'' @ dec_pad 2 (r2 div 1000) @ '','' @ dec_pad 3 (r2 mod 1000))"

definition render_block :: "nat \<Rightarrow> cue \<Rightarrow> string" where
  "render_block i c = dec i @ [nl] @ (ms_to_ts (cu_start c) @ '' --> '' @ ms_to_ts (cu_end c)) @ [nl] @ join_with [nl] (cu_lines c)"

fun render_blocks :: "nat \<Rightarrow> cue list \<Rightarrow> string list" where
  "render_blocks i [] = []"
| "render_blocks i (c # cs) = render_block i c # render_blocks (i + 1) cs"

definition render_srt :: "cue list \<Rightarrow> string" where
  "render_srt cues = (if cues = [] then [] else join_with [nl, nl] (render_blocks 1 cues) @ [nl])"

section \<open>The pieces of a rendered file\<close>

definition text_line :: "string \<Rightarrow> bool" where
  "text_line l \<longleftrightarrow> nl \<notin> set l \<and> cr \<notin> set l \<and> strip l \<noteq> []"

definition stamp_line :: "cue \<Rightarrow> string" where
  "stamp_line c = ms_to_ts (cu_start c) @ '' --> '' @ ms_to_ts (cu_end c)"

definition tail_lines :: "string list \<Rightarrow> string" where
  "tail_lines ls = concat (map (\<lambda>l. nl # l) ls)"

definition block_body :: "nat \<Rightarrow> cue \<Rightarrow> string" where
  "block_body i c = dec i @ tail_lines (stamp_line c # cu_lines c)"

definition block_pad :: "cue \<Rightarrow> string" where
  "block_pad c = (if cu_lines c = [] then [nl] else [])"

fun bodies :: "nat \<Rightarrow> cue list \<Rightarrow> string" where
  "bodies i [] = []"
| "bodies i [c] = block_body i c"
| "bodies i (c # d # cs) = block_body i c @ block_pad c @ [nl, nl] @ bodies (i + 1) (d # cs)"

lemma tail_lines_Cons [simp]: "tail_lines (l # ls) = nl # l @ tail_lines ls"
  by (simp add: tail_lines_def)

lemma tail_lines_Nil [simp]: "tail_lines [] = []"
  by (simp add: tail_lines_def)

lemma join_tail_lines: "join_with [nl] (l # ls) = l @ tail_lines ls"
  by (induction ls arbitrary: l) simp_all

lemma render_block_body: "render_block i c = block_body i c @ block_pad c"
  by (cases "cu_lines c")
    (simp_all add: render_block_def block_body_def block_pad_def stamp_line_def join_tail_lines)

lemma render_blocks_bodies:
  "cs \<noteq> [] \<Longrightarrow> join_with [nl, nl] (render_blocks i cs) = bodies i cs @ block_pad (last cs)"
  by (induction i cs rule: bodies.induct) (simp_all add: render_block_body)

lemma strip_nonempty_iff: "strip l \<noteq> [] \<longleftrightarrow> (\<exists>c \<in> set l. \<not> py_space c)"
proof -
  have "(\<exists>c \<in> set (dropWhile py_space l). \<not> py_space c) \<longleftrightarrow> (\<exists>c \<in> set l. \<not> py_space c)"
    by (metis dropWhile_eq_Nil_conv hd_dropWhile hd_in_set set_dropWhileD)
  then show ?thesis by (simp add: strip_def strip_of_def dropWhile_eq_Nil_conv)
qed

subsection \<open>Splitting\<close>

definition push :: "string \<Rightarrow> string list \<Rightarrow> string list" where
  "push w bs = (w @ hd bs) # tl bs"

lemma split_blocks_nonempty [simp]: "split_blocks s \<noteq> []"
  by (cases s) (auto split: list.splits)

lemma split_blocks_step:
  "\<not> (c = nl \<and> nl \<in> set (takeWhile py_space cs)) \<Longrightarrow> split_blocks (c # cs) = push [c] (split_blocks cs)"
  by (simp add: push_def neq_Nil_conv split: list.splits)

lemma push_push [simp]: "push v (push w bs) = push (v @ w) bs"
  by (simp add: push_def)

lemma split_blocks_word: "nl \<notin> set w \<Longrightarrow> split_blocks (w @ s) = push w (split_blocks s)"
proof (induction w)
  case Nil
  then show ?case by (simp add: push_def)
next
  case (Cons c w)
  then have "split_blocks (c # w @ s) = push [c] (split_blocks (w @ s))"
    by (intro split_blocks_step) auto
  with Cons show ?case by simp
qed

lemma takeWhile_text_line: "text_line l \<Longrightarrow> nl \<notin> set (takeWhile py_space (l @ s))"
  unfolding text_line_def strip_nonempty_iff
  by (metis set_takeWhileD takeWhile_append1)

lemma split_blocks_lines:
  "list_all text_line ls \<Longrightarrow> split_blocks (tail_lines ls @ s) = push (tail_lines ls) (split_blocks s)"
proof (induction ls)
  case Nil
  then show ?case by (simp add: push_def)
next
  case (Cons l ls)
  then have l: "text_line l" and ls: "list_all text_line ls"
    by simp_all
  have "split_blocks (nl # l @ tail_lines ls @ s) = push [nl] (split_blocks (l @ tail_lines ls @ s))"
    using takeWhile_text_line [OF l] by (simp only: split_blocks_step simp_thms)
  also have "split_blocks (l @ tail_lines ls @ s) = push l (push (tail_lines ls) (split_blocks s))"
    using l Cons.IH [OF ls] by (simp add: split_blocks_word text_line_def)
  finally show ?case by simp
qed

lemma py_space_nl [simp]: "py_space nl"
  by (simp add: nl_def py_space_def code_of_def)

lemma split_blocks_gap:
  assumes "s \<noteq> []" "\<not> py_space (hd s)" "p = [] \<or> p = [nl]"
  shows "split_blocks (p @ nl # nl # s) = [] # split_blocks s"
proof -
  have t: "takeWhile py_space s = []"
    using assms(1,2) by (cases s) auto
  from assms(3) show ?thesis
    by (auto simp: after_last_nl_def Let_def t)
qed


subsection \<open>Time stamps\<close>

lemma digits_upto_word [simp]:
  "list_all ascii_digit w \<Longrightarrow> length w = n \<Longrightarrow> digits_upto n (w @ s) = w"
  by (simp add: digits_upto_def takeWhile_append2 list_all_iff)

lemma dec_pad_all [simp]: "list_all ascii_digit (dec_pad w n)"
  by (simp add: list_all_iff dec_pad_digits)

lemma dec_pad_len:
  "n < 100 \<Longrightarrow> length (dec_pad 2 n) = 2" "n < 1000 \<Longrightarrow> length (dec_pad 3 n) = 3"
  by (simp_all add: length_dec_pad)

lemma clock_parts:
  fixes t :: nat
  shows "3600000 * (t div 3600000) + 60000 * (t mod 3600000 div 60000)
      + t mod 3600000 mod 60000 div 1000 * 1000 + t mod 3600000 mod 60000 mod 1000 = t"
  using div_mult_mod_eq [of t 3600000] div_mult_mod_eq [of "t mod 3600000" 60000]
    div_mult_mod_eq [of "t mod 3600000 mod 60000" 1000]
  by (simp add: mult.commute)

lemma match_clock_ms_to_ts:
  assumes "0 \<le> t" "t < 360000000"
  shows "match_clock (ms_to_ts t @ s) = Some (t, s)"
proof -
  define n where "n = nat t"
  have t: "t = int n" and n: "n < 360000000"
    using assms by (simp_all add: n_def)
  define h m sec ms where "h = n div 3600000" and "m = n mod 3600000 div 60000"
    and "sec = n mod 3600000 mod 60000 div 1000" and "ms = n mod 3600000 mod 60000 mod 1000"
  have b: "h < 100" "m < 100" "sec < 100" "ms < 1000"
    using n by (auto simp: h_def m_def sec_def ms_def)
  have "3600000 * h + 60000 * m + sec * 1000 + ms = n"
    unfolding h_def m_def sec_def ms_def by (rule clock_parts)
  then have e: "3600000 * int h + 60000 * int m + int sec * 1000 + int ms = int n"
    by presburger
  have r: "ms_to_ts t @ s = dec_pad 2 h @ CHR '':'' # dec_pad 2 m @ CHR '':'' # dec_pad 2 sec @ CHR '','' # dec_pad 3 ms @ s"
    by (simp add: ms_to_ts_def Let_def t h_def m_def sec_def ms_def)
  have ne: "dec_pad 2 h \<noteq> []" "dec_pad 3 ms \<noteq> []"
    using b dec_pad_len [of h] dec_pad_len(2) [of ms] by auto
  show ?thesis
    unfolding r match_clock_def
    using b ne by (simp add: Let_def dec_pad_len expect_def ts_to_ms_def t e)
qed

lemma py_space_space [simp]: "py_space CHR '' ''"
  by (simp add: py_space_def code_of_def)

lemma digit_not_space: "ascii_digit c \<Longrightarrow> \<not> py_space c"
  by (auto simp: ascii_digit_def py_space_def)

lemma ms_to_ts_hd: "ms_to_ts t \<noteq> [] \<and> ascii_digit (hd (ms_to_ts t @ s))"
proof -
  obtain h r where t: "ms_to_ts t = dec_pad 2 h @ r"
    by (simp add: ms_to_ts_def Let_def)
  have "dec_pad 2 h \<noteq> []" by (simp add: dec_pad_def)
  then show ?thesis
    using dec_pad_digits [of "hd (dec_pad 2 h)" 2 h] by (simp add: t)
qed

lemma ms_to_ts_last: "ms_to_ts t \<noteq> []" "ascii_digit (last (ms_to_ts t))"
proof -
  obtain r k where t: "ms_to_ts t = r @ dec_pad 3 k"
    unfolding ms_to_ts_def Let_def by (metis append.assoc)
  have "dec_pad 3 k \<noteq> []" by (simp add: dec_pad_def)
  then show "ms_to_ts t \<noteq> []" "ascii_digit (last (ms_to_ts t))"
    using dec_pad_digits [of "last (dec_pad 3 k)" 3 k] by (simp_all add: t)
qed

lemma match_times_stamp:
  assumes "0 \<le> cu_start c" "cu_start c < 360000000" "0 \<le> cu_end c" "cu_end c < 360000000"
  shows "match_times (stamp_line c) = Some (cu_start c, cu_end c)"
proof -
  obtain d e where d: "ms_to_ts (cu_end c) = d # e" "ascii_digit d"
    using ms_to_ts_hd [of "cu_end c" "[]"] by (cases "ms_to_ts (cu_end c)") auto
  have "dropWhile py_space (ms_to_ts (cu_end c)) = ms_to_ts (cu_end c)"
    using d by (simp add: digit_not_space)
  moreover have "match_clock (ms_to_ts (cu_end c)) = Some (cu_end c, [])"
    using match_clock_ms_to_ts [OF assms(3,4), of "[]"] by simp
  ultimately show ?thesis
    unfolding match_times_def stamp_line_def match_clock_ms_to_ts [OF assms(1,2)]
    by (simp add: py_space_def code_of_def)
qed

lemma no_colon_no_clock: "CHR '':'' \<notin> set s \<Longrightarrow> match_clock s = None"
proof -
  assume "CHR '':'' \<notin> set s"
  then have "expect [CHR '':''] (drop (length (digits_upto 2 s)) s) = None"
    by (auto simp: expect_def split: list.splits) (metis in_set_dropD list.set_intros(1))
  then show ?thesis by (simp add: match_clock_def Let_def)
qed

lemma no_colon_no_times: "CHR '':'' \<notin> set s \<Longrightarrow> search_times s = None"
  by (induction s) (simp_all add: match_times_def no_colon_no_clock)

lemma dec_no_times [simp]: "search_times (dec n) = None"
  by (intro no_colon_no_times) (auto dest!: dec_digits simp: ascii_digit_def code_of_def)

section \<open>Parsing what was rendered\<close>

definition printable :: "cue \<Rightarrow> bool" where
  "printable c \<longleftrightarrow> 0 \<le> cu_start c \<and> cu_start c < 360000000 \<and> 0 \<le> cu_end c \<and> cu_end c < 360000000
     \<and> list_all text_line (cu_lines c)"

definition printable_cues :: "cue list \<Rightarrow> bool" where
  "printable_cues cs \<longleftrightarrow> list_all printable cs
     \<and> (cs = [] \<or> cu_lines (last cs) = [] \<or> \<not> py_space (last (last (cu_lines (last cs)))))"

fun renumber :: "nat \<Rightarrow> cue list \<Rightarrow> cue list" where
  "renumber i [] = []"
| "renumber i (c # cs) = c\<lparr>cu_index := i\<rparr> # renumber (i + 1) cs"

lemma ascii_digit_neq [simp]: "\<not> ascii_digit nl" "\<not> ascii_digit cr"
  by (simp_all add: ascii_digit_def nl_def cr_def code_of_def)

lemma ms_to_ts_chars: "c \<in> set (ms_to_ts t) \<Longrightarrow> ascii_digit c \<or> c \<in> {CHR '':'', CHR '',''}"
  by (auto simp: ms_to_ts_def Let_def dest: dec_pad_digits)

lemma stamp_line_chars: "c \<in> set (stamp_line x) \<Longrightarrow> ascii_digit c \<or> c \<in> set '':, ->''"
  by (auto simp: stamp_line_def dest!: ms_to_ts_chars)

lemma nl_cr_not_punct: "nl \<notin> set '':, ->''" "cr \<notin> set '':, ->''"
  by code_simp+

lemma cr_neq_nl [simp]: "cr \<noteq> nl" "nl \<noteq> cr"
  by code_simp+

lemma stamp_text_line [simp]: "text_line (stamp_line c)"
proof -
  obtain d e where "ms_to_ts (cu_start c) = d # e" "ascii_digit d"
    using ms_to_ts_hd [of "cu_start c" "[]"] by (cases "ms_to_ts (cu_start c)") auto
  then have "d \<in> set (stamp_line c)" "\<not> py_space d"
    by (simp_all add: stamp_line_def digit_not_space)
  moreover have "nl \<notin> set (stamp_line c)" "cr \<notin> set (stamp_line c)"
    using stamp_line_chars [of nl c] stamp_line_chars [of cr c] nl_cr_not_punct by auto
  ultimately show ?thesis
    by (auto simp: text_line_def strip_nonempty_iff)
qed

lemma dec_chars: "nl \<notin> set (dec n)" "cr \<notin> set (dec n)"
  using dec_digits [of nl n] dec_digits [of cr n] by auto

lemma strip_dec [simp]: "strip (dec n) = dec n"
  unfolding strip_def by (rule strip_of_idle) (use dec_digits [of _ n] digit_not_space in \<open>auto simp: hd_in_set last_in_set\<close>)

lemma py_int_dec: "isdigit (dec n)" "py_int (dec n) = Some n"
  by (auto simp: isdigit_def py_int_def list_all_iff dec_digits)

lemma split_on_block:
  assumes "list_all text_line (cu_lines c)"
  shows "split_on nl (block_body i c) = dec i # stamp_line c # cu_lines c"
proof -
  have "block_body i c = join_with [nl] (dec i # stamp_line c # cu_lines c)"
    by (simp add: block_body_def join_tail_lines)
  moreover have "\<forall>w \<in> set (dec i # stamp_line c # cu_lines c). nl \<notin> set w"
    using assms stamp_text_line [of c] dec_chars by (auto simp: list_all_iff text_line_def)
  ultimately show ?thesis
    by (metis list.distinct(1) split_on_join_with)
qed

lemma search_times_stamp: "printable c \<Longrightarrow> search_times (stamp_line c) = Some (cu_start c, cu_end c)"
  using match_times_stamp [of c]
  by (cases "stamp_line c") (auto simp: printable_def match_times_def match_clock_def digits_upto_def)

lemma parse_block_body:
  assumes "printable c"
  shows "parse_block n (block_body i c) = Some (Some (c\<lparr>cu_index := i\<rparr>))"
proof -
  have l: "list_all text_line (cu_lines c)"
    using assms by (simp add: printable_def)
  then have "filter (\<lambda>l. strip l \<noteq> []) (cu_lines c) = cu_lines c"
    by (simp add: filter_id_conv list_all_iff text_line_def)
  with split_on_block [OF l] show ?thesis
    by (simp add: parse_block_def Let_def search_times_stamp [OF assms] py_int_dec)
qed

lemma split_block_body:
  "printable c \<Longrightarrow> split_blocks (block_body i c @ s) = push (block_body i c) (split_blocks s)"
  using split_blocks_lines [of "stamp_line c # cu_lines c" s]
  by (simp add: block_body_def printable_def split_blocks_word dec_chars del: tail_lines_Cons)

fun body_list :: "nat \<Rightarrow> cue list \<Rightarrow> string list" where
  "body_list i [] = []"
| "body_list i (c # cs) = block_body i c # body_list (i + 1) cs"

lemma bodies_hd: "cs \<noteq> [] \<Longrightarrow> bodies i cs \<noteq> [] \<and> ascii_digit (hd (bodies i cs))"
proof -
  have "block_body j c @ s \<noteq> [] \<and> ascii_digit (hd (block_body j c @ s))" for j c s
    using dec_digits [OF hd_in_set [OF dec_nonempty]] by (simp add: block_body_def)
  then show "cs \<noteq> [] \<Longrightarrow> ?thesis"
    by (cases "(i, cs)" rule: bodies.cases) (force simp del: append_is_Nil_conv)+
qed

lemma split_bodies: "cs \<noteq> [] \<Longrightarrow> list_all printable cs \<Longrightarrow> split_blocks (bodies i cs) = body_list i cs"
proof (induction i cs rule: bodies.induct)
  case (2 i c)
  then show ?case
    using split_block_body [of c i "[]"] by (simp add: push_def)
next
  case (3 i c d cs)
  have "split_blocks (block_pad c @ nl # nl # bodies (i + 1) (d # cs)) = [] # split_blocks (bodies (i + 1) (d # cs))"
    by (rule split_blocks_gap) (use bodies_hd in \<open>auto simp: block_pad_def digit_not_space\<close>)
  then show ?case
    using 3 by (simp add: split_block_body push_def)
qed simp

lemma parse_body_list:
  "list_all printable cs \<Longrightarrow> parse_blocks n (body_list i cs) = Some (renumber i cs)"
  by (induction cs arbitrary: n i) (simp_all add: parse_block_body)

lemma unify_idle: "cr \<notin> set s \<Longrightarrow> unify_newlines s = s"
  by (induction s rule: unify_newlines.induct) auto

lemma cr_block_body: "printable c \<Longrightarrow> cr \<notin> set (block_body i c)"
  using stamp_text_line [of c]
  by (auto simp: block_body_def dec_chars tail_lines_def printable_def text_line_def list_all_iff)

lemma cr_bodies: "list_all printable cs \<Longrightarrow> cr \<notin> set (bodies i cs)"
  by (induction i cs rule: bodies.induct) (auto simp: cr_block_body block_pad_def)

lemma bodies_last:
  assumes "printable_cues cs" "cs \<noteq> []"
  shows "\<not> py_space (last (bodies i cs))"
proof -
  have b: "\<not> py_space (last (block_body i c))"
    if "printable c" "cu_lines c = [] \<or> \<not> py_space (last (last (cu_lines c)))" for i c
  proof (cases "cu_lines c = []")
    case True
    have "ms_to_ts (cu_end c) \<noteq> []" "ascii_digit (last (ms_to_ts (cu_end c)))"
      by (rule ms_to_ts_last)+
    with True show ?thesis by (simp add: block_body_def stamp_line_def digit_not_space)
  next
    case False
    then obtain ls l where l: "cu_lines c = ls @ [l]"
      by (metis rev_exhaust)
    with that have "l \<noteq> []"
      by (auto simp: printable_def text_line_def strip_def strip_of_def)
    with that l show ?thesis by (simp add: block_body_def tail_lines_def)
  qed
  show ?thesis
    using assms by (induction i cs rule: bodies.induct) (auto simp: printable_cues_def b bodies_hd)
qed

lemma strip_trailing_nl:
  assumes "s \<noteq> []" "\<not> py_space (hd s)" "\<not> py_space (last s)" "\<forall>c \<in> set w. py_space c"
  shows "strip (s @ w) = s"
proof -
  have "dropWhile py_space (s @ w) = s @ w"
    using assms(1,2) by (cases s) auto
  moreover have "dropWhile py_space (rev w @ rev s) = rev s"
    using assms by (cases s rule: rev_cases) (auto simp: dropWhile_append)
  ultimately show ?thesis
    by (simp add: strip_def strip_of_def)
qed

definition demo_cues :: "cue list" where
  "demo_cues = [\<lparr>cu_index = 7, cu_start = 0, cu_end = 2500, cu_lines = [''- Hi.'', '' you'']\<rparr>,
     \<lparr>cu_index = 7, cu_start = 3661001, cu_end = 3662000, cu_lines = []\<rparr>]"

lemma parse_rendered: "printable_cues cs \<Longrightarrow> parse_srt (render_srt cs) = Some (renumber 1 cs)"
proof (cases "cs = []")
  case True
  then show ?thesis
    by (simp add: render_srt_def parse_srt_def strip_def strip_of_def parse_block_def)
next
  case False
  assume p: "printable_cues cs"
  then have l: "list_all printable cs" by (simp add: printable_cues_def)
  have r: "render_srt cs = bodies 1 cs @ block_pad (last cs) @ [nl]"
    using False by (simp add: render_srt_def render_blocks_bodies)
  have "cr \<notin> set (render_srt cs)"
    unfolding r using cr_bodies [OF l] by (simp add: block_pad_def)
  moreover have "strip (render_srt cs) = bodies 1 cs"
    unfolding r
    by (rule strip_trailing_nl) (use bodies_hd [OF False] bodies_last [OF p False] digit_not_space in \<open>auto simp: block_pad_def\<close>)
  ultimately show ?thesis
    by (simp add: parse_srt_def unify_idle split_bodies [OF False l] parse_body_list [OF l])
qed

text \<open>C16. \<open>render_srt\<close> is \<open>the inverse of parse_srt\<close>, as its docstring says: parsing the rendered text
  of any list of cues with times below 100 hours, whose text lines are not blank and hold no line
  break, gives the same cues back, numbered from one. Cues without text and lines with white space
  around them are included, except at the very end of the file, where the parser strips.\<close>

theorem parse_render_srt: "printable_cues cs \<Longrightarrow> parse_srt (render_srt cs) = Some (renumber 1 cs)"
  by (rule parse_rendered)

theorem parse_render_srt_witness:
  "parse_srt (render_srt demo_cues) = Some (renumber 1 demo_cues)"
  by (rule parse_render_srt) code_simp

text \<open>A block whose index line is a superscript digit makes the parser raise instead of skipping it.\<close>

lemma superscript_index_raises:
  "parse_srt (char_of (178 :: nat) # nl # ''00:00:01,000 --> 00:00:02,000'') = None"
  by code_simp

end
