(* ===== verification/SrtTiming.thy ===== *)
theory SrtTiming
  imports Srt Complex_Main "HOL-Library.Sublist"
begin

text \<open>
  The readability linter of \<open>src/src/subarr/subtitle_readability.py\<close> and the re-timer of
  \<open>src/src/subarr/subtitle_retime.py\<close>. Reading speeds are exact rationals where the code has floats;
  an issue keeps its cue, kind and severity and leaves out the explanatory text.
\<close>

section \<open>Cues\<close>

definition duration_ms :: "cue \<Rightarrow> int" where
  "duration_ms c = max 0 (cu_end c - cu_start c)"

definition char_count :: "cue \<Rightarrow> nat" where
  "char_count c = sum_list (map length (cu_lines c)) + (length (cu_lines c) - 1)"

definition max_cpl :: "cue \<Rightarrow> nat" where
  "max_cpl c = foldr max (map length (cu_lines c)) 0"

text \<open>\<open>Cue.cps\<close> is infinite on a cue that is never on screen.\<close>

definition cps :: "cue \<Rightarrow> rat option" where
  "cps c = (if 0 < duration_ms c then Some (of_nat (char_count c) / (of_int (duration_ms c) / 1000)) else None)"

definition cps_above :: "rat \<Rightarrow> cue \<Rightarrow> bool" where
  "cps_above t c = (case cps c of None \<Rightarrow> True | Some r \<Rightarrow> t < r)"

section \<open>The linter\<close>

datatype issue_kind = Too_many_lines | Long_line | Reading_speed | Too_short | Too_long | Overlap
datatype severity = Warn | Critical

record cue_issue =
  ci_index :: nat
  ci_kind :: issue_kind
  ci_severity :: severity

definition critical_cps :: rat where "critical_cps = 25"
definition comfortable_cps :: rat where "comfortable_cps = 20"
definition max_line_length :: nat where "max_line_length = 42"
definition max_lines :: nat where "max_lines = 2"
definition min_duration_ms :: int where "min_duration_ms = 833"
definition max_duration_ms :: int where "max_duration_ms = 7000"

definition cue_issues :: "rat \<Rightarrow> rat \<Rightarrow> cue \<Rightarrow> cue option \<Rightarrow> cue_issue list" where
  "cue_issues cps_max cps_crit c following =
     (let issue = (\<lambda>k s. [\<lparr>ci_index = cu_index c, ci_kind = k, ci_severity = s\<rparr>]) in
      (if max_lines < length (cu_lines c) then issue Too_many_lines Warn else []) @
      (if max_line_length < max_cpl c then issue Long_line Warn else []) @
      (if 0 < duration_ms c then
         (if cps_above cps_crit c then issue Reading_speed Critical
          else if cps_above cps_max c then issue Reading_speed Warn else [])
       else []) @
      (if 0 < duration_ms c \<and> duration_ms c < min_duration_ms then issue Too_short Warn
       else if max_duration_ms < duration_ms c then issue Too_long Warn else []) @
      (case following of
         None \<Rightarrow> []
       | Some d \<Rightarrow> if cu_start d < cu_end c then issue Overlap Critical else []))"

fun analyze_with :: "rat \<Rightarrow> rat \<Rightarrow> cue list \<Rightarrow> cue_issue list" where
  "analyze_with m k [] = []"
| "analyze_with m k [c] = cue_issues m k c None"
| "analyze_with m k (c # d # cs) = cue_issues m k c (Some d) @ analyze_with m k (d # cs)"

definition analyze_cues :: "cue list \<Rightarrow> cue_issue list" where
  "analyze_cues cs = analyze_with comfortable_cps critical_cps cs"

section \<open>The re-timer\<close>

record retime_params =
  rp_target_cps :: rat
  rp_min_cue :: int
  rp_min_gap :: int
  rp_max_cue :: int
  rp_max_borrow :: int

definition default_params :: retime_params where
  "default_params = \<lparr>rp_target_cps = 17, rp_min_cue = 1000, rp_min_gap = 100, rp_max_cue = 7000,
     rp_max_borrow = 500\<rparr>"

text \<open>Python's \<open>round\<close>: halves go to the even neighbour.\<close>

definition py_round :: "rat \<Rightarrow> int" where
  "py_round x =
     (let f = \<lfloor>x\<rfloor>; d = x - of_int f in
      if d < 1 / 2 then f else if 1 / 2 < d then f + 1 else if even f then f else f + 1)"

definition reading_time :: "rat \<Rightarrow> cue \<Rightarrow> int" where
  "reading_time t c = py_round (of_nat (char_count c) / t * 1000)"

definition extend_cue :: "retime_params \<Rightarrow> cue \<Rightarrow> cue option \<Rightarrow> cue" where
  "extend_cue p c following =
     (let hard_cap = cu_start c + rp_max_cue p;
          bound = (case following of None \<Rightarrow> hard_cap | Some d \<Rightarrow> min (cu_start d - rp_min_gap p) hard_cap)
      in if bound \<le> cu_end c then c
         else (let padded = max (cu_end c) (cu_start c + rp_min_cue p);
                   desired = (if 0 < rp_target_cps p \<and> cps_above (rp_target_cps p) c
                              then max padded (cu_start c + reading_time (rp_target_cps p) c) else padded)
               in c\<lparr>cu_end := max (cu_end c) (min desired bound)\<rparr>))"

fun extend_cues :: "retime_params \<Rightarrow> cue list \<Rightarrow> cue list" where
  "extend_cues p [] = []"
| "extend_cues p [c] = [extend_cue p c None]"
| "extend_cues p (c # d # cs) = extend_cue p c (Some d) # extend_cues p (d # cs)"

text \<open>What the second cue of a pair lends the first one; zero when nothing is lent.\<close>

definition lend :: "retime_params \<Rightarrow> cue \<Rightarrow> cue \<Rightarrow> int" where
  "lend p a b =
     (if duration_ms a \<le> 0 \<or> \<not> cps_above critical_cps a then 0
      else (let want = min (cu_start a + reading_time critical_cps a) (cu_start a + rp_max_cue p) - cu_end a in
            if want \<le> 0 then 0
            else (let b_floor = (if char_count b \<noteq> 0 then reading_time critical_cps b else 0);
                      slack = (cu_end b - cu_start b) - b_floor;
                      give = max 0 (min want (min slack (rp_max_borrow p)))
                  in if give < want then 0 else give)))"

fun borrow_pairs :: "retime_params \<Rightarrow> cue list \<Rightarrow> cue list" where
  "borrow_pairs p (a # b # cs) =
     a\<lparr>cu_end := cu_end a + lend p a b\<rparr> # borrow_pairs p (b\<lparr>cu_start := cu_start b + lend p a b\<rparr> # cs)"
| "borrow_pairs p cs = cs"

definition borrow_from_next :: "retime_params \<Rightarrow> cue list \<Rightarrow> cue list" where
  "borrow_from_next p cs = (if rp_max_borrow p \<le> 0 \<or> length cs < 2 then cs else borrow_pairs p cs)"

definition retime_cues :: "retime_params \<Rightarrow> cue list \<Rightarrow> cue list" where
  "retime_cues p cs = borrow_from_next p (extend_cues p cs)"

definition retime_srt :: "retime_params \<Rightarrow> string \<Rightarrow> string option" where
  "retime_srt p text = map_option (\<lambda>cs. render_srt (retime_cues p cs)) (parse_srt text)"

section \<open>What re-timing keeps\<close>

definition too_fast :: "cue \<Rightarrow> bool" where
  "too_fast c \<longleftrightarrow> 0 < duration_ms c \<and> cps_above critical_cps c"

definition cue_kept :: "retime_params \<Rightarrow> cue \<Rightarrow> cue \<Rightarrow> bool" where
  "cue_kept p c c' \<longleftrightarrow> cu_index c' = cu_index c \<and> cu_lines c' = cu_lines c
     \<and> cu_start c \<le> cu_start c' \<and> cu_start c' \<le> cu_start c + max 0 (rp_max_borrow p)
     \<and> cu_end c \<le> cu_end c' \<and> cu_end c' \<le> max (cu_end c) (cu_start c' + rp_max_cue p)
     \<and> (too_fast c' \<longrightarrow> too_fast c \<or> cu_end c \<le> cu_start c)"

fun cue_gaps :: "cue list \<Rightarrow> int list" where
  "cue_gaps (a # b # cs) = (cu_start b - cu_end a) # cue_gaps (b # cs)"
| "cue_gaps cs = []"

definition gap_kept :: "retime_params \<Rightarrow> int \<Rightarrow> int \<Rightarrow> bool" where
  "gap_kept p g g' \<longleftrightarrow> min g (rp_min_gap p) \<le> g'"

lemma too_fast_iff: "too_fast c \<longleftrightarrow> cu_start c < cu_end c \<and> 25 * (cu_end c - cu_start c) < 1000 * int (char_count c)"
proof -
  have "(25 < (of_nat n :: rat) / (of_int d / 1000)) = (25 * d < 1000 * int n)" if "0 < d" for n d
  proof -
    have "(25 < (of_nat n :: rat) / (of_int d / 1000)) = (of_int (25 * d) < (of_int (1000 * int n) :: rat))"
      using that by (simp add: field_simps)
    then show ?thesis by (simp only: of_int_less_iff)
  qed
  from this [of "cu_end c - cu_start c" "char_count c"] show ?thesis
    by (auto simp: too_fast_def cps_above_def cps_def duration_ms_def critical_cps_def)
qed

lemma py_round_of_int [simp]: "py_round (of_int n) = n"
  by (simp add: py_round_def)

lemma reading_time_critical: "reading_time critical_cps c = 40 * int (char_count c)"
proof -
  have "(of_nat (char_count c) :: rat) / 25 * 1000 = of_int (40 * int (char_count c))"
    by simp
  then show ?thesis
    unfolding reading_time_def critical_cps_def by (simp only: py_round_of_int)
qed

lemma char_count_update [simp]:
  "char_count (c\<lparr>cu_start := s\<rparr>) = char_count c" "char_count (c\<lparr>cu_end := e\<rparr>) = char_count c"
  by (simp_all add: char_count_def)

lemma extend_cue_shape:
  obtains e where "extend_cue p c d = c\<lparr>cu_end := e\<rparr>" "cu_end c \<le> e"
    "e \<le> max (cu_end c) (cu_start c + rp_max_cue p)"
    "case d of None \<Rightarrow> True | Some n \<Rightarrow> e \<le> max (cu_end c) (cu_start n - rp_min_gap p)"
proof -
  define bound where "bound = (case d of None \<Rightarrow> cu_start c + rp_max_cue p
    | Some n \<Rightarrow> min (cu_start n - rp_min_gap p) (cu_start c + rp_max_cue p))"
  have b: "bound \<le> cu_start c + rp_max_cue p"
    "case d of None \<Rightarrow> True | Some n \<Rightarrow> bound \<le> cu_start n - rp_min_gap p"
    by (cases d; simp add: bound_def)+
  obtain w where w: "extend_cue p c d = (if bound \<le> cu_end c then c else c\<lparr>cu_end := max (cu_end c) (min w bound)\<rparr>)"
    unfolding extend_cue_def Let_def bound_def by blast
  show thesis
  proof (cases "bound \<le> cu_end c")
    case True
    then show thesis using that [of "cu_end c"] w by (simp split: option.split)
  next
    case False
    with w have "extend_cue p c d = c\<lparr>cu_end := max (cu_end c) (min w bound)\<rparr>" by simp
    moreover have "max (cu_end c) (min w bound) \<le> max (cu_end c) k" if "bound \<le> k" for k
      using that by simp
    ultimately show thesis
      by (intro that) (use b in \<open>auto split: option.splits\<close>)
  qed
qed

lemma extend_cue_kept: "cue_kept p c (extend_cue p c d)"
  by (rule extend_cue_shape [of p c d]) (auto simp: cue_kept_def too_fast_iff)

lemma extend_cue_start [simp]: "cu_start (extend_cue p c d) = cu_start c"
  by (rule extend_cue_shape [of p c d]) simp

lemma extend_cues_kept: "list_all2 (cue_kept p) cs (extend_cues p cs)"
  by (induction p cs rule: extend_cues.induct) (auto simp: extend_cue_kept)

lemma extend_cue_gap: "gap_kept p (cu_start d - cu_end c) (cu_start d - cu_end (extend_cue p c (Some d)))"
  by (rule extend_cue_shape [of p c "Some d"]) (auto simp: gap_kept_def)

lemma extend_cues_gaps: "list_all2 (gap_kept p) (cue_gaps cs) (cue_gaps (extend_cues p cs))"
proof (induction p cs rule: extend_cues.induct)
  case (3 p c d cs)
  then show ?case
    using extend_cue_gap [of p d c] by (cases cs) auto
qed auto

lemma lend_positive:
  assumes "lend p a b \<noteq> 0"
  shows "0 < lend p a b" "lend p a b \<le> rp_max_borrow p" "cu_end a + lend p a b \<le> cu_start a + rp_max_cue p"
    "cu_start a < cu_end a" "40 * int (char_count b) \<le> cu_end b - cu_start b - lend p a b"
proof -
  define w where "w = min (cu_start a + reading_time critical_cps a) (cu_start a + rp_max_cue p) - cu_end a"
  define s where "s = (cu_end b - cu_start b) - (if char_count b \<noteq> 0 then reading_time critical_cps b else 0)"
  have s: "s = cu_end b - cu_start b - 40 * int (char_count b)"
    by (simp add: s_def reading_time_critical)
  define g where "g = max 0 (min w (min s (rp_max_borrow p)))"
  have "lend p a b = (if duration_ms a \<le> 0 \<or> \<not> cps_above critical_cps a then 0
      else if w \<le> 0 then 0 else if g < w then 0 else g)"
    by (simp only: lend_def Let_def w_def s_def g_def)
  with assms have l: "lend p a b = g" "0 < w" "w \<le> g" and d: "0 < duration_ms a"
    by (auto split: if_splits)
  then have "g \<le> w" "g \<le> s" "g \<le> rp_max_borrow p"
    by (auto simp: g_def)
  with l d s show "0 < lend p a b" "lend p a b \<le> rp_max_borrow p" "cu_end a + lend p a b \<le> cu_start a + rp_max_cue p"
    "cu_start a < cu_end a" "40 * int (char_count b) \<le> cu_end b - cu_start b - lend p a b"
    by (simp_all add: w_def duration_ms_def)
qed

lemma lend_facts:
  "0 \<le> lend p a b" "lend p a b \<le> max 0 (rp_max_borrow p)"
  "lend p a b = 0 \<or> (cu_end a + lend p a b \<le> cu_start a + rp_max_cue p
     \<and> cu_start a < cu_end a \<and> 40 * int (char_count b) \<le> cu_end b - cu_start b - lend p a b)"
  using lend_positive [of p a b] by (cases "lend p a b = 0"; simp)+

lemma borrow_head: "borrow_pairs p (a # cs) = h # r \<Longrightarrow> cu_start h = cu_start a"
  by (cases cs) auto

lemma borrow_gaps: "cue_gaps (borrow_pairs p cs) = cue_gaps cs"
proof (induction p cs rule: borrow_pairs.induct)
  case (1 p a b cs)
  obtain h r where h: "borrow_pairs p (b\<lparr>cu_start := cu_start b + lend p a b\<rparr> # cs) = h # r"
    by (cases cs) auto
  with 1 borrow_head [OF h] show ?case
    by (cases cs) simp_all
qed simp_all

lemma borrow_kept: "list_all2 (cue_kept p) cs (borrow_pairs p cs)"
proof (induction p cs rule: borrow_pairs.induct)
  case (1 p a b cs)
  obtain h r where h: "borrow_pairs p (b\<lparr>cu_start := cu_start b + lend p a b\<rparr> # cs) = h # r"
    by (cases cs) auto
  with 1 have k: "cue_kept p (b\<lparr>cu_start := cu_start b + lend p a b\<rparr>) h" and r: "list_all2 (cue_kept p) cs r"
    by simp_all
  have "cue_kept p a (a\<lparr>cu_end := cu_end a + lend p a b\<rparr>)"
    using lend_facts [of p a b] by (auto simp: cue_kept_def too_fast_iff)
  moreover have "cue_kept p b h"
    using k borrow_head [OF h] lend_facts [of p a b] unfolding cue_kept_def too_fast_iff
    by (auto simp: char_count_def)
  ultimately show ?case
    using r by (simp add: h)
qed (auto simp: cue_kept_def)

lemma extend_cue_calm: "cu_start c < cu_end c \<Longrightarrow> cu_start c < cu_end (extend_cue p c d)"
  by (rule extend_cue_shape [of p c d]) simp

lemma cue_kept_trans:
  assumes "cue_kept p a b" "cue_kept p b c" "cu_start b = cu_start a"
  shows "cue_kept p a c"
  using assms by (auto simp: cue_kept_def)

lemma gap_kept_refl: "gap_kept p g g"
  by (simp add: gap_kept_def)

lemma retime_kept:
  "list_all2 (cue_kept p) cs (retime_cues p cs)"
  "list_all2 (gap_kept p) (cue_gaps cs) (cue_gaps (retime_cues p cs))"
proof -
  have e: "list_all2 (\<lambda>a b. cue_kept p a b \<and> cu_start b = cu_start a) cs (extend_cues p cs)"
    by (induction p cs rule: extend_cues.induct) (auto simp: extend_cue_kept)
  have b: "list_all2 (cue_kept p) (extend_cues p cs) (retime_cues p cs)"
    using borrow_kept [of p "extend_cues p cs"]
    by (auto simp: retime_cues_def borrow_from_next_def cue_kept_def list_all2_same)
  show "list_all2 (cue_kept p) cs (retime_cues p cs)"
    by (rule list_all2_trans [OF _ e b]) (auto intro: cue_kept_trans)
  show "list_all2 (gap_kept p) (cue_gaps cs) (cue_gaps (retime_cues p cs))"
    using extend_cues_gaps [of p cs] borrow_gaps [of p "extend_cues p cs"]
    by (auto simp: retime_cues_def borrow_from_next_def)
qed

text \<open>Re-timing keeps every cue: its number and text stay, it never starts earlier nor more than
  \<open>max_borrow_ms\<close> later, never ends earlier, grows at most to \<open>max_cue_ms\<close>, and a cue that was on
  screen and readable at 25 characters per second still is. Between two cues the gap stays at least
  as large as it was or as \<open>min_gap_ms\<close> allows, so an overlap is never created nor widened.\<close>

theorem retime_keeps_cues:
  "list_all2 (cue_kept p) cs (retime_cues p cs) \<and> list_all2 (gap_kept p) (cue_gaps cs) (cue_gaps (retime_cues p cs))"
  using retime_kept by blast

section \<open>No new critical issue\<close>

definition is_critical :: "cue_issue \<Rightarrow> bool" where
  "is_critical i \<longleftrightarrow> ci_severity i = Critical"

lemma critical_of_cue:
  "filter is_critical (cue_issues comfortable_cps critical_cps c following) =
     (if too_fast c then [\<lparr>ci_index = cu_index c, ci_kind = Reading_speed, ci_severity = Critical\<rparr>] else [])
     @ (case following of None \<Rightarrow> []
        | Some d \<Rightarrow> if cu_start d < cu_end c then [\<lparr>ci_index = cu_index c, ci_kind = Overlap, ci_severity = Critical\<rparr>] else [])"
  by (auto simp: cue_issues_def Let_def is_critical_def too_fast_def split: option.split)

lemma critical_step:
  assumes "cue_kept p c c'" "cu_start c < cu_end c" "0 \<le> rp_min_gap p"
    "gap_kept p (cu_start d - cu_end c) (cu_start d' - cu_end c')"
  shows "subseq (filter is_critical (cue_issues comfortable_cps critical_cps c' (Some d')))
    (filter is_critical (cue_issues comfortable_cps critical_cps c (Some d)))"
  using assms unfolding critical_of_cue by (auto simp: cue_kept_def gap_kept_def)

lemma critical_final:
  assumes "cue_kept p c c'" "cu_start c < cu_end c"
  shows "subseq (filter is_critical (cue_issues comfortable_cps critical_cps c' None))
    (filter is_critical (cue_issues comfortable_cps critical_cps c None))"
  using assms unfolding critical_of_cue by (auto simp: cue_kept_def)

lemma critical_all:
  assumes "list_all2 (cue_kept p) cs cs'" "list_all2 (gap_kept p) (cue_gaps cs) (cue_gaps cs')"
    "0 \<le> rp_min_gap p" "list_all (\<lambda>c. cu_start c < cu_end c) cs"
  shows "subseq (filter is_critical (analyze_cues cs')) (filter is_critical (analyze_cues cs))"
  using assms(1,2,4) unfolding analyze_cues_def
proof (induction cs arbitrary: cs' rule: induct_list012)
  case (2 c)
  then show ?case using critical_final by (auto simp: list_all2_Cons1)
next
  case (3 c d cs)
  then obtain c' d' ds' where cs': "cs' = c' # d' # ds'" by (auto simp: list_all2_Cons1)
  have "subseq (filter is_critical (cue_issues comfortable_cps critical_cps c' (Some d')))
      (filter is_critical (cue_issues comfortable_cps critical_cps c (Some d)))"
    by (rule critical_step) (use 3 assms(3) in \<open>auto simp: cs'\<close>)
  moreover have "subseq (filter is_critical (analyze_with comfortable_cps critical_cps (d' # ds')))
      (filter is_critical (analyze_with comfortable_cps critical_cps (d # cs)))"
    by (rule 3) (use 3 in \<open>auto simp: cs'\<close>)
  ultimately show ?case by (simp add: cs' list_emb_append_mono)
qed simp

text \<open>On a file whose cues are all on screen for some time, re-timing introduces no critical
  readability issue: the critical issues the linter reports afterwards are among those it reported
  before, in the same order.\<close>

theorem retime_no_new_critical:
  assumes "0 \<le> rp_min_gap p" "list_all (\<lambda>c. cu_start c < cu_end c) cs"
  shows "subseq (filter is_critical (analyze_cues (retime_cues p cs))) (filter is_critical (analyze_cues cs))"
  using retime_kept assms by (rule critical_all)

definition fast_pair :: "cue list" where
  "fast_pair = [\<lparr>cu_index = 1, cu_start = 0, cu_end = 2000, cu_lines = [replicate 60 (CHR ''x'')]\<rparr>,
     \<lparr>cu_index = 2, cu_start = 2000, cu_end = 3000, cu_lines = [replicate 10 (CHR ''x'')]\<rparr>]"

theorem retime_no_new_critical_witness:
  "subseq (filter is_critical (analyze_cues (retime_cues default_params fast_pair)))
     (filter is_critical (analyze_cues fast_pair))
   \<and> filter is_critical (analyze_cues fast_pair) \<noteq> []"
  by (intro conjI retime_no_new_critical) code_simp+

text \<open>The module promises that starts never move and that re-timing is idempotent. Neither holds: the
  first pass delays the second cue by 400 ms to rescue the first, and so makes the second one faster
  than the target, which the second pass then extends.\<close>

lemma retime_moves_a_start:
  "map (\<lambda>c. (cu_start c, cu_end c)) (retime_cues default_params fast_pair) = [(0, 2400), (2400, 3000)]"
  by code_simp

lemma retime_not_idempotent:
  "map (\<lambda>c. (cu_start c, cu_end c)) (retime_cues default_params (retime_cues default_params fast_pair))
     = [(0, 2400), (2400, 3400)]"
  by code_simp

end
