(* ===== verification/Langs.thy ===== *)
theory Langs
  imports Prelude
begin

text \<open>
  Language codes (\<open>src/src/subarr/langs.py\<close>). The four tables are the source's dicts entry by
  entry, as association lists in source order; \<open>normalize_lang\<close>, \<open>is_language_code\<close>
  and \<open>display_name\<close> are the lookups the other components share. Text is Latin-1 here, so
  the lower-casing of other scripts is not modelled (no table key has such a character).
\<close>

section \<open>Tables\<close>

definition name_to_iso :: "(string \<times> string) list" where
  "name_to_iso =
    [(''english'', ''en''), (''french'', ''fr''), (''german'', ''de''), (''spanish'', ''es''), (''italian'', ''it''), (''portuguese'', ''pt''),
     (''dutch'', ''nl''), (''swedish'', ''sv''), (''norwegian'', ''no''), (''norwegian nynorsk'', ''nn''), (''nynorsk'', ''nn''), (''danish'', ''da''),
     (''finnish'', ''fi''), (''icelandic'', ''is''), (''russian'', ''ru''), (''ukrainian'', ''uk''), (''polish'', ''pl''), (''czech'', ''cs''),
     (''slovak'', ''sk''), (''croatian'', ''hr''), (''serbian'', ''sr''), (''bulgarian'', ''bg''), (''slovenian'', ''sl''), (''greek'', ''el''),
     (''turkish'', ''tr''), (''hebrew'', ''he''), (''arabic'', ''ar''), (''persian'', ''fa''), (''hindi'', ''hi''), (''korean'', ''ko''),
     (''japanese'', ''ja''), (''chinese'', ''zh''), (''mandarin'', ''zh''), (''thai'', ''th''), (''vietnamese'', ''vi''), (''indonesian'', ''id''),
     (''romanian'', ''ro''), (''hungarian'', ''hu''), (''catalan'', ''ca''), (''galician'', ''gl'')]"

definition iso3_to_iso1 :: "(string \<times> string) list" where
  "iso3_to_iso1 =
    [(''eng'', ''en''), (''fre'', ''fr''), (''fra'', ''fr''), (''ger'', ''de''), (''deu'', ''de''), (''spa'', ''es''), (''ita'', ''it''),
     (''por'', ''pt''), (''dut'', ''nl''), (''nld'', ''nl''), (''swe'', ''sv''), (''nor'', ''no''), (''nno'', ''nn''), (''dan'', ''da''),
     (''fin'', ''fi''), (''isl'', ''is''), (''rus'', ''ru''), (''ukr'', ''uk''), (''pol'', ''pl''), (''cze'', ''cs''), (''ces'', ''cs''),
     (''slo'', ''sk''), (''slk'', ''sk''), (''hrv'', ''hr''), (''srp'', ''sr''), (''bul'', ''bg''), (''slv'', ''sl''), (''gre'', ''el''),
     (''ell'', ''el''), (''tur'', ''tr''), (''heb'', ''he''), (''ara'', ''ar''), (''per'', ''fa''), (''fas'', ''fa''), (''hin'', ''hi''),
     (''kor'', ''ko''), (''jpn'', ''ja''), (''chi'', ''zh''), (''zho'', ''zh''), (''tha'', ''th''), (''vie'', ''vi''), (''ind'', ''id''),
     (''rum'', ''ro''), (''ron'', ''ro''), (''hun'', ''hu''), (''cat'', ''ca''), (''glg'', ''gl''), (''gal'', ''gl''), (''zxx'', ''zxx'')]"

definition upstream_iso639_2_to_1 :: "(string \<times> string) list" where
  "upstream_iso639_2_to_1 =
    [(''aar'', ''aa''), (''afr'', ''af''), (''alb'', ''sq''), (''amh'', ''am''), (''ara'', ''ar''), (''arm'', ''hy''), (''asm'', ''as''),
     (''aze'', ''az''), (''bak'', ''ba''), (''baq'', ''eu''), (''bel'', ''be''), (''ben'', ''bn''), (''bod'', ''bo''), (''bos'', ''bs''),
     (''bre'', ''br''), (''bul'', ''bg''), (''bur'', ''my''), (''cat'', ''ca''), (''ces'', ''cs''), (''chi'', ''zh''), (''cym'', ''cy''),
     (''cze'', ''cs''), (''dan'', ''da''), (''deu'', ''de''), (''dut'', ''nl''), (''ell'', ''el''), (''eng'', ''en''), (''est'', ''et''),
     (''eus'', ''eu''), (''fao'', ''fo''), (''fas'', ''fa''), (''fin'', ''fi''), (''fra'', ''fr''), (''fre'', ''fr''), (''geo'', ''ka''),
     (''ger'', ''de''), (''glg'', ''gl''), (''gre'', ''el''), (''guj'', ''gu''), (''hat'', ''ht''), (''hau'', ''ha''), (''haw'', ''haw''),
     (''heb'', ''he''), (''hin'', ''hi''), (''hrv'', ''hr''), (''hun'', ''hu''), (''hye'', ''hy''), (''ice'', ''is''), (''ind'', ''id''),
     (''isl'', ''is''), (''ita'', ''it''), (''jav'', ''jw''), (''jpn'', ''ja''), (''kan'', ''kn''), (''kat'', ''ka''), (''kaz'', ''kk''),
     (''khm'', ''km''), (''kor'', ''ko''), (''lao'', ''lo''), (''lat'', ''la''), (''lav'', ''lv''), (''lin'', ''ln''), (''lit'', ''lt''),
     (''ltz'', ''lb''), (''mac'', ''mk''), (''mal'', ''ml''), (''mao'', ''mi''), (''mar'', ''mr''), (''may'', ''ms''), (''mkd'', ''mk''),
     (''mlg'', ''mg''), (''mlt'', ''mt''), (''mon'', ''mn''), (''mri'', ''mi''), (''msa'', ''ms''), (''mya'', ''my''), (''nep'', ''ne''),
     (''nld'', ''nl''), (''nno'', ''nn''), (''nor'', ''no''), (''oci'', ''oc''), (''pan'', ''pa''), (''per'', ''fa''), (''pol'', ''pl''),
     (''por'', ''pt''), (''pus'', ''ps''), (''ron'', ''ro''), (''rum'', ''ro''), (''rus'', ''ru''), (''san'', ''sa''), (''sin'', ''si''),
     (''slk'', ''sk''), (''slo'', ''sk''), (''slv'', ''sl''), (''sna'', ''sn''), (''snd'', ''sd''), (''som'', ''so''), (''spa'', ''es''),
     (''sqi'', ''sq''), (''srp'', ''sr''), (''sun'', ''su''), (''swa'', ''sw''), (''swe'', ''sv''), (''tam'', ''ta''), (''tat'', ''tt''),
     (''tel'', ''te''), (''tgk'', ''tg''), (''tgl'', ''tl''), (''tha'', ''th''), (''tib'', ''bo''), (''tuk'', ''tk''), (''tur'', ''tr''),
     (''ukr'', ''uk''), (''urd'', ''ur''), (''uzb'', ''uz''), (''vie'', ''vi''), (''wel'', ''cy''), (''yid'', ''yi''), (''yor'', ''yo''),
     (''yue'', ''yue''), (''zho'', ''zh'')]"

definition whisper_languages :: "(string \<times> string) list" where
  "whisper_languages =
    [(''en'', ''English''), (''zh'', ''Chinese''), (''de'', ''German''), (''es'', ''Spanish''), (''ru'', ''Russian''), (''ko'', ''Korean''),
     (''fr'', ''French''), (''ja'', ''Japanese''), (''pt'', ''Portuguese''), (''tr'', ''Turkish''), (''pl'', ''Polish''), (''ca'', ''Catalan''),
     (''nl'', ''Dutch''), (''ar'', ''Arabic''), (''sv'', ''Swedish''), (''it'', ''Italian''), (''id'', ''Indonesian''), (''hi'', ''Hindi''),
     (''fi'', ''Finnish''), (''vi'', ''Vietnamese''), (''he'', ''Hebrew''), (''uk'', ''Ukrainian''), (''el'', ''Greek''), (''ms'', ''Malay''),
     (''cs'', ''Czech''), (''ro'', ''Romanian''), (''da'', ''Danish''), (''hu'', ''Hungarian''), (''ta'', ''Tamil''), (''no'', ''Norwegian''),
     (''th'', ''Thai''), (''ur'', ''Urdu''), (''hr'', ''Croatian''), (''bg'', ''Bulgarian''), (''lt'', ''Lithuanian''), (''la'', ''Latin''),
     (''mi'', ''Maori''), (''ml'', ''Malayalam''), (''cy'', ''Welsh''), (''sk'', ''Slovak''), (''te'', ''Telugu''), (''fa'', ''Persian''),
     (''lv'', ''Latvian''), (''bn'', ''Bengali''), (''sr'', ''Serbian''), (''az'', ''Azerbaijani''), (''sl'', ''Slovenian''), (''kn'', ''Kannada''),
     (''et'', ''Estonian''), (''mk'', ''Macedonian''), (''br'', ''Breton''), (''eu'', ''Basque''), (''is'', ''Icelandic''), (''hy'', ''Armenian''),
     (''ne'', ''Nepali''), (''mn'', ''Mongolian''), (''bs'', ''Bosnian''), (''kk'', ''Kazakh''), (''sq'', ''Albanian''), (''sw'', ''Swahili''),
     (''gl'', ''Galician''), (''mr'', ''Marathi''), (''pa'', ''Punjabi''), (''si'', ''Sinhala''), (''km'', ''Khmer''), (''sn'', ''Shona''),
     (''yo'', ''Yoruba''), (''so'', ''Somali''), (''af'', ''Afrikaans''), (''oc'', ''Occitan''), (''ka'', ''Georgian''), (''be'', ''Belarusian''),
     (''tg'', ''Tajik''), (''sd'', ''Sindhi''), (''gu'', ''Gujarati''), (''am'', ''Amharic''), (''yi'', ''Yiddish''), (''lo'', ''Lao''),
     (''uz'', ''Uzbek''), (''fo'', ''Faroese''), (''ht'', ''Haitian Creole''), (''ps'', ''Pashto''), (''tk'', ''Turkmen''), (''nn'', ''Nynorsk''),
     (''mt'', ''Maltese''), (''sa'', ''Sanskrit''), (''lb'', ''Luxembourgish''), (''my'', ''Myanmar''), (''bo'', ''Tibetan''), (''tl'', ''Tagalog''),
     (''mg'', ''Malagasy''), (''as'', ''Assamese''), (''tt'', ''Tatar''), (''haw'', ''Hawaiian''), (''ln'', ''Lingala''), (''ha'', ''Hausa''),
     (''ba'', ''Bashkir''), (''jw'', ''Javanese''), (''su'', ''Sundanese''), (''yue'', ''Cantonese''), (''zxx'', ''No linguistic content'')]"

section \<open>Lookups\<close>

definition is_language_code :: "string \<Rightarrow> bool" where
  "is_language_code token =
     (let tok = lower (strip token) in
      map_of whisper_languages tok \<noteq> None \<or> map_of iso3_to_iso1 tok \<noteq> None)"

definition display_name :: "string option \<Rightarrow> string" where
  "display_name code =
     (if \<not> truthy_str code then or_empty code
      else let c = lower (strip (or_empty code)) in
           case map_of whisper_languages c of Some n \<Rightarrow> n | None \<Rightarrow> c)"

text \<open>\<open>s.split("-", 1)[0].split("_", 1)[0]\<close>.\<close>

definition primary_subtag :: "string \<Rightarrow> string" where
  "primary_subtag s = takeWhile (\<lambda>c. c \<noteq> CHR ''_'') (takeWhile (\<lambda>c. c \<noteq> CHR ''-'') s)"

definition lookup_subtag :: "string \<Rightarrow> string" where
  "lookup_subtag s =
     (case map_of name_to_iso s of
        Some c \<Rightarrow> c
      | None \<Rightarrow>
          (if length s = 3 then (case map_of iso3_to_iso1 s of Some c \<Rightarrow> c | None \<Rightarrow> s) else s))"

definition normalize_lang :: "string option \<Rightarrow> string option" where
  "normalize_lang v =
     (if \<not> truthy_str v then v
      else let s = lower (strip (or_empty v)) in
        if s = [] then None
        else if s = ''und'' \<or> s = ''unknown'' then Some s
        else Some (lookup_subtag (primary_subtag s)))"

section \<open>Normalisation is stable\<close>

lemma code_of_lt: "code_of c < 256"
  by (cases c) (simp add: code_of_def of_char_def horner_sum_simps)

lemma code_of_char_of: "n < 256 \<Longrightarrow> code_of (char_of n) = n"
  by (simp add: code_of_def)

lemma code_lower_char:
  "code_of (lower_char c) =
     (if (65 \<le> code_of c \<and> code_of c \<le> 90) \<or> (192 \<le> code_of c \<and> code_of c \<le> 222 \<and> code_of c \<noteq> 215)
      then code_of c + 32 else code_of c)"
  using code_of_lt [of c] by (auto simp: lower_char_def Let_def code_of_char_of)

lemma code_of_eq: "code_of c = code_of d \<longleftrightarrow> c = d"
  by (simp add: code_of_def)

lemma lower_char_idem [simp]: "lower_char (lower_char c) = lower_char c"
  using code_lower_char [of c] code_lower_char [of "lower_char c"] by (simp add: code_of_eq [symmetric])

lemma lower_idem [simp]: "lower (lower s) = lower s"
  by (simp add: lower_def)

lemma py_space_lower_char [simp]: "py_space (lower_char c) = py_space c"
  using code_lower_char [of c] by (auto simp: py_space_def Let_def)

lemma strip_no_space: "\<forall>c \<in> set s. \<not> py_space c \<Longrightarrow> strip s = s"
  unfolding strip_def by (rule strip_of_idle) auto

lemma lower_lower_char: "\<forall>c \<in> set s. lower_char c = c \<Longrightarrow> lower s = s"
  unfolding lower_def by (rule map_idI) auto

definition canonical_code :: "string \<Rightarrow> bool" where
  "canonical_code w \<longleftrightarrow> w \<noteq> [] \<and> (\<forall>c \<in> set w. \<not> py_space c \<and> lower_char c = c \<and> c \<noteq> CHR ''-'' \<and> c \<noteq> CHR ''_'')
     \<and> lookup_subtag w = w"

lemma primary_subtag_no_sep:
  "\<forall>c \<in> set w. c \<noteq> CHR ''-'' \<and> c \<noteq> CHR ''_'' \<Longrightarrow> primary_subtag w = w"
proof -
  assume "\<forall>c \<in> set w. c \<noteq> CHR ''-'' \<and> c \<noteq> CHR ''_''"
  then have "takeWhile (\<lambda>c. c \<noteq> CHR ''-'') w = w" "takeWhile (\<lambda>c. c \<noteq> CHR ''_'') w = w"
    by (auto simp: takeWhile_eq_all_conv)
  then show ?thesis unfolding primary_subtag_def by metis
qed

lemma normalize_canonical: "canonical_code w \<Longrightarrow> normalize_lang (Some w) = Some w"
  by (simp add: normalize_lang_def canonical_code_def truthy_str_def or_empty_def strip_no_space
      lower_lower_char primary_subtag_no_sep)

lemma name_values_canonical: "list_all canonical_code (map snd name_to_iso)"
  by code_simp

lemma iso3_values_canonical: "list_all canonical_code (map snd iso3_to_iso1)"
  by code_simp

lemma lookup_subtag_cases: "lookup_subtag u = u \<or> canonical_code (lookup_subtag u)"
  using name_values_canonical iso3_values_canonical
  by (auto simp: lookup_subtag_def list_all_iff split: option.splits dest!: map_of_SomeD)

lemma set_primary_subtag:
  "set (primary_subtag s) \<subseteq> {c \<in> set s. c \<noteq> CHR ''-'' \<and> c \<noteq> CHR ''_''}"
  unfolding primary_subtag_def by (auto dest!: set_takeWhileD)

lemma normalize_plain:
  assumes "\<forall>c \<in> set u. \<not> py_space c \<and> lower_char c = c \<and> c \<noteq> CHR ''-'' \<and> c \<noteq> CHR ''_''" "lookup_subtag u = u"
  shows "normalize_lang (Some u) = Some u"
proof (cases "u = []")
  case True
  then show ?thesis by (simp add: normalize_lang_def truthy_str_def)
next
  case False
  then show ?thesis using assms by (intro normalize_canonical) (simp add: canonical_code_def)
qed

text \<open>Normalising a language label twice gives the same bucket as normalising it once, so
  a label that went through the store and back is grouped with the original, for every label
  without white space inside.\<close>

theorem normalize_lang_idempotent:
  assumes "\<forall>c \<in> set s. \<not> py_space c"
  shows "normalize_lang (normalize_lang (Some s)) = normalize_lang (Some s)"
proof -
  define t where "t = lower s"
  have t: "lower (strip s) = t" and tc: "\<forall>c \<in> set t. \<not> py_space c \<and> lower_char c = c"
    using assms by (auto simp: t_def strip_no_space lower_def)
  show ?thesis
  proof (cases "s = [] \<or> t = [] \<or> t = ''und'' \<or> t = ''unknown''")
    case True
    then show ?thesis using t tc
      by (auto simp: normalize_lang_def truthy_str_def or_empty_def strip_no_space lower_lower_char)
  next
    case False
    define u where "u = primary_subtag t"
    have n: "normalize_lang (Some s) = Some (lookup_subtag u)"
      using False by (simp add: normalize_lang_def truthy_str_def or_empty_def t u_def)
    have u: "\<forall>c \<in> set u. \<not> py_space c \<and> lower_char c = c \<and> c \<noteq> CHR ''-'' \<and> c \<noteq> CHR ''_''"
      using set_primary_subtag [of t] tc unfolding u_def by blast
    show ?thesis
    proof (cases "lookup_subtag u = u")
      case True
      then show ?thesis using n normalize_plain [OF u] by simp
    next
      case False
      then show ?thesis using n lookup_subtag_cases [of u] normalize_canonical by simp
    qed
  qed
qed

theorem normalize_lang_idempotent_witness:
  "normalize_lang (Some ''pt-BR'') = Some ''pt'' \<and> normalize_lang (normalize_lang (Some ''KOREAN'')) = normalize_lang (Some ''KOREAN'')"
proof
  show "normalize_lang (Some ''pt-BR'') = Some ''pt''" by code_simp
  show "normalize_lang (normalize_lang (Some ''KOREAN'')) = normalize_lang (Some ''KOREAN'')"
    by (rule normalize_lang_idempotent) (simp add: py_space_def code_of_def Let_def)
qed

definition agree_on :: "(string \<times> string) list \<Rightarrow> (string \<times> string) list \<Rightarrow> bool" where
  "agree_on m n \<longleftrightarrow> list_all (\<lambda>(k, v). case map_of n k of None \<Rightarrow> True | Some v' \<Rightarrow> v' = v) m"

text \<open>The tables are consistent with each other: every code a name or a three-letter tag is
  mapped to is one the language picker knows (except Afar, which only upstream's table
  has), and wherever subarr's forgiving table and the table copied from upstream subgen both
  know a three-letter tag they give the same code.\<close>

theorem language_tables_consistent:
  "list_all (\<lambda>(k, c). c \<in> set (map fst whisper_languages)) (name_to_iso @ iso3_to_iso1)
    \<and> list_all (\<lambda>(k, c). c \<in> set (''aa'' # map fst whisper_languages)) upstream_iso639_2_to_1
    \<and> agree_on iso3_to_iso1 upstream_iso639_2_to_1"
  by code_simp

end
