(* ===== verification/Sidecars.thy ===== *)
theory Sidecars
  imports Decimal Langs
begin

text \<open>
  Subtitle files next to a video: the directory scans of \<open>src/src/subarr/paths.py\<close>
  (\<open>srt_sidecar_names\<close>, \<open>image_sidecar_names\<close>) and the test for a full English sidecar in
  \<open>src/src/subarr/pending_reconcile.py\<close>. A directory listing is the list of its entries with
  their \<open>is_file()\<close>, or \<open>None\<close> when reading it raises \<open>OSError\<close>.
\<close>

section \<open>File names\<close>

text \<open>\<open>PurePath.stem\<close> and \<open>PurePath.suffix\<close>: a dot at either end of the name starts no suffix.\<close>

definition has_suffix :: "string \<Rightarrow> bool" where
  "has_suffix name \<longleftrightarrow> CHR ''.'' \<in> set name \<and> rsplit_first (CHR ''.'') name \<noteq> [] \<and> rsplit_last (CHR ''.'') name \<noteq> []"

definition path_suffix :: "string \<Rightarrow> string" where
  "path_suffix name = (if has_suffix name then CHR ''.'' # rsplit_last (CHR ''.'') name else [])"

definition path_stem :: "string \<Rightarrow> string" where
  "path_stem name = (if has_suffix name then rsplit_first (CHR ''.'') name else name)"

section \<open>Directory scans\<close>

type_synonym listing = "(string \<times> bool) list option"

definition srt_sidecar_names :: "listing \<Rightarrow> string \<Rightarrow> string list" where
  "srt_sidecar_names entries stem =
     (case entries of
        None \<Rightarrow> []
      | Some es \<Rightarrow> sort [n. (n, is_file) \<leftarrow> es, prefix stem n \<and> suffix ''.srt'' n \<and> is_file])"

definition image_sidecar_names :: "listing \<Rightarrow> string \<Rightarrow> string list" where
  "image_sidecar_names entries stem =
     (case entries of
        None \<Rightarrow> []
      | Some es \<Rightarrow>
          (let names = [n. (n, is_file) \<leftarrow> es, prefix stem n \<and> is_file];
               have_names = map lower names
           in sort (filter (\<lambda>n. suffix ''.idx'' (lower n)
                       \<and> lower (take (length n - 4) n @ ''.sub'') \<in> set have_names) names)))"

section \<open>Full English sidecars\<close>

definition forced_tokens :: "string list" where "forced_tokens = [''forced'']"
definition english_tokens :: "string list" where "english_tokens = [''en'', ''eng'']"

text \<open>\<open>[p.lower() for p in tail.split(".") if p]\<close>.\<close>

definition tail_tokens :: "string \<Rightarrow> string list" where
  "tail_tokens tail = map lower (filter (\<lambda>p. p \<noteq> []) (split_on (CHR ''.'') tail))"

definition is_full_english_sidecar :: "string \<Rightarrow> string \<Rightarrow> bool" where
  "is_full_english_sidecar filename stem =
     (let name = rsplit_last (CHR ''/'') filename in
      if \<not> suffix ''.srt'' (lower name) then False
      else (let base = take (length name - 4) name in
        if \<not> prefix stem base then False
        else (let tail = drop (length stem) base in
          if \<not> prefix ''.'' tail then False
          else (let parts = tail_tokens tail in
            if list_ex (\<lambda>p. p \<in> set forced_tokens) parts then False
            else list_ex (\<lambda>p. p \<in> set english_tokens) parts))))"

definition stem_of :: "string \<Rightarrow> string" where
  "stem_of canonical_path =
     (let name = rsplit_last (CHR ''/'') canonical_path in
      if CHR ''.'' \<in> set name then rsplit_first (CHR ''.'') name else name)"

lemma srt_sidecar_mem:
  "n \<in> set (srt_sidecar_names entries stem) \<longleftrightarrow>
     (\<exists>es. entries = Some es \<and> (n, True) \<in> set es \<and> prefix stem n \<and> suffix ''.srt'' n)"
  by (auto simp: srt_sidecar_names_def split: option.splits)

lemma tail_tokens_no_dot: "t \<in> set (tail_tokens tail) \<Longrightarrow> t \<noteq> []"
  by (auto simp: tail_tokens_def lower_def)

end
