(* ===== verification/Libraries.thy ===== *)
theory Libraries
  imports Prelude
begin

text \<open>
  The configured media libraries and service instances
  (\<open>src/src/subarr/libraries.py\<close>, \<open>src/src/subarr/instances.py\<close>): the slug rule, and
  the two validators that turn persisted JSON into the library and instance tuples.
  An entry of the persisted list is \<open>RObj\<close> with textual field values, or a value of
  another JSON type (\<open>RList\<close>, \<open>ROther\<close>), which the validators reject.
\<close>

section \<open>Slugs\<close>

definition slug_char :: "char \<Rightarrow> bool" where
  "slug_char c \<longleftrightarrow> (let n = code_of c in (97 \<le> n \<and> n \<le> 122) \<or> (48 \<le> n \<and> n \<le> 57))"

text \<open>\<open>_SLUG_RE.sub("-", s)\<close>: each maximal run of other characters becomes one dash.\<close>

fun dash_runs :: "bool \<Rightarrow> string \<Rightarrow> string" where
  "dash_runs inrun [] = []"
| "dash_runs inrun (c # s) =
     (if slug_char c then c # dash_runs False s
      else if inrun then dash_runs True s else CHR ''-'' # dash_runs True s)"

definition slugify :: "string \<Rightarrow> string" where
  "slugify name = strip_char (CHR ''-'') (dash_runs False (lower (strip name)))"

lemma dash_runs_chars: "set (dash_runs r s) \<subseteq> {c. slug_char c} \<union> {CHR ''-''}"
  by (induction r s rule: dash_runs.induct) auto

lemma slugify_chars: "c \<in> set (slugify s) \<Longrightarrow> slug_char c \<or> c = CHR ''-''"
proof -
  assume "c \<in> set (slugify s)"
  then have "c \<in> set (dash_runs False (lower (strip s)))"
    unfolding slugify_def strip_char_def by (rule set_strip_of [THEN subsetD])
  then show ?thesis using dash_runs_chars by auto
qed

lemma slash_not_slug: "\<not> slug_char (CHR ''/'')" and at_not_slug: "\<not> slug_char (CHR ''@'')"
  by (simp_all add: slug_char_def code_of_def)

lemma slash_not_in_slugify: "CHR ''/'' \<notin> set (slugify s)"
  using slugify_chars [of "CHR ''/''" s] slash_not_slug by auto

section \<open>Libraries\<close>

record library =
  lib_slug :: string
  lib_name :: string
  lib_fs_root :: string
  lib_subgen_prefix :: string
  lib_arr_prefix :: string
  lib_sonarr_id :: string
  lib_radarr_id :: string
  lib_bazarr_id :: string

datatype raw = RObj "(string \<times> string) list" | RList "raw list" | ROther

datatype config_error =
    NotAnObject nat
  | NotAList string
  | MissingField nat string
  | NoUsableId string
  | DuplicateId string
  | DuplicateArrPrefix string

text \<open>\<open>str(raw.get(key, "")).strip()\<close>\<close>

definition raw_field :: "(string \<times> string) list \<Rightarrow> string \<Rightarrow> string" where
  "raw_field obj k = strip (or_empty (map_of obj k))"

definition norm_ap :: "string \<Rightarrow> string" where
  "norm_ap ap = rstrip_char (CHR ''/'') (map (\<lambda>c. if c = CHR 92 then CHR ''/'' else c) ap)"

definition or_str :: "string \<Rightarrow> string \<Rightarrow> string" where
  "or_str a b = (if a \<noteq> [] then a else b)"

fun build_libraries_loop ::
    "library \<Rightarrow> nat \<Rightarrow> raw list \<Rightarrow> string list \<Rightarrow> string list \<Rightarrow> library list
      \<Rightarrow> config_error + library list" where
  "build_libraries_loop lib0 i [] seen seen_arr out = Inr out"
| "build_libraries_loop lib0 i (r # rs) seen seen_arr out =
     (case r of
        RObj obj \<Rightarrow>
          (let name = raw_field obj ''name'';
               fs_root = raw_field obj ''fs_root'';
               arr_prefix = raw_field obj ''arr_prefix'';
               slug = or_str (raw_field obj ''slug'') (slugify name);
               ap = norm_ap arr_prefix
           in if name = [] then Inl (MissingField i ''name'')
              else if fs_root = [] then Inl (MissingField i ''fs_root'')
              else if arr_prefix = [] then Inl (MissingField i ''arr_prefix'')
              else if slug = [] then Inl (NoUsableId name)
              else if slug \<in> set seen then Inl (DuplicateId slug)
              else if ap \<in> set seen_arr then Inl (DuplicateArrPrefix name)
              else build_libraries_loop lib0 (i + 1) rs (slug # seen) (ap # seen_arr)
                (out @ [\<lparr>lib_slug = slug, lib_name = name, lib_fs_root = fs_root,
                         lib_subgen_prefix = or_str (raw_field obj ''subgen_prefix'') (lib_subgen_prefix lib0),
                         lib_arr_prefix = arr_prefix,
                         lib_sonarr_id = raw_field obj ''sonarr_id'',
                         lib_radarr_id = raw_field obj ''radarr_id'',
                         lib_bazarr_id = raw_field obj ''bazarr_id''\<rparr>]))
      | _ \<Rightarrow> Inl (NotAnObject i))"

definition build_libraries :: "library \<Rightarrow> raw list \<Rightarrow> config_error + library list" where
  "build_libraries dflt extras =
     (let lib0 = dflt\<lparr>lib_slug := []\<rparr>
      in build_libraries_loop lib0 0 extras [[]]
           (if lib_arr_prefix dflt \<noteq> [] then [norm_ap (lib_arr_prefix dflt)] else []) [lib0])"

definition extra_arr_prefixes :: "library list \<Rightarrow> string list" where
  "extra_arr_prefixes libs =
     map (norm_ap \<circ> lib_arr_prefix) (filter (\<lambda>l. lib_arr_prefix l \<noteq> []) libs)"

text \<open>What the validator promises of the tuple it returns.\<close>

definition libraries_ok :: "library list \<Rightarrow> bool" where
  "libraries_ok libs \<longleftrightarrow>
     libs \<noteq> [] \<and> lib_slug (hd libs) = [] \<and> distinct (map lib_slug libs)
     \<and> distinct (extra_arr_prefixes libs)
     \<and> (\<forall>l \<in> set (tl libs). lib_slug l \<noteq> [] \<and> lib_name l \<noteq> [] \<and> lib_fs_root l \<noteq> []
           \<and> lib_arr_prefix l \<noteq> [])"

lemma build_libraries_loop_ok:
  assumes "build_libraries_loop lib0 i rs seen seen_arr out = Inr libs"
    and "libraries_ok out" and "set seen = lib_slug ` set out"
    and "set seen_arr = set (extra_arr_prefixes out)"
  shows "libraries_ok libs \<and> prefix out libs \<and> length libs = length out + length rs"
  using assms
proof (induction lib0 i rs seen seen_arr out rule: build_libraries_loop.induct)
  case (2 lib0 i r rs seen seen_arr out)
  from "2.prems"(1) obtain obj where r: "r = RObj obj"
    by (auto split: raw.splits)
  define l where "l = \<lparr>lib_slug = or_str (raw_field obj ''slug'') (slugify (raw_field obj ''name'')),
      lib_name = raw_field obj ''name'', lib_fs_root = raw_field obj ''fs_root'',
      lib_subgen_prefix = or_str (raw_field obj ''subgen_prefix'') (lib_subgen_prefix lib0),
      lib_arr_prefix = raw_field obj ''arr_prefix'', lib_sonarr_id = raw_field obj ''sonarr_id'',
      lib_radarr_id = raw_field obj ''radarr_id'', lib_bazarr_id = raw_field obj ''bazarr_id''\<rparr>"
  from "2.prems"(1) r have ok: "lib_slug l \<noteq> []" "lib_name l \<noteq> []" "lib_fs_root l \<noteq> []"
      "lib_arr_prefix l \<noteq> []" "lib_slug l \<notin> set seen" "norm_ap (lib_arr_prefix l) \<notin> set seen_arr"
    and rec: "build_libraries_loop lib0 (i + 1) rs (lib_slug l # seen)
        (norm_ap (lib_arr_prefix l) # seen_arr) (out @ [l]) = Inr libs"
    by (auto simp: Let_def l_def split: if_splits)
  have "libraries_ok (out @ [l])"
    using "2.prems"(2-4) ok unfolding libraries_ok_def
    by (cases out) (auto simp: extra_arr_prefixes_def)
  moreover have "set (lib_slug l # seen) = lib_slug ` set (out @ [l])"
    using "2.prems"(3) by auto
  moreover have "set (norm_ap (lib_arr_prefix l) # seen_arr) = set (extra_arr_prefixes (out @ [l]))"
    using "2.prems"(4) ok by (auto simp: extra_arr_prefixes_def)
  ultimately have "libraries_ok libs \<and> prefix (out @ [l]) libs \<and> length libs = length (out @ [l]) + length rs"
    using "2.IH" [OF r refl refl refl refl refl] rec ok r by (simp add: l_def)
  then show ?case by (auto dest: append_prefixD)
qed auto

section \<open>Service instances\<close>

record instance_cfg =
  inst_id :: string
  inst_service :: string
  inst_name :: string
  inst_url :: string
  inst_api_key :: string

definition multi_instance_services :: "string list" where
  "multi_instance_services = [''sonarr'', ''radarr'', ''bazarr'']"

fun service_instances ::
    "string \<Rightarrow> nat \<Rightarrow> raw list \<Rightarrow> string list \<Rightarrow> config_error + instance_cfg list" where
  "service_instances svc i [] seen = Inr []"
| "service_instances svc i (r # rs) seen =
     (case r of
        RObj obj \<Rightarrow>
          (let name = raw_field obj ''name''; url = raw_field obj ''url'';
               api_key = raw_field obj ''api_key'';
               iid = or_str (raw_field obj ''slug'') (slugify name)
           in if name = [] then Inl (MissingField i ''name'')
              else if url = [] then Inl (MissingField i ''url'')
              else if api_key = [] then Inl (MissingField i ''api_key'')
              else if iid = [] then Inl (NoUsableId name)
              else if iid \<in> set seen then Inl (DuplicateId iid)
              else (case service_instances svc (i + 1) rs (iid # seen) of
                      Inl e \<Rightarrow> Inl e
                    | Inr out \<Rightarrow> Inr (\<lparr>inst_id = iid, inst_service = svc, inst_name = name,
                                        inst_url = url, inst_api_key = api_key\<rparr> # out)))
      | _ \<Rightarrow> Inl (NotAnObject i))"

fun all_service_instances ::
    "(string \<times> raw) list \<Rightarrow> string list \<Rightarrow> config_error + instance_cfg list" where
  "all_service_instances extras [] = Inr []"
| "all_service_instances extras (svc # svcs) =
     (case (case map_of extras svc of None \<Rightarrow> RList [] | Some r \<Rightarrow> r) of
        RList raws \<Rightarrow>
          (case service_instances svc 0 raws [[]] of
             Inl e \<Rightarrow> Inl e
           | Inr out \<Rightarrow>
               (case all_service_instances extras svcs of
                  Inl e \<Rightarrow> Inl e | Inr rest \<Rightarrow> Inr (out @ rest)))
      | _ \<Rightarrow> Inl (NotAList svc))"

definition build_instances ::
    "instance_cfg list \<Rightarrow> (string \<times> raw) list \<Rightarrow> config_error + instance_cfg list" where
  "build_instances defaults extras =
     (case all_service_instances extras multi_instance_services of
        Inl e \<Rightarrow> Inl e
      | Inr out \<Rightarrow> Inr (map (\<lambda>d. d\<lparr>inst_id := []\<rparr>) defaults @ out))"

definition instance_ids :: "string \<Rightarrow> instance_cfg list \<Rightarrow> string list" where
  "instance_ids svc insts = map inst_id (filter (\<lambda>x. inst_service x = svc) insts)"

lemma service_instances_ok:
  "service_instances svc i rs seen = Inr out \<Longrightarrow>
     distinct (map inst_id out) \<and> set (map inst_id out) \<inter> set seen = {}
     \<and> (\<forall>x \<in> set out. inst_service x = svc \<and> inst_id x \<noteq> [] \<and> inst_url x \<noteq> [] \<and> inst_api_key x \<noteq> [])"
proof (induction svc i rs seen arbitrary: out rule: service_instances.induct)
  case (2 svc i r rs seen)
  then obtain obj where r: "r = RObj obj" by (auto split: raw.splits)
  from "2.prems" r obtain tl_out iid where
    rec: "service_instances svc (i + 1) rs (iid # seen) = Inr tl_out"
    and iid: "iid = or_str (raw_field obj ''slug'') (slugify (raw_field obj ''name''))" "iid \<notin> set seen"
    and out: "out = \<lparr>inst_id = iid, inst_service = svc, inst_name = raw_field obj ''name'',
          inst_url = raw_field obj ''url'', inst_api_key = raw_field obj ''api_key''\<rparr> # tl_out"
    and ne: "iid \<noteq> []" "raw_field obj ''name'' \<noteq> []" "raw_field obj ''url'' \<noteq> []"
       "raw_field obj ''api_key'' \<noteq> []"
    by (auto simp: Let_def split: if_splits sum.splits)
  have "distinct (map inst_id tl_out) \<and> set (map inst_id tl_out) \<inter> set (iid # seen) = {}
     \<and> (\<forall>x \<in> set tl_out. inst_service x = svc \<and> inst_id x \<noteq> [] \<and> inst_url x \<noteq> [] \<and> inst_api_key x \<noteq> [])"
    using "2.IH" [OF r refl refl refl refl] ne iid rec by simp
  then show ?case using out iid ne by auto
qed simp

lemma all_service_instances_ok:
  "all_service_instances extras svcs = Inr out \<Longrightarrow> distinct svcs \<Longrightarrow>
     (\<forall>x \<in> set out. inst_service x \<in> set svcs \<and> inst_id x \<noteq> [])
     \<and> (\<forall>svc. distinct (instance_ids svc out))"
proof (induction extras svcs arbitrary: out rule: all_service_instances.induct)
  case (2 extras svc svcs)
  from "2.prems"(1) obtain raws a b where
    raws: "(case map_of extras svc of None \<Rightarrow> RList [] | Some r \<Rightarrow> r) = RList raws"
    and a: "service_instances svc 0 raws [[]] = Inr a"
    and b: "all_service_instances extras svcs = Inr b" and out: "out = a @ b"
    by (auto split: raw.splits sum.splits)
  from service_instances_ok [OF a]
  have A: "distinct (map inst_id a)" "\<forall>x \<in> set a. inst_service x = svc \<and> inst_id x \<noteq> []" by auto
  from "2.IH" [OF raws a b] "2.prems"(2)
  have B: "\<forall>x \<in> set b. inst_service x \<in> set svcs \<and> inst_id x \<noteq> []"
    "\<And>s. distinct (instance_ids s b)" by auto
  have "distinct (instance_ids s out)" for s
  proof (cases "s = svc")
    case True
    then have "filter (\<lambda>x. inst_service x = s) b = []"
      using B(1) "2.prems"(2) by (auto simp: filter_empty_conv)
    then show ?thesis using A True by (simp add: out instance_ids_def)
  next
    case False
    then have "filter (\<lambda>x. inst_service x = s) a = []"
      using A(2) by (auto simp: filter_empty_conv)
    then show ?thesis using B(2) by (simp add: out instance_ids_def)
  qed
  then show ?case using A B out by auto
qed (simp add: instance_ids_def)

end
