(* ===== verification/Paths.thy ===== *)
theory Paths
  imports Libraries
begin

text \<open>
  Path translation (\<open>src/src/subarr/paths.py\<close>). A canonical path is the library-relative
  path, prefixed by \<open>@<slug>/\<close> for every library but the default one. The filesystem is
  seen through resolved part lists: \<open>resolve\<close> is the operating system's symlink
  resolution, an argument of the definitions that use it.
\<close>

datatype path_error = PathOutsideRoot string

section \<open>Splitting and library lookup\<close>

definition split_canonical :: "string \<Rightarrow> string \<times> string" where
  "split_canonical canonical =
     (let s = strip canonical in
      if prefix ''@'' s
      then (case partition_at (CHR ''/'') (drop 1 s) of (head, _, rest) \<Rightarrow> (head, strip_char (CHR ''/'') rest))
      else ([], strip_char (CHR ''/'') s))"

definition relative_part :: "string \<Rightarrow> string" where
  "relative_part canonical = snd (split_canonical canonical)"

fun library_by_slug :: "library list \<Rightarrow> string \<Rightarrow> path_error + library" where
  "library_by_slug [] slug = Inl (PathOutsideRoot slug)"
| "library_by_slug (l # ls) slug = (if lib_slug l = slug then Inr l else library_by_slug ls slug)"

definition library_for_canonical :: "library list \<Rightarrow> string \<Rightarrow> path_error + library" where
  "library_for_canonical libs canonical =
     (case library_by_slug libs (fst (split_canonical canonical)) of
        Inl _ \<Rightarrow> library_by_slug libs []
      | Inr l \<Rightarrow> Inr l)"

definition library_label :: "library list \<Rightarrow> string \<Rightarrow> path_error + (string \<times> string)" where
  "library_label libs canonical =
     (case library_for_canonical libs canonical of
        Inl e \<Rightarrow> Inl e | Inr l \<Rightarrow> Inr (lib_slug l, lib_name l))"

lemma library_by_slug_unique:
  "distinct (map lib_slug libs) \<Longrightarrow> l \<in> set libs \<Longrightarrow> library_by_slug libs (lib_slug l) = Inr l"
  by (induction libs) (auto simp: image_iff)

lemma library_by_slug_Inr: "library_by_slug libs slug = Inr l \<Longrightarrow> l \<in> set libs \<and> lib_slug l = slug"
  by (induction libs) (auto split: if_splits)

lemma library_by_slug_Inl: "library_by_slug libs slug = Inl e \<longleftrightarrow>
    e = PathOutsideRoot slug \<and> slug \<notin> lib_slug ` set libs"
  by (induction libs) auto

section \<open>Canonical and filesystem paths\<close>

text \<open>\<open>PurePosixPath(s).parts\<close> of a relative path: empty and \<open>.\<close> segments vanish.\<close>

definition posix_parts :: "string \<Rightarrow> string list" where
  "posix_parts s = filter (\<lambda>p. p \<noteq> [] \<and> p \<noteq> ''.'') (split_on (CHR ''/'') s)"

definition canonical_to_fs ::
    "(string list \<Rightarrow> string list) \<Rightarrow> library list \<Rightarrow> string \<Rightarrow> path_error + string list" where
  "canonical_to_fs resolve libs canonical =
     (case split_canonical canonical of (slug, rel_str) \<Rightarrow>
        (let rel = posix_parts rel_str in
         if ''..'' \<in> set rel then Inl (PathOutsideRoot canonical)
         else (case library_by_slug libs slug of
             Inl e \<Rightarrow> Inl e
           | Inr lib \<Rightarrow>
               (let rt = resolve (posix_parts (lib_fs_root lib)); target = resolve (rt @ rel)
                in if prefix rt target then Inr target else Inl (PathOutsideRoot canonical)))))"

text \<open>The library that owns a resolved path: deepest root, and between equally deep roots
  the first one, unless a configured (slugged) library challenges the default one.\<close>

fun owning_library ::
    "(string list \<Rightarrow> string list) \<Rightarrow> string list \<Rightarrow> library list \<Rightarrow> (string list \<times> library) option
      \<Rightarrow> (string list \<times> library) option" where
  "owning_library resolve rp [] best = best"
| "owning_library resolve rp (lib # libs) best =
     (let rt = resolve (posix_parts (lib_fs_root lib)) in
      owning_library resolve rp libs
        (if \<not> prefix rt rp then best
         else (case best of
             None \<Rightarrow> Some (rt, lib)
           | Some (best_rt, best_lib) \<Rightarrow>
               if length best_rt < length rt then Some (rt, lib)
               else if length rt = length best_rt \<and> lib_slug lib \<noteq> [] \<and> lib_slug best_lib = []
               then Some (rt, lib)
               else best)))"

definition mk_canonical :: "string \<Rightarrow> string \<Rightarrow> string" where
  "mk_canonical slug rel = (if slug \<noteq> [] then ''@'' @ slug @ ''/'' @ rel else rel)"

definition fs_to_canonical ::
    "(string list \<Rightarrow> string list) \<Rightarrow> library list \<Rightarrow> string list \<Rightarrow> path_error + string" where
  "fs_to_canonical resolve libs p =
     (let rp = resolve p in
      case owning_library resolve rp libs None of
        None \<Rightarrow> Inl (PathOutsideRoot (join_with ''/'' p))
      | Some (rt, lib) \<Rightarrow> Inr (mk_canonical (lib_slug lib) (join_with ''/'' (drop (length rt) rp))))"

lemma canonical_to_fs_contained:
  "canonical_to_fs resolve libs c = Inr target \<Longrightarrow>
     \<exists>lib \<in> set libs. lib_slug lib = fst (split_canonical c)
       \<and> prefix (resolve (posix_parts (lib_fs_root lib))) target"
  by (auto simp: canonical_to_fs_def Let_def split: prod.splits sum.splits if_splits
        dest!: library_by_slug_Inr)

lemma owning_library_SomeD:
  "owning_library resolve rp libs best = Some (rt, lib) \<Longrightarrow>
     best = Some (rt, lib) \<or>
     (lib \<in> set libs \<and> rt = resolve (posix_parts (lib_fs_root lib)) \<and> prefix rt rp)"
  by (induction resolve rp libs best rule: owning_library.induct)
     (auto simp: Let_def split: if_splits option.splits)

lemma owning_library_longest:
  "owning_library resolve rp libs best = Some (rt, lib) \<Longrightarrow>
     (\<forall>l \<in> set libs. prefix (resolve (posix_parts (lib_fs_root l))) rp \<longrightarrow>
        length (resolve (posix_parts (lib_fs_root l))) \<le> length rt)
     \<and> (\<forall>r l. best = Some (r, l) \<longrightarrow> length r \<le> length rt)"
proof (induction resolve rp libs best rule: owning_library.induct)
  case (2 resolve rp l libs best)
  then show ?case
    by (fastforce simp: Let_def split: if_splits option.splits)
qed auto

section \<open>subgen's path space\<close>

definition canonical_to_subgen_batch :: "library list \<Rightarrow> string \<Rightarrow> path_error + string" where
  "canonical_to_subgen_batch libs canonical =
     (case split_canonical canonical of (slug, rel) \<Rightarrow>
        (case library_by_slug libs slug of
           Inl e \<Rightarrow> Inl e
         | Inr lib \<Rightarrow>
             (let p = rstrip_char (CHR ''/'') (lib_subgen_prefix lib)
              in Inr (if rel \<noteq> [] then p @ ''/'' @ rel else p @ ''/''))))"

text \<open>The longest-prefix scan shared by \<open>subgen_to_canonical\<close> and \<open>strip_arr_prefix\<close>:
  the first library whose (non-empty) prefix matches at a slash boundary with the
  greatest length.\<close>

definition at_boundary :: "string \<Rightarrow> string \<Rightarrow> bool" where
  "at_boundary pre p \<longleftrightarrow> p = pre \<or> prefix (pre @ ''/'') p"

fun longest_prefix :: "(library \<Rightarrow> string) \<Rightarrow> string \<Rightarrow> library list \<Rightarrow> library option \<Rightarrow> library option" where
  "longest_prefix pre p [] best = best"
| "longest_prefix pre p (lib # libs) best =
     longest_prefix pre p libs
       (if pre lib \<noteq> [] \<and> at_boundary (pre lib) p
           \<and> (case best of None \<Rightarrow> True | Some b \<Rightarrow> length (pre b) < length (pre lib))
        then Some lib else best)"

definition subgen_pre :: "library \<Rightarrow> string" where
  "subgen_pre lib = rstrip_char (CHR ''/'') (lib_subgen_prefix lib)"

definition subgen_to_canonical :: "library list \<Rightarrow> string \<Rightarrow> string" where
  "subgen_to_canonical libs subgen_path =
     (let p = strip subgen_path in
      case longest_prefix subgen_pre p libs None of
        None \<Rightarrow> strip_char (CHR ''/'') p
      | Some best \<Rightarrow>
          (let pre = subgen_pre best;
               rel = (if p = pre then [] else strip_char (CHR ''/'') (drop (length pre + 1) p))
           in if lib_slug best \<noteq> [] then mk_canonical (lib_slug best) rel else rel))"

section \<open>*arr paths\<close>

definition slashes :: "string \<Rightarrow> string" where
  "slashes s = map (\<lambda>c. if c = CHR 92 then CHR ''/'' else c) s"

definition arr_pre :: "library \<Rightarrow> string" where
  "arr_pre lib = rstrip_char (CHR ''/'') (slashes (lib_arr_prefix lib))"

definition strip_arr_prefix_explicit :: "string \<Rightarrow> string \<Rightarrow> string" where
  "strip_arr_prefix_explicit arr_path pre =
     (let s = slashes arr_path; p = slashes pre; p_norm = rstrip_char (CHR ''/'') p
      in strip_char (CHR ''/'')
           (if p \<noteq> [] \<and> at_boundary p_norm s then drop (length p_norm) s else s))"

definition strip_arr_prefix :: "library list \<Rightarrow> string option \<Rightarrow> string option \<Rightarrow> string option" where
  "strip_arr_prefix libs arr_path pre =
     (if \<not> truthy_str arr_path then arr_path
      else (let a = or_empty arr_path in
        case pre of
          Some pr \<Rightarrow> Some (strip_arr_prefix_explicit a pr)
        | None \<Rightarrow>
            (let norm = slashes a in
             case longest_prefix arr_pre norm libs None of
               None \<Rightarrow> Some (strip_char (CHR ''/'') norm)
             | Some best \<Rightarrow>
                 (let rel = strip_char (CHR ''/'') (drop (length (arr_pre best)) norm)
                  in Some (if lib_slug best \<noteq> [] then mk_canonical (lib_slug best) rel else rel)))))"

section \<open>Longest-prefix lemmas and the round trip\<close>

lemma longest_prefix_keep:
  "\<forall>l \<in> set libs. l \<noteq> b \<longrightarrow> \<not> (pre l \<noteq> [] \<and> at_boundary (pre l) p \<and> length (pre b) < length (pre l)) \<Longrightarrow>
     longest_prefix pre p libs (Some b) = Some b"
  by (induction libs) auto

lemma longest_prefix_unique:
  assumes "lib \<in> set libs" "pre lib \<noteq> []" "at_boundary (pre lib) p"
    and "\<forall>l \<in> set libs. l \<noteq> lib \<longrightarrow> at_boundary (pre l) p \<longrightarrow> length (pre l) < length (pre lib)"
    and "case best of None \<Rightarrow> True | Some b \<Rightarrow> length (pre b) < length (pre lib)"
  shows "longest_prefix pre p libs best = Some lib"
  using assms
proof (induction libs arbitrary: best)
  case (Cons l libs)
  show ?case
  proof (cases "l = lib")
    case True
    with Cons.prems show ?thesis
      by (auto intro!: longest_prefix_keep split: option.splits)
  next
    case False
    with Cons.prems show ?thesis
      by (auto intro!: Cons.IH split: option.splits)
  qed
qed simp

lemma longest_prefix_SomeD:
  "longest_prefix pre p libs best = Some lib \<Longrightarrow>
     best = Some lib \<or> (lib \<in> set libs \<and> pre lib \<noteq> [] \<and> at_boundary (pre lib) p)"
  by (induction pre p libs best rule: longest_prefix.induct) (auto split: if_splits)

text \<open>A relative path as canonicals hold it: no surrounding slash or white space.\<close>

definition clean_rel :: "string \<Rightarrow> bool" where
  "clean_rel rel \<longleftrightarrow> rel \<noteq> [] \<and> hd rel \<noteq> CHR ''/'' \<and> last rel \<noteq> CHR ''/''
     \<and> \<not> py_space (hd rel) \<and> \<not> py_space (last rel) \<and> hd rel \<noteq> CHR ''@''"

lemma py_space_at [simp]: "\<not> py_space (CHR ''@'')" and py_space_slash [simp]: "\<not> py_space (CHR ''/'')"
  by (simp_all add: py_space_def code_of_def Let_def)

lemma strip_char_clean: "clean_rel rel \<Longrightarrow> strip_char (CHR ''/'') rel = rel"
  by (simp add: clean_rel_def strip_char_def strip_of_idle)

lemma split_mk_canonical:
  assumes "clean_rel rel" "CHR ''/'' \<notin> set slug"
  shows "split_canonical (mk_canonical slug rel) = (slug, rel)"
proof -
  have s: "strip (mk_canonical slug rel) = mk_canonical slug rel"
    unfolding strip_def using assms by (intro strip_of_idle) (auto simp: mk_canonical_def clean_rel_def)
  show ?thesis
  proof (cases "slug = []")
    case True
    then show ?thesis using assms s
      by (cases rel) (auto simp: split_canonical_def mk_canonical_def strip_char_clean clean_rel_def
          strip_char_def strip_of_idle)
  next
    case False
    have "takeWhile (\<lambda>x. x \<noteq> CHR ''/'') (slug @ CHR ''/'' # rel) = slug"
      and "dropWhile (\<lambda>x. x \<noteq> CHR ''/'') (slug @ CHR ''/'' # rel) = CHR ''/'' # rel"
      using assms(2) by (induction slug) auto
    then show ?thesis using False assms s
      by (simp add: split_canonical_def mk_canonical_def partition_at_def strip_char_clean)
  qed
qed

lemma subgen_batch_mk_canonical:
  assumes "clean_rel rel" "CHR ''/'' \<notin> set slug" "library_by_slug libs slug = Inr lib"
  shows "canonical_to_subgen_batch libs (mk_canonical slug rel) = Inr (subgen_pre lib @ ''/'' @ rel)"
  using assms by (simp add: canonical_to_subgen_batch_def split_mk_canonical subgen_pre_def clean_rel_def)

lemma subgen_batch_error:
  "canonical_to_subgen_batch libs c = Inl e \<longleftrightarrow>
     e = PathOutsideRoot (fst (split_canonical c)) \<and> fst (split_canonical c) \<notin> lib_slug ` set libs"
  by (auto simp: canonical_to_subgen_batch_def library_by_slug_Inl Let_def
        split: prod.splits sum.splits dest: library_by_slug_Inr)

section \<open>Properties\<close>

lemma libraries_ok_single: "libraries_ok [l\<lparr>lib_slug := []\<rparr>]"
  by (simp add: libraries_ok_def extra_arr_prefixes_def)

lemma build_libraries_ok:
  assumes "build_libraries dflt extras = Inr libs"
  shows "libraries_ok libs \<and> length libs = 1 + length extras \<and> hd libs = dflt\<lparr>lib_slug := []\<rparr>"
proof -
  have "libraries_ok libs \<and> prefix [dflt\<lparr>lib_slug := []\<rparr>] libs \<and> length libs = length [dflt\<lparr>lib_slug := []\<rparr>] + length extras"
    using assms unfolding build_libraries_def Let_def
    by (rule build_libraries_loop_ok) (auto simp: libraries_ok_single extra_arr_prefixes_def)
  then show ?thesis by (auto simp: prefix_def)
qed

text \<open>When the configured libraries are accepted, there is one library per entry behind the
  default one, every slug names exactly its own library, no two libraries share an arr prefix,
  and every configured library has a name, a root and an arr prefix.\<close>

theorem accepted_libraries_resolve:
  assumes "build_libraries dflt extras = Inr libs"
  shows "length libs = 1 + length extras \<and> library_by_slug libs [] = Inr (dflt\<lparr>lib_slug := []\<rparr>)
    \<and> (\<forall>l \<in> set libs. library_by_slug libs (lib_slug l) = Inr l)
    \<and> distinct (extra_arr_prefixes libs)
    \<and> (\<forall>l \<in> set (tl libs). lib_slug l \<noteq> [] \<and> lib_name l \<noteq> [] \<and> lib_fs_root l \<noteq> [] \<and> lib_arr_prefix l \<noteq> [])"
proof -
  note ok = build_libraries_ok [OF assms]
  have d: "distinct (map lib_slug libs)" using ok by (simp add: libraries_ok_def)
  have h: "hd libs \<in> set libs" using ok by (cases libs) auto
  have "library_by_slug libs [] = Inr (dflt\<lparr>lib_slug := []\<rparr>)"
    using library_by_slug_unique [OF d h] ok by simp
  then show ?thesis using ok library_by_slug_unique [OF d] by (simp add: libraries_ok_def)
qed

definition default_library :: library where
  "default_library = \<lparr>lib_slug = [], lib_name = ''Default'', lib_fs_root = ''/media'', lib_subgen_prefix = ''/media'',
     lib_arr_prefix = ''/data'', lib_sonarr_id = [], lib_radarr_id = [], lib_bazarr_id = []\<rparr>"

definition anime_entry :: raw where
  "anime_entry = RObj [(''name'', ''Anime''), (''fs_root'', ''/anime''), (''arr_prefix'', ''/data2''), (''subgen_prefix'', ''/anime'')]"

definition two_libraries :: "library list" where
  "two_libraries = (case build_libraries default_library [anime_entry] of Inr libs \<Rightarrow> libs | Inl _ \<Rightarrow> [])"

lemma two_libraries_eval: "build_libraries default_library [anime_entry] = Inr two_libraries"
  "map lib_slug two_libraries = [[], ''anime'']"
  by code_simp+

theorem accepted_libraries_resolve_witness:
  "library_by_slug two_libraries [] = Inr (default_library\<lparr>lib_slug := []\<rparr>) \<and> length two_libraries = 2"
  using accepted_libraries_resolve [OF two_libraries_eval(1)] by simp

text \<open>C17. A canonical path never escapes its library: when it translates to the file system at
  all, none of its segments is \<open>..\<close> and the resolved target, symbolic links included, lies
  under the resolved root of the library its slug names.\<close>

theorem canonical_stays_inside:
  assumes "canonical_to_fs resolve libs c = Inr target"
  shows "''..'' \<notin> set (posix_parts (snd (split_canonical c)))
    \<and> (\<exists>lib. library_by_slug libs (fst (split_canonical c)) = Inr lib
          \<and> prefix (resolve (posix_parts (lib_fs_root lib))) target)"
  using assms by (auto simp: canonical_to_fs_def Let_def split: prod.splits sum.splits if_splits)

theorem canonical_stays_inside_witness:
  "prefix [''anime''] [''anime'', ''Show'', ''x.mkv'']
    \<and> canonical_to_fs (\<lambda>p. p) two_libraries ''@anime/../x.mkv'' = Inl (PathOutsideRoot ''@anime/../x.mkv'')"
proof
  have c: "canonical_to_fs (\<lambda>p. p) two_libraries ''@anime/Show/x.mkv'' = Inr [''anime'', ''Show'', ''x.mkv'']"
    and s: "fst (split_canonical ''@anime/Show/x.mkv'') = ''anime''"
    and l: "case library_by_slug two_libraries ''anime'' of Inr l \<Rightarrow> posix_parts (lib_fs_root l) = [''anime''] | Inl _ \<Rightarrow> False"
    by code_simp+
  show "prefix [''anime''] [''anime'', ''Show'', ''x.mkv'']"
    using canonical_stays_inside [OF c] l unfolding s by auto
  show "canonical_to_fs (\<lambda>p. p) two_libraries ''@anime/../x.mkv'' = Inl (PathOutsideRoot ''@anime/../x.mkv'')"
    by code_simp
qed

text \<open>A path survives the trip through subgen: submitted under its library's prefix and read
  back from subgen's queue it is the same canonical path, provided that no other library's
  prefix of at least that length covers it and that the slug has no slash.\<close>

theorem subgen_path_roundtrip:
  assumes "lib \<in> set libs" and "distinct (map lib_slug libs)" and "clean_rel rel" and "CHR ''/'' \<notin> set (lib_slug lib)"
    and "subgen_pre lib \<noteq> []" and "\<not> py_space (hd (subgen_pre lib))"
    and "\<forall>l \<in> set libs. l \<noteq> lib \<longrightarrow> at_boundary (subgen_pre l) (subgen_pre lib @ ''/'' @ rel) \<longrightarrow>
           length (subgen_pre l) < length (subgen_pre lib)"
  shows "\<exists>p. canonical_to_subgen_batch libs (mk_canonical (lib_slug lib) rel) = Inr p
    \<and> subgen_to_canonical libs p = mk_canonical (lib_slug lib) rel"
proof -
  let ?p = "subgen_pre lib @ ''/'' @ rel"
  have b: "canonical_to_subgen_batch libs (mk_canonical (lib_slug lib) rel) = Inr ?p"
    by (rule subgen_batch_mk_canonical [OF assms(3,4) library_by_slug_unique [OF assms(2,1)]])
  have s: "strip ?p = ?p" unfolding strip_def
    using assms(3,5,6) by (intro strip_of_idle) (auto simp: clean_rel_def)
  have at: "at_boundary (subgen_pre lib) ?p" by (simp add: at_boundary_def)
  have l: "longest_prefix subgen_pre ?p libs None = Some lib"
    by (rule longest_prefix_unique [OF assms(1,5) at assms(7)]) simp
  have "rel \<noteq> []" using assms(3) by (simp add: clean_rel_def)
  then have "subgen_to_canonical libs ?p = mk_canonical (lib_slug lib) rel"
    using strip_char_clean [OF assms(3)]
    unfolding subgen_to_canonical_def Let_def s l by (simp add: mk_canonical_def)
  then show ?thesis using b by blast
qed

theorem subgen_path_roundtrip_witness:
  "\<exists>p. canonical_to_subgen_batch two_libraries ''@anime/Show/x.mkv'' = Inr p \<and> subgen_to_canonical two_libraries p = ''@anime/Show/x.mkv''"
proof -
  obtain a b where ab: "two_libraries = [a, b]" using two_libraries_eval(2)
    by (cases two_libraries; cases "tl two_libraries") auto
  have f: "lib_slug b = ''anime''" "subgen_pre b = ''/anime''" "subgen_pre a = ''/media''" "distinct (map lib_slug two_libraries)"
  proof -
    have "map lib_slug two_libraries = [[], ''anime''] \<and> map subgen_pre two_libraries = [''/media'', ''/anime''] \<and> distinct (map lib_slug two_libraries)"
      by code_simp
    then show "lib_slug b = ''anime''" "subgen_pre b = ''/anime''" "subgen_pre a = ''/media''" "distinct (map lib_slug two_libraries)"
      unfolding ab by simp_all
  qed
  have "clean_rel ''Show/x.mkv''" "\<not> py_space (CHR ''/'')" by (simp_all add: clean_rel_def py_space_def code_of_def)
  moreover have "b \<in> set two_libraries" unfolding ab by simp
  moreover have "\<forall>l \<in> set two_libraries. l \<noteq> b \<longrightarrow> at_boundary (subgen_pre l) (subgen_pre b @ ''/'' @ ''Show/x.mkv'') \<longrightarrow>
      length (subgen_pre l) < length (subgen_pre b)"
    unfolding ab using f(2,3) by (simp add: at_boundary_def)
  ultimately show ?thesis
    using subgen_path_roundtrip [of b two_libraries "''Show/x.mkv''"] f by (simp add: mk_canonical_def)
qed

text \<open>The provision is needed: a library that inherits the default library's prefix loses its slug
  on the way back.\<close>

definition shared_entry :: raw where
  "shared_entry = RObj [(''name'', ''Anime''), (''fs_root'', ''/anime''), (''arr_prefix'', ''/data2'')]"

lemma shared_prefix_loses_slug:
  "case build_libraries default_library [shared_entry] of Inl _ \<Rightarrow> False
   | Inr libs \<Rightarrow> canonical_to_subgen_batch libs ''@anime/x.mkv'' = Inr ''/media/x.mkv''
       \<and> subgen_to_canonical libs ''/media/x.mkv'' = ''x.mkv''"
  by code_simp

text \<open>An explicit slug with a slash is accepted, but its canonical paths do not resolve.\<close>

definition slash_entry :: raw where
  "slash_entry = RObj [(''name'', ''Anime''), (''fs_root'', ''/anime''), (''arr_prefix'', ''/data2''), (''slug'', ''a/b'')]"

lemma slash_slug_unresolvable:
  "case build_libraries default_library [slash_entry] of Inl _ \<Rightarrow> False
   | Inr libs \<Rightarrow> fs_to_canonical (\<lambda>p. p) libs [''anime'', ''x.mkv''] = Inr ''@a/b/x.mkv''
       \<and> canonical_to_fs (\<lambda>p. p) libs ''@a/b/x.mkv'' = Inl (PathOutsideRoot ''a'')"
  by code_simp

end
