(* ===== verification/SidecarLang.thy ===== *)
theory SidecarLang
  imports Sidecars Paths
begin

text \<open>
  Which subtitle files belong to an episode and which languages their names claim: the sidecar
  functions of \<open>src/src/subarr/coverage_engine.py\<close>. File paths are relative to the series folder.
\<close>

section \<open>Names\<close>

text \<open>\<open>str.isalpha\<close> and the two-character separator class of \<open>re.split(r"[.\-]", name)\<close>.\<close>

definition alpha_char :: "char \<Rightarrow> bool" where
  "alpha_char c \<longleftrightarrow> (let n = code_of c in
     (65 \<le> n \<and> n \<le> 90) \<or> (97 \<le> n \<and> n \<le> 122) \<or> n \<in> {170, 181, 186} \<or> (192 \<le> n \<and> n \<noteq> 215 \<and> n \<noteq> 247))"

fun split_tokens :: "string \<Rightarrow> string list" where
  "split_tokens [] = [[]]"
| "split_tokens (c # cs) =
     (if c = CHR ''.'' \<or> c = CHR ''-'' then [] # split_tokens cs
      else (case split_tokens cs of [] \<Rightarrow> [[c]] | w # ws \<Rightarrow> (c # w) # ws))"

definition base_name :: "string \<Rightarrow> string" where
  "base_name p = rsplit_last (CHR ''/'') p"

text \<open>\<open>int(s)\<close>: white space around, one sign, groups of digits joined by underscores.\<close>

definition int_of_text :: "string \<Rightarrow> int option" where
  "int_of_text s =
     (let t = strip s; neg = prefix ''-'' t;
          digits = split_on (CHR ''_'') (if neg \<or> prefix ''+'' t then drop 1 t else t)
      in if list_all (\<lambda>g. g \<noteq> [] \<and> list_all ascii_digit g) digits
         then Some (if neg then - int (undec (concat digits)) else int (undec (concat digits)))
         else None)"

text \<open>\<open>f"{n:02d}"\<close>.\<close>

definition fmt02 :: "int \<Rightarrow> string" where
  "fmt02 n = (if n < 0 then CHR ''-'' # dec (nat (- n)) else dec_pad 2 (nat n))"

section \<open>Files of an episode\<close>

text \<open>\<open>sub in s\<close>.\<close>

fun contains :: "'a list \<Rightarrow> 'a list \<Rightarrow> bool" where
  "contains w [] = (w = [])"
| "contains w (c # cs) = (prefix w (c # cs) \<or> contains w cs)"

definition episode_pattern :: "string option \<Rightarrow> string option" where
  "episode_pattern episode_number =
     (if \<not> truthy_str episode_number \<or> CHR ''x'' \<notin> set (or_empty episode_number) then None
      else (case split_on (CHR ''x'') (or_empty episode_number) of
          [season, ep] \<Rightarrow>
            (case (int_of_text season, int_of_text ep) of
               (Some a, Some b) \<Rightarrow> Some (''s'' @ fmt02 a @ ''e'' @ fmt02 b)
             | _ \<Rightarrow> None)
        | _ \<Rightarrow> None))"

definition match_episode_srt_pattern :: "string list \<Rightarrow> string option \<Rightarrow> bool \<times> string list" where
  "match_episode_srt_pattern srt_paths episode_number =
     (case episode_pattern episode_number of
        None \<Rightarrow> (False, [])
      | Some pat \<Rightarrow> (let matches = filter (\<lambda>p. contains pat (lower p)) srt_paths in (matches \<noteq> [], matches)))"

definition sidecars_for_file :: "string list \<Rightarrow> string \<Rightarrow> string list" where
  "sidecars_for_file srt_paths file_canonical =
     (if file_canonical = [] then []
      else (let name = base_name file_canonical;
                stem = lower (if CHR ''.'' \<in> set name then rsplit_first (CHR ''.'') name else name)
            in filter (\<lambda>p. prefix (stem @ ''.'') (lower (base_name p)) \<or> lower (base_name p) = stem @ ''.srt'') srt_paths))"

section \<open>Languages in sidecar names\<close>

definition known_tools :: "string list" where
  "known_tools = [''alass'', ''autosubsync'', ''ffsubsync'', ''subsync'']"

definition known_non_lang :: "string list" where
  "known_non_lang = [''web'', ''hdtv'', ''dvd'', ''uhd'', ''hdr'', ''sdr'', ''ddp'', ''aac'', ''dts'', ''ac3'', ''flac'', ''x264'', ''x265'',
     ''ind'', ''rep'', ''tla'', ''ntb'', ''syn'']"

definition caption_suffixes :: "string list" where
  "caption_suffixes = [''sdh'', ''cc'']"

definition skip_token :: "string \<Rightarrow> bool" where
  "skip_token t \<longleftrightarrow> t \<in> set (known_tools @ known_non_lang @ caption_suffixes)"

definition shaped_lang_token :: "string \<Rightarrow> bool" where
  "shaped_lang_token t \<longleftrightarrow> 2 \<le> length t \<and> length t \<le> 3 \<and> list_all alpha_char t"

definition trailing_suffix_cluster :: "string list \<Rightarrow> string list" where
  "trailing_suffix_cluster tokens =
     takeWhile (\<lambda>t. skip_token t \<or> t = ''hi'' \<or> shaped_lang_token t) (rev tokens)"

text \<open>The language token that makes a later \<open>hi\<close> a hearing-impaired marker.\<close>

definition lang_left_of_hi :: "string \<Rightarrow> bool" where
  "lang_left_of_hi t \<longleftrightarrow> shaped_lang_token t \<and> \<not> skip_token t \<and> t \<noteq> ''hi'' \<and> is_language_code t"

fun lang_in_cluster :: "string list \<Rightarrow> string option" where
  "lang_in_cluster [] = None"
| "lang_in_cluster (t # ts) =
     (if skip_token t \<or> \<not> shaped_lang_token t then lang_in_cluster ts
      else if t = ''hi'' \<and> list_ex lang_left_of_hi ts then lang_in_cluster ts
      else Some t)"

definition lang_scanning_past_unknown :: "string list \<Rightarrow> string option" where
  "lang_scanning_past_unknown tokens = List.find (\<lambda>t. shaped_lang_token t \<and> \<not> skip_token t) (rev tokens)"

definition sidecar_lang_token :: "string list \<Rightarrow> string option" where
  "sidecar_lang_token tokens =
     (case lang_in_cluster (trailing_suffix_cluster tokens) of
        Some t \<Rightarrow> Some t
      | None \<Rightarrow> lang_scanning_past_unknown tokens)"

definition lang_token_from_srt_name :: "string \<Rightarrow> string" where
  "lang_token_from_srt_name name =
     (let low = lower (base_name name); body = (if suffix ''.srt'' low then take (length low - 4) low else low)
      in case sidecar_lang_token (split_tokens body) of Some t \<Rightarrow> t | None \<Rightarrow> ''und'')"

text \<open>The language one sidecar counts for, if it counts at all.\<close>

definition sidecar_lang :: "string \<Rightarrow> string option" where
  "sidecar_lang p =
     (let name = lower (base_name p) in
      if \<not> suffix ''.srt'' name then None
      else (let tokens = split_tokens (take (length name - 4) name) in
        if ''forced'' \<in> set tokens then None
        else (case sidecar_lang_token tokens of Some t \<Rightarrow> Some t | None \<Rightarrow> Some ''und'')))"

definition langs_in_sidecars :: "string list \<Rightarrow> string list" where
  "langs_in_sidecars sidecars = remdups (List.map_filter sidecar_lang sidecars)"

definition is_en_sidecar_for :: "string \<Rightarrow> string \<Rightarrow> string list \<Rightarrow> bool" where
  "is_en_sidecar_for srt_path file_stem exts =
     (let name = base_name srt_path in
      case List.find (\<lambda>s. suffix s (lower name)) exts of
        None \<Rightarrow> False
      | Some ext \<Rightarrow>
          (let base = take (length name - length ext) name in
           if \<not> prefix file_stem base then False
           else (let tail = drop (length file_stem) base in
             prefix ''.'' tail \<and> list_ex (\<lambda>p. p = ''en'' \<or> p = ''eng'') (tail_tokens tail))))"

section \<open>Episodes\<close>

text \<open>The prefetched Sonarr maps: an episode's file id, where zero or a missing field means no file,
  and the path of each episode file.\<close>

record sonarr_maps =
  sm_episode_file :: "nat \<Rightarrow> nat option"
  sm_file_path :: "nat \<Rightarrow> string option"

definition episode_file_canonical :: "library list \<Rightarrow> sonarr_maps \<Rightarrow> nat option \<Rightarrow> string option" where
  "episode_file_canonical libs sm episode_id =
     (case episode_id of
        None \<Rightarrow> None
      | Some e \<Rightarrow>
          (case sm_episode_file sm e of
             None \<Rightarrow> None
           | Some f \<Rightarrow>
               (let abs_path = (if f = 0 then None else sm_file_path sm f) in
                if \<not> truthy_str abs_path then None
                else (let stripped = strip_arr_prefix libs abs_path None in
                      if truthy_str stripped then stripped else abs_path))))"

definition episode_image_pairs ::
    "library list \<Rightarrow> sonarr_maps \<Rightarrow> nat option \<Rightarrow> string list \<Rightarrow> string option \<Rightarrow> string list" where
  "episode_image_pairs libs sm episode_id image_paths episode_number =
     (case episode_file_canonical libs sm episode_id of
        Some f \<Rightarrow> sidecars_for_file image_paths f
      | None \<Rightarrow> snd (match_episode_srt_pattern image_paths episode_number))"

definition wanted_codes :: "string list \<Rightarrow> string option list" where
  "wanted_codes missing = map (\<lambda>c. normalize_lang (Some c)) (filter (\<lambda>c. c \<noteq> []) missing)"

definition sidecar_languages :: "string list \<Rightarrow> string option list" where
  "sidecar_languages sidecars = map (\<lambda>l. normalize_lang (Some l)) (langs_in_sidecars sidecars)"

definition stale_for_episode ::
    "library list \<Rightarrow> sonarr_maps \<Rightarrow> nat option \<Rightarrow> string list \<Rightarrow> string option \<Rightarrow> string list \<Rightarrow> bool \<times> string list" where
  "stale_for_episode libs sm episode_id srt_paths episode_number missing =
     (if episode_id = None \<or> srt_paths = [] then
        (if missing = [] then match_episode_srt_pattern srt_paths episode_number else (False, []))
      else (case episode_file_canonical libs sm episode_id of
          None \<Rightarrow> match_episode_srt_pattern srt_paths episode_number
        | Some f \<Rightarrow>
            (let own = sidecars_for_file srt_paths f;
                 sidecars = (if own = [] then snd (match_episode_srt_pattern srt_paths episode_number) else own)
             in if sidecars = [] then (False, [])
                else if wanted_codes missing = [] then (True, sidecars)
                else (list_ex (\<lambda>w. w \<in> set (sidecar_languages sidecars)) (wanted_codes missing), sidecars))))"

section \<open>Properties\<close>

definition cluster_token :: "string \<Rightarrow> bool" where
  "cluster_token t \<longleftrightarrow> skip_token t \<or> t = ''hi'' \<or> shaped_lang_token t"

lemma cluster_snoc:
  "trailing_suffix_cluster (ts @ [t]) = (if cluster_token t then t # trailing_suffix_cluster ts else [])"
  by (simp add: trailing_suffix_cluster_def cluster_token_def)

lemma scan_snoc:
  "lang_scanning_past_unknown (ts @ [t]) =
     (if shaped_lang_token t \<and> \<not> skip_token t then Some t else lang_scanning_past_unknown ts)"
  by (simp add: lang_scanning_past_unknown_def)

lemma hi_token: "shaped_lang_token ''hi''" "\<not> skip_token ''hi''" "cluster_token ''hi''"
  by code_simp+

text \<open>How trailing markers of a sidecar name are read: a tool, release or caption token at the end
  never changes the language, \<open>hi\<close> right after a known language is a hearing-impaired marker of that
  language, and \<open>hi\<close> after an ordinary word is Hindi.\<close>

theorem sidecar_marker_rules:
  assumes "skip_token s" "lang_left_of_hi l" "\<not> cluster_token w"
  shows "sidecar_lang_token (ts @ [s]) = sidecar_lang_token ts
    \<and> sidecar_lang_token (ts @ [l, ''hi'']) = Some l
    \<and> sidecar_lang_token (ts @ [w, ''hi'']) = Some ''hi''"
proof (intro conjI)
  from assms(1) show "sidecar_lang_token (ts @ [s]) = sidecar_lang_token ts"
    by (simp add: sidecar_lang_token_def cluster_snoc scan_snoc cluster_token_def split: option.split)
  have "trailing_suffix_cluster (ts @ [l, ''hi'']) = ''hi'' # l # trailing_suffix_cluster ts"
    using cluster_snoc [of "ts @ [l]" "''hi''"] cluster_snoc [of ts l] hi_token assms(2)
    by (simp add: cluster_token_def lang_left_of_hi_def)
  then show "sidecar_lang_token (ts @ [l, ''hi'']) = Some l"
    using assms(2) hi_token by (simp add: sidecar_lang_token_def) (simp add: lang_left_of_hi_def)
  have "trailing_suffix_cluster (ts @ [w, ''hi'']) = [''hi'']"
    using cluster_snoc [of "ts @ [w]" "''hi''"] cluster_snoc [of ts w] hi_token assms(3) by simp
  then show "sidecar_lang_token (ts @ [w, ''hi'']) = Some ''hi''"
    using hi_token by (simp add: sidecar_lang_token_def)
qed

theorem sidecar_marker_rules_witness:
  "sidecar_lang_token ([''movie'', ''en''] @ [''alass'']) = sidecar_lang_token [''movie'', ''en'']
   \<and> sidecar_lang_token ([''movie''] @ [''es'', ''hi'']) = Some ''es''
   \<and> sidecar_lang_token ([''mr''] @ [''title'', ''hi'']) = Some ''hi''"
proof -
  have "skip_token ''alass''" "lang_left_of_hi ''es''" "\<not> cluster_token ''title''"
    by code_simp+
  note r = sidecar_marker_rules [OF this]
  show ?thesis
    using r [of "[''movie'', ''en'']"] r [of "[''movie'']"] r [of "[''mr'']"] by blast
qed

lemma set_langs_in_sidecars: "l \<in> set (langs_in_sidecars ps) \<longleftrightarrow> (\<exists>p \<in> set ps. sidecar_lang p = Some l)"
  unfolding langs_in_sidecars_def by (induction ps) (auto simp: List.map_filter_simps split: option.split)

lemma sidecars_for_file_subset: "set (sidecars_for_file ps f) \<subseteq> set ps"
  by (auto simp: sidecars_for_file_def Let_def)

lemma match_pattern_subset: "set (snd (match_episode_srt_pattern ps e)) \<subseteq> set ps"
  by (auto simp: match_episode_srt_pattern_def Let_def split: option.splits)

definition counts_for :: "string list \<Rightarrow> string \<Rightarrow> bool" where
  "counts_for missing p =
     (case sidecar_lang p of None \<Rightarrow> False | Some l \<Rightarrow> normalize_lang (Some l) \<in> set (wanted_codes missing))"

lemma forced_never_counts:
  "''forced'' \<in> set (split_tokens (take (length (lower (base_name p)) - 4) (lower (base_name p)))) \<Longrightarrow> \<not> counts_for missing p"
  by (simp add: counts_for_def sidecar_lang_def Let_def split: option.split)

text \<open>For an episode whose file Sonarr has resolved and some wanted language, the gap is called stale
  exactly when one of the reported sidecars carries a wanted language in its name and is not a
  forced track, and every reported sidecar is one of the files of the series folder.\<close>

theorem stale_exactly_when_wanted:
  assumes "episode_file_canonical libs sm (Some e) = Some f" "wanted_codes missing \<noteq> []"
  shows "(fst (stale_for_episode libs sm (Some e) srts num missing)
            \<longleftrightarrow> list_ex (counts_for missing) (snd (stale_for_episode libs sm (Some e) srts num missing)))
    \<and> set (snd (stale_for_episode libs sm (Some e) srts num missing)) \<subseteq> set srts"
proof (cases "srts = []")
  case True
  then show ?thesis
    by (auto simp: stale_for_episode_def match_episode_srt_pattern_def Let_def split: option.splits)
next
  case False
  define own where "own = sidecars_for_file srts f"
  define sc where "sc = (if own = [] then snd (match_episode_srt_pattern srts num) else own)"
  have s: "stale_for_episode libs sm (Some e) srts num missing =
      (if sc = [] then (False, []) else (list_ex (\<lambda>w. w \<in> set (sidecar_languages sc)) (wanted_codes missing), sc))"
    using assms False by (simp add: stale_for_episode_def Let_def own_def sc_def)
  have "set sc \<subseteq> set srts"
    using sidecars_for_file_subset match_pattern_subset by (auto simp: sc_def own_def)
  moreover have "list_ex (\<lambda>w. w \<in> set (sidecar_languages sc)) (wanted_codes missing) \<longleftrightarrow> list_ex (counts_for missing) sc"
    by (fastforce simp: list_ex_iff sidecar_languages_def set_langs_in_sidecars counts_for_def split: option.splits)
  ultimately show ?thesis
    unfolding s by (cases "sc = []") auto
qed

definition demo_maps :: sonarr_maps where
  "demo_maps = \<lparr>sm_episode_file = (\<lambda>e. if e = 5 then Some 9 else None),
     sm_file_path = (\<lambda>f. if f = 9 then Some ''/tv/Show/S1/Show.S01E02.mkv'' else None)\<rparr>"

theorem stale_exactly_when_wanted_witness:
  "fst (stale_for_episode [] demo_maps (Some 5) [''S1/Show.S01E02.eng.srt'', ''S1/Show.S01E02.de.forced.srt''] (Some ''1x2'') [''en''])"
proof -
  let ?srts = "[''S1/Show.S01E02.eng.srt'', ''S1/Show.S01E02.de.forced.srt'']"
  have f: "episode_file_canonical [] demo_maps (Some 5) = Some ''tv/Show/S1/Show.S01E02.mkv''"
    and w: "wanted_codes [''en''] \<noteq> []"
    and s: "list_ex (counts_for [''en'']) (snd (stale_for_episode [] demo_maps (Some 5) ?srts (Some ''1x2'') [''en'']))"
    by code_simp+
  show ?thesis
    using stale_exactly_when_wanted [OF f w, of ?srts "Some ''1x2''"] s by blast
qed

text \<open>Two departures from the comments. An untagged sidecar that is the only one does not count as
  covering anything. And the name of the video is not taken off first, so the plain sidecar of a
  film called \<open>It\<close> counts as Italian instead of undefined.\<close>

lemma only_untagged_not_stale:
  "stale_for_episode [] demo_maps (Some 5) [''S1/Show.S01E02.srt''] (Some ''1x2'') [''en''] = (False, [''S1/Show.S01E02.srt''])"
  by code_simp

lemma plain_sidecar_of_it_is_italian: "langs_in_sidecars [''It.srt''] = [''it'']"
  by code_simp

end
