(* ===== verification/TranscriptSignals.thy ===== *)
theory TranscriptSignals
  imports SrtTiming SidecarLang
begin

text \<open>
  Signals of a transcript that need no reference (\<open>src/src/subarr/transcript_signals.py\<close>): text over
  silence, speech without text, repeated lines, canned phrases and advertisements at the edges. The
  ratios lie between 0 and 1 whatever the cues and the speech ranges are.
\<close>

type_synonym ranges = "(rat \<times> rat) list"

definition canned_patterns :: "string list" where
  "canned_patterns = [''thank you for watching'', ''thanks for watching'', ''thank you for your watching'', ''subtitles by'',
     ''amara.org'', ''subscribe to'', ''please subscribe'', ''like and subscribe'', ''see you in the next'', ''thanks for listening'']"

definition ad_patterns :: "string list" where
  "ad_patterns = [''opensubtitles'', ''addic7ed'', ''podnapisi'', ''subscene'', ''yify'', ''downloaded from'', ''ripped by'',
     ''encoded by'', ''sync by'', ''synced by'', ''sync and corrections'', ''corrected by'', ''advertise your product'',
     ''remove all ads'', ''become vip member'', ''support us and become'', ''www.'', ''http://'', ''https://'']"

definition cue_text :: "cue \<Rightarrow> string" where
  "cue_text c = strip (join_with '' '' (cu_lines c))"

definition edge_indices :: "nat \<Rightarrow> nat \<Rightarrow> nat list" where
  "edge_indices edge n = remdups ([0..<min edge n] @ (if edge < n then [n - edge..<n] else []))"

definition ad_boilerplate_hits :: "nat \<Rightarrow> cue list \<Rightarrow> nat" where
  "ad_boilerplate_hits edge cues =
     length (filter (\<lambda>i. list_ex (\<lambda>p. contains p (lower (cue_text (cues ! i)))) ad_patterns) (edge_indices edge (length cues)))"

definition secs :: "int \<Rightarrow> rat" where
  "secs ms = of_int ms / 1000"

definition overlap_s :: "rat \<Rightarrow> rat \<Rightarrow> rat \<times> rat \<Rightarrow> rat" where
  "overlap_s a b r = (case r of (s, e) \<Rightarrow> if max a s < min b e then min b e - max a s else 0)"

definition silence_text_ratio :: "cue list \<Rightarrow> ranges option \<Rightarrow> rat" where
  "silence_text_ratio cues ranges =
     (case ranges of
        None \<Rightarrow> 0
      | Some rs \<Rightarrow>
          if cues = [] \<or> rs = [] then 0
          else (let timed = filter (\<lambda>(a, b). 0 < b - a) (map (\<lambda>c. (secs (cu_start c), secs (cu_end c))) cues);
                    all = (\<Sum>(a, b)\<leftarrow>timed. b - a);
                    outside = (\<Sum>(a, b)\<leftarrow>timed. max 0 ((b - a) - (\<Sum>r\<leftarrow>rs. overlap_s a b r)))
                in if 0 < all then outside / all else 0))"

definition uncovered_speech_ratio :: "cue list \<Rightarrow> ranges option \<Rightarrow> rat" where
  "uncovered_speech_ratio cues ranges =
     (case ranges of
        None \<Rightarrow> 0
      | Some rs \<Rightarrow>
          if rs = [] then 0
          else (let spoken = filter (\<lambda>(s, e). 0 < e - s) rs;
                    all = (\<Sum>(s, e)\<leftarrow>spoken. e - s);
                    covered = (\<Sum>(s, e)\<leftarrow>spoken. \<Sum>c\<leftarrow>cues. overlap_s s e (secs (cu_start c), secs (cu_end c)))
                in if all \<le> 0 then 0 else max 0 ((all - min covered all) / all)))"

definition line_texts :: "cue list \<Rightarrow> string list" where
  "line_texts cues = map lower (filter (\<lambda>t. t \<noteq> []) (map cue_text cues))"

definition repeated_line_ratio :: "cue list \<Rightarrow> rat" where
  "repeated_line_ratio cues =
     (let texts = line_texts cues in
      if length texts \<le> 1 then 0
      else of_nat (\<Sum>t\<leftarrow>remdups texts. count_list texts t - 1) / of_nat (length texts))"

definition canned_phrase_hits :: "cue list \<Rightarrow> nat" where
  "canned_phrase_hits cues = length (filter (\<lambda>c. list_ex (\<lambda>p. contains p (lower (cue_text c))) canned_patterns) cues)"

section \<open>Bounds\<close>

lemma overlap_nonneg: "0 \<le> overlap_s a b r"
  by (cases r) (simp add: overlap_s_def)

lemma sum_overlap_nonneg: "0 \<le> (\<Sum>r\<leftarrow>rs. overlap_s a b (f r))"
  by (induction rs) (simp_all add: overlap_nonneg)

lemma sum_sum_overlap_nonneg: "0 \<le> (\<Sum>(s, e)\<leftarrow>rs. \<Sum>c\<leftarrow>cs. overlap_s s e (f c))"
  by (induction rs) (auto intro: add_nonneg_nonneg sum_overlap_nonneg)

lemma silence_ratio_bounds: "0 \<le> silence_text_ratio cues ranges \<and> silence_text_ratio cues ranges \<le> 1"
proof (cases ranges)
  case (Some rs)
  define timed where "timed = filter (\<lambda>(a, b). 0 < b - a) (map (\<lambda>c. (secs (cu_start c), secs (cu_end c))) cues)"
  let ?all = "\<Sum>(a, b)\<leftarrow>timed. b - a"
  let ?out = "\<Sum>(a, b)\<leftarrow>timed. max 0 ((b - a) - (\<Sum>r\<leftarrow>rs. overlap_s a b r))"
  have pos: "\<forall>(a, b) \<in> set timed. 0 < b - a" by (auto simp: timed_def)
  have nonneg: "0 \<le> ?out" by (induction timed) auto
  have "?out \<le> ?all" using pos
  proof (induction timed)
    case (Cons t ts)
    have "max 0 ((b - a) - (\<Sum>r\<leftarrow>rs. overlap_s a b r)) \<le> b - a" if "0 < b - a" for a b
      using sum_overlap_nonneg [of a b "\<lambda>r. r" rs] that by simp
    with Cons show ?case by (cases t) (fastforce intro: add_mono)
  qed simp
  with nonneg have "0 < ?all \<Longrightarrow> 0 \<le> ?out / ?all \<and> ?out / ?all \<le> 1" by simp
  then show ?thesis unfolding silence_text_ratio_def Some option.case Let_def timed_def [symmetric] by simp
qed (simp add: silence_text_ratio_def)

lemma uncovered_ratio_bounds: "0 \<le> uncovered_speech_ratio cues ranges \<and> uncovered_speech_ratio cues ranges \<le> 1"
proof (cases ranges)
  case (Some rs)
  define spoken where "spoken = filter (\<lambda>(s, e). 0 < e - s) rs"
  define covered where "covered = (\<Sum>(s, e)\<leftarrow>spoken. \<Sum>c\<leftarrow>cues. overlap_s s e (secs (cu_start c), secs (cu_end c)))"
  have "0 \<le> covered" unfolding covered_def by (rule sum_sum_overlap_nonneg)
  then show ?thesis
    unfolding uncovered_speech_ratio_def Some option.case Let_def spoken_def [symmetric] covered_def [symmetric]
    by (auto simp: divide_le_eq_1)
qed (simp add: uncovered_speech_ratio_def)

lemma repeated_ratio_bounds: "0 \<le> repeated_line_ratio cues \<and> repeated_line_ratio cues \<le> 1"
proof -
  let ?ts = "line_texts cues"
  have "(\<Sum>t\<leftarrow>remdups ?ts. count_list ?ts t - 1) \<le> (\<Sum>t\<leftarrow>remdups ?ts. count_list ?ts t)"
    by (rule sum_list_mono) simp
  also have "\<dots> = length ?ts"
    by (simp add: sum_list_distinct_conv_sum_set sum_count_set)
  finally have "of_nat (\<Sum>t\<leftarrow>remdups ?ts. count_list ?ts t - 1) \<le> (of_nat (length ?ts) :: rat)" by (simp only: of_nat_le_iff)
  then show ?thesis by (auto simp: repeated_line_ratio_def Let_def divide_le_eq_1)
qed

lemma count_list_distinct: "distinct xs \<Longrightarrow> count_list xs x \<le> 1"
  by (induction xs) (auto simp: count_list_0_iff)

lemma no_repeats: "distinct (line_texts cues) \<Longrightarrow> repeated_line_ratio cues = 0"
  using count_list_distinct [of "line_texts cues"]
  by (auto simp: repeated_line_ratio_def Let_def distinct_remdups_id sum_list_eq_0_iff)

end
