(* ===== verification/Tournament.thy ===== *)
theory Tournament
  imports TranscriptSignals
begin

text \<open>
  The judging of transcripts (\<open>src/src/subarr/tournament.py\<close>) and the verdict on a finished job that is
  built on it (\<open>aftercare.py\<close>): the score of one entrant, the consensus over all entrants, the ranking.
  The adequacy of a translation (\<open>qe.py\<close>, a language model) is an argument; parsing may raise, which is
  \<open>None\<close>. Times that are missing are \<open>None\<close>.
\<close>

section \<open>The rubric\<close>

definition critical_penalty :: rat where "critical_penalty = 2"
definition warn_penalty :: rat where "warn_penalty = 1"
definition quality_weight :: rat where "quality_weight = 85 / 100"
definition speed_weight :: rat where "speed_weight = 15 / 100"
definition readability_k :: rat where "readability_k = 25"
definition readability_cap :: rat where "readability_cap = 20"
definition silence_text_penalty :: rat where "silence_text_penalty = 100"
definition repeat_penalty :: rat where "repeat_penalty = 100"
definition canned_penalty :: rat where "canned_penalty = 40"
definition canned_cap :: nat where "canned_cap = 3"
definition coverage_penalty :: rat where "coverage_penalty = 50"
definition consensus_penalty :: rat where "consensus_penalty = 40"
definition qe_blend :: rat where "qe_blend = 70 / 100"
definition non_speech_clip_max_s :: rat where "non_speech_clip_max_s = 1 / 10"

lemmas rubric = critical_penalty_def warn_penalty_def quality_weight_def speed_weight_def readability_k_def readability_cap_def
  silence_text_penalty_def repeat_penalty_def canned_penalty_def canned_cap_def coverage_penalty_def consensus_penalty_def
  qe_blend_def non_speech_clip_max_s_def

definition round_to :: "nat \<Rightarrow> rat \<Rightarrow> rat" where
  "round_to k x = of_int (py_round (x * 10 ^ k)) / 10 ^ k"

section \<open>One entrant\<close>

record entrant =
  en_label :: string
  en_srt :: string
  en_time :: "rat option"
  en_ranges :: "ranges option"
  en_source :: "string option"

record signals =
  sg_silence :: rat
  sg_repeat :: rat
  sg_canned :: nat
  sg_uncovered :: rat
  sg_ads :: nat
  sg_adequacy :: "rat option"
  sg_non_speech :: bool

record consensus =
  cn_precision :: rat
  cn_recall :: rat
  cn_f1 :: rat

record scorecard =
  sc_label :: string
  sc_disqualified :: bool
  sc_composite :: rat
  sc_readability :: rat
  sc_cues :: nat
  sc_time :: "rat option"
  sc_issues :: "cue_issue list option"
  sc_signals :: "signals option"
  sc_consensus :: "consensus option"
  sc_adequacy :: "rat option"

definition severity_count :: "severity \<Rightarrow> cue_issue list \<Rightarrow> nat" where
  "severity_count s issues = length (filter (\<lambda>i. ci_severity i = s) issues)"

definition readability_load :: "nat \<Rightarrow> cue_issue list \<Rightarrow> rat" where
  "readability_load n issues =
     (of_nat (severity_count Critical issues) * critical_penalty + of_nat (severity_count Warn issues) * warn_penalty) / of_nat (max n 1)"

definition readability_score :: "nat \<Rightarrow> cue_issue list \<Rightarrow> rat" where
  "readability_score n issues = max 0 (100 - readability_load n issues * 100)"

definition speech_seconds :: "ranges \<Rightarrow> rat" where
  "speech_seconds rs = (\<Sum>(s, e)\<leftarrow>rs. max 0 (e - s))"

definition is_non_speech_clip :: "ranges option \<Rightarrow> bool" where
  "is_non_speech_clip ranges \<longleftrightarrow> (case ranges of None \<Rightarrow> False | Some rs \<Rightarrow> speech_seconds rs \<le> non_speech_clip_max_s)"

definition qe_adequacy :: "(string \<Rightarrow> string \<Rightarrow> rat option) \<Rightarrow> string \<Rightarrow> string \<Rightarrow> rat option" where
  "qe_adequacy adq source hyp = (if strip source = [] \<or> strip hyp = [] then None else adq source hyp)"

definition structural_quality :: "rat \<Rightarrow> rat \<Rightarrow> cue list \<Rightarrow> ranges option \<Rightarrow> rat" where
  "structural_quality cps_max cps_crit cues ranges =
     (let sil = (if is_non_speech_clip ranges then 1 else silence_text_ratio cues ranges);
          qe_penalty = sil * silence_text_penalty + repeated_line_ratio cues * repeat_penalty
             + of_nat (min (canned_phrase_hits cues) canned_cap) * canned_penalty
             + uncovered_speech_ratio cues ranges * coverage_penalty;
          issues = analyze_with cps_max cps_crit cues;
          readability_penalty = min (readability_load (length cues) issues * readability_k) readability_cap
      in max 0 (100 - qe_penalty - readability_penalty))"

definition signals_of :: "cue list \<Rightarrow> ranges option \<Rightarrow> rat option \<Rightarrow> signals" where
  "signals_of cues ranges adequacy =
     \<lparr>sg_silence = round_to 4 (if is_non_speech_clip ranges then 1 else silence_text_ratio cues ranges),
      sg_repeat = round_to 4 (repeated_line_ratio cues), sg_canned = canned_phrase_hits cues,
      sg_uncovered = round_to 4 (uncovered_speech_ratio cues ranges), sg_ads = ad_boilerplate_hits 5 cues,
      sg_adequacy = map_option (round_to 4) adequacy, sg_non_speech = False\<rparr>"

definition silent_signals :: signals where
  "silent_signals = \<lparr>sg_silence = 0, sg_repeat = 0, sg_canned = 0, sg_uncovered = 0, sg_ads = 0, sg_adequacy = None, sg_non_speech = True\<rparr>"

definition adequacy_of :: "(string \<Rightarrow> string \<Rightarrow> rat option) \<Rightarrow> entrant \<Rightarrow> cue list \<Rightarrow> rat option" where
  "adequacy_of adq e cues =
     (if truthy_str (en_source e)
      then qe_adequacy adq (or_empty (en_source e)) (join_with '' '' (map (\<lambda>c. join_with '' '' (cu_lines c)) cues)) else None)"

definition with_speed :: "rat option \<Rightarrow> rat option \<Rightarrow> rat \<Rightarrow> rat" where
  "with_speed time fastest quality =
     (case (time, fastest) of
        (Some t, Some f) \<Rightarrow>
          if f \<noteq> 0 \<and> 0 < t then quality * quality_weight + min 100 (f / t * 100) * speed_weight else quality
      | _ \<Rightarrow> quality)"

definition score_cues :: "(string \<Rightarrow> string \<Rightarrow> rat option) \<Rightarrow> rat \<Rightarrow> rat \<Rightarrow> rat option \<Rightarrow> entrant \<Rightarrow> cue list \<Rightarrow> scorecard" where
  "score_cues adq cps_max cps_crit fastest e cues =
     (if cues = [] then
        (if is_non_speech_clip (en_ranges e) then
           \<lparr>sc_label = en_label e, sc_disqualified = False, sc_composite = 100, sc_readability = 100, sc_cues = 0, sc_time = en_time e,
            sc_issues = None, sc_signals = Some silent_signals, sc_consensus = None, sc_adequacy = None\<rparr>
         else
           \<lparr>sc_label = en_label e, sc_disqualified = True, sc_composite = 0, sc_readability = 0, sc_cues = 0, sc_time = en_time e,
            sc_issues = None, sc_signals = None, sc_consensus = None, sc_adequacy = None\<rparr>)
      else
        (let issues = analyze_with cps_max cps_crit cues;
             quality = structural_quality cps_max cps_crit cues (en_ranges e);
             adequacy = adequacy_of adq e cues;
             all = (case adequacy of None \<Rightarrow> quality | Some q \<Rightarrow> q * 100 * qe_blend + quality * (1 - qe_blend))
         in \<lparr>sc_label = en_label e, sc_disqualified = False, sc_composite = round_to 2 (with_speed (en_time e) fastest all),
             sc_readability = round_to 2 (readability_score (length cues) issues), sc_cues = length cues, sc_time = en_time e,
             sc_issues = Some issues, sc_signals = Some (signals_of cues (en_ranges e) adequacy), sc_consensus = None,
             sc_adequacy = adequacy\<rparr>))"

definition score_entrant :: "(string \<Rightarrow> string \<Rightarrow> rat option) \<Rightarrow> rat \<Rightarrow> rat \<Rightarrow> rat option \<Rightarrow> entrant \<Rightarrow> scorecard option" where
  "score_entrant adq cps_max cps_crit fastest e = map_option (score_cues adq cps_max cps_crit fastest e) (parse_srt (en_srt e))"

section \<open>Consensus\<close>

definition word_char :: "char \<Rightarrow> bool" where
  "word_char c \<longleftrightarrow> (let n = code_of c in (48 \<le> n \<and> n \<le> 57) \<or> (97 \<le> n \<and> n \<le> 122))"

fun words_of :: "string \<Rightarrow> string list" where
  "words_of [] = []"
| "words_of (c # s) =
     (if word_char c then
        (case s of
           d # _ \<Rightarrow> if word_char d then (case words_of s of w # ws \<Rightarrow> (c # w) # ws | [] \<Rightarrow> [[c]]) else [c] # words_of s
         | [] \<Rightarrow> [[c]])
      else words_of s)"

definition content_tokens :: "string \<Rightarrow> string list" where
  "content_tokens srt =
     (case parse_srt srt of
        None \<Rightarrow> []
      | Some cues \<Rightarrow> remdups (concat (map (\<lambda>c. words_of (lower (join_with '' '' (cu_lines c)))) cues)))"

fun pairs_of :: "'a list \<Rightarrow> ('a \<times> 'a) list" where
  "pairs_of [] = []"
| "pairs_of (x # xs) = map (Pair x) xs @ pairs_of xs"

definition ratio :: "nat \<Rightarrow> nat \<Rightarrow> rat" where
  "ratio a b = (if b = 0 then 0 else of_nat a / of_nat b)"

definition agreed_words :: "string list list \<Rightarrow> string list" where
  "agreed_words vocabs =
     filter (\<lambda>w. length vocabs div 2 + 1 \<le> length (filter (\<lambda>v. w \<in> set v) vocabs)) (remdups (concat vocabs))"

definition consensus_of :: "string list \<Rightarrow> string list \<Rightarrow> consensus" where
  "consensus_of agreed v =
     (let n = length (filter (\<lambda>w. w \<in> set agreed) v); p = ratio n (length v); r = ratio n (length agreed);
          f1 = (if p + r \<noteq> 0 then 2 * p * r / (p + r) else 0)
      in \<lparr>cn_precision = round_to 4 p, cn_recall = round_to 4 r, cn_f1 = round_to 4 f1\<rparr>)"

definition jaccard :: "string list \<times> string list \<Rightarrow> rat" where
  "jaccard ab = (case ab of (a, b) \<Rightarrow> ratio (length (filter (\<lambda>w. w \<in> set b) a)) (length (remdups (a @ b))))"

definition consensus_scores :: "(string \<times> string) list \<Rightarrow> (string \<times> consensus) list \<times> rat option" where
  "consensus_scores srts =
     (if length srts < 2 then ([], None)
      else (let vocabs = map (\<lambda>(l, srt). (l, content_tokens srt)) srts;
                agreed = agreed_words (map snd vocabs);
                sims = map jaccard (pairs_of (map snd vocabs))
            in (map (\<lambda>(l, v). (l, consensus_of agreed v)) vocabs, Some (round_to 4 (sum_list sims / of_nat (length sims))))))"

section \<open>The tournament\<close>

record tournament_result =
  tr_cards :: "scorecard list"
  tr_winner :: "string option"
  tr_agreement :: "rat option"

text \<open>Dictionaries over the labels: a repeated label keeps its last entrant.\<close>

definition scorable :: "entrant list \<Rightarrow> scorecard list \<Rightarrow> (string \<times> string) list" where
  "scorable entrants cards =
     (let by_label = map (\<lambda>e. (en_label e, en_srt e)) (rev entrants) in
      fold (\<lambda>c. AList.update (sc_label c) (or_empty (map_of by_label (sc_label c)))) (filter (\<lambda>c. \<not> sc_disqualified c) cards) [])"

definition apply_consensus :: "(string \<times> consensus) list \<Rightarrow> scorecard \<Rightarrow> scorecard" where
  "apply_consensus reports c =
     (case map_of reports (sc_label c) of
        None \<Rightarrow> c
      | Some r \<Rightarrow> c\<lparr>sc_consensus := Some r, sc_composite := round_to 2 (max 0 (sc_composite c - (1 - cn_f1 r) * consensus_penalty))\<rparr>)"

definition rank_of :: "scorecard \<Rightarrow> bool \<times> rat \<times> bool \<times> rat" where
  "rank_of c = (sc_disqualified c, - sc_composite c, sc_time c = None, (case sc_time c of None \<Rightarrow> 0 | Some t \<Rightarrow> t))"

definition fastest_of :: "entrant list \<Rightarrow> rat option" where
  "fastest_of entrants = sql_min (filter (\<lambda>t. t \<noteq> 0) (List.map_filter en_time entrants))"

definition judged :: "entrant list \<Rightarrow> scorecard list \<Rightarrow> tournament_result" where
  "judged entrants cards =
     (let (reports, agreement) = consensus_scores (scorable entrants cards);
          ranked = sort_key rank_of (map (apply_consensus reports) cards)
      in \<lparr>tr_cards = ranked, tr_winner = map_option sc_label (List.find (\<lambda>c. \<not> sc_disqualified c) ranked), tr_agreement = agreement\<rparr>)"

definition run_tournament :: "(string \<Rightarrow> string \<Rightarrow> rat option) \<Rightarrow> rat \<Rightarrow> rat \<Rightarrow> entrant list \<Rightarrow> tournament_result option" where
  "run_tournament adq cps_max cps_crit entrants =
     (if entrants = [] then Some \<lparr>tr_cards = [], tr_winner = None, tr_agreement = None\<rparr>
      else (let cards = map (score_entrant adq cps_max cps_crit (fastest_of entrants)) entrants in
        if None \<in> set cards then None else Some (judged entrants (map the cards))))"

section \<open>The verdict on a finished job\<close>

definition aftercare_composite_min :: rat where "aftercare_composite_min = 65"
definition aftercare_repeat_max :: rat where "aftercare_repeat_max = 20 / 100"
definition aftercare_sync_overrun_max_s :: rat where "aftercare_sync_overrun_max_s = 30"

record aftercare_evaluation =
  ae_composite :: rat
  ae_cues :: nat
  ae_flagged :: bool
  ae_issues :: "cue_issue list option"
  ae_signals :: "signals option"
  ae_overrun :: "rat option"
  ae_span :: "rat option"

definition is_flagged :: "rat option \<Rightarrow> scorecard \<Rightarrow> bool" where
  "is_flagged overrun c \<longleftrightarrow>
     sc_disqualified c
     \<or> (case sc_signals c of None \<Rightarrow> False | Some sg \<Rightarrow> 0 < sg_canned sg \<or> 0 < sg_ads sg)
     \<or> (case overrun of None \<Rightarrow> False | Some x \<Rightarrow> aftercare_sync_overrun_max_s < x)
     \<or> (case sc_signals c of None \<Rightarrow> False | Some sg \<Rightarrow> aftercare_repeat_max < sg_repeat sg)
     \<or> (case sc_issues c of None \<Rightarrow> False | Some is \<Rightarrow> list_ex (\<lambda>i. ci_severity i = Critical) is)
     \<or> sc_composite c < aftercare_composite_min"

definition evaluate_subtitle :: "rat option \<Rightarrow> string \<Rightarrow> aftercare_evaluation option" where
  "evaluate_subtitle duration srt =
     (case parse_srt srt of
        None \<Rightarrow> None
      | Some cues \<Rightarrow>
          (let e = \<lparr>en_label = ''aftercare'', en_srt = srt, en_time = None, en_ranges = None, en_source = None\<rparr>;
               c = score_cues (\<lambda>_ _. None) comfortable_cps critical_cps None e cues;
               end_s = map_option secs (sql_max (map cu_end cues));
               sync = (case (duration, end_s) of (Some d, Some l) \<Rightarrow> if 0 < d then Some (round_to 1 (max 0 (l - d)), round_to 3 (l / d)) else None | _ \<Rightarrow> None)
           in Some \<lparr>ae_composite = sc_composite c, ae_cues = sc_cues c, ae_flagged = is_flagged (map_option fst sync) c, ae_issues = sc_issues c,
                 ae_signals = sc_signals c, ae_overrun = map_option fst sync, ae_span = map_option snd sync\<rparr>))"

section \<open>Bounds of the scores\<close>

lemma py_round_ge: "of_int n \<le> x \<Longrightarrow> n \<le> py_round x"
  unfolding py_round_def Let_def by (smt (verit) le_floor_iff)

lemma py_round_le: "x \<le> of_int n \<Longrightarrow> py_round x \<le> n"
proof -
  assume x: "x \<le> of_int n"
  show ?thesis
  proof (cases "x = of_int n")
    case False
    then have "\<lfloor>x\<rfloor> < n" using x by (simp add: floor_less_iff)
    then show ?thesis by (auto simp: py_round_def Let_def)
  qed (simp add: py_round_def)
qed

lemma round_to_ge: "of_int n \<le> x \<Longrightarrow> of_int n \<le> round_to k x"
proof -
  assume "of_int n \<le> x"
  then have "of_int (n * 10 ^ k) \<le> x * 10 ^ k" by simp
  then have "n * 10 ^ k \<le> py_round (x * 10 ^ k)" by (rule py_round_ge)
  then have "of_int (n * 10 ^ k) \<le> (of_int (py_round (x * 10 ^ k)) :: rat)" by (simp only: of_int_le_iff)
  then show ?thesis by (simp add: round_to_def le_divide_eq)
qed

lemma round_to_le: "x \<le> of_int n \<Longrightarrow> round_to k x \<le> of_int n"
proof -
  assume "x \<le> of_int n"
  then have "x * 10 ^ k \<le> of_int (n * 10 ^ k)" by simp
  then have "py_round (x * 10 ^ k) \<le> n * 10 ^ k" by (rule py_round_le)
  then have "(of_int (py_round (x * 10 ^ k)) :: rat) \<le> of_int (n * 10 ^ k)" by (simp only: of_int_le_iff)
  then show ?thesis by (simp add: round_to_def divide_le_eq)
qed

lemma round_to_int: "round_to k (of_int n) = of_int n"
  by (intro antisym round_to_le round_to_ge) simp_all

lemma load_nonneg: "0 \<le> readability_load n issues"
  by (simp add: readability_load_def rubric)

lemma structural_quality_bounds: "0 \<le> structural_quality m k cues ranges \<and> structural_quality m k cues ranges \<le> 100"
  using silence_ratio_bounds [of cues ranges] uncovered_ratio_bounds [of cues ranges] repeated_ratio_bounds [of cues]
    load_nonneg [of "length cues" "analyze_with m k cues"]
  by (auto simp: structural_quality_def Let_def rubric min_def)

text \<open>On a clip without speech every cue is text over silence.\<close>

lemma quality_without_speech: "is_non_speech_clip ranges \<Longrightarrow> structural_quality m k cues ranges = 0"
  using uncovered_ratio_bounds [of cues ranges] repeated_ratio_bounds [of cues] load_nonneg [of "length cues" "analyze_with m k cues"]
  by (auto simp: structural_quality_def Let_def rubric min_def)

lemma with_speed_le: "quality \<le> 100 \<Longrightarrow> with_speed time fastest quality \<le> 100"
  by (auto simp: with_speed_def rubric min_def split: option.split)

lemma with_speed_ge:
  "0 \<le> quality \<Longrightarrow> (case fastest of None \<Rightarrow> True | Some f \<Rightarrow> 0 \<le> f) \<Longrightarrow> 0 \<le> with_speed time fastest quality"
  by (auto simp: with_speed_def rubric min_def split: option.split)

lemma ratio_bounds: "a \<le> b \<Longrightarrow> 0 \<le> ratio a b \<and> ratio a b \<le> 1"
  by (simp add: ratio_def divide_le_eq_1)

lemma f1_bounds:
  fixes p r :: rat
  assumes "0 \<le> p" "p \<le> 1" "0 \<le> r" "r \<le> 1" "p + r \<noteq> 0"
  shows "0 \<le> 2 * p * r / (p + r) \<and> 2 * p * r / (p + r) \<le> 1"
proof -
  have "p * r \<le> p" "p * r \<le> r" using assms by (simp_all add: mult_left_le mult_left_le_one_le)
  then have "2 * p * r \<le> p + r" by simp
  moreover have "0 < p + r" using assms by simp
  ultimately show ?thesis using assms by (simp add: divide_le_eq_1)
qed

lemma consensus_f1_bounds:
  assumes "distinct v" shows "0 \<le> cn_f1 (consensus_of agreed v) \<and> cn_f1 (consensus_of agreed v) \<le> 1"
proof -
  let ?n = "length (filter (\<lambda>w. w \<in> set agreed) v)"
  have "?n \<le> length v" by simp
  moreover have "?n \<le> length agreed"
  proof -
    have "?n = card (set v \<inter> set agreed)" using distinct_card [OF distinct_filter [OF assms, of "\<lambda>w. w \<in> set agreed"]] by (simp add: Int_def)
    also have "\<dots> \<le> card (set agreed)" by (rule card_mono) simp_all
    also have "\<dots> \<le> length agreed" by (rule card_length)
    finally show ?thesis .
  qed
  ultimately have "0 \<le> (if ratio ?n (length v) + ratio ?n (length agreed) \<noteq> 0
      then 2 * ratio ?n (length v) * ratio ?n (length agreed) / (ratio ?n (length v) + ratio ?n (length agreed)) else 0)
    \<and> (if ratio ?n (length v) + ratio ?n (length agreed) \<noteq> 0
      then 2 * ratio ?n (length v) * ratio ?n (length agreed) / (ratio ?n (length v) + ratio ?n (length agreed)) else 0) \<le> 1"
    using f1_bounds [of "ratio ?n (length v)" "ratio ?n (length agreed)"] ratio_bounds [of ?n "length v"] ratio_bounds [of ?n "length agreed"] by simp
  then show ?thesis
    using round_to_ge [of 0 _ 4] round_to_le [of _ 1 4] by (simp add: consensus_of_def Let_def)
qed

lemma reports_bounded:
  assumes "map_of (fst (consensus_scores srts)) l = Some r" shows "0 \<le> cn_f1 r \<and> cn_f1 r \<le> 1"
proof -
  from map_of_SomeD [OF assms] obtain srt vs where "r = consensus_of vs (content_tokens srt)"
    by (auto simp: consensus_scores_def Let_def split: if_splits)
  moreover have "distinct (content_tokens srt)" by (simp add: content_tokens_def split: option.split)
  ultimately show ?thesis by (simp add: consensus_f1_bounds)
qed

section \<open>The ranking\<close>

lemma apply_consensus_keeps:
  "sc_label (apply_consensus rs c) = sc_label c" "sc_disqualified (apply_consensus rs c) = sc_disqualified c"
  "sc_time (apply_consensus rs c) = sc_time c" "sc_cues (apply_consensus rs c) = sc_cues c"
  by (simp_all add: apply_consensus_def split: option.split)

lemma score_cues_keeps:
  "sc_label (score_cues adq m k f e cues) = en_label e"
  "sc_cues (score_cues adq m k f e cues) = length cues"
  "sc_disqualified (score_cues adq m k f e cues) \<longleftrightarrow> cues = [] \<and> \<not> is_non_speech_clip (en_ranges e)"
  by (simp_all add: score_cues_def Let_def)

text \<open>The cards of a run before the ranking.\<close>

definition cards_of :: "(string \<Rightarrow> string \<Rightarrow> rat option) \<Rightarrow> rat \<Rightarrow> rat \<Rightarrow> entrant list \<Rightarrow> scorecard list" where
  "cards_of adq m k entrants =
     (let cards = map (\<lambda>e. score_cues adq m k (fastest_of entrants) e (the (parse_srt (en_srt e)))) entrants in
      map (apply_consensus (fst (consensus_scores (scorable entrants cards)))) cards)"

lemma run_tournament_cards:
  assumes "run_tournament adq m k entrants = Some res"
  shows "tr_cards res = sort_key rank_of (cards_of adq m k entrants)"
    and "tr_winner res = map_option sc_label (List.find (\<lambda>c. \<not> sc_disqualified c) (tr_cards res))"
proof -
  define cs where "cs = map (\<lambda>e. score_cues adq m k (fastest_of entrants) e (the (parse_srt (en_srt e)))) entrants"
  have "map the (map (score_entrant adq m k (fastest_of entrants)) entrants) = cs"
    if "None \<notin> set (map (score_entrant adq m k (fastest_of entrants)) entrants)"
    using that by (auto simp: cs_def score_entrant_def image_iff option.map_sel)
  moreover have "\<lparr>tr_cards = [], tr_winner = None, tr_agreement = None\<rparr> = judged [] []"
    by (simp add: judged_def scorable_def consensus_scores_def Let_def)
  ultimately have "res = judged entrants cs"
    using assms by (auto simp: run_tournament_def Let_def cs_def simp del: map_map split: if_splits)
  then show "tr_cards res = sort_key rank_of (cards_of adq m k entrants)"
    and "tr_winner res = map_option sc_label (List.find (\<lambda>c. \<not> sc_disqualified c) (tr_cards res))"
    by (simp_all add: judged_def cards_of_def Let_def case_prod_unfold flip: cs_def)
qed

lemma find_in_sorted:
  "List.find P xs = Some c \<Longrightarrow> sorted_wrt R xs \<Longrightarrow> d \<in> set xs \<Longrightarrow> P d \<Longrightarrow> d = c \<or> R c d"
  by (induction xs) (auto split: if_splits)

lemma rank_le:
  "rank_of c \<le> rank_of d \<Longrightarrow> sc_disqualified c = sc_disqualified d \<Longrightarrow> sc_composite d \<le> sc_composite c
     \<and> (sc_composite d = sc_composite c \<longrightarrow> (case (sc_time c, sc_time d) of (Some s, Some t) \<Rightarrow> s \<le> t | (None, Some _) \<Rightarrow> False | _ \<Rightarrow> True))"
  by (auto simp: rank_of_def less_eq_prod_def less_prod_def split: option.splits)


section \<open>Silence\<close>

text \<open>A card over a clip without speech and without a source transcript: silence keeps at least 60 points,
  text gets at most the 15 for speed.\<close>

lemma card_without_speech:
  assumes "is_non_speech_clip (en_ranges e)" "\<not> truthy_str (en_source e)" "0 \<le> f1 \<and> f1 \<le> (1 :: rat)"
    and "c = score_cues adq m k f e cues"
  shows "sc_composite c - (1 - f1) * 40 \<le> (if cues = [] then 100 else 15)" and "cues = [] \<Longrightarrow> sc_composite c = 100"
    and "cues \<noteq> [] \<Longrightarrow> sc_composite c \<le> 15"
proof -
  have "with_speed t f 0 \<le> 15" for t
    by (auto simp: with_speed_def rubric min_def split: option.split)
  then have "round_to 2 (with_speed (en_time e) f 0) \<le> 15" using round_to_le [of _ 15 2] by simp
  then show le: "cues \<noteq> [] \<Longrightarrow> sc_composite c \<le> 15"
    using assms(1,2) by (simp add: assms(4) score_cues_def adequacy_of_def quality_without_speech Let_def)
  show all: "cues = [] \<Longrightarrow> sc_composite c = 100" using assms(1) by (simp add: assms(4) score_cues_def)
  show "sc_composite c - (1 - f1) * 40 \<le> (if cues = [] then 100 else 15)"
  proof (cases "cues = []")
    case False
    then show ?thesis using le assms(3) by simp
  qed (use all assms(3) in simp)
qed

lemma composite_without_speech:
  assumes "is_non_speech_clip (en_ranges e)" "\<not> truthy_str (en_source e)"
    and "c = apply_consensus (fst (consensus_scores srts)) (score_cues adq m k f e cues)"
  shows "if cues = [] then 60 \<le> sc_composite c else sc_composite c \<le> 15"
proof (cases "map_of (fst (consensus_scores srts)) (en_label e)")
  case None
  then have "c = score_cues adq m k f e cues" by (simp add: assms(3) apply_consensus_def score_cues_keeps)
  from card_without_speech(2,3) [OF assms(1,2) _ this, of 1] show ?thesis by simp
next
  case (Some r)
  note f1 = reports_bounded [OF Some]
  let ?c = "score_cues adq m k f e cues"
  have c: "sc_composite c = round_to 2 (max 0 (sc_composite ?c - (1 - cn_f1 r) * 40))"
    using Some by (simp add: assms(3) apply_consensus_def score_cues_keeps rubric)
  note bound = card_without_speech [OF assms(1,2) f1 refl, where adq = adq and m = m and k = k and f = f and cues = cues]
  show ?thesis
  proof (cases "cues = []")
    case True
    have "60 \<le> max 0 (sc_composite ?c - (1 - cn_f1 r) * 40)" using bound(2) [OF True] f1 by simp
    then show ?thesis using round_to_ge [of 60 _ 2] True c by simp
  next
    case False
    have "max 0 (sc_composite ?c - (1 - cn_f1 r) * 40) \<le> 15" using bound(1) False by simp
    then show ?thesis using round_to_le [of _ 15 2] False c by simp
  qed
qed

text \<open>On a clip without speech, judged without a source transcript, an entrant that produced nothing beats
  every entrant that made up text: the winner's own output is empty.\<close>

theorem silence_wins_without_speech:
  assumes run: "run_tournament adq m k entrants = Some res"
    and clip: "\<forall>e \<in> set entrants. is_non_speech_clip (en_ranges e) \<and> \<not> truthy_str (en_source e)"
    and silent: "e0 \<in> set entrants" "parse_srt (en_srt e0) = Some []"
  shows "\<exists>e \<in> set entrants. tr_winner res = Some (en_label e) \<and> parse_srt (en_srt e) = Some []"
proof -
  define reports where "reports = fst (consensus_scores (scorable entrants
      (map (\<lambda>e. score_cues adq m k (fastest_of entrants) e (the (parse_srt (en_srt e)))) entrants)))"
  define card where "card = (\<lambda>e. apply_consensus reports (score_cues adq m k (fastest_of entrants) e (the (parse_srt (en_srt e)))))"
  note cards = run_tournament_cards [OF run]
  have set: "set (tr_cards res) = card ` set entrants"
    unfolding cards(1) by (auto simp: cards_of_def Let_def card_def reports_def)
  have parses: "parse_srt (en_srt e) \<noteq> None" if "e \<in> set entrants" for e
    using run that by (auto simp: run_tournament_def score_entrant_def Let_def split: if_splits)
  have fair: "\<not> sc_disqualified (card e)" and score: "if the (parse_srt (en_srt e)) = [] then 60 \<le> sc_composite (card e) else sc_composite (card e) \<le> 15"
    if "e \<in> set entrants" for e
    using clip that composite_without_speech [OF _ _ card_def [THEN fun_cong, unfolded reports_def]]
    by (simp add: card_def apply_consensus_keeps score_cues_keeps) (use clip that composite_without_speech
        [OF _ _ card_def [THEN fun_cong, unfolded reports_def]] in blast)
  from silent(1) set have e0: "card e0 \<in> set (tr_cards res)" by blast
  then have "List.find (\<lambda>c. \<not> sc_disqualified c) (tr_cards res) \<noteq> None" using fair [OF silent(1)] by (auto simp: find_NoneD)
  then obtain c where c: "List.find (\<lambda>c. \<not> sc_disqualified c) (tr_cards res) = Some c" by blast
  then obtain e where e: "e \<in> set entrants" "c = card e" using find_SomeD [OF c] set by blast
  have "sorted_wrt (\<lambda>c d. rank_of c \<le> rank_of d) (tr_cards res)"
    unfolding cards(1) using sorted_sort_key [of rank_of "cards_of adq m k entrants"] by (simp only: sorted_map)
  from find_in_sorted [OF c this e0] have "sc_composite (card e0) \<le> sc_composite c"
    using rank_le [of c "card e0"] fair [OF silent(1)] fair [OF e(1)] e(2) by auto
  with score [OF silent(1)] score [OF e(1)] silent(2) e(2) have "the (parse_srt (en_srt e)) = []" by (simp split: if_splits)
  moreover have "tr_winner res = Some (en_label e)" by (simp add: cards(2) c e(2) card_def apply_consensus_keeps score_cues_keeps)
  ultimately show ?thesis using e(1) parses [OF e(1)] by (auto intro!: bexI [of _ e])
qed

section \<open>Examples\<close>

definition demo_entrant :: "string \<Rightarrow> string \<Rightarrow> string option \<Rightarrow> entrant" where
  "demo_entrant label srt source = \<lparr>en_label = label, en_srt = srt, en_time = None, en_ranges = Some [], en_source = source\<rparr>"

definition thanks_srt :: string where
  "thanks_srt = ''1'' @ [nl] @ ''00:00:01,000 --> 00:00:02,000'' @ [nl] @ ''Thank you'' @ [nl]"

lemma thanks_parsed: "parse_srt thanks_srt = Some [\<lparr>cu_index = 1, cu_start = 1000, cu_end = 2000, cu_lines = [''Thank you'']\<rparr>]"
  by code_simp

lemma empty_parsed: "parse_srt [] = Some []"
  by code_simp

lemma demo_clip: "is_non_speech_clip (en_ranges (demo_entrant l s src))"
  by (simp add: demo_entrant_def is_non_speech_clip_def speech_seconds_def rubric)

definition demo_run :: "tournament_result option" where
  "demo_run = run_tournament (\<lambda>_ _. None) 20 25 [demo_entrant ''chatty'' thanks_srt None, demo_entrant ''silent'' [] None]"

lemma demo_run_ends: "\<exists>res. demo_run = Some res"
  by (simp add: demo_run_def run_tournament_def score_entrant_def demo_entrant_def thanks_parsed empty_parsed)


lemma silence_wins_without_speech_witness: "\<exists>res. demo_run = Some res \<and> tr_winner res = Some ''silent''"
proof -
  obtain res where res: "demo_run = Some res" using demo_run_ends by blast
  have "\<exists>e \<in> set [demo_entrant ''chatty'' thanks_srt None, demo_entrant ''silent'' [] None].
      tr_winner res = Some (en_label e) \<and> parse_srt (en_srt e) = Some []"
    by (rule silence_wins_without_speech [OF res [unfolded demo_run_def], of "demo_entrant ''silent'' [] None"])
      (simp_all add: demo_clip, simp_all add: demo_entrant_def empty_parsed truthy_str_def)
  then show ?thesis using res by (auto simp: demo_entrant_def thanks_parsed)
qed

text \<open>Two entrants that both stay silent on a silent clip are reported as disagreeing completely, and each
  loses the whole consensus penalty.\<close>

lemma agreeing_on_silence_counts_as_disagreeing:
  "\<exists>res. run_tournament adq m k [demo_entrant ''a'' [] None, demo_entrant ''b'' [] None] = Some res
     \<and> tr_agreement res = Some 0 \<and> list_all (\<lambda>c. sc_composite c = 60) (tr_cards res)"
proof -
  have tokens: "content_tokens [] = []" by (simp add: content_tokens_def empty_parsed)
  have card: "score_cues adq m k f (demo_entrant l [] None) [] =
      \<lparr>sc_label = l, sc_disqualified = False, sc_composite = 100, sc_readability = 100, sc_cues = 0, sc_time = None,
       sc_issues = None, sc_signals = Some silent_signals, sc_consensus = None, sc_adequacy = None\<rparr>" for f l
    using demo_clip [of l "[]" None] by (simp add: score_cues_def demo_entrant_def)
  have none: "consensus_of [] [] = \<lparr>cn_precision = 0, cn_recall = 0, cn_f1 = 0\<rparr>"
    using round_to_int [of 4 0] by (simp add: consensus_of_def ratio_def)
  have sixty: "round_to 2 60 = 60" using round_to_int [of 2 60] by simp
  have zero: "round_to 4 0 = 0" using round_to_int [of 4 0] by simp
  show ?thesis
    by (simp add: run_tournament_def score_entrant_def empty_parsed card)
      (simp add: demo_entrant_def empty_parsed card [unfolded demo_entrant_def] judged_def scorable_def consensus_scores_def
        or_empty_def tokens agreed_words_def none zero jaccard_def ratio_def apply_consensus_def rubric sixty rank_of_def less_prod_def less_eq_prod_def)
qed

text \<open>With a transcript of the source, made up text that matches a made up transcript beats silence.\<close>

definition echo_run :: "tournament_result option" where
  "echo_run = run_tournament (\<lambda>_ _. Some 1) 20 25
     [demo_entrant ''a'' thanks_srt (Some ''merci''), demo_entrant ''b'' thanks_srt (Some ''merci''), demo_entrant ''c'' [] (Some ''merci'')]"

lemma made_up_text_can_win: "\<exists>res. echo_run = Some res \<and> tr_winner res = Some ''a''"
proof -
  define cue where "cue = \<lparr>cu_index = 1, cu_start = 1000, cu_end = 2000, cu_lines = [''Thank you'']\<rparr>"
  have tokens: "content_tokens [] = []" "content_tokens thanks_srt = [''thank'', ''you'']"
    by (simp_all add: content_tokens_def empty_parsed thanks_parsed) code_simp
  have round: "round_to 2 60 = 60" "round_to 2 70 = 70" "round_to 4 1 = 1" "round_to 4 0 = 0"
    using round_to_int [of 2 60] round_to_int [of 2 70] round_to_int [of 4 1] round_to_int [of 4 0] by simp_all
  have quality: "structural_quality m k [cue] (Some []) = 0" for m k
    by (rule quality_without_speech) (simp add: is_non_speech_clip_def speech_seconds_def rubric)
  have "strip ''merci'' \<noteq> []" "strip ''Thank you'' \<noteq> []" by code_simp+
  then have adequacy: "adequacy_of (\<lambda>_ _. Some 1) (demo_entrant l s (Some ''merci'')) [cue] = Some 1" for l s
    by (simp add: adequacy_of_def qe_adequacy_def demo_entrant_def truthy_str_def or_empty_def cue_def)
  have made_up: "sc_composite (score_cues (\<lambda>_ _. Some 1) 20 25 None (demo_entrant l thanks_srt (Some ''merci'')) [cue]) = 70" for l
    by (simp add: score_cues_def adequacy quality Let_def) (simp add: demo_entrant_def quality with_speed_def rubric round)
  have silent: "sc_composite (score_cues (\<lambda>_ _. Some 1) 20 25 None (demo_entrant l [] (Some ''merci'')) []) = 100" for l
    using demo_clip [of l "[]" "Some ''merci''"] by (simp add: score_cues_def)
  have consensus: "cn_f1 (consensus_of [''thank'', ''you''] [''thank'', ''you'']) = 1" "cn_f1 (consensus_of [''thank'', ''you''] []) = 0"
    by (simp_all add: consensus_of_def ratio_def round)
  let ?E = "[demo_entrant ''a'' thanks_srt (Some ''merci''), demo_entrant ''b'' thanks_srt (Some ''merci''), demo_entrant ''c'' [] (Some ''merci'')]"
  define card where "card = (\<lambda>e. score_cues (\<lambda>_ _. Some 1) 20 25 None e (the (parse_srt (en_srt e))))"
  have fast: "fastest_of ?E = None" by (simp add: fastest_of_def demo_entrant_def List.map_filter_simps)
  obtain res where res: "echo_run = Some res"
    by (simp add: echo_run_def run_tournament_def score_entrant_def demo_entrant_def thanks_parsed empty_parsed)
  have keeps: "sc_label (card e) = en_label e" "sc_disqualified (card e) \<longleftrightarrow> the (parse_srt (en_srt e)) = [] \<and> \<not> is_non_speech_clip (en_ranges e)"
    "sc_time (card e) = en_time e" for e
    by (simp_all add: card_def score_cues_keeps) (simp add: score_cues_def Let_def)
  have fair: "\<not> sc_disqualified (card (demo_entrant l s src))" for l s src by (simp add: keeps demo_clip)
  have labels: "en_label (demo_entrant l s src) = l" "en_srt (demo_entrant l s src) = s" "en_time (demo_entrant l s src) = None" for l s src
    by (simp_all add: demo_entrant_def)
  have reports: "fst (consensus_scores (scorable ?E (map card ?E))) =
      [(''a'', consensus_of [''thank'', ''you''] [''thank'', ''you'']), (''b'', consensus_of [''thank'', ''you''] [''thank'', ''you'']),
       (''c'', consensus_of [''thank'', ''you''] [])]"
  proof -
    have srts: "scorable ?E (map card ?E) = [(''a'', thanks_srt), (''b'', thanks_srt), (''c'', [])]"
      by (simp add: scorable_def fair keeps(1) labels or_empty_def)
    have agreed: "agreed_words [[''thank'', ''you''], [''thank'', ''you''], []] = [''thank'', ''you'']" by code_simp
    show ?thesis unfolding srts by (simp add: consensus_scores_def tokens agreed)
  qed
  have points: "sc_composite (card (demo_entrant l thanks_srt (Some ''merci''))) = 70" "sc_composite (card (demo_entrant l [] (Some ''merci''))) = 100" for l
    using made_up [of l] silent [of l] by (simp_all add: card_def labels thanks_parsed empty_parsed cue_def)
  have "cards_of (\<lambda>_ _. Some 1) 20 25 ?E = map (apply_consensus (fst (consensus_scores (scorable ?E (map card ?E))))) (map card ?E)"
    by (simp only: cards_of_def Let_def fast card_def)
  then have "sort_key rank_of (cards_of (\<lambda>_ _. Some 1) 20 25 ?E) =
      map (apply_consensus (fst (consensus_scores (scorable ?E (map card ?E))))) (map card ?E)"
    unfolding reports by (simp add: apply_consensus_def keeps(1,3) labels rank_of_def fair points consensus rubric round less_prod_def less_eq_prod_def)
  then have "tr_winner res = Some ''a''"
    using run_tournament_cards [OF res [unfolded echo_run_def]] by (simp add: apply_consensus_keeps keeps(1) fair labels)
  with res show ?thesis by blast
qed

section \<open>The range of the scores\<close>

definition in_range :: "rat \<Rightarrow> bool" where
  "in_range x \<longleftrightarrow> 0 \<le> x \<and> x \<le> 100"

lemma in_range_round: "in_range x \<Longrightarrow> in_range (round_to k x)"
  using round_to_ge [of 0 x k] round_to_le [of x 100 k] by (simp add: in_range_def)

lemma score_in_range:
  assumes "\<forall>s h. case adq s h of None \<Rightarrow> True | Some q \<Rightarrow> 0 \<le> q \<and> q \<le> 1" "case f of None \<Rightarrow> True | Some t \<Rightarrow> 0 \<le> t"
  shows "in_range (sc_composite (score_cues adq m k f e cues))"
proof (cases "cues = []")
  case False
  let ?q = "structural_quality m k cues (en_ranges e)"
  have "in_range (case adequacy_of adq e cues of None \<Rightarrow> ?q | Some q \<Rightarrow> q * 100 * qe_blend + ?q * (1 - qe_blend))"
  proof (cases "adequacy_of adq e cues")
    case (Some q)
    then have "\<exists>s h. adq s h = Some q" by (auto simp: adequacy_of_def qe_adequacy_def split: if_splits)
    then have "0 \<le> q \<and> q \<le> 1" using assms(1) by (metis option.simps(5))
    then show ?thesis using structural_quality_bounds [of m k cues "en_ranges e"] by (simp add: Some in_range_def rubric)
  qed (use structural_quality_bounds [of m k cues "en_ranges e"] in \<open>simp add: in_range_def\<close>)
  then have "in_range (with_speed (en_time e) f (case adequacy_of adq e cues of None \<Rightarrow> ?q | Some q \<Rightarrow> q * 100 * qe_blend + ?q * (1 - qe_blend)))"
    using with_speed_le with_speed_ge assms(2) by (auto simp: in_range_def)
  then show ?thesis using False by (simp add: score_cues_def Let_def in_range_round)
qed (simp add: score_cues_def in_range_def)

lemma consensus_in_range:
  "in_range (sc_composite c) \<Longrightarrow> in_range (sc_composite (apply_consensus (fst (consensus_scores srts)) c))"
proof (cases "map_of (fst (consensus_scores srts)) (sc_label c)")
  case (Some r)
  assume "in_range (sc_composite c)"
  then have "in_range (max 0 (sc_composite c - (1 - cn_f1 r) * 40))"
    using reports_bounded [OF Some] by (auto simp: in_range_def)
  then show ?thesis by (simp add: apply_consensus_def Some in_range_round rubric)
qed (simp add: apply_consensus_def)

text \<open>When the adequacy lies between 0 and 1 and no time is negative, every score of a tournament lies
  between 0 and 100, whatever the transcripts and speech ranges are.\<close>

theorem scores_in_range:
  assumes adq: "\<forall>s h. case adq s h of None \<Rightarrow> True | Some q \<Rightarrow> 0 \<le> q \<and> q \<le> 1"
    and times: "\<forall>e \<in> set entrants. case en_time e of None \<Rightarrow> True | Some t \<Rightarrow> 0 \<le> t"
    and run: "run_tournament adq m k entrants = Some res"
  shows "\<forall>c \<in> set (tr_cards res). 0 \<le> sc_composite c \<and> sc_composite c \<le> 100"
proof -
  have "set (List.map_filter en_time entrants) \<subseteq> {t. 0 \<le> t}"
    using times by (induction entrants) (auto simp: List.map_filter_simps split: option.splits)
  then have "case fastest_of entrants of None \<Rightarrow> True | Some t \<Rightarrow> 0 \<le> t"
    by (auto simp: fastest_of_def dest!: sql_min_in split: option.split)
  then show ?thesis using score_in_range [OF adq] consensus_in_range
    unfolding run_tournament_cards(1) [OF run] by (fastforce simp: cards_of_def Let_def in_range_def)
qed

lemma scores_in_range_witness: "\<exists>res. demo_run = Some res \<and> (\<forall>c \<in> set (tr_cards res). 0 \<le> sc_composite c \<and> sc_composite c \<le> 100)"
proof -
  obtain res where res: "demo_run = Some res" using demo_run_ends by blast
  have "\<forall>c \<in> set (tr_cards res). 0 \<le> sc_composite c \<and> sc_composite c \<le> 100"
    by (rule scores_in_range [OF _ _ res [unfolded demo_run_def]]) (simp_all add: demo_entrant_def)
  with res show ?thesis by blast
qed

text \<open>The adequacy is a cosine and may be negative; then a single entrant scores below zero.\<close>

lemma negative_composite:
  assumes "is_non_speech_clip (en_ranges e)" "en_time e = None" "adequacy_of adq e cues = Some (- 1)" "cues \<noteq> []"
  shows "sc_composite (score_cues adq m k None e cues) = - 70"
  using assms round_to_int [of 2 "- 70"] by (simp add: score_cues_def quality_without_speech with_speed_def Let_def rubric)

end
