(* ===== verification/SanitizeCue.thy ===== *)
theory SanitizeCue
  imports Langs
begin

text \<open>
  The sanitising of foreign cue text before it is shown (\<open>src/src/subarr/subtitle_sanitize.py\<close>): each
  substitution is the scan of its regular expression from left to right, and the whole function is their
  composition. The result holds no markup, whatever the text was.
\<close>

section \<open>The substitutions\<close>

definition ascii_digit_code :: "nat \<Rightarrow> bool" where
  "ascii_digit_code n \<longleftrightarrow> 48 \<le> n \<and> n \<le> 57"

text \<open>\<open>\w\<close> on Latin-1.\<close>

definition re_word :: "char \<Rightarrow> bool" where
  "re_word c \<longleftrightarrow> (let n = code_of c in
     ascii_digit_code n \<or> (65 \<le> n \<and> n \<le> 90) \<or> n = 95 \<or> (97 \<le> n \<and> n \<le> 122)
     \<or> n \<in> {170, 178, 179, 181, 185, 186, 188, 189, 190} \<or> (192 \<le> n \<and> n \<noteq> 215 \<and> n \<noteq> 247))"

text \<open>The part after the first \<open>c\<close>, if there is one.\<close>

definition after_char :: "char \<Rightarrow> string \<Rightarrow> string option" where
  "after_char c s = (case dropWhile (\<lambda>x. x \<noteq> c) s of [] \<Rightarrow> None | _ # r \<Rightarrow> Some r)"

text \<open>The end tag \<open></name\s*>\<close> at the head of a text, and the text after its first occurrence.\<close>

definition end_tag_at :: "string \<Rightarrow> string \<Rightarrow> string option" where
  "end_tag_at name s =
     (if prefix (''</'' @ name) (lower s) then
        (case dropWhile py_space (drop (length name + 2) s) of c # r \<Rightarrow> if c = CHR ''>'' then Some r else None | [] \<Rightarrow> None)
      else None)"

fun after_end_tag :: "string \<Rightarrow> string \<Rightarrow> string option" where
  "after_end_tag name [] = None"
| "after_end_tag name (c # s) = (case end_tag_at name (c # s) of Some r \<Rightarrow> Some r | None \<Rightarrow> after_end_tag name s)"

definition element_of :: "string \<Rightarrow> string \<Rightarrow> string option" where
  "element_of name s =
     (if prefix (''<'' @ name) (lower s) \<and> (case drop (length name + 1) s of [] \<Rightarrow> True | c # _ \<Rightarrow> \<not> re_word c)
      then Option.bind (after_char (CHR ''>'') (drop (length name + 1) s)) (after_end_tag name) else None)"

definition active_element :: "string \<Rightarrow> string option" where
  "active_element s = (case element_of ''script'' s of Some r \<Rightarrow> Some r | None \<Rightarrow> element_of ''style'' s)"

definition bracketed :: "char \<Rightarrow> char \<Rightarrow> string \<Rightarrow> string option" where
  "bracketed a b s = (case s of c # r \<Rightarrow> if c = a then after_char b r else None | [] \<Rightarrow> None)"

definition ass_whitespace :: "string \<Rightarrow> string option" where
  "ass_whitespace s =
     (case s of c # d # r \<Rightarrow> if c = CHR 0x5C \<and> d \<in> {CHR ''N'', CHR ''n'', CHR ''h''} then Some r else None | _ \<Rightarrow> None)"

text \<open>\<open>re.sub\<close>: \<open>found s\<close> is the text after a match at the head of \<open>s\<close>; the fuel is the length of the text,
  and a match takes at least one character.\<close>

fun sub_space :: "(string \<Rightarrow> string option) \<Rightarrow> nat \<Rightarrow> string \<Rightarrow> string" where
  "sub_space found 0 s = s"
| "sub_space found (Suc n) s =
     (case s of
        [] \<Rightarrow> []
      | c # r \<Rightarrow> (case found s of Some rest \<Rightarrow> CHR '' '' # sub_space found n rest | None \<Rightarrow> c # sub_space found n r))"

definition substitute :: "(string \<Rightarrow> string option) \<Rightarrow> string \<Rightarrow> string" where
  "substitute found s = sub_space found (length s) s"

definition control_char :: "char \<Rightarrow> bool" where
  "control_char c \<longleftrightarrow> (let n = code_of c in n \<le> 8 \<or> n = 11 \<or> n = 12 \<or> (14 \<le> n \<and> n \<le> 31) \<or> (127 \<le> n \<and> n \<le> 159))"

fun collapse :: "bool \<Rightarrow> string \<Rightarrow> string" where
  "collapse inrun [] = []"
| "collapse inrun (c # s) =
     (if py_space c then (if inrun then collapse True s else CHR '' '' # collapse True s) else c # collapse False s)"

definition sanitize_cue_text :: "string option \<Rightarrow> string" where
  "sanitize_cue_text raw =
     (if \<not> truthy_str raw then []
      else (let t1 = substitute active_element (or_empty raw);
                t2 = substitute (bracketed (CHR ''{'') (CHR ''}'')) t1;
                t3 = substitute ass_whitespace t2;
                t4 = substitute (bracketed (CHR ''<'') (CHR ''>'')) t3;
                t5 = map (\<lambda>c. if c = CHR ''<'' \<or> c = CHR ''>'' then CHR '' '' else c) t4;
                t6 = filter (\<lambda>c. \<not> control_char c) t5
            in strip (collapse False t6)))"

section \<open>The fuel is enough\<close>

definition consumes :: "(string \<Rightarrow> string option) \<Rightarrow> bool" where
  "consumes found \<longleftrightarrow> (\<forall>s r. found s = Some r \<longrightarrow> strict_suffix r s)"

lemma after_char_suffix: "after_char c s = Some r \<Longrightarrow> strict_suffix r s"
proof -
  assume "after_char c s = Some r"
  then obtain x where "dropWhile (\<lambda>x. x \<noteq> c) s = x # r" by (auto simp: after_char_def split: list.splits)
  then have "suffix (x # r) s" using suffix_dropWhile [of "\<lambda>x. x \<noteq> c" s] by simp
  then show ?thesis by (auto simp: strict_suffix_def suffix_def)
qed

lemma end_tag_suffix: "end_tag_at name s = Some r \<Longrightarrow> suffix r s"
proof -
  assume "end_tag_at name s = Some r"
  then obtain x where "dropWhile py_space (drop (length name + 2) s) = x # r"
    by (auto simp: end_tag_at_def split: if_splits list.splits)
  then have "suffix (x # r) (drop (length name + 2) s)" by (metis suffix_dropWhile)
  then show ?thesis using suffix_drop by (meson suffix_ConsD suffix_order.trans)
qed

lemma after_end_tag_suffix: "after_end_tag name s = Some r \<Longrightarrow> suffix r s"
  by (induction s) (auto dest: end_tag_suffix intro: suffix_ConsI split: option.splits)

lemma element_suffix: "element_of name s = Some r \<Longrightarrow> strict_suffix r s"
proof -
  assume "element_of name s = Some r"
  then obtain u where "after_char (CHR ''>'') (drop (length name + 1) s) = Some u" "after_end_tag name u = Some r"
    by (auto simp: element_of_def bind_eq_Some_conv split: if_splits)
  then have "suffix r u" "strict_suffix u (drop (length name + 1) s)" by (simp_all add: after_end_tag_suffix after_char_suffix)
  then show ?thesis by (meson suffix_drop suffix_order.le_less_trans suffix_order.less_le_trans)
qed

lemma bracketed_suffix: "bracketed a b s = Some r \<Longrightarrow> strict_suffix r s"
proof -
  assume "bracketed a b s = Some r"
  then obtain l where l: "s = a # l" "after_char b l = Some r" by (auto simp: bracketed_def split: list.splits if_splits)
  from after_char_suffix [OF l(2)] have "suffix r l" "length r < length l" by (auto simp: suffix_length_less)
  then show ?thesis by (auto simp: l(1) strict_suffix_def suffix_ConsI)
qed

lemma ass_whitespace_suffix: "ass_whitespace s = Some r \<Longrightarrow> strict_suffix r s"
  by (auto simp: ass_whitespace_def strict_suffix_def suffix_def split: list.splits if_splits)

lemma scans_consume: "consumes active_element" "consumes (bracketed a b)" "consumes ass_whitespace"
  by (auto simp: consumes_def active_element_def bracketed_suffix ass_whitespace_suffix element_suffix split: option.splits)

lemma consumes_length: "consumes found \<Longrightarrow> found s = Some r \<Longrightarrow> length r < length s"
  by (auto simp: consumes_def dest: suffix_length_less)

lemma sub_space_enough:
  assumes "consumes found" "length s \<le> n" shows "sub_space found n s = sub_space found (length s) s"
  using assms(2)
proof (induction "length s" arbitrary: s n rule: less_induct)
  case less
  show ?case
  proof (cases s)
    case (Cons c r)
    obtain m where m: "n = Suc m" using less.prems Cons by (cases n) auto
    show ?thesis
    proof (cases "found s")
      case None
      then show ?thesis using less.hyps [of r m] less.prems Cons m by simp
    next
      case (Some rest)
      then have short: "length rest < length s" by (rule consumes_length [OF assms(1)])
      then have "sub_space found m rest = sub_space found (length r) rest"
        using less.hyps [OF short, of m] less.hyps [OF short, of "length r"] less.prems Cons m by simp
      then show ?thesis using Some Cons m by simp
    qed
  qed (cases n; simp)
qed

lemma substitute_step:
  "consumes found \<Longrightarrow> substitute found s = (case s of [] \<Rightarrow> [] | c # r \<Rightarrow>
     (case found s of Some rest \<Rightarrow> CHR '' '' # substitute found rest | None \<Rightarrow> c # substitute found r))"
proof (cases s)
  case (Cons c r)
  assume found: "consumes found"
  show ?thesis
  proof (cases "found s")
    case (Some rest)
    then have "length rest \<le> length r" using consumes_length [OF found Some] Cons by simp
    then show ?thesis using Some Cons sub_space_enough [OF found, of rest "length r"] by (simp add: substitute_def)
  qed (simp add: substitute_def Cons)
qed (simp add: substitute_def)

lemma substitute_Nil [simp]: "substitute found [] = []"
  by (simp add: substitute_def)

lemma substitute_found: "consumes found \<Longrightarrow> found (c # r) = Some rest \<Longrightarrow> substitute found (c # r) = CHR '' '' # substitute found rest"
  and substitute_kept: "consumes found \<Longrightarrow> found (c # r) = None \<Longrightarrow> substitute found (c # r) = c # substitute found r"
  by (simp_all add: substitute_step [of found "c # r"])

section \<open>Nothing structural is left\<close>

lemma substitute_induct [consumes 1, case_names Nil Found Kept]:
  assumes "consumes found" "P []"
    and "\<And>c r rest. found (c # r) = Some rest \<Longrightarrow> suffix rest r \<Longrightarrow> P rest \<Longrightarrow> P (c # r)"
    and "\<And>c r. found (c # r) = None \<Longrightarrow> P r \<Longrightarrow> P (c # r)"
  shows "P s"
proof (induction s rule: measure_induct_rule [of length])
  case (less s)
  show ?case
  proof (cases s)
    case (Cons c r)
    show ?thesis
    proof (cases "found s")
      case (Some rest)
      then have "strict_suffix rest s" using assms(1) by (simp add: consumes_def)
      then have "suffix rest r" using Cons by (auto simp: strict_suffix_def suffix_Cons)
      then show ?thesis using assms(3) [of c r rest] less.IH [of rest] consumes_length [OF assms(1) Some] Some Cons by simp
    qed (use assms(4) less.IH [of r] Cons in simp)
  qed (use assms(2) in simp)
qed

lemma set_substitute:
  assumes cons: "consumes found" shows "set (substitute found s) \<subseteq> insert (CHR '' '') (set s)"
  using cons
proof (induction s rule: substitute_induct)
  case (Found c r rest)
  then show ?case using set_mono_suffix [of rest r] by (auto simp: substitute_found [OF cons])
next
  case (Kept c r)
  then show ?case by (auto simp: substitute_kept [OF cons])
qed simp

text \<open>An opening brace with a closing one somewhere after it.\<close>

fun has_block :: "string \<Rightarrow> bool" where
  "has_block [] = False"
| "has_block (c # s) = ((c = CHR ''{'' \<and> CHR ''}'' \<in> set s) \<or> has_block s)"

lemma has_block_suffix: "suffix r s \<Longrightarrow> has_block r \<Longrightarrow> has_block s"
  by (induction s) (auto simp: suffix_Cons)

lemma after_char_None: "after_char c s = None \<longleftrightarrow> c \<notin> set s"
  by (induction s) (auto simp: after_char_def)

lemma no_block_after_ass: "\<not> has_block (substitute (bracketed (CHR ''{'') (CHR ''}'')) s)"
proof -
  define found where "found = bracketed (CHR ''{'') (CHR ''}'')"
  have cons: "consumes found" unfolding found_def by (rule scans_consume)
  from cons have "\<not> has_block (substitute found s)"
  proof (induction s rule: substitute_induct)
    case (Kept c r)
    then have "c = CHR ''{'' \<longrightarrow> CHR ''}'' \<notin> set r" by (auto simp: found_def bracketed_def after_char_None)
    then show ?case using Kept set_substitute [OF cons, of r] by (auto simp: substitute_kept [OF cons])
  qed (simp_all add: substitute_found [OF cons])
  then show ?thesis unfolding found_def .
qed

lemma substitute_no_block:
  assumes cons: "consumes found" shows "\<not> has_block s \<Longrightarrow> \<not> has_block (substitute found s)"
  using cons
proof (induction s rule: substitute_induct)
  case (Found c r rest)
  then show ?case using has_block_suffix [of rest r] by (auto simp: substitute_found [OF cons])
next
  case (Kept c r)
  then show ?case using set_substitute [OF cons, of r] by (auto simp: substitute_kept [OF cons])
qed simp

lemma filter_no_block: "\<not> has_block s \<Longrightarrow> \<not> has_block (filter P s)"
  by (induction s) auto

lemma map_no_block:
  "(\<And>c. g c = CHR ''{'' \<Longrightarrow> c = CHR ''{'') \<Longrightarrow> (\<And>c. g c = CHR ''}'' \<Longrightarrow> c = CHR ''}'') \<Longrightarrow> \<not> has_block s \<Longrightarrow> \<not> has_block (map g s)"
  by (induction s) (auto dest: sym)

lemma set_collapse: "set (collapse b s) \<subseteq> insert (CHR '' '') {c \<in> set s. \<not> py_space c}"
  by (induction b s rule: collapse.induct) auto

lemma collapse_no_block: "\<not> has_block s \<Longrightarrow> \<not> has_block (collapse b s)"
  using set_collapse by (induction b s rule: collapse.induct) auto

lemma has_block_append: "has_block b \<Longrightarrow> has_block (a @ b @ c)"
proof -
  have "has_block b \<Longrightarrow> has_block (b @ c)" by (induction b) auto
  then show "has_block b \<Longrightarrow> has_block (a @ b @ c)" by (induction a) auto
qed

text \<open>Two spaces in a row.\<close>

fun double_space :: "string \<Rightarrow> bool" where
  "double_space (c # d # s) = (py_space c \<and> py_space d \<or> double_space (d # s))"
| "double_space _ = False"

lemma collapse_single: "\<not> double_space (collapse b s) \<and> (b \<longrightarrow> (case collapse b s of [] \<Rightarrow> True | c # _ \<Rightarrow> \<not> py_space c))"
proof (induction b s rule: collapse.induct)
  case (2 b c s)
  then show ?case by (cases "collapse (py_space c) s") (auto split: list.splits)
qed simp

lemma double_space_append: "double_space b \<Longrightarrow> double_space (a @ b @ c)"
proof -
  have "double_space b \<Longrightarrow> double_space (b @ c)" by (induction b rule: double_space.induct) auto
  moreover have "double_space t \<Longrightarrow> double_space (a @ t)" for t
  proof (induction a)
    case (Cons x a)
    then show ?case by (cases "a @ t") auto
  qed simp
  ultimately show "double_space b \<Longrightarrow> double_space (a @ b @ c)" by simp
qed

definition shown_char :: "char \<Rightarrow> bool" where
  "shown_char c \<longleftrightarrow> 32 \<le> code_of c \<and> \<not> (127 \<le> code_of c \<and> code_of c \<le> 160) \<and> c \<noteq> CHR ''<'' \<and> c \<noteq> CHR ''>''"

text \<open>C40. Whatever a foreign cue holds, its sanitised text cannot carry markup: no angle bracket, no control
  character, no override block in braces, no run of white space and none at the ends.\<close>

theorem sanitized_text_is_inert:
  "list_all shown_char (sanitize_cue_text raw) \<and> \<not> has_block (sanitize_cue_text raw) \<and> \<not> double_space (sanitize_cue_text raw)
   \<and> strip (sanitize_cue_text raw) = sanitize_cue_text raw"
proof (cases "truthy_str raw")
  case True
  define t4 where "t4 = substitute (bracketed (CHR ''<'') (CHR ''>'')) (substitute ass_whitespace
      (substitute (bracketed (CHR ''{'') (CHR ''}'')) (substitute active_element (or_empty raw))))"
  define t6 where "t6 = filter (\<lambda>c. \<not> control_char c) (map (\<lambda>c. if c = CHR ''<'' \<or> c = CHR ''>'' then CHR '' '' else c) t4)"
  have out: "sanitize_cue_text raw = strip (collapse False t6)" using True by (simp add: sanitize_cue_text_def t4_def t6_def Let_def)
  have "\<not> has_block t4" unfolding t4_def by (intro substitute_no_block scans_consume no_block_after_ass)
  then have "\<not> has_block (collapse False t6)" unfolding t6_def
    by (intro collapse_no_block filter_no_block map_no_block) (auto split: if_splits)
  moreover have "list_all shown_char (collapse False t6)"
  proof -
    have "shown_char c" if "c \<in> set t6" "\<not> py_space c" for c
      using that by (auto simp: t6_def shown_char_def control_char_def py_space_def Let_def split: if_splits)
    moreover have "shown_char (CHR '' '')" by (simp add: shown_char_def code_of_def)
    ultimately show ?thesis using set_collapse [of False t6] by (auto simp: list_all_iff)
  qed
  moreover obtain a b where split: "collapse False t6 = a @ strip (collapse False t6) @ b"
    using strip_split unfolding strip_def by blast
  ultimately have "list_all shown_char (strip (collapse False t6)) \<and> \<not> has_block (strip (collapse False t6))"
    using has_block_append [of "strip (collapse False t6)" a b] by (metis list_all_append)
  moreover have "\<not> double_space (strip (collapse False t6))"
    using collapse_single [of False t6] double_space_append [of "strip (collapse False t6)" a b] split by metis
  moreover have "strip (strip (collapse False t6)) = strip (collapse False t6)"
    unfolding strip_def by (rule strip_of_strip_of)
  ultimately show ?thesis unfolding out by blast
qed (simp add: sanitize_cue_text_def strip_def strip_of_def)

end
