(* ===== verification/EpisodePaths.thy ===== *)
theory EpisodePaths
  imports Decimal Langs
begin

text \<open>
  How a verdict's path names a show and an episode (\<open>src/src/subarr/audio_lang_store.py\<close>):
  the two regular expressions as recursive matchers, and SQLite's \<open>LIKE ... ESCAPE\<close> with the
  pattern the store builds for "everything under this folder".
\<close>

section \<open>Episode tokens\<close>

definition alnum_lower :: "char \<Rightarrow> bool" where
  "alnum_lower c \<longleftrightarrow> (let n = code_of (lower_char c) in (97 \<le> n \<and> n \<le> 122) \<or> (48 \<le> n \<and> n \<le> 57))"

definition token_sep :: "char \<Rightarrow> bool" where
  "token_sep c \<longleftrightarrow> c \<in> {CHR '' '', CHR ''.'', CHR ''_'', CHR ''-''}"

text \<open>\<open>s(\d{1,3})[ ._-]?e(\d{1,4})\<close> at the start of the string.\<close>

definition match_token :: "string \<Rightarrow> (nat \<times> nat) option" where
  "match_token s =
     (case s of
        [] \<Rightarrow> None
      | c # cs \<Rightarrow>
          if lower_char c \<noteq> CHR ''s'' then None
          else (let season = take 3 (takeWhile ascii_digit cs);
                    rest = drop (length season) cs;
                    rest' = (case rest of x # xs \<Rightarrow> if token_sep x then xs else rest | [] \<Rightarrow> [])
                in if season = [] then None
                   else (case rest' of
                       [] \<Rightarrow> None
                     | e # ds \<Rightarrow>
                         if lower_char e \<noteq> CHR ''e'' then None
                         else (let episode = take 4 (takeWhile ascii_digit ds) in
                               if episode = [] then None else Some (undec season, undec episode)))))"

text \<open>\<open>re.search\<close> with the look-behind: \<open>prev_ok\<close> says that the character before is no letter or
  digit.\<close>

fun search_token :: "bool \<Rightarrow> string \<Rightarrow> (nat \<times> nat) option" where
  "search_token prev_ok [] = None"
| "search_token prev_ok (c # cs) =
     (case (if prev_ok then match_token (c # cs) else None) of
        Some k \<Rightarrow> Some k
      | None \<Rightarrow> search_token (\<not> alnum_lower c) cs)"

definition episode_key :: "string \<Rightarrow> (nat \<times> nat) option" where
  "episode_key canonical_path = search_token True (rsplit_last (CHR ''/'') canonical_path)"

section \<open>Show folders\<close>

definition season_words :: "string list" where
  "season_words = [''season'', ''series'', ''staffel'', ''saison'', ''temporada'', ''stagione'', ''seizoen'']"

definition digits_between :: "nat \<Rightarrow> string \<Rightarrow> bool" where
  "digits_between n s \<longleftrightarrow> s \<noteq> [] \<and> length s \<le> n \<and> list_all ascii_digit s"

definition season_dir_body :: "string \<Rightarrow> bool" where
  "season_dir_body name =
     (let s = lower name in
      list_ex (\<lambda>w. prefix w s \<and> digits_between 4 (dropWhile token_sep (drop (length w) s))) season_words
      \<or> (prefix ''s'' s \<and> digits_between 3 (drop 1 s))
      \<or> s = ''special'' \<or> s = ''specials'')"

text \<open>\<open>$\<close> also matches before a final newline.\<close>

definition season_dir :: "string \<Rightarrow> bool" where
  "season_dir name \<longleftrightarrow> season_dir_body name
     \<or> (name \<noteq> [] \<and> code_of (last name) = 10 \<and> season_dir_body (butlast name))"

definition series_folder :: "string \<Rightarrow> string option" where
  "series_folder canonical_path =
     (let parts = butlast (split_on (CHR ''/'') canonical_path);
          parts' = (if parts \<noteq> [] \<and> season_dir (last parts) then butlast parts else parts)
      in if 2 \<le> length parts' then Some (join_with ''/'' parts') else None)"

definition with_slash :: "string \<Rightarrow> string" where
  "with_slash pre = (if suffix ''/'' pre then pre else pre @ ''/'')"

section \<open>LIKE\<close>

text \<open>SQLite's \<open>LIKE\<close> folds ASCII letters only.\<close>

definition fold_char :: "char \<Rightarrow> char" where
  "fold_char c = (let n = code_of c in if 65 \<le> n \<and> n \<le> 90 then char_of (n + 32) else c)"

fun like_any :: "(string \<Rightarrow> bool) \<Rightarrow> string \<Rightarrow> bool" where
  "like_any f [] = f []"
| "like_any f (c # cs) = (f (c # cs) \<or> like_any f cs)"

definition like_char :: "char \<Rightarrow> (string \<Rightarrow> bool) \<Rightarrow> string \<Rightarrow> bool" where
  "like_char p f s = (case s of [] \<Rightarrow> False | c # cs \<Rightarrow> fold_char c = fold_char p \<and> f cs)"

text \<open>\<open>s LIKE pattern ESCAPE '\'\<close>: a percent sign matches any run, an underscore any character,
  a backslash (character 92) makes the next pattern character literal. A pattern ending in a
  lone escape character matches nothing.\<close>

fun sql_like :: "string \<Rightarrow> string \<Rightarrow> bool" where
  "sql_like [] s = (s = [])"
| "sql_like (p # ps) s =
     (if p = CHR ''%'' then like_any (sql_like ps) s
      else if p = CHR ''_'' then (case s of [] \<Rightarrow> False | _ # cs \<Rightarrow> sql_like ps cs)
      else if p = CHR 92 then (case ps of [] \<Rightarrow> False | q # qs \<Rightarrow> like_char q (sql_like qs) s)
      else like_char p (sql_like ps) s)"

definition like_escape :: "string \<Rightarrow> string" where
  "like_escape s = concat (map (\<lambda>c. if c = CHR 92 \<or> c = CHR ''%'' \<or> c = CHR ''_'' then [CHR 92, c] else [c]) s)"

definition like_prefix :: "string \<Rightarrow> string" where
  "like_prefix pre = like_escape pre @ ''/%''"

section \<open>Properties\<close>

lemma like_any_iff: "like_any f s \<longleftrightarrow> (\<exists>k \<le> length s. f (drop k s))"
proof (induction s)
  case (Cons c cs)
  have "(\<exists>k \<le> length (c # cs). f (drop k (c # cs))) \<longleftrightarrow> f (c # cs) \<or> (\<exists>k \<le> length cs. f (drop k cs))"
    by (metis (no_types, lifting) Suc_le_mono drop0 drop_Suc_Cons le0 length_Cons not0_implies_Suc)
  then show ?case using Cons by simp
qed simp

lemma like_any_True: "like_any (sql_like []) s"
  by (induction s) auto

lemma sql_like_escape:
  "sql_like (like_escape pre @ rest) s \<longleftrightarrow>
     map fold_char (take (length pre) s) = map fold_char pre \<and> length pre \<le> length s \<and> sql_like rest (drop (length pre) s)"
proof (induction pre arbitrary: s)
  case (Cons p ps)
  have "sql_like (like_escape (p # ps) @ rest) s =
      (case s of [] \<Rightarrow> False | c # cs \<Rightarrow> fold_char c = fold_char p \<and> sql_like (like_escape ps @ rest) cs)"
    by (auto simp: like_escape_def like_char_def split: list.splits)
  then show ?case using Cons by (cases s) auto
qed (simp add: like_escape_def)

lemma fold_slash: "fold_char c = fold_char (CHR ''/'') \<longleftrightarrow> c = CHR ''/''"
proof -
  have "code_of (fold_char c) = (if 65 \<le> code_of c \<and> code_of c \<le> 90 then code_of c + 32 else code_of c)"
    using code_of_lt [of c] by (auto simp: fold_char_def Let_def code_of_char_of)
  moreover have "code_of (CHR ''/'') = 47" "fold_char (CHR ''/'') = CHR ''/''"
    by (simp_all add: fold_char_def Let_def code_of_def)
  ultimately show ?thesis using code_of_eq [of c "CHR ''/''"] code_of_eq [of "fold_char c" "CHR ''/''"]
    by (auto split: if_splits)
qed

text \<open>The folder query selects exactly the paths under the folder, compared without regard to
  ASCII case: percent signs, underscores and backslashes in a show's name are literal, and a
  sibling show whose name starts with this one's is not matched.\<close>

theorem like_prefix_exact:
  "sql_like (like_prefix pre) s \<longleftrightarrow>
     (\<exists>rest. map fold_char s = map fold_char pre @ CHR ''/'' # rest)"
proof -
  have tail: "sql_like ''/%'' t \<longleftrightarrow> (\<exists>cs. t = CHR ''/'' # cs)" for t
  proof (cases t)
    case (Cons c cs)
    have "fold_char c = fold_char (CHR ''/'') \<longleftrightarrow> c = CHR ''/''" by (rule fold_slash)
    then show ?thesis using Cons by (simp add: like_char_def like_any_True)
  qed (simp add: like_char_def)
  have slash: "fold_char (CHR ''/'') = CHR ''/''" by (simp add: fold_char_def Let_def code_of_def)
  show ?thesis
  proof
    assume "sql_like (like_prefix pre) s"
    then have *: "map fold_char (take (length pre) s) = map fold_char pre" "length pre \<le> length s"
      and "\<exists>cs. drop (length pre) s = CHR ''/'' # cs"
      unfolding like_prefix_def sql_like_escape tail by auto
    then obtain cs where "drop (length pre) s = CHR ''/'' # cs" by blast
    then have "s = take (length pre) s @ CHR ''/'' # cs" by (metis append_take_drop_id)
    then have "map fold_char s = map fold_char pre @ CHR ''/'' # map fold_char cs"
      using * slash by (metis list.simps(9) map_append)
    then show "\<exists>rest. map fold_char s = map fold_char pre @ CHR ''/'' # rest" by blast
  next
    assume "\<exists>rest. map fold_char s = map fold_char pre @ CHR ''/'' # rest"
    then obtain rest where r: "map fold_char s = map fold_char pre @ CHR ''/'' # rest" by blast
    then have len: "length s = length pre + Suc (length rest)" by (metis length_append length_Cons length_map)
    then have "take (length pre) (map fold_char s) = map fold_char pre"
      and d: "drop (length pre) (map fold_char s) = CHR ''/'' # rest" using r by auto
    moreover obtain c cs where dc: "drop (length pre) s = c # cs"
      using len by (cases "drop (length pre) s") auto
    then have "fold_char c = CHR ''/''" using d by (simp add: drop_map)
    then have "c = CHR ''/''" using fold_slash slash by metis
    ultimately show "sql_like (like_prefix pre) s"
      using dc len unfolding like_prefix_def sql_like_escape tail by (simp add: take_map)
  qed
qed

lemma join_with_append:
  "xs \<noteq> [] \<Longrightarrow> ys \<noteq> [] \<Longrightarrow> join_with s (xs @ ys) = join_with s xs @ s @ join_with s ys"
proof (induction s xs rule: join_with.induct)
  case (2 s x)
  then show ?case by (cases ys) auto
qed auto

lemma series_folder_above:
  assumes "series_folder p = Some f"
  shows "\<exists>rest. p = f @ ''/'' @ rest"
proof -
  define parts where "parts = butlast (split_on (CHR ''/'') p)"
  define parts' where "parts' = (if parts \<noteq> [] \<and> season_dir (last parts) then butlast parts else parts)"
  have "series_folder p = (if 2 \<le> length parts' then Some (join_with ''/'' parts') else None)"
    unfolding series_folder_def parts'_def parts_def Let_def ..
  then have f: "f = join_with ''/'' parts'" and ne: "parts' \<noteq> []" using assms by (auto split: if_splits)
  have "prefix parts' parts" unfolding parts'_def by (simp add: prefixeq_butlast)
  then obtain zs where zs: "parts = parts' @ zs" by (auto simp: prefix_def)
  have "split_on (CHR ''/'') p = parts' @ (zs @ [last (split_on (CHR ''/'') p)])"
    using zs unfolding parts_def by (metis append.assoc append_butlast_last_id split_on_nonempty)
  then have "p = join_with ''/'' (parts' @ (zs @ [last (split_on (CHR ''/'') p)]))"
    by (metis join_with_split_on)
  then show ?thesis using join_with_append [OF ne, of "zs @ [last (split_on (CHR ''/'') p)]" "''/''"] f by auto
qed

end
