(* ===== verification/SubgenCaps.thy ===== *)
theory SubgenCaps
  imports Langs Decimal
begin

text \<open>
  What the connected subgen can do (\<open>src/src/subarr/subgen_client.py\<close>): the capability
  probe with its two requests, the closed vocabulary of probe failures, the parsers of the
  advertised language settings, the languages one job can produce, and the parameters of a
  \<open>POST /batch\<close>. HTTP replies are arguments: a transport error, or a status code and the
  decoded JSON body (\<open>None\<close> when it does not decode). \<open>repr\<close> is Python's \<open>str()\<close> of a
  JSON value that is no string.
\<close>

section \<open>JSON values\<close>

datatype json =
    JNull
  | JBool bool
  | JInt int
  | JFloat pyfloat
  | JStr string
  | JList "json list"
  | JObj "(string \<times> json) list"

fun truthy :: "json \<Rightarrow> bool" where
  "truthy JNull = False"
| "truthy (JBool b) = b"
| "truthy (JInt i) = (i \<noteq> 0)"
| "truthy (JFloat r) = (r \<noteq> 0)"
| "truthy (JStr s) = (s \<noteq> [])"
| "truthy (JList xs) = (xs \<noteq> [])"
| "truthy (JObj kvs) = (kvs \<noteq> [])"

text \<open>\<open>d.get(k)\<close>: an absent key reads as \<open>None\<close>, like a JSON null.\<close>

definition jget :: "string \<Rightarrow> (string \<times> json) list \<Rightarrow> json" where
  "jget k kvs = (case map_of kvs k of None \<Rightarrow> JNull | Some v \<Rightarrow> v)"

fun py_str :: "(json \<Rightarrow> string) \<Rightarrow> json \<Rightarrow> string" where
  "py_str repr (JStr s) = s"
| "py_str repr j = repr j"

section \<open>Why a probe failed\<close>

text \<open>An exception object: which of the classes the classifier tests for it is an instance of,
  its text, and its \<open>__cause__\<close> and \<open>__context__\<close> as addresses of other exception
  objects; the graph may be cyclic.\<close>

record exc =
  ex_gaierror :: bool
  ex_refused :: bool
  ex_ssl :: bool
  ex_connect_timeout :: bool
  ex_read_timeout :: bool
  ex_timeout :: bool
  ex_text :: string
  ex_cause :: "nat option"
  ex_context :: "nat option"

definition probe_chain_max :: nat where
  "probe_chain_max = 8"

text \<open>The walk of \<open>__cause__ or __context__\<close>: stops at \<open>None\<close>, at an object seen before, or
  when \<open>n\<close> objects have been collected.\<close>

fun exc_chain :: "(nat \<Rightarrow> exc) \<Rightarrow> nat \<Rightarrow> nat list \<Rightarrow> nat option \<Rightarrow> exc list" where
  "exc_chain heap 0 seen cur = []"
| "exc_chain heap (Suc n) seen None = []"
| "exc_chain heap (Suc n) seen (Some a) =
     (if a \<in> set seen then []
      else heap a # exc_chain heap n (a # seen)
             (case ex_cause (heap a) of Some c \<Rightarrow> Some c | None \<Rightarrow> ex_context (heap a)))"

fun classify_chain :: "exc list \<Rightarrow> string option" where
  "classify_chain [] = None"
| "classify_chain (e # es) =
     (if ex_gaierror e then Some ''dns''
      else if ex_refused e then Some ''refused''
      else if ex_ssl e then Some ''tls''
      else classify_chain es)"

definition classify_exception :: "(nat \<Rightarrow> exc) \<Rightarrow> nat \<Rightarrow> string" where
  "classify_exception heap a =
     (case classify_chain (exc_chain heap probe_chain_max [] (Some a)) of
        Some b \<Rightarrow> b
      | None \<Rightarrow>
          (let e = heap a in
           if ex_connect_timeout e then ''connect_timeout''
           else if ex_read_timeout e then ''read_timeout''
           else if ex_timeout e then ''timeout''
           else if sublist ''SSL'' (ex_text e) \<or> sublist ''certificate'' (lower (ex_text e)) then ''tls''
           else ''transport''))"

definition classify_status :: "int \<Rightarrow> string" where
  "classify_status status =
     (if 100 \<le> status \<and> status \<le> 599 then ''http_'' @ dec (nat status) else ''http_other'')"

definition failure_vocabulary :: "string set" where
  "failure_vocabulary = {''dns'', ''refused'', ''tls'', ''connect_timeout'', ''read_timeout'', ''timeout'',
     ''transport'', ''http_other''} \<union> (\<lambda>n. ''http_'' @ dec n) ` {100..599}"

section \<open>Advertised languages\<close>

definition known_language :: "json \<Rightarrow> string option" where
  "known_language value =
     (case value of
        JStr s \<Rightarrow>
          (case normalize_lang (Some s) of
             None \<Rightarrow> None
           | Some code \<Rightarrow>
               if code = [] \<or> code = ''und'' then None
               else if map_of whisper_languages code \<noteq> None then Some code else None)
      | _ \<Rightarrow> None)"

fun preferred_entries :: "(json \<Rightarrow> string) \<Rightarrow> json list \<Rightarrow> string option list \<times> string list" where
  "preferred_entries repr [] = ([], [])"
| "preferred_entries repr (item # items) =
     (case preferred_entries repr items of (entries, unreadable) \<Rightarrow>
        if item = JNull then (None # entries, unreadable)
        else (case known_language item of
            None \<Rightarrow> (entries, py_str repr item # unreadable)
          | Some code \<Rightarrow> (Some code # entries, unreadable)))"

definition parse_preferred_audio_languages ::
    "(json \<Rightarrow> string) \<Rightarrow> json \<Rightarrow> string option list option \<times> string list" where
  "parse_preferred_audio_languages repr raw =
     (case raw of
        JList items \<Rightarrow> (case preferred_entries repr items of (entries, unreadable) \<Rightarrow> (Some entries, unreadable))
      | _ \<Rightarrow> (None, []))"

definition parse_force_detected :: "(json \<Rightarrow> string) \<Rightarrow> json \<Rightarrow> string option \<times> string option" where
  "parse_force_detected repr raw =
     (if raw = JNull \<or> lower (strip (py_str repr raw)) \<in> {[], ''none''} then (None, None)
      else (case known_language raw of None \<Rightarrow> (None, Some (py_str repr raw)) | Some code \<Rightarrow> (Some code, None)))"

definition producible_subtitle_languages :: "string option \<Rightarrow> string option list option \<Rightarrow> string set option" where
  "producible_subtitle_languages mode audio_langs =
     (let m = lower (strip (or_empty mode)) in
      if m = ''translate'' then Some {''en''}
      else if m \<noteq> ''transcribe'' then None
      else (let codes = [c. x \<leftarrow> (case audio_langs of None \<Rightarrow> [] | Some ls \<Rightarrow> ls), truthy_str x,
                            Some c \<leftarrow> [normalize_lang x], c \<noteq> ''und'' \<and> c \<noteq> []]
            in if codes = [] then None else Some (set codes)))"

section \<open>The capability record\<close>

record subgen_caps =
  reachable :: bool
  version :: "string option"
  has_queue :: bool
  has_batch :: bool
  is_subarr_subgen :: bool
  audio_language_override :: bool
  queue_cancel :: bool
  robust_language_detection :: bool
  detect_language_track :: bool
  async_config :: bool
  per_request_kwargs :: bool
  per_request_task :: bool
  transcribe_or_translate :: "string option"
  preferred_audio_languages :: "string option list option"
  preferred_audio_languages_unreadable :: "string list"
  force_detected_language_to :: "string option"
  force_detected_language_unreadable :: "string option"
  subtitle_language_name :: "string option"
  asr_arena :: bool
  asr_vanilla_base :: bool
  asr_detected_language :: bool
  ignore_forced_subtitles :: bool
  ignore_image_subtitles :: bool
  bypass_skip :: bool
  runtime_config :: bool
  subarr_subgen_patch_rev :: "string option"
  release_tag :: "string option"
  concurrent_transcriptions :: "int option"
  skip_audio_languages :: "string list option"
  request_ignore_forced :: bool
  probe_failure :: "string option"

definition unreachable :: "string option \<Rightarrow> subgen_caps" where
  "unreachable reason =
     \<lparr>reachable = False, version = None, has_queue = False, has_batch = False, is_subarr_subgen = False,
      audio_language_override = False, queue_cancel = False, robust_language_detection = False,
      detect_language_track = False, async_config = False, per_request_kwargs = False,
      per_request_task = False, transcribe_or_translate = None, preferred_audio_languages = None,
      preferred_audio_languages_unreadable = [], force_detected_language_to = None,
      force_detected_language_unreadable = None, subtitle_language_name = None, asr_arena = False,
      asr_vanilla_base = False, asr_detected_language = False, ignore_forced_subtitles = False,
      ignore_image_subtitles = False, bypass_skip = False, runtime_config = False,
      subarr_subgen_patch_rev = None, release_tag = None, concurrent_transcriptions = None,
      skip_audio_languages = None, request_ignore_forced = False, probe_failure = reason\<rparr>"

section \<open>The probe\<close>

text \<open>A reply: a transport error (an exception object), or a status code with the decoded body.\<close>

datatype http_reply = TransportError nat | Reply int "json option"

definition json_string :: "json \<Rightarrow> string option" where
  "json_string j = (case j of JStr s \<Rightarrow> Some s | _ \<Rightarrow> None)"

definition parse_version :: "json option \<Rightarrow> string option" where
  "parse_version body =
     (case body of
        Some (JObj kvs) \<Rightarrow>
          (case jget ''version'' kvs of
             JStr v \<Rightarrow>
               if prefix ''Subgen '' v
               then (let rest = strip (takeWhile (\<lambda>c. c \<noteq> CHR '','') (drop 7 v)) in
                     if rest = [] then None else Some rest)
               else None
           | _ \<Rightarrow> None)
      | _ \<Rightarrow> None)"

definition parse_concurrent :: "json \<Rightarrow> int option" where
  "parse_concurrent j = (case j of JInt n \<Rightarrow> if 0 < n then Some n else None | _ \<Rightarrow> None)"

definition parse_skip_list :: "json \<Rightarrow> string list option" where
  "parse_skip_list j =
     (case j of
        JList cs \<Rightarrow> Some [lower (strip s). JStr s \<leftarrow> cs, strip s \<noteq> []]
      | _ \<Rightarrow> None)"

text \<open>What a reachable instance looks like before \<open>/queue\<close> was read.\<close>

definition vanilla_caps :: "string option \<Rightarrow> subgen_caps" where
  "vanilla_caps v = (unreachable None)\<lparr>reachable := True, version := v\<rparr>"

definition read_capability_block :: "(json \<Rightarrow> string) \<Rightarrow> (string \<times> json) list \<Rightarrow> subgen_caps \<Rightarrow> subgen_caps" where
  "read_capability_block repr blk c =
     (let flag = (\<lambda>k. truthy (jget k blk));
          tot = jget ''transcribe_or_translate'' blk;
          pref = parse_preferred_audio_languages repr (jget ''preferred_audio_languages'' blk);
          forced = parse_force_detected repr (jget ''force_detected_language_to'' blk);
          sln = jget ''subtitle_language_name'' blk
      in c\<lparr>audio_language_override := flag ''audio_language_override'', queue_cancel := flag ''queue_cancel'',
           robust_language_detection := flag ''robust_language_detection'',
           detect_language_track := flag ''detect_language_track'', async_config := flag ''async_config'',
           per_request_kwargs := flag ''per_request_kwargs'', per_request_task := flag ''per_request_task'',
           transcribe_or_translate := (if truthy tot then Some (lower (strip (py_str repr tot))) else None),
           preferred_audio_languages := fst pref, preferred_audio_languages_unreadable := snd pref,
           force_detected_language_to := fst forced, force_detected_language_unreadable := snd forced,
           subtitle_language_name := (if truthy sln then Some (strip (py_str repr sln)) else None),
           asr_arena := flag ''asr_arena'', asr_vanilla_base := flag ''asr_vanilla_base'',
           asr_detected_language := flag ''asr_detected_language'',
           ignore_forced_subtitles := flag ''ignore_forced_subtitles'',
           ignore_image_subtitles := flag ''ignore_image_subtitles'', bypass_skip := flag ''bypass_skip'',
           runtime_config := flag ''runtime_config'', request_ignore_forced := flag ''request_ignore_forced'',
           concurrent_transcriptions := parse_concurrent (jget ''concurrent_transcriptions'' blk),
           skip_audio_languages := parse_skip_list (jget ''skip_audio_languages'' blk)\<rparr>)"

definition read_queue_body :: "(json \<Rightarrow> string) \<Rightarrow> (string \<times> json) list \<Rightarrow> subgen_caps \<Rightarrow> subgen_caps" where
  "read_queue_body repr body c =
     (if map_of body ''queued'' = None \<and> map_of body ''processing'' = None then c
      else let c1 = c\<lparr>has_queue := True, has_batch := True, is_subarr_subgen := True,
                      subarr_subgen_patch_rev := json_string (jget ''subarr_subgen_patch_rev'' body),
                      release_tag := (case jget ''subarr_subgen_release_tag'' body of
                          JStr t \<Rightarrow> if t = [] then None else Some t | _ \<Rightarrow> None)\<rparr>;
               caps_block = jget ''capabilities'' body
           in if truthy caps_block
              then (case caps_block of JObj blk \<Rightarrow> read_capability_block repr blk c1 | _ \<Rightarrow> c1)
              else read_capability_block repr [] c1)"

datatype fingerprint =
    FpTransport string
  | FpStatus int
  | FpCaps "string option" "string option" bool bool bool bool

definition fingerprint_of :: "subgen_caps \<Rightarrow> fingerprint" where
  "fingerprint_of c = FpCaps (version c) (subarr_subgen_patch_rev c) (has_queue c) (has_batch c)
     (is_subarr_subgen c) (audio_language_override c)"

text \<open>The result: the capabilities, the client's new \<open>_last_caps_fingerprint\<close>, and whether the
  report was logged at INFO (unreachable probes log a warning instead).\<close>

definition probe_capabilities ::
    "(json \<Rightarrow> string) \<Rightarrow> (nat \<Rightarrow> exc) \<Rightarrow> http_reply \<Rightarrow> http_reply \<Rightarrow> fingerprint option
      \<Rightarrow> subgen_caps \<times> fingerprint option \<times> bool" where
  "probe_capabilities repr heap status queue prev =
     (case status of
        TransportError a \<Rightarrow>
          (let reason = classify_exception heap a in
           (unreachable (Some reason), Some (FpTransport reason), False))
      | Reply code body \<Rightarrow>
          if code \<noteq> 200 then (unreachable (Some (classify_status code)), Some (FpStatus code), False)
          else (let base = vanilla_caps (parse_version body);
                    caps = (case queue of
                        Reply qcode (Some (JObj qbody)) \<Rightarrow>
                          if 200 \<le> qcode \<and> qcode < 300 then read_queue_body repr qbody base else base
                      | _ \<Rightarrow> base);
                    fp = fingerprint_of caps
                in (caps, Some fp, Some fp \<noteq> prev)))"

section \<open>Parameters of a batch\<close>

definition opt_param :: "string \<Rightarrow> string option \<Rightarrow> (string \<times> string) list" where
  "opt_param k v = (if truthy_str v then [(k, or_empty v)] else [])"

definition normalized_or_raw :: "string option \<Rightarrow> string option" where
  "normalized_or_raw v = (if truthy_str (normalize_lang v) then normalize_lang v else v)"

definition batch_params ::
    "string \<Rightarrow> bool \<Rightarrow> string option \<Rightarrow> string option \<Rightarrow> string option \<Rightarrow> string option \<Rightarrow> bool \<Rightarrow> bool
      \<Rightarrow> (string \<times> string) list option" where
  "batch_params directory reverse force_language ovr kwargs_json tsk ignore_forced bypass =
     (if tsk \<noteq> None \<and> tsk \<noteq> Some ''transcribe'' \<and> tsk \<noteq> Some ''translate'' then None
      else Some ([(''directory'', directory), (''reverse'', if reverse then ''true'' else ''false'')]
        @ (if truthy_str force_language then opt_param ''forceLanguage'' (normalized_or_raw force_language) else [])
        @ (if truthy_str ovr then opt_param ''audio_language_override'' (normalized_or_raw ovr) else [])
        @ opt_param ''kwargs'' kwargs_json
        @ opt_param ''task'' tsk
        @ (if ignore_forced then [(''ignore_forced'', ''true'')] else [])
        @ (if bypass then [(''bypass_skip'', ''true'')] else [])))"

section \<open>Properties\<close>

lemma classify_chain_known: "classify_chain es = Some b \<Longrightarrow> b \<in> {''dns'', ''refused'', ''tls''}"
  by (induction es) (auto split: if_splits)

lemma classify_exception_closed: "classify_exception heap a \<in> failure_vocabulary"
  using classify_chain_known [of "exc_chain heap probe_chain_max [] (Some a)"]
  by (auto simp: classify_exception_def failure_vocabulary_def Let_def split: option.splits)

lemma classify_status_closed: "classify_status n \<in> failure_vocabulary"
proof (cases "100 \<le> n \<and> n \<le> 599")
  case True
  then have "nat n \<in> {100..599}" by auto
  then show ?thesis using True by (simp add: classify_status_def failure_vocabulary_def)
qed (auto simp: classify_status_def failure_vocabulary_def)

lemma read_block_keeps:
  "reachable (read_capability_block r b c) = reachable c" "has_queue (read_capability_block r b c) = has_queue c"
  "has_batch (read_capability_block r b c) = has_batch c"
  "is_subarr_subgen (read_capability_block r b c) = is_subarr_subgen c"
  "probe_failure (read_capability_block r b c) = probe_failure c" "version (read_capability_block r b c) = version c"
  by (simp_all add: read_capability_block_def Let_def)

lemma read_queue_keeps:
  "reachable (read_queue_body r b c) = reachable c" "probe_failure (read_queue_body r b c) = probe_failure c"
  "version (read_queue_body r b c) = version c"
  "read_queue_body r b c = c \<or> (has_queue (read_queue_body r b c) \<and> has_batch (read_queue_body r b c)
     \<and> is_subarr_subgen (read_queue_body r b c))"
  by (auto simp: read_queue_body_def Let_def read_block_keeps split: json.splits)

text \<open>A probe ends in one of three ways: subgen answered \<open>/status\<close> with 200 and its queue
  reply makes it a patched build; it answered but the queue reply advertises nothing, and every
  capability keeps its vanilla default; or the probe failed, every capability is off and the
  cause is one word of the fixed vocabulary that telemetry may transmit, whatever the
  exception or the status was.\<close>

theorem probe_outcomes:
  "case fst (probe_capabilities repr heap status queue prev) of c \<Rightarrow>
     (\<exists>body. status = Reply 200 body) \<and> reachable c \<and> probe_failure c = None \<and> has_queue c \<and> has_batch c \<and> is_subarr_subgen c
     \<or> (\<exists>body. status = Reply 200 body \<and> c = vanilla_caps (parse_version body))
     \<or> (\<nexists>body. status = Reply 200 body) \<and> (\<exists>w \<in> failure_vocabulary. c = unreachable (Some w))"
proof (cases status)
  case (TransportError a)
  then show ?thesis using classify_exception_closed by (auto simp: probe_capabilities_def Let_def)
next
  case (Reply code body)
  let ?base = "vanilla_caps (parse_version body)"
  have base: "reachable ?base" "probe_failure ?base = None"
    by (simp_all add: vanilla_caps_def unreachable_def)
  show ?thesis
  proof (cases "code = 200")
    case True
    let ?c = "fst (probe_capabilities repr heap status queue prev)"
    have "?c = ?base \<or> (\<exists>qb. ?c = read_queue_body repr qb ?base)"
      using Reply True by (auto simp: probe_capabilities_def Let_def split: http_reply.splits option.splits json.splits)
    then show ?thesis
    proof
      assume "\<exists>qb. ?c = read_queue_body repr qb ?base"
      then obtain qb where qb: "?c = read_queue_body repr qb ?base" by blast
      show ?thesis
        using read_queue_keeps(4) [of repr qb ?base] read_queue_keeps(1,2) [of repr qb ?base] base Reply True
        unfolding qb by auto
    qed (use Reply True in auto)
  next
    case False
    then show ?thesis using Reply classify_status_closed by (auto simp: probe_capabilities_def Let_def)
  qed
qed

text \<open>The state report is logged once: an unchanged re-probe stays quiet, and the first
  successful probe after an unreachable one is reported even when nothing changed.\<close>

theorem probe_reports_changes:
  "\<not> snd (snd (probe_capabilities repr heap (Reply 200 body) queue
        (fst (snd (probe_capabilities repr heap (Reply 200 body) queue prev)))))
   \<and> snd (snd (probe_capabilities repr heap (Reply 200 body) queue
        (fst (snd (probe_capabilities repr heap (TransportError a) queue' prev)))))"
  by (simp add: probe_capabilities_def Let_def fingerprint_of_def)

end
