(* ===== verification/VerdictStore.thy ===== *)
theory VerdictStore
  imports EpisodePaths Paths SubgenCaps
begin

text \<open>
  The audio-language verdict store (\<open>src/src/subarr/audio_lang_store.py\<close>): per-file verdicts,
  series rules, and how a verdict follows its file across a replacement. A table is the list
  of its rows in rowid order. The evidence column is the decoded JSON (\<open>None\<close> for NULL), the
  language-set column the decoded list; text that does not decode is not modelled. The file
  system is \<open>fs_env\<close>: which resolved paths exist and which files a directory walk finds, fixed
  during one operation.
\<close>

section \<open>Rows\<close>

record verdict =
  vd_path :: string
  vd_lang :: string
  vd_source :: string
  vd_conf :: pyfloat
  vd_at :: pyfloat
  vd_by :: "string option"
  vd_evidence :: "json option"
  vd_class :: string
  vd_codes :: "string list option"
  vd_sonarr :: "int option"
  vd_radarr :: "int option"

record intent =
  in_prefix :: string
  in_lang :: string
  in_source :: string
  in_conf :: pyfloat
  in_at :: pyfloat
  in_by :: "string option"
  in_note :: "string option"

type_synonym mark_table = "(string \<times> pyfloat \<times> string option) list"

record verdict_store =
  vs_rows :: "verdict list"
  vs_intents :: "intent list"
  vs_suggestion_dismissed :: mark_table
  vs_mixed_dismissed :: mark_table
  vs_track_dismissed :: mark_table
  vs_ignored :: mark_table

record fs_env =
  fs_libs :: "library list"
  fs_resolve :: "string list \<Rightarrow> string list"
  fs_exists :: "string list \<Rightarrow> bool"
  fs_walk :: "string list \<Rightarrow> string list list"

text \<open>\<open>normalize_lang(code) or code\<close>.\<close>

definition norm_or :: "string \<Rightarrow> string \<Rightarrow> string" where
  "norm_or code alt = (case normalize_lang (Some code) of Some c \<Rightarrow> if c = [] then alt else c | None \<Rightarrow> alt)"

definition row_view :: "verdict \<Rightarrow> verdict" where
  "row_view r = r\<lparr>vd_lang := norm_or (vd_lang r) (vd_lang r),
     vd_class := (if vd_class r = [] then ''single'' else vd_class r)\<rparr>"

section \<open>Writing and reading\<close>

definition upsert ::
    "pyfloat \<Rightarrow> string \<Rightarrow> string \<Rightarrow> string \<Rightarrow> pyfloat \<Rightarrow> string option \<Rightarrow> json option \<Rightarrow> string
      \<Rightarrow> string list option \<Rightarrow> int option \<Rightarrow> int option \<Rightarrow> verdict_store \<Rightarrow> verdict_store" where
  "upsert now path lang source conf by ev cls codes sonarr radarr st =
     (let row = \<lparr>vd_path = path, vd_lang = norm_or lang (lower lang), vd_source = source, vd_conf = conf,
            vd_at = now, vd_by = by,
            vd_evidence = (case ev of Some j \<Rightarrow> if truthy j then Some j else None | None \<Rightarrow> None),
            vd_class = cls,
            vd_codes = (case codes of None \<Rightarrow> None | Some cs \<Rightarrow> if cs = [] then None else Some (map (\<lambda>c. norm_or c (lower c)) cs)),
            vd_sonarr = sonarr, vd_radarr = radarr\<rparr>
      in st\<lparr>vs_rows :=
           (case row_find vd_path path (vs_rows st) of
              None \<Rightarrow> vs_rows st @ [row]
            | Some _ \<Rightarrow> rows_update vd_path path
                (\<lambda>old. row\<lparr>vd_sonarr := (case sonarr of None \<Rightarrow> vd_sonarr old | Some i \<Rightarrow> Some i),
                          vd_radarr := (case radarr of None \<Rightarrow> vd_radarr old | Some i \<Rightarrow> Some i)\<rparr>) (vs_rows st))\<rparr>)"

definition get_exact :: "string \<Rightarrow> verdict_store \<Rightarrow> verdict option" where
  "get_exact path st = map_option row_view (row_find vd_path path (vs_rows st))"

text \<open>The scan for the longest matching prefix; the first of equally long ones stays.\<close>

fun longest_intent :: "string \<Rightarrow> intent list \<Rightarrow> intent option \<Rightarrow> intent option" where
  "longest_intent path [] best = best"
| "longest_intent path (r # rs) best =
     longest_intent path rs
       (if prefix (in_prefix r) path
           \<and> (case best of None \<Rightarrow> True | Some b \<Rightarrow> length (in_prefix b) < length (in_prefix r))
        then Some r else best)"

definition get_intent :: "string \<Rightarrow> verdict_store \<Rightarrow> verdict option" where
  "get_intent path st =
     (case longest_intent path (vs_intents st) None of
        None \<Rightarrow> None
      | Some i \<Rightarrow> Some \<lparr>vd_path = path, vd_lang = norm_or (in_lang i) (in_lang i),
            vd_source = ''series_intent:'' @ in_source i, vd_conf = in_conf i, vd_at = in_at i, vd_by = in_by i,
            vd_evidence = Some (JObj [(''inherited_from_series_prefix'', JStr (in_prefix i))]),
            vd_class = ''single'', vd_codes = None, vd_sonarr = None, vd_radarr = None\<rparr>)"

definition delete_verdict :: "string \<Rightarrow> verdict_store \<Rightarrow> bool \<times> verdict_store" where
  "delete_verdict path st =
     (path \<in> vd_path ` set (vs_rows st), st\<lparr>vs_rows := rows_delete (\<lambda>r. vd_path r = path) (vs_rows st)\<rparr>)"

definition all_paths :: "verdict_store \<Rightarrow> string list" where
  "all_paths st = map vd_path (vs_rows st)"

definition list_all_verdicts :: "verdict_store \<Rightarrow> verdict list" where
  "list_all_verdicts st = map row_view (sort_key (\<lambda>r. - vd_at r) (vs_rows st))"

definition get_all_as_lookup :: "verdict_store \<Rightarrow> (string \<times> string) list" where
  "get_all_as_lookup st = map (\<lambda>r. (vd_path r, norm_or (vd_lang r) (vd_lang r))) (vs_rows st)"

definition get_all_multi_as_lookup :: "verdict_store \<Rightarrow> (string \<times> string list) list" where
  "get_all_multi_as_lookup st =
     [(vd_path r, cs). r \<leftarrow> vs_rows st, vd_class r = ''multi'', Some cs \<leftarrow> [vd_codes r], cs \<noteq> []]"

definition get_all_sources_as_lookup :: "verdict_store \<Rightarrow> (string \<times> string) list" where
  "get_all_sources_as_lookup st = map (\<lambda>r. (vd_path r, vd_source r)) (vs_rows st)"

section \<open>Carrying a verdict to the successor of its file\<close>

definition video_exts :: "string list" where
  "video_exts = [''.mkv'', ''.mp4'', ''.avi'', ''.m4v'', ''.mov'', ''.webm'', ''.ts'', ''.wmv'', ''.asf'',
     ''.mpg'', ''.mpeg'', ''.m2ts'', ''.flv'', ''.f4v'', ''.ogv'', ''.3gp'', ''.divx'']"

text \<open>\<open>os.path.splitext(n)[1]\<close>: leading dots start no extension.\<close>

definition splitext_ext :: "string \<Rightarrow> string" where
  "splitext_ext n =
     (if CHR ''.'' \<in> set (dropWhile (\<lambda>c. c = CHR ''.'') n) then CHR ''.'' # rsplit_last (CHR ''.'') n else [])"

definition is_video_name :: "string \<Rightarrow> bool" where
  "is_video_name n \<longleftrightarrow> lower (splitext_ext n) \<in> set video_exts"

definition index_videos :: "fs_env \<Rightarrow> string list \<Rightarrow> nat \<times> nat \<Rightarrow> string list list" where
  "index_videos env folder key =
     filter (\<lambda>p. p \<noteq> [] \<and> is_video_name (last p) \<and> episode_key (last p) = Some key) (fs_walk env folder)"

definition to_fs :: "fs_env \<Rightarrow> string \<Rightarrow> path_error + string list" where
  "to_fs env c = canonical_to_fs (fs_resolve env) (fs_libs env) c"

text \<open>The file of a row is gone: its path translates and does not exist.\<close>

definition file_gone :: "fs_env \<Rightarrow> string \<Rightarrow> bool" where
  "file_gone env c = (case to_fs env c of Inl _ \<Rightarrow> False | Inr p \<Rightarrow> \<not> fs_exists env p)"

definition file_there :: "fs_env \<Rightarrow> string \<Rightarrow> bool" where
  "file_there env c = (case to_fs env c of Inl _ \<Rightarrow> False | Inr p \<Rightarrow> fs_exists env p)"

definition verdict_language :: "verdict \<Rightarrow> string \<times> string \<times> string list option" where
  "verdict_language r = (norm_or (vd_lang r) (vd_lang r), (if vd_class r = [] then ''single'' else vd_class r), vd_codes r)"

text \<open>\<open>max(xs, key=f)\<close>: the first of the greatest.\<close>

fun first_max :: "('a \<Rightarrow> 'b::linorder) \<Rightarrow> 'a \<Rightarrow> 'a list \<Rightarrow> 'a" where
  "first_max f best [] = best"
| "first_max f best (x # xs) = first_max f (if f best < f x then x else best) xs"

definition find_carry_over :: "fs_env \<Rightarrow> string \<Rightarrow> verdict_store \<Rightarrow> string option" where
  "find_carry_over env new_path st =
     (case (episode_key new_path, series_folder new_path) of
        (Some key, Some series) \<Rightarrow>
          (if new_path \<in> vd_path ` set (vs_rows st) then None
           else (let rows = filter (\<lambda>r. sql_like (like_prefix series) (vd_path r) \<and> vd_path r \<noteq> new_path
                              \<and> episode_key (vd_path r) = Some key) (vs_rows st)
                 in if rows = [] then None
                 else (case (to_fs env series, to_fs env new_path) of
                     (Inr series_fs, Inr new_fs) \<Rightarrow>
                       (case filter (\<lambda>r. file_gone env (vd_path r)) rows of
                          [] \<Rightarrow> None
                        | o1 # os \<Rightarrow>
                            if index_videos env series_fs key \<noteq> [new_fs] then None
                            else if \<not> list_all (\<lambda>r. verdict_language r = verdict_language o1) os then None
                            else Some (vd_path (first_max vd_at o1 os)))
                   | _ \<Rightarrow> None)))
      | _ \<Rightarrow> None)"

datatype move_kind = Carried | Relinked

fun kind_name :: "move_kind \<Rightarrow> string" where
  "kind_name Carried = ''carried''"
| "kind_name Relinked = ''relinked''"

definition moved_evidence :: "move_kind \<Rightarrow> pyfloat \<Rightarrow> string \<Rightarrow> json option \<Rightarrow> json" where
  "moved_evidence kind now old ev =
     (let kvs = (case ev of None \<Rightarrow> [] | Some (JObj d) \<Rightarrow> d | Some j \<Rightarrow> [(''previous_evidence'', j)])
      in JObj (AList.update (kind_name kind @ ''_at'') (JFloat now)
                (AList.update (kind_name kind @ ''_from'') (JStr old) kvs)))"

definition move_verdict ::
    "move_kind \<Rightarrow> pyfloat \<Rightarrow> string \<Rightarrow> string \<Rightarrow> verdict_store \<Rightarrow> verdict option \<times> verdict_store" where
  "move_verdict kind now old new_path st =
     (case row_find vd_path old (vs_rows st) of
        None \<Rightarrow> (None, st)
      | Some row \<Rightarrow>
          if new_path \<in> vd_path ` set (vs_rows st) then (None, st)
          else (let st' = st\<lparr>vs_rows := rows_update vd_path old
                      (\<lambda>r. r\<lparr>vd_path := new_path, vd_evidence := Some (moved_evidence kind now old (vd_evidence row))\<rparr>)
                      (vs_rows st)\<rparr>
                in (get_exact new_path st', st')))"

definition carry_over :: "fs_env \<Rightarrow> pyfloat \<Rightarrow> string \<Rightarrow> verdict_store \<Rightarrow> verdict option \<times> verdict_store" where
  "carry_over env now new_path st =
     (case find_carry_over env new_path st of
        None \<Rightarrow> (None, st)
      | Some old \<Rightarrow> move_verdict Carried now old new_path st)"

definition relink :: "pyfloat \<Rightarrow> string \<Rightarrow> string \<Rightarrow> verdict_store \<Rightarrow> verdict option \<times> verdict_store" where
  "relink now old new_path st = move_verdict Relinked now old new_path st"

definition get_verdict :: "fs_env \<Rightarrow> pyfloat \<Rightarrow> bool \<Rightarrow> string \<Rightarrow> verdict_store \<Rightarrow> verdict option \<times> verdict_store" where
  "get_verdict env now follow_replaced path st =
     (case get_exact path st of
        Some v \<Rightarrow> (Some v, st)
      | None \<Rightarrow>
          (case (if follow_replaced then carry_over env now path st else (None, st)) of
             (Some v, st') \<Rightarrow> (Some v, st')
           | (None, st') \<Rightarrow> (get_intent path st', st')))"

section \<open>Sweeps\<close>

text \<open>The successor a sweep looks for: the only video of the same episode in the show of a
  verdict whose file is gone.\<close>

definition successor_of :: "fs_env \<Rightarrow> string \<Rightarrow> string option" where
  "successor_of env old =
     (case (episode_key old, series_folder old) of
        (Some key, Some series) \<Rightarrow>
          (if \<not> file_gone env old then None
           else (case to_fs env series of
               Inl _ \<Rightarrow> None
             | Inr series_fs \<Rightarrow>
                 (case index_videos env series_fs key of
                    [p] \<Rightarrow> Some (series @ ''/'' @ join_with ''/'' (drop (length series_fs) p))
                  | _ \<Rightarrow> None)))
      | _ \<Rightarrow> None)"

fun carry_loop :: "fs_env \<Rightarrow> pyfloat \<Rightarrow> string list \<Rightarrow> verdict_store \<Rightarrow> (string \<times> string) list \<times> verdict_store" where
  "carry_loop env now [] st = ([], st)"
| "carry_loop env now (n # ns) st =
     (case carry_over env now n st of
        (None, st') \<Rightarrow> carry_loop env now ns st'
      | (Some v, st') \<Rightarrow>
          (case carry_loop env now ns st' of
             (moved, st'') \<Rightarrow>
               ((case vd_evidence v of
                   Some (JObj kvs) \<Rightarrow> (case jget ''carried_from'' kvs of JStr old \<Rightarrow> [(old, n)] | _ \<Rightarrow> [])
                 | _ \<Rightarrow> []) @ moved, st'')))"

type_synonym path_ids = "(string \<times> int option \<times> int option) list"

text \<open>The existing files that claim an arr id inside a library.\<close>

definition id_claims :: "path_ids \<Rightarrow> bool \<Rightarrow> int \<Rightarrow> string \<Rightarrow> string list" where
  "id_claims ids sonarr ident slug =
     [p. (p, s, r) \<leftarrow> ids, (if sonarr then s else r) = Some ident, fst (split_canonical p) = slug]"

definition id_successor :: "fs_env \<Rightarrow> path_ids \<Rightarrow> verdict \<Rightarrow> string option" where
  "id_successor env ids r =
     (if \<not> file_gone env (vd_path r) then None
      else (case (case vd_sonarr r of
                    Some i \<Rightarrow> id_claims ids True i (fst (split_canonical (vd_path r)))
                  | None \<Rightarrow> (case vd_radarr r of
                      Some i \<Rightarrow> id_claims ids False i (fst (split_canonical (vd_path r)))
                    | None \<Rightarrow> [])) of
          [new_path] \<Rightarrow>
            if new_path = vd_path r then None
            else if file_there env new_path then Some new_path else None
        | _ \<Rightarrow> None))"

fun carry_by_id_loop :: "fs_env \<Rightarrow> path_ids \<Rightarrow> pyfloat \<Rightarrow> verdict list \<Rightarrow> verdict_store
    \<Rightarrow> (string \<times> string) list \<times> verdict_store" where
  "carry_by_id_loop env ids now [] st = ([], st)"
| "carry_by_id_loop env ids now (r # rs) st =
     (case id_successor env ids r of
        None \<Rightarrow> carry_by_id_loop env ids now rs st
      | Some new_path \<Rightarrow>
          (case move_verdict Carried now (vd_path r) new_path st of
             (None, st') \<Rightarrow> carry_by_id_loop env ids now rs st'
           | (Some _, st') \<Rightarrow>
               (case carry_by_id_loop env ids now rs st' of
                  (moved, st'') \<Rightarrow> ((vd_path r, new_path) # moved, st''))))"

definition carry_by_id :: "fs_env \<Rightarrow> path_ids \<Rightarrow> pyfloat \<Rightarrow> verdict_store \<Rightarrow> (string \<times> string) list \<times> verdict_store" where
  "carry_by_id env ids now st =
     (if ids = [] then ([], st)
      else carry_by_id_loop env ids now
             (filter (\<lambda>r. vd_sonarr r \<noteq> None \<or> vd_radarr r \<noteq> None) (vs_rows st)) st)"

definition sweep_carry_overs ::
    "fs_env \<Rightarrow> path_ids \<Rightarrow> pyfloat \<Rightarrow> verdict_store \<Rightarrow> (string \<times> string) list \<times> verdict_store" where
  "sweep_carry_overs env ids now st =
     (let successors = sort (remdups (List.map_filter (successor_of env) (all_paths st)))
      in case carry_loop env now successors st of
           (moved, st') \<Rightarrow> (case carry_by_id env ids now st' of (moved', st'') \<Rightarrow> (moved @ moved', st'')))"

record backfill_report =
  bf_considered :: nat
  bf_updated :: nat
  bf_missing :: nat

text \<open>One row of \<open>backfill_ids\<close>, the snapshot holding the rows without any id.\<close>

definition backfill_one :: "fs_env \<Rightarrow> path_ids \<Rightarrow> string \<Rightarrow> backfill_report \<times> verdict_store \<Rightarrow> backfill_report \<times> verdict_store" where
  "backfill_one env ids path acc =
     (case acc of (rep, st) \<Rightarrow>
       (case map_of ids path of
          None \<Rightarrow> (rep, st)
        | Some (sonarr, radarr) \<Rightarrow>
            (let rep1 = rep\<lparr>bf_considered := bf_considered rep + 1\<rparr> in
             if sonarr = None \<and> radarr = None then (rep1, st)
             else (case to_fs env path of
                 Inl _ \<Rightarrow> (rep1, st)
               | Inr p \<Rightarrow>
                   if \<not> fs_exists env p then (rep1\<lparr>bf_missing := bf_missing rep1 + 1\<rparr>, st)
                   else (let hit = (\<lambda>r. vd_path r = path \<and> vd_sonarr r = None \<and> vd_radarr r = None) in
                     (rep1\<lparr>bf_updated := bf_updated rep1 + length (filter hit (vs_rows st))\<rparr>,
                      st\<lparr>vs_rows := map (\<lambda>r. if hit r then r\<lparr>vd_sonarr := sonarr, vd_radarr := radarr\<rparr> else r) (vs_rows st)\<rparr>))))))"

definition backfill_ids :: "fs_env \<Rightarrow> path_ids \<Rightarrow> verdict_store \<Rightarrow> backfill_report \<times> verdict_store" where
  "backfill_ids env ids st =
     fold (backfill_one env ids)
       (map vd_path (filter (\<lambda>r. vd_sonarr r = None \<and> vd_radarr r = None) (vs_rows st)))
       (\<lparr>bf_considered = 0, bf_updated = 0, bf_missing = 0\<rparr>, st)"

definition get_carried_lookup :: "verdict_store \<Rightarrow> (string \<times> string) list" where
  "get_carried_lookup st =
     [(vd_path r, old). r \<leftarrow> vs_rows st, Some (JObj kvs) \<leftarrow> [vd_evidence r], JStr old \<leftarrow> [jget ''carried_from'' kvs]]"

section \<open>Series rules and suggestions\<close>

definition set_series_intent ::
    "pyfloat \<Rightarrow> string \<Rightarrow> string \<Rightarrow> string \<Rightarrow> pyfloat \<Rightarrow> string option \<Rightarrow> string option \<Rightarrow> verdict_store \<Rightarrow> verdict_store" where
  "set_series_intent now pre lang source conf by note st =
     (let i = \<lparr>in_prefix = with_slash pre, in_lang = norm_or lang (lower lang), in_source = source,
               in_conf = conf, in_at = now, in_by = by, in_note = note\<rparr>
      in st\<lparr>vs_intents :=
           (if with_slash pre \<in> in_prefix ` set (vs_intents st)
            then rows_update in_prefix (with_slash pre) (\<lambda>_. i) (vs_intents st)
            else vs_intents st @ [i])\<rparr>)"

definition delete_series_intent :: "string \<Rightarrow> verdict_store \<Rightarrow> bool \<times> verdict_store" where
  "delete_series_intent pre st =
     (with_slash pre \<in> in_prefix ` set (vs_intents st),
      st\<lparr>vs_intents := rows_delete (\<lambda>i. in_prefix i = with_slash pre) (vs_intents st)\<rparr>)"

definition list_series_intents :: "verdict_store \<Rightarrow> intent list" where
  "list_series_intents st =
     map (\<lambda>i. i\<lparr>in_lang := norm_or (in_lang i) (in_lang i)\<rparr>) (sort_key (\<lambda>i. - in_at i) (vs_intents st))"

text \<open>The four tables of marked paths share their statements: an upsert that refreshes the time
  and the note, a delete that reports whether there was a row, and the set of keys.\<close>

definition mark :: "pyfloat \<Rightarrow> string \<Rightarrow> string option \<Rightarrow> mark_table \<Rightarrow> mark_table" where
  "mark now k note t = AList.update k (now, note) t"

definition unmark :: "string \<Rightarrow> mark_table \<Rightarrow> bool \<times> mark_table" where
  "unmark k t = (map_of t k \<noteq> None, AList.delete k t)"

definition dismiss_series_suggestion :: "pyfloat \<Rightarrow> string \<Rightarrow> string option \<Rightarrow> verdict_store \<Rightarrow> verdict_store" where
  "dismiss_series_suggestion now pre note st =
     st\<lparr>vs_suggestion_dismissed := mark now (with_slash pre) note (vs_suggestion_dismissed st)\<rparr>"

definition undismiss_series_suggestion :: "string \<Rightarrow> verdict_store \<Rightarrow> bool \<times> verdict_store" where
  "undismiss_series_suggestion pre st =
     (case unmark (with_slash pre) (vs_suggestion_dismissed st) of (b, t) \<Rightarrow> (b, st\<lparr>vs_suggestion_dismissed := t\<rparr>))"

definition dismiss_mixed :: "pyfloat \<Rightarrow> string \<Rightarrow> string option \<Rightarrow> verdict_store \<Rightarrow> verdict_store" where
  "dismiss_mixed now p note st = st\<lparr>vs_mixed_dismissed := mark now p note (vs_mixed_dismissed st)\<rparr>"

definition undismiss_mixed :: "string \<Rightarrow> verdict_store \<Rightarrow> bool \<times> verdict_store" where
  "undismiss_mixed p st = (case unmark p (vs_mixed_dismissed st) of (b, t) \<Rightarrow> (b, st\<lparr>vs_mixed_dismissed := t\<rparr>))"

definition dismiss_track_mismatch :: "pyfloat \<Rightarrow> string \<Rightarrow> string option \<Rightarrow> verdict_store \<Rightarrow> verdict_store" where
  "dismiss_track_mismatch now p note st = st\<lparr>vs_track_dismissed := mark now p note (vs_track_dismissed st)\<rparr>"

definition undismiss_track_mismatch :: "string \<Rightarrow> verdict_store \<Rightarrow> bool \<times> verdict_store" where
  "undismiss_track_mismatch p st = (case unmark p (vs_track_dismissed st) of (b, t) \<Rightarrow> (b, st\<lparr>vs_track_dismissed := t\<rparr>))"

definition ignore_title :: "pyfloat \<Rightarrow> string \<Rightarrow> string option \<Rightarrow> verdict_store \<Rightarrow> verdict_store" where
  "ignore_title now p note st = st\<lparr>vs_ignored := mark now p note (vs_ignored st)\<rparr>"

definition unignore_title :: "string \<Rightarrow> verdict_store \<Rightarrow> bool \<times> verdict_store" where
  "unignore_title p st = (case unmark p (vs_ignored st) of (b, t) \<Rightarrow> (b, st\<lparr>vs_ignored := t\<rparr>))"

definition list_ignored_titles :: "verdict_store \<Rightarrow> (string \<times> pyfloat \<times> string option) list" where
  "list_ignored_titles st = sort_key (\<lambda>e. - fst (snd e)) (vs_ignored st)"

record suggestion =
  sg_prefix :: string
  sg_title :: string
  sg_lang :: string
  sg_agreeing :: nat
  sg_samples :: "string list"

definition show_verdicts :: "string \<Rightarrow> verdict_store \<Rightarrow> verdict list" where
  "show_verdicts folder st = filter (\<lambda>v. series_folder (vd_path v) = Some folder) (list_all_verdicts st)"

definition suggest_for :: "nat \<Rightarrow> verdict_store \<Rightarrow> string \<Rightarrow> suggestion option" where
  "suggest_for min_agreeing st folder =
     (let verdicts = show_verdicts folder st; pre = with_slash folder in
      if length verdicts < min_agreeing then None
      else if list_ex (\<lambda>i. prefix (in_prefix i) pre) (list_series_intents st) then None
      else if map_of (vs_suggestion_dismissed st) pre \<noteq> None then None
      else if map_of (vs_mixed_dismissed st) folder \<noteq> None \<or> map_of (vs_mixed_dismissed st) pre \<noteq> None then None
      else if list_ex (\<lambda>v. vd_class v = ''multi'') verdicts then None
      else (case remdups (map vd_lang verdicts) of
          [lang] \<Rightarrow> Some \<lparr>sg_prefix = pre, sg_title = last (split_on (CHR ''/'') folder), sg_lang = lang,
              sg_agreeing = length verdicts,
              sg_samples = map vd_path (take 3 (sort_key (\<lambda>v. - vd_at v) verdicts))\<rparr>
        | _ \<Rightarrow> None))"

definition suggest_series_rules :: "nat \<Rightarrow> verdict_store \<Rightarrow> suggestion list" where
  "suggest_series_rules min_agreeing st =
     sort_key (\<lambda>s. (- int (sg_agreeing s), sg_prefix s))
       (List.map_filter (suggest_for min_agreeing st)
         (remdups (List.map_filter (\<lambda>v. series_folder (vd_path v)) (list_all_verdicts st))))"

fun bulk_for_series ::
    "pyfloat \<Rightarrow> string \<Rightarrow> string \<Rightarrow> string \<Rightarrow> pyfloat \<Rightarrow> string option \<Rightarrow> string list \<Rightarrow> verdict_store \<Rightarrow> nat \<times> verdict_store" where
  "bulk_for_series now pre lang source conf by [] st = (0, st)"
| "bulk_for_series now pre lang source conf by (p # ps) st =
     (if prefix pre p
      then (case bulk_for_series now pre lang source conf by ps
                   (upsert now p lang source conf by None ''single'' None None None st) of
              (n, st') \<Rightarrow> (Suc n, st'))
      else bulk_for_series now pre lang source conf by ps st)"

section \<open>The invariant\<close>

definition store_ok :: "verdict_store \<Rightarrow> bool" where
  "store_ok st \<longleftrightarrow> distinct (map vd_path (vs_rows st)) \<and> distinct (map in_prefix (vs_intents st))
     \<and> (\<forall>i \<in> set (vs_intents st). suffix ''/'' (in_prefix i))"

text \<open>What a verdict says, without where it is filed and its trail.\<close>

definition core :: "verdict \<Rightarrow> string \<times> string \<times> pyfloat \<times> pyfloat \<times> string option \<times> string \<times> string list option" where
  "core r = (vd_lang r, vd_source r, vd_conf r, vd_at r, vd_by r, vd_class r, vd_codes r)"

lemma with_slash_suffix: "suffix ''/'' (with_slash p)"
  by (simp add: with_slash_def)

lemma upsert_paths:
  "map vd_path (vs_rows (upsert now p l s c by ev cls cs so ra st)) =
     (if p \<in> vd_path ` set (vs_rows st) then map vd_path (vs_rows st) else map vd_path (vs_rows st) @ [p])"
proof (cases "row_find vd_path p (vs_rows st)")
  case None
  moreover from None have "p \<notin> vd_path ` set (vs_rows st)" by (simp add: row_find_None)
  ultimately show ?thesis by (simp add: upsert_def Let_def)
next
  case (Some r)
  then have "p \<in> vd_path ` set (vs_rows st)" by (auto dest: row_find_Some)
  then show ?thesis using Some
    by (auto simp: upsert_def Let_def rows_update_def)
qed

lemma upsert_intents: "vs_intents (upsert now p l s c by ev cls cs so ra st) = vs_intents st"
  by (simp add: upsert_def Let_def)

lemma upsert_ok: "store_ok st \<Longrightarrow> store_ok (upsert now p l s c by ev cls cs so ra st)"
  unfolding store_ok_def upsert_paths upsert_intents by auto

lemma move_verdict_cases:
  assumes "distinct (map vd_path (vs_rows st))"
  obtains (refused) "move_verdict k now old new_path st = (None, st)"
      "old \<notin> vd_path ` set (vs_rows st) \<or> new_path \<in> vd_path ` set (vs_rows st)"
  | (moved) as r bs where "vs_rows st = as @ r # bs" "vd_path r = old"
      "new_path \<notin> vd_path ` set (vs_rows st)" "old \<notin> vd_path ` set (as @ bs)"
      "move_verdict k now old new_path st =
         (Some (row_view (r\<lparr>vd_path := new_path, vd_evidence := Some (moved_evidence k now old (vd_evidence r))\<rparr>)),
          st\<lparr>vs_rows := as @ r\<lparr>vd_path := new_path, vd_evidence := Some (moved_evidence k now old (vd_evidence r))\<rparr> # bs\<rparr>)"
proof (cases "row_find vd_path old (vs_rows st)")
  case None
  moreover from None have "old \<notin> vd_path ` set (vs_rows st)" by (simp add: row_find_None)
  ultimately show thesis by (intro refused) (simp_all add: move_verdict_def)
next
  case (Some r)
  show thesis
  proof (cases "new_path \<in> vd_path ` set (vs_rows st)")
    case True
    then show thesis using Some by (intro refused) (simp_all add: move_verdict_def)
  next
    case False
    let ?new = "r\<lparr>vd_path := new_path, vd_evidence := Some (moved_evidence k now old (vd_evidence r))\<rparr>"
    obtain as bs where rows: "vs_rows st = as @ r # bs" and r: "vd_path r = old"
      and ne: "\<forall>a \<in> set as \<union> set bs. vd_path a \<noteq> old"
      and upd: "\<And>f. rows_update vd_path old f (vs_rows st) = as @ f r # bs"
      using row_split [OF assms Some] by blast
    have "new_path \<notin> vd_path ` set as" using False rows by auto
    then have "row_find vd_path new_path (as @ ?new # bs) = Some ?new"
      by (induction as) (auto simp: row_find_def)
    then have "move_verdict k now old new_path st = (Some (row_view ?new), st\<lparr>vs_rows := as @ ?new # bs\<rparr>)"
      using Some False by (simp add: move_verdict_def upd get_exact_def)
    then show thesis using rows r ne False by (intro moved) (auto simp: image_iff)
  qed
qed

definition keeps_verdicts :: "verdict_store \<Rightarrow> verdict_store \<Rightarrow> bool" where
  "keeps_verdicts st st' \<longleftrightarrow> store_ok st' \<and> map core (vs_rows st') = map core (vs_rows st)
     \<and> vs_intents st' = vs_intents st"

lemma keeps_refl: "store_ok st \<Longrightarrow> keeps_verdicts st st"
  by (simp add: keeps_verdicts_def)

lemma keeps_trans: "keeps_verdicts a b \<Longrightarrow> keeps_verdicts b c \<Longrightarrow> keeps_verdicts a c"
  by (simp add: keeps_verdicts_def)

lemma keeps_ok: "keeps_verdicts a b \<Longrightarrow> store_ok b"
  by (simp add: keeps_verdicts_def)

lemma move_verdict_keeps:
  assumes "store_ok st"
  shows "keeps_verdicts st (snd (move_verdict k now old new_path st))"
proof -
  have "distinct (map vd_path (vs_rows st))" using assms by (simp add: store_ok_def)
  then show ?thesis
  proof (cases rule: move_verdict_cases [where k = k and now = now and old = old and new_path = new_path])
    case refused
    then show ?thesis using assms by (simp add: keeps_refl)
  next
    case (moved as r bs)
    then show ?thesis using assms
      by (auto simp: keeps_verdicts_def store_ok_def core_def)
  qed
qed

lemma carry_over_keeps: "store_ok st \<Longrightarrow> keeps_verdicts st (snd (carry_over env now n st))"
  by (auto simp: carry_over_def keeps_refl move_verdict_keeps split: option.splits)

lemma carry_loop_keeps: "store_ok st \<Longrightarrow> keeps_verdicts st (snd (carry_loop env now ns st))"
proof (induction env now ns st rule: carry_loop.induct)
  case (2 env now n ns st)
  have one: "keeps_verdicts st (snd (carry_over env now n st))" using 2(3) by (rule carry_over_keeps)
  obtain v st' where c: "carry_over env now n st = (v, st')" by (cases "carry_over env now n st")
  then have k: "keeps_verdicts st st'" using one by simp
  then have "keeps_verdicts st' (snd (carry_loop env now ns st'))"
    using 2(1,2) c keeps_ok by (cases v) auto
  then have "keeps_verdicts st (snd (carry_loop env now ns st'))" by (rule keeps_trans [OF k])
  then show ?case by (cases v; cases "carry_loop env now ns st'") (simp_all add: c)
qed (simp add: keeps_refl)

lemma carry_by_id_loop_keeps: "store_ok st \<Longrightarrow> keeps_verdicts st (snd (carry_by_id_loop env ids now rs st))"
proof (induction rs arbitrary: st)
  case (Cons r rs)
  show ?case
  proof (cases "id_successor env ids r")
    case None
    then show ?thesis using Cons by simp
  next
    case (Some n)
    obtain v st' where m: "move_verdict Carried now (vd_path r) n st = (v, st')"
      by (cases "move_verdict Carried now (vd_path r) n st")
    then have k: "keeps_verdicts st st'" using move_verdict_keeps [OF Cons.prems, of Carried now "vd_path r" n] by simp
    then have "keeps_verdicts st' (snd (carry_by_id_loop env ids now rs st'))" using Cons.IH keeps_ok by blast
    then have "keeps_verdicts st (snd (carry_by_id_loop env ids now rs st'))" by (rule keeps_trans [OF k])
    then show ?thesis by (cases v; cases "carry_by_id_loop env ids now rs st'") (simp_all add: m Some)
  qed
qed (simp add: keeps_refl)

lemma sweep_keeps: "store_ok st \<Longrightarrow> keeps_verdicts st (snd (sweep_carry_overs env ids now st))"
proof -
  assume ok: "store_ok st"
  define successors where "successors = sort (remdups (List.map_filter (successor_of env) (all_paths st)))"
  obtain m st' where l: "carry_loop env now successors st = (m, st')" by (cases "carry_loop env now successors st")
  have k: "keeps_verdicts st st'" using carry_loop_keeps [OF ok, of env now successors] l by simp
  have "keeps_verdicts st' (snd (carry_by_id env ids now st'))"
    using carry_by_id_loop_keeps [OF keeps_ok [OF k]] keeps_refl [OF keeps_ok [OF k]] by (simp add: carry_by_id_def)
  then have "keeps_verdicts st (snd (carry_by_id env ids now st'))" by (rule keeps_trans [OF k])
  then show ?thesis
    by (cases "carry_by_id env ids now st'") (simp add: sweep_carry_overs_def successors_def [symmetric] l)
qed

lemma get_verdict_keeps: "store_ok st \<Longrightarrow> keeps_verdicts st (snd (get_verdict env now f p st))"
proof -
  assume ok: "store_ok st"
  obtain v st' where c: "carry_over env now p st = (v, st')" by (cases "carry_over env now p st")
  then have "keeps_verdicts st st'" using carry_over_keeps [OF ok, of env now p] by simp
  then show ?thesis using keeps_refl [OF ok] c
    by (cases v) (auto simp: get_verdict_def split: option.splits)
qed

lemma backfill_one_ok:
  assumes "store_ok (snd acc)"
  shows "store_ok (snd (backfill_one env ids p acc))
    \<and> map core (vs_rows (snd (backfill_one env ids p acc))) = map core (vs_rows (snd acc))"
proof -
  have "vd_path \<circ> (\<lambda>r. if h r then r\<lparr>vd_sonarr := a, vd_radarr := b\<rparr> else r) = vd_path"
    "core \<circ> (\<lambda>r. if h r then r\<lparr>vd_sonarr := a, vd_radarr := b\<rparr> else r) = core" for h a b
    by (auto simp: fun_eq_iff core_def)
  then show ?thesis using assms
    by (auto simp: backfill_one_def store_ok_def Let_def simp del: o_apply map_eq_conv split: prod.splits option.splits sum.splits)
qed

lemma backfill_keeps: "store_ok st \<Longrightarrow> store_ok (snd (backfill_ids env ids st))"
proof -
  have "store_ok (snd acc) \<Longrightarrow> store_ok (snd (fold (backfill_one env ids) ps acc))" for ps acc
  proof (induction ps arbitrary: acc)
    case (Cons p ps)
    then show ?case using backfill_one_ok [OF Cons.prems, of env ids p] by simp
  qed simp
  then show "store_ok st \<Longrightarrow> store_ok (snd (backfill_ids env ids st))" by (simp add: backfill_ids_def)
qed

lemma bulk_ok: "store_ok st \<Longrightarrow> store_ok (snd (bulk_for_series now pre l s c by ps st))"
proof (induction ps arbitrary: st)
  case (Cons p ps)
  let ?st = "upsert now p l s c by None ''single'' None None None st"
  show ?case using Cons.IH [OF upsert_ok [OF Cons.prems]] Cons.IH [OF Cons.prems]
    by (cases "bulk_for_series now pre l s c by ps ?st") (simp split: prod.split, metis snd_conv)
qed simp

lemma set_intent_ok: "store_ok st \<Longrightarrow> store_ok (set_series_intent now pre l s c by note st)"
proof -
  assume ok: "store_ok st"
  let ?k = "with_slash pre"
  show ?thesis
  proof (cases "?k \<in> in_prefix ` set (vs_intents st)")
    case True
    have "map in_prefix (rows_update in_prefix ?k (\<lambda>_. i) rows) = map in_prefix rows" if "in_prefix i = ?k" for i rows
      using that by (induction rows) (auto simp: rows_update_def)
    moreover have "set (rows_update in_prefix ?k (\<lambda>_. i) rows) \<subseteq> insert i (set rows)" for i rows
      by (auto simp: rows_update_def)
    ultimately have "distinct (map in_prefix (rows_update in_prefix ?k (\<lambda>_. i) (vs_intents st)))
        \<and> (\<forall>x \<in> set (rows_update in_prefix ?k (\<lambda>_. i) (vs_intents st)). suffix ''/'' (in_prefix x))"
      if "in_prefix i = ?k" for i
      using that ok with_slash_suffix [of pre] unfolding store_ok_def by (metis insertE subsetD)
    note * = this
    define i where "i = \<lparr>in_prefix = ?k, in_lang = norm_or l (lower l), in_source = s, in_conf = c,
      in_at = now, in_by = by, in_note = note\<rparr>"
    have "set_series_intent now pre l s c by note st = st\<lparr>vs_intents := rows_update in_prefix ?k (\<lambda>_. i) (vs_intents st)\<rparr>"
      using True by (simp add: set_series_intent_def i_def)
    then show ?thesis using ok * [of i] by (simp add: store_ok_def i_def)
  next
    case False
    then show ?thesis using ok with_slash_suffix [of pre]
      by (auto simp: set_series_intent_def store_ok_def Let_def)
  qed
qed

lemma delete_ok:
  "store_ok st \<Longrightarrow> store_ok (snd (delete_verdict p st))" "store_ok st \<Longrightarrow> store_ok (snd (delete_series_intent pre st))"
  by (auto simp: delete_verdict_def delete_series_intent_def store_ok_def rows_delete_def distinct_map_filterI)

text \<open>The operations that write the verdict and rule tables, in any order.\<close>

inductive store_step :: "verdict_store \<Rightarrow> verdict_store \<Rightarrow> bool" where
  "store_step st (upsert now p l s c by ev cls cs so ra st)"
| "store_step st (snd (delete_verdict p st))"
| "store_step st (snd (get_verdict env now follow p st))"
| "store_step st (snd (relink now old p st))"
| "store_step st (snd (sweep_carry_overs env ids now st))"
| "store_step st (snd (backfill_ids env ids st))"
| "store_step st (snd (bulk_for_series now pre l s c by ps st))"
| "store_step st (set_series_intent now pre l s c by note st)"
| "store_step st (snd (delete_series_intent pre st))"
| "vs_rows st' = vs_rows st \<Longrightarrow> vs_intents st' = vs_intents st \<Longrightarrow> store_step st st'"

lemma store_step_ok: "store_step st st' \<Longrightarrow> store_ok st \<Longrightarrow> store_ok st'"
proof (induction rule: store_step.induct)
  case (10 st' st)
  then show ?case by (simp add: store_ok_def)
qed (simp_all add: relink_def upsert_ok delete_ok keeps_ok [OF get_verdict_keeps] keeps_ok [OF move_verdict_keeps]
      keeps_ok [OF sweep_keeps] backfill_keeps bulk_ok set_intent_ok)

definition empty_store :: verdict_store where
  "empty_store = \<lparr>vs_rows = [], vs_intents = [], vs_suggestion_dismissed = [], vs_mixed_dismissed = [],
     vs_track_dismissed = [], vs_ignored = []\<rparr>"

lemma reachable_ok: "store_step\<^sup>*\<^sup>* empty_store st \<Longrightarrow> store_ok st"
proof (induction rule: rtranclp_induct)
  case base
  then show ?case by (simp add: empty_store_def store_ok_def)
qed (rule store_step_ok)

section \<open>Properties\<close>

text \<open>C13. Whatever sequence of store operations runs (the last rule stands for the dismissal
  tables), a path has at most one verdict and a show at most one rule, and every rule's prefix
  ends in a slash, so that no rule can match a neighbouring show.\<close>

theorem verdict_store_invariant:
  "store_step\<^sup>*\<^sup>* empty_store st \<Longrightarrow> distinct (map vd_path (vs_rows st)) \<and> distinct (map in_prefix (vs_intents st))
     \<and> list_all (\<lambda>i. suffix ''/'' (in_prefix i)) (vs_intents st)"
  using reachable_ok by (auto simp: store_ok_def list_all_iff)

definition demo_fs :: fs_env where
  "demo_fs = \<lparr>fs_libs = [\<lparr>lib_slug = [], lib_name = ''Main'', lib_fs_root = ''/m'', lib_subgen_prefix = ''/m'',
       lib_arr_prefix = ''/m'', lib_sonarr_id = [], lib_radarr_id = [], lib_bazarr_id = []\<rparr>],
     fs_resolve = (\<lambda>p. p), fs_exists = (\<lambda>p. p = [''m'', ''TV'', ''Show'', ''Show.s01e02.new.mkv'']),
     fs_walk = (\<lambda>_. [[''m'', ''TV'', ''Show'', ''Show.s01e02.new.mkv'']])\<rparr>"

definition demo_store :: verdict_store where
  "demo_store = upsert 5 ''TV/Show/Show.s01e02.old.mkv'' ''fre'' ''user'' 1 None None ''single'' None None None empty_store"

lemma demo_reachable: "store_step\<^sup>*\<^sup>* empty_store demo_store"
  unfolding demo_store_def by (rule r_into_rtranclp) (rule store_step.intros(1))

lemma demo_find: "find_carry_over demo_fs ''TV/Show/Show.s01e02.new.mkv'' demo_store = Some ''TV/Show/Show.s01e02.old.mkv''"
  by code_simp

theorem verdict_store_invariant_witness:
  "distinct (map vd_path (vs_rows demo_store)) \<and> distinct (map in_prefix (vs_intents demo_store))"
  using verdict_store_invariant [OF demo_reachable] by blast

lemma first_max_greatest:
  "first_max f x xs \<in> set (x # xs) \<and> (\<forall>y \<in> set (x # xs). f y \<le> f (first_max f x xs))"
proof (induction xs arbitrary: x)
  case (Cons y ys)
  show ?case
  proof (cases "f x < f y")
    case True
    then show ?thesis using Cons [of y] by (auto intro: order_trans less_imp_le)
  next
    case False
    then show ?thesis using Cons [of x] by (auto simp: not_less intro: order_trans)
  qed
qed simp

text \<open>A verdict is carried onto a file only when nothing can go wrong: the file has no verdict
  of its own, the verdict's own file is gone, both name the same episode of the same show, the
  file is the show's only video of that episode, and every other orphaned verdict of that
  episode agrees on the language and is not newer.\<close>

theorem carry_over_safe:
  assumes "find_carry_over env new_path st = Some old"
  shows "\<exists>key series series_fs new_fs r.
      episode_key new_path = Some key \<and> series_folder new_path = Some series
      \<and> new_path \<notin> vd_path ` set (vs_rows st)
      \<and> r \<in> set (vs_rows st) \<and> vd_path r = old \<and> old \<noteq> new_path
      \<and> episode_key old = Some key \<and> sql_like (like_prefix series) old \<and> file_gone env old
      \<and> to_fs env series = Inr series_fs \<and> to_fs env new_path = Inr new_fs
      \<and> index_videos env series_fs key = [new_fs]
      \<and> (\<forall>r' \<in> set (vs_rows st). sql_like (like_prefix series) (vd_path r') \<and> episode_key (vd_path r') = Some key
             \<and> file_gone env (vd_path r') \<longrightarrow> verdict_language r' = verdict_language r \<and> vd_at r' \<le> vd_at r)"
proof -
  obtain key series where ks: "episode_key new_path = Some key" "series_folder new_path = Some series"
    and fresh: "new_path \<notin> vd_path ` set (vs_rows st)"
    using assms by (auto simp: find_carry_over_def Let_def split: option.splits if_splits)
  define rows where "rows = filter (\<lambda>r. sql_like (like_prefix series) (vd_path r) \<and> vd_path r \<noteq> new_path
      \<and> episode_key (vd_path r) = Some key) (vs_rows st)"
  obtain series_fs new_fs o1 os where e: "to_fs env series = Inr series_fs" "to_fs env new_path = Inr new_fs"
    "filter (\<lambda>r. file_gone env (vd_path r)) rows = o1 # os" "index_videos env series_fs key = [new_fs]"
    "list_all (\<lambda>r. verdict_language r = verdict_language o1) os" "old = vd_path (first_max vd_at o1 os)"
    using assms ks fresh
    by (auto simp: find_carry_over_def Let_def rows_def [symmetric] simp del: filter_filter
        split: option.splits if_splits sum.splits list.splits)
  let ?r = "first_max vd_at o1 os"
  have orph: "set (o1 # os) = {r \<in> set rows. file_gone env (vd_path r)}" using e(3) by (metis set_filter)
  have mem: "?r \<in> set (o1 # os)" and max: "\<forall>y \<in> set (o1 # os). vd_at y \<le> vd_at ?r"
    using first_max_greatest [of vd_at o1 os] by blast+
  have lang: "\<forall>y \<in> set (o1 # os). verdict_language y = verdict_language ?r"
    using e(5) mem by (auto simp: list_all_iff)
  have r: "?r \<in> set rows" "file_gone env (vd_path ?r)" using mem orph by blast+
  have agree: "\<forall>r' \<in> set (vs_rows st). sql_like (like_prefix series) (vd_path r') \<and> episode_key (vd_path r') = Some key
      \<and> file_gone env (vd_path r') \<longrightarrow> verdict_language r' = verdict_language ?r \<and> vd_at r' \<le> vd_at ?r"
  proof (intro ballI impI)
    fix r'
    assume "r' \<in> set (vs_rows st)" and *: "sql_like (like_prefix series) (vd_path r') \<and> episode_key (vd_path r') = Some key
      \<and> file_gone env (vd_path r')"
    then have "r' \<in> set (o1 # os)" unfolding orph rows_def using fresh by auto
    then show "verdict_language r' = verdict_language ?r \<and> vd_at r' \<le> vd_at ?r" using lang max by blast
  qed
  have rr: "?r \<in> set (vs_rows st)" "vd_path ?r \<noteq> new_path" "sql_like (like_prefix series) (vd_path ?r)"
    "episode_key (vd_path ?r) = Some key" using r(1) unfolding rows_def by auto
  show ?thesis unfolding e(6) using ks fresh rr r(2) e(1,2,4) agree by blast
qed

theorem carry_over_safe_witness:
  "file_gone demo_fs ''TV/Show/Show.s01e02.old.mkv'' \<and> episode_key ''TV/Show/Show.s01e02.old.mkv'' = Some (1, 2)"
proof -
  have "episode_key ''TV/Show/Show.s01e02.new.mkv'' = Some (1, 2)" by code_simp
  then show ?thesis using carry_over_safe [OF demo_find] by auto
qed

text \<open>C14. A sweep loses nothing and invents nothing: row by row it leaves what every verdict says
  (language, source, confidence, date, class and language set) as it was, it changes only where
  verdicts are filed, no path ends up with two verdicts and no series rule changes.\<close>

theorem sweep_conserves_verdicts:
  assumes "store_step\<^sup>*\<^sup>* empty_store st"
  shows "map core (vs_rows (snd (sweep_carry_overs env ids now st))) = map core (vs_rows st)
    \<and> distinct (map vd_path (vs_rows (snd (sweep_carry_overs env ids now st))))
    \<and> vs_intents (snd (sweep_carry_overs env ids now st)) = vs_intents st"
proof -
  show ?thesis using sweep_keeps [OF reachable_ok [OF assms], of env ids now]
    by (simp add: keeps_verdicts_def store_ok_def)
qed

theorem sweep_conserves_verdicts_witness:
  "map core (vs_rows (snd (sweep_carry_overs demo_fs [] 9 demo_store))) = map core (vs_rows demo_store)
    \<and> map vd_path (vs_rows (snd (sweep_carry_overs demo_fs [] 9 demo_store))) = [''TV/Show/Show.s01e02.new.mkv'']"
proof
  show "map core (vs_rows (snd (sweep_carry_overs demo_fs [] 9 demo_store))) = map core (vs_rows demo_store)"
    using sweep_conserves_verdicts [OF demo_reachable] by blast
  show "map vd_path (vs_rows (snd (sweep_carry_overs demo_fs [] 9 demo_store))) = [''TV/Show/Show.s01e02.new.mkv'']"
    by code_simp
qed

lemma row_find_append: "row_find k x (as @ bs) = (case row_find k x as of None \<Rightarrow> row_find k x bs | Some r \<Rightarrow> Some r)"
  by (induction as) (auto simp: row_find_def)

lemma row_find_Cons: "row_find k x (r # rs) = (if k r = x then Some r else row_find k x rs)"
  by (simp add: row_find_def)

text \<open>Relinking a verdict to a new path moves exactly that verdict: the old path has none
  afterwards, the new one holds what it said, every other path is untouched; a verdict already
  at the new path wins and nothing changes.\<close>

theorem relink_moves_one:
  assumes "store_step\<^sup>*\<^sup>* empty_store st" and "relink now old new_path st = (res, st')"
  shows "if old \<in> set (all_paths st) \<and> new_path \<notin> set (all_paths st)
    then res = get_exact new_path st' \<and> map_option core res = map_option core (get_exact old st)
       \<and> get_exact old st' = None \<and> (\<forall>p. p \<noteq> old \<and> p \<noteq> new_path \<longrightarrow> get_exact p st' = get_exact p st)
    else res = None \<and> st' = st"
proof -
  have ok: "distinct (map vd_path (vs_rows st))" using reachable_ok [OF assms(1)] by (simp add: store_ok_def)
  then show ?thesis
  proof (cases rule: move_verdict_cases [where k = Relinked and now = now and old = old and new_path = new_path])
    case refused
    then show ?thesis using assms(2) by (auto simp: relink_def all_paths_def)
  next
    case (moved as r bs)
    let ?new = "r\<lparr>vd_path := new_path, vd_evidence := Some (moved_evidence Relinked now old (vd_evidence r))\<rparr>"
    have res: "res = Some (row_view ?new)" "vs_rows st' = as @ ?new # bs"
      using assms(2) moved(5) by (auto simp: relink_def)
    have noold: "row_find vd_path old as = None" "row_find vd_path old bs = None"
      and nonew: "row_find vd_path new_path as = None"
      using moved(1,3,4) by (auto simp: row_find_None)
    have "old \<noteq> new_path" using moved(1,2,3) by auto
    moreover have "core (row_view ?new) = core (row_view r)" by (simp add: core_def row_view_def)
    moreover have "get_exact p st' = get_exact p st" if "p \<noteq> old" "p \<noteq> new_path" for p
      using that moved(1,2) res(2) by (simp add: get_exact_def row_find_append row_find_Cons split: option.split)
    moreover have "old \<in> set (all_paths st)" "new_path \<notin> set (all_paths st)"
      using moved(1,2,3) by (auto simp: all_paths_def)
    ultimately show ?thesis using moved(1,2) noold nonew res
      by (simp add: get_exact_def row_find_append row_find_Cons split: option.split)
  qed
qed

theorem relink_moves_one_witness:
  "get_exact ''TV/Show/Show.s01e02.old.mkv'' (snd (relink 9 ''TV/Show/Show.s01e02.old.mkv'' ''Films/x.mkv'' demo_store)) = None"
proof -
  have "''TV/Show/Show.s01e02.old.mkv'' \<in> set (all_paths demo_store)" "''Films/x.mkv'' \<notin> set (all_paths demo_store)"
    by code_simp+
  then show ?thesis
    using relink_moves_one [OF demo_reachable prod.collapse [symmetric], of "''TV/Show/Show.s01e02.old.mkv''" "''Films/x.mkv''" 9]
    by simp
qed

lemma longest_intent_Some:
  "longest_intent p rs best = Some i \<Longrightarrow>
     (best = Some i \<or> (i \<in> set rs \<and> prefix (in_prefix i) p))
     \<and> (\<forall>b. best = Some b \<longrightarrow> length (in_prefix b) \<le> length (in_prefix i))
     \<and> (\<forall>j \<in> set rs. prefix (in_prefix j) p \<longrightarrow> length (in_prefix j) \<le> length (in_prefix i))"
proof (induction p rs best rule: longest_intent.induct)
  case (2 p r rs best)
  let ?take = "prefix (in_prefix r) p
      \<and> (case best of None \<Rightarrow> True | Some b \<Rightarrow> length (in_prefix b) < length (in_prefix r))"
  show ?case
  proof (cases ?take)
    case True
    then have "longest_intent p rs (Some r) = Some i" using 2(2) by simp
    then show ?thesis using 2(1) True by (auto split: option.splits)
  next
    case False
    then have l: "longest_intent p rs best = Some i" using 2(2) by (simp only: longest_intent.simps if_False)
    then have "\<forall>b. best = Some b \<longrightarrow> length (in_prefix b) \<le> length (in_prefix i)" using 2(1) False by auto
    then have "prefix (in_prefix r) p \<Longrightarrow> length (in_prefix r) \<le> length (in_prefix i)"
      using False by (auto split: option.splits)
    then show ?thesis using 2(1) l False by auto
  qed
qed simp

lemma longest_intent_keeps: "longest_intent p rs (Some b) \<noteq> None"
  by (induction rs arbitrary: b) auto

lemma longest_intent_None: "longest_intent p rs None = None \<Longrightarrow> \<forall>j \<in> set rs. \<not> prefix (in_prefix j) p"
proof (induction rs)
  case (Cons r rs)
  then show ?case using longest_intent_keeps [of p rs r] by (cases "prefix (in_prefix r) p") simp_all
qed simp

text \<open>A lookup prefers the file's own verdict; without one it inherits the most specific
  series rule, the one with the longest prefix of the path; a path outside every rule gets
  nothing.\<close>

theorem lookup_precedence:
  assumes "get_exact p st = None"
  shows "case fst (get_verdict env now False p st) of
      None \<Rightarrow> (\<forall>i \<in> set (vs_intents st). \<not> prefix (in_prefix i) p)
    | Some v \<Rightarrow> (\<exists>i \<in> set (vs_intents st). prefix (in_prefix i) p \<and> vd_path v = p
        \<and> vd_lang v = norm_or (in_lang i) (in_lang i) \<and> vd_source v = ''series_intent:'' @ in_source i \<and> vd_conf v = in_conf i
        \<and> (\<forall>j \<in> set (vs_intents st). prefix (in_prefix j) p \<longrightarrow> length (in_prefix j) \<le> length (in_prefix i)))"
proof (cases "longest_intent p (vs_intents st) None")
  case None
  then show ?thesis using assms longest_intent_None [OF None] by (simp add: get_verdict_def get_intent_def)
next
  case (Some i)
  then show ?thesis using assms longest_intent_Some [OF Some]
    by (auto simp: get_verdict_def get_intent_def intro!: bexI [of _ i])
qed

theorem lookup_precedence_witness:
  "map_option vd_lang (fst (get_verdict demo_fs 0 False ''TV/Alerts/x.mkv''
       (set_series_intent 1 ''TV/Alert'' ''French'' ''user'' 1 None None empty_store))) = None"
proof -
  let ?st = "set_series_intent 1 ''TV/Alert'' ''French'' ''user'' 1 None None empty_store"
  have "vs_intents ?st \<noteq> [] \<and> list_all (\<lambda>i. in_prefix i = ''TV/Alert/'') (vs_intents ?st)" and "get_exact ''TV/Alerts/x.mkv'' ?st = None"
    by code_simp+
  then show ?thesis
    using lookup_precedence [of "''TV/Alerts/x.mkv''" ?st demo_fs 0]
    by (auto simp: list_all_iff split: option.splits)
qed

end
