(* ===== verification/Ledger.thy ===== *)
theory Ledger
  imports Prelude
begin

text \<open>
  The provenance ledger (\<open>src/src/subarr/provenance.py\<close>): one row per transcription handed to subgen,
  open until its completion is stamped. The table is the list of its rows in rowid order.
\<close>

record ledger_entry =
  le_id :: nat
  le_path :: string
  le_series :: "int option"
  le_episode :: "int option"
  le_movie :: "int option"
  le_scan :: "string option"
  le_source :: string
  le_version :: "string option"
  le_queued :: pyfloat
  le_completed :: "pyfloat option"
  le_bazarr :: "pyfloat option"
  le_outcome :: "string option"

type_synonym ledger = "ledger_entry list"

definition outcome_written :: string where "outcome_written = ''written''"
definition outcome_no_output :: string where "outcome_no_output = ''no_output''"
definition no_output_cooldown_s :: pyfloat where "no_output_cooldown_s = 7 * 86400"

section \<open>Writing\<close>

definition is_open :: "ledger_entry \<Rightarrow> bool" where
  "is_open e \<longleftrightarrow> le_completed e = None"

definition new_ledger_id :: "ledger \<Rightarrow> nat" where
  "new_ledger_id led = (case sql_max (map le_id led) of None \<Rightarrow> 1 | Some m \<Rightarrow> m + 1)"

text \<open>\<open>ORDER BY id LIMIT 1\<close> of the open rows of the path.\<close>

definition record_job :: "ledger_entry \<Rightarrow> ledger \<Rightarrow> nat \<times> ledger" where
  "record_job job led =
     (case sort_key le_id (filter (\<lambda>e. le_path e = le_path job \<and> is_open e) led) of
        e # _ \<Rightarrow> (le_id e, led)
      | [] \<Rightarrow>
          (let i = new_ledger_id led in
           (i, led @ [job\<lparr>le_id := i, le_completed := None, le_bazarr := None, le_outcome := None\<rparr>])))"

definition mark_completed :: "nat \<Rightarrow> pyfloat \<Rightarrow> string option \<Rightarrow> ledger \<Rightarrow> ledger" where
  "mark_completed i ts outcome led =
     map (\<lambda>e. if le_id e = i \<and> is_open e then e\<lparr>le_completed := Some ts, le_outcome := outcome\<rparr> else e) led"

definition or_else :: "'a option \<Rightarrow> 'a option \<Rightarrow> 'a option" where
  "or_else x y = (case x of None \<Rightarrow> y | Some _ \<Rightarrow> x)"

definition set_arr_ids :: "nat \<Rightarrow> int option \<Rightarrow> int option \<Rightarrow> int option \<Rightarrow> ledger \<Rightarrow> ledger" where
  "set_arr_ids i series episode movie led =
     rows_update le_id i
       (\<lambda>e. e\<lparr>le_series := or_else (le_series e) series, le_episode := or_else (le_episode e) episode,
             le_movie := or_else (le_movie e) movie\<rparr>) led"

definition mark_bazarr_triggered :: "nat \<Rightarrow> pyfloat \<Rightarrow> ledger \<Rightarrow> ledger" where
  "mark_bazarr_triggered i ts led = rows_update le_id i (\<lambda>e. e\<lparr>le_bazarr := Some ts\<rparr>) led"

definition set_outcome :: "nat \<Rightarrow> string \<Rightarrow> ledger \<Rightarrow> ledger" where
  "set_outcome i outcome led = rows_update le_id i (\<lambda>e. e\<lparr>le_outcome := Some outcome\<rparr>) led"

section \<open>Reading\<close>

definition pending_entries :: "ledger \<Rightarrow> ledger_entry list" where
  "pending_entries led = filter is_open led"

definition query_by_path :: "string \<Rightarrow> nat \<Rightarrow> ledger \<Rightarrow> ledger_entry list" where
  "query_by_path path limit led = take limit (sort_key (\<lambda>e. - le_queued e) (filter (\<lambda>e. le_path e = path) led))"

definition recent_entries :: "nat \<Rightarrow> ledger \<Rightarrow> ledger_entry list" where
  "recent_entries limit led = take limit (sort_key (\<lambda>e. - le_queued e) led)"

definition completed_since :: "pyfloat \<Rightarrow> ledger_entry \<Rightarrow> bool" where
  "completed_since since e \<longleftrightarrow> (case le_completed e of None \<Rightarrow> False | Some t \<Rightarrow> since \<le> t)"

definition completed_paths_since :: "pyfloat \<Rightarrow> ledger \<Rightarrow> string list" where
  "completed_paths_since since led = map le_path (filter (completed_since since) led)"

definition no_output_entries_since :: "pyfloat \<Rightarrow> ledger \<Rightarrow> ledger_entry list" where
  "no_output_entries_since since led =
     sort_key le_id (filter (\<lambda>e. le_outcome e = Some outcome_no_output \<and> completed_since since e) led)"

definition latest_completion :: "string \<Rightarrow> ledger \<Rightarrow> pyfloat option" where
  "latest_completion path led = sql_max (List.map_filter (\<lambda>e. if le_path e = path then le_completed e else None) led)"

definition no_output_paths_since :: "pyfloat \<Rightarrow> ledger \<Rightarrow> string list" where
  "no_output_paths_since since led =
     map le_path (filter (\<lambda>e. le_outcome e = Some outcome_no_output \<and> completed_since since e
       \<and> le_completed e = latest_completion (le_path e) led) led)"

definition completed_without_bazarr :: "pyfloat \<Rightarrow> pyfloat \<Rightarrow> ledger \<Rightarrow> ledger_entry list" where
  "completed_without_bazarr now max_age led =
     sort_key (\<lambda>e. - the (le_completed e))
       (filter (\<lambda>e. completed_since (now - max_age) e \<and> le_bazarr e = None \<and> le_series e \<noteq> None
          \<and> le_outcome e \<noteq> Some outcome_no_output) led)"

section \<open>Invariant and history\<close>

definition ledger_ok :: "ledger \<Rightarrow> bool" where
  "ledger_ok led \<longleftrightarrow> distinct (map le_id led) \<and> distinct (map le_path (filter is_open led))"

text \<open>What a row keeps for good: who it is, its completion once stamped, and every id once known.\<close>

definition fixed_once :: "'a option \<Rightarrow> 'a option \<Rightarrow> bool" where
  "fixed_once x y \<longleftrightarrow> x = None \<or> y = x"

definition entry_kept :: "ledger_entry \<Rightarrow> ledger_entry \<Rightarrow> bool" where
  "entry_kept e e' \<longleftrightarrow> le_id e' = le_id e \<and> le_path e' = le_path e \<and> le_queued e' = le_queued e
     \<and> fixed_once (le_completed e) (le_completed e') \<and> fixed_once (le_series e) (le_series e')
     \<and> fixed_once (le_episode e) (le_episode e') \<and> fixed_once (le_movie e) (le_movie e')"

definition history_kept :: "ledger \<Rightarrow> ledger \<Rightarrow> bool" where
  "history_kept led led' \<longleftrightarrow> length led \<le> length led' \<and> list_all2 entry_kept led (take (length led) led')"

inductive ledger_step :: "ledger \<Rightarrow> ledger \<Rightarrow> bool" where
  record_step: "ledger_step led (snd (record_job job led))"
| complete_step: "ledger_step led (mark_completed i ts outcome led)"
| ids_step: "ledger_step led (set_arr_ids i series episode movie led)"
| bazarr_step: "ledger_step led (mark_bazarr_triggered i ts led)"
| outcome_step: "ledger_step led (set_outcome i o' led)"

inductive_cases ledger_stepE: "ledger_step led led'"

lemma entry_kept_refl [simp]: "entry_kept e e"
  by (simp add: entry_kept_def fixed_once_def)

lemma fixed_once_trans: "fixed_once x y \<Longrightarrow> fixed_once y z \<Longrightarrow> fixed_once x z"
  by (auto simp: fixed_once_def)

lemma entry_kept_trans: "entry_kept a b \<Longrightarrow> entry_kept b c \<Longrightarrow> entry_kept a c"
  unfolding entry_kept_def by (auto elim: fixed_once_trans)

lemma history_kept_refl [simp]: "history_kept led led"
  by (simp add: history_kept_def list_all2_same)

lemma history_kept_map: "(\<And>e. entry_kept e (f e)) \<Longrightarrow> history_kept led (map f led)"
  by (simp add: history_kept_def list_all2_conv_all_nth)

lemma history_kept_append [simp]: "history_kept led (led @ rest)"
  by (simp add: history_kept_def list_all2_same)

lemma history_kept_trans:
  assumes "history_kept a b" "history_kept b c"
  shows "history_kept a c"
proof -
  have "list_all2 entry_kept (take (length a) b) (take (length a) c)"
    using assms by (auto simp: history_kept_def list_all2_conv_all_nth)
  with assms show ?thesis
    unfolding history_kept_def by (auto intro: list_all2_trans [OF entry_kept_trans])
qed

lemma step_keeps_history: "ledger_step led led' \<Longrightarrow> history_kept led led'"
proof (induction rule: ledger_step.induct)
  case (record_step led job)
  show ?case by (simp add: record_job_def Let_def split: list.split)
qed (auto simp: mark_completed_def set_arr_ids_def mark_bazarr_triggered_def set_outcome_def rows_update_def entry_kept_def
    fixed_once_def is_open_def or_else_def split: option.split intro!: history_kept_map)

lemma new_ledger_id_fresh: "new_ledger_id led \<notin> le_id ` set led"
proof (cases "sql_max (map le_id led)")
  case (Some m)
  have "le_id e \<le> m" if "e \<in> set led" for e
    using sql_max_ge [OF Some] that by simp
  then show ?thesis by (fastforce simp: new_ledger_id_def Some)
qed (simp add: new_ledger_id_def)

lemma open_paths_shrink:
  assumes "\<And>e. le_path (f e) = le_path e" "\<And>e. is_open (f e) \<Longrightarrow> is_open e" "distinct (map le_path (filter is_open led))"
  shows "distinct (map le_path (filter is_open (map f led)))"
  using assms(3)
proof (induction led)
  case (Cons e led)
  have "le_path ` set (filter is_open (map f led)) \<subseteq> le_path ` set (filter is_open led)"
    using assms(1,2) by fastforce
  with Cons assms(1,2) show ?case by (auto split: if_splits)
qed simp

lemma map_keeps_ok:
  assumes "ledger_ok led" "\<And>e. le_id (f e) = le_id e" "\<And>e. le_path (f e) = le_path e" "\<And>e. is_open (f e) \<Longrightarrow> is_open e"
  shows "ledger_ok (map f led)"
proof -
  have "map le_id (map f led) = map le_id led" using assms(2) by simp
  with assms open_paths_shrink [of f led] show ?thesis by (simp add: ledger_ok_def del: map_map)
qed

lemma step_keeps_ok: "ledger_step led led' \<Longrightarrow> ledger_ok led \<Longrightarrow> ledger_ok led'"
proof (induction rule: ledger_step.induct)
  case (record_step led job)
  show ?case
  proof (cases "sort_key le_id (filter (\<lambda>e. le_path e = le_path job \<and> is_open e) led)")
    case Nil
    then have "filter (\<lambda>e. le_path e = le_path job \<and> is_open e) led = []"
      by (metis length_0_conv length_sort)
    then have "le_path job \<notin> le_path ` set (filter is_open led)"
      by (auto simp: filter_empty_conv)
    with Nil record_step new_ledger_id_fresh [of led] show ?thesis
      by (auto simp: record_job_def ledger_ok_def Let_def is_open_def)
  qed (simp add: record_job_def record_step)
qed (auto simp: mark_completed_def set_arr_ids_def mark_bazarr_triggered_def set_outcome_def rows_update_def is_open_def
    intro!: map_keeps_ok split: if_splits)


definition sample_job :: "string \<Rightarrow> pyfloat \<Rightarrow> ledger_entry" where
  "sample_job path at_time = \<lparr>le_id = 0, le_path = path, le_series = None, le_episode = None, le_movie = None, le_scan = None,
     le_source = ''subgenscan'', le_version = None, le_queued = at_time, le_completed = None, le_bazarr = None,
     le_outcome = None\<rparr>"


end
