(* ===== verification/Aftercare.thy ===== *)
theory Aftercare
  imports Tournament SanitizeCue VerdictStore Ledger
begin

text \<open>
  The review backlog of judged subtitles (\<open>src/src/subarr/aftercare_store.py\<close>) and the audit of the
  subtitles a library already has (\<open>existing_audit.py\<close>, \<open>existing_audit_service.py\<close>). Reading a file and
  probing its video are arguments that may raise (\<open>None\<close>).
\<close>

section \<open>The store\<close>

text \<open>A preview is a text and whether it was cut with an ellipsis.\<close>

record result_row =
  ar_id :: nat
  ar_path :: string
  ar_completed :: pyfloat
  ar_composite :: rat
  ar_cues :: nat
  ar_flagged :: bool
  ar_issues :: "cue_issue list option"
  ar_signals :: "signals option"
  ar_source :: "string option"
  ar_preview :: "(string \<times> bool) option"
  ar_reviewed :: "pyfloat option"
  ar_created :: pyfloat

text \<open>The next id is the counter of \<open>AUTOINCREMENT\<close>.\<close>

record aftercare_store =
  as_rows :: "result_row list"
  as_next :: nat

definition record_result ::
    "pyfloat \<Rightarrow> string \<Rightarrow> pyfloat \<Rightarrow> aftercare_evaluation \<Rightarrow> string option \<Rightarrow> (string \<times> bool) option \<Rightarrow> aftercare_store \<Rightarrow> aftercare_store" where
  "record_result now path completed ev source preview st =
     st\<lparr>as_rows := as_rows st @ [\<lparr>ar_id = as_next st, ar_path = path, ar_completed = completed, ar_composite = ae_composite ev,
          ar_cues = ae_cues ev, ar_flagged = ae_flagged ev, ar_issues = ae_issues ev, ar_signals = ae_signals ev, ar_source = source,
          ar_preview = preview, ar_reviewed = None, ar_created = now\<rparr>],
        as_next := as_next st + 1\<rparr>"

definition in_backlog :: "result_row \<Rightarrow> bool" where
  "in_backlog r \<longleftrightarrow> ar_flagged r \<and> ar_reviewed r = None"

definition prune_results :: "pyfloat \<Rightarrow> nat \<Rightarrow> aftercare_store \<Rightarrow> nat \<times> aftercare_store" where
  "prune_results now days st =
     (let gone = (\<lambda>r. ar_completed r < now - of_nat days * 86400 \<and> \<not> in_backlog r) in
      (length (filter gone (as_rows st)), st\<lparr>as_rows := rows_delete gone (as_rows st)\<rparr>))"

text \<open>The most recently inserted row of its path.\<close>

definition is_latest :: "result_row list \<Rightarrow> result_row \<Rightarrow> bool" where
  "is_latest rows r \<longleftrightarrow> list_all (\<lambda>b. ar_path b = ar_path r \<longrightarrow> ar_id b \<le> ar_id r) rows"

definition pending_reviews :: "aftercare_store \<Rightarrow> nat" where
  "pending_reviews st = length (filter (\<lambda>r. in_backlog r \<and> is_latest (as_rows st) r) (as_rows st))"

definition like_pattern :: "string \<Rightarrow> string" where
  "like_pattern term = ''%'' @ like_escape term @ ''%''"

definition matches_search :: "string \<Rightarrow> result_row \<Rightarrow> bool" where
  "matches_search term r \<longleftrightarrow>
     list_ex (\<lambda>col. sql_like (like_pattern term) (map fold_char col))
       [ar_path r, or_empty (ar_source r), (case ar_preview r of None \<Rightarrow> [] | Some (t, _) \<Rightarrow> t)]"

datatype view = Flagged | All_results

definition selected :: "view \<Rightarrow> string option \<Rightarrow> string option \<Rightarrow> aftercare_store \<Rightarrow> result_row list" where
  "selected view source search st =
     filter (\<lambda>r. is_latest (as_rows st) r \<and> (view = Flagged \<longrightarrow> in_backlog r)
         \<and> (truthy_str search \<longrightarrow> matches_search (or_empty search) r)
         \<and> (case source of None \<Rightarrow> True | Some s \<Rightarrow> ar_source r = Some s)) (as_rows st)"

definition result_order :: "result_row \<Rightarrow> bool \<times> pyfloat \<times> int" where
  "result_order r = (\<not> ar_flagged r, - ar_completed r, - int (ar_id r))"

definition list_results :: "view \<Rightarrow> nat \<Rightarrow> nat \<Rightarrow> string option \<Rightarrow> string option \<Rightarrow> aftercare_store \<Rightarrow> result_row list" where
  "list_results view limit offset source search st =
     take limit (drop offset (sort_key result_order (selected view source search st)))"

definition count_results :: "view \<Rightarrow> string option \<Rightarrow> string option \<Rightarrow> aftercare_store \<Rightarrow> nat" where
  "count_results view source search st = length (selected view source search st)"

definition get_result :: "nat \<Rightarrow> aftercare_store \<Rightarrow> result_row option" where
  "get_result i st = row_find ar_id i (as_rows st)"

definition mark_reviewed :: "pyfloat \<Rightarrow> nat \<Rightarrow> aftercare_store \<Rightarrow> bool \<times> aftercare_store" where
  "mark_reviewed now i st =
     (case row_find ar_id i (as_rows st) of
        None \<Rightarrow> (False, st)
      | Some r \<Rightarrow>
          (True, if ar_reviewed r = None then st\<lparr>as_rows := rows_update ar_id i (\<lambda>r. r\<lparr>ar_reviewed := Some now\<rparr>) (as_rows st)\<rparr> else st))"

definition unreviewed_of :: "string option \<Rightarrow> result_row \<Rightarrow> bool" where
  "unreviewed_of source r \<longleftrightarrow> ar_reviewed r = None \<and> (case source of None \<Rightarrow> True | Some s \<Rightarrow> ar_source r = Some s)"

definition mark_all_reviewed :: "pyfloat \<Rightarrow> string option \<Rightarrow> aftercare_store \<Rightarrow> nat \<times> aftercare_store" where
  "mark_all_reviewed now source st =
     (length (filter (unreviewed_of source) (as_rows st)),
      st\<lparr>as_rows := map (\<lambda>r. if unreviewed_of source r then r\<lparr>ar_reviewed := Some now\<rparr> else r) (as_rows st)\<rparr>)"

section \<open>The audit of existing subtitles\<close>

definition existing_audit_source :: string where "existing_audit_source = ''existing_audit''"
definition subgen_marker :: string where "subgen_marker = ''.subgen.''"

definition is_subarr_generated :: "string \<Rightarrow> string list \<Rightarrow> bool" where
  "is_subarr_generated srt generated \<longleftrightarrow> contains subgen_marker srt \<or> srt \<in> set generated"

text \<open>The \<open>.srt\<close> entries below a root that is a directory, with their depth below it and whether each is a
  symbolic link (\<open>None\<close> when asking raises).\<close>

type_synonym srt_listing = "(string \<times> nat \<times> bool option) list"

definition discover_external_srts :: "nat option \<Rightarrow> srt_listing option list \<Rightarrow> string list" where
  "discover_external_srts max_depth roots =
     sort (remdups (concat (map (\<lambda>tree. case tree of
        None \<Rightarrow> []
      | Some es \<Rightarrow> map fst (filter (\<lambda>(_, d, link). link = Some False \<and> (case max_depth of None \<Rightarrow> True | Some m \<Rightarrow> d \<le> m)) es)) roots)))"

definition preview_limit :: nat where "preview_limit = 160"

definition cue_preview :: "string \<Rightarrow> (string \<times> bool) option option" where
  "cue_preview text_of =
     (case parse_srt text_of of
        None \<Rightarrow> None
      | Some cues \<Rightarrow>
          Some (case filter (\<lambda>t. t \<noteq> []) (map (\<lambda>c. sanitize_cue_text (Some (join_with '' '' (cu_lines c)))) cues) of
                  [] \<Rightarrow> None
                | t # _ \<Rightarrow> Some (if preview_limit < length t then (take (preview_limit - 1) t, True) else (t, False))))"

text \<open>The sibling with the longest stem that starts the stem of the subtitle; the first of equally long
  ones wins. A listing holds the names in the directory, \<open>None\<close> is no directory.\<close>

fun longest_stem :: "string option \<Rightarrow> string list \<Rightarrow> string option" where
  "longest_stem best [] = best"
| "longest_stem best (n # ns) =
     longest_stem (case best of None \<Rightarrow> Some n | Some b \<Rightarrow> if length (path_stem b) < length (path_stem n) then Some n else Some b) ns"

definition resolve_media_for_srt :: "string list option \<Rightarrow> string \<Rightarrow> string option" where
  "resolve_media_for_srt names srt_name =
     (case names of
        None \<Rightarrow> None
      | Some ns \<Rightarrow> longest_stem None (filter (\<lambda>n. lower (path_suffix n) \<in> set video_exts \<and> prefix (path_stem n) (path_stem srt_name)) ns))"

record audit_summary =
  au_total :: nat
  au_scanned :: nat
  au_skipped :: nat
  au_flagged :: nat
  au_errors :: nat

record audit_deps =
  ad_generated :: "string list"
  ad_read :: "string \<Rightarrow> string option"
  ad_duration :: "string \<Rightarrow> rat option option"

definition audit_one :: "audit_deps \<Rightarrow> pyfloat \<Rightarrow> string \<Rightarrow> audit_summary \<times> aftercare_store \<Rightarrow> audit_summary \<times> aftercare_store" where
  "audit_one deps now srt s =
     (case s of (sm, st) \<Rightarrow>
        if is_subarr_generated srt (ad_generated deps) then (sm\<lparr>au_skipped := au_skipped sm + 1\<rparr>, st)
        else
          (case ad_read deps srt of
             None \<Rightarrow> (sm\<lparr>au_errors := au_errors sm + 1\<rparr>, st)
           | Some t \<Rightarrow>
               (case ad_duration deps srt of
                  None \<Rightarrow> (sm\<lparr>au_errors := au_errors sm + 1\<rparr>, st)
                | Some d \<Rightarrow>
                    (case (evaluate_subtitle d t, cue_preview t) of
                       (Some ev, Some preview) \<Rightarrow>
                         (sm\<lparr>au_scanned := au_scanned sm + 1, au_flagged := au_flagged sm + (if ae_flagged ev then 1 else 0)\<rparr>,
                          record_result now srt now ev (Some existing_audit_source) preview st)
                     | _ \<Rightarrow> (sm\<lparr>au_errors := au_errors sm + 1\<rparr>, st)))))"

definition run_existing_audit :: "audit_deps \<Rightarrow> pyfloat \<Rightarrow> string list \<Rightarrow> aftercare_store \<Rightarrow> audit_summary \<times> aftercare_store" where
  "run_existing_audit deps now srts st =
     fold (audit_one deps now) srts (\<lparr>au_total = length srts, au_scanned = 0, au_skipped = 0, au_flagged = 0, au_errors = 0\<rparr>, st)"

section \<open>The service\<close>

record audit_service =
  sv_running :: bool
  sv_summary :: "audit_summary option"
  sv_started :: "pyfloat option"
  sv_finished :: "pyfloat option"
  sv_error :: "string option"

definition start_audit :: "pyfloat \<Rightarrow> audit_service \<Rightarrow> bool \<times> audit_service" where
  "start_audit now sv =
     (if sv_running sv then (False, sv)
      else (True, sv\<lparr>sv_running := True, sv_summary := None, sv_started := Some now, sv_finished := None, sv_error := None\<rparr>))"

text \<open>The task of a started audit: the walk of the library roots, the audit, and the end of it; \<open>Inl\<close> is an
  error that ends the walk.\<close>

definition finish_audit :: "pyfloat \<Rightarrow> string + audit_summary \<Rightarrow> audit_service \<Rightarrow> audit_service" where
  "finish_audit now res sv =
     (case res of Inl e \<Rightarrow> sv\<lparr>sv_error := Some e\<rparr> | Inr sm \<Rightarrow> sv\<lparr>sv_summary := Some sm\<rparr>)\<lparr>sv_running := False, sv_finished := Some now\<rparr>"

definition run_audit_task ::
    "(string \<Rightarrow> string option) \<Rightarrow> (string \<Rightarrow> rat option option) \<Rightarrow> pyfloat \<Rightarrow> string + srt_listing option list \<Rightarrow> ledger
      \<Rightarrow> audit_service \<times> aftercare_store \<Rightarrow> audit_service \<times> aftercare_store" where
  "run_audit_task read dur now roots led s =
     (case s of (sv, st) \<Rightarrow>
        (case roots of
           Inl e \<Rightarrow> (finish_audit now (Inl e) sv, st)
         | Inr rs \<Rightarrow>
             (let deps = \<lparr>ad_generated = completed_paths_since 0 led, ad_read = read, ad_duration = dur\<rparr>;
                  (sm, st') = run_existing_audit deps now (discover_external_srts None rs) st
              in (finish_audit now (Inr sm) sv, st'))))"

section \<open>Views\<close>

lemma concat_pages: "concat (map (\<lambda>p. take m (drop (p * m) xs)) [0..<k]) = take (k * m) xs"
proof (induction k)
  case (Suc k)
  then show ?case using take_add [of "k * m" m xs] by (simp add: add.commute)
qed simp

text \<open>The pages of a view put together are the whole view in its order, nothing lost and nothing twice, and
  the count shown with them is its length, for every page size and every filter.\<close>

theorem pages_partition_the_view:
  "concat (map (\<lambda>p. list_results view (Suc n) (p * Suc n) source search st)
      [0..<Suc (count_results view source search st div Suc n)]) = sort_key result_order (selected view source search st)
   \<and> length (sort_key result_order (selected view source search st)) = count_results view source search st"
proof -
  let ?c = "count_results view source search st"
  have "?c < Suc (?c div Suc n) * Suc n" using dividend_less_div_times [of "Suc n" ?c] by simp
  then show ?thesis unfolding list_results_def concat_pages by (simp add: count_results_def)
qed

definition aftercare_ok :: "aftercare_store \<Rightarrow> bool" where
  "aftercare_ok st \<longleftrightarrow> distinct (map ar_id (as_rows st)) \<and> (\<forall>r \<in> set (as_rows st). ar_id r < as_next st)"

lemma record_result_ok: "aftercare_ok st \<Longrightarrow> aftercare_ok (record_result now path completed ev source preview st)"
  by (auto simp: aftercare_ok_def record_result_def)

lemma prune_results_ok: "aftercare_ok st \<Longrightarrow> aftercare_ok (snd (prune_results now days st))"
  by (auto simp: aftercare_ok_def prune_results_def Let_def rows_delete_def distinct_map_filterI)

lemma aftercare_ok_cong:
  "map ar_id (as_rows st') = map ar_id (as_rows st) \<Longrightarrow> as_next st' = as_next st \<Longrightarrow> aftercare_ok st \<Longrightarrow> aftercare_ok st'"
proof -
  assume ids: "map ar_id (as_rows st') = map ar_id (as_rows st)" and nxt: "as_next st' = as_next st" and ok: "aftercare_ok st"
  from ok have "\<forall>i \<in> set (map ar_id (as_rows st)). i < as_next st" by (simp add: aftercare_ok_def)
  then have "\<forall>i \<in> set (map ar_id (as_rows st')). i < as_next st'" by (simp only: ids nxt)
  then have "\<forall>r \<in> set (as_rows st'). ar_id r < as_next st'" by simp
  then show ?thesis using ok unfolding aftercare_ok_def ids by blast
qed

lemma mark_reviewed_ok: "aftercare_ok st \<Longrightarrow> aftercare_ok (snd (mark_reviewed now i st))"
  by (erule aftercare_ok_cong [rotated 2]) (auto simp: mark_reviewed_def rows_update_keys split: option.split)

lemma mark_all_ok: "aftercare_ok st \<Longrightarrow> aftercare_ok (snd (mark_all_reviewed now source st))"
  by (erule aftercare_ok_cong [rotated 2]) (simp_all add: mark_all_reviewed_def)

text \<open>A path is in the backlog at most once: of two rows of a path only one is the latest.\<close>

lemma latest_unique:
  "aftercare_ok st \<Longrightarrow> r \<in> set (as_rows st) \<Longrightarrow> s \<in> set (as_rows st) \<Longrightarrow> is_latest (as_rows st) r \<Longrightarrow> is_latest (as_rows st) s
     \<Longrightarrow> ar_path r = ar_path s \<Longrightarrow> r = s"
  unfolding aftercare_ok_def is_latest_def list_all_iff distinct_map inj_on_def by (metis antisym)

lemma mark_all_empties_backlog: "pending_reviews (snd (mark_all_reviewed now None st)) = 0"
  by (auto simp: pending_reviews_def mark_all_reviewed_def in_backlog_def unreviewed_of_def filter_empty_conv)

lemma mark_all_keeps_earlier:
  "r \<in> set (as_rows st) \<Longrightarrow> ar_reviewed r \<noteq> None \<Longrightarrow> r \<in> set (as_rows (snd (mark_all_reviewed now source st)))"
  by (auto simp: mark_all_reviewed_def unreviewed_of_def image_iff intro!: bexI [of _ r])

text \<open>The newest result of a path decides: a clean one takes the path out of the backlog.\<close>

lemma clean_result_leaves_backlog:
  assumes "aftercare_ok st" "\<not> ae_flagged ev" "r \<in> set (as_rows (record_result now path completed ev source preview st))"
    and "ar_path r = path" "is_latest (as_rows (record_result now path completed ev source preview st)) r"
  shows "\<not> in_backlog r"
proof (cases "r \<in> set (as_rows st)")
  case True
  have "as_next st \<le> ar_id r" using assms(4,5) by (simp add: record_result_def is_latest_def)
  then show ?thesis using assms(1) True by (auto simp: aftercare_ok_def)
next
  case False
  then have "ar_flagged r = ae_flagged ev" using assms(3) by (auto simp: record_result_def)
  then show ?thesis using assms(2) by (simp add: in_backlog_def)
qed

text \<open>Pruning keeps an old flagged row and drops the clean row that had replaced it, so the path is back in
  the backlog.\<close>

definition old_row :: "nat \<Rightarrow> bool \<Rightarrow> result_row" where
  "old_row i flag = \<lparr>ar_id = i, ar_path = ''TV/Show/ep.mkv'', ar_completed = of_nat i, ar_composite = 50, ar_cues = 10, ar_flagged = flag,
     ar_issues = None, ar_signals = None, ar_source = None, ar_preview = None, ar_reviewed = None, ar_created = of_nat i\<rparr>"

lemma prune_revives_old_flag:
  "pending_reviews \<lparr>as_rows = [old_row 1 True, old_row 2 False], as_next = 3\<rparr> = 0"
  "pending_reviews (snd (prune_results 40000000 365 \<lparr>as_rows = [old_row 1 True, old_row 2 False], as_next = 3\<rparr>)) = 1"
  by (simp_all add: pending_reviews_def prune_results_def old_row_def in_backlog_def is_latest_def rows_delete_def Let_def)

section \<open>The audit\<close>

definition auditable :: "audit_deps \<Rightarrow> string \<Rightarrow> aftercare_evaluation option" where
  "auditable deps srt =
     (if is_subarr_generated srt (ad_generated deps) then None
      else Option.bind (ad_read deps srt) (\<lambda>t. Option.bind (ad_duration deps srt) (\<lambda>d.
        if cue_preview t = None then None else evaluate_subtitle d t)))"

lemma audit_one_cases:
  assumes "audit_one deps now srt (sm, st) = (sm', st')"
  shows "(case auditable deps srt of
        None \<Rightarrow> st' = st \<and> au_scanned sm' = au_scanned sm \<and> au_flagged sm' = au_flagged sm
          \<and> au_skipped sm' + au_errors sm' = au_skipped sm + au_errors sm + 1
      | Some ev \<Rightarrow> \<exists>preview. st' = record_result now srt now ev (Some existing_audit_source) preview st
          \<and> au_scanned sm' = au_scanned sm + 1 \<and> au_flagged sm' = au_flagged sm + of_bool (ae_flagged ev)
          \<and> au_skipped sm' = au_skipped sm \<and> au_errors sm' = au_errors sm)
    \<and> au_total sm' = au_total sm"
  using assms by (auto simp: audit_one_def auditable_def bind_eq_Some_conv split: option.splits if_splits)

lemma audit_fold:
  assumes "fold (audit_one deps now) srts (sm, st) = (sm', st')"
  shows "\<exists>new. as_rows st' = as_rows st @ new
    \<and> map (\<lambda>r. (ar_path r, ar_flagged r)) new = List.map_filter (\<lambda>s. map_option (\<lambda>ev. (s, ae_flagged ev)) (auditable deps s)) srts
    \<and> list_all (\<lambda>r. ar_source r = Some existing_audit_source \<and> ar_reviewed r = None) new
    \<and> au_scanned sm' = au_scanned sm + length new \<and> au_flagged sm' = au_flagged sm + length (filter ar_flagged new)
    \<and> au_scanned sm' + au_skipped sm' + au_errors sm' = au_scanned sm + au_skipped sm + au_errors sm + length srts
    \<and> au_total sm' = au_total sm"
  using assms
proof (induction srts arbitrary: sm st)
  case Nil
  then show ?case by (simp add: List.map_filter_simps)
next
  case (Cons s srts)
  obtain sm1 st1 where one: "audit_one deps now s (sm, st) = (sm1, st1)" by fastforce
  have rest: "fold (audit_one deps now) srts (sm1, st1) = (sm', st')" using Cons.prems one by simp
  note step = audit_one_cases [OF one]
  obtain new where new: "as_rows st' = as_rows st1 @ new"
    "map (\<lambda>r. (ar_path r, ar_flagged r)) new = List.map_filter (\<lambda>s. map_option (\<lambda>ev. (s, ae_flagged ev)) (auditable deps s)) srts"
    "list_all (\<lambda>r. ar_source r = Some existing_audit_source \<and> ar_reviewed r = None) new"
    "au_scanned sm' = au_scanned sm1 + length new" "au_flagged sm' = au_flagged sm1 + length (filter ar_flagged new)"
    "au_scanned sm' + au_skipped sm' + au_errors sm' = au_scanned sm1 + au_skipped sm1 + au_errors sm1 + length srts"
    "au_total sm' = au_total sm1"
    using Cons.IH [OF rest] by blast
  show ?case
  proof (cases "auditable deps s")
    case None
    then show ?thesis using step new by (auto simp: List.map_filter_simps intro!: exI [of _ new])
  next
    case (Some ev)
    then obtain row where row: "as_rows st1 = as_rows st @ [row]" "ar_path row = s" "ar_flagged row = ae_flagged ev"
      "ar_source row = Some existing_audit_source" "ar_reviewed row = None"
      using step by (auto simp: record_result_def)
    show ?thesis by (rule exI [of _ "row # new"]) (use row step new Some in \<open>auto simp: List.map_filter_simps\<close>)
  qed
qed

text \<open>An audit ends and accounts for every subtitle once, as scored, skipped or failed; it stores exactly
  one open result for each one it could score, in order, none for its own output, and changes no
  earlier result.\<close>

theorem audit_accounts_for_all:
  "case run_existing_audit deps now srts st of
     (sm, st') \<Rightarrow> au_total sm = length srts \<and> au_scanned sm + au_skipped sm + au_errors sm = length srts
       \<and> (\<exists>new. as_rows st' = as_rows st @ new \<and> length new = au_scanned sm \<and> length (filter ar_flagged new) = au_flagged sm
            \<and> map ar_path new = filter (\<lambda>s. auditable deps s \<noteq> None) srts
            \<and> list_all (\<lambda>r. ar_source r = Some existing_audit_source \<and> ar_reviewed r = None) new)"
proof -
  obtain sm st' where run: "run_existing_audit deps now srts st = (sm, st')" by fastforce
  have paths: "map fst (List.map_filter (\<lambda>s. map_option (\<lambda>ev. (s, ae_flagged ev)) (auditable deps s)) srts)
      = filter (\<lambda>s. auditable deps s \<noteq> None) srts"
    by (induction srts) (auto simp: List.map_filter_simps split: option.split)
  from audit_fold [OF run [unfolded run_existing_audit_def]] obtain new where new: "as_rows st' = as_rows st @ new"
    "map (\<lambda>r. (ar_path r, ar_flagged r)) new = List.map_filter (\<lambda>s. map_option (\<lambda>ev. (s, ae_flagged ev)) (auditable deps s)) srts"
    "list_all (\<lambda>r. ar_source r = Some existing_audit_source \<and> ar_reviewed r = None) new"
    "au_scanned sm = length new" "au_flagged sm = length (filter ar_flagged new)"
    "au_scanned sm + au_skipped sm + au_errors sm = length srts" "au_total sm = length srts" by auto
  have "map ar_path new = filter (\<lambda>s. auditable deps s \<noteq> None) srts"
    using arg_cong [OF new(2), of "map fst"] by (simp add: paths comp_def)
  with new run show ?thesis by auto
qed

text \<open>The ledger holds canonical paths of videos, which start with no slash; the audited paths are absolute.
  The ledger therefore never recognises a subtitle as generated.\<close>

lemma ledger_never_matches:
  assumes "list_all (\<lambda>e. \<not> prefix ''/'' (le_path e)) led" "prefix ''/'' srt"
  shows "is_subarr_generated srt (completed_paths_since t led) = contains subgen_marker srt"
  using assms by (auto simp: is_subarr_generated_def completed_paths_since_def list_all_iff)

lemma longest_stem_best:
  "longest_stem best ns = Some n \<Longrightarrow> (best = Some n \<or> n \<in> set ns) \<and> (\<forall>m \<in> set ns. length (path_stem m) \<le> length (path_stem n))
     \<and> (\<forall>b. best = Some b \<longrightarrow> length (path_stem b) \<le> length (path_stem n))"
proof (induction best ns rule: longest_stem.induct)
  case (2 best m ns)
  then show ?case by (cases best) (auto split: if_splits)
qed simp

text \<open>The video of a subtitle is the most specific one.\<close>

lemma media_most_specific:
  "resolve_media_for_srt (Some ns) srt = Some n \<Longrightarrow> n \<in> set ns \<and> prefix (path_stem n) (path_stem srt)
     \<and> (\<forall>m \<in> set ns. lower (path_suffix m) \<in> set video_exts \<and> prefix (path_stem m) (path_stem srt) \<longrightarrow> length (path_stem m) \<le> length (path_stem n))"
proof -
  let ?ms = "filter (\<lambda>n. lower (path_suffix n) \<in> set video_exts \<and> prefix (path_stem n) (path_stem srt)) ns"
  assume "resolve_media_for_srt (Some ns) srt = Some n"
  then have "longest_stem None ?ms = Some n" by (simp add: resolve_media_for_srt_def)
  from longest_stem_best [OF this] show ?thesis by auto
qed

end
