(* ===== verification/MediaProbe.thy ===== *)
theory MediaProbe
  imports Langs
begin

text \<open>
  What a probe says about a file's tracks: \<open>src/src/subarr/media_probe.py\<close> without the ffprobe
  subprocess. A stream is the decoded JSON object of ffprobe. The regular expressions over track titles
  are whole-word searches; text is Latin-1, so the patterns in other scripts never match.
\<close>

section \<open>Whole words in a title\<close>

definition word_char :: "char \<Rightarrow> bool" where
  "word_char c \<longleftrightarrow> (let n = code_of c in
     (48 \<le> n \<and> n \<le> 57) \<or> (65 \<le> n \<and> n \<le> 90) \<or> n = 95 \<or> (97 \<le> n \<and> n \<le> 122)
     \<or> n \<in> {170, 178, 179, 181, 185, 186, 188, 189, 190} \<or> (192 \<le> n \<and> n \<noteq> 215 \<and> n \<noteq> 247))"

definition word_ends :: "string \<Rightarrow> bool" where
  "word_ends s \<longleftrightarrow> (case s of [] \<Rightarrow> True | c # _ \<Rightarrow> \<not> word_char c)"

text \<open>\<open>word_from b w s\<close>: \<open>\bw\b\<close> is found in \<open>s\<close>, where \<open>b\<close> says whether a word may start here.\<close>

fun word_from :: "bool \<Rightarrow> string \<Rightarrow> string \<Rightarrow> bool" where
  "word_from b w [] = False"
| "word_from b w (c # cs) =
     ((b \<and> prefix w (c # cs) \<and> word_ends (drop (length w) (c # cs))) \<or> word_from (\<not> word_char c) w cs)"

definition has_word :: "string \<Rightarrow> string \<Rightarrow> bool" where
  "has_word w s = word_from True w (lower s)"

text \<open>\<open>first[\s-]?second\<close> between word boundaries.\<close>

definition phrase_at :: "string \<Rightarrow> string \<Rightarrow> string \<Rightarrow> bool" where
  "phrase_at v w s \<longleftrightarrow> prefix v s \<and>
     (let r = drop (length v) s;
          here = (\<lambda>t. prefix w t \<and> word_ends (drop (length w) t))
      in here r \<or> (case r of [] \<Rightarrow> False | c # t \<Rightarrow> (py_space c \<or> c = CHR ''-'') \<and> here t))"

fun phrase_from :: "bool \<Rightarrow> string \<Rightarrow> string \<Rightarrow> string \<Rightarrow> bool" where
  "phrase_from b v w [] = False"
| "phrase_from b v w (c # cs) = ((b \<and> phrase_at v w (c # cs)) \<or> phrase_from (\<not> word_char c) v w cs)"

definition has_phrase :: "string \<Rightarrow> string \<Rightarrow> string \<Rightarrow> bool" where
  "has_phrase v w s = phrase_from True v w (lower s)"

definition sdh_pattern :: "string \<Rightarrow> bool" where
  "sdh_pattern t \<longleftrightarrow> list_ex (\<lambda>w. has_word w t) [''sdh'', ''hi'', ''cc'', ''deaf'']
     \<or> has_phrase ''hearing'' ''impaired'' t \<or> has_phrase ''closed'' ''caption'' t"

definition forced_pattern :: "string \<Rightarrow> bool" where
  "forced_pattern t = has_word ''forced'' t"

text \<open>\<open>director'?s?\<close> before a boundary: an apostrophe already is one.\<close>

definition commentary_pattern :: "string \<Rightarrow> bool" where
  "commentary_pattern t = list_ex (\<lambda>w. has_word w t) [''commentary'', ''director'', ''directors'']"

section \<open>Streams\<close>

record ff_stream =
  ff_index :: int
  ff_type :: string
  ff_codec :: "string option"
  ff_language :: "string option"
  ff_title :: "string option"
  ff_default :: bool
  ff_forced :: bool
  ff_hearing_impaired :: bool
  ff_comment :: bool

record audio_stream =
  as_index :: int
  as_language :: "string option"
  as_codec :: "string option"
  as_title :: "string option"
  as_default :: bool

record subtitle_stream =
  ss_index :: int
  ss_language :: "string option"
  ss_codec :: "string option"
  ss_title :: "string option"
  ss_default :: bool
  ss_forced :: bool
  ss_sdh :: bool
  ss_commentary :: bool

record probe_result =
  pr_path :: string
  pr_audio :: "audio_stream list"
  pr_subtitles :: "subtitle_stream list"

text \<open>\<open>x or None\<close>.\<close>

definition none_if_empty :: "string option \<Rightarrow> string option" where
  "none_if_empty s = (if truthy_str s then s else None)"

definition lowered :: "string option \<Rightarrow> string" where
  "lowered s = lower (or_empty s)"

definition classify_subtitle :: "ff_stream \<Rightarrow> subtitle_stream" where
  "classify_subtitle s =
     (let title = or_empty (ff_title s) in
      \<lparr>ss_index = ff_index s, ss_language = none_if_empty (Some (lowered (ff_language s))), ss_codec = ff_codec s,
       ss_title = none_if_empty (Some title), ss_default = ff_default s,
       ss_forced = (ff_forced s \<or> forced_pattern title),
       ss_sdh = (ff_hearing_impaired s \<or> sdh_pattern title),
       ss_commentary = (ff_comment s \<or> commentary_pattern title)\<rparr>)"

definition classify_audio :: "ff_stream \<Rightarrow> audio_stream" where
  "classify_audio s =
     \<lparr>as_index = ff_index s, as_language = none_if_empty (Some (lowered (ff_language s))), as_codec = ff_codec s,
      as_title = none_if_empty (ff_title s), as_default = ff_default s\<rparr>"

definition parse_ffprobe_json :: "string \<Rightarrow> ff_stream list \<Rightarrow> probe_result" where
  "parse_ffprobe_json path streams =
     \<lparr>pr_path = path,
      pr_audio = map classify_audio (filter (\<lambda>s. ff_type s = ''audio'') streams),
      pr_subtitles = map classify_subtitle (filter (\<lambda>s. ff_type s = ''subtitle'') streams)\<rparr>"

section \<open>Subtitle tracks\<close>

definition english_tags :: "string list" where
  "english_tags = [''en'', ''eng'']"

definition image_subtitle_codecs :: "string list" where
  "image_subtitle_codecs = [''hdmv_pgs_subtitle'', ''pgssub'', ''dvd_subtitle'', ''dvdsub'', ''dvb_subtitle'', ''dvbsub'', ''xsub'']"

definition is_image_subtitle_codec :: "string option \<Rightarrow> bool" where
  "is_image_subtitle_codec codec \<longleftrightarrow> lower (strip (or_empty codec)) \<in> set image_subtitle_codecs"

definition english_stream :: "subtitle_stream \<Rightarrow> bool" where
  "english_stream s \<longleftrightarrow> lowered (ss_language s) \<in> set english_tags"

definition has_usable_embedded_english :: "probe_result \<Rightarrow> bool" where
  "has_usable_embedded_english r =
     list_ex (\<lambda>s. english_stream s \<and> \<not> ss_forced s \<and> \<not> ss_commentary s \<and> \<not> is_image_subtitle_codec (ss_codec s))
       (pr_subtitles r)"

definition has_forced_or_commentary_english :: "probe_result \<Rightarrow> bool" where
  "has_forced_or_commentary_english r \<longleftrightarrow>
     list_ex english_stream (pr_subtitles r) \<and> \<not> has_usable_embedded_english r"

datatype english_label = EN | EN_SDH | EN_forced | EN_commentary | EN_image

fun partial_label :: "subtitle_stream list \<Rightarrow> english_label option" where
  "partial_label [] = None"
| "partial_label (s # ss) =
     (if english_stream s \<and> ss_forced s then Some EN_forced
      else if english_stream s \<and> ss_commentary s then Some EN_commentary
      else if english_stream s \<and> is_image_subtitle_codec (ss_codec s) then Some EN_image
      else partial_label ss)"

definition english_track_summary :: "probe_result \<Rightarrow> english_label option" where
  "english_track_summary r =
     (let spoken = filter (\<lambda>s. english_stream s \<and> \<not> ss_forced s \<and> \<not> ss_commentary s) (pr_subtitles r) in
      if has_usable_embedded_english r then
        (if list_ex (\<lambda>s. \<not> ss_sdh s) spoken then Some EN
         else if list_ex ss_sdh spoken then Some EN_SDH else Some EN)
      else partial_label (pr_subtitles r))"

section \<open>Audio tracks\<close>

text \<open>\<open>x not in seen\<close> then append, in stream order.\<close>

definition add_once :: "'a \<Rightarrow> 'a list \<Rightarrow> 'a list" where
  "add_once x xs = (if x \<in> set xs then xs else xs @ [x])"

definition tag_or_und :: "string option \<Rightarrow> string" where
  "tag_or_und l = (let t = lowered l in if t = [] then ''und'' else t)"

definition audio_lang_summary :: "probe_result \<Rightarrow> string list" where
  "audio_lang_summary r = fold (\<lambda>a seen. add_once (tag_or_und (as_language a)) seen) (pr_audio r) []"

text \<open>The title words of \<open>_TITLE_LANG_HINTS\<close>, non-English languages in order.\<close>

definition title_hints :: "(string \<times> string list) list" where
  "title_hints =
     [(''fre'', [''french'', ''francais'', ''fran'' @ [char_of (231 :: nat)] @ ''ais'', ''vf'', ''vff'', ''vfq'', ''truefrench'']),
      (''spa'', [''spanish'', ''espanol'', ''espa'' @ [char_of (241 :: nat)] @ ''ol'', ''castellano'', ''latino'', ''spa'']),
      (''ger'', [''german'', ''deutsch'', ''ger'', ''de'']),
      (''ita'', [''italian'', ''italiano'', ''ita'']),
      (''rus'', [''russian'', ''rus'']),
      (''jpn'', [''japanese'', ''jap'', ''jpn'']),
      (''kor'', [''korean'', ''kor'']),
      (''chi'', [''chinese'', ''mandarin'', ''cantonese'', ''chi'', ''zh'']),
      (''por'', [''portuguese'', ''portugues'', ''portugu'' @ [char_of (234 :: nat)] @ ''s'', ''brazil'', ''br'', ''por'']),
      (''dut'', [''dutch'', ''nederlands'', ''ned'', ''nl'']),
      (''swe'', [''swedish'', ''svenska'', ''swe'']),
      (''nor'', [''norwegian'', ''norsk'', ''nor'']),
      (''dan'', [''danish'', ''dansk'', ''dan'']),
      (''fin'', [''finnish'', ''suomi'', ''fin'']),
      (''pol'', [''polish'', ''polski'', ''pol'']),
      (''ara'', [''arabic'', ''ar'']),
      (''hin'', [''hindi'', ''hin'']),
      (''tur'', [''turkish'', ''t'' @ [char_of (252 :: nat)] @ ''rk'', ''tur''])]"

definition parse_title_lang :: "string option \<Rightarrow> string option" where
  "parse_title_lang title =
     (if \<not> truthy_str title then None
      else (let t = lower (or_empty title) in
        case List.find (\<lambda>(_, ws). list_ex (\<lambda>w. has_word w t) ws) title_hints of
          Some (code, _) \<Rightarrow> Some code
        | None \<Rightarrow> if list_ex (\<lambda>w. has_word w t) [''english'', ''eng''] then Some ''eng'' else None))"

datatype title_note = Title_disagrees nat string string | Title_only nat string

definition title_step :: "nat \<times> string list \<times> title_note list \<Rightarrow> audio_stream \<Rightarrow> nat \<times> string list \<times> title_note list" where
  "title_step acc a =
     (case acc of (i, langs, notes) \<Rightarrow>
        (let tag = lowered (as_language a); title_lang = parse_title_lang (as_title a) in
         case title_lang of
           None \<Rightarrow> (i + 1, add_once (if tag = [] then ''und'' else tag) langs, notes)
         | Some hint \<Rightarrow>
             if hint = tag then (i + 1, add_once tag langs, notes)
             else (i + 1, add_once hint langs,
                   notes @ (if tag = [] then [Title_only i hint]
                            else if tag \<noteq> ''und'' then [Title_disagrees i tag hint] else []))))"

definition audio_lang_summary_with_titles :: "probe_result \<Rightarrow> string list \<times> title_note list" where
  "audio_lang_summary_with_titles r = snd (foldl title_step (0, [], []) (pr_audio r))"

section \<open>A default track that is not the original language\<close>

record track_mismatch =
  tm_default_lang :: string
  tm_native_lang :: string
  tm_native_ordinal :: nat
  tm_native_index :: int

definition known_lang :: "string option \<Rightarrow> bool" where
  "known_lang l \<longleftrightarrow> truthy_str l \<and> l \<noteq> Some ''und''"

fun native_track :: "string \<Rightarrow> nat \<Rightarrow> audio_stream list \<Rightarrow> (nat \<times> audio_stream) option" where
  "native_track orig i [] = None"
| "native_track orig i (a # as) =
     (if normalize_lang (as_language a) = Some orig then Some (i, a) else native_track orig (i + 1) as)"

definition default_stream :: "audio_stream list \<Rightarrow> audio_stream" where
  "default_stream streams = (case List.find as_default streams of Some a \<Rightarrow> a | None \<Rightarrow> hd streams)"

definition detect_default_track_mismatch :: "audio_stream list \<Rightarrow> string option \<Rightarrow> track_mismatch option" where
  "detect_default_track_mismatch streams original_language =
     (let orig = normalize_lang original_language in
      if \<not> truthy_str orig \<or> orig = Some ''en'' \<or> orig = Some ''und'' then None
      else if length streams < 2 then None
      else (let tagged = filter known_lang (map (\<lambda>a. normalize_lang (as_language a)) streams) in
        if length (remdups tagged) < 2 then None
        else (let default_lang = normalize_lang (as_language (default_stream streams)) in
          if \<not> truthy_str default_lang \<or> default_lang = Some ''und'' \<or> default_lang = orig then None
          else (case native_track (or_empty orig) 1 streams of
              None \<Rightarrow> None
            | Some (i, a) \<Rightarrow> Some \<lparr>tm_default_lang = or_empty default_lang, tm_native_lang = or_empty orig,
                                tm_native_ordinal = i, tm_native_index = as_index a\<rparr>))))"

section \<open>Properties\<close>

lemma partial_label_None:
  "(\<forall>s \<in> set ss. english_stream s \<longrightarrow> ss_forced s \<or> ss_commentary s \<or> is_image_subtitle_codec (ss_codec s))
   \<Longrightarrow> partial_label ss = None \<longleftrightarrow> \<not> list_ex english_stream ss"
  by (induction ss) auto

lemma partial_label_range: "partial_label ss \<noteq> Some EN \<and> partial_label ss \<noteq> Some EN_SDH"
  by (induction ss) auto

text \<open>The embedded-subtitle label says full English (plain or SDH) exactly when some English track
  is readable text that is neither forced nor commentary, a partial label exactly when English tracks
  exist but none of them is usable, and nothing exactly when no track is English.\<close>

theorem english_track_summary_exact:
  "(english_track_summary r \<in> {Some EN, Some EN_SDH} \<longleftrightarrow> has_usable_embedded_english r)
   \<and> (english_track_summary r \<in> {Some EN_forced, Some EN_commentary, Some EN_image} \<longleftrightarrow> has_forced_or_commentary_english r)
   \<and> (english_track_summary r = None \<longleftrightarrow> \<not> list_ex english_stream (pr_subtitles r))"
proof (cases "has_usable_embedded_english r")
  case True
  then have "english_track_summary r \<in> {Some EN, Some EN_SDH}"
    by (auto simp: english_track_summary_def Let_def)
  moreover have "list_ex english_stream (pr_subtitles r)"
    using True by (auto simp: has_usable_embedded_english_def list_ex_iff)
  ultimately show ?thesis
    using True by (auto simp: has_forced_or_commentary_english_def)
next
  case False
  then have "english_track_summary r = partial_label (pr_subtitles r)"
    by (simp add: english_track_summary_def Let_def)
  moreover have "partial_label (pr_subtitles r) = None \<longleftrightarrow> \<not> list_ex english_stream (pr_subtitles r)"
    using False by (intro partial_label_None) (auto simp: has_usable_embedded_english_def list_ex_iff)
  moreover have "l \<in> {Some EN_forced, Some EN_commentary, Some EN_image}"
    if "l \<noteq> None" "l \<noteq> Some EN" "l \<noteq> Some EN_SDH" for l
    using that by (cases l; simp) (metis english_label.exhaust)
  ultimately show ?thesis
    using False partial_label_range [of "pr_subtitles r"]
    by (auto simp: has_forced_or_commentary_english_def)
qed

lemma native_track_spec:
  "native_track orig i as = Some (k, a) \<Longrightarrow>
     i \<le> k \<and> k < i + length as \<and> as ! (k - i) = a \<and> normalize_lang (as_language a) = Some orig"
  by (induction as arbitrary: i) (fastforce split: if_splits simp: nth_Cons' Suc_diff_le)+

text \<open>A reported track mismatch is real: the reported ordinal is the position of an audio track
  tagged with the original language, which is known and not English, and it is not the default
  track, whose own known language differs from it.\<close>

theorem track_mismatch_sound:
  assumes "detect_default_track_mismatch streams original = Some m"
  shows "normalize_lang original = Some (tm_native_lang m) \<and> tm_native_lang m \<notin> {''en'', ''und'', []}
    \<and> 1 \<le> tm_native_ordinal m \<and> tm_native_ordinal m \<le> length streams
    \<and> normalize_lang (as_language (streams ! (tm_native_ordinal m - 1))) = Some (tm_native_lang m)
    \<and> normalize_lang (as_language (default_stream streams)) = Some (tm_default_lang m)
    \<and> tm_default_lang m \<noteq> tm_native_lang m
    \<and> streams ! (tm_native_ordinal m - 1) \<noteq> default_stream streams"
proof -
  define orig dl where "orig = normalize_lang original" and "dl = normalize_lang (as_language (default_stream streams))"
  from assms obtain k a where o: "truthy_str orig" "orig \<noteq> Some ''en''" "orig \<noteq> Some ''und''"
    and d: "truthy_str dl" "dl \<noteq> orig"
    and k: "native_track (or_empty orig) 1 streams = Some (k, a)"
    and m: "m = \<lparr>tm_default_lang = or_empty dl, tm_native_lang = or_empty orig, tm_native_ordinal = k, tm_native_index = as_index a\<rparr>"
    by (auto simp: detect_default_track_mismatch_def Let_def orig_def dl_def split: if_splits option.splits)
  from o d obtain x y where "orig = Some x" "x \<noteq> []" "dl = Some y"
    by (auto simp: truthy_str_def split: option.splits)
  with native_track_spec [OF k] o d m show ?thesis
    by (auto simp: orig_def [symmetric] dl_def [symmetric] or_empty_def)
qed

definition dubbed_tracks :: "audio_stream list" where
  "dubbed_tracks =
     [\<lparr>as_index = 1, as_language = Some ''ger'', as_codec = None, as_title = None, as_default = True\<rparr>,
      \<lparr>as_index = 2, as_language = Some ''rus'', as_codec = None, as_title = None, as_default = False\<rparr>]"

theorem track_mismatch_sound_witness:
  "normalize_lang (Some ''Russian'') = Some ''ru''
   \<and> normalize_lang (as_language (dubbed_tracks ! 1)) = Some ''ru''"
proof -
  have "detect_default_track_mismatch dubbed_tracks (Some ''Russian'')
      = Some \<lparr>tm_default_lang = ''de'', tm_native_lang = ''ru'', tm_native_ordinal = 2, tm_native_index = 2\<rparr>"
    by code_simp
  from track_mismatch_sound [OF this] show ?thesis by simp
qed

text \<open>A bitmap track beside a readable SDH track is labelled plain English, because the label search does
  not repeat the bitmap test.\<close>

lemma bitmap_hides_sdh:
  "english_track_summary (parse_ffprobe_json p
     [\<lparr>ff_index = 1, ff_type = ''subtitle'', ff_codec = Some ''dvd_subtitle'', ff_language = Some ''eng'', ff_title = None,
       ff_default = False, ff_forced = False, ff_hearing_impaired = False, ff_comment = False\<rparr>,
      \<lparr>ff_index = 2, ff_type = ''subtitle'', ff_codec = Some ''subrip'', ff_language = Some ''eng'', ff_title = None,
       ff_default = False, ff_forced = False, ff_hearing_impaired = True, ff_comment = False\<rparr>]) = Some EN"
  by code_simp

end
