(* ===== verification/ProbeStore.thy ===== *)
theory ProbeStore
  imports MediaProbe VerdictStore
begin

text \<open>
  The probe cache (\<open>src/src/subarr/probe_store.py\<close>): one row per probed file and one per file whose probe
  failed. The JSON columns are decoded values.
\<close>

section \<open>State\<close>

record probe_row =
  pb_path :: string
  pb_mtime :: pyfloat
  pb_size :: "int option"
  pb_duration :: "pyfloat option"
  pb_audio :: "audio_stream list"
  pb_subtitles :: "subtitle_stream list"
  pb_at :: pyfloat
  pb_source :: string

record failure_row =
  pf_path :: string
  pf_error :: string
  pf_at :: pyfloat
  pf_attempts :: nat

record probe_store =
  ps_rows :: "probe_row list"
  ps_failures :: "failure_row list"

definition hydrate :: "probe_row \<Rightarrow> probe_result" where
  "hydrate r = \<lparr>pr_path = pb_path r, pr_audio = pb_audio r, pr_subtitles = pb_subtitles r\<rparr>"

section \<open>Operations\<close>

definition get_probe :: "string \<Rightarrow> pyfloat option \<Rightarrow> int option \<Rightarrow> probe_store \<Rightarrow> probe_result option" where
  "get_probe path mtime bytes ps =
     (case row_find pb_path path (ps_rows ps) of
        None \<Rightarrow> None
      | Some r \<Rightarrow>
          if (case mtime of None \<Rightarrow> False | Some t \<Rightarrow> 1 < \<bar>t - pb_mtime r\<bar>) then None
          else if (case bytes of None \<Rightarrow> False | Some n \<Rightarrow> pb_size r \<noteq> Some n) then None
          else Some (hydrate r))"

text \<open>\<open>INSERT ... ON CONFLICT(key) DO UPDATE\<close>.\<close>

definition put_row :: "('r \<Rightarrow> string) \<Rightarrow> 'r \<Rightarrow> ('r \<Rightarrow> 'r) \<Rightarrow> 'r list \<Rightarrow> 'r list" where
  "put_row key row change rows =
     (if row_find key (key row) rows = None then rows @ [row] else rows_update key (key row) change rows)"

definition arr_source :: string where "arr_source = ''arr_mediainfo''"
definition ffprobe_source :: string where "ffprobe_source = ''ffprobe''"

definition probed_by_ffprobe :: "string \<Rightarrow> probe_store \<Rightarrow> bool" where
  "probed_by_ffprobe path ps \<longleftrightarrow>
     (case row_find pb_path path (ps_rows ps) of None \<Rightarrow> False | Some r \<Rightarrow> pb_source r = ffprobe_source)"

definition upsert_probe :: "probe_row \<Rightarrow> probe_store \<Rightarrow> probe_store" where
  "upsert_probe row ps =
     (if pb_source row = arr_source \<and> probed_by_ffprobe (pb_path row) ps then ps
      else ps\<lparr>ps_rows := put_row pb_path row (\<lambda>_. row) (ps_rows ps),
              ps_failures := rows_delete (\<lambda>f. pf_path f = pb_path row) (ps_failures ps)\<rparr>)"

definition record_probe_failure :: "pyfloat \<Rightarrow> string \<Rightarrow> string \<Rightarrow> probe_store \<Rightarrow> probe_store" where
  "record_probe_failure now path error ps =
     ps\<lparr>ps_failures := put_row pf_path \<lparr>pf_path = path, pf_error = take 500 error, pf_at = now, pf_attempts = 1\<rparr>
          (\<lambda>f. f\<lparr>pf_error := take 500 error, pf_at := now, pf_attempts := pf_attempts f + 1\<rparr>) (ps_failures ps)\<rparr>"

definition failed_probe_paths :: "probe_store \<Rightarrow> string list" where
  "failed_probe_paths ps = map pf_path (ps_failures ps)"

definition get_failure :: "string \<Rightarrow> probe_store \<Rightarrow> failure_row option" where
  "get_failure path ps = row_find pf_path path (ps_failures ps)"

definition count_by_source :: "probe_store \<Rightarrow> (string \<times> nat) list" where
  "count_by_source ps =
     map (\<lambda>s. (s, length (filter (\<lambda>r. pb_source r = s) (ps_rows ps)))) (remdups (map pb_source (ps_rows ps)))"

definition delete_probe :: "string \<Rightarrow> probe_store \<Rightarrow> bool \<times> probe_store" where
  "delete_probe path ps =
     (path \<in> pb_path ` set (ps_rows ps), ps\<lparr>ps_rows := rows_delete (\<lambda>r. pb_path r = path) (ps_rows ps)\<rparr>)"

definition sizes_for :: "string list \<Rightarrow> probe_store \<Rightarrow> (string \<times> int option) list" where
  "sizes_for paths ps =
     List.map_filter (\<lambda>p. map_option (\<lambda>r. (p, pb_size r)) (row_find pb_path p (ps_rows ps))) (rev (remdups (rev paths)))"

text \<open>Both statements of a move refuse to overwrite a row of the new path.\<close>

definition move_probe :: "string \<Rightarrow> string \<Rightarrow> probe_store \<Rightarrow> bool \<times> probe_store" where
  "move_probe old new ps =
     (if old \<notin> pb_path ` set (ps_rows ps) \<or> new \<in> pb_path ` set (ps_rows ps) then (False, ps)
      else (True, ps\<lparr>ps_rows := rows_update pb_path old (\<lambda>r. r\<lparr>pb_path := new\<rparr>) (ps_rows ps),
              ps_failures := (if new \<in> pf_path ` set (ps_failures ps) then ps_failures ps
                 else rows_update pf_path old (\<lambda>f. f\<lparr>pf_path := new\<rparr>) (ps_failures ps))\<rparr>))"

definition all_probe_paths :: "probe_store \<Rightarrow> string list" where
  "all_probe_paths ps = map pb_path (ps_rows ps)"

definition count_probes :: "probe_store \<Rightarrow> nat" where
  "count_probes ps = length (ps_rows ps)"

definition newest_probe :: "probe_store \<Rightarrow> probe_row option" where
  "newest_probe ps = (case sort_key (\<lambda>r. - pb_at r) (ps_rows ps) of [] \<Rightarrow> None | r # _ \<Rightarrow> Some r)"

definition discovered_summary :: "probe_store \<Rightarrow> nat \<times> (string \<times> int option \<times> pyfloat option) option" where
  "discovered_summary ps = (count_probes ps, map_option (\<lambda>r. (pb_path r, pb_size r, pb_duration r)) (newest_probe ps))"

definition all_entries :: "probe_store \<Rightarrow> probe_result list" where
  "all_entries ps = map hydrate (sort_key pb_path (ps_rows ps))"

section \<open>Invariant\<close>

text \<open>Both tables have the path as their primary key.\<close>

definition probe_store_ok :: "probe_store \<Rightarrow> bool" where
  "probe_store_ok ps \<longleftrightarrow> distinct (all_probe_paths ps) \<and> distinct (failed_probe_paths ps)"

inductive probe_step :: "probe_store \<Rightarrow> probe_store \<Rightarrow> bool" where
  upsert_step: "probe_step ps (upsert_probe row ps)"
| failure_step: "probe_step ps (record_probe_failure now path error ps)"
| delete_step: "probe_step ps (snd (delete_probe path ps))"
| move_step: "probe_step ps (snd (move_probe old new ps))"

inductive_cases probe_stepE: "probe_step ps ps'"

lemma put_row_keys:
  assumes "\<And>r. key r = key row \<Longrightarrow> key (change r) = key row" "distinct (map key rows)"
  shows "distinct (map key (put_row key row change rows)) \<and> set (map key (put_row key row change rows)) = insert (key row) (set (map key rows))"
proof (cases "row_find key (key row) rows = None")
  case True
  then show ?thesis using assms(2) by (simp add: put_row_def row_find_None)
next
  case False
  then have "key row \<in> set (map key rows)" by (simp add: row_find_None)
  moreover have "map key (put_row key row change rows) = map key rows"
    using assms(1) False by (simp add: put_row_def rows_update_def)
  ultimately show ?thesis using assms(2) by (simp only: insert_absorb simp_thms)
qed

lemma rekey_distinct:
  assumes "distinct (map key rows)" "new \<notin> key ` set rows" "\<And>r. key (f r) = new"
  shows "distinct (map key (rows_update key old f rows))"
proof -
  have "map key (rows_update key old f rows) = map (\<lambda>k. if k = old then new else k) (map key rows)"
    using assms(3) by (induction rows) (simp_all add: rows_update_def)
  then show ?thesis using assms(1,2) by (auto simp: distinct_map inj_on_def)
qed

lemma upsert_probe_ok: "probe_store_ok ps \<Longrightarrow> probe_store_ok (upsert_probe row ps)"
  using put_row_keys [of pb_path row "\<lambda>_. row" "ps_rows ps"]
  by (simp add: upsert_probe_def probe_store_ok_def all_probe_paths_def failed_probe_paths_def rows_delete_def distinct_map_filterI)

lemma record_probe_failure_ok: "probe_store_ok ps \<Longrightarrow> probe_store_ok (record_probe_failure now path error ps)"
  using put_row_keys [of pf_path "\<lparr>pf_path = path, pf_error = take 500 error, pf_at = now, pf_attempts = 1\<rparr>"
      "\<lambda>f. f\<lparr>pf_error := take 500 error, pf_at := now, pf_attempts := pf_attempts f + 1\<rparr>" "ps_failures ps"]
  by (simp add: record_probe_failure_def probe_store_ok_def all_probe_paths_def failed_probe_paths_def)

lemma delete_probe_ok: "probe_store_ok ps \<Longrightarrow> probe_store_ok (snd (delete_probe path ps))"
  by (simp add: delete_probe_def probe_store_ok_def all_probe_paths_def failed_probe_paths_def rows_delete_def distinct_map_filterI)

lemma move_probe_ok: "probe_store_ok ps \<Longrightarrow> probe_store_ok (snd (move_probe old new ps))"
  using rekey_distinct [of pb_path "ps_rows ps" new "\<lambda>r. r\<lparr>pb_path := new\<rparr>" old]
    rekey_distinct [of pf_path "ps_failures ps" new "\<lambda>f. f\<lparr>pf_path := new\<rparr>" old]
  by (auto simp: move_probe_def probe_store_ok_def all_probe_paths_def failed_probe_paths_def)

lemma probe_step_ok: "probe_step ps ps' \<Longrightarrow> probe_store_ok ps \<Longrightarrow> probe_store_ok ps'"
  by (erule probe_stepE) (simp_all add: upsert_probe_ok record_probe_failure_ok delete_probe_ok move_probe_ok)

text \<open>Along every run of the cache a path has at most one probe and at most one failure.\<close>

lemma probe_store_invariant: "probe_step\<^sup>*\<^sup>* ps ps' \<Longrightarrow> probe_store_ok ps \<Longrightarrow> probe_store_ok ps'"
  by (induction rule: rtranclp_induct) (blast intro: probe_step_ok)+

section \<open>What a lookup returns\<close>

lemma row_find_put_row:
  assumes "\<And>r. key r = key row \<Longrightarrow> key (change r) = key row"
  shows "row_find key k (put_row key row change rows) =
    (if k = key row then Some (case row_find key k rows of None \<Rightarrow> row | Some r \<Rightarrow> change r) else row_find key k rows)"
proof -
  have "row_find key k (rows_update key (key row) change rows)
      = (if k = key row then map_option change (row_find key k rows) else row_find key k rows)"
    using assms by (induction rows) (auto simp: row_find_def rows_update_def)
  moreover have "row_find key k (rows @ [row]) = (case row_find key k rows of None \<Rightarrow> if k = key row then Some row else None | Some r \<Rightarrow> Some r)"
    by (induction rows) (auto simp: row_find_def)
  ultimately show ?thesis by (auto simp: put_row_def split: option.split)
qed

text \<open>An ffprobe result always replaces what the cache knows, the media info of an arr service only what
  ffprobe has not seen; either way the last failure of the file is forgotten exactly when the row is
  written.\<close>

lemma probe_after_upsert:
  "get_probe path None None (upsert_probe row ps) =
     (if path = pb_path row \<and> \<not> (pb_source row = arr_source \<and> probed_by_ffprobe path ps) then Some (hydrate row)
      else get_probe path None None ps)"
  by (auto simp: upsert_probe_def get_probe_def row_find_put_row split: option.split)

end
