(* ===== verification/ProbeWalk.thy ===== *)
theory ProbeWalk
  imports Paths ProbeStore
begin

text \<open>
  The folder walker that fills the probe cache (\<open>src/src/subarr/probe_walker.py\<close>): one step per file, the
  walk of a root, the targeted walk over given paths, the registry that keeps walks from running twice,
  and the checks of probe roots. The files of a walk are handled concurrently; a walk is therefore run
  over any order of its files. The summaries written to the log are left out.
\<close>

section \<open>The disk and a walk\<close>

text \<open>What the walker sees of the disk: symbolic links, \<open>stat\<close>, the regular files below a directory, the
  entries of a directory with what \<open>is_dir\<close> says of them, ffprobe on a file, and the clock at the end of
  the probe of a path. Failures carry their texts.\<close>

record disk =
  dk_resolve :: "string list \<Rightarrow> string list"
  dk_libs :: "library list"
  dk_stat :: "string list \<Rightarrow> string + pyfloat \<times> int"
  dk_is_dir :: "string list \<Rightarrow> bool"
  dk_tree :: "string list \<Rightarrow> string list list"
  dk_entries :: "string list \<Rightarrow> (string \<times> bool option) list option"
  dk_probe :: "string list \<Rightarrow> string + (probe_result \<times> pyfloat option)"
  dk_clock :: "string \<Rightarrow> pyfloat"

datatype walk_status = Running | Walk_done | Walk_error | Walk_cancelled

datatype walk_error =
    Invalid_root string
  | Root_not_found string
  | Outside_root string
  | Stat_failed string string
  | Probe_failed string string
  | Walk_raised path_error

record walk_state =
  wk_root :: string
  wk_status :: walk_status
  wk_total :: nat
  wk_processed :: nat
  wk_cached :: nat
  wk_probed :: nat
  wk_recorded :: nat
  wk_errors :: "walk_error list"

definition new_walk :: "string \<Rightarrow> walk_state" where
  "new_walk rt = \<lparr>wk_root = rt, wk_status = Running, wk_total = 0, wk_processed = 0, wk_cached = 0, wk_probed = 0,
     wk_recorded = 0, wk_errors = []\<rparr>"

definition path_text :: "string list \<Rightarrow> string" where
  "path_text p = ''/'' @ join_with ''/'' p"

definition probed_row :: "disk \<Rightarrow> string \<Rightarrow> pyfloat \<times> int \<Rightarrow> probe_result \<times> pyfloat option \<Rightarrow> probe_row" where
  "probed_row dk canonical st found =
     \<lparr>pb_path = canonical, pb_mtime = fst st, pb_size = Some (snd st), pb_duration = snd found, pb_audio = pr_audio (fst found),
      pb_subtitles = pr_subtitles (fst found), pb_at = dk_clock dk canonical, pb_source = ffprobe_source\<rparr>"

definition probe_and_record ::
    "disk \<Rightarrow> string \<Rightarrow> string list \<Rightarrow> pyfloat \<times> int \<Rightarrow> walk_state \<times> probe_store \<Rightarrow> walk_state \<times> probe_store" where
  "probe_and_record dk canonical p st s =
     (case s of (ws, ps) \<Rightarrow>
        (case dk_probe dk p of
           Inr found \<Rightarrow>
             (ws\<lparr>wk_probed := wk_probed ws + 1, wk_processed := wk_processed ws + 1\<rparr>, upsert_probe (probed_row dk canonical st found) ps)
         | Inl e \<Rightarrow>
             (ws\<lparr>wk_errors := wk_errors ws @ [Probe_failed canonical e], wk_recorded := wk_recorded ws + 1,
                 wk_processed := wk_processed ws + 1\<rparr>, record_probe_failure (dk_clock dk canonical) canonical e ps)))"

definition count_error :: "walk_error \<Rightarrow> walk_state \<Rightarrow> walk_state" where
  "count_error e ws = ws\<lparr>wk_errors := wk_errors ws @ [e], wk_processed := wk_processed ws + 1\<rparr>"

definition count_hit :: "walk_state \<Rightarrow> walk_state" where
  "count_hit ws = ws\<lparr>wk_cached := wk_cached ws + 1, wk_processed := wk_processed ws + 1\<rparr>"

section \<open>The walk of a root\<close>

definition walk_videos :: "disk \<Rightarrow> string list \<Rightarrow> string list list" where
  "walk_videos dk fs = filter (\<lambda>p. p \<noteq> [] \<and> is_video_name (last p)) (dk_tree dk fs)"

text \<open>A file outside every library raises out of its step: the walk ends in error there and then, while
  the steps of the other files go on.\<close>

definition walk_one :: "disk \<Rightarrow> string list \<Rightarrow> walk_state \<times> probe_store \<Rightarrow> walk_state \<times> probe_store" where
  "walk_one dk p s =
     (case s of (ws, ps) \<Rightarrow>
        (case dk_stat dk p of
           Inl e \<Rightarrow> (count_error (Stat_failed (path_text p) e) ws, ps)
         | Inr st \<Rightarrow>
             (case fs_to_canonical (dk_resolve dk) (dk_libs dk) p of
                Inl bad \<Rightarrow>
                  (if wk_status ws = Running then ws\<lparr>wk_status := Walk_error, wk_errors := wk_errors ws @ [Walk_raised bad]\<rparr> else ws, ps)
              | Inr canonical \<Rightarrow>
                  if get_probe canonical (Some (fst st)) (Some (snd st)) ps \<noteq> None then (count_hit ws, ps)
                  else probe_and_record dk canonical p st (ws, ps))))"

definition finish_walk :: "walk_state \<Rightarrow> walk_state" where
  "finish_walk ws = (if wk_status ws = Running then ws\<lparr>wk_status := Walk_done\<rparr> else ws)"

definition run_walk :: "disk \<Rightarrow> string list list \<Rightarrow> walk_state \<times> probe_store \<Rightarrow> walk_state \<times> probe_store" where
  "run_walk dk order s =
     (case s of (ws, ps) \<Rightarrow>
        (case canonical_to_fs (dk_resolve dk) (dk_libs dk) (wk_root ws) of
           Inl _ \<Rightarrow> (ws\<lparr>wk_status := Walk_error, wk_errors := wk_errors ws @ [Invalid_root (wk_root ws)]\<rparr>, ps)
         | Inr fs \<Rightarrow>
             if \<not> dk_is_dir dk fs then (ws\<lparr>wk_status := Walk_error, wk_errors := wk_errors ws @ [Root_not_found (wk_root ws)]\<rparr>, ps)
             else apfst finish_walk (fold (walk_one dk) order (ws\<lparr>wk_total := length (walk_videos dk fs)\<rparr>, ps))))"

section \<open>The targeted walk\<close>

definition targets_of :: "string list \<Rightarrow> string list" where
  "targets_of paths = filter (\<lambda>c. c \<noteq> []) (rev (remdups (rev paths)))"

definition target_one :: "disk \<Rightarrow> bool \<Rightarrow> string \<Rightarrow> walk_state \<times> probe_store \<Rightarrow> walk_state \<times> probe_store" where
  "target_one dk force canonical s =
     (case s of (ws, ps) \<Rightarrow>
        (case canonical_to_fs (dk_resolve dk) (dk_libs dk) canonical of
           Inl _ \<Rightarrow> (count_error (Outside_root canonical) ws, ps)
         | Inr p \<Rightarrow>
             (case dk_stat dk p of
                Inl e \<Rightarrow> (count_error (Stat_failed canonical e) ws, ps)
              | Inr st \<Rightarrow>
                  if \<not> force \<and> get_probe canonical (Some (fst st)) (Some (snd st)) ps \<noteq> None then (count_hit ws, ps)
                  else probe_and_record dk canonical p st (ws, ps))))"

definition run_targeted :: "disk \<Rightarrow> bool \<Rightarrow> string list \<Rightarrow> walk_state \<times> probe_store \<Rightarrow> walk_state \<times> probe_store" where
  "run_targeted dk force order s =
     (case s of (ws, ps) \<Rightarrow> apfst finish_walk (fold (target_one dk force) order (ws\<lparr>wk_total := length order\<rparr>, ps)))"

section \<open>The registry\<close>

definition eager_label :: string where "eager_label = ''__eager__''"

type_synonym walks = "(string \<times> walk_state) list"

definition running_walk :: "string \<Rightarrow> walks \<Rightarrow> (string \<times> walk_state) option" where
  "running_walk rt ws = List.find (\<lambda>(_, w). wk_root w = rt \<and> wk_status w = Running) ws"

text \<open>The id of the walk to follow, and the registry; a new walk starts only when none of its root runs.\<close>

definition start_walk :: "string \<Rightarrow> string \<Rightarrow> walks \<Rightarrow> string \<times> walks" where
  "start_walk fresh rt ws =
     (case running_walk rt ws of Some (i, _) \<Rightarrow> (i, ws) | None \<Rightarrow> (fresh, AList.update fresh (new_walk rt) ws))"

definition probe_paths :: "string \<Rightarrow> string list \<Rightarrow> walks \<Rightarrow> string \<times> string list option \<times> walks" where
  "probe_paths fresh paths ws =
     (case running_walk eager_label ws of
        Some (i, _) \<Rightarrow> (i, None, ws)
      | None \<Rightarrow> (fresh, Some (targets_of paths), AList.update fresh (new_walk eager_label) ws))"

section \<open>Probe roots\<close>

datatype root_problem = Unknown_library string | Path_escapes string | No_root string

definition check_probe_root :: "disk \<Rightarrow> string \<Rightarrow> string \<times> root_problem option" where
  "check_probe_root dk given =
     (let raw = strip given;
          slugged = prefix ''@'' raw
      in case canonical_to_fs (dk_resolve dk) (dk_libs dk) (if slugged then raw else strip_char (CHR ''/'') raw) of
           Inl _ \<Rightarrow> (raw, Some (if slugged then Unknown_library raw else Path_escapes raw))
         | Inr fs \<Rightarrow> (raw, if dk_is_dir dk fs then None else Some (No_root raw)))"

definition offered_folders :: "disk \<Rightarrow> string \<Rightarrow> string list" where
  "offered_folders dk rt =
     (case canonical_to_fs (dk_resolve dk) (dk_libs dk) rt of
        Inl _ \<Rightarrow> []
      | Inr fs \<Rightarrow>
          map fst (filter (\<lambda>(n, d). d = Some True \<and> \<not> prefix ''.'' n)
            (sort_key (\<lambda>(n, _). lower n) (case dk_entries dk fs of None \<Rightarrow> [] | Some es \<Rightarrow> es))))"

definition suggest_probe_roots :: "disk \<Rightarrow> string list" where
  "suggest_probe_roots dk = offered_folders dk []"

record library_roots =
  lr_slug :: string
  lr_name :: string
  lr_root :: string
  lr_roots :: "string list"

definition suggest_probe_roots_by_library :: "disk \<Rightarrow> library_roots list" where
  "suggest_probe_roots_by_library dk =
     map (\<lambda>lib.
       let slug = lib_slug lib; rt = (if slug \<noteq> [] then ''@'' @ slug else [])
       in \<lparr>lr_slug = slug, lr_name = or_str (lib_name lib) (if slug = [] then ''default'' else slug), lr_root = rt,
           lr_roots = map (\<lambda>n. if slug \<noteq> [] then ''@'' @ slug @ ''/'' @ n else n) (offered_folders dk rt)\<rparr>)
       (dk_libs dk)"

section \<open>What a targeted walk leaves behind\<close>

datatype fate = Unreached walk_error | Kept | Refreshed probe_row | Unprobed string

definition fate_of :: "disk \<Rightarrow> bool \<Rightarrow> probe_store \<Rightarrow> string \<Rightarrow> fate" where
  "fate_of dk force ps c =
     (case canonical_to_fs (dk_resolve dk) (dk_libs dk) c of
        Inl _ \<Rightarrow> Unreached (Outside_root c)
      | Inr p \<Rightarrow>
          (case dk_stat dk p of
             Inl e \<Rightarrow> Unreached (Stat_failed c e)
           | Inr st \<Rightarrow>
               if \<not> force \<and> get_probe c (Some (fst st)) (Some (snd st)) ps \<noteq> None then Kept
               else (case dk_probe dk p of Inl e \<Rightarrow> Unprobed e | Inr found \<Rightarrow> Refreshed (probed_row dk c st found))))"

fun row_after :: "fate \<Rightarrow> probe_row option \<Rightarrow> probe_row option" where
  "row_after (Refreshed row) old = Some row"
| "row_after _ old = old"

fun failure_after :: "pyfloat \<Rightarrow> string \<Rightarrow> fate \<Rightarrow> failure_row option \<Rightarrow> failure_row option" where
  "failure_after now c (Refreshed row) old = None"
| "failure_after now c (Unprobed e) old =
     Some \<lparr>pf_path = c, pf_error = take 500 e, pf_at = now, pf_attempts = (case old of None \<Rightarrow> 1 | Some f \<Rightarrow> pf_attempts f + 1)\<rparr>"
| "failure_after now c _ old = old"

definition is_kept :: "fate \<Rightarrow> bool" where "is_kept f \<longleftrightarrow> f = Kept"
definition is_refreshed :: "fate \<Rightarrow> bool" where "is_refreshed f \<longleftrightarrow> (case f of Refreshed _ \<Rightarrow> True | _ \<Rightarrow> False)"
definition is_unprobed :: "fate \<Rightarrow> bool" where "is_unprobed f \<longleftrightarrow> (case f of Unprobed _ \<Rightarrow> True | _ \<Rightarrow> False)"

lemmas fate_tests = is_kept_def is_refreshed_def is_unprobed_def

lemma target_one_fate:
  "target_one dk force c (ws, ps) =
     (case fate_of dk force ps c of
        Unreached e \<Rightarrow> (count_error e ws, ps)
      | Kept \<Rightarrow> (count_hit ws, ps)
      | Refreshed row \<Rightarrow> (ws\<lparr>wk_probed := wk_probed ws + 1, wk_processed := wk_processed ws + 1\<rparr>, upsert_probe row ps)
      | Unprobed e \<Rightarrow> (ws\<lparr>wk_errors := wk_errors ws @ [Probe_failed c e], wk_recorded := wk_recorded ws + 1,
            wk_processed := wk_processed ws + 1\<rparr>, record_probe_failure (dk_clock dk c) c e ps))"
  by (simp add: target_one_def fate_of_def probe_and_record_def split: sum.split)

lemma fate_row: "fate_of dk force ps c = Refreshed row \<Longrightarrow> pb_path row = c \<and> pb_source row = ffprobe_source"
  by (auto simp: fate_of_def probed_row_def split: sum.splits if_splits)

lemma fate_cong: "row_find pb_path c (ps_rows ps) = row_find pb_path c (ps_rows ps') \<Longrightarrow> fate_of dk force ps c = fate_of dk force ps' c"
proof -
  assume "row_find pb_path c (ps_rows ps) = row_find pb_path c (ps_rows ps')"
  then have "get_probe c m n ps = get_probe c m n ps'" for m n by (simp add: get_probe_def)
  then show ?thesis by (simp only: fate_of_def)
qed

lemma row_find_delete: "row_find key k (rows_delete (\<lambda>r. key r = j) rows) = (if k = j then None else row_find key k rows)"
  by (induction rows) (auto simp: row_find_def rows_delete_def)

lemma upsert_ffprobe:
  "pb_source row = ffprobe_source \<Longrightarrow>
     row_find pb_path d (ps_rows (upsert_probe row ps)) = (if d = pb_path row then Some row else row_find pb_path d (ps_rows ps))
     \<and> row_find pf_path d (ps_failures (upsert_probe row ps)) = (if d = pb_path row then None else row_find pf_path d (ps_failures ps))"
  by (auto simp: upsert_probe_def arr_source_def ffprobe_source_def row_find_put_row row_find_delete split: option.split)

lemma failure_recorded:
  "row_find pf_path d (ps_failures (record_probe_failure now c e ps)) =
     (if d = c then Some \<lparr>pf_path = c, pf_error = take 500 e, pf_at = now,
        pf_attempts = (case row_find pf_path c (ps_failures ps) of None \<Rightarrow> 1 | Some f \<Rightarrow> pf_attempts f + 1)\<rparr>
      else row_find pf_path d (ps_failures ps))"
  by (auto simp: record_probe_failure_def row_find_put_row dest: row_find_Some split: option.split)

lemma failure_keeps_rows: "ps_rows (record_probe_failure now c e ps) = ps_rows ps"
  by (simp add: record_probe_failure_def)

lemma target_one_store:
  assumes "target_one dk force c (ws, ps) = (ws', ps')"
  shows "row_find pb_path d (ps_rows ps') = (if d = c then row_after (fate_of dk force ps c) (row_find pb_path c (ps_rows ps)) else row_find pb_path d (ps_rows ps))"
    and "row_find pf_path d (ps_failures ps') = (if d = c then failure_after (dk_clock dk c) c (fate_of dk force ps c) (row_find pf_path c (ps_failures ps)) else row_find pf_path d (ps_failures ps))"
  using assms fate_row [of dk force ps c] upsert_ffprobe [of _ d ps]
  by (auto simp: target_one_fate failure_recorded failure_keeps_rows split: fate.splits)

lemma target_one_counts:
  assumes "target_one dk force c (ws, ps) = (ws', ps')"
  shows "wk_status ws' = wk_status ws \<and> wk_total ws' = wk_total ws \<and> wk_root ws' = wk_root ws
    \<and> wk_processed ws' = wk_processed ws + 1
    \<and> wk_cached ws' = wk_cached ws + of_bool (is_kept (fate_of dk force ps c))
    \<and> wk_probed ws' = wk_probed ws + of_bool (is_refreshed (fate_of dk force ps c))
    \<and> wk_recorded ws' = wk_recorded ws + of_bool (is_unprobed (fate_of dk force ps c))
    \<and> wk_cached ws' + wk_probed ws' + length (wk_errors ws') = wk_cached ws + wk_probed ws + length (wk_errors ws) + 1"
  using assms by (auto simp: target_one_fate fate_tests count_error_def count_hit_def split: fate.splits)

definition counted :: "(fate \<Rightarrow> bool) \<Rightarrow> disk \<Rightarrow> bool \<Rightarrow> probe_store \<Rightarrow> string list \<Rightarrow> nat" where
  "counted P dk force ps order = length (filter (\<lambda>c. P (fate_of dk force ps c)) order)"

lemma targets_fold:
  assumes "distinct order" "fold (target_one dk force) order (ws, ps) = (ws', ps')"
  shows "(\<forall>d. row_find pb_path d (ps_rows ps') = (if d \<in> set order then row_after (fate_of dk force ps d) (row_find pb_path d (ps_rows ps)) else row_find pb_path d (ps_rows ps)))
    \<and> (\<forall>d. row_find pf_path d (ps_failures ps') = (if d \<in> set order then failure_after (dk_clock dk d) d (fate_of dk force ps d) (row_find pf_path d (ps_failures ps)) else row_find pf_path d (ps_failures ps)))
    \<and> wk_status ws' = wk_status ws \<and> wk_total ws' = wk_total ws
    \<and> wk_processed ws' = wk_processed ws + length order
    \<and> wk_cached ws' = wk_cached ws + counted is_kept dk force ps order
    \<and> wk_probed ws' = wk_probed ws + counted is_refreshed dk force ps order
    \<and> wk_recorded ws' = wk_recorded ws + counted is_unprobed dk force ps order
    \<and> wk_cached ws' + wk_probed ws' + length (wk_errors ws') = wk_cached ws + wk_probed ws + length (wk_errors ws) + length order"
  using assms
proof (induction order arbitrary: ws ps)
  case Nil
  then show ?case by (simp add: counted_def)
next
  case (Cons c order)
  obtain ws1 ps1 where one: "target_one dk force c (ws, ps) = (ws1, ps1)" by fastforce
  have rest: "fold (target_one dk force) order (ws1, ps1) = (ws', ps')" using Cons.prems(2) one by simp
  have other: "fate_of dk force ps1 d = fate_of dk force ps d" if "d \<in> set order" for d
    using that Cons.prems(1) target_one_store(1) [OF one, of d] by (auto intro!: fate_cong)
  have counts: "counted P dk force ps1 order = counted P dk force ps order" for P
    using other by (auto simp: counted_def intro!: arg_cong [of _ _ length] filter_cong)
  from Cons.IH [OF _ rest] Cons.prems(1)
  show ?case using target_one_store [OF one] target_one_counts [OF one] other counts
    by (auto simp: counted_def)
qed

lemma targets_distinct: "distinct (targets_of paths)" and targets_set: "set (targets_of paths) = set paths - {[]}"
  by (auto simp: targets_of_def)

text \<open>A targeted walk ends and treats every distinct path once, whatever the order its files finish in:
  a reachable path without a valid entry (with \<open>force\<close>, any reachable path) is probed, a successful probe
  becomes its row and clears its failure, a failed one is recorded and leaves the old row, and every
  other path keeps both; the counters of the walk add up to the number of paths.\<close>

theorem targeted_walk_probes_each:
  assumes order: "mset order = mset (targets_of paths)"
    and run: "run_targeted dk force order (new_walk eager_label, ps) = (ws', ps')"
  shows "(\<forall>c. row_find pb_path c (ps_rows ps') =
           (if c \<in> set paths \<and> c \<noteq> [] then row_after (fate_of dk force ps c) (row_find pb_path c (ps_rows ps)) else row_find pb_path c (ps_rows ps)))
    \<and> (\<forall>c. row_find pf_path c (ps_failures ps') =
           (if c \<in> set paths \<and> c \<noteq> [] then failure_after (dk_clock dk c) c (fate_of dk force ps c) (row_find pf_path c (ps_failures ps))
            else row_find pf_path c (ps_failures ps)))
    \<and> wk_status ws' = Walk_done \<and> wk_total ws' = card (set paths - {[]}) \<and> wk_processed ws' = wk_total ws'
    \<and> wk_cached ws' + wk_probed ws' + length (wk_errors ws') = wk_total ws'
    \<and> wk_probed ws' = card {c \<in> set paths - {[]}. is_refreshed (fate_of dk force ps c)}
    \<and> wk_recorded ws' = card {c \<in> set paths - {[]}. is_unprobed (fate_of dk force ps c)}"
proof -
  have set: "set order = set paths - {[]}" using mset_eq_setD [OF order] by (simp add: targets_set)
  have dist: "distinct order" using order targets_distinct mset_eq_imp_distinct_iff by blast
  have len: "length order = card (set paths - {[]})" using distinct_card [OF dist] set by simp
  have counted: "counted P dk force ps order = card {c \<in> set paths - {[]}. P (fate_of dk force ps c)}" for P
    using distinct_card [OF distinct_filter [OF dist, of "\<lambda>c. P (fate_of dk force ps c)"]] by (simp add: counted_def set)
  define w0 where "w0 = new_walk eager_label"
  obtain w where fold: "fold (target_one dk force) order (w0\<lparr>wk_total := length order\<rparr>, ps) = (w, ps')" and w: "ws' = finish_walk w"
    using run by (cases "fold (target_one dk force) order (w0\<lparr>wk_total := length order\<rparr>, ps)")
      (simp add: run_targeted_def w0_def)
  note facts = targets_fold [OF dist fold, unfolded counted set len]
  show ?thesis using facts by (simp add: w finish_walk_def w0_def new_walk_def)
qed

definition demo_disk :: disk where
  "demo_disk = \<lparr>dk_resolve = (\<lambda>p. p), dk_libs = [default_library],
     dk_stat = (\<lambda>p. if p = [''media'', ''b.mkv''] then Inl ''no such file'' else Inr (10, 700)),
     dk_is_dir = (\<lambda>p. p = [''media'']), dk_tree = (\<lambda>_. []), dk_entries = (\<lambda>_. None),
     dk_probe = (\<lambda>p. if p = [''media'', ''c.mkv''] then Inl ''ffprobe exit 1'' else Inr (\<lparr>pr_path = [], pr_audio = [], pr_subtitles = []\<rparr>, Some 60)),
     dk_clock = (\<lambda>_. 100)\<rparr>"

definition demo_cache :: probe_store where
  "demo_cache = \<lparr>ps_rows = [], ps_failures = [\<lparr>pf_path = ''a.mkv'', pf_error = ''old'', pf_at = 1, pf_attempts = 2\<rparr>]\<rparr>"

lemma demo_fates:
  "fate_of demo_disk False demo_cache ''a.mkv'' = Refreshed (probed_row demo_disk ''a.mkv'' (10, 700) (\<lparr>pr_path = [], pr_audio = [], pr_subtitles = []\<rparr>, Some 60))"
  "fate_of demo_disk False demo_cache ''b.mkv'' = Unreached (Stat_failed ''b.mkv'' ''no such file'')"
  "fate_of demo_disk False demo_cache ''c.mkv'' = Unprobed ''ffprobe exit 1''"
  by code_simp+

lemma demo_no_failure: "row_find pf_path ''c.mkv'' (ps_failures demo_cache) = None"
  by code_simp

lemma targeted_walk_probes_each_witness:
  "case run_targeted demo_disk False [''c.mkv'', ''b.mkv'', ''a.mkv''] (new_walk eager_label, demo_cache) of
     (ws', ps') \<Rightarrow> wk_status ws' = Walk_done \<and> wk_processed ws' = 3 \<and> row_find pf_path ''a.mkv'' (ps_failures ps') = None
       \<and> map_option pf_attempts (row_find pf_path ''c.mkv'' (ps_failures ps')) = Some 1"
proof -
  obtain ws' ps' where run: "run_targeted demo_disk False [''c.mkv'', ''b.mkv'', ''a.mkv''] (new_walk eager_label, demo_cache) = (ws', ps')"
    by fastforce
  have order: "mset [''c.mkv'', ''b.mkv'', ''a.mkv''] = mset (targets_of [''a.mkv'', [], ''b.mkv'', ''a.mkv'', ''c.mkv''])"
    by (simp add: targets_of_def)
  note facts = targeted_walk_probes_each [OF order run]
  have "set [''a.mkv'', [], ''b.mkv'', ''a.mkv'', ''c.mkv''] - {[]} = {''a.mkv'', ''b.mkv'', ''c.mkv''}" by auto
  then have "wk_processed ws' = 3" using facts by simp
  moreover have "row_find pf_path ''a.mkv'' (ps_failures ps') = None" using facts by (simp add: demo_fates)
  moreover have "map_option pf_attempts (row_find pf_path ''c.mkv'' (ps_failures ps')) = Some 1"
    using facts demo_no_failure by (simp add: demo_fates)
  ultimately show ?thesis using facts run by simp
qed

section \<open>One file outside the libraries\<close>

lemma walk_one_status: "wk_status ws = Walk_error \<Longrightarrow> wk_status (fst (walk_one dk p (ws, ps))) = Walk_error"
  by (simp add: walk_one_def count_error_def count_hit_def probe_and_record_def split: sum.split)

lemma walk_one_running:
  "wk_status ws = Running \<Longrightarrow> wk_status (fst (walk_one dk p (ws, ps))) \<in> {Running, Walk_error}"
  by (simp add: walk_one_def count_error_def count_hit_def probe_and_record_def split: sum.split)

lemma walk_stays_error: "wk_status ws = Walk_error \<Longrightarrow> wk_status (fst (fold (walk_one dk) order (ws, ps))) = Walk_error"
proof (induction order arbitrary: ws ps)
  case (Cons r rs)
  then show ?case using walk_one_status [of ws dk r ps] by (cases "walk_one dk r (ws, ps)") simp
qed simp

text \<open>A symbolic link below the root whose target lies in no library makes the whole walk end in error, in
  whatever order its files finish.\<close>

lemma escaping_link_fails_walk:
  assumes "p \<in> set order" "dk_stat dk p = Inr st" "fs_to_canonical (dk_resolve dk) (dk_libs dk) p = Inl bad"
    and "wk_status ws \<in> {Running, Walk_error}"
  shows "wk_status (fst (fold (walk_one dk) order (ws, ps))) = Walk_error"
  using assms(1,4)
proof (induction order arbitrary: ws ps)
  case (Cons q order)
  obtain ws1 ps1 where one: "walk_one dk q (ws, ps) = (ws1, ps1)" by fastforce
  have ok: "wk_status ws1 \<in> {Running, Walk_error}"
    using Cons.prems(2) walk_one_running [of ws dk q ps] walk_one_status [of ws dk q ps] one by auto
  show ?case
  proof (cases "p \<in> set order")
    case True
    with Cons.IH [OF _ ok] one show ?thesis by simp
  next
    case False
    then have "q = p" using Cons.prems(1) by simp
    then have "wk_status ws1 = Walk_error" using one assms(2,3) Cons.prems(2) by (auto simp: walk_one_def)
    then show ?thesis using one walk_stays_error [of ws1 dk order ps1] by simp
  qed
qed simp

section \<open>No walk runs twice\<close>

definition running_roots :: "walks \<Rightarrow> string list" where
  "running_roots ws = map (\<lambda>(_, w). wk_root w) (filter (\<lambda>(_, w). wk_status w = Running) ws)"

lemma running_roots_simps:
  "running_roots [] = []" "running_roots (as @ bs) = running_roots as @ running_roots bs"
  "running_roots ((i, w) # ws) = (if wk_status w = Running then wk_root w # running_roots ws else running_roots ws)"
  by (simp_all add: running_roots_def)

inductive registry_step :: "walks \<Rightarrow> walks \<Rightarrow> bool" where
  "fresh \<notin> fst ` set ws \<Longrightarrow> registry_step ws (snd (start_walk fresh rt ws))"
| "fresh \<notin> fst ` set ws \<Longrightarrow> registry_step ws (snd (snd (probe_paths fresh paths ws)))"
| "ws = as @ (i, w) # bs \<Longrightarrow> wk_root w' = wk_root w \<Longrightarrow> (wk_status w' = Running \<longrightarrow> wk_status w = Running) \<Longrightarrow>
     registry_step ws (as @ (i, w') # bs)"

inductive_cases registry_stepE: "registry_step ws ws'"

lemma update_fresh: "fresh \<notin> fst ` set ws \<Longrightarrow> AList.update fresh w ws = ws @ [(fresh, w)]"
  by (induction ws) auto

lemma running_walk_None: "running_walk rt ws = None \<longleftrightarrow> rt \<notin> set (running_roots ws)"
  by (auto simp: running_walk_def running_roots_def find_NoneD image_iff)

text \<open>Along every run of the walker a root has at most one running walk, and so have the eager targets.\<close>

lemma one_walk_per_root: "registry_step\<^sup>*\<^sup>* [] ws \<Longrightarrow> distinct (running_roots ws)"
proof (induction rule: rtranclp_induct)
  case (step ws ws')
  from step(2,3) show ?case
    by (elim registry_stepE)
      (auto simp: start_walk_def probe_paths_def update_fresh new_walk_def running_walk_None running_roots_simps split: option.split if_splits)
qed (simp add: running_roots_simps)

end
