(* ===== verification/ArrMediainfo.thy ===== *)
theory ArrMediainfo
  imports ProbeWalk Decimal
begin

text \<open>
  Filling the probe cache from the media info of Sonarr and Radarr (\<open>src/src/subarr/arr_mediainfo.py\<close>):
  the two parsers, the translation of a file row, and the pass over the rows with its statistics. The
  HTTP calls that list the rows are arguments.
\<close>

section \<open>Parsers\<close>

definition split_arr_langs :: "string option \<Rightarrow> string list" where
  "split_arr_langs s =
     (if \<not> truthy_str s then []
      else map (\<lambda>tok. lower (strip tok)) (filter (\<lambda>tok. strip tok \<noteq> []) (split_on (CHR ''/'') (or_empty s))))"

datatype runtime_field = No_runtime | Runtime_number pyfloat | Runtime_text string | Runtime_other

definition all_digits :: "string \<Rightarrow> bool" where
  "all_digits s \<longleftrightarrow> s \<noteq> [] \<and> list_all ascii_digit s"

definition two_digits :: "string \<Rightarrow> bool" where
  "two_digits s \<longleftrightarrow> length s = 2 \<and> list_all ascii_digit s"

text \<open>\<open>(\d+)(?:\.\d+)?\<close>: the digits before the dot.\<close>

definition whole_part :: "string \<Rightarrow> string option" where
  "whole_part s =
     (case partition_at (CHR ''.'') s of
        (a, dot, b) \<Rightarrow> if all_digits a \<and> (dot \<longrightarrow> all_digits b) then Some a else None)"

definition parse_runtime :: "runtime_field \<Rightarrow> pyfloat option" where
  "parse_runtime rt =
     (case rt of
        No_runtime \<Rightarrow> None
      | Runtime_other \<Rightarrow> None
      | Runtime_number n \<Rightarrow> Some (n * 60)
      | Runtime_text s \<Rightarrow>
          (case split_on (CHR '':'') (strip s) of
             [h, m, sec] \<Rightarrow>
               if all_digits h \<and> two_digits m \<and> two_digits sec
               then Some (of_nat (undec h * 3600 + undec m * 60 + undec sec)) else None
           | [m, sec] \<Rightarrow> if all_digits m \<and> two_digits sec then Some (of_nat (undec m * 60 + undec sec)) else None
           | [x] \<Rightarrow> map_option (\<lambda>a. of_nat (undec a)) (whole_part x)
           | _ \<Rightarrow> None))"

section \<open>One row\<close>

record media_info =
  mi_audio :: "string option"
  mi_subtitles :: "string option"
  mi_runtime :: runtime_field

record arr_file =
  af_path :: "string option"
  af_info :: "media_info option"
  af_size :: "int option"

definition info_of :: "arr_file \<Rightarrow> media_info" where
  "info_of row = (case af_info row of None \<Rightarrow> \<lparr>mi_audio = None, mi_subtitles = None, mi_runtime = No_runtime\<rparr> | Some mi \<Rightarrow> mi)"

definition arr_audio :: "nat \<times> string \<Rightarrow> audio_stream" where
  "arr_audio il = (case il of (i, lang) \<Rightarrow>
     \<lparr>as_index = int i, as_language = Some lang, as_codec = None, as_title = None, as_default = (i = 0)\<rparr>)"

definition arr_subtitle :: "nat \<times> string \<Rightarrow> subtitle_stream" where
  "arr_subtitle il = (case il of (i, lang) \<Rightarrow>
     \<lparr>ss_index = int i, ss_language = Some lang, ss_codec = None, ss_title = None, ss_default = False, ss_forced = False,
      ss_sdh = False, ss_commentary = False\<rparr>)"

definition arr_row_to_probe_result :: "arr_file \<Rightarrow> string \<Rightarrow> probe_result \<times> pyfloat option" where
  "arr_row_to_probe_result row canonical =
     (let mi = info_of row in
      (\<lparr>pr_path = canonical, pr_audio = map arr_audio (enumerate 0 (split_arr_langs (mi_audio mi))),
        pr_subtitles = map arr_subtitle (enumerate 0 (split_arr_langs (mi_subtitles mi)))\<rparr>, parse_runtime (mi_runtime mi)))"

text \<open>The cache key: \<open>stat\<close> of the file when it is visible, else the size the service reports.\<close>

definition arr_stat :: "disk \<Rightarrow> arr_file \<Rightarrow> string \<Rightarrow> pyfloat \<times> int" where
  "arr_stat dk row canonical =
     (case canonical_to_fs (dk_resolve dk) (dk_libs dk) canonical of
        Inr p \<Rightarrow> (case dk_stat dk p of Inr st \<Rightarrow> st | Inl _ \<Rightarrow> (0, case af_size row of None \<Rightarrow> 0 | Some n \<Rightarrow> n))
      | Inl _ \<Rightarrow> (0, case af_size row of None \<Rightarrow> 0 | Some n \<Rightarrow> n))"

definition arr_probe_row :: "disk \<Rightarrow> arr_file \<Rightarrow> string \<Rightarrow> probe_row" where
  "arr_probe_row dk row canonical =
     (let st = arr_stat dk row canonical; found = arr_row_to_probe_result row canonical in
      \<lparr>pb_path = canonical, pb_mtime = fst st, pb_size = Some (snd st), pb_duration = snd found, pb_audio = pr_audio (fst found),
       pb_subtitles = pr_subtitles (fst found), pb_at = dk_clock dk canonical, pb_source = arr_source\<rparr>)"

record sync_stats =
  sy_queried :: nat
  sy_upserted :: nat
  sy_no_path :: nat
  sy_no_info :: nat
  sy_ffprobe_won :: nat

definition no_stats :: sync_stats where
  "no_stats = \<lparr>sy_queried = 0, sy_upserted = 0, sy_no_path = 0, sy_no_info = 0, sy_ffprobe_won = 0\<rparr>"

definition same_streams :: "probe_result option \<Rightarrow> probe_result option \<Rightarrow> bool" where
  "same_streams before after \<longleftrightarrow>
     (case (before, after) of
        (Some b, Some a) \<Rightarrow> pr_audio a = pr_audio b \<and> pr_subtitles a = pr_subtitles b | _ \<Rightarrow> False)"

definition handle_row :: "disk \<Rightarrow> arr_file \<Rightarrow> sync_stats \<times> probe_store \<Rightarrow> sync_stats \<times> probe_store" where
  "handle_row dk row s =
     (case s of (stats, ps) \<Rightarrow>
        (let mi = info_of row in
         if \<not> truthy_str (af_path row) then (stats\<lparr>sy_no_path := sy_no_path stats + 1\<rparr>, ps)
         else if \<not> truthy_str (mi_audio mi) \<and> \<not> truthy_str (mi_subtitles mi) then (stats\<lparr>sy_no_info := sy_no_info stats + 1\<rparr>, ps)
         else (let canonical = or_empty (strip_arr_prefix (dk_libs dk) (af_path row) None) in
           if canonical = [] then (stats\<lparr>sy_no_path := sy_no_path stats + 1\<rparr>, ps)
           else (let before = get_probe canonical None None ps;
                     ps' = upsert_probe (arr_probe_row dk row canonical) ps;
                     after = get_probe canonical None None ps'
                 in if same_streams before after then (stats\<lparr>sy_ffprobe_won := sy_ffprobe_won stats + 1\<rparr>, ps')
                    else (stats\<lparr>sy_upserted := sy_upserted stats + 1\<rparr>, ps')))))"

definition sync_service :: "disk \<Rightarrow> arr_file list \<Rightarrow> probe_store \<Rightarrow> sync_stats \<times> probe_store" where
  "sync_service dk rows ps = fold (handle_row dk) rows (no_stats\<lparr>sy_queried := length rows\<rparr>, ps)"

record sync_summary =
  sm_sonarr :: sync_stats
  sm_radarr :: sync_stats
  sm_by_source :: "(string \<times> nat) list"

text \<open>The run: the rows of each configured service; \<open>None\<close> is a service that is not configured.\<close>

definition run_sync :: "disk \<Rightarrow> arr_file list option \<Rightarrow> arr_file list option \<Rightarrow> probe_store \<Rightarrow> sync_summary \<times> probe_store" where
  "run_sync dk sonarr radarr ps =
     (let (s1, ps1) = (case sonarr of None \<Rightarrow> (no_stats, ps) | Some rows \<Rightarrow> sync_service dk rows ps);
          (s2, ps2) = (case radarr of None \<Rightarrow> (no_stats, ps1) | Some rows \<Rightarrow> sync_service dk rows ps1)
      in (\<lparr>sm_sonarr = s1, sm_radarr = s2, sm_by_source = count_by_source ps2\<rparr>, ps2))"

section \<open>What a sync changes\<close>

definition usable_path :: "disk \<Rightarrow> arr_file \<Rightarrow> string option" where
  "usable_path dk row =
     (if truthy_str (af_path row) \<and> (truthy_str (mi_audio (info_of row)) \<or> truthy_str (mi_subtitles (info_of row)))
      then none_if_empty (strip_arr_prefix (dk_libs dk) (af_path row) None) else None)"

definition usable_row :: "disk \<Rightarrow> string \<Rightarrow> arr_file list \<Rightarrow> arr_file option" where
  "usable_row dk c rows = List.find (\<lambda>row. usable_path dk row = Some c) (rev rows)"

definition handled :: "sync_stats \<Rightarrow> nat" where
  "handled st = sy_upserted st + sy_no_path st + sy_no_info st + sy_ffprobe_won st"

lemma handle_row_store:
  assumes "handle_row dk row (stats, ps) = (stats', ps')"
  shows "ps' = (case usable_path dk row of None \<Rightarrow> ps | Some c \<Rightarrow> upsert_probe (arr_probe_row dk row c) ps)
    \<and> handled stats' = handled stats + 1 \<and> sy_queried stats' = sy_queried stats"
  using assms
  by (auto simp: handle_row_def usable_path_def none_if_empty_def handled_def Let_def truthy_str_def or_empty_def split: if_splits option.splits)

lemma arr_probe_row_fields [simp]: "pb_path (arr_probe_row dk row c) = c" "pb_source (arr_probe_row dk row c) = arr_source"
  by (simp_all add: arr_probe_row_def Let_def)

lemma arr_upsert:
  "pb_source new = arr_source \<Longrightarrow> row_find pb_path d (ps_rows (upsert_probe new ps)) =
     (if d = pb_path new \<and> \<not> probed_by_ffprobe d ps then Some new else row_find pb_path d (ps_rows ps))"
  by (auto simp: upsert_probe_def row_find_put_row split: option.split)

lemma arr_upsert_keeps_ffprobe:
  "pb_source new = arr_source \<Longrightarrow> probed_by_ffprobe d (upsert_probe new ps) = probed_by_ffprobe d ps"
  by (auto simp: probed_by_ffprobe_def arr_upsert arr_source_def ffprobe_source_def split: option.splits)

lemma sync_fold:
  assumes "fold (handle_row dk) rows (stats, ps) = (stats', ps')"
  shows "row_find pb_path c (ps_rows ps') =
      (if probed_by_ffprobe c ps then row_find pb_path c (ps_rows ps)
       else (case usable_row dk c rows of None \<Rightarrow> row_find pb_path c (ps_rows ps) | Some row \<Rightarrow> Some (arr_probe_row dk row c)))
    \<and> probed_by_ffprobe c ps' = probed_by_ffprobe c ps
    \<and> handled stats' = handled stats + length rows \<and> sy_queried stats' = sy_queried stats"
  using assms
proof (induction rows arbitrary: stats' ps' rule: rev_induct)
  case (snoc row rows)
  obtain s1 p1 where pre: "fold (handle_row dk) rows (stats, ps) = (s1, p1)" by fastforce
  have one: "handle_row dk row (s1, p1) = (stats', ps')" using snoc.prems pre by simp
  note ih = snoc.IH [OF pre]
  have counts: "handled stats' = handled stats + length (rows @ [row]) \<and> sy_queried stats' = sy_queried stats"
    using handle_row_store [OF one] ih by simp
  have usable: "usable_row dk c (rows @ [row]) = (if usable_path dk row = Some c then Some row else usable_row dk c rows)"
    by (simp add: usable_row_def)
  show ?case
  proof (cases "usable_path dk row")
    case None
    then have "ps' = p1" using handle_row_store [OF one] by simp
    then show ?thesis using ih counts usable None by simp
  next
    case (Some d)
    then have ps': "ps' = upsert_probe (arr_probe_row dk row d) p1" using handle_row_store [OF one] by simp
    have ff: "probed_by_ffprobe c p1 = probed_by_ffprobe c ps" "probed_by_ffprobe c ps' = probed_by_ffprobe c ps"
      using ih by (simp_all only: ps' arr_upsert_keeps_ffprobe arr_probe_row_fields)
    have new: "row_find pb_path c (ps_rows ps') =
        (if c = d \<and> \<not> probed_by_ffprobe c ps then Some (arr_probe_row dk row d) else row_find pb_path c (ps_rows p1))"
      by (simp only: ps' arr_upsert arr_probe_row_fields ff(1) simp_thms)
    have old: "row_find pb_path c (ps_rows p1) =
        (if probed_by_ffprobe c ps then row_find pb_path c (ps_rows ps)
         else (case usable_row dk c rows of None \<Rightarrow> row_find pb_path c (ps_rows ps) | Some r \<Rightarrow> Some (arr_probe_row dk r c)))"
      using ih by (rule conjunct1)
    show ?thesis
      unfolding new usable Some old using counts ff(2) by (cases "c = d"; cases "probed_by_ffprobe c ps") simp_all
  qed
qed (simp add: usable_row_def)

text \<open>A sync accounts for every row it was given exactly once and never touches what ffprobe has found: the
  cache entry of a path probed by ffprobe stays, and any other path ends with the entry of the last
  usable row that translates to it, or with its old entry when there is none.\<close>

theorem sync_is_a_backstop:
  "(case sync_service dk rows ps of
      (stats, ps') \<Rightarrow>
        row_find pb_path c (ps_rows ps') =
          (if probed_by_ffprobe c ps then row_find pb_path c (ps_rows ps)
           else (case usable_row dk c rows of None \<Rightarrow> row_find pb_path c (ps_rows ps) | Some row \<Rightarrow> Some (arr_probe_row dk row c)))
        \<and> sy_queried stats = length rows \<and> handled stats = length rows)"
  using sync_fold [of dk rows "no_stats\<lparr>sy_queried := length rows\<rparr>" ps _ _ c]
  by (auto simp: sync_service_def handled_def no_stats_def split: prod.splits)

text \<open>The counter named for rows that ffprobe won also counts every unchanged row of a repeated sync.\<close>

lemma resync_counts_as_ffprobe_won:
  assumes "usable_path dk row = Some c" "\<not> probed_by_ffprobe c ps" "handle_row dk row (s0, ps) = (s1, ps1)"
    and "handle_row dk row (s1, ps1) = (s2, ps2)"
  shows "sy_ffprobe_won s2 = sy_ffprobe_won s1 + 1 \<and> \<not> probed_by_ffprobe c ps2"
proof -
  let ?new = "arr_probe_row dk row c"
  have ps1: "ps1 = upsert_probe ?new ps" and ps2: "ps2 = upsert_probe ?new ps1"
    using handle_row_store [OF assms(3)] handle_row_store [OF assms(4)] assms(1) by simp_all
  have ff: "\<not> probed_by_ffprobe c ps1" "\<not> probed_by_ffprobe c ps2"
    using assms(2) by (simp_all add: ps1 ps2 arr_upsert_keeps_ffprobe)
  have "same_streams (get_probe c None None ps1) (get_probe c None None ps2)"
    using assms(2) ff(1) by (simp add: ps2 get_probe_def arr_upsert same_streams_def) (simp add: ps1 arr_upsert)
  then show ?thesis using assms(1,4) ff(2) ps2
    by (auto simp: handle_row_def usable_path_def none_if_empty_def Let_def truthy_str_def or_empty_def split: if_splits option.splits)
qed

text \<open>A bare number is a number of minutes as a number and a number of seconds as a text.\<close>

lemma bare_runtime_in_seconds:
  "parse_runtime (Runtime_text ''92'') = Some 92" "parse_runtime (Runtime_number 92) = Some 5520"
proof -
  have "split_on (CHR '':'') (strip ''92'') = [''92'']" "whole_part ''92'' = Some ''92''" "undec ''92'' = 92" by code_simp+
  then show "parse_runtime (Runtime_text ''92'') = Some 92" by (simp add: parse_runtime_def)
qed (simp add: parse_runtime_def)

end
