(* ===== verification/LoginThrottle.thy ===== *)
theory LoginThrottle
  imports Prelude
begin

text \<open>
  The login brute-force throttle (\<open>src/src/subarr/login_throttle.py\<close>) and the order in which
  the login handler (\<open>src/src/subarr/routers/auth.py\<close>) calls it. Parsing and matching of
  networks is the \<open>ipaddress\<close> module's: the allowlist is the predicate
  \<open>lt_exempt\<close> (the code's \<open>ip_in(ip, allowlist)\<close>), and \<open>resolve_client_ip\<close> takes the two
  tests it makes, \<open>valid\<close> (\<open>ip_address\<close> does not raise) and \<open>trusted\<close> (\<open>ip_in\<close> of the
  trusted proxies), as arguments. The specification keeps every failure for ever; the
  sliding-window deques refine it.
\<close>

section \<open>The client address\<close>

fun pick_hop :: "(string \<Rightarrow> bool) \<Rightarrow> (string \<Rightarrow> bool) \<Rightarrow> string \<Rightarrow> string list \<Rightarrow> string" where
  "pick_hop valid trusted peer [] = peer"
| "pick_hop valid trusted peer (e # es) =
     (if e = [] \<or> \<not> valid e \<or> trusted e then pick_hop valid trusted peer es else e)"

definition resolve_client_ip :: "(string \<Rightarrow> bool) \<Rightarrow> (string \<Rightarrow> bool) \<Rightarrow> string \<Rightarrow> string \<Rightarrow> string" where
  "resolve_client_ip valid trusted peer xff =
     (if peer = [] \<or> \<not> trusted peer then peer
      else pick_hop valid trusted peer (rev (map strip (split_on (CHR '','') xff))))"

section \<open>The throttle\<close>

record throttle =
  lt_max :: int
  lt_window :: int
  lt_exempt :: "string \<Rightarrow> bool"
  lt_max_ips :: int
  lt_fails :: "(string \<times> pyfloat list) list"

definition new_throttle :: "int \<Rightarrow> int \<Rightarrow> (string \<Rightarrow> bool) \<Rightarrow> int \<Rightarrow> throttle" where
  "new_throttle max_attempts window_s exempt max_ips =
     \<lparr>lt_max = max 1 max_attempts, lt_window = max 1 window_s, lt_exempt = exempt,
      lt_max_ips = max 1 max_ips, lt_fails = []\<rparr>"

text \<open>\<open>_prune\<close>: the deque that is left, and the throttle after the in-place pops. A deque that
  runs empty leaves the dict.\<close>

definition prune_fails :: "string \<Rightarrow> pyfloat \<Rightarrow> throttle \<Rightarrow> pyfloat list \<times> throttle" where
  "prune_fails ip now th =
     (case map_of (lt_fails th) ip of
        None \<Rightarrow> ([], th)
      | Some dq \<Rightarrow>
          (let cutoff = now - of_int (lt_window th);
               dq' = dropWhile (\<lambda>t. t \<le> cutoff) dq in
           if dq' = [] then ([], th\<lparr>lt_fails := AList.delete ip (lt_fails th)\<rparr>)
           else (dq', th\<lparr>lt_fails := AList.update ip dq' (lt_fails th)\<rparr>)))"

definition check_ip :: "string \<Rightarrow> pyfloat \<Rightarrow> throttle \<Rightarrow> (bool \<times> int) \<times> throttle" where
  "check_ip ip now th =
     (if lt_exempt th ip then ((False, 0), th)
      else (case prune_fails ip now th of (dq, th') \<Rightarrow>
          if int (length dq) < lt_max th then ((False, 0), th')
          else ((True, max 1 (ceiling (hd dq + of_int (lt_window th) - now))), th')))"

text \<open>\<open>while len(self._fails) > self._max_ips: popitem(last=False)\<close>.\<close>

definition evict :: "int \<Rightarrow> 'a list \<Rightarrow> 'a list" where
  "evict n xs = drop (length xs - nat n) xs"

definition record_failed_login :: "string \<Rightarrow> pyfloat \<Rightarrow> throttle \<Rightarrow> throttle" where
  "record_failed_login ip now th =
     (if lt_exempt th ip then th
      else (let dq = (case map_of (lt_fails th) ip of None \<Rightarrow> [] | Some d \<Rightarrow> d) in
            th\<lparr>lt_fails := evict (lt_max_ips th) (AList.delete ip (lt_fails th) @ [(ip, dq @ [now])])\<rparr>))"

definition clear_ip :: "string \<Rightarrow> throttle \<Rightarrow> throttle" where
  "clear_ip ip th = th\<lparr>lt_fails := AList.delete ip (lt_fails th)\<rparr>"

definition throttle_size :: "throttle \<Rightarrow> int" where
  "throttle_size th = int (length (lt_fails th))"

section \<open>The login handler\<close>

datatype login_verdict = Throttled int | Rejected | Admitted

definition login_attempt :: "string \<times> pyfloat \<times> bool \<Rightarrow> throttle \<Rightarrow> login_verdict \<times> throttle" where
  "login_attempt a th =
     (case a of (ip, now, password_ok) \<Rightarrow>
        (case check_ip ip now th of ((blocked, retry), th') \<Rightarrow>
           if blocked then (Throttled retry, th')
           else if password_ok then (Admitted, clear_ip ip th')
           else (Rejected, record_failed_login ip now th')))"

fun login_run :: "(string \<times> pyfloat \<times> bool) list \<Rightarrow> throttle \<Rightarrow> login_verdict list \<times> throttle" where
  "login_run [] th = ([], th)"
| "login_run (a # as) th =
     (case login_attempt a th of (v, th') \<Rightarrow>
        (case login_run as th' of (vs, th'') \<Rightarrow> (v # vs, th'')))"

section \<open>Specification\<close>

text \<open>The specification remembers, for each address, every failed login since its last
  successful one.\<close>

type_synonym login_log = "string \<Rightarrow> pyfloat list"

definition recent :: "int \<Rightarrow> pyfloat \<Rightarrow> pyfloat list \<Rightarrow> pyfloat list" where
  "recent w now ts = filter (\<lambda>t. now - of_int w < t) ts"

definition spec_attempt ::
    "int \<Rightarrow> int \<Rightarrow> (string \<Rightarrow> bool) \<Rightarrow> string \<times> pyfloat \<times> bool \<Rightarrow> login_log \<Rightarrow> login_verdict \<times> login_log" where
  "spec_attempt n w exempt a g =
     (case a of (ip, now, password_ok) \<Rightarrow>
        if \<not> exempt ip \<and> n \<le> int (length (recent w now (g ip)))
        then (Throttled (max 1 (ceiling (hd (recent w now (g ip)) + of_int w - now))), g)
        else if password_ok then (Admitted, g(ip := []))
        else (Rejected, if exempt ip then g else g(ip := g ip @ [now])))"

fun spec_run :: "int \<Rightarrow> int \<Rightarrow> (string \<Rightarrow> bool) \<Rightarrow> (string \<times> pyfloat \<times> bool) list \<Rightarrow> login_log \<Rightarrow> login_verdict list" where
  "spec_run n w exempt [] g = []"
| "spec_run n w exempt (a # as) g =
     (case spec_attempt n w exempt a g of (v, g') \<Rightarrow> v # spec_run n w exempt as g')"

text \<open>The refinement relation at time \<open>now\<close>: each deque is the log of its address without
  entries that had left the window already.\<close>

definition fails_of :: "throttle \<Rightarrow> string \<Rightarrow> pyfloat list" where
  "fails_of th ip = (case map_of (lt_fails th) ip of None \<Rightarrow> [] | Some d \<Rightarrow> d)"

definition refines :: "string set \<Rightarrow> pyfloat \<Rightarrow> throttle \<Rightarrow> login_log \<Rightarrow> bool" where
  "refines I now th g \<longleftrightarrow>
     distinct (map fst (lt_fails th)) \<and> fst ` set (lt_fails th) \<subseteq> I
     \<and> (\<forall>ip. sorted (g ip) \<and> (\<forall>t \<in> set (g ip). t \<le> now)
          \<and> (\<exists>c \<le> now - of_int (lt_window th). fails_of th ip = filter (\<lambda>t. c < t) (g ip)))"

lemma refines_mono: "refines I now th g \<Longrightarrow> now \<le> later \<Longrightarrow> refines I later th g"
  unfolding refines_def by (meson diff_right_mono order_trans)

lemma dropWhile_sorted_filter:
  "sorted (ts :: pyfloat list) \<Longrightarrow> dropWhile (\<lambda>t. t \<le> c) ts = filter (\<lambda>t. c < t) ts"
  by (induction ts) (auto simp: not_le intro!: filter_True [symmetric])

lemma map_of_delete_other: "map_of (AList.delete k al) x = (if x = k then None else map_of al x)"
  by (simp add: delete_conv)

lemma prune_fails_keys:
  "distinct (map fst (lt_fails th)) \<Longrightarrow> distinct (map fst (lt_fails (snd (prune_fails ip now th))))"
  "fst ` set (lt_fails (snd (prune_fails ip now th))) \<subseteq> fst ` set (lt_fails th)"
proof -
  show "distinct (map fst (lt_fails (snd (prune_fails ip now th))))" if "distinct (map fst (lt_fails th))"
    using that by (auto simp: prune_fails_def Let_def distinct_delete distinct_update split: option.splits)
  have "fst ` set (AList.update ip d (lt_fails th)) \<subseteq> fst ` set (lt_fails th)"
    if "map_of (lt_fails th) ip = Some e" for d e
    using that by (auto simp: dom_update dest!: map_of_SomeD intro: rev_image_eqI)
  then show "fst ` set (lt_fails (snd (prune_fails ip now th))) \<subseteq> fst ` set (lt_fails th)"
    using dom_delete_subset [of ip "lt_fails th"]
    by (simp add: prune_fails_def Let_def split: option.splits)
qed

lemma prune_fails_recent:
  assumes "refines I now th g"
  shows "fst (prune_fails ip now th) = recent (lt_window th) now (g ip)"
    and "refines I now (snd (prune_fails ip now th)) g"
    and "fails_of (snd (prune_fails ip now th)) ip = recent (lt_window th) now (g ip)"
    and "\<exists>f. snd (prune_fails ip now th) = th\<lparr>lt_fails := f\<rparr>"
proof -
  let ?c = "now - of_int (lt_window th)"
  from assms obtain c where c: "c \<le> ?c" "fails_of th ip = filter (\<lambda>t. c < t) (g ip)" "sorted (g ip)"
    unfolding refines_def by blast
  have drop: "dropWhile (\<lambda>t. t \<le> ?c) (fails_of th ip) = recent (lt_window th) now (g ip)"
  proof -
    have "dropWhile (\<lambda>t. t \<le> ?c) (fails_of th ip) = filter (\<lambda>t. ?c < t) (filter (\<lambda>t. c < t) (g ip))"
      using c by (simp add: dropWhile_sorted_filter sorted_wrt_filter)
    also have "\<dots> = recent (lt_window th) now (g ip)"
      using c(1) by (auto simp: recent_def intro: filter_cong)
    finally show ?thesis .
  qed
  show one: "fst (prune_fails ip now th) = recent (lt_window th) now (g ip)"
    using drop by (auto simp: prune_fails_def fails_of_def Let_def simp del: dropWhile_eq_Nil_conv split: option.splits)
  show same: "fails_of (snd (prune_fails ip now th)) ip = recent (lt_window th) now (g ip)"
    using drop
    by (auto simp: prune_fails_def fails_of_def Let_def map_of_delete_other update_conv' simp del: dropWhile_eq_Nil_conv split: option.splits)
  have other: "fails_of (snd (prune_fails ip now th)) k = fails_of th k" if "k \<noteq> ip" for k
    using that by (auto simp: prune_fails_def fails_of_def Let_def map_of_delete_other update_conv' split: option.splits)
  show upd: "\<exists>f. snd (prune_fails ip now th) = th\<lparr>lt_fails := f\<rparr>"
    by (cases "map_of (lt_fails th) ip"; cases th) (auto simp: prune_fails_def Let_def)
  then have w: "lt_window (snd (prune_fails ip now th)) = lt_window th" by auto
  have keys: "distinct (map fst (lt_fails (snd (prune_fails ip now th))))"
    "fst ` set (lt_fails (snd (prune_fails ip now th))) \<subseteq> I"
    using prune_fails_keys(1) [of th ip now] prune_fails_keys(2) [of ip now th] assms unfolding refines_def by (simp, blast)
  have "\<exists>c' \<le> now - of_int (lt_window th). fails_of (snd (prune_fails ip now th)) k = filter (\<lambda>t. c' < t) (g k)" for k
  proof (cases "k = ip")
    case True
    then show ?thesis using same by (auto simp: recent_def)
  next
    case False
    then show ?thesis using assms other unfolding refines_def by auto
  qed
  then show "refines I now (snd (prune_fails ip now th)) g"
    using keys w assms unfolding refines_def by auto
qed


lemma refines_record:
  assumes r: "refines I now th g" and ip: "ip \<in> I" and I: "finite I" "int (card I) \<le> lt_max_ips th"
    and ex: "\<not> lt_exempt th ip" and w: "1 \<le> lt_window th"
  shows "refines I now (record_failed_login ip now th) (g(ip := g ip @ [now]))"
proof -
  let ?new = "AList.delete ip (lt_fails th) @ [(ip, fails_of th ip @ [now])]"
  have dist: "distinct (map fst ?new)" and sub: "fst ` set ?new \<subseteq> I"
    using r ip dom_delete_subset [of ip "lt_fails th"] unfolding refines_def
    by (auto simp: distinct_removeAll delete_keys)
  have "length ?new = card (fst ` set ?new)" using distinct_card [OF dist] by simp
  also have "\<dots> \<le> card I" using sub I(1) by (rule card_mono [rotated])
  finally have "evict (lt_max_ips th) ?new = ?new" using I(2) by (simp add: evict_def)
  then have th': "record_failed_login ip now th = th\<lparr>lt_fails := ?new\<rparr>"
    using ex by (simp add: record_failed_login_def fails_of_def)
  have fails: "fails_of (th\<lparr>lt_fails := ?new\<rparr>) k = (if k = ip then fails_of th ip @ [now] else fails_of th k)" for k
    by (simp add: fails_of_def map_add_def map_of_delete_other split: option.splits)
  have "\<exists>c \<le> now - of_int (lt_window th).
      fails_of (th\<lparr>lt_fails := ?new\<rparr>) k = filter (\<lambda>t. c < t) ((g(ip := g ip @ [now])) k)" for k
  proof -
    obtain c where c: "c \<le> now - of_int (lt_window th)" "fails_of th k = filter (\<lambda>t. c < t) (g k)"
      using r unfolding refines_def by blast
    moreover have "(1 :: pyfloat) \<le> of_int (lt_window th)" using w by simp
    ultimately have "c < now" by linarith
    then show ?thesis using fails c by (cases "k = ip") (auto intro!: exI [of _ c])
  qed
  moreover have "sorted ((g(ip := g ip @ [now])) k) \<and> (\<forall>t \<in> set ((g(ip := g ip @ [now])) k). t \<le> now)" for k
    using r unfolding refines_def by (simp add: sorted_append)
  ultimately show ?thesis using dist sub unfolding th' by (simp add: refines_def)
qed

lemma refines_clear: "refines I now th g \<Longrightarrow> refines I now (clear_ip ip th) (g(ip := []))"
proof -
  assume r: "refines I now th g"
  have "fails_of (clear_ip ip th) k = (if k = ip then [] else fails_of th k)" for k
    by (simp add: fails_of_def clear_ip_def map_of_delete_other)
  then have "\<exists>c \<le> now - of_int (lt_window th). fails_of (clear_ip ip th) k = filter (\<lambda>t. c < t) ((g(ip := [])) k)" for k
    using r unfolding refines_def by auto
  then show ?thesis using r dom_delete_subset [of ip "lt_fails th"]
    unfolding refines_def by (auto simp: clear_ip_def distinct_delete)
qed

text \<open>The capacity hypothesis of the simulation and the fixed settings.\<close>

definition configured :: "int \<Rightarrow> int \<Rightarrow> (string \<Rightarrow> bool) \<Rightarrow> string set \<Rightarrow> throttle \<Rightarrow> bool" where
  "configured n w exempt I th \<longleftrightarrow> lt_max th = n \<and> lt_window th = w \<and> lt_exempt th = exempt
     \<and> 1 \<le> w \<and> finite I \<and> int (card I) \<le> lt_max_ips th"

lemma login_attempt_simulates:
  assumes cfg: "configured n w exempt I th" and r: "refines I now th g" and ip: "ip \<in> I"
  shows "fst (login_attempt (ip, now, ok) th) = fst (spec_attempt n w exempt (ip, now, ok) g)
    \<and> refines I now (snd (login_attempt (ip, now, ok) th)) (snd (spec_attempt n w exempt (ip, now, ok) g))
    \<and> configured n w exempt I (snd (login_attempt (ip, now, ok) th))"
proof (cases "exempt ip")
  case True
  then show ?thesis using cfg r refines_clear [OF r, of ip]
    by (cases ok) (auto simp: login_attempt_def spec_attempt_def check_ip_def configured_def
        clear_ip_def record_failed_login_def)
next
  case False
  define th' where "th' = snd (prune_fails ip now th)"
  have p: "prune_fails ip now th = (recent w now (g ip), th')"
    using prune_fails_recent(1) [OF r, of ip] cfg by (simp add: th'_def configured_def prod_eq_iff)
  have r': "refines I now th' g" unfolding th'_def by (rule prune_fails_recent(2) [OF r])
  have cfg': "configured n w exempt I th'"
    using cfg prune_fails_recent(4) [OF r, of ip] by (auto simp: th'_def configured_def)
  have ex: "lt_exempt th = exempt" "lt_max th = n" "lt_window th = w" using cfg by (auto simp: configured_def)
  have "refines I now (record_failed_login ip now th') (g(ip := g ip @ [now]))"
    using refines_record [OF r' ip] cfg' False by (simp add: configured_def)
  moreover have "configured n w exempt I (record_failed_login ip now th')" "configured n w exempt I (clear_ip ip th')"
    using cfg' by (auto simp: configured_def record_failed_login_def clear_ip_def Let_def)
  ultimately show ?thesis
    using False r' cfg' refines_clear [OF r', of ip]
    by (simp add: login_attempt_def spec_attempt_def check_ip_def p ex)
qed

lemma login_run_simulates:
  assumes "configured n w exempt I th" "refines I now th g" "sorted (now # map (fst \<circ> snd) as)"
    "fst ` set as \<subseteq> I"
  shows "fst (login_run as th) = spec_run n w exempt as g"
  using assms
proof (induction as arbitrary: now th g)
  case (Cons a as)
  obtain ip t ok where a: "a = (ip, t, ok)" by (cases a) auto
  have t: "now \<le> t" and ip: "ip \<in> I" and rest: "sorted (t # map (fst \<circ> snd) as)" "fst ` set as \<subseteq> I"
    using Cons.prems(3,4) a by (auto simp: comp_def)
  note sim = login_attempt_simulates [OF Cons.prems(1) refines_mono [OF Cons.prems(2) t] ip, of ok]
  obtain v th' where l: "login_attempt a th = (v, th')" by (cases "login_attempt a th")
  obtain v' g' where s: "spec_attempt n w exempt a g = (v', g')" by (cases "spec_attempt n w exempt a g")
  have "v = v'" "refines I t th' g'" "configured n w exempt I th'" using sim l s a by auto
  moreover from Cons.IH [OF this(3,2) rest] have "fst (login_run as th') = spec_run n w exempt as g'" .
  ultimately show ?case by (cases "login_run as th'") (simp add: l s)
qed simp

lemma configured_new:
  "finite I \<Longrightarrow> int (card I) \<le> max 1 cap \<Longrightarrow>
     configured (max 1 n) (max 1 w) exempt I (new_throttle n w exempt cap)"
  by (simp add: configured_def new_throttle_def)

lemma refines_new: "refines I now (new_throttle n w exempt cap) (\<lambda>_. [])"
  by (auto simp: refines_def new_throttle_def fails_of_def)

lemma login_run_spec:
  assumes "sorted (map (fst \<circ> snd) as)" and "int (card (fst ` set as)) \<le> max 1 cap"
  shows "fst (login_run as (new_throttle n w exempt cap)) = spec_run (max 1 n) (max 1 w) exempt as (\<lambda>_. [])"
proof -
  define start where "start = (case as of [] \<Rightarrow> 0 | a # _ \<Rightarrow> fst (snd a))"
  have "sorted (start # map (fst \<circ> snd) as)"
    using assms(1) by (cases as) (auto simp: start_def)
  then show ?thesis
    using login_run_simulates [OF configured_new refines_new] assms(2) by blast
qed

text \<open>No window of the log holds more than \<open>n\<close> failures.\<close>

definition window_bounded :: "int \<Rightarrow> int \<Rightarrow> pyfloat list \<Rightarrow> bool" where
  "window_bounded n w ts \<longleftrightarrow> (\<forall>t. int (length (filter (\<lambda>x. t - of_int w < x \<and> x \<le> t) ts)) \<le> n)"

lemma window_bounded_append:
  assumes b: "window_bounded n w ts" and le: "\<forall>x \<in> set ts. x \<le> now"
    and few: "int (length (recent w now ts)) < n"
  shows "window_bounded n w (ts @ [now])"
  unfolding window_bounded_def
proof
  fix t
  show "int (length (filter (\<lambda>x. t - of_int w < x \<and> x \<le> t) (ts @ [now]))) \<le> n"
  proof (cases "now \<le> t")
    case True
    have "filter (\<lambda>x. t - of_int w < x \<and> x \<le> t) ts = filter (\<lambda>x. t - of_int w < x \<and> x \<le> t) (recent w now ts)"
      using True by (auto simp: recent_def intro!: filter_cong)
    then have "length (filter (\<lambda>x. t - of_int w < x \<and> x \<le> t) ts) \<le> length (recent w now ts)"
      by (simp only: length_filter_le)
    then show ?thesis using few by auto
  next
    case False
    then show ?thesis using b by (auto simp: window_bounded_def)
  qed
qed

fun rejected_times :: "string \<Rightarrow> (string \<times> pyfloat \<times> bool) list \<Rightarrow> login_verdict list \<Rightarrow> pyfloat list" where
  "rejected_times ip ((k, t, ok) # as) (v # vs) =
     (if k = ip \<and> v = Rejected then t # rejected_times ip as vs else rejected_times ip as vs)"
| "rejected_times ip as vs = []"

lemma spec_run_bounded:
  assumes "sorted (now # map (fst \<circ> snd) as)" "\<forall>x \<in> set (g ip). x \<le> now" "window_bounded n w (g ip)"
    "\<forall>(k, t, ok) \<in> set as. k = ip \<longrightarrow> \<not> ok" "\<not> exempt ip"
  shows "window_bounded n w (g ip @ rejected_times ip as (spec_run n w exempt as g))"
  using assms
proof (induction as arbitrary: now g)
  case (Cons a as)
  obtain k t ok where a: "a = (k, t, ok)" by (cases a) auto
  obtain v g' where s: "spec_attempt n w exempt a g = (v, g')" by (cases "spec_attempt n w exempt a g")
  have le: "\<forall>x \<in> set (g ip). x \<le> t" using Cons.prems(1,2) a by auto
  have step: "g' ip = (if k = ip \<and> v = Rejected then g ip @ [t] else g ip)"
    "k = ip \<and> v = Rejected \<Longrightarrow> int (length (recent w t (g ip))) < n"
    using s a Cons.prems(4,5) by (auto simp: spec_attempt_def split: if_splits)
  have "window_bounded n w (g' ip)"
    using step Cons.prems(3) le window_bounded_append by auto
  moreover have "\<forall>x \<in> set (g' ip). x \<le> t" using step le by auto
  moreover have "sorted (t # map (fst \<circ> snd) as)" using Cons.prems(1) a by (auto simp: comp_def)
  moreover have "\<forall>(k, t, ok) \<in> set as. k = ip \<longrightarrow> \<not> ok" using Cons.prems(4) by simp
  ultimately have "window_bounded n w (g' ip @ rejected_times ip as (spec_run n w exempt as g'))"
    using Cons.IH Cons.prems(5) by blast
  then show ?case using step s by (auto simp: a split: if_splits)
qed simp

section \<open>Properties\<close>


definition demo_logins :: "(string \<times> pyfloat \<times> bool) list" where
  "demo_logins = [(''a'', 0, False), (''a'', 10, False), (''b'', 11, False), (''a'', 12, True), (''a'', 61, True)]"


text \<open>Brute force is bounded whatever the attacker sends: however the attempts of one
  address without a success are spread in time and interleaved with others, at most the
  configured number of passwords is tried inside any one window.\<close>

theorem guesses_bounded:
  assumes "sorted (map (fst \<circ> snd) as)" and "int (card (fst ` set as)) \<le> max 1 cap"
    and "\<forall>(k, t, ok) \<in> set as. k = ip \<longrightarrow> \<not> ok" and "\<not> exempt ip"
  shows "int (length (filter (\<lambda>x. t - of_int (max 1 w) < x \<and> x \<le> t)
           (rejected_times ip as (fst (login_run as (new_throttle n w exempt cap)))))) \<le> max 1 n"
proof -
  define start where "start = (case as of [] \<Rightarrow> 0 | a # _ \<Rightarrow> fst (snd a))"
  have "sorted (start # map (fst \<circ> snd) as)"
    using assms(1) by (cases as) (auto simp: start_def)
  then have "window_bounded (max 1 n) (max 1 w)
      ([] @ rejected_times ip as (spec_run (max 1 n) (max 1 w) exempt as (\<lambda>_. [])))"
    by (rule spec_run_bounded) (use assms(3,4) in \<open>simp_all add: window_bounded_def\<close>)
  then show ?thesis
    unfolding login_run_spec [OF assms(1,2)] window_bounded_def by simp
qed

lemma demo_logins_few: "int (card (fst ` set demo_logins)) \<le> max 1 4096"
proof -
  have "card (fst ` set demo_logins) \<le> card {''a'', ''b''}"
    by (rule card_mono) (auto simp: demo_logins_def)
  then show ?thesis by simp
qed

theorem guesses_bounded_witness:
  "length (rejected_times ''b'' demo_logins (fst (login_run demo_logins (new_throttle 2 60 (\<lambda>_. False) 4096)))) \<le> 2"
proof -
  have "rejected_times ''b'' demo_logins vs = filter (\<lambda>x. 60 - 60 < x \<and> x \<le> 60) (rejected_times ''b'' demo_logins vs)" for vs
    by (cases vs; cases "tl vs"; cases "tl (tl vs)"; cases "tl (tl (tl vs))"; cases "tl (tl (tl (tl vs)))")
      (auto simp: demo_logins_def)
  then show ?thesis
    using guesses_bounded [of demo_logins 4096 "''b''" "\<lambda>_. False" 60 60 2] demo_logins_few
    by (auto simp: demo_logins_def)
qed

lemma login_attempt_size:
  assumes "lt_max_ips th = m" "0 \<le> m" "int (length (lt_fails th)) \<le> m"
  shows "lt_max_ips (snd (login_attempt a th)) = m \<and> int (length (lt_fails (snd (login_attempt a th)))) \<le> m"
proof -
  have len: "length (AList.delete ip al) \<le> length al" for ip and al :: "(string \<times> pyfloat list) list"
    by (simp add: AList.delete_eq)
  have upd: "length (AList.update ip d al) = length al" if "map_of al ip = Some e" for ip d e and al :: "(string \<times> pyfloat list) list"
    using that by (induction al) auto
  have p: "lt_max_ips (snd (prune_fails ip now th)) = m \<and> int (length (lt_fails (snd (prune_fails ip now th)))) \<le> m" for ip now
    using assms len [of ip "lt_fails th"]
    by (auto simp: prune_fails_def Let_def upd split: option.splits)
  have c: "lt_max_ips (snd (check_ip ip now th)) = m \<and> int (length (lt_fails (snd (check_ip ip now th)))) \<le> m" for ip now
    using p [of ip now] assms by (auto simp: check_ip_def split: prod.splits)
  have clear: "int (length (lt_fails (clear_ip ip t))) \<le> int (length (lt_fails t))" for ip t
    using len by (simp add: clear_ip_def)
  have rec: "lt_max_ips (record_failed_login ip now t) = m \<and> int (length (lt_fails (record_failed_login ip now t))) \<le> m"
    if "lt_max_ips t = m" "int (length (lt_fails t)) \<le> m" for ip now t
    using that assms(2) by (auto simp: record_failed_login_def Let_def evict_def)
  obtain ip now ok where a: "a = (ip, now, ok)" by (cases a) auto
  obtain bl r th' where ch: "check_ip ip now th = ((bl, r), th')" by (metis prod.collapse)
  have "lt_max_ips th' = m" "int (length (lt_fails th')) \<le> m" using c [of ip now] ch by auto
  then show ?thesis using rec clear [of ip th'] by (auto simp: login_attempt_def a ch clear_ip_def)
qed

lemma login_run_size:
  "lt_max_ips th = m \<Longrightarrow> 0 \<le> m \<Longrightarrow> int (length (lt_fails th)) \<le> m \<Longrightarrow>
     int (length (lt_fails (snd (login_run as th)))) \<le> m"
proof (induction as arbitrary: th)
  case (Cons a as)
  obtain v th' where l: "login_attempt a th = (v, th')" by (cases "login_attempt a th")
  have "int (length (lt_fails (snd (login_run as th')))) \<le> m"
    using login_attempt_size [OF Cons.prems, of a] Cons.IH [of th'] Cons.prems(2) l by simp
  then show ?case by (cases "login_run as th'") (simp add: l)
qed simp

text \<open>The table never holds more addresses than its cap, whatever the order of checks,
  logins and clears.\<close>

theorem throttle_size_bounded:
  "throttle_size (snd (login_run as (new_throttle n w exempt cap))) \<le> max 1 cap"
  using login_run_size [of "new_throttle n w exempt cap" "max 1 cap" as]
  by (simp add: throttle_size_def new_throttle_def)

lemma split_on_append: "split_on c (xs @ c # ys) = split_on c xs @ split_on c ys"
  by (induction xs) (auto split: list.splits)

lemma pick_hop_append:
  "e \<in> set es \<Longrightarrow> e \<noteq> [] \<Longrightarrow> valid e \<Longrightarrow> \<not> trusted e \<Longrightarrow>
     pick_hop valid trusted peer (es @ fs) = pick_hop valid trusted peer es"
  by (induction es) auto

text \<open>A client behind a trusted proxy cannot choose the address it is throttled by:
  whatever it puts in front of the \<open>X-Forwarded-For\<close> value the proxy completes, the
  resolved address is the one of the value alone, as soon as that contains a hop that is
  no trusted proxy.\<close>

theorem spoofed_prefix_ignored:
  assumes "e \<in> set (map strip (split_on (CHR '','') xff))" and "e \<noteq> []" and "valid e" and "\<not> trusted e"
  shows "resolve_client_ip valid trusted peer (spoof @ '','' @ xff) = resolve_client_ip valid trusted peer xff"
  using assms pick_hop_append [of e "rev (map strip (split_on (CHR '','') xff))"]
  by (simp add: resolve_client_ip_def split_on_append)

theorem spoofed_prefix_ignored_witness:
  "resolve_client_ip (\<lambda>e. e \<noteq> ''x'') (\<lambda>e. e = ''p'') ''p'' (''1.1.1.1'' @ '','' @ ''6.6.6.6, p'') = ''6.6.6.6''"
  using spoofed_prefix_ignored [of "''6.6.6.6''" "''6.6.6.6, p''" "\<lambda>e. e \<noteq> ''x''" "\<lambda>e. e = ''p''" "''p''" "''1.1.1.1''"]
  by (simp add: resolve_client_ip_def strip_def strip_of_def py_space_def code_of_def)

end
