(* ===== verification/Auth.thy ===== *)
theory Auth
  imports LoginThrottle
begin

text \<open>
  Authentication (\<open>src/src/subarr/auth.py\<close>, \<open>src/src/subarr/auth_store.py\<close>, \<open>src/src/subarr/api_keys.py\<close>,
  \<open>src/src/subarr/api_security.py\<close>, \<open>src/src/subarr/routers/auth.py\<close>, \<open>src/src/subarr/routers/api_keys.py\<close>): the stored
  credential and keys, first-run setup, login behind the throttle, who a request is made by, and the two gates that a request
  passes before it reaches a route. The hashes, the decoding of a basic header and of a query, and the host of a URL
  are arguments. A session is a signed cookie that the browser keeps: the server only knows for whom it issued one.
  Header values are bytes, one character each.
\<close>

section \<open>Primitives\<close>

record crypto =
  kdf :: "string \<Rightarrow> string \<Rightarrow> int \<Rightarrow> string option"
  sha :: "string \<Rightarrow> string"
  basic_decode :: "string \<Rightarrow> string option"
  query_values :: "string \<Rightarrow> string list"
  url_netloc :: "string \<Rightarrow> string"

text \<open>\<open>secrets.compare_digest\<close> on texts: raises unless both are ASCII.\<close>

definition ascii :: "string \<Rightarrow> bool" where "ascii s \<longleftrightarrow> list_all (\<lambda>c. code_of c < 128) s"

definition compare_digest :: "string \<Rightarrow> string \<Rightarrow> bool option" where
  "compare_digest a b = (if ascii a \<and> ascii b then Some (a = b) else None)"

definition both_match :: "string \<Rightarrow> string \<Rightarrow> string \<Rightarrow> string \<Rightarrow> bool option" where
  "both_match a x b y =
     (case compare_digest a x of None \<Rightarrow> None | Some False \<Rightarrow> Some False | Some True \<Rightarrow> compare_digest b y)"

definition pbkdf2_iters :: int where "pbkdf2_iters = 200000"

text \<open>The hash of a new password; the salt is the random bytes in hexadecimal, which always parse.\<close>

definition hash_password :: "crypto \<Rightarrow> string \<Rightarrow> string \<Rightarrow> string" where
  "hash_password C salt pw = or_empty (kdf C pw salt pbkdf2_iters)"

definition verify_password :: "crypto \<Rightarrow> string \<Rightarrow> string \<Rightarrow> string \<Rightarrow> int \<Rightarrow> bool" where
  "verify_password C pw h salt iters = (case kdf C pw salt iters of None \<Rightarrow> False | Some d \<Rightarrow> d = h)"

definition session_cookie_name :: "crypto \<Rightarrow> string \<Rightarrow> string" where
  "session_cookie_name C secret = ''subarr_session_'' @ take 8 (sha C secret)"

section \<open>The store\<close>

record credential =
  cr_username :: string
  cr_hash :: string
  cr_salt :: string
  cr_iterations :: int

record api_key_row =
  ak_id :: nat
  ak_label :: string
  ak_hash :: string
  ak_last4 :: string
  ak_created :: pyfloat
  ak_last_used :: "pyfloat option"

record auth_store =
  au_credential :: "credential option"
  au_secret :: "string option"
  au_keys :: "api_key_row list"
  au_next_id :: nat

definition has_credential :: "auth_store \<Rightarrow> bool" where "has_credential st \<longleftrightarrow> au_credential st \<noteq> None"

definition get_or_create_secret :: "string \<Rightarrow> auth_store \<Rightarrow> string \<times> auth_store" where
  "get_or_create_secret fresh st =
     (case au_secret st of Some s \<Rightarrow> (s, st) | None \<Rightarrow> (fresh, st\<lparr>au_secret := Some fresh\<rparr>))"

definition set_credential :: "credential \<Rightarrow> auth_store \<Rightarrow> auth_store" where
  "set_credential c st = st\<lparr>au_credential := Some c\<rparr>"

definition create_credential_if_absent :: "credential \<Rightarrow> auth_store \<Rightarrow> bool \<times> auth_store" where
  "create_credential_if_absent c st =
     (if has_credential st then (False, st) else (True, st\<lparr>au_credential := Some c\<rparr>))"

definition clear_credential :: "auth_store \<Rightarrow> auth_store" where
  "clear_credential st = st\<lparr>au_credential := None\<rparr>"

definition last_used_throttle_s :: pyfloat where "last_used_throttle_s = 60"

text \<open>The hash is unique: a second key with the same hash raises.\<close>

definition create_api_key :: "string \<Rightarrow> string \<Rightarrow> string \<Rightarrow> pyfloat \<Rightarrow> auth_store \<Rightarrow> nat option \<times> auth_store" where
  "create_api_key label h last4 now st =
     (if h \<in> ak_hash ` set (au_keys st) then (None, st)
      else (Some (au_next_id st),
        st\<lparr>au_keys := au_keys st @ [\<lparr>ak_id = au_next_id st, ak_label = label, ak_hash = h, ak_last4 = last4, ak_created = now,
             ak_last_used = None\<rparr>],
           au_next_id := au_next_id st + 1\<rparr>))"

definition list_api_keys :: "auth_store \<Rightarrow> (nat \<times> string \<times> string \<times> pyfloat \<times> pyfloat option) list" where
  "list_api_keys st =
     map (\<lambda>k. (ak_id k, ak_label k, ak_last4 k, ak_created k, ak_last_used k)) (sort_key ak_created (au_keys st))"

definition touch_key :: "pyfloat \<Rightarrow> api_key_row \<Rightarrow> api_key_row" where
  "touch_key now k =
     (case ak_last_used k of
        None \<Rightarrow> k\<lparr>ak_last_used := Some now\<rparr>
      | Some t \<Rightarrow> if last_used_throttle_s \<le> now - t then k\<lparr>ak_last_used := Some now\<rparr> else k)"

definition verify_api_key :: "crypto \<Rightarrow> string \<Rightarrow> pyfloat \<Rightarrow> auth_store \<Rightarrow> string option \<times> auth_store" where
  "verify_api_key C token now st =
     (case List.find (\<lambda>k. ak_hash k = sha C token) (au_keys st) of
        None \<Rightarrow> (None, st)
      | Some k \<Rightarrow>
          (Some (ak_label k),
           st\<lparr>au_keys := map (\<lambda>k'. if ak_id k' = ak_id k then touch_key now k' else k') (au_keys st)\<rparr>))"

definition delete_api_key :: "nat \<Rightarrow> auth_store \<Rightarrow> bool \<times> auth_store" where
  "delete_api_key i st =
     (let ks = filter (\<lambda>k. ak_id k \<noteq> i) (au_keys st) in (length ks < length (au_keys st), st\<lparr>au_keys := ks\<rparr>))"

section \<open>Who a request is made by\<close>

record auth_settings =
  as_user :: string
  as_pass :: string
  as_key :: string
  as_disabled :: bool
  as_csrf :: bool

text \<open>Headers as the dictionary the code builds (a later one of the same name wins).\<close>

record web_request =
  rq_method :: string
  rq_path :: string
  rq_user :: "string option"
  rq_headers :: "(string \<times> string) list"
  rq_query :: string

definition header :: "string \<Rightarrow> web_request \<Rightarrow> string" where
  "header h rq = or_empty (map_of (rev (rq_headers rq)) h)"

definition decode_basic :: "crypto \<Rightarrow> string \<Rightarrow> (string \<times> string) option" where
  "decode_basic C h =
     (if \<not> prefix ''Basic '' h then None
      else (case basic_decode C (drop 6 h) of
          None \<Rightarrow> None
        | Some t \<Rightarrow>
            if CHR '':'' \<notin> set t then None
            else Some (takeWhile (\<lambda>c. c \<noteq> CHR '':'') t, drop 1 (dropWhile (\<lambda>c. c \<noteq> CHR '':'') t))))"

definition presented_key :: "crypto \<Rightarrow> web_request \<Rightarrow> string" where
  "presented_key C rq =
     (if header ''x-api-key'' rq \<noteq> [] then header ''x-api-key'' rq
      else (case query_values C (rq_query rq) of [] \<Rightarrow> [] | v # _ \<Rightarrow> v))"

text \<open>The env pair: whose name it is if it matches; the outer \<open>None\<close> is an exception, here and below.\<close>

definition env_basic :: "crypto \<Rightarrow> auth_settings \<Rightarrow> web_request \<Rightarrow> string option option" where
  "env_basic C S rq =
     (if as_user S = [] \<or> as_pass S = [] then Some None
      else (case decode_basic C (header ''authorization'' rq) of
          None \<Rightarrow> Some None
        | Some (u, p) \<Rightarrow> map_option (\<lambda>b. if b then Some u else None) (both_match u (as_user S) p (as_pass S))))"

definition current_principal ::
    "crypto \<Rightarrow> auth_settings \<Rightarrow> pyfloat \<Rightarrow> web_request \<Rightarrow> auth_store \<Rightarrow> string option option \<times> auth_store" where
  "current_principal C S now rq st =
     (if truthy_str (rq_user rq) then (Some (rq_user rq), st)
      else (case env_basic C S rq of
          None \<Rightarrow> (None, st)
        | Some (Some u) \<Rightarrow> (Some (Some u), st)
        | Some None \<Rightarrow>
            (let key = presented_key C rq in
             if key = [] then (Some None, st)
             else (case (if as_key S = [] then Some False else compare_digest key (as_key S)) of
                 None \<Rightarrow> (None, st)
               | Some True \<Rightarrow> (Some (Some ''api-key''), st)
               | Some False \<Rightarrow>
                   (case verify_api_key C key now st of
                      (None, st') \<Rightarrow> (Some None, st')
                    | (Some label, st') \<Rightarrow> (Some (Some (''key:'' @ label)), st'))))))"

section \<open>The gates\<close>

definition needs_setup :: "auth_settings \<Rightarrow> auth_store \<Rightarrow> bool" where
  "needs_setup S st \<longleftrightarrow> as_user S = [] \<and> as_key S = [] \<and> \<not> has_credential st"

definition gate_bypass_exact :: "string list" where
  "gate_bypass_exact = [''/api/health'', ''/login'', ''/setup'', ''/api/auth/state'', ''/api/auth/login'', ''/api/auth/logout'']"

definition gate_bypassed :: "string \<Rightarrow> bool \<Rightarrow> bool" where
  "gate_bypassed path setup_mode \<longleftrightarrow>
     path \<in> set gate_bypass_exact \<or> prefix ''/static/'' path \<or> setup_mode \<and> path = ''/api/auth/setup''"

datatype outcome = Reached | Redirected string | Denied nat | Crashed

text \<open>No store yet: the gate is open.\<close>

definition auth_gate ::
    "crypto \<Rightarrow> auth_settings \<Rightarrow> pyfloat \<Rightarrow> web_request \<Rightarrow> auth_store option \<Rightarrow> outcome \<times> auth_store option" where
  "auth_gate C S now rq store =
     (case store of
        None \<Rightarrow> (Reached, None)
      | Some st \<Rightarrow>
          if as_disabled S \<or> gate_bypassed (rq_path rq) (needs_setup S st) then (Reached, Some st)
          else (case current_principal C S now rq st of
              (None, st') \<Rightarrow> (Crashed, Some st')
            | (Some (Some _), st') \<Rightarrow> (Reached, Some st')
            | (Some None, st') \<Rightarrow>
                (if needs_setup S st then Redirected ''/setup''
                 else if prefix ''/api/'' (rq_path rq) then Denied 401
                 else Redirected ''/login'', Some st')))"

definition unsafe_methods :: "string list" where "unsafe_methods = [''POST'', ''PUT'', ''PATCH'', ''DELETE'']"

definition upper_char :: "char \<Rightarrow> char" where
  "upper_char c = (let n = code_of c in if 97 \<le> n \<and> n \<le> 122 then char_of (n - 32) else c)"

definition csrf_gate :: "crypto \<Rightarrow> bool \<Rightarrow> web_request \<Rightarrow> bool" where
  "csrf_gate C enabled rq \<longleftrightarrow>
     \<not> enabled \<or> map upper_char (rq_method rq) \<notin> set unsafe_methods \<or> \<not> prefix ''/api/'' (rq_path rq)
     \<or> (let sfs = lower (header ''sec-fetch-site'' rq); origin = header ''origin'' rq; host = url_netloc C origin in
        if sfs \<noteq> [] then sfs = ''same-origin'' \<or> sfs = ''none''
        else if origin \<noteq> [] then host \<noteq> [] \<and> (host = header ''host'' rq \<or> host = header ''x-forwarded-host'' rq)
        else True)"

text \<open>The session is read first, then the gate decides, then the origin is checked.\<close>

definition pass_gates ::
    "crypto \<Rightarrow> auth_settings \<Rightarrow> pyfloat \<Rightarrow> web_request \<Rightarrow> auth_store option \<Rightarrow> outcome \<times> auth_store option" where
  "pass_gates C S now rq store =
     (case auth_gate C S now rq store of
        (Reached, store') \<Rightarrow> (if csrf_gate C (as_csrf S) rq then Reached else Denied 403, store')
      | r \<Rightarrow> r)"

section \<open>Setup, login, logout\<close>

text \<open>The world the handlers work on: the store, the throttle, and the users for whom a session cookie was issued.\<close>

record auth_world =
  aw_store :: auth_store
  aw_throttle :: throttle
  aw_issued :: "string list"

definition min_password :: nat where "min_password = 8"
definition max_password :: nat where "max_password = 1024"

definition setup_admin :: "crypto \<Rightarrow> auth_settings \<Rightarrow> string \<Rightarrow> string \<Rightarrow> string \<Rightarrow> auth_world \<Rightarrow> (nat + string) \<times> auth_world" where
  "setup_admin C S salt username pw w =
     (let user = strip username in
      if max_password < length pw then (Inl 422, w)
      else if \<not> needs_setup S (aw_store w) then (Inl 409, w)
      else if user = [] then (Inl 422, w)
      else if length pw < min_password then (Inl 422, w)
      else (case create_credential_if_absent
              \<lparr>cr_username = user, cr_hash = hash_password C salt pw, cr_salt = salt, cr_iterations = pbkdf2_iters\<rparr> (aw_store w) of
          (False, _) \<Rightarrow> (Inl 409, w)
        | (True, st) \<Rightarrow> (Inr user, w\<lparr>aw_store := st, aw_issued := user # aw_issued w\<rparr>)))"

definition verify_login :: "crypto \<Rightarrow> auth_settings \<Rightarrow> string \<Rightarrow> string \<Rightarrow> auth_store \<Rightarrow> bool option" where
  "verify_login C S user pw st =
     (case (if as_user S \<noteq> [] \<and> as_pass S \<noteq> [] then both_match user (as_user S) pw (as_pass S) else Some False) of
        None \<Rightarrow> None
      | Some True \<Rightarrow> Some True
      | Some False \<Rightarrow>
          (case au_credential st of
             None \<Rightarrow> Some False
           | Some c \<Rightarrow>
               map_option (\<lambda>b. b \<and> verify_password C pw (cr_hash c) (cr_salt c) (cr_iterations c))
                 (compare_digest user (cr_username c))))"

definition login :: "crypto \<Rightarrow> auth_settings \<Rightarrow> string \<Rightarrow> pyfloat \<Rightarrow> string \<Rightarrow> string \<Rightarrow> auth_world \<Rightarrow> (nat + string) \<times> auth_world" where
  "login C S ip now user pw w =
     (if max_password < length pw then (Inl 422, w)
      else (case check_ip ip now (aw_throttle w) of
          ((True, _), th) \<Rightarrow> (Inl 429, w\<lparr>aw_throttle := th\<rparr>)
        | ((False, _), th) \<Rightarrow>
            (case verify_login C S user pw (aw_store w) of
               None \<Rightarrow> (Inl 500, w\<lparr>aw_throttle := th\<rparr>)
             | Some True \<Rightarrow> (Inr user, w\<lparr>aw_throttle := clear_ip ip th, aw_issued := user # aw_issued w\<rparr>)
             | Some False \<Rightarrow> (Inl 401, w\<lparr>aw_throttle := record_failed_login ip now th\<rparr>))))"

definition max_label :: nat where "max_label = 64"

definition create_key :: "crypto \<Rightarrow> string \<Rightarrow> string \<Rightarrow> pyfloat \<Rightarrow> auth_world \<Rightarrow> (nat + nat) \<times> auth_world" where
  "create_key C token label now w =
     (let l = strip label in
      if l = [] then (Inl 422, w)
      else if max_label < length l then (Inl 422, w)
      else (case create_api_key l (sha C token) (drop (length token - 4) token) now (aw_store w) of
          (None, _) \<Rightarrow> (Inl 500, w)
        | (Some i, st) \<Rightarrow> (Inr i, w\<lparr>aw_store := st\<rparr>)))"

definition delete_key :: "nat \<Rightarrow> auth_world \<Rightarrow> (nat + unit) \<times> auth_world" where
  "delete_key i w =
     (case delete_api_key i (aw_store w) of
        (False, _) \<Rightarrow> (Inl 404, w)
      | (True, st) \<Rightarrow> (Inr (), w\<lparr>aw_store := st\<rparr>))"

text \<open>A start of the program with a fresh throttle, which clears the credential when that is asked for.\<close>

definition boot :: "throttle \<Rightarrow> bool \<Rightarrow> auth_world \<Rightarrow> auth_world" where
  "boot th reset w =
     (let w' = w\<lparr>aw_throttle := th\<rparr> in if reset then w'\<lparr>aw_store := clear_credential (aw_store w)\<rparr> else w')"

section \<open>What can happen\<close>

text \<open>Any request to any of the handlers, or a visit of the gates; a restart keeps the store and the cookies. A cookie that
  was never issued does not verify.\<close>

inductive auth_step :: "crypto \<Rightarrow> auth_settings \<Rightarrow> auth_world \<Rightarrow> auth_world \<Rightarrow> bool" for C S where
  enroll: "auth_step C S w (snd (setup_admin C S salt user pw w))"
| sign_in: "auth_step C S w (snd (login C S ip now user pw w))"
| visit: "(\<And>u. rq_user rq = Some u \<Longrightarrow> u \<in> set (aw_issued w)) \<Longrightarrow> pass_gates C S now rq (Some (aw_store w)) = (r, Some st)
    \<Longrightarrow> auth_step C S w (w\<lparr>aw_store := st\<rparr>)"
| mint: "auth_step C S w (snd (create_key C token label now w))"
| revoke: "auth_step C S w (snd (delete_key i w))"
| restart: "auth_step C S w (boot th False w)"

definition is_admin :: "auth_settings \<Rightarrow> auth_store \<Rightarrow> string \<Rightarrow> bool" where
  "is_admin S st u \<longleftrightarrow>
     (as_user S \<noteq> [] \<and> as_pass S \<noteq> [] \<and> u = as_user S) \<or> (\<exists>c. au_credential st = Some c \<and> u = cr_username c)"

definition auth_inv :: "auth_settings \<Rightarrow> auth_world \<Rightarrow> bool" where
  "auth_inv S w \<longleftrightarrow>
     (\<forall>u \<in> set (aw_issued w). is_admin S (aw_store w) u)
     \<and> distinct (map ak_id (au_keys (aw_store w))) \<and> distinct (map ak_hash (au_keys (aw_store w)))
     \<and> (\<forall>k \<in> set (au_keys (aw_store w)). ak_id k < au_next_id (aw_store w))"

lemma compare_digest_True: "compare_digest a b = Some True \<longleftrightarrow> ascii a \<and> ascii b \<and> a = b"
  by (auto simp: compare_digest_def)

lemma both_match_True: "both_match a x b y = Some True \<Longrightarrow> a = x \<and> b = y"
  by (auto simp: both_match_def compare_digest_True split: option.splits bool.splits)

lemma verify_login_admin: "verify_login C S user pw st = Some True \<Longrightarrow> is_admin S st user"
  by (auto simp: verify_login_def is_admin_def compare_digest_def both_match_True split: option.splits bool.splits if_splits)

lemma touch_key_keeps [simp]: "ak_id (touch_key now k) = ak_id k" "ak_hash (touch_key now k) = ak_hash k"
  by (simp_all add: touch_key_def split: option.split)

text \<open>Two stores agree on everything but when a key was last used.\<close>

definition same_but_use :: "auth_store \<Rightarrow> auth_store \<Rightarrow> bool" where
  "same_but_use st st' \<longleftrightarrow> au_credential st' = au_credential st \<and> map ak_id (au_keys st') = map ak_id (au_keys st)
     \<and> map ak_hash (au_keys st') = map ak_hash (au_keys st) \<and> au_next_id st' = au_next_id st"

lemma same_refl [simp]: "same_but_use st st"
  by (simp add: same_but_use_def)

lemma verify_api_key_same: "same_but_use st (snd (verify_api_key C token now st))"
  by (auto simp: verify_api_key_def same_but_use_def split: option.split)

lemma current_principal_same: "same_but_use st (snd (current_principal C S now rq st))"
  using verify_api_key_same [of st C "presented_key C rq" now]
  by (auto simp: current_principal_def Let_def split: option.split bool.split prod.split)

lemma auth_gate_same: "auth_gate C S now rq (Some st) = (r, Some st') \<Longrightarrow> same_but_use st st'"
  using current_principal_same [of st C S now rq]
  by (auto simp: auth_gate_def split: if_splits option.splits prod.splits)

lemma pass_gates_same: "pass_gates C S now rq (Some st) = (r, Some st') \<Longrightarrow> same_but_use st st'"
  using auth_gate_same by (auto simp: pass_gates_def split: prod.splits outcome.splits)

lemma same_inv:
  assumes "auth_inv S w" and "same_but_use (aw_store w) st"
  shows "auth_inv S (w\<lparr>aw_store := st\<rparr>)"
proof -
  have "ak_id ` set (au_keys st) = ak_id ` set (au_keys (aw_store w))"
    using assms(2) by (metis same_but_use_def set_map)
  then have "\<forall>k \<in> set (au_keys st). ak_id k < au_next_id st"
    using assms by (auto simp: auth_inv_def same_but_use_def) (metis (no_types, lifting) imageE imageI)
  then show ?thesis using assms by (auto simp: auth_inv_def same_but_use_def is_admin_def)
qed

lemma setup_inv:
  assumes "auth_inv S w"
  shows "auth_inv S (snd (setup_admin C S salt user pw w))
    \<and> (\<forall>c. au_credential (aw_store w) = Some c \<longrightarrow> au_credential (aw_store (snd (setup_admin C S salt user pw w))) = Some c)"
  using assms
  by (auto simp: setup_admin_def create_credential_if_absent_def has_credential_def auth_inv_def is_admin_def Let_def
      split: prod.splits bool.splits if_splits)

lemma login_inv:
  assumes "auth_inv S w"
  shows "auth_inv S (snd (login C S ip now user pw w)) \<and> aw_store (snd (login C S ip now user pw w)) = aw_store w"
  using assms verify_login_admin [of C S user pw "aw_store w"]
  by (auto simp: login_def auth_inv_def split: prod.splits bool.splits option.splits)

lemma create_key_inv:
  assumes "auth_inv S w"
  shows "auth_inv S (snd (create_key C token label now w))
    \<and> au_credential (aw_store (snd (create_key C token label now w))) = au_credential (aw_store w)"
  using assms by (auto simp: create_key_def create_api_key_def auth_inv_def is_admin_def Let_def split: prod.splits option.splits if_splits)

lemma delete_key_inv:
  assumes "auth_inv S w"
  shows "auth_inv S (snd (delete_key i w)) \<and> au_credential (aw_store (snd (delete_key i w))) = au_credential (aw_store w)"
  using assms by (auto simp: delete_key_def delete_api_key_def auth_inv_def is_admin_def Let_def distinct_map_filter
      split: prod.splits bool.splits)

lemma auth_step_inv:
  assumes "auth_step C S w w'" and "auth_inv S w"
  shows "auth_inv S w' \<and> (\<forall>c. au_credential (aw_store w) = Some c \<longrightarrow> au_credential (aw_store w') = Some c)"
  using assms
proof (cases rule: auth_step.cases)
  case (visit rq now r st)
  then have "same_but_use (aw_store w) st" using pass_gates_same by blast
  then show ?thesis using same_inv assms(2) visit by (auto simp: same_but_use_def)
next
  case (restart th)
  then show ?thesis using assms(2) by (simp add: boot_def Let_def auth_inv_def)
qed (use setup_inv login_inv create_key_inv delete_key_inv assms(2) in auto)

lemma auth_steps_inv:
  assumes "(auth_step C S)\<^sup>*\<^sup>* w w'" and "auth_inv S w"
  shows "auth_inv S w' \<and> (\<forall>c. au_credential (aw_store w) = Some c \<longrightarrow> au_credential (aw_store w') = Some c)"
  using assms by (induction rule: rtranclp_induct) (use auth_step_inv in blast)+

section \<open>Who gets through\<close>

lemma verify_api_key_known: "fst (verify_api_key C token now st) \<noteq> None \<longleftrightarrow> sha C token \<in> ak_hash ` set (au_keys st)"
proof -
  have "fst (verify_api_key C token now st) \<noteq> None \<longleftrightarrow> List.find (\<lambda>k. ak_hash k = sha C token) (au_keys st) \<noteq> None"
    by (simp add: verify_api_key_def split: option.split)
  then show ?thesis unfolding find_None_iff by force
qed

lemma decode_env: "env_basic C S rq = Some (Some u) \<Longrightarrow>
    as_user S \<noteq> [] \<and> as_pass S \<noteq> [] \<and> decode_basic C (header ''authorization'' rq) = Some (as_user S, as_pass S)"
  by (auto simp: env_basic_def both_match_True split: if_splits option.splits prod.splits)

lemma principal_known:
  assumes "fst (current_principal C S now rq st) = Some (Some u)"
  shows "rq_user rq = Some u \<and> u \<noteq> []
    \<or> (as_user S \<noteq> [] \<and> as_pass S \<noteq> [] \<and> decode_basic C (header ''authorization'' rq) = Some (as_user S, as_pass S))
    \<or> (presented_key C rq \<noteq> [] \<and> (presented_key C rq = as_key S \<or> sha C (presented_key C rq) \<in> ak_hash ` set (au_keys st)))"
proof (cases "truthy_str (rq_user rq)")
  case True
  then show ?thesis using assms by (auto simp: current_principal_def truthy_str_def)
next
  case False
  show ?thesis
  proof (cases "env_basic C S rq")
    case None
    then show ?thesis using assms False by (simp add: current_principal_def)
  next
    case (Some e)
    show ?thesis
    proof (cases e)
      case None
      then show ?thesis
        using assms False Some verify_api_key_known [of C "presented_key C rq" now st]
        by (auto simp: current_principal_def Let_def compare_digest_True split: option.splits bool.splits if_splits prod.splits)
    next
      case (Some v)
      then show ?thesis using decode_env \<open>env_basic C S rq = Some e\<close> by blast
    qed
  qed
qed

lemma pass_gates_Reached:
  assumes "fst (pass_gates C S now rq (Some st)) = Reached" and "\<not> as_disabled S"
    and "\<not> gate_bypassed (rq_path rq) (needs_setup S st)"
  shows "\<exists>u. fst (current_principal C S now rq st) = Some (Some u)" and "csrf_gate C (as_csrf S) rq"
  using assms by (auto simp: pass_gates_def auth_gate_def split: prod.splits outcome.splits option.splits if_splits)




definition demo_crypto :: crypto where
  "demo_crypto = \<lparr>kdf = (\<lambda>pw salt n. Some (pw @ salt)), sha = (\<lambda>t. t), basic_decode = Some, query_values = (\<lambda>_. []), url_netloc = (\<lambda>u. u)\<rparr>"

definition plain_settings :: auth_settings where
  "plain_settings = \<lparr>as_user = [], as_pass = [], as_key = [], as_disabled = False, as_csrf = True\<rparr>"

definition fresh_world :: auth_world where
  "fresh_world = \<lparr>aw_store = \<lparr>au_credential = None, au_secret = None, au_keys = [], au_next_id = 1\<rparr>,
     aw_throttle = new_throttle 5 300 (\<lambda>_. False) 4096, aw_issued = []\<rparr>"

definition demo_user :: string where "demo_user = ''admin''"

definition signed_in :: auth_world where
  "signed_in = snd (setup_admin demo_crypto plain_settings ''s'' demo_user ''correct horse'' fresh_world)"

definition visit_by :: "string option \<Rightarrow> web_request" where
  "visit_by u = \<lparr>rq_method = ''GET'', rq_path = ''/api/queue'', rq_user = u, rq_headers = [], rq_query = []\<rparr>"

lemma signed_in_world:
  "fst (setup_admin demo_crypto plain_settings ''s'' demo_user ''correct horse'' fresh_world) = Inr demo_user"
  "signed_in = fresh_world\<lparr>aw_store := \<lparr>au_credential = Some \<lparr>cr_username = demo_user, cr_hash = ''correct horses'', cr_salt = ''s'',
     cr_iterations = 200000\<rparr>, au_secret = None, au_keys = [], au_next_id = 1\<rparr>, aw_issued := [demo_user]\<rparr>"
proof -
  have "strip demo_user = demo_user" unfolding demo_user_def by code_simp
  then show "fst (setup_admin demo_crypto plain_settings ''s'' demo_user ''correct horse'' fresh_world) = Inr demo_user"
    "signed_in = fresh_world\<lparr>aw_store := \<lparr>au_credential = Some \<lparr>cr_username = demo_user, cr_hash = ''correct horses'', cr_salt = ''s'',
     cr_iterations = 200000\<rparr>, au_secret = None, au_keys = [], au_next_id = 1\<rparr>, aw_issued := [demo_user]\<rparr>"
    by (simp_all add: signed_in_def setup_admin_def needs_setup_def plain_settings_def fresh_world_def has_credential_def
        create_credential_if_absent_def max_password_def min_password_def hash_password_def demo_crypto_def or_empty_def
        pbkdf2_iters_def Let_def demo_user_def)
qed

lemma visit_protected: "\<not> gate_bypassed (rq_path (visit_by u)) (needs_setup S st)"
  by (simp add: visit_by_def gate_bypassed_def gate_bypass_exact_def)

lemma cookie_passes: "u \<noteq> [] \<Longrightarrow> fst (pass_gates C S now (visit_by (Some u)) (Some st)) = Reached"
  using visit_protected [of "Some u" S st]
  by (simp add: pass_gates_def auth_gate_def current_principal_def truthy_str_def csrf_gate_def visit_by_def unsafe_methods_def
      upper_char_def code_of_def)

lemma fresh_inv: "auth_inv S fresh_world"
  by (simp add: auth_inv_def fresh_world_def)


lemma unthrottled: "fst (fst (check_ip ip now (aw_throttle signed_in))) = False"
  by (simp add: signed_in_world fresh_world_def check_ip_def new_throttle_def prune_fails_def)


section \<open>Where the door is shut, or stays open\<close>

text \<open>An account whose name is not ASCII can be set up, and then nobody can sign in: every attempt raises.\<close>

lemma non_ascii_account_never_signs_in:
  assumes "setup_admin C S salt name pw w = (Inr user, w')" and "\<not> ascii user"
    and "fst (fst (check_ip ip now (aw_throttle w'))) = False" and "length pw' \<le> max_password"
  shows "fst (login C S ip now u pw' w') = Inl 500"
proof -
  have "needs_setup S (aw_store w)" "map_option cr_username (au_credential (aw_store w')) = Some user"
    using assms(1) by (auto simp: setup_admin_def create_credential_if_absent_def Let_def split: if_splits prod.splits bool.splits)
  then have "verify_login C S u pw' (aw_store w') = None"
    using assms(2) by (auto simp: verify_login_def needs_setup_def compare_digest_def)
  then show ?thesis using assms(3,4) by (auto simp: login_def split: prod.splits bool.splits)
qed

text \<open>A user in the environment without a password: setup is not offered, and no login succeeds.\<close>

lemma half_set_user_locks_everyone_out:
  assumes "as_user S \<noteq> []" and "as_pass S = []" and "au_credential (aw_store w) = None"
  shows "\<not> needs_setup S (aw_store w)" and "fst (setup_admin C S salt name pw w) \<in> {Inl 409, Inl 422}"
    and "fst (login C S ip now u pw' w) \<in> {Inl 401, Inl 422, Inl 429}"
  using assms by (auto simp: needs_setup_def setup_admin_def login_def verify_login_def Let_def split: prod.splits bool.splits)

text \<open>With a pair in the environment, a password that is not ASCII tells its user name apart from every other: the answer is 500
  instead of 401, and the attempt is not counted.\<close>

lemma non_ascii_password_reveals_the_user:
  assumes "as_user S \<noteq> []" and "as_pass S \<noteq> []" and "ascii (as_user S)" and "\<not> ascii pw" and "length pw \<le> max_password"
    and "check_ip ip now (aw_throttle w) = ((False, r), th)" and "au_credential (aw_store w) = None"
    and "ascii u" and "u \<noteq> as_user S"
  shows "login C S ip now (as_user S) pw w = (Inl 500, w\<lparr>aw_throttle := th\<rparr>)"
    and "fst (login C S ip now u pw w) = Inl 401"
  using assms by (simp_all add: login_def verify_login_def both_match_def compare_digest_def)

text \<open>A reset of the credential, which the log advises after a raced setup, leaves the cookie of whoever won the race valid.\<close>

lemma reset_leaves_sessions_alive:
  "needs_setup plain_settings (aw_store (boot th True signed_in))"
  "demo_user \<in> set (aw_issued (boot th True signed_in))"
  "fst (pass_gates C plain_settings now (visit_by (Some demo_user)) (Some (aw_store (boot th True signed_in)))) = Reached"
proof -
  show "fst (pass_gates C plain_settings now (visit_by (Some demo_user)) (Some (aw_store (boot th True signed_in)))) = Reached"
    by (rule cookie_passes) (simp add: demo_user_def)
qed (simp_all add: boot_def needs_setup_def plain_settings_def clear_credential_def has_credential_def signed_in_world)


end
