(* ===== verification/CoverageRows.thy ===== *)
theory CoverageRows
  imports MediaProbe SidecarLang VerdictStore
begin

text \<open>
  The rows of the coverage report of \<open>src/src/subarr/coverage_engine.py\<close>: which probe a row is given,
  how its audio language is decided, and the passes over all rows afterwards. The explanatory notes
  of a row are constructors instead of English sentences.
\<close>

section \<open>The row\<close>

datatype media_type = Episode | Movie
datatype verification_state = Verified | Probe_failed | Unprobed | Unsupported
datatype audio_origin = From_user | From_whisper | From_plex | From_ffprobe | From_multilingual

datatype audio_note =
    Title_note title_note
  | User_confirmed string
  | User_contradicts string "string list"
  | Whisper_verified string
  | Whisper_contradicts string "string list"
  | Plex_pick string
  | Plex_selected string
  | No_language_metadata
  | English_on_foreign string "string list"
  | Default_track_differs track_mismatch
  | Carried_over string
  | Multilingual_audio "string list"
  | Bazarr_blind_to "string option"

datatype score_reason =
    Playing_now | Transcoding | Recently_imported | Airs_soon
  | Watched_7d | Watched_30d | Plays_30d nat
  | Non_english string | Is_monitored | Stale_on_disk
  | Embedded_full english_label | Embedded_partial english_label
  | Will_skip_forced | Will_skip_image | External_image string | Will_skip_external_image
  | Task_for_file string string
  | Cannot_produce "string list" "string list"

record coverage_item =
  it_media :: media_type
  it_title :: string
  it_episode_title :: "string option"
  it_episode_number :: "string option"
  it_original :: "string option"
  it_monitored :: "bool option"
  it_tags :: "string list"
  it_path :: "string option"
  it_sub_on_disk :: bool
  it_sub_files :: "string list"
  it_image_subs :: "string list"
  it_sonarr :: "nat option"
  it_radarr :: "nat option"
  it_episode :: "nat option"
  it_missing :: "string list"
  it_embedded :: "english_label option"
  it_audio_langs :: "string list"
  it_audio_tracks :: "(string option \<times> bool) list"
  it_lang_codes :: "string list option"
  it_rescan :: bool
  it_file :: "string option"
  it_pending :: bool
  it_now_playing :: bool
  it_just_imported :: bool
  it_import_ts :: "pyfloat option"
  it_mixed :: bool
  it_mixed_langs :: "string list"
  it_airing_soon :: bool
  it_suspect :: bool
  it_unknown :: bool
  it_notes :: "audio_note list"
  it_blind :: bool
  it_audio_verified :: bool
  it_origin :: "audio_origin option"
  it_mismatch :: bool
  it_score :: int
  it_reasons :: "score_reason list"
  it_state :: verification_state
  it_forced_skip :: bool
  it_image_skip :: bool
  it_cannot_produce :: bool
  it_track_flag :: bool
  it_track_mismatch :: "track_mismatch option"

definition add_notes :: "audio_note list \<Rightarrow> coverage_item \<Rightarrow> coverage_item" where
  "add_notes ns it = it\<lparr>it_notes := it_notes it @ ns\<rparr>"

section \<open>Verified languages in bulk\<close>

text \<open>\<open>_SeriesIntentLookup\<close>: exact rows first, then the longest declared prefix; \<open>sorted\<close> is stable.\<close>

definition match_intent :: "(string \<times> string) list \<Rightarrow> string \<Rightarrow> string option" where
  "match_intent intents key =
     map_option snd (List.find (\<lambda>(p, _). prefix p key) (sort_key (\<lambda>t. - int (length (fst t))) intents))"

definition series_lookup :: "(string \<times> string) list \<Rightarrow> (string \<times> string) list \<Rightarrow> string \<Rightarrow> string option" where
  "series_lookup base intents key =
     (case map_of (rev base) key of Some v \<Rightarrow> Some v | None \<Rightarrow> match_intent intents key)"

definition user_verifications :: "verdict_store option \<Rightarrow> string \<Rightarrow> string option" where
  "user_verifications store =
     (case store of
        None \<Rightarrow> (\<lambda>_. None)
      | Some st \<Rightarrow> series_lookup (get_all_as_lookup st) (map (\<lambda>i. (in_prefix i, in_lang i)) (list_series_intents st)))"

definition verification_sources :: "verdict_store option \<Rightarrow> string \<Rightarrow> string option" where
  "verification_sources store =
     (case store of
        None \<Rightarrow> (\<lambda>_. None)
      | Some st \<Rightarrow> series_lookup (get_all_sources_as_lookup st)
          (map (\<lambda>i. (in_prefix i, ''series_intent:'' @ in_source i)) (list_series_intents st)))"

section \<open>The audio label\<close>

text \<open>The tags a row already claims: \<open>l\<close> with \<open>l.lower() not in ("", "und")\<close>.\<close>

definition prior_tags :: "coverage_item \<Rightarrow> string list" where
  "prior_tags it = filter (\<lambda>l. l \<noteq> [] \<and> lower l \<noteq> ''und'') (it_audio_langs it)"

definition normalized_tags :: "string list \<Rightarrow> string option list" where
  "normalized_tags ls = map (\<lambda>l. normalize_lang (Some l)) ls"

definition norm_or_und :: "string \<Rightarrow> string" where
  "norm_or_und l = (let n = normalize_lang (Some l) in if truthy_str n then or_empty n else ''und'')"

definition title_key :: "coverage_item \<Rightarrow> string" where
  "title_key it = lower (strip (it_title it))"

definition set_audio :: "string list \<Rightarrow> audio_origin \<Rightarrow> coverage_item \<Rightarrow> coverage_item" where
  "set_audio langs origin it =
     it\<lparr>it_audio_langs := langs, it_suspect := False, it_unknown := False, it_origin := Some origin\<rparr>"

definition heard :: "(string \<Rightarrow> string option) \<Rightarrow> coverage_item \<Rightarrow> string option" where
  "heard lookup it = (if truthy_str (it_file it) then lookup (or_empty (it_file it)) else None)"

definition label_from_user :: "string \<Rightarrow> coverage_item \<Rightarrow> coverage_item" where
  "label_from_user confirmed it =
     (let prior = prior_tags it;
          contradicts = prior \<noteq> [] \<and> normalize_lang (Some confirmed) \<notin> set (normalized_tags prior)
      in add_notes [if contradicts then User_contradicts confirmed prior else User_confirmed confirmed]
           ((set_audio [confirmed] From_user it)
              \<lparr>it_audio_verified := True, it_mismatch := it_mismatch it \<or> contradicts\<rparr>))"

definition label_from_whisper :: "string \<Rightarrow> coverage_item \<Rightarrow> coverage_item" where
  "label_from_whisper spoken it =
     (let verified = lower spoken; prior = prior_tags it;
          contradicts = prior \<noteq> [] \<and> Some verified \<notin> set (normalized_tags prior)
      in add_notes [if contradicts then Whisper_contradicts verified prior else Whisper_verified verified]
           ((set_audio [verified] From_whisper it)\<lparr>it_mismatch := it_mismatch it \<or> contradicts\<rparr>))"

definition label_from_tags :: "coverage_item \<Rightarrow> coverage_item" where
  "label_from_tags it =
     (let langs = map norm_or_und (it_audio_langs it);
          known = filter (\<lambda>l. l \<noteq> [] \<and> l \<noteq> ''und'') langs
      in if known = [] then add_notes [No_language_metadata] (it\<lparr>it_unknown := True\<rparr>)
         else (let orig = lower (strip (or_empty (it_original it)));
                   suspect = orig \<noteq> [] \<and> orig \<noteq> ''english'' \<and> list_all (\<lambda>l. l = ''en'') known;
                   it1 = (if suspect then add_notes [English_on_foreign (or_empty (it_original it)) known] (it\<lparr>it_suspect := True\<rparr>) else it)
               in if it_origin it1 = None \<and> \<not> it_unknown it1 \<and> \<not> it_suspect it1
                  then it1\<lparr>it_origin := Some From_ffprobe\<rparr> else it1))"

definition classify_audio_label ::
    "(string \<Rightarrow> string option) \<Rightarrow> (string \<Rightarrow> string option) \<Rightarrow> (string \<Rightarrow> string option) \<Rightarrow> (string \<Rightarrow> string option)
      \<Rightarrow> coverage_item \<Rightarrow> coverage_item" where
  "classify_audio_label tautulli user plex whisper it =
     (case heard user it of
        Some c \<Rightarrow> label_from_user c it
      | None \<Rightarrow>
          (case heard whisper it of
             Some w \<Rightarrow> label_from_whisper w it
           | None \<Rightarrow>
               (case tautulli (title_key it) of
                  Some l \<Rightarrow> add_notes [Plex_pick l] (set_audio [l] From_plex it)
                | None \<Rightarrow>
                    (case plex (title_key it) of
                       Some l \<Rightarrow> add_notes [Plex_selected l] (set_audio [l] From_plex it)
                     | None \<Rightarrow> label_from_tags it))))"

section \<open>Attaching a probe\<close>

definition apply_track_mismatch :: "probe_result \<Rightarrow> coverage_item \<Rightarrow> coverage_item" where
  "apply_track_mismatch pr it =
     (if \<not> suffix ''.mkv'' (lower (or_empty (it_file it))) then it
      else (case detect_default_track_mismatch (pr_audio pr) (it_original it) of
          None \<Rightarrow> it
        | Some m \<Rightarrow> add_notes [Default_track_differs m] (it\<lparr>it_track_flag := True, it_track_mismatch := Some m\<rparr>)))"

record hints =
  hi_tautulli :: "string \<Rightarrow> string option"
  hi_user :: "string \<Rightarrow> string option"
  hi_plex :: "string \<Rightarrow> string option"
  hi_whisper :: "string \<Rightarrow> string option"

definition apply_probe :: "hints \<Rightarrow> string \<Rightarrow> probe_result \<Rightarrow> coverage_item \<Rightarrow> coverage_item" where
  "apply_probe h file pr it =
     (let (langs, notes) = audio_lang_summary_with_titles pr;
          it1 = add_notes (map Title_note notes)
                  (it\<lparr>it_file := Some file, it_embedded := english_track_summary pr, it_audio_langs := langs,
                      it_audio_tracks := map (\<lambda>a. (as_language a, as_default a)) (pr_audio pr)\<rparr>);
          it2 = classify_audio_label (hi_tautulli h) (hi_user h) (hi_plex h) (hi_whisper h) it1
      in (apply_track_mismatch pr it2)\<lparr>it_state := Verified\<rparr>)"

text \<open>The probe index lists every probe, and the failure index every failed file, under each of its
  ancestor folders.\<close>

type_synonym probe_index = "string \<Rightarrow> (string \<times> probe_result) list"
type_synonym failed_index = "string \<Rightarrow> string list"

text \<open>\<open>p.rsplit("/", 1)[0]\<close>.\<close>

definition dir_name :: "string \<Rightarrow> string" where
  "dir_name p = (if CHR ''/'' \<in> set p then rsplit_first (CHR ''/'') p else p)"

definition attach_probe_episode :: "hints \<Rightarrow> probe_index \<Rightarrow> failed_index \<Rightarrow> coverage_item \<Rightarrow> coverage_item" where
  "attach_probe_episode h idx failed it =
     (if truthy_str (it_file it) then
        (let exact = or_empty (it_file it); folder = dir_name exact in
         case List.find (\<lambda>(f, _). f = exact) (idx folder) of
           Some (f, pr) \<Rightarrow> apply_probe h f pr it
         | None \<Rightarrow> if exact \<in> set (failed folder) then it\<lparr>it_state := Probe_failed\<rparr> else it)
      else if \<not> truthy_str (it_path it) then it
      else (case episode_pattern (it_episode_number it) of
          None \<Rightarrow> it
        | Some pat \<Rightarrow>
            (let hit = (\<lambda>f. contains pat (lower (base_name f))); dir = or_empty (it_path it) in
             case List.find (\<lambda>(f, _). hit f) (idx dir) of
               Some (f, pr) \<Rightarrow> apply_probe h f pr it
             | None \<Rightarrow> if list_ex hit (failed dir) then it\<lparr>it_state := Probe_failed\<rparr> else it)))"

definition attach_probe_movie :: "hints \<Rightarrow> probe_index \<Rightarrow> failed_index \<Rightarrow> coverage_item \<Rightarrow> coverage_item" where
  "attach_probe_movie h idx failed it =
     (if \<not> truthy_str (it_path it) then it
      else (let dir = or_empty (it_path it);
                candidates = (if truthy_str (it_file it) then filter (\<lambda>(f, _). Some f = it_file it) (idx dir) else idx dir)
            in case candidates of
                 [] \<Rightarrow> if failed dir \<noteq> [] then it\<lparr>it_state := Probe_failed\<rparr> else it
               | (f, pr) # _ \<Rightarrow> apply_probe h f pr it))"

section \<open>Bulk lookups agree with single lookups\<close>

lemma find_longest:
  assumes "List.find (\<lambda>(p, _). prefix p key) (sort_key (\<lambda>t. - int (length (fst t))) ts) = Some t"
  shows "t \<in> set ts \<and> prefix (fst t) key \<and> (\<forall>u \<in> set ts. prefix (fst u) key \<longrightarrow> length (fst u) \<le> length (fst t))"
proof -
  let ?s = "sort_key (\<lambda>t. - int (length (fst t))) ts"
  from assms obtain i where i: "i < length ?s" "?s ! i = t" "prefix (fst t) key" and before: "\<forall>j < i. \<not> prefix (fst (?s ! j)) key"
    by (auto simp: find_Some_iff case_prod_beta)
  have "length (fst u) \<le> length (fst t)" if u: "u \<in> set ts" "prefix (fst u) key" for u
  proof -
    from u(1) have "u \<in> set ?s" by simp
    then obtain k where k: "k < length ?s" "?s ! k = u" by (metis in_set_conv_nth)
    with before u(2) have "i \<le> k" by (meson not_le)
    moreover have "sorted (map (\<lambda>t. - int (length (fst t))) ?s)" by (rule sorted_sort_key)
    ultimately have "- int (length (fst t)) \<le> - int (length (fst u))"
      using i k by (auto simp: sorted_iff_nth_mono)
    then show ?thesis by simp
  qed
  moreover have "t \<in> set ts" using i nth_mem [of i ?s] by auto
  ultimately show ?thesis using i by blast
qed

lemma match_intent_longest:
  assumes d: "distinct (map in_prefix rs)"
  shows "match_intent (map (\<lambda>i. (in_prefix i, g i)) rs) key = map_option g (longest_intent key rs None)"
proof (cases "longest_intent key rs None")
  case None
  from longest_intent_None [OF this] show ?thesis
    by (auto simp: None match_intent_def find_NoneD)
next
  case (Some i)
  note i = longest_intent_Some [OF Some]
  let ?ts = "map (\<lambda>i. (in_prefix i, g i)) rs"
  obtain t where t: "List.find (\<lambda>(p, _). prefix p key) (sort_key (\<lambda>t. - int (length (fst t))) ?ts) = Some t"
    using i by (cases "List.find (\<lambda>(p, _). prefix p key) (sort_key (\<lambda>t. - int (length (fst t))) ?ts)") (auto simp: find_NoneD)
  note l = find_longest [OF t]
  from l obtain j where j: "j \<in> set rs" "t = (in_prefix j, g j)" by auto
  have "length (in_prefix j) = length (in_prefix i)"
    using i l j by (force intro!: antisym)
  moreover have "prefix (in_prefix j) key" "prefix (in_prefix i) key" using l j i by auto
  ultimately have "in_prefix j = in_prefix i"
    by (metis append_eq_append_conv prefix_def)
  with d i j have "j = i" by (auto simp: distinct_map inj_on_def)
  with t j show ?thesis by (simp add: match_intent_def Some)
qed

lemma longest_intent_perm:
  assumes "distinct (map in_prefix rs)" "set rs = set rs'" "distinct (map in_prefix rs')"
  shows "longest_intent key rs None = longest_intent key rs' None"
proof (cases "longest_intent key rs None")
  case None
  from longest_intent_None [OF this] assms(2) show ?thesis
    unfolding None by (cases "longest_intent key rs' None") (auto dest: longest_intent_Some)
next
  case (Some i)
  note i = longest_intent_Some [OF Some]
  then have "longest_intent key rs' None \<noteq> None"
    using longest_intent_None [of key rs'] assms(2) by auto
  then obtain j where j: "longest_intent key rs' None = Some j" by auto
  note j' = longest_intent_Some [OF j]
  have "length (in_prefix i) = length (in_prefix j)"
    using i j' assms(2) by (force intro!: antisym)
  moreover have "prefix (in_prefix i) key" "prefix (in_prefix j) key" using i j' by auto
  ultimately have "in_prefix i = in_prefix j"
    by (metis append_eq_append_conv prefix_def)
  with assms i j' have "i = j" by (auto simp: distinct_map inj_on_def)
  with Some j show ?thesis by simp
qed

lemma distinct_lookup_rows:
  assumes "distinct (map vd_path rows)"
  shows "map_of (rev (map (\<lambda>r. (vd_path r, g r)) rows)) key = map_option g (row_find vd_path key rows)"
proof -
  have "map_of (rev (map (\<lambda>r. (vd_path r, g r)) rows)) = map_of (map (\<lambda>r. (vd_path r, g r)) rows)"
    using assms by (subst map_of_inject_set) (simp_all add: o_def rev_map [symmetric])
  moreover have "map_of (map (\<lambda>r. (vd_path r, g r)) rows) key = map_option g (row_find vd_path key rows)"
    by (induction rows) (auto simp: row_find_def)
  ultimately show ?thesis by simp
qed

lemma list_intents_keys:
  "distinct (map in_prefix (vs_intents st)) \<Longrightarrow> distinct (map in_prefix (sort_key (\<lambda>i. - in_at i) (vs_intents st)))"
  by (simp add: distinct_map inj_on_def)

text \<open>The lookup maps that a coverage build loads in bulk give every path the language and the source
  of a single lookup in the verdict store: the file's own verdict, and otherwise the most specific
  series rule.\<close>

theorem bulk_lookup_agrees:
  assumes "store_ok st"
  shows "user_verifications (Some st) p = map_option vd_lang (fst (get_verdict env now False p st))
    \<and> verification_sources (Some st) p = map_option vd_source (fst (get_verdict env now False p st))"
proof -
  from assms have d: "distinct (map vd_path (vs_rows st))" "distinct (map in_prefix (vs_intents st))"
    by (simp_all add: store_ok_def)
  let ?s = "sort_key (\<lambda>i. - in_at i) (vs_intents st)"
  have m: "match_intent (map (\<lambda>i. (in_prefix i, g i)) ?s) p = map_option g (longest_intent p (vs_intents st) None)" for g :: "intent \<Rightarrow> string"
    using match_intent_longest [OF list_intents_keys [OF d(2)], of g p]
      longest_intent_perm [OF list_intents_keys [OF d(2)] _ d(2), of p] by simp
  have "get_verdict env now False p st = (case get_exact p st of Some v \<Rightarrow> (Some v, st) | None \<Rightarrow> (get_intent p st, st))"
    by (simp add: get_verdict_def split: option.split)
  moreover have "user_verifications (Some st) p = (case row_find vd_path p (vs_rows st) of
      Some r \<Rightarrow> Some (norm_or (vd_lang r) (vd_lang r))
    | None \<Rightarrow> map_option (\<lambda>i. norm_or (in_lang i) (in_lang i)) (longest_intent p (vs_intents st) None))"
    using m [of "\<lambda>i. norm_or (in_lang i) (in_lang i)"]
    by (simp add: user_verifications_def series_lookup_def get_all_as_lookup_def list_series_intents_def o_def
        distinct_lookup_rows [OF d(1)] split: option.split)
  moreover have "verification_sources (Some st) p = (case row_find vd_path p (vs_rows st) of
      Some r \<Rightarrow> Some (vd_source r)
    | None \<Rightarrow> map_option (\<lambda>i. ''series_intent:'' @ in_source i) (longest_intent p (vs_intents st) None))"
    using m [of "\<lambda>i. ''series_intent:'' @ in_source i"]
    by (simp add: verification_sources_def series_lookup_def get_all_sources_as_lookup_def list_series_intents_def o_def
        distinct_lookup_rows [OF d(1)] split: option.split)
  ultimately show ?thesis
    by (auto simp: get_exact_def get_intent_def row_view_def split: option.split)
qed

definition ruled_store :: verdict_store where
  "ruled_store = set_series_intent 2 ''TV/Alert/S2'' ''German'' ''user'' 1 None None
     (set_series_intent 1 ''TV/Alert'' ''French'' ''user'' 1 None None empty_store)"

theorem bulk_lookup_agrees_witness:
  "user_verifications (Some ruled_store) ''TV/Alert/S2/x.mkv'' = Some ''de''"
proof -
  have "store_ok ruled_store"
    by (simp add: store_ok_def) code_simp
  moreover have "map_option vd_lang (fst (get_verdict demo_fs 0 False ''TV/Alert/S2/x.mkv'' ruled_store)) = Some ''de''"
    by code_simp
  ultimately show ?thesis
    using bulk_lookup_agrees [of ruled_store "''TV/Alert/S2/x.mkv''" demo_fs 0] by simp
qed

section \<open>What a label says\<close>

lemma add_notes_fields [simp]:
  "it_file (add_notes ns it) = it_file it" "it_suspect (add_notes ns it) = it_suspect it"
  "it_unknown (add_notes ns it) = it_unknown it" "it_origin (add_notes ns it) = it_origin it"
  "it_audio_langs (add_notes ns it) = it_audio_langs it" "it_embedded (add_notes ns it) = it_embedded it"
  "it_audio_tracks (add_notes ns it) = it_audio_tracks it" "it_state (add_notes ns it) = it_state it"
  "it_original (add_notes ns it) = it_original it" "it_mismatch (add_notes ns it) = it_mismatch it"
  "it_audio_verified (add_notes ns it) = it_audio_verified it"
  by (simp_all add: add_notes_def)

definition fresh_label :: "coverage_item \<Rightarrow> bool" where
  "fresh_label it \<longleftrightarrow> \<not> it_suspect it \<and> \<not> it_unknown it \<and> it_origin it = None"

text \<open>The languages the tags of a row name.\<close>

definition tagged_langs :: "coverage_item \<Rightarrow> string list" where
  "tagged_langs it = filter (\<lambda>l. l \<noteq> ''und'') (map norm_or_und (it_audio_langs it))"

definition foreign_title :: "coverage_item \<Rightarrow> bool" where
  "foreign_title it \<longleftrightarrow> lower (strip (or_empty (it_original it))) \<notin> {[], ''english''}"

definition authority ::
    "(string \<Rightarrow> string option) \<Rightarrow> (string \<Rightarrow> string option) \<Rightarrow> (string \<Rightarrow> string option) \<Rightarrow> (string \<Rightarrow> string option)
      \<Rightarrow> coverage_item \<Rightarrow> (audio_origin \<times> string) option" where
  "authority tautulli user plex whisper it =
     (case (heard user it, heard whisper it, tautulli (title_key it), plex (title_key it)) of
        (Some c, _) \<Rightarrow> Some (From_user, c)
      | (None, Some w, _) \<Rightarrow> Some (From_whisper, lower w)
      | (None, None, Some l, _) \<Rightarrow> Some (From_plex, l)
      | (None, None, None, Some l) \<Rightarrow> Some (From_plex, l)
      | (None, None, None, None) \<Rightarrow> None)"

lemma norm_or_und_nonempty [simp]: "norm_or_und l \<noteq> []" "[] \<noteq> norm_or_und l"
  by (auto simp: norm_or_und_def Let_def truthy_str_def or_empty_def split: option.splits)

lemma label_from_tags_cases:
  assumes "fresh_label it"
  shows "it_unknown (label_from_tags it) \<longleftrightarrow> tagged_langs it = []"
    "it_suspect (label_from_tags it) \<longleftrightarrow> tagged_langs it \<noteq> [] \<and> foreign_title it \<and> set (tagged_langs it) \<subseteq> {''en''}"
    "it_origin (label_from_tags it) =
       (if it_unknown (label_from_tags it) \<or> it_suspect (label_from_tags it) then None else Some From_ffprobe)"
    "it_audio_langs (label_from_tags it) = it_audio_langs it"
proof -
  have k: "filter (\<lambda>l. l \<noteq> [] \<and> l \<noteq> ''und'') (map norm_or_und (it_audio_langs it)) = tagged_langs it"
    by (auto simp: tagged_langs_def intro!: filter_cong)
  define orig where "orig = lower (strip (or_empty (it_original it)))"
  have e: "label_from_tags it =
      (if tagged_langs it = [] then add_notes [No_language_metadata] (it\<lparr>it_unknown := True\<rparr>)
       else (let it1 = (if foreign_title it \<and> set (tagged_langs it) \<subseteq> {''en''}
                  then add_notes [English_on_foreign (or_empty (it_original it)) (tagged_langs it)] (it\<lparr>it_suspect := True\<rparr>) else it)
             in if it_origin it1 = None \<and> \<not> it_unknown it1 \<and> \<not> it_suspect it1
                then it1\<lparr>it_origin := Some From_ffprobe\<rparr> else it1))"
    unfolding label_from_tags_def Let_def k foreign_title_def list_all_iff subset_eq by simp
  show "it_unknown (label_from_tags it) \<longleftrightarrow> tagged_langs it = []"
    "it_suspect (label_from_tags it) \<longleftrightarrow> tagged_langs it \<noteq> [] \<and> foreign_title it \<and> set (tagged_langs it) \<subseteq> {''en''}"
    "it_origin (label_from_tags it) =
       (if it_unknown (label_from_tags it) \<or> it_suspect (label_from_tags it) then None else Some From_ffprobe)"
    "it_audio_langs (label_from_tags it) = it_audio_langs it"
    using assms unfolding e fresh_label_def by (simp_all add: Let_def)
qed

text \<open>C5. Every row that gets a label ends in exactly one of three ways. When the user, Whisper or Plex has
  spoken, in this order, the row takes that one language and that origin. Without them, it is
  unknown exactly when no tag names a language, suspect exactly when all tags say English on a title
  whose original language is another, and otherwise keeps its tags with the lowest origin.\<close>

theorem audio_label_outcome:
  fixes tautulli user plex whisper :: "string \<Rightarrow> string option"
  assumes "fresh_label it"
  defines "r \<equiv> classify_audio_label tautulli user plex whisper it"
  shows "case authority tautulli user plex whisper it of
      Some (origin, l) \<Rightarrow> it_origin r = Some origin \<and> it_audio_langs r = [l] \<and> \<not> it_suspect r \<and> \<not> it_unknown r
    | None \<Rightarrow> it_audio_langs r = it_audio_langs it
        \<and> (it_unknown r \<longleftrightarrow> tagged_langs it = [])
        \<and> (it_suspect r \<longleftrightarrow> tagged_langs it \<noteq> [] \<and> foreign_title it \<and> set (tagged_langs it) \<subseteq> {''en''})
        \<and> it_origin r = (if it_unknown r \<or> it_suspect r then None else Some From_ffprobe)"
proof (cases "authority tautulli user plex whisper it")
  case None
  then have "r = label_from_tags it"
    by (auto simp: r_def classify_audio_label_def authority_def split: option.splits)
  with None show ?thesis by (simp add: label_from_tags_cases [OF assms(1)])
next
  case (Some a)
  then show ?thesis
    by (auto simp: r_def classify_audio_label_def authority_def label_from_user_def label_from_whisper_def Let_def set_audio_def
        split: option.splits)
qed

definition blank_item :: coverage_item where
  "blank_item = \<lparr>it_media = Episode, it_title = ''Dark'', it_episode_title = None, it_episode_number = Some ''1x2'', it_original = Some ''German'',
     it_monitored = Some True, it_tags = [], it_path = Some ''TV/Dark'', it_sub_on_disk = False, it_sub_files = [],
     it_image_subs = [], it_sonarr = Some 7,
     it_radarr = None, it_episode = Some 5, it_missing = [''en''], it_embedded = None, it_audio_langs = [],
     it_audio_tracks = [], it_lang_codes = None, it_rescan = False, it_file = Some ''TV/Dark/S1/Dark.S01E02.mkv'', it_pending = False,
     it_now_playing = False, it_just_imported = False, it_import_ts = None, it_mixed = False, it_mixed_langs = [],
     it_airing_soon = False, it_suspect = False, it_unknown = False, it_notes = [], it_blind = False, it_audio_verified = False,
     it_origin = None, it_mismatch = False, it_score = 0, it_reasons = [], it_state = Unprobed, it_forced_skip = False,
     it_image_skip = False, it_cannot_produce = False, it_track_flag = False, it_track_mismatch = None\<rparr>"

definition no_hint :: "string \<Rightarrow> string option" where
  "no_hint k = None"

theorem audio_label_outcome_witness:
  "it_suspect (classify_audio_label no_hint no_hint no_hint no_hint (blank_item\<lparr>it_audio_langs := [''eng'']\<rparr>))"
proof -
  let ?it = "blank_item\<lparr>it_audio_langs := [''eng'']\<rparr>"
  have "fresh_label ?it" "authority no_hint no_hint no_hint no_hint ?it = None"
    and "tagged_langs ?it = [''en'']" "foreign_title ?it"
    by code_simp+
  then show ?thesis
    using audio_label_outcome [of ?it no_hint no_hint no_hint no_hint] by simp
qed

section \<open>What a probe proves\<close>

lemma classify_keeps [simp]:
  "it_file (classify_audio_label t u p w it) = it_file it"
  "it_embedded (classify_audio_label t u p w it) = it_embedded it"
  "it_audio_tracks (classify_audio_label t u p w it) = it_audio_tracks it"
  "it_state (classify_audio_label t u p w it) = it_state it"
  by (simp_all add: classify_audio_label_def label_from_user_def label_from_whisper_def label_from_tags_def
      set_audio_def Let_def split: option.split)

lemma mismatch_keeps [simp]:
  "it_file (apply_track_mismatch pr it) = it_file it"
  "it_embedded (apply_track_mismatch pr it) = it_embedded it"
  "it_audio_tracks (apply_track_mismatch pr it) = it_audio_tracks it"
  by (simp_all add: apply_track_mismatch_def split: option.split)

definition shows_probe :: "string \<Rightarrow> probe_result \<Rightarrow> coverage_item \<Rightarrow> bool" where
  "shows_probe f pr it \<longleftrightarrow> it_state it = Verified \<and> it_file it = Some f \<and> it_embedded it = english_track_summary pr
     \<and> it_audio_tracks it = map (\<lambda>a. (as_language a, as_default a)) (pr_audio pr)"

lemma apply_probe_shows: "shows_probe f pr (apply_probe h f pr it)"
  by (simp add: shows_probe_def apply_probe_def Let_def case_prod_beta)

text \<open>A row whose file is resolved is verified only by a probe of that very file: after attaching probes
  an unprobed row either shows the embedded subtitles and audio tracks of an indexed probe of its own
  file, or keeps its file and is not verified.\<close>

theorem probe_of_the_row_itself:
  assumes "it_file it = Some f" "f \<noteq> []" "it_state it = Unprobed"
    "r = attach_probe_episode h idx failed it \<or> r = attach_probe_movie h idx failed it"
  shows "(\<exists>d pr. (f, pr) \<in> set (idx d) \<and> shows_probe f pr r) \<or> (it_file r = Some f \<and> it_state r \<noteq> Verified)"
  using assms(4)
proof
  assume r: "r = attach_probe_episode h idx failed it"
  show ?thesis
  proof (cases "List.find (\<lambda>(g, _). g = f) (idx (dir_name f))")
    case None
    then show ?thesis
      using assms r by (simp add: attach_probe_episode_def truthy_str_def or_empty_def Let_def)
  next
    case (Some q)
    then have q: "q \<in> set (idx (dir_name f))" "fst q = f"
      by (auto dest: find_SomeD simp: case_prod_beta)
    then have "r = apply_probe h f (snd q) it"
      using assms r Some by (simp add: attach_probe_episode_def truthy_str_def or_empty_def Let_def case_prod_beta)
    then show ?thesis using apply_probe_shows q by (metis prod.collapse)
  qed
next
  assume r: "r = attach_probe_movie h idx failed it"
  define cs where "cs = filter (\<lambda>(g, _). g = f) (idx (or_empty (it_path it)))"
  have e: "r = (if \<not> truthy_str (it_path it) then it
      else case cs of [] \<Rightarrow> if failed (or_empty (it_path it)) \<noteq> [] then it\<lparr>it_state := Probe_failed\<rparr> else it
        | (g, pr) # _ \<Rightarrow> apply_probe h g pr it)"
    using assms r by (simp add: attach_probe_movie_def truthy_str_def Let_def cs_def)
  show ?thesis
  proof (cases cs)
    case Nil
    then show ?thesis using e assms by simp
  next
    case (Cons q qs)
    then have "q \<in> set cs" by simp
    then have q: "q \<in> set (idx (or_empty (it_path it)))" "fst q = f"
      by (auto simp: cs_def)
    then obtain pr where pr: "q = (f, pr)" by (metis prod.collapse)
    show ?thesis
    proof (cases "truthy_str (it_path it)")
      case True
      with e Cons pr have "r = apply_probe h f pr it" by simp
      with q(1) pr show ?thesis by (metis apply_probe_shows)
    next
      case False
      with e assms(1,3) show ?thesis by simp
    qed
  qed
qed

definition dark_index :: probe_index where
  "dark_index d = (if d = ''TV/Dark/S1''
     then [(''TV/Dark/S1/Dark.S01E02.OLD.mkv'', \<lparr>pr_path = [], pr_audio = dubbed_tracks, pr_subtitles = []\<rparr>)] else [])"

theorem probe_of_the_row_itself_witness:
  "it_state (attach_probe_episode \<lparr>hi_tautulli = no_hint, hi_user = no_hint, hi_plex = no_hint, hi_whisper = no_hint\<rparr>
     dark_index (\<lambda>_. []) blank_item) \<noteq> Verified"
proof -
  let ?h = "\<lparr>hi_tautulli = no_hint, hi_user = no_hint, hi_plex = no_hint, hi_whisper = no_hint\<rparr>"
  let ?r = "attach_probe_episode ?h dark_index (\<lambda>_. []) blank_item"
  have "it_file blank_item = Some ''TV/Dark/S1/Dark.S01E02.mkv''" "it_state blank_item = Unprobed"
    by (simp_all add: blank_item_def)
  then have "(\<exists>d pr. (''TV/Dark/S1/Dark.S01E02.mkv'', pr) \<in> set (dark_index d) \<and> shows_probe ''TV/Dark/S1/Dark.S01E02.mkv'' pr ?r)
      \<or> (it_file ?r = Some ''TV/Dark/S1/Dark.S01E02.mkv'' \<and> it_state ?r \<noteq> Verified)"
    by (intro probe_of_the_row_itself [where h = ?h and idx = dark_index and failed = "\<lambda>_. []" and it = blank_item]) auto
  then show ?thesis by (auto simp: dark_index_def split: if_splits)
qed

end
