(* ===== verification/PerFileTask.thy ===== *)
theory PerFileTask
  imports SubgenCaps
begin

text \<open>
  Transcribe or translate, per file (\<open>src/src/subarr/per_file_task.py\<close>). A track is its raw
  language tag and its default flag. The order in which subgen picks the audio language is
  stated here once more as a specification (which of the four sources decides), and the
  loops of \<open>resolve_source_language\<close> are proved to follow it.
\<close>

datatype task = Transcribe | Translate

definition subgen_track_language :: "string option \<Rightarrow> string option" where
  "subgen_track_language raw_tag =
     (if truthy_str raw_tag then map_of upstream_iso639_2_to_1 (or_empty raw_tag) else None)"

text \<open>The loop over the preferred list: \<open>Some c\<close> returns a language, \<open>None\<close> falls through to the
  default track (list exhausted, or a \<open>None\<close> entry matched an unknown-language track).\<close>

fun preferred_match :: "string option list \<Rightarrow> string option list \<Rightarrow> string option" where
  "preferred_match track_langs [] = None"
| "preferred_match track_langs (p # ps) =
     (if p \<notin> set track_langs then preferred_match track_langs ps else p)"

fun default_track :: "(string option \<times> bool) list \<Rightarrow> string option" where
  "default_track [] = None"
| "default_track ((tag, is_default) # ts) = (if is_default then subgen_track_language tag else default_track ts)"

definition resolve_source_language ::
    "(string option \<times> bool) list \<Rightarrow> string option \<Rightarrow> string option \<Rightarrow> string option list \<Rightarrow> string option" where
  "resolve_source_language tracks forced force_detected preferred =
     (if truthy_str forced then forced
      else if truthy_str force_detected then force_detected
      else (case preferred_match (map (\<lambda>t. subgen_track_language (fst t)) tracks) preferred of
          Some c \<Rightarrow> Some c
        | None \<Rightarrow> default_track tracks))"

definition choose_task :: "string option \<Rightarrow> string list \<Rightarrow> task option" where
  "choose_task source wanted =
     (case source of
        None \<Rightarrow> None
      | Some l \<Rightarrow>
          if l \<in> set wanted then Some Transcribe
          else if ''en'' \<in> set wanted then Some Translate else None)"

definition producible_for_task :: "task \<Rightarrow> string option \<Rightarrow> string set" where
  "producible_for_task t source =
     (case t of
        Translate \<Rightarrow> {''en''}
      | Transcribe \<Rightarrow> if truthy_str source then {or_empty source} else {})"

record per_file_config =
  pf_wanted :: "string list"
  pf_preferred :: "string option list"
  pf_force_detected :: "string option"

text \<open>An entry of the wanted list that is no string is \<open>None\<close>.\<close>

fun normalize_wanted_loop :: "string option list \<Rightarrow> string list \<Rightarrow> string list" where
  "normalize_wanted_loop [] acc = acc"
| "normalize_wanted_loop (w # ws) acc =
     (case normalize_lang w of
        None \<Rightarrow> normalize_wanted_loop ws acc
      | Some code \<Rightarrow>
          normalize_wanted_loop ws
            (if code \<noteq> [] \<and> code \<noteq> ''und'' \<and> code \<notin> set acc then acc @ [code] else acc))"

definition normalize_wanted :: "string option list option \<Rightarrow> string list" where
  "normalize_wanted wanted = normalize_wanted_loop (case wanted of None \<Rightarrow> [] | Some ws \<Rightarrow> ws) []"

definition active_config :: "bool \<Rightarrow> string option list option \<Rightarrow> subgen_caps option \<Rightarrow> per_file_config option" where
  "active_config settings_enabled wanted caps =
     (case caps of
        None \<Rightarrow> None
      | Some c \<Rightarrow>
          let norm = normalize_wanted wanted in
          if \<not> settings_enabled then None
          else if norm = [] then None
          else if \<not> per_request_task c then None
          else (case preferred_audio_languages c of
              None \<Rightarrow> None
            | Some preferred \<Rightarrow>
                if preferred_audio_languages_unreadable c \<noteq> [] then None
                else if truthy_str (force_detected_language_unreadable c) then None
                else Some \<lparr>pf_wanted = norm, pf_preferred = preferred,
                  pf_force_detected = (if truthy_str (force_detected_language_to c)
                                       then force_detected_language_to c else None)\<rparr>))"

section \<open>Properties\<close>

lemma preferred_match_first:
  "set pre \<inter> set langs = {} \<Longrightarrow> p \<in> set langs \<Longrightarrow> preferred_match langs (pre @ p # post) = p"
  by (induction pre) auto

lemma preferred_match_none: "set ps \<inter> set langs = {} \<Longrightarrow> preferred_match langs ps = None"
  by (induction ps) auto

text \<open>When neither subarr nor subgen forces a language, the resolved language is that of the
  first preferred entry some track matches; a matching null entry, or no match at all, hands
  the decision to the first default track, even when a later preferred entry would match.\<close>

theorem source_language_order:
  fixes tracks :: "(string option \<times> bool) list"
  assumes "\<not> truthy_str forced" and "\<not> truthy_str force_detected"
  defines "langs \<equiv> map (\<lambda>t. subgen_track_language (fst t)) tracks"
  shows "(\<forall>pre p post. preferred = pre @ p # post \<and> set pre \<inter> set langs = {} \<and> p \<in> set langs \<longrightarrow>
            resolve_source_language tracks forced force_detected preferred =
              (case p of Some c \<Rightarrow> Some c | None \<Rightarrow> default_track tracks))
    \<and> (set preferred \<inter> set langs = {} \<longrightarrow>
            resolve_source_language tracks forced force_detected preferred = default_track tracks)"
  using assms(1,2) preferred_match_none [of preferred langs]
  by (auto simp: resolve_source_language_def preferred_match_first langs_def [symmetric] split: option.splits)

lemma track_eval: "subgen_track_language (Some ''jpn'') = Some ''ja''" "subgen_track_language (Some ''en'') = None"
  "subgen_track_language (Some ''fre'') = Some ''fr''"
  by code_simp+

theorem source_language_order_witness:
  "resolve_source_language [(Some ''en'', False), (Some ''fre'', False), (Some ''jpn'', True)] None None [Some ''de'', None, Some ''fr''] = Some ''ja''"
  using source_language_order [of None None "[Some ''de'', None, Some ''fr'']" "[(Some ''en'', False), (Some ''fre'', False), (Some ''jpn'', True)]",
      THEN conjunct1, rule_format, of "[Some ''de'']" None "[Some ''fr'']"]
  by (simp add: truthy_str_def track_eval)

text \<open>The chosen task never produces an unwanted subtitle, and no task is chosen only when
  none could produce a wanted one: the gate and the dispatch that share these two functions
  agree.\<close>

theorem choose_task_correct:
  assumes "source \<noteq> []"
  shows "(case choose_task (Some source) wanted of
            Some t \<Rightarrow> producible_for_task t (Some source) \<noteq> {} \<and> producible_for_task t (Some source) \<subseteq> set wanted
          | None \<Rightarrow> (\<forall>t. producible_for_task t (Some source) \<inter> set wanted = {}))"
proof -
  have "producible_for_task t (Some source) \<inter> set wanted = {}" if "source \<notin> set wanted" "''en'' \<notin> set wanted" for t
    using that by (cases t) (auto simp: producible_for_task_def or_empty_def)
  then show ?thesis using assms
    by (simp add: choose_task_def) (simp add: producible_for_task_def truthy_str_def or_empty_def)
qed

theorem choose_task_correct_witness:
  "choose_task (Some ''ja'') [''en'', ''es''] = Some Translate \<and> producible_for_task Translate (Some ''ja'') \<subseteq> {''en'', ''es''}"
  using choose_task_correct [of "''ja''" "[''en'', ''es'']"] by (simp add: choose_task_def)

lemma normalize_wanted_loop_distinct: "distinct acc \<Longrightarrow> distinct (normalize_wanted_loop ws acc)"
  by (induction ws arbitrary: acc) (auto split: option.splits)

lemma normalize_wanted_loop_set:
  "set (normalize_wanted_loop ws acc) =
     set acc \<union> {c. \<exists>w \<in> set ws. normalize_lang w = Some c \<and> c \<noteq> [] \<and> c \<noteq> ''und''}"
  by (induction ws arbitrary: acc) (auto split: option.splits)

text \<open>The feature is active exactly when it is switched on, at least one wanted label
  normalises to a language, and subgen advertises per-request tasks and readable language
  settings; the wanted list is then duplicate-free and holds exactly those languages.\<close>

theorem active_config_iff:
  "active_config enabled (Some ws) (Some c) = Some cfg \<longleftrightarrow>
     enabled \<and> per_request_task c \<and> preferred_audio_languages c = Some (pf_preferred cfg)
     \<and> preferred_audio_languages_unreadable c = [] \<and> \<not> truthy_str (force_detected_language_unreadable c)
     \<and> pf_force_detected cfg = (if truthy_str (force_detected_language_to c) then force_detected_language_to c else None)
     \<and> pf_wanted cfg = normalize_wanted (Some ws) \<and> distinct (pf_wanted cfg)
     \<and> set (pf_wanted cfg) = {l. l \<noteq> [] \<and> l \<noteq> ''und'' \<and> Some l \<in> normalize_lang ` set ws} \<and> pf_wanted cfg \<noteq> []"
proof -
  have w: "distinct (normalize_wanted (Some ws))"
    "set (normalize_wanted (Some ws)) = {l. l \<noteq> [] \<and> l \<noteq> ''und'' \<and> Some l \<in> normalize_lang ` set ws}"
    by (auto simp: normalize_wanted_def normalize_wanted_loop_distinct normalize_wanted_loop_set) (metis image_eqI)
  show ?thesis
    using w by (cases cfg) (auto simp: active_config_def Let_def split: option.splits)
qed

end
