(* ===== verification/PendingQueue.thy ===== *)
theory PendingQueue
  imports Paths
begin

text \<open>
  The pending-queue store (\<open>src/src/subarr/pending_queue.py\<close>). The SQLite table
  \<open>pending_queue\<close> is the list of its rows in rowid order; each statement of the source is
  one definition over that list. Time stamps and the fresh \<open>uuid4\<close> id are arguments.
  \<open>position\<close> is a REAL column: an exact rational here (midpoints are exact, as long as
  binary64 can represent them).
\<close>

section \<open>Jobs\<close>

datatype job_status = PENDING | SUBMITTED | DONE | ERROR

record pending_job =
  pj_id :: string
  pj_path :: string
  pj_position :: pyfloat
  pj_priority :: int
  pj_status :: job_status
  pj_override :: "string option"
  pj_task :: "string option"
  pj_source :: string
  pj_created_at :: pyfloat
  pj_submitted_at :: "pyfloat option"
  pj_error :: "string option"
  pj_series_id :: "int option"
  pj_episode_id :: "int option"
  pj_ignore_forced :: bool
  pj_bypass_skip :: bool
  pj_movie_id :: "int option"

type_synonym queue_store = "pending_job list"

datatype queue_error = ValueError | KeyError string

definition active :: "pending_job \<Rightarrow> bool" where
  "active j \<longleftrightarrow> pj_status j = PENDING \<or> pj_status j = SUBMITTED"

definition is_pending :: "pending_job \<Rightarrow> bool" where
  "is_pending j \<longleftrightarrow> pj_status j = PENDING"

definition priority_by_source :: "string \<Rightarrow> int option" where
  "priority_by_source = map_of [(''manual'', 2), (''gaps'', 1), (''auto'', 1), (''backfill'', 0)]"

definition default_priority :: int where
  "default_priority = 0"

section \<open>Row access\<close>

definition find_job :: "string \<Rightarrow> queue_store \<Rightarrow> pending_job option" where
  "find_job jid st = row_find pj_id jid st"

definition require_job :: "string \<Rightarrow> queue_store \<Rightarrow> queue_error + pending_job" where
  "require_job jid st = (case find_job jid st of None \<Rightarrow> Inl (KeyError jid) | Some j \<Rightarrow> Inr j)"

definition update_rows :: "string \<Rightarrow> (pending_job \<Rightarrow> pending_job) \<Rightarrow> queue_store \<Rightarrow> queue_store" where
  "update_rows jid f st = rows_update pj_id jid f st"

definition delete_where :: "(pending_job \<Rightarrow> bool) \<Rightarrow> queue_store \<Rightarrow> queue_store" where
  "delete_where p st = rows_delete p st"

section \<open>Enqueue with dedup\<close>

definition source_priority :: "int option \<Rightarrow> string \<Rightarrow> int" where
  "source_priority priority source =
     (case priority of Some p \<Rightarrow> p
      | None \<Rightarrow> (case priority_by_source source of Some p \<Rightarrow> p | None \<Rightarrow> default_priority))"

definition next_position :: "int \<Rightarrow> queue_store \<Rightarrow> pyfloat" where
  "next_position prio st =
     (case sql_max (map pj_position (filter (\<lambda>j. is_pending j \<and> pj_priority j = prio) st)) of
        None \<Rightarrow> 0 | Some m \<Rightarrow> m + 1)"

definition enqueue ::
    "string \<Rightarrow> pyfloat \<Rightarrow> string \<Rightarrow> string \<Rightarrow> int option \<Rightarrow> string option \<Rightarrow> string option \<Rightarrow> int option
      \<Rightarrow> int option \<Rightarrow> bool \<Rightarrow> bool \<Rightarrow> int option \<Rightarrow> queue_store \<Rightarrow> pending_job \<times> queue_store" where
  "enqueue new_id now path source priority ovr tsk series episode ignore_forced bypass movie st =
     (let prio = source_priority priority source in
      case List.find (\<lambda>j. pj_path j = path \<and> active j) st of
        Some existing \<Rightarrow> (existing, st)
      | None \<Rightarrow>
          (let job = \<lparr>pj_id = new_id, pj_path = path, pj_position = next_position prio st,
                      pj_priority = prio, pj_status = PENDING, pj_override = ovr, pj_task = tsk,
                      pj_source = source, pj_created_at = now, pj_submitted_at = None, pj_error = None,
                      pj_series_id = series, pj_episode_id = episode,
                      pj_ignore_forced = ignore_forced, pj_bypass_skip = bypass,
                      pj_movie_id = movie\<rparr>
           in (job, st @ [job])))"

section \<open>Reads in feeder order\<close>

text \<open>\<open>ORDER BY priority DESC, position ASC, created_at ASC\<close>; rows equal in all three keep
  rowid order.\<close>

definition feeder_key :: "pending_job \<Rightarrow> int \<times> pyfloat \<times> pyfloat" where
  "feeder_key j = (- pj_priority j, pj_position j, pj_created_at j)"

definition list_jobs :: "job_status option \<Rightarrow> queue_store \<Rightarrow> pending_job list" where
  "list_jobs status st =
     (case status of None \<Rightarrow> sort_key feeder_key st
      | Some s \<Rightarrow> sort_key feeder_key (filter (\<lambda>j. pj_status j = s) st))"

definition pending_list :: "queue_store \<Rightarrow> pending_job list" where
  "pending_list st = list_jobs (Some PENDING) st"

definition next_pending :: "int \<Rightarrow> queue_store \<Rightarrow> pending_job list" where
  "next_pending limit st = take (nat (max 1 limit)) (pending_list st)"

definition active_paths :: "queue_store \<Rightarrow> string set" where
  "active_paths st = set (map pj_path (filter active st))"

definition active_queued_at :: "queue_store \<Rightarrow> (string \<times> pyfloat) list" where
  "active_queued_at st =
     map (\<lambda>p. (p, case sql_max (map pj_created_at (filter (\<lambda>j. active j \<and> pj_path j = p) st)) of
                    None \<Rightarrow> 0 | Some t \<Rightarrow> t))
       (remdups (map pj_path (filter active st)))"

definition count_by_status :: "queue_store \<Rightarrow> (job_status \<times> nat) list" where
  "count_by_status st =
     map (\<lambda>s. (s, length (filter (\<lambda>j. pj_status j = s) st))) (remdups (map pj_status st))"

section \<open>Status transitions and removal\<close>

definition set_status ::
    "string \<Rightarrow> job_status \<Rightarrow> string option \<Rightarrow> pyfloat option \<Rightarrow> queue_store \<Rightarrow> bool \<times> queue_store" where
  "set_status jid status err submitted_at st =
     (find_job jid st \<noteq> None,
      update_rows jid (\<lambda>j. j\<lparr>pj_status := status, pj_error := err,
          pj_submitted_at := (case submitted_at of None \<Rightarrow> pj_submitted_at j | Some t \<Rightarrow> Some t)\<rparr>) st)"

definition mark_submitted :: "string \<Rightarrow> pyfloat \<Rightarrow> queue_store \<Rightarrow> bool \<times> queue_store" where
  "mark_submitted jid now st = set_status jid SUBMITTED None (Some now) st"

definition remove_job :: "string \<Rightarrow> queue_store \<Rightarrow> bool \<times> queue_store" where
  "remove_job jid st = (find_job jid st \<noteq> None, delete_where (\<lambda>j. pj_id j = jid) st)"

definition deleted :: "queue_store \<Rightarrow> queue_store \<Rightarrow> nat" where
  "deleted st st' = length st - length st'"

definition resolve_skipped :: "string \<Rightarrow> queue_store \<Rightarrow> nat \<times> queue_store" where
  "resolve_skipped path st =
     (let st' = delete_where (\<lambda>j. pj_status j = SUBMITTED \<and> pj_path j = path) st
      in (deleted st st', st'))"

text \<open>The loop over the selected SUBMITTED rows. \<open>to_subgen\<close> may raise, which leaves the
  rows deleted so far deleted (the connection autocommits).\<close>

fun orphan_loop ::
    "(string \<Rightarrow> path_error + string) \<Rightarrow> string set \<Rightarrow> pyfloat \<Rightarrow> pending_job list \<Rightarrow> nat \<Rightarrow> queue_store
      \<Rightarrow> (path_error + nat) \<times> queue_store" where
  "orphan_loop to_subgen live cutoff [] removed st = (Inr removed, st)"
| "orphan_loop to_subgen live cutoff (r # rs) removed st =
     (if (case pj_submitted_at r of None \<Rightarrow> False | Some t \<Rightarrow> cutoff < t)
      then orphan_loop to_subgen live cutoff rs removed st
      else (case to_subgen (pj_path r) of
          Inl e \<Rightarrow> (Inl e, st)
        | Inr p \<Rightarrow>
            if p \<notin> live
            then orphan_loop to_subgen live cutoff rs (removed + 1) (delete_where (\<lambda>j. pj_id j = pj_id r) st)
            else orphan_loop to_subgen live cutoff rs removed st))"

definition resolve_orphaned_submitted ::
    "library list \<Rightarrow> string set \<Rightarrow> pyfloat \<Rightarrow> pyfloat \<Rightarrow> queue_store \<Rightarrow> (path_error + nat) \<times> queue_store" where
  "resolve_orphaned_submitted libs live older_than_s now st =
     orphan_loop (canonical_to_subgen_batch libs) live (now - older_than_s)
       (filter (\<lambda>j. pj_status j = SUBMITTED) st) 0 st"

definition clear_jobs :: "job_status option \<Rightarrow> queue_store \<Rightarrow> nat \<times> queue_store" where
  "clear_jobs status st =
     (let st' = (case status of None \<Rightarrow> [] | Some s \<Rightarrow> delete_where (\<lambda>j. pj_status j = s) st)
      in (deleted st st', st'))"

section \<open>Reordering\<close>

definition bucket :: "int \<Rightarrow> string \<Rightarrow> queue_store \<Rightarrow> pending_job list" where
  "bucket prio jid st =
     sort_key (\<lambda>j. (pj_position j, pj_created_at j))
       (filter (\<lambda>j. is_pending j \<and> pj_priority j = prio \<and> pj_id j \<noteq> jid) st)"

definition reposition :: "string \<Rightarrow> bool \<Rightarrow> queue_store \<Rightarrow> queue_error + (pending_job \<times> queue_store)" where
  "reposition jid to_top st =
     (case require_job jid st of
        Inl e \<Rightarrow> Inl e
      | Inr job \<Rightarrow>
          (let others = map pj_position
                 (filter (\<lambda>j. is_pending j \<and> pj_priority j = pj_priority job \<and> pj_id j \<noteq> jid) st);
               new_pos = (case (sql_min others, sql_max others) of
                   (Some lo, Some hi) \<Rightarrow> (if to_top then lo - 1 else hi + 1)
                 | _ \<Rightarrow> pj_position job);
               st' = update_rows jid (\<lambda>j. j\<lparr>pj_position := new_pos\<rparr>) st
           in (case require_job jid st' of Inl e \<Rightarrow> Inl e | Inr job' \<Rightarrow> Inr (job', st'))))"

definition promote :: "string \<Rightarrow> queue_store \<Rightarrow> queue_error + (pending_job \<times> queue_store)" where
  "promote jid st = reposition jid True st"

definition demote :: "string \<Rightarrow> queue_store \<Rightarrow> queue_error + (pending_job \<times> queue_store)" where
  "demote jid st = reposition jid False st"

fun index_of :: "string \<Rightarrow> pending_job list \<Rightarrow> nat option" where
  "index_of jid [] = None"
| "index_of jid (j # js) = (if pj_id j = jid then Some 0 else map_option Suc (index_of jid js))"

definition move_position :: "bool \<Rightarrow> pending_job \<Rightarrow> pending_job list \<Rightarrow> pyfloat" where
  "move_position before target ordered =
     (case index_of (pj_id target) ordered of
        None \<Rightarrow> (if ordered \<noteq> [] then pj_position (last ordered) + 1 else pj_position target)
      | Some idx \<Rightarrow>
          if before
          then (let prev = (if 0 < idx then pj_position (ordered ! (idx - 1)) else pj_position target - 2)
                in (prev + pj_position target) / 2)
          else (let nxt = (if idx + 1 < length ordered then pj_position (ordered ! (idx + 1))
                           else pj_position target + 2)
                in (pj_position target + nxt) / 2))"

definition move_job ::
    "string \<Rightarrow> string option \<Rightarrow> string option \<Rightarrow> queue_store \<Rightarrow> queue_error + (pending_job \<times> queue_store)" where
  "move_job jid before_id after_id st =
     (if \<not> (truthy_str before_id \<or> truthy_str after_id) then Inl ValueError
      else (let target_id = or_empty (if truthy_str before_id then before_id else after_id) in
        case require_job jid st of
          Inl e \<Rightarrow> Inl e
        | Inr _ \<Rightarrow>
            (case require_job target_id st of
               Inl e \<Rightarrow> Inl e
             | Inr target \<Rightarrow>
                 (let ordered = bucket (pj_priority target) jid st;
                      new_pos = move_position (truthy_str before_id) target ordered;
                      st' = update_rows jid (\<lambda>j. j\<lparr>pj_priority := pj_priority target, pj_position := new_pos\<rparr>) st
                  in (case require_job jid st' of Inl e \<Rightarrow> Inl e | Inr job' \<Rightarrow> Inr (job', st'))))))"

definition move_step :: "string \<Rightarrow> bool \<Rightarrow> queue_store \<Rightarrow> queue_error + (pending_job \<times> queue_store)" where
  "move_step jid up st =
     (let ordered = pending_list st in
      case index_of jid ordered of
        None \<Rightarrow> Inl (KeyError jid)
      | Some idx \<Rightarrow>
          if up
          then (if idx = 0 then Inr (ordered ! idx, st)
                else move_job jid (Some (pj_id (ordered ! (idx - 1)))) None st)
          else (if length ordered - 1 \<le> idx then Inr (ordered ! idx, st)
                else move_job jid None (Some (pj_id (ordered ! (idx + 1)))) st))"


section \<open>The store invariant\<close>

text \<open>
  Unique ids, at most one active row per path (the dedup promise), and no two pending rows
  of one priority bucket at the same position.
\<close>

definition slot :: "pending_job \<Rightarrow> int \<times> pyfloat" where
  "slot j = (pj_priority j, pj_position j)"

definition queue_wf :: "queue_store \<Rightarrow> bool" where
  "queue_wf st \<longleftrightarrow> distinct (map pj_id st)
     \<and> distinct (map pj_path (filter active st))
     \<and> distinct (map slot (filter is_pending st))"

lemma pending_active: "is_pending j \<Longrightarrow> active j"
  by (simp add: is_pending_def active_def)

lemma find_job_Some: "find_job jid st = Some j \<Longrightarrow> j \<in> set st \<and> pj_id j = jid"
  unfolding find_job_def by (rule row_find_Some)

lemma find_job_in: "distinct (map pj_id st) \<Longrightarrow> j \<in> set st \<Longrightarrow> find_job (pj_id j) st = Some j"
  unfolding find_job_def by (rule row_find_in)

lemma require_job_Inr: "require_job jid st = Inr j \<longleftrightarrow> find_job jid st = Some j"
  by (simp add: require_job_def split: option.splits)

lemma find_update_rows:
  "(\<And>j. pj_id (f j) = pj_id j) \<Longrightarrow> find_job jid st = Some j \<Longrightarrow>
     find_job jid (update_rows jid f st) = Some (f j)"
  by (simp add: find_job_def update_rows_def row_find_update)

lemma queue_wf_delete [intro]: "queue_wf st \<Longrightarrow> queue_wf (delete_where p st)"
  unfolding queue_wf_def delete_where_def rows_delete_def
  by (simp add: distinct_map_filter_mono distinct_map_filterI)

text \<open>One row replaced: the three conditions the new row has to meet.\<close>

lemma queue_wf_update:
  assumes wf: "queue_wf st" and f: "find_job jid st = Some j"
    and id: "\<And>j. pj_id (g j) = pj_id j"
    and path: "active (g j) \<Longrightarrow> active j \<and> pj_path (g j) = pj_path j"
    and pos: "is_pending (g j) \<Longrightarrow> slot (g j) \<notin> slot ` {k \<in> set st. is_pending k \<and> pj_id k \<noteq> jid}"
  shows "queue_wf (update_rows jid g st)"
proof -
  note wf' = wf [unfolded queue_wf_def]
  note f' = f [unfolded find_job_def]
  have "distinct (map pj_id (update_rows jid g st))"
    using wf' id by (simp add: update_rows_def rows_update_keys)
  moreover have "distinct (map pj_path (filter active (update_rows jid g st)))"
    unfolding update_rows_def using wf' path by (intro distinct_rows_update [OF _ f']) simp_all
  moreover have "distinct (map slot (filter is_pending (update_rows jid g st)))"
    unfolding update_rows_def using wf' pos by (intro distinct_rows_update [OF _ f']) simp_all
  ultimately show ?thesis by (simp add: queue_wf_def)
qed

lemma update_rows_missing: "find_job jid st = None \<Longrightarrow> update_rows jid f st = st"
  by (simp add: find_job_def update_rows_def rows_update_missing)

section \<open>Preservation by every operation\<close>

lemma next_position_fresh:
  "j \<in> set st \<Longrightarrow> is_pending j \<Longrightarrow> pj_priority j = prio \<Longrightarrow> pj_position j < next_position prio st"
proof -
  assume j: "j \<in> set st" "is_pending j" "pj_priority j = prio"
  define ps where "ps = map pj_position (filter (\<lambda>j. is_pending j \<and> pj_priority j = prio) st)"
  have "pj_position j \<in> set ps" using j by (auto simp: ps_def)
  then show ?thesis
    by (cases "sql_max ps") (auto simp: next_position_def ps_def [symmetric] dest: sql_max_ge)
qed

lemma enqueue_cases:
  obtains
    (dup) j where "List.find (\<lambda>j. pj_path j = path \<and> active j) st = Some j"
      "enqueue i t path src p ovr tsk sid eid ign byp mid st = (j, st)"
  | (new) j where "\<forall>k \<in> set st. active k \<longrightarrow> pj_path k \<noteq> path"
      "enqueue i t path src p ovr tsk sid eid ign byp mid st = (j, st @ [j])"
      "pj_id j = i" "pj_path j = path" "is_pending j" "pj_priority j = source_priority p src"
      "pj_position j = next_position (source_priority p src) st" "pj_created_at j = t"
proof (cases "List.find (\<lambda>j. pj_path j = path \<and> active j) st")
  case None
  define j where "j = fst (enqueue i t path src p ovr tsk sid eid ign byp mid st)"
  show thesis
    by (rule new [of j]) (use None in \<open>auto simp: find_NoneD\<close>, simp_all add: enqueue_def Let_def None is_pending_def j_def)
next
  case (Some j)
  then show thesis by (intro dup) (auto simp: enqueue_def)
qed

lemma queue_wf_enqueue:
  assumes "queue_wf st" "i \<notin> pj_id ` set st"
  shows "queue_wf (snd (enqueue i t path src p ovr tsk sid eid ign byp mid st))"
proof (cases rule: enqueue_cases [of path st i t src p ovr tsk sid eid ign byp mid])
  case (dup j)
  then show ?thesis using assms by simp
next
  case (new j)
  have "slot j \<notin> slot ` set (filter is_pending st)"
    using new next_position_fresh [of _ st] by (fastforce simp: slot_def)
  then show ?thesis using assms new pending_active [of j] by (auto simp: queue_wf_def)
qed

lemma queue_wf_set_status:
  assumes "queue_wf st" "s \<noteq> PENDING" and "s = SUBMITTED \<Longrightarrow> find_job jid st = Some j \<and> active j"
  shows "queue_wf (snd (set_status jid s e t st))"
proof (cases "find_job jid st")
  case None
  then show ?thesis using assms by (simp add: set_status_def update_rows_missing)
next
  case (Some k)
  then show ?thesis unfolding set_status_def snd_conv
    using assms by (intro queue_wf_update [OF assms(1) Some]) (auto simp: active_def is_pending_def)
qed

lemma orphan_loop_wf:
  "queue_wf st \<Longrightarrow> queue_wf (snd (orphan_loop f live c rs n st))"
  by (induction f live c rs n st rule: orphan_loop.induct) (auto split: sum.splits)

lemma bucket_facts:
  assumes "queue_wf st"
  shows "set (bucket p jid st) = {j \<in> set st. is_pending j \<and> pj_priority j = p \<and> pj_id j \<noteq> jid}"
    and "sorted_wrt (\<lambda>x y. pj_position x < pj_position y) (bucket p jid st)"
    and "distinct (map pj_id (bucket p jid st))"
proof -
  let ?P = "\<lambda>j. is_pending j \<and> pj_priority j = p \<and> pj_id j \<noteq> jid"
  show "set (bucket p jid st) = {j \<in> set st. ?P j}" by (auto simp: bucket_def)
  have "distinct (map slot (filter ?P st))"
    using assms distinct_map_filter_mono [of slot is_pending st "\<lambda>j. pj_priority j = p \<and> pj_id j \<noteq> jid"]
    by (simp add: queue_wf_def conj_ac)
  then have "distinct (map pj_position (filter ?P st))"
    by (auto simp: distinct_map slot_def inj_on_def)
  then have "distinct (map pj_position (bucket p jid st))"
    by (simp add: bucket_def distinct_map)
  moreover have "sorted (map pj_position (bucket p jid st))"
  proof -
    have "sorted (map (\<lambda>j. (pj_position j, pj_created_at j)) (bucket p jid st))"
      by (simp add: bucket_def)
    then show ?thesis by (simp add: sorted_map) (erule sorted_wrt_mono_rel [rotated], auto)
  qed
  ultimately show "sorted_wrt (\<lambda>x y. pj_position x < pj_position y) (bucket p jid st)"
    by (rule strictly_sorted_distinct [rotated])
  have "distinct (map pj_id (filter ?P st))"
    using assms by (simp add: queue_wf_def distinct_map_filterI)
  then show "distinct (map pj_id (bucket p jid st))" by (simp add: bucket_def distinct_map)
qed

end
