(* ===== verification/Submission.thy ===== *)
theory Submission
  imports VerdictStore PerFileTask Sidecars PendingQueue
begin

text \<open>
  What subarr tells subgen about a file's audio (\<open>src/src/subarr/submission_language.py\<close>, and
  \<open>resolve_audio_language_override\<close> of \<open>src/src/subarr/audio_lang_store.py\<close>): the override,
  the bypass of subgen's skip rules, the task, and how a pending job becomes one or several
  requests. The log lines are left out; the free-text reason of a decision is a constructor.
  A probe that raises counts as no probe, as in the code.
\<close>

section \<open>The verified override\<close>

definition english_codes :: "string list" where "english_codes = [''en'', ''eng'']"
definition min_confidence :: pyfloat where "min_confidence = 1 / 2"

text \<open>The gate on a verdict that was found; \<open>skips\<close> is the advertised skip list.\<close>

definition override_of :: "verdict \<Rightarrow> string list option \<Rightarrow> string option" where
  "override_of v skips =
     (let lang = lower (strip (vd_lang v)) in
      if vd_class v = ''multi'' then None
      else if lang = ''zxx'' then None
      else if lang = [] then None
      else if lang \<in> set english_codes
           \<and> (case skips of None \<Rightarrow> True
              | Some ss \<Rightarrow> list_ex (\<lambda>s. lower (strip s) \<in> set english_codes) ss) then None
      else if strip (vd_source v) = [] then None
      else if vd_conf v < min_confidence then None
      else Some lang)"

definition resolve_audio_language_override ::
    "fs_env \<Rightarrow> pyfloat \<Rightarrow> string list option \<Rightarrow> string \<Rightarrow> verdict_store \<Rightarrow> string option \<times> verdict_store" where
  "resolve_audio_language_override env now skips canonical st =
     (case get_verdict env now True canonical st of
        (None, st') \<Rightarrow> (None, st')
      | (Some v, st') \<Rightarrow> (override_of v skips, st'))"

section \<open>The submission\<close>

datatype reason =
    NoVerdictStore
  | OverrideFrom string
  | NoVerifiedLanguage
  | NotForwarded
  | NoBypassSupport
  | SkipsNothing
  | NotAnalyzed
  | TagNotSkipped
  | SubtitleExists
  | BypassTagged "string list"
  | DecidedWhenQueued

record submission =
  sl_override :: "string option"
  sl_bypass :: bool
  sl_reason :: reason

definition no_override :: "reason \<Rightarrow> submission" where
  "no_override r = \<lparr>sl_override = None, sl_bypass = False, sl_reason = r\<rparr>"

definition norm_code :: "string option \<Rightarrow> string" where
  "norm_code code = (let raw = lower (strip (or_empty code)) in norm_or raw raw)"

text \<open>A probed file's audio streams: language tag and default flag; \<open>None\<close> when not probed.\<close>

type_synonym probe = "string \<Rightarrow> (string option \<times> bool) list option"

definition tagged_audio_languages :: "probe \<Rightarrow> string \<Rightarrow> string list option" where
  "tagged_audio_languages probe canonical =
     map_option (\<lambda>tracks. map (\<lambda>t. norm_code (fst t)) (filter (\<lambda>t. truthy_str (fst t)) tracks)) (probe canonical)"

definition output_languages :: "subgen_caps \<Rightarrow> verdict \<Rightarrow> string list" where
  "output_languages caps v =
     (let mode = lower (strip (or_empty (transcribe_or_translate caps)));
          name = norm_code (Some (if truthy_str (subtitle_language_name caps) then or_empty (subtitle_language_name caps) else ''en''));
          spoken = map (\<lambda>c. norm_code (Some c)) (filter (\<lambda>c. c \<noteq> []) (case vd_codes v of None \<Rightarrow> [] | Some cs \<Rightarrow> cs))
      in if mode = ''translate'' then [name, ''en'']
         else if mode = ''transcribe'' then spoken
         else spoken @ [name, ''en''])"

definition has_full_text_sidecar ::
    "fs_env \<Rightarrow> (string list \<Rightarrow> listing) \<Rightarrow> string \<Rightarrow> string list \<Rightarrow> bool" where
  "has_full_text_sidecar env list_dir canonical languages =
     (case to_fs env canonical of
        Inl _ \<Rightarrow> True
      | Inr video \<Rightarrow>
          (let stem = path_stem (if video = [] then [] else last video) in
           list_ex (\<lambda>name.
               let tokens = tail_tokens (take (length name - length stem - 4) (drop (length stem) name)) in
               ''forced'' \<notin> set tokens \<and> list_ex (\<lambda>t. norm_code (Some t) \<in> set languages) tokens)
             (srt_sidecar_names (list_dir (butlast video)) stem)))"

definition normalized_skips :: "subgen_caps option \<Rightarrow> string list" where
  "normalized_skips caps =
     (case caps of
        None \<Rightarrow> []
      | Some c \<Rightarrow> map (\<lambda>s. norm_code (Some s)) (filter (\<lambda>s. s \<noteq> []) (case skip_audio_languages c of None \<Rightarrow> [] | Some ss \<Rightarrow> ss)))"

text \<open>The decision on a verdict that gave no override: bypass the skip rules, or say why not.\<close>

definition bypass_decision ::
    "fs_env \<Rightarrow> (string list \<Rightarrow> listing) \<Rightarrow> probe \<Rightarrow> subgen_caps option \<Rightarrow> string \<Rightarrow> verdict \<Rightarrow> submission" where
  "bypass_decision env list_dir probe caps canonical v =
     (if vd_class v \<noteq> ''multi'' then no_override NotForwarded
      else (case caps of
          None \<Rightarrow> no_override NoBypassSupport
        | Some c \<Rightarrow>
            if \<not> bypass_skip c then no_override NoBypassSupport
            else if normalized_skips caps = [] then no_override SkipsNothing
            else (case tagged_audio_languages probe canonical of
                None \<Rightarrow> no_override NotAnalyzed
              | Some tagged \<Rightarrow>
                  (let refused_on = sort (remdups (filter (\<lambda>t. t \<in> set (normalized_skips caps)) tagged)) in
                   if refused_on = [] then no_override TagNotSkipped
                   else if has_full_text_sidecar env list_dir canonical (output_languages c v)
                   then no_override SubtitleExists
                   else \<lparr>sl_override = None, sl_bypass = True, sl_reason = BypassTagged refused_on\<rparr>))))"

definition resolve_submission ::
    "fs_env \<Rightarrow> (string list \<Rightarrow> listing) \<Rightarrow> probe \<Rightarrow> subgen_caps option \<Rightarrow> pyfloat \<Rightarrow> string
      \<Rightarrow> verdict_store option \<Rightarrow> submission \<times> verdict_store option" where
  "resolve_submission env list_dir probe caps now canonical store =
     (case store of
        None \<Rightarrow> (no_override NoVerdictStore, None)
      | Some st \<Rightarrow>
          (case resolve_audio_language_override env now (case caps of None \<Rightarrow> None | Some c \<Rightarrow> skip_audio_languages c) canonical st of
             (ovr, st') \<Rightarrow>
               ((if truthy_str ovr
                 then \<lparr>sl_override = ovr, sl_bypass = False, sl_reason = OverrideFrom (or_empty ovr)\<rparr>
                 else (case fst (get_verdict env now False canonical st') of
                     None \<Rightarrow> no_override NoVerifiedLanguage
                   | Some v \<Rightarrow> bypass_decision env list_dir probe caps canonical v)),
                Some st')))"

definition resolve_for_job ::
    "fs_env \<Rightarrow> (string list \<Rightarrow> listing) \<Rightarrow> probe \<Rightarrow> subgen_caps option \<Rightarrow> pyfloat \<Rightarrow> pending_job
      \<Rightarrow> verdict_store option \<Rightarrow> submission \<times> verdict_store option" where
  "resolve_for_job env list_dir probe caps now job store =
     (if truthy_str (pj_override job) \<or> pj_bypass_skip job
      then (\<lparr>sl_override = pj_override job, sl_bypass = pj_bypass_skip job, sl_reason = DecidedWhenQueued\<rparr>, store)
      else resolve_submission env list_dir probe caps now (pj_path job) store)"

section \<open>The task and the plan of a job\<close>

definition per_file_task_folder_cap :: nat where
  "per_file_task_folder_cap = 500"

definition resolve_task_for_file ::
    "probe \<Rightarrow> bool \<Rightarrow> string option list \<Rightarrow> subgen_caps option \<Rightarrow> string option \<Rightarrow> string \<Rightarrow> task option" where
  "resolve_task_for_file probe enabled wanted caps ovr canonical =
     (case active_config enabled (Some wanted) caps of
        None \<Rightarrow> None
      | Some cfg \<Rightarrow>
          (case (case probe canonical of None \<Rightarrow> [] | Some tracks \<Rightarrow> tracks) of
             [] \<Rightarrow> None
           | tracks \<Rightarrow>
               (let forced = (if truthy_str ovr then normalize_lang ovr else None) in
                choose_task (resolve_source_language tracks forced (pf_force_detected cfg) (pf_preferred cfg)) (pf_wanted cfg))))"

definition folder_video_files :: "fs_env \<Rightarrow> string list \<Rightarrow> nat \<Rightarrow> string list list option" where
  "folder_video_files env dir cap =
     (let found = filter (\<lambda>p. p \<noteq> [] \<and> lower (path_suffix (last p)) \<in> set video_exts) (fs_walk env dir) in
      if cap < length found then None else Some (sort found))"

fun collect_paths :: "(path_error + string) list \<Rightarrow> string list option" where
  "collect_paths [] = Some []"
| "collect_paths (Inl e # rs) = None"
| "collect_paths (Inr p # rs) = map_option (\<lambda>ps. p # ps) (collect_paths rs)"

text \<open>A job's own task string, or the chosen one; \<open>is_dir\<close> is False when the test raises.\<close>

definition task_name :: "task \<Rightarrow> string" where
  "task_name t = (case t of Transcribe \<Rightarrow> ''transcribe'' | Translate \<Rightarrow> ''translate'')"

text \<open>One path for a folder whose files all want the same task, else the file list.\<close>

definition group_by_task :: "string \<Rightarrow> string list \<Rightarrow> (string \<Rightarrow> string option)
    \<Rightarrow> string list \<times> (string \<times> string option) list" where
  "group_by_task canonical canon_files one =
     (let tasks = map (\<lambda>c. (c, one c)) (remdups canon_files) in
      case remdups (map snd tasks) of
        [only] \<Rightarrow> ([canonical], [(canonical, only)])
      | _ \<Rightarrow> (canon_files, tasks))"

definition plan_job_dispatch ::
    "fs_env \<Rightarrow> (string list \<Rightarrow> bool) \<Rightarrow> probe \<Rightarrow> bool \<Rightarrow> string option list \<Rightarrow> subgen_caps option \<Rightarrow> pending_job \<Rightarrow> submission
      \<Rightarrow> string list \<times> (string \<times> string option) list" where
  "plan_job_dispatch env is_dir probe enabled wanted caps job decision =
     (let canonical = pj_path job;
          one = (\<lambda>path. map_option task_name (resolve_task_for_file probe enabled wanted caps (sl_override decision) path));
          whole = ([canonical], [(canonical, None)])
      in if truthy_str (pj_task job) then ([canonical], [(canonical, pj_task job)])
         else if active_config enabled (Some wanted) caps = None then whole
         else (case to_fs env canonical of
             Inl _ \<Rightarrow> ([canonical], [(canonical, one canonical)])
           | Inr fs \<Rightarrow>
               if \<not> is_dir fs then ([canonical], [(canonical, one canonical)])
               else (case folder_video_files env fs per_file_task_folder_cap of
                   None \<Rightarrow> whole
                 | Some [] \<Rightarrow> whole
                 | Some files \<Rightarrow>
                     (case collect_paths (map (fs_to_canonical (fs_resolve env) (fs_libs env)) files) of
                        None \<Rightarrow> whole
                      | Some canon_files \<Rightarrow>
                          group_by_task canonical canon_files one))))"

section \<open>Properties\<close>

lemma override_ofD:
  assumes "override_of v skips = Some l"
  shows "vd_class v \<noteq> ''multi'' \<and> l = lower (strip (vd_lang v)) \<and> l \<noteq> [] \<and> l \<noteq> ''zxx'' \<and> strip (vd_source v) \<noteq> []
    \<and> min_confidence \<le> vd_conf v"
  using assms unfolding override_of_def Let_def by (simp split: if_split_asm)

lemma override_of_english:
  assumes "override_of v skips = Some l" "l \<in> set english_codes"
  shows "\<exists>ss. skips = Some ss \<and> (\<forall>s \<in> set ss. lower (strip s) \<notin> set english_codes)"
proof -
  have "lower (strip (vd_lang v)) = l" using override_ofD [OF assms(1)] by simp
  then show ?thesis using assms unfolding override_of_def Let_def
    by (cases skips) (simp_all add: list_ex_iff split: if_split_asm)
qed

lemma resolve_override_keeps:
  "store_ok st \<Longrightarrow> keeps_verdicts st (snd (resolve_audio_language_override env now skips c st))"
  using get_verdict_keeps [of st env now True c]
  by (auto simp: resolve_audio_language_override_def split: prod.splits option.splits)

text \<open>What a decision may rest on, given the verdict that was found and the capabilities.\<close>

definition override_justified :: "verdict \<Rightarrow> subgen_caps option \<Rightarrow> string \<Rightarrow> bool" where
  "override_justified v caps l \<longleftrightarrow>
     vd_class v \<noteq> ''multi'' \<and> l = lower (strip (vd_lang v)) \<and> l \<noteq> ''zxx'' \<and> strip (vd_source v) \<noteq> [] \<and> 1 / 2 \<le> vd_conf v
     \<and> (l \<in> {''en'', ''eng''} \<longrightarrow>
          (\<exists>c ss. caps = Some c \<and> skip_audio_languages c = Some ss \<and> (\<forall>s \<in> set ss. lower (strip s) \<notin> {''en'', ''eng''})))"

definition bypass_justified ::
    "fs_env \<Rightarrow> (string list \<Rightarrow> listing) \<Rightarrow> probe \<Rightarrow> string \<Rightarrow> verdict \<Rightarrow> subgen_caps option \<Rightarrow> bool" where
  "bypass_justified env list_dir probe canonical v caps \<longleftrightarrow>
     vd_class v = ''multi''
     \<and> (\<exists>c tags. caps = Some c \<and> bypass_skip c \<and> tagged_audio_languages probe canonical = Some tags
          \<and> set tags \<inter> set (normalized_skips caps) \<noteq> {}
          \<and> \<not> has_full_text_sidecar env list_dir canonical (output_languages c v))"

lemma bypass_decision_justified:
  "sl_override (bypass_decision env list_dir probe caps canonical v) = None
    \<and> (sl_bypass (bypass_decision env list_dir probe caps canonical v) \<longrightarrow>
         bypass_justified env list_dir probe canonical v caps)"
proof -
  have inter: "sort (remdups (filter (\<lambda>t. t \<in> A) ts)) = [] \<longleftrightarrow> set ts \<inter> A = {}" for ts and A :: "string set"
    unfolding set_empty [symmetric] set_sort set_remdups set_filter by auto
  show ?thesis
    by (simp add: bypass_decision_def bypass_justified_def no_override_def Let_def inter split: option.split)
qed

text \<open>C15. Language submission is safe: subarr never sends an override and a bypass together; an
  override comes from a single-language verdict with a source and enough confidence, and
  English is only sent when subgen advertises a skip list without English; a bypass is only
  sent for a multilingual verdict, to a subgen that supports it, when the tagged audio would
  be skipped and no full subtitle in a language subgen would write exists. The lookup moves
  verdicts at most, it never alters one.\<close>

theorem submission_safe:
  assumes "store_ok st" and "resolve_submission env list_dir probe caps now canonical (Some st) = (sub, store')"
  shows "\<not> (truthy_str (sl_override sub) \<and> sl_bypass sub)
    \<and> (\<forall>l. sl_override sub = Some l \<longrightarrow>
          (\<exists>v. fst (get_verdict env now True canonical st) = Some v \<and> override_justified v caps l))
    \<and> (sl_bypass sub \<longrightarrow>
          (\<exists>v st'. store' = Some st' \<and> fst (get_verdict env now False canonical st') = Some v
             \<and> bypass_justified env list_dir probe canonical v caps))
    \<and> (\<exists>st'. store' = Some st' \<and> keeps_verdicts st st')"
proof -
  let ?skips = "case caps of None \<Rightarrow> None | Some c \<Rightarrow> skip_audio_languages c"
  obtain ovr st' where r: "resolve_audio_language_override env now ?skips canonical st = (ovr, st')"
    by (cases "resolve_audio_language_override env now ?skips canonical st")
  have keeps: "keeps_verdicts st st'" using resolve_override_keeps [OF assms(1), of env now ?skips canonical] r by simp
  have ovr: "\<exists>v. fst (get_verdict env now True canonical st) = Some v \<and> override_justified v caps l" if l: "ovr = Some l" for l
  proof -
    obtain v where v: "fst (get_verdict env now True canonical st) = Some v" "override_of v ?skips = Some l"
      using r l by (auto simp: resolve_audio_language_override_def split: prod.splits option.splits)
    have "\<exists>c ss. caps = Some c \<and> skip_audio_languages c = Some ss \<and> (\<forall>s \<in> set ss. lower (strip s) \<notin> {''en'', ''eng''})"
      if "l \<in> {''en'', ''eng''}"
      using override_of_english [OF v(2)] that unfolding english_codes_def by (cases caps) auto
    then show ?thesis using override_ofD [OF v(2)] v(1) unfolding override_justified_def min_confidence_def by blast
  qed
  have store': "store' = Some st'"
    using assms(2) r by (auto simp: resolve_submission_def)
  have sub: "(truthy_str ovr \<and> sl_override sub = ovr \<and> \<not> sl_bypass sub)
      \<or> (sl_override sub = None \<and> (sl_bypass sub \<longrightarrow>
           (\<exists>v. fst (get_verdict env now False canonical st') = Some v \<and> bypass_justified env list_dir probe canonical v caps)))"
  proof (cases "truthy_str ovr")
    case True
    then show ?thesis using assms(2) r by (auto simp: resolve_submission_def)
  next
    case False
    show ?thesis
    proof (cases "fst (get_verdict env now False canonical st')")
      case None
      then have "sub = no_override NoVerifiedLanguage" using assms(2) r False by (simp add: resolve_submission_def)
      then show ?thesis by (simp add: no_override_def)
    next
      case (Some v)
      then have "sub = bypass_decision env list_dir probe caps canonical v"
        using assms(2) r False by (simp add: resolve_submission_def)
      then show ?thesis using Some bypass_decision_justified by metis
    qed
  qed
  show ?thesis using sub ovr keeps store' by (auto simp: truthy_str_def)
qed

definition multi_store :: verdict_store where
  "multi_store = upsert 5 ''TV/Show/Show.s01e02.new.mkv'' ''de'' ''user'' 1 None None ''multi'' (Some [''de'', ''fr'']) None None empty_store"

definition bypass_caps :: subgen_caps where
  "bypass_caps = (vanilla_caps None)\<lparr>bypass_skip := True, skip_audio_languages := Some [''eng''],
     transcribe_or_translate := Some ''transcribe''\<rparr>"

definition eng_probe :: probe where
  "eng_probe c = Some [(Some ''eng'', True)]"

theorem submission_safe_witness:
  "sl_bypass (fst (resolve_submission demo_fs (\<lambda>_. Some []) eng_probe (Some bypass_caps) 9 ''TV/Show/Show.s01e02.new.mkv'' (Some multi_store)))
    \<and> sl_override (fst (resolve_submission demo_fs (\<lambda>_. Some []) eng_probe (Some bypass_caps) 9 ''TV/Show/Show.s01e02.new.mkv'' (Some multi_store))) = None"
proof -
  let ?r = "resolve_submission demo_fs (\<lambda>_. Some []) eng_probe (Some bypass_caps) 9 ''TV/Show/Show.s01e02.new.mkv'' (Some multi_store)"
  have ok: "store_ok multi_store" unfolding multi_store_def by (rule upsert_ok) (simp add: store_ok_def empty_store_def)
  have b: "sl_bypass (fst ?r)" and n: "sl_override (fst ?r) \<noteq> Some []" by code_simp+
  obtain sub store' where r: "?r = (sub, store')" by (cases ?r)
  show ?thesis using submission_safe [OF ok r] b n r by (cases "sl_override sub") (auto simp: truthy_str_def)
qed

text \<open>The task the runner sends for a path of a plan: the path's own entry, else the folder's.\<close>

definition sent_task :: "string list \<times> (string \<times> string option) list \<Rightarrow> string \<Rightarrow> string \<Rightarrow> string option" where
  "sent_task plan canonical c =
     (case map_of (snd plan) c of
        Some t \<Rightarrow> t
      | None \<Rightarrow> (case map_of (snd plan) canonical of Some t \<Rightarrow> t | None \<Rightarrow> None))"

lemma map_of_graph: "map_of (map (\<lambda>c. (c, f c)) cs) x = (if x \<in> set cs then Some (f x) else None)"
  by (induction cs) auto

lemma group_by_task_sends:
  assumes "c \<in> set cs"
  shows "sent_task (group_by_task canonical cs one) canonical c = one c
    \<and> fst (group_by_task canonical cs one) \<in> {[canonical], cs}"
proof (cases "\<exists>only. remdups (map snd (map (\<lambda>c. (c, one c)) (remdups cs))) = [only]")
  case True
  then obtain only where o: "remdups (map snd (map (\<lambda>c. (c, one c)) (remdups cs))) = [only]" by blast
  then have "set (map snd (map (\<lambda>c. (c, one c)) (remdups cs))) = {only}" by (metis list.set(1,2) set_remdups)
  then have "one c = only" using assms by auto
  then show ?thesis using o by (simp add: group_by_task_def sent_task_def)
next
  case False
  then have "group_by_task canonical cs one = (cs, map (\<lambda>c. (c, one c)) (remdups cs))"
    unfolding group_by_task_def Let_def by (simp only: split: list.split) blast
  then show ?thesis using assms by (simp add: sent_task_def map_of_graph)
qed

text \<open>When the per-file task is active and a folder job's files can be listed and named, every
  video file is sent with the task chosen for its own audio, whether the plan submits the folder
  as one path or splits it, and the split submits exactly the folder's files, sorted.\<close>

theorem plan_sends_each_file_its_task:
  fixes probe :: probe and decision :: submission
  assumes "\<not> truthy_str (pj_task job)" and "active_config enabled (Some wanted) caps \<noteq> None"
    and "to_fs env (pj_path job) = Inr fs" and "is_dir fs"
    and "folder_video_files env fs per_file_task_folder_cap = Some files"
    and "collect_paths (map (fs_to_canonical (fs_resolve env) (fs_libs env)) files) = Some cs" and "c \<in> set cs"
  defines "plan \<equiv> plan_job_dispatch env is_dir probe enabled wanted caps job decision"
  shows "sent_task plan (pj_path job) c =
      map_option task_name (resolve_task_for_file probe enabled wanted caps (sl_override decision) c)
    \<and> fst plan \<in> {[pj_path job], cs}"
proof -
  let ?one = "\<lambda>c. map_option task_name (resolve_task_for_file probe enabled wanted caps (sl_override decision) c)"
  have "files \<noteq> []" using assms(6,7) by (cases files) auto
  then obtain f fls where f: "files = f # fls" by (cases files) auto
  obtain cfg where ac: "active_config enabled (Some wanted) caps = Some cfg" using assms(2) by blast
  have plan: "plan = group_by_task (pj_path job) cs ?one"
    using assms(1,3-5) assms(6) ac unfolding plan_def plan_job_dispatch_def Let_def f by simp
  show ?thesis unfolding plan by (rule group_by_task_sends [OF assms(7)])
qed

definition folder_fs :: fs_env where
  "folder_fs = demo_fs\<lparr>fs_walk := (\<lambda>_. [[''m'', ''TV'', ''Show'', ''b.mkv''], [''m'', ''TV'', ''Show'', ''a.mkv''], [''m'', ''TV'', ''Show'', ''a.nfo'']])\<rparr>"

definition mixed_probe :: probe where
  "mixed_probe c = (if c = ''TV/Show/a.mkv'' then Some [(Some ''jpn'', True)] else Some [(Some ''spa'', True)])"

definition task_caps :: subgen_caps where
  "task_caps = (vanilla_caps None)\<lparr>per_request_task := True, preferred_audio_languages := Some []\<rparr>"

definition folder_job :: pending_job where
  "folder_job = fst (enqueue ''f'' 1 ''TV/Show'' ''gaps'' None None None None None False False None [])"

theorem plan_sends_each_file_its_task_witness:
  "sent_task (plan_job_dispatch folder_fs (\<lambda>_. True) mixed_probe True [Some ''en'', Some ''es''] (Some task_caps) folder_job (no_override NotForwarded))
     ''TV/Show'' ''TV/Show/a.mkv'' = Some ''translate''"
proof -
  have "\<not> truthy_str (pj_task folder_job)" and p: "pj_path folder_job = ''TV/Show''"
    and "active_config True (Some [Some ''en'', Some ''es'']) (Some task_caps) \<noteq> None"
    and "to_fs folder_fs (pj_path folder_job) = Inr [''m'', ''TV'', ''Show'']"
    and "folder_video_files folder_fs [''m'', ''TV'', ''Show''] per_file_task_folder_cap =
          Some [[''m'', ''TV'', ''Show'', ''a.mkv''], [''m'', ''TV'', ''Show'', ''b.mkv'']]"
    and "collect_paths (map (fs_to_canonical (fs_resolve folder_fs) (fs_libs folder_fs))
          [[''m'', ''TV'', ''Show'', ''a.mkv''], [''m'', ''TV'', ''Show'', ''b.mkv'']]) = Some [''TV/Show/a.mkv'', ''TV/Show/b.mkv'']"
    by code_simp+
  note h = this
  have t: "resolve_task_for_file mixed_probe True [Some ''en'', Some ''es''] (Some task_caps) None ''TV/Show/a.mkv'' = Some Translate"
    by code_simp
  show ?thesis
    using plan_sends_each_file_its_task [OF h(1,3,4) _ h(5,6), where is_dir = "\<lambda>_. True" and c = "''TV/Show/a.mkv''"
        and probe = mixed_probe and decision = "no_override NotForwarded"] t
    unfolding p by (simp add: no_override_def task_name_def)
qed

end
