(* ===== verification/CoveragePasses.thy ===== *)
theory CoveragePasses
  imports CoverageRows Submission
begin

text \<open>
  The passes of the coverage build over its rows (\<open>src/src/subarr/coverage_engine.py\<close>): routing of
  wanted items to arr instances, refinement of the audio labels, the search for merged series,
  ignored titles, unsupported files and the score with its gates.
\<close>

section \<open>Routing wanted items\<close>

definition bind_instance :: "(library \<Rightarrow> string) \<Rightarrow> library \<Rightarrow> (string \<times> string) list \<Rightarrow> (string \<times> string) list" where
  "bind_instance arr_id l m =
     (case map_of m (lib_bazarr_id l) of
        None \<Rightarrow> AList.update (lib_bazarr_id l) (arr_id l) m
      | Some cur \<Rightarrow> if arr_id l \<noteq> [] \<and> cur = [] then AList.update (lib_bazarr_id l) (arr_id l) m else m)"

definition bazarr_routing :: "library list \<Rightarrow> (string \<times> string) list \<times> (string \<times> string) list" where
  "bazarr_routing libs = (fold (bind_instance lib_sonarr_id) libs [], fold (bind_instance lib_radarr_id) libs [])"

text \<open>A wanted item with the id of its Bazarr instance.\<close>

definition route_target :: "(string \<times> string) list \<Rightarrow> string list \<Rightarrow> string \<Rightarrow> string" where
  "route_target bz_to_arr valid_ids bazarr =
     (let target = (case map_of bz_to_arr bazarr of Some t \<Rightarrow> t | None \<Rightarrow> []) in
      if target \<in> set valid_ids then target else [])"

definition route_wanted :: "(string \<times> 'w) list \<Rightarrow> (string \<times> string) list \<Rightarrow> string list \<Rightarrow> string \<Rightarrow> (string \<times> 'w) list" where
  "route_wanted wanted bz_to_arr valid_ids target_id =
     filter (\<lambda>w. route_target bz_to_arr valid_ids (fst w) = target_id) wanted"

section \<open>Watch history\<close>

record play_row =
  pl_media :: string
  pl_show :: "string option"
  pl_date :: pyfloat

definition signal_step :: "pyfloat \<Rightarrow> play_row \<Rightarrow> (string \<Rightarrow> (pyfloat \<times> nat) option) \<Rightarrow> string \<Rightarrow> (pyfloat \<times> nat) option" where
  "signal_step now row out =
     (let gp = lower (strip (or_empty (pl_show row))) in
      if pl_media row \<noteq> ''episode'' \<or> gp = [] then out
      else (let (seen, plays) = (case out gp of Some a \<Rightarrow> a | None \<Rightarrow> (0, 0)) in
        out(gp \<mapsto> (if seen < pl_date row then pl_date row else seen,
                    if now - pl_date row \<le> 30 * 86400 then plays + 1 else plays))))"

definition tautulli_signals :: "pyfloat \<Rightarrow> play_row list \<Rightarrow> string \<Rightarrow> (pyfloat \<times> nat) option" where
  "tautulli_signals now history = fold (signal_step now) history (\<lambda>_. None)"

section \<open>Passes over the labels\<close>

definition source_origin :: "string \<Rightarrow> audio_origin" where
  "source_origin raw =
     (let r = lower raw in
      if prefix ''series_intent'' r then From_user
      else if contains ''whisper'' r \<or> contains ''auto'' r then From_whisper else From_user)"

definition refine_audio_sources :: "(string \<Rightarrow> string option) \<Rightarrow> coverage_item list \<Rightarrow> coverage_item list" where
  "refine_audio_sources sources =
     map (\<lambda>it. case (case it_file it of None \<Rightarrow> None | Some f \<Rightarrow> sources f) of
            None \<Rightarrow> it
          | Some s \<Rightarrow> if s = [] then it else it\<lparr>it_origin := Some (source_origin s)\<rparr>)"

definition annotate_carried_verdicts :: "(string \<Rightarrow> string option) \<Rightarrow> coverage_item list \<Rightarrow> coverage_item list" where
  "annotate_carried_verdicts carried =
     map (\<lambda>it. case carried (or_empty (it_file it)) of
            None \<Rightarrow> it
          | Some old \<Rightarrow> if old = [] then it else add_notes [Carried_over (base_name old)] it)"

definition apply_multilingual_verifications :: "(string \<Rightarrow> string list option) \<Rightarrow> coverage_item list \<Rightarrow> coverage_item list" where
  "apply_multilingual_verifications multi =
     map (\<lambda>it. case (case it_file it of None \<Rightarrow> None | Some f \<Rightarrow> multi f) of
            None \<Rightarrow> it
          | Some codes \<Rightarrow>
              if length codes < 2 then it
              else (let it1 = it\<lparr>it_audio_langs := codes, it_lang_codes := Some codes, it_origin := Some From_multilingual,
                              it_suspect := False, it_unknown := False\<rparr>
                    in if Multilingual_audio codes \<in> set (it_notes it1) then it1
                       else add_notes [Multilingual_audio codes] it1))"

section \<open>Merged series\<close>

datatype series_key = By_id nat | By_folder string

definition mixed_series_key :: "coverage_item \<Rightarrow> series_key option" where
  "mixed_series_key it =
     (case it_sonarr it of
        Some i \<Rightarrow> Some (By_id i)
      | None \<Rightarrow> if truthy_str (it_path it) then Some (By_folder (or_empty (it_path it))) else None)"

definition foreign_code :: "string option \<Rightarrow> bool" where
  "foreign_code c \<longleftrightarrow> truthy_str c \<and> c \<noteq> Some ''und'' \<and> c \<noteq> Some ''en''"

text \<open>The one language an episode contributes to the tally of its series.\<close>

definition spoken_foreign :: "coverage_item \<Rightarrow> string option" where
  "spoken_foreign it =
     (if it_audio_langs it = [] then None
      else if it_origin it = Some From_multilingual
      then (case List.find foreign_code (normalized_tags (it_audio_langs it)) of None \<Rightarrow> None | Some c \<Rightarrow> c)
      else if it_origin it \<in> {Some From_user, Some From_whisper}
      then (let c = normalize_lang (Some (hd (it_audio_langs it))) in if foreign_code c then c else None)
      else None)"

definition series_of :: "coverage_item list \<Rightarrow> series_key \<Rightarrow> coverage_item list" where
  "series_of items k = filter (\<lambda>it. it_media it = Episode \<and> mixed_series_key it = Some k) items"

definition foreign_tongues :: "coverage_item list \<Rightarrow> string list" where
  "foreign_tongues eps = sort (remdups (List.map_filter spoken_foreign eps))"

definition mixed_dismissed :: "string list \<Rightarrow> coverage_item list \<Rightarrow> bool" where
  "mixed_dismissed dismissed eps =
     (case List.find (\<lambda>it. truthy_str (it_path it)) eps of
        None \<Rightarrow> False
      | Some it \<Rightarrow> or_empty (it_path it) \<in> set dismissed)"

definition series_is_mixed :: "string list \<Rightarrow> coverage_item list \<Rightarrow> bool" where
  "series_is_mixed dismissed eps \<longleftrightarrow> 2 \<le> length (foreign_tongues eps) \<and> \<not> mixed_dismissed dismissed eps"

definition series_keys :: "coverage_item list \<Rightarrow> series_key list" where
  "series_keys items = remdups (List.map_filter mixed_series_key (filter (\<lambda>it. it_media it = Episode) items))"

text \<open>The marks are set on copies grouped before, so no mark influences another group.\<close>

definition flag_mixed_language_series :: "string list \<Rightarrow> coverage_item list \<Rightarrow> coverage_item list \<times> nat" where
  "flag_mixed_language_series dismissed items =
     (map (\<lambda>it. if it_media it \<noteq> Episode then it
                else (case mixed_series_key it of
                    None \<Rightarrow> it
                  | Some k \<Rightarrow>
                      (let eps = series_of items k in
                       if series_is_mixed dismissed eps
                       then it\<lparr>it_mixed := True, it_mixed_langs := foreign_tongues eps\<rparr> else it))) items,
      length (filter (\<lambda>k. series_is_mixed dismissed (series_of items k)) (series_keys items)))"

section \<open>Rows that are dropped or disqualified\<close>

definition ignored_path :: "string list \<Rightarrow> string \<Rightarrow> bool" where
  "ignored_path ignored p \<longleftrightarrow>
     p \<in> set (filter (\<lambda>k. \<not> suffix ''/'' k) ignored) \<or> list_ex (\<lambda>k. prefix k p) (filter (\<lambda>k. suffix ''/'' k) ignored)"

definition row_path :: "coverage_item \<Rightarrow> string" where
  "row_path it = (if truthy_str (it_file it) then or_empty (it_file it) else or_empty (it_path it))"

definition drop_ignored_titles :: "string list \<Rightarrow> coverage_item list \<Rightarrow> coverage_item list \<times> nat" where
  "drop_ignored_titles ignored items =
     (filter (\<lambda>it. \<not> ignored_path ignored (row_path it)) items,
      length (filter (\<lambda>it. ignored_path ignored (row_path it)) items))"

definition unsupported_exts :: "string list" where
  "unsupported_exts = [''.iso'', ''.img'', ''.nrg'', ''.mdf'', ''.bin'']"

text \<open>\<open>Path(p).suffix.lower()\<close>: slashes at the end do not count.\<close>

definition suffix_of_path :: "string \<Rightarrow> string" where
  "suffix_of_path p = lower (path_suffix (base_name (rstrip_char (CHR ''/'') p)))"

definition disqualify :: "coverage_item \<Rightarrow> coverage_item" where
  "disqualify it =
     (if it_state it = Verified then it
      else if row_path it \<noteq> [] \<and> suffix_of_path (row_path it) \<in> set unsupported_exts then it\<lparr>it_state := Unsupported\<rparr>
      else (let ext = suffix_of_path (or_empty (it_file it)) in
        if ext \<noteq> [] \<and> ext \<notin> set video_exts then it\<lparr>it_state := Unsupported\<rparr> else it))"

definition disqualify_unsupported :: "coverage_item list \<Rightarrow> coverage_item list" where
  "disqualify_unsupported = map disqualify"

section \<open>Scoring\<close>

record score_context =
  sc_now :: pyfloat
  sc_signals :: "string \<Rightarrow> (pyfloat \<times> nat) option"
  sc_now_playing :: "string list"
  sc_imported_eps :: "nat \<Rightarrow> pyfloat option"
  sc_imported_movies :: "nat \<Rightarrow> pyfloat option"
  sc_airing_soon :: "nat list"
  sc_transcoding :: "string list"
  sc_ignore_forced :: bool
  sc_ignore_image :: bool
  sc_output_task :: "string option"
  sc_per_file :: "per_file_config option"
  sc_forced :: "string \<Rightarrow> string option"

definition imported_at :: "score_context \<Rightarrow> coverage_item \<Rightarrow> pyfloat option" where
  "imported_at sc it =
     (case (case it_episode it of None \<Rightarrow> None | Some e \<Rightarrow> sc_imported_eps sc e) of
        Some t \<Rightarrow> Some t
      | None \<Rightarrow> (case it_radarr it of None \<Rightarrow> None | Some m \<Rightarrow> sc_imported_movies sc m))"

definition interest_parts :: "score_context \<Rightarrow> coverage_item \<Rightarrow> (int \<times> score_reason) list" where
  "interest_parts sc it =
     (let title = title_key it in
      (if title \<in> set (sc_now_playing sc)
       then (2000, Playing_now) # (if title \<in> set (sc_transcoding sc) then [(1000, Transcoding)] else []) else []) @
      (if imported_at sc it \<noteq> None then [(800, Recently_imported)] else []) @
      (if it_episode it \<in> set (map Some (sc_airing_soon sc)) then [(400, Airs_soon)] else []) @
      (case sc_signals sc title of
         None \<Rightarrow> []
       | Some (last_played, plays) \<Rightarrow>
           (let age = (if last_played \<noteq> 0 then (sc_now sc - last_played) / 86400 else 9999) in
            (if age \<le> 7 then [(1000, Watched_7d)] else if age \<le> 30 then [(500, Watched_30d)] else []) @
            (if 3 < plays then [(200, Plays_30d plays)] else []))) @
      (if truthy_str (it_original it) \<and> lower (or_empty (it_original it)) \<noteq> ''english''
       then [(100, Non_english (or_empty (it_original it)))] else []) @
      (if it_monitored it = Some True then [(50, Is_monitored)] else []))"

definition english_image_pair :: "coverage_item \<Rightarrow> bool" where
  "english_image_pair it =
     (let stem = stem_of (or_empty (it_file it)) in
      stem \<noteq> [] \<and> list_ex (\<lambda>n. is_en_sidecar_for n stem [''.idx'']) (it_image_subs it))"

definition embedded_full :: "coverage_item \<Rightarrow> bool" where
  "embedded_full it \<longleftrightarrow> it_embedded it \<in> {Some EN, Some EN_SDH}"

definition external_image :: "coverage_item \<Rightarrow> bool" where
  "external_image it \<longleftrightarrow> it_image_subs it \<noteq> [] \<and> it_embedded it \<noteq> Some EN_image"

definition forced_skip :: "score_context \<Rightarrow> coverage_item \<Rightarrow> bool" where
  "forced_skip sc it \<longleftrightarrow> it_embedded it = Some EN_forced \<and> \<not> sc_ignore_forced sc"

definition image_skip :: "score_context \<Rightarrow> coverage_item \<Rightarrow> bool" where
  "image_skip sc it \<longleftrightarrow> it_embedded it = Some EN_image \<and> \<not> sc_ignore_image sc"

definition external_image_skip :: "score_context \<Rightarrow> coverage_item \<Rightarrow> bool" where
  "external_image_skip sc it \<longleftrightarrow> external_image it \<and> \<not> sc_ignore_image sc \<and> english_image_pair it"

definition coverage_parts :: "score_context \<Rightarrow> coverage_item \<Rightarrow> (int \<times> score_reason) list" where
  "coverage_parts sc it =
     (if it_sub_on_disk it then [(- 5000, Stale_on_disk)] else []) @
     (case it_embedded it of
        None \<Rightarrow> []
      | Some l \<Rightarrow>
          if l \<in> {EN, EN_SDH} then [(- 3000, Embedded_full l)]
          else (- 500, Embedded_partial l)
            # (if forced_skip sc it then [(0, Will_skip_forced)] else [])
            @ (if image_skip sc it then [(0, Will_skip_image)] else [])) @
     (if external_image it
      then (- 500, External_image (hd (it_image_subs it)))
        # (if external_image_skip sc it then [(0, Will_skip_external_image)] else []) else [])"

text \<open>The per-file task gate: the source language, the task, and what it produces.\<close>

definition gate_source :: "score_context \<Rightarrow> per_file_config \<Rightarrow> coverage_item \<Rightarrow> string option" where
  "gate_source sc cfg it =
     (let forced = (if truthy_str (it_file it) then sc_forced sc (or_empty (it_file it)) else None) in
      resolve_source_language (it_audio_tracks it) (if truthy_str forced then normalize_lang forced else None)
        (pf_force_detected cfg) (pf_preferred cfg))"

definition gate_task :: "score_context \<Rightarrow> coverage_item \<Rightarrow> task option" where
  "gate_task sc it =
     (case sc_per_file sc of
        None \<Rightarrow> None
      | Some cfg \<Rightarrow> if it_audio_tracks it = [] then None else choose_task (gate_source sc cfg it) (pf_wanted cfg))"

definition producible :: "score_context \<Rightarrow> coverage_item \<Rightarrow> string set option" where
  "producible sc it =
     (case (sc_per_file sc, gate_task sc it) of
        (Some cfg, Some t) \<Rightarrow> Some (producible_for_task t (gate_source sc cfg it))
      | _ \<Rightarrow> producible_subtitle_languages (sc_output_task sc) (Some (map Some (it_audio_langs it))))"

definition missing_codes :: "coverage_item \<Rightarrow> string list" where
  "missing_codes it = List.map_filter (\<lambda>c. if truthy_str c then c else None) (wanted_codes (it_missing it))"

definition cannot_produce :: "score_context \<Rightarrow> coverage_item \<Rightarrow> bool" where
  "cannot_produce sc it =
     (case producible sc it of
        None \<Rightarrow> False
      | Some out \<Rightarrow> missing_codes it \<noteq> [] \<and> list_all (\<lambda>c. c \<notin> out) (missing_codes it))"

definition gate_parts :: "score_context \<Rightarrow> coverage_item \<Rightarrow> (int \<times> score_reason) list" where
  "gate_parts sc it =
     (case (sc_per_file sc, gate_task sc it) of
        (Some cfg, Some t) \<Rightarrow> [(0, Task_for_file (task_name t) (or_empty (gate_source sc cfg it)))]
      | _ \<Rightarrow> []) @
     (if cannot_produce sc it
      then [(0, Cannot_produce (sort (remdups (missing_codes it))) (case producible sc it of None \<Rightarrow> [] | Some out \<Rightarrow> sorted_list_of_set out))]
      else [])"

definition score_parts :: "score_context \<Rightarrow> coverage_item \<Rightarrow> (int \<times> score_reason) list" where
  "score_parts sc it = interest_parts sc it @ coverage_parts sc it @ gate_parts sc it"

definition score_item :: "score_context \<Rightarrow> coverage_item \<Rightarrow> coverage_item" where
  "score_item sc it =
     it\<lparr>it_now_playing := it_now_playing it \<or> title_key it \<in> set (sc_now_playing sc),
        it_just_imported := it_just_imported it \<or> imported_at sc it \<noteq> None,
        it_import_ts := (if imported_at sc it \<noteq> None then imported_at sc it else it_import_ts it),
        it_airing_soon := it_airing_soon it \<or> it_episode it \<in> set (map Some (sc_airing_soon sc)),
        it_rescan := it_rescan it \<or> it_sub_on_disk it \<or> embedded_full it,
        it_forced_skip := it_forced_skip it \<or> forced_skip sc it,
        it_image_skip := it_image_skip it \<or> image_skip sc it \<or> external_image_skip sc it,
        it_cannot_produce := it_cannot_produce it \<or> cannot_produce sc it,
        it_score := sum_list (map fst (score_parts sc it)),
        it_reasons := map snd (score_parts sc it)\<rparr>"

section \<open>Properties\<close>

lemma route_target_valid: "[] \<in> set ids \<Longrightarrow> route_target m ids b \<in> set ids"
  by (simp add: route_target_def Let_def)

lemma mset_filter_keys:
  "distinct ids \<Longrightarrow> \<forall>x \<in> set xs. f x \<in> set ids \<Longrightarrow> mset (concat (map (\<lambda>i. filter (\<lambda>x. f x = i) xs) ids)) = mset xs"
proof (induction xs)
  case (Cons x xs)
  then have "f x \<in> set ids" "distinct ids" by simp_all
  then obtain us vs where ids: "ids = us @ f x # vs" "f x \<notin> set us" "f x \<notin> set vs"
    by (metis distinct.simps(2) distinct_append not_distinct_conv_prefix split_list)
  have skip: "map (\<lambda>i. filter (\<lambda>x. f x = i) (x # xs)) ws = map (\<lambda>i. filter (\<lambda>x. f x = i) xs) ws" if "f x \<notin> set ws" for ws
    using that by auto
  have "mset (concat (map (\<lambda>i. filter (\<lambda>x. f x = i) (x # xs)) ids)) =
      add_mset x (mset (concat (map (\<lambda>i. filter (\<lambda>x. f x = i) xs) ids)))"
    unfolding ids(1) map_append concat_append list.map skip [OF ids(2)] skip [OF ids(3)] by simp
  with Cons show ?case by simp
qed (induction ids; simp)

lemma mset_routed:
  assumes "distinct ids" "[] \<in> set ids"
  shows "mset (concat (map (route_wanted wanted bindings ids) ids)) = mset wanted"
proof -
  have "route_wanted wanted bindings ids = (\<lambda>i. filter (\<lambda>w. route_target bindings ids (fst w) = i) wanted)"
    by (rule ext) (simp add: route_wanted_def)
  then show ?thesis
    using mset_filter_keys [of ids wanted "\<lambda>w. route_target bindings ids (fst w)"] assms route_target_valid
    by simp
qed

text \<open>Routing gives every wanted item to exactly one configured instance: collected over the configured
  instances nothing is lost and nothing is fetched twice, whatever the bindings say, because a
  dangling binding falls back to the default instance.\<close>

theorem routing_partitions_wanted:
  assumes "distinct ids" "[] \<in> set ids"
  shows "mset (concat (map (route_wanted wanted bindings ids) ids)) = mset wanted"
  using assms by (rule mset_routed)

theorem routing_partitions_wanted_witness:
  "mset (concat (map (route_wanted [(''4k'', 1), (''gone'', 2), ([], 3)] [(''4k'', ''uhd''), (''gone'', ''old'')] [[], ''uhd'']) [[], ''uhd'']))
     = mset [(''4k'', 1), (''gone'', 2), ([], 3 :: nat)]"
  by (rule routing_partitions_wanted) simp_all

lemma set_map_filter_if: "c \<in> set (List.map_filter (\<lambda>x. if q x then x else None) ws) \<longleftrightarrow> q (Some c) \<and> Some c \<in> set ws"
  by (induction ws) (auto simp: List.map_filter_simps split: option.split)

lemma set_missing_codes: "c \<in> set (missing_codes it) \<longleftrightarrow> truthy_str (Some c) \<and> Some c \<in> set (wanted_codes (it_missing it))"
  by (simp add: missing_codes_def set_map_filter_if)

text \<open>C4. The gate of the coverage report and the dispatch of the queue agree: for a row that carries the
  audio tracks of its probe and the override that would be sent, the gate assumes exactly the
  Whisper task that dispatch will send, and a row is marked as impossible exactly when that task
  produces none of the missing languages.\<close>

theorem gate_agrees_with_dispatch:
  assumes "it_file it = Some f" "f \<noteq> []" "it_audio_tracks it = (case probe f of None \<Rightarrow> [] | Some ts \<Rightarrow> ts)"
    "sc_per_file sc = active_config enabled (Some wanted) caps" "\<not> it_cannot_produce it"
  shows "gate_task sc it = resolve_task_for_file probe enabled wanted caps (sc_forced sc f) f
    \<and> (case (sc_per_file sc, resolve_task_for_file probe enabled wanted caps (sc_forced sc f) f) of
         (Some cfg, Some Translate) \<Rightarrow>
           it_cannot_produce (score_item sc it) \<longleftrightarrow> missing_codes it \<noteq> [] \<and> ''en'' \<notin> set (missing_codes it)
       | (Some cfg, Some Transcribe) \<Rightarrow>
           it_cannot_produce (score_item sc it) \<longleftrightarrow> missing_codes it \<noteq> [] \<and> gate_source sc cfg it \<notin> Some ` set (missing_codes it)
       | _ \<Rightarrow> it_cannot_produce (score_item sc it) = cannot_produce (sc\<lparr>sc_per_file := None\<rparr>) it)"
proof -
  have t: "gate_task sc it = resolve_task_for_file probe enabled wanted caps (sc_forced sc f) f"
    using assms by (auto simp: gate_task_def gate_source_def resolve_task_for_file_def truthy_str_def or_empty_def Let_def
        split: option.split list.split)
  have c: "it_cannot_produce (score_item sc it) = cannot_produce sc it"
    using assms(5) by (simp add: score_item_def)
  have tr0: "\<exists>l. gate_source sc cfg it = Some l" if "sc_per_file sc = Some cfg" "gate_task sc it = Some Transcribe" for cfg
    using that by (auto simp: gate_task_def choose_task_def split: option.splits if_splits)
  have tr: "gate_source sc cfg it \<noteq> None"
    if "sc_per_file sc = Some cfg" "gate_task sc it = Some Transcribe" for cfg
    using tr0 that by fastforce
  have "case (sc_per_file sc, gate_task sc it) of
         (Some cfg, Some Translate) \<Rightarrow>
           it_cannot_produce (score_item sc it) \<longleftrightarrow> missing_codes it \<noteq> [] \<and> ''en'' \<notin> set (missing_codes it)
       | (Some cfg, Some Transcribe) \<Rightarrow>
           it_cannot_produce (score_item sc it) \<longleftrightarrow> missing_codes it \<noteq> [] \<and> gate_source sc cfg it \<notin> Some ` set (missing_codes it)
       | _ \<Rightarrow> it_cannot_produce (score_item sc it) = cannot_produce (sc\<lparr>sc_per_file := None\<rparr>) it"
    unfolding c
  proof (cases "sc_per_file sc"; cases "gate_task sc it")
    fix cfg k
    assume p: "sc_per_file sc = Some cfg" and k: "gate_task sc it = Some k"
    show "case (sc_per_file sc, gate_task sc it) of
         (Some cfg, Some Translate) \<Rightarrow> cannot_produce sc it \<longleftrightarrow> missing_codes it \<noteq> [] \<and> ''en'' \<notin> set (missing_codes it)
       | (Some cfg, Some Transcribe) \<Rightarrow>
           cannot_produce sc it \<longleftrightarrow> missing_codes it \<noteq> [] \<and> gate_source sc cfg it \<notin> Some ` set (missing_codes it)
       | _ \<Rightarrow> cannot_produce sc it = cannot_produce (sc\<lparr>sc_per_file := None\<rparr>) it"
    proof (cases k)
      case Transcribe
      with tr p k obtain l where l: "gate_source sc cfg it = Some l" by blast
      with Transcribe p k show ?thesis
        by (auto simp: cannot_produce_def producible_def producible_for_task_def list_all_iff truthy_str_def or_empty_def
            set_missing_codes)
    qed (use p k in \<open>auto simp: cannot_produce_def producible_def producible_for_task_def list_all_iff\<close>)
  qed (simp_all add: cannot_produce_def producible_def gate_task_def)
  with t show ?thesis by (simp only: simp_thms)
qed

definition gate_context :: score_context where
  "gate_context = \<lparr>sc_now = 0, sc_signals = (\<lambda>_. None), sc_now_playing = [], sc_imported_eps = (\<lambda>_. None),
     sc_imported_movies = (\<lambda>_. None), sc_airing_soon = [], sc_transcoding = [], sc_ignore_forced = False,
     sc_ignore_image = False, sc_output_task = None, sc_per_file = active_config True (Some [Some ''fr'', Some ''en'']) (Some task_caps),
     sc_forced = (\<lambda>_. None)\<rparr>"

definition french_probe :: probe where
  "french_probe f = Some [(Some ''fre'', True)]"

theorem gate_agrees_with_dispatch_witness:
  "it_cannot_produce (score_item gate_context (blank_item\<lparr>it_audio_tracks := [(Some ''fre'', True)]\<rparr>))"
proof -
  let ?it = "blank_item\<lparr>it_audio_tracks := [(Some ''fre'', True)]\<rparr>"
  let ?f = "''TV/Dark/S1/Dark.S01E02.mkv''"
  have i: "it_file ?it = Some ?f" "it_audio_tracks ?it = (case french_probe ?f of None \<Rightarrow> [] | Some ts \<Rightarrow> ts)"
    "\<not> it_cannot_produce ?it"
    by (simp_all add: blank_item_def french_probe_def)
  have p: "sc_per_file gate_context = active_config True (Some [Some ''fr'', Some ''en'']) (Some task_caps)"
    by (simp add: gate_context_def)
  have "sc_per_file gate_context \<noteq> None" "gate_source gate_context (the (sc_per_file gate_context)) ?it = Some ''fr''"
    unfolding p by code_simp+
  then have c: "\<exists>cfg. sc_per_file gate_context = Some cfg \<and> gate_source gate_context cfg ?it = Some ''fr''"
    by auto
  have t: "resolve_task_for_file french_probe True [Some ''fr'', Some ''en''] (Some task_caps) (sc_forced gate_context ?f) ?f = Some Transcribe"
    and m: "missing_codes ?it = [''en'']"
    by code_simp+
  have "?f \<noteq> []" by simp
  from gate_agrees_with_dispatch [where it = ?it and f = ?f and probe = french_probe and sc = gate_context, OF i(1) this i(2) p i(3)]
    c show ?thesis by (auto simp: t m)
qed

section \<open>Merged series\<close>

lemma set_foreign_tongues: "l \<in> set (foreign_tongues eps) \<longleftrightarrow> (\<exists>it \<in> set eps. spoken_foreign it = Some l)"
  unfolding foreign_tongues_def set_sort set_remdups
  by (induction eps) (auto simp: List.map_filter_simps split: option.split)

lemma distinct_foreign_tongues [simp]: "distinct (foreign_tongues eps)"
  by (simp add: foreign_tongues_def)

lemma two_distinct: "distinct xs \<Longrightarrow> 2 \<le> length xs \<longleftrightarrow> (\<exists>a \<in> set xs. \<exists>b \<in> set xs. a \<noteq> b)"
  by (cases xs; cases "tl xs") auto

lemma spoken_foreign_trusted:
  assumes "spoken_foreign it = Some l"
  shows "it_origin it \<in> {Some From_user, Some From_whisper, Some From_multilingual} \<and> foreign_code (Some l)"
  using assms by (auto simp: spoken_foreign_def Let_def split: if_splits option.splits dest!: find_SomeD)

definition unmarked :: "coverage_item \<Rightarrow> bool" where
  "unmarked it \<longleftrightarrow> \<not> it_mixed it"

text \<open>An episode is marked as part of a merged series exactly when two episodes of its series speak
  different foreign languages on the word of the user or of Whisper and the user has not dismissed
  the series; a language read off a file's tag never counts, and nothing else of a row changes.\<close>

theorem mixed_series_exact:
  fixes dismissed :: "string list"
  assumes "list_all unmarked items" "i < length items"
  defines "r \<equiv> fst (flag_mixed_language_series dismissed items) ! i"
  shows "(it_mixed r \<longleftrightarrow> (\<exists>k. it_media (items ! i) = Episode \<and> mixed_series_key (items ! i) = Some k
        \<and> \<not> mixed_dismissed dismissed (series_of items k)
        \<and> (\<exists>a \<in> set (series_of items k). \<exists>b \<in> set (series_of items k). \<exists>l m.
             spoken_foreign a = Some l \<and> spoken_foreign b = Some m \<and> l \<noteq> m)))
    \<and> r\<lparr>it_mixed := False, it_mixed_langs := []\<rparr> = (items ! i)\<lparr>it_mixed := False, it_mixed_langs := []\<rparr>"
proof -
  have u: "\<not> it_mixed (items ! i)"
    using assms(1,2) by (simp add: list_all_length unmarked_def)
  have m: "series_is_mixed dismissed eps \<longleftrightarrow> \<not> mixed_dismissed dismissed eps
      \<and> (\<exists>a \<in> set eps. \<exists>b \<in> set eps. \<exists>l m. spoken_foreign a = Some l \<and> spoken_foreign b = Some m \<and> l \<noteq> m)" for eps
    unfolding series_is_mixed_def two_distinct [OF distinct_foreign_tongues] Bex_def set_foreign_tongues by metis
  have r: "r = (let it = items ! i in if it_media it \<noteq> Episode then it
                else (case mixed_series_key it of
                    None \<Rightarrow> it
                  | Some k \<Rightarrow>
                      (if series_is_mixed dismissed (series_of items k)
                       then it\<lparr>it_mixed := True, it_mixed_langs := foreign_tongues (series_of items k)\<rparr> else it)))"
    using assms(2) by (simp add: r_def flag_mixed_language_series_def Let_def split: option.split)
  show ?thesis
    unfolding r Let_def using u m by (auto split: option.split)
qed

definition merged_show :: "coverage_item list" where
  "merged_show = [blank_item\<lparr>it_audio_langs := [''kor''], it_origin := Some From_whisper\<rparr>,
     blank_item\<lparr>it_audio_langs := [''rus''], it_origin := Some From_user\<rparr>,
     blank_item\<lparr>it_audio_langs := [''ger''], it_origin := Some From_ffprobe\<rparr>]"

theorem mixed_series_exact_witness:
  "it_mixed (fst (flag_mixed_language_series [] merged_show) ! 2)"
proof -
  have "list_all unmarked merged_show" "2 < length merged_show"
    by code_simp+
  note e = mixed_series_exact [OF this, of "[]"]
  have "it_media (merged_show ! 2) = Episode" "mixed_series_key (merged_show ! 2) = Some (By_id 7)"
    "\<not> mixed_dismissed [] (series_of merged_show (By_id 7))"
    "merged_show ! 0 \<in> set (series_of merged_show (By_id 7))" "merged_show ! 1 \<in> set (series_of merged_show (By_id 7))"
    "spoken_foreign (merged_show ! 0) = Some ''ko''" "spoken_foreign (merged_show ! 1) = Some ''ru''"
    by code_simp+
  moreover have "''ko'' \<noteq> ''ru''" by simp
  ultimately show ?thesis using e by blast
qed

end
