(* ===== verification/AutoQueue.thy ===== *)
theory AutoQueue
  imports CoveragePasses "HOL-Library.Multiset"
begin

text \<open>
  The decision engine of unattended queueing (\<open>src/src/subarr/auto_queue.py\<close>): which coverage rows a
  scheduled run hands to the pending queue, and why the others are left out.
\<close>

section \<open>Rules\<close>

datatype queue_mode = Dashboard | Manual_confirm | Auto_rules

record auto_queue_rules =
  aq_mode :: queue_mode
  aq_min_score :: int
  aq_allow_languages :: "string list"
  aq_deny_languages :: "string list"
  aq_allow_tags :: "string list"
  aq_deny_tags :: "string list"
  aq_require_monitored :: bool
  aq_skip_stale_disk :: bool
  aq_skip_embedded_en :: bool
  aq_max_per_run :: int
  aq_settle_minutes :: int

definition default_rules :: auto_queue_rules where
  "default_rules = \<lparr>aq_mode = Dashboard, aq_min_score = 200, aq_allow_languages = [], aq_deny_languages = [''English''],
     aq_allow_tags = [], aq_deny_tags = [], aq_require_monitored = True, aq_skip_stale_disk = True,
     aq_skip_embedded_en = True, aq_max_per_run = 50, aq_settle_minutes = 0\<rparr>"

datatype filter_reason =
    Stale_srt | Embedded_english english_label | Image_based | Forced_only | Wrong_output_language
  | Not_monitored | Low_score int int | Language_not_allowed string | Language_denied string
  | No_allowed_tag | Denied_tag

datatype decision_reason =
    Mode_dashboard | In_flight | No_output_cooldown | Unverified | Settling int
  | Filtered filter_reason | Matches_rules queue_mode | Over_max int

record decision =
  dc_item :: coverage_item
  dc_queue :: bool
  dc_reason :: decision_reason

section \<open>The tests on one row\<close>

text \<open>\<open>int(x)\<close> of a float truncates; the window is empty without an import time, or with time zero.\<close>

definition truncate_rat :: "rat \<Rightarrow> int" where
  "truncate_rat x = (if 0 \<le> x then \<lfloor>x\<rfloor> else \<lceil>x\<rceil>)"

definition settle_seconds_left :: "coverage_item \<Rightarrow> int \<Rightarrow> pyfloat \<Rightarrow> int" where
  "settle_seconds_left it minutes now =
     (case it_import_ts it of
        None \<Rightarrow> 0
      | Some ts \<Rightarrow> if minutes \<le> 0 \<or> ts = 0 then 0 else max 0 (truncate_rat (ts + of_int (minutes * 60) - now)))"

definition is_in_flight :: "coverage_item \<Rightarrow> string list \<Rightarrow> bool" where
  "is_in_flight it paths \<longleftrightarrow>
     (truthy_str (it_file it) \<and> or_empty (it_file it) \<in> set paths)
     \<or> (it_media it = Movie \<and> it_path it \<in> set (map Some paths))
     \<or> (it_media it = Episode \<and> truthy_str (it_path it) \<and>
        (case episode_pattern (it_episode_number it) of
           None \<Rightarrow> False
         | Some pat \<Rightarrow>
             (let folder = rstrip_char (CHR ''/'') (or_empty (it_path it)) @ ''/''
              in list_ex (\<lambda>p. prefix folder p \<and> contains pat (lower p)) paths)))"

definition meets :: "string list \<Rightarrow> string list \<Rightarrow> bool" where
  "meets xs ys = list_ex (\<lambda>x. x \<in> set ys) xs"

definition filter_reason_of :: "auto_queue_rules \<Rightarrow> coverage_item \<Rightarrow> filter_reason option" where
  "filter_reason_of ru it =
     (let lang = strip (or_empty (it_original it)) in
      if aq_skip_stale_disk ru \<and> it_sub_on_disk it then Some Stale_srt
      else if aq_skip_embedded_en ru \<and> embedded_full it then Some (Embedded_english (the (it_embedded it)))
      else if it_image_skip it then Some Image_based
      else if it_forced_skip it then Some Forced_only
      else if it_cannot_produce it then Some Wrong_output_language
      else if aq_require_monitored ru \<and> it_monitored it = Some False then Some Not_monitored
      else if it_score it < aq_min_score ru then Some (Low_score (it_score it) (aq_min_score ru))
      else if aq_allow_languages ru \<noteq> [] \<and> lang \<notin> set (aq_allow_languages ru) then Some (Language_not_allowed lang)
      else if lang \<noteq> [] \<and> lang \<in> set (aq_deny_languages ru) then Some (Language_denied lang)
      else if aq_allow_tags ru \<noteq> [] \<and> \<not> meets (it_tags it) (aq_allow_tags ru) then Some No_allowed_tag
      else if aq_deny_tags ru \<noteq> [] \<and> meets (it_tags it) (aq_deny_tags ru) then Some Denied_tag
      else None)"

section \<open>The run\<close>

record run_context =
  rc_rules :: auto_queue_rules
  rc_in_flight :: "string list"
  rc_suppressed :: "string list"
  rc_now :: pyfloat

definition skip_reason :: "run_context \<Rightarrow> coverage_item \<Rightarrow> decision_reason option" where
  "skip_reason rc it =
     (if is_in_flight it (rc_in_flight rc) then Some In_flight
      else if is_in_flight it (rc_suppressed rc) then Some No_output_cooldown
      else if it_state it \<noteq> Verified then Some Unverified
      else (let left = settle_seconds_left it (aq_settle_minutes (rc_rules rc)) (rc_now rc) in
        if 0 < left then Some (Settling ((left + 59) div 60))
        else map_option Filtered (filter_reason_of (rc_rules rc) it)))"

definition skip_decision :: "run_context \<Rightarrow> coverage_item \<Rightarrow> decision option" where
  "skip_decision rc it =
     map_option (\<lambda>why. \<lparr>dc_item = it, dc_queue = False, dc_reason = why\<rparr>) (skip_reason rc it)"

text \<open>\<open>xs[:n]\<close> and \<open>xs[n:]\<close>: a negative bound counts from the end.\<close>

definition slice_point :: "int \<Rightarrow> 'a list \<Rightarrow> nat" where
  "slice_point n xs = (if 0 \<le> n then nat n else length xs - nat (- n))"

definition evaluate :: "run_context \<Rightarrow> coverage_item list \<Rightarrow> decision list" where
  "evaluate rc items =
     (let ru = rc_rules rc in
      if aq_mode ru = Dashboard then map (\<lambda>it. \<lparr>dc_item = it, dc_queue = False, dc_reason = Mode_dashboard\<rparr>) items
      else (let eligible = sort_key (\<lambda>it. - it_score it) (filter (\<lambda>it. skip_reason rc it = None) items);
                k = slice_point (aq_max_per_run ru) eligible
            in List.map_filter (skip_decision rc) items
               @ map (\<lambda>it. \<lparr>dc_item = it, dc_queue = True, dc_reason = Matches_rules (aq_mode ru)\<rparr>) (take k eligible)
               @ map (\<lambda>it. \<lparr>dc_item = it, dc_queue = False, dc_reason = Over_max (aq_max_per_run ru)\<rparr>) (drop k eligible)))"

section \<open>Properties\<close>

text \<open>What a row must be to be worth sending: verified, and fillable by the connected subgen.\<close>

definition sendable :: "coverage_item \<Rightarrow> bool" where
  "sendable it \<longleftrightarrow> it_state it = Verified \<and> \<not> it_image_skip it \<and> \<not> it_forced_skip it \<and> \<not> it_cannot_produce it"

lemma no_skip_sendable:
  "skip_reason rc it = None \<Longrightarrow>
     sendable it \<and> \<not> is_in_flight it (rc_in_flight rc) \<and> \<not> is_in_flight it (rc_suppressed rc)
     \<and> aq_min_score (rc_rules rc) \<le> it_score it"
  by (auto simp: skip_reason_def sendable_def filter_reason_of_def Let_def split: if_splits)

lemma skip_decisions: "mset (map dc_item (List.map_filter (skip_decision rc) items)) = mset (filter (\<lambda>it. skip_reason rc it \<noteq> None) items)"
  by (induction items) (auto simp: List.map_filter_simps skip_decision_def split: option.split)

lemma skip_decision_skips: "d \<in> set (List.map_filter (skip_decision rc) items) \<Longrightarrow> \<not> dc_queue d"
  by (induction items) (auto simp: List.map_filter_simps skip_decision_def split: option.splits)

definition queued_items :: "decision list \<Rightarrow> coverage_item list" where
  "queued_items ds = map dc_item (filter dc_queue ds)"

lemma queued_evaluate:
  "queued_items (evaluate rc items) =
     (if aq_mode (rc_rules rc) = Dashboard then []
      else (let e = sort_key (\<lambda>it. - it_score it) (filter (\<lambda>it. skip_reason rc it = None) items)
            in take (slice_point (aq_max_per_run (rc_rules rc)) e) e))"
proof -
  have "filter dc_queue (List.map_filter (skip_decision rc) items) = []"
    using skip_decision_skips by (auto simp: filter_empty_conv)
  then show ?thesis
    by (simp add: queued_items_def evaluate_def Let_def o_def filter_map)
qed

lemma take_best:
  assumes "sorted (map f xs)" "x \<in> set (take k xs)" "y \<in> set (drop k xs)"
  shows "f x \<le> f y"
proof -
  have "sorted (map f (take k xs) @ map f (drop k xs))"
    using assms(1) by (simp only: map_append [symmetric] append_take_drop_id)
  then have "\<forall>a \<in> set (map f (take k xs)). \<forall>b \<in> set (map f (drop k xs)). a \<le> b"
    unfolding sorted_append by blast
  with assms(2,3) show ?thesis by simp
qed


definition night_run :: run_context where
  "night_run = \<lparr>rc_rules = default_rules\<lparr>aq_mode := Auto_rules, aq_max_per_run := 1\<rparr>, rc_in_flight = [], rc_suppressed = [],
     rc_now = 0\<rparr>"

definition two_gaps :: "coverage_item list" where
  "two_gaps = [blank_item\<lparr>it_state := Verified, it_score := 300\<rparr>, blank_item\<lparr>it_state := Verified, it_score := 900\<rparr>]"


end
