(* ===== verification/CircuitBreaker.thy ===== *)
theory CircuitBreaker
  imports Prelude
begin

text \<open>
  The per-integration circuit breaker (\<open>src/src/subarr/circuit_breaker.py\<close>): its state
  machine, the clock reading of each call as an argument, and a specification over the
  whole call history (the streak of failures and the time of the last one) that the
  three-field state implements.
\<close>

section \<open>The breaker\<close>

datatype breaker_state = CLOSED | OPEN | HALF_OPEN

record breaker =
  cb_threshold :: int
  cb_cooldown :: pyfloat
  cb_state :: breaker_state
  cb_failures :: int
  cb_opened_at :: "pyfloat option"

definition new_breaker :: "int \<Rightarrow> pyfloat \<Rightarrow> breaker" where
  "new_breaker fail_threshold cooldown_s =
     \<lparr>cb_threshold = max 1 fail_threshold, cb_cooldown = cooldown_s,
      cb_state = CLOSED, cb_failures = 0, cb_opened_at = None\<rparr>"

definition allow :: "pyfloat \<Rightarrow> breaker \<Rightarrow> bool \<times> breaker" where
  "allow now b =
     (if cb_state b = OPEN
      then (case cb_opened_at b of
          Some t \<Rightarrow> if now - t \<ge> cb_cooldown b then (True, b\<lparr>cb_state := HALF_OPEN\<rparr>) else (False, b)
        | None \<Rightarrow> (False, b))
      else (True, b))"

definition record_success :: "breaker \<Rightarrow> breaker" where
  "record_success b = b\<lparr>cb_failures := 0, cb_opened_at := None, cb_state := CLOSED\<rparr>"

definition open_breaker :: "pyfloat \<Rightarrow> breaker \<Rightarrow> breaker" where
  "open_breaker now b = b\<lparr>cb_state := OPEN, cb_opened_at := Some now\<rparr>"

definition record_failure :: "pyfloat \<Rightarrow> breaker \<Rightarrow> breaker" where
  "record_failure now b =
     (if cb_state b = HALF_OPEN then open_breaker now b
      else let b' = b\<lparr>cb_failures := cb_failures b + 1\<rparr> in
           if cb_failures b' \<ge> cb_threshold b' then open_breaker now b' else b')"

section \<open>Call histories\<close>

datatype call = Allow pyfloat | Success pyfloat | Failure pyfloat

fun call_time :: "call \<Rightarrow> pyfloat" where
  "call_time (Allow t) = t"
| "call_time (Success t) = t"
| "call_time (Failure t) = t"

fun breaker_call :: "call \<Rightarrow> breaker \<Rightarrow> breaker" where
  "breaker_call (Allow t) b = snd (allow t b)"
| "breaker_call (Success t) b = record_success b"
| "breaker_call (Failure t) b = record_failure t b"

definition run_calls :: "call list \<Rightarrow> breaker \<Rightarrow> breaker" where
  "run_calls cs b = foldl (\<lambda>b c. breaker_call c b) b cs"

text \<open>The specification reads the history, latest call first: how many failures since the
  last success, and when the last of them was.\<close>

fun streak :: "call list \<Rightarrow> int" where
  "streak [] = 0"
| "streak (Allow t # cs) = streak cs"
| "streak (Success t # cs) = 0"
| "streak (Failure t # cs) = streak cs + 1"

fun last_failure :: "call list \<Rightarrow> pyfloat" where
  "last_failure [] = 0"
| "last_failure (Allow t # cs) = last_failure cs"
| "last_failure (Success t # cs) = last_failure cs"
| "last_failure (Failure t # cs) = t"

definition refuses :: "int \<Rightarrow> pyfloat \<Rightarrow> call list \<Rightarrow> pyfloat \<Rightarrow> bool" where
  "refuses threshold cooldown history now \<longleftrightarrow>
     threshold \<le> streak (rev history) \<and> now - last_failure (rev history) < cooldown"

text \<open>The invariant linking a breaker with its history (latest call first). A half-open breaker
  has seen an \<open>allow\<close> after the cooldown.\<close>

definition breaker_inv :: "int \<Rightarrow> pyfloat \<Rightarrow> call list \<Rightarrow> breaker \<Rightarrow> bool" where
  "breaker_inv n cd h b \<longleftrightarrow>
     cb_threshold b = n \<and> cb_cooldown b = cd
     \<and> (cb_state b = CLOSED \<longleftrightarrow> streak h < n)
     \<and> (cb_state b = CLOSED \<longrightarrow> cb_failures b = streak h)
     \<and> (cb_state b \<noteq> CLOSED \<longrightarrow> n \<le> cb_failures b \<and> cb_opened_at b = Some (last_failure h))
     \<and> (cb_state b = HALF_OPEN \<longrightarrow> (\<exists>c \<in> set h. last_failure h + cd \<le> call_time c))"

lemma streak_nonneg: "0 \<le> streak h"
  by (induction h rule: streak.induct) auto

lemma breaker_inv_step:
  assumes inv: "breaker_inv n cd h b" and n: "1 \<le> n"
  shows "breaker_inv n cd (c # h) (breaker_call c b)"
proof (cases c)
  case (Allow t)
  then show ?thesis using inv
    by (cases "cb_state b") (auto simp: breaker_inv_def allow_def split: option.splits if_splits)
next
  case (Success t)
  then show ?thesis using inv n by (simp add: breaker_inv_def record_success_def)
next
  case (Failure t)
  then show ?thesis using inv n streak_nonneg [of h]
    by (cases "cb_state b") (auto simp: breaker_inv_def record_failure_def open_breaker_def Let_def)
qed

lemma breaker_inv_run:
  assumes "1 \<le> n"
  shows "breaker_inv n cd h b \<Longrightarrow> breaker_inv n cd (rev cs @ h) (run_calls cs b)"
  by (induction cs arbitrary: h b) (auto simp: run_calls_def dest: breaker_inv_step [OF _ assms])

lemma breaker_inv_new:
  "breaker_inv (max 1 n) cd (rev cs) (run_calls cs (new_breaker n cd))"
  using breaker_inv_run [of "max 1 n" cd "[]" "new_breaker n cd" cs]
  by (simp add: breaker_inv_def new_breaker_def)

section \<open>Properties\<close>



text \<open>Once an open breaker has cooled down, the probe does not hold other callers back:
  after the call that turns it half-open, every further call is let through too, at any
  time, until an outcome is recorded.\<close>

theorem half_open_admits_every_call:
  assumes "cb_state b = OPEN" and "cb_opened_at b = Some t" and "now - t \<ge> cb_cooldown b"
  shows "fst (allow now b) \<and> (\<forall>times later. fst (allow later (run_calls (map Allow times) (snd (allow now b)))))"
proof -
  have half: "cb_state (snd (allow now b)) = HALF_OPEN" using assms by (simp add: allow_def)
  have "run_calls (map Allow times) c = c" if "cb_state c = HALF_OPEN" for times c
    using that by (induction times) (simp_all add: run_calls_def allow_def)
  with half assms show ?thesis by (simp add: allow_def)
qed

theorem half_open_admits_every_call_witness:
  "\<forall>times later. fst (allow later (run_calls (map Allow times) (snd (allow 100 (run_calls [Failure 1] (new_breaker 1 60))))))"
  using half_open_admits_every_call [of "run_calls [Failure 1] (new_breaker 1 60)" 1 100]
  by (simp add: run_calls_def new_breaker_def record_failure_def open_breaker_def)

end
