(* ===== verification/Completion.thy ===== *)
theory Completion
  imports Ledger Sidecars Paths SrtTiming
begin

text \<open>
  The completion watcher (\<open>src/src/subarr/completion_watcher.py\<close>): which subtitle file a job produced,
  what a job that left subgen's queue is recorded as, and the write-back. The disk and the remote
  services are arguments; the steps of a write-back are listed as effects in the order they happen.
\<close>

section \<open>The sidecar of a job\<close>

definition sidecar_mtime_slack_s :: pyfloat where "sidecar_mtime_slack_s = 300"
definition no_output_min_age_s :: pyfloat where "no_output_min_age_s = 120"

text \<open>\<open>None\<close> is a file whose \<open>stat\<close> fails.\<close>

definition fresh_names :: "(string \<Rightarrow> pyfloat option) \<Rightarrow> string list \<Rightarrow> pyfloat \<Rightarrow> string list" where
  "fresh_names mtime names since =
     filter (\<lambda>n. case mtime n of None \<Rightarrow> False | Some t \<Rightarrow> since - sidecar_mtime_slack_s \<le> t) names"

fun infix_of :: "string \<Rightarrow> string \<Rightarrow> bool" where
  "infix_of w [] = (w = [])"
| "infix_of w (c # cs) = (prefix w (c # cs) \<or> infix_of w cs)"

definition sidecar_rank :: "string \<Rightarrow> string \<Rightarrow> nat \<times> string" where
  "sidecar_rank stem name =
     (let tail = lower (drop (length stem) name);
          subgen = infix_of ''.subgen.'' tail;
          english = infix_of ''.en.'' tail \<or> infix_of ''.eng.'' tail
      in if infix_of ''.forced.'' tail then (4, name)
         else if subgen \<and> english then (1, name)
         else if subgen then (2, name) else (3, name))"

definition srt_siblings :: "string \<Rightarrow> string list \<Rightarrow> string list" where
  "srt_siblings stem names = filter (\<lambda>n. prefix (stem @ ''.'') n \<and> suffix ''.srt'' (lower n)) names"

definition ranked_siblings :: "string \<Rightarrow> string list \<Rightarrow> string list option \<Rightarrow> string list" where
  "ranked_siblings stem names fresh =
     (let siblings = srt_siblings stem names;
          recent = (case fresh of None \<Rightarrow> [] | Some f \<Rightarrow> filter (\<lambda>n. n \<in> set f) siblings)
      in if recent \<noteq> [] then recent else siblings)"

definition choose_srt_sidecar :: "string \<Rightarrow> string list \<Rightarrow> string list option \<Rightarrow> string option" where
  "choose_srt_sidecar stem names fresh =
     (let siblings = ranked_siblings stem names fresh in
      if siblings = [] then None
      else if stem @ ''.en.srt'' \<in> set siblings then Some (stem @ ''.en.srt'')
      else Some (arg_min_list (sidecar_rank stem) siblings))"

definition upload_language :: "string \<Rightarrow> string \<Rightarrow> string" where
  "upload_language srt_name video_stem =
     (let name = rsplit_last (CHR ''/'') (slashes srt_name);
          tail = (if prefix video_stem name then drop (length video_stem) name else name);
          body = (if suffix ''.srt'' (lower tail) then take (length tail - 4) tail else tail);
          codes = map (\<lambda>t. normalize_lang (Some t)) (filter (\<lambda>t. t \<noteq> []) (split_on (CHR ''.'') body));
          langs = filter (\<lambda>c. map_of whisper_languages c \<noteq> None) (List.map_filter (\<lambda>c. c) codes)
      in if langs = [] then ''en''
         else if last langs = ''hi'' \<and> 1 < length langs then langs ! (length langs - 2)
         else last langs)"

section \<open>The disk and the services\<close>

record disk =
  dk_libs :: "library list"
  dk_resolve :: "string list \<Rightarrow> string list"
  dk_exists :: "string list \<Rightarrow> bool"
  dk_is_file :: "string list \<Rightarrow> bool"
  dk_list :: "string list \<Rightarrow> listing"
  dk_mtime :: "string list \<Rightarrow> pyfloat option"
  dk_text :: "string list \<Rightarrow> string option"

definition find_srt_sidecar :: "disk \<Rightarrow> string \<Rightarrow> pyfloat \<Rightarrow> string list option" where
  "find_srt_sidecar dk canonical since =
     (case canonical_to_fs (dk_resolve dk) (dk_libs dk) canonical of
        Inl e \<Rightarrow> None
      | Inr full \<Rightarrow>
          if full = [] \<or> \<not> dk_exists dk full then None
          else (let parent = butlast full; stem = path_stem (last full);
                    names = srt_sidecar_names (dk_list dk parent) stem
                in map_option (\<lambda>n. parent @ [n])
                     (choose_srt_sidecar stem names (Some (fresh_names (\<lambda>n. dk_mtime dk (parent @ [n])) names since)))))"

datatype verdict_of_job = Unjudged | Written | No_output | Wait

definition output_verdict :: "disk \<Rightarrow> pyfloat \<Rightarrow> ledger_entry \<Rightarrow> verdict_of_job" where
  "output_verdict dk now e =
     (case canonical_to_fs (dk_resolve dk) (dk_libs dk) (le_path e) of
        Inl _ \<Rightarrow> Unjudged
      | Inr full \<Rightarrow>
          if \<not> dk_is_file dk full then Unjudged
          else if find_srt_sidecar dk (le_path e) (le_queued e) \<noteq> None then Written
          else if now - le_queued e < no_output_min_age_s then Wait
          else No_output)"

definition outcome_of :: "verdict_of_job \<Rightarrow> string option" where
  "outcome_of v = (case v of Written \<Rightarrow> Some outcome_written | No_output \<Rightarrow> Some outcome_no_output | _ \<Rightarrow> None)"

text \<open>\<open>sv_ids\<close> are the ids the arr services know for a file; an upload or a scan either succeeds or
  fails with an error the watcher catches.\<close>

record services =
  sv_retime :: bool
  sv_bazarr_configured :: "string \<Rightarrow> bool"
  sv_ids :: "string \<Rightarrow> (int option \<times> int option \<times> int option) option"
  sv_upload :: "ledger_entry \<Rightarrow> bool"
  sv_scan_task :: "string \<Rightarrow> bool"
  sv_scan :: "ledger_entry \<Rightarrow> bool"

datatype effect =
    Rewrote "string list" string
  | Judged "string list"
  | Uploaded_episode int int string "string list"
  | Uploaded_movie int string "string list"
  | Scan_triggered int
  | Media_refreshed string

section \<open>Write-back\<close>

definition run_retime :: "disk \<Rightarrow> services \<Rightarrow> ledger_entry \<Rightarrow> effect list" where
  "run_retime dk sv e =
     (if \<not> sv_retime sv then []
      else (case find_srt_sidecar dk (le_path e) (le_queued e) of
          None \<Rightarrow> []
        | Some srt \<Rightarrow>
            (case (dk_mtime dk srt, dk_text dk srt) of
               (Some t, Some text) \<Rightarrow>
                 if t < le_queued e - sidecar_mtime_slack_s then []
                 else (case retime_srt default_params text of
                     None \<Rightarrow> []
                   | Some new_text \<Rightarrow> if new_text \<noteq> text then [Rewrote srt new_text] else [])
             | _ \<Rightarrow> [])))"

definition run_aftercare :: "disk \<Rightarrow> ledger_entry \<Rightarrow> effect list" where
  "run_aftercare dk e =
     (case find_srt_sidecar dk (le_path e) (le_queued e) of
        None \<Rightarrow> []
      | Some srt \<Rightarrow> if dk_text dk srt = None then [] else [Judged srt])"

definition truthy_id :: "int option \<Rightarrow> bool" where
  "truthy_id x \<longleftrightarrow> x \<noteq> None \<and> x \<noteq> Some 0"

definition fill_missing_arr_ids :: "services \<Rightarrow> ledger_entry \<Rightarrow> ledger \<Rightarrow> ledger_entry \<times> ledger" where
  "fill_missing_arr_ids sv e led =
     (if le_series e \<noteq> None \<or> truthy_id (le_episode e) \<or> truthy_id (le_movie e) then (e, led)
      else (case sv_ids sv (le_path e) of
          None \<Rightarrow> (e, led)
        | Some (s, ep, m) \<Rightarrow>
            (e\<lparr>le_series := or_else s (le_series e), le_episode := or_else ep (le_episode e), le_movie := or_else m (le_movie e)\<rparr>,
             set_arr_ids (le_id e) s ep m led)))"

definition try_upload :: "disk \<Rightarrow> services \<Rightarrow> pyfloat \<Rightarrow> ledger_entry \<Rightarrow> ledger \<Rightarrow> (bool \<times> effect list) \<times> ledger_entry \<times> ledger" where
  "try_upload dk sv now e led =
     (if \<not> sv_bazarr_configured sv (le_path e) then ((False, []), e, led)
      else (case find_srt_sidecar dk (le_path e) (le_queued e) of
          None \<Rightarrow> ((False, []), e, led)
        | Some srt \<Rightarrow>
            (case fill_missing_arr_ids sv e led of
               (e', led') \<Rightarrow>
                 (let language = upload_language (last srt) (path_stem (rsplit_last (CHR ''/'') (le_path e))) in
                  if truthy_id (le_episode e') \<and> truthy_id (le_series e')
                  then (if sv_upload sv e'
                        then ((True, [Uploaded_episode (the (le_series e')) (the (le_episode e')) language srt]), e',
                              mark_bazarr_triggered (le_id e) now led')
                        else ((False, []), e', led'))
                  else if truthy_id (le_movie e')
                  then (if sv_upload sv e'
                        then ((True, [Uploaded_movie (the (le_movie e')) language srt]), e',
                              mark_bazarr_triggered (le_id e) now led')
                        else ((False, []), e', led'))
                  else ((False, []), e', led')))))"

definition trigger_scan :: "services \<Rightarrow> pyfloat \<Rightarrow> ledger_entry \<Rightarrow> ledger \<Rightarrow> effect list \<times> ledger" where
  "trigger_scan sv now e led =
     (if sv_bazarr_configured sv (le_path e) \<and> sv_scan_task sv (le_path e) \<and> sv_scan sv e
      then ([Scan_triggered (the (le_series e))], mark_bazarr_triggered (le_id e) now led) else ([], led))"

definition complete_entry :: "disk \<Rightarrow> services \<Rightarrow> pyfloat \<Rightarrow> string option \<Rightarrow> ledger_entry \<Rightarrow> ledger \<Rightarrow> effect list \<times> ledger" where
  "complete_entry dk sv now outcome e led =
     (let led1 = mark_completed (le_id e) now outcome led;
          before = run_retime dk sv e @ run_aftercare dk e
      in case try_upload dk sv now e led1 of
           ((uploaded, effs), e', led2) \<Rightarrow>
             (let (scans, led3) = (if \<not> uploaded \<and> le_series e' \<noteq> None then trigger_scan sv now e' led2 else ([], led2))
              in (before @ effs @ scans @ [Media_refreshed (le_path e)], led3)))"

section \<open>The passes of a tick\<close>

text \<open>\<open>None\<close> as the reply is an unreachable subgen; the queue is the set of paths it lists. Translating
  the path of an entry may raise, which ends the pass.\<close>

fun pending_loop :: "disk \<Rightarrow> services \<Rightarrow> pyfloat \<Rightarrow> string set \<Rightarrow> ledger_entry list \<Rightarrow> effect list \<Rightarrow> ledger
    \<Rightarrow> path_error option \<times> effect list \<times> ledger" where
  "pending_loop dk sv now live [] effs led = (None, effs, led)"
| "pending_loop dk sv now live (e # es) effs led =
     (case canonical_to_subgen_batch (dk_libs dk) (le_path e) of
        Inl err \<Rightarrow> (Some err, effs, led)
      | Inr p \<Rightarrow>
          if p \<in> live then pending_loop dk sv now live es effs led
          else (case output_verdict dk now e of
              Wait \<Rightarrow> pending_loop dk sv now live es effs led
            | No_output \<Rightarrow> pending_loop dk sv now live es effs (mark_completed (le_id e) now (Some outcome_no_output) led)
            | v \<Rightarrow> (case complete_entry dk sv now (outcome_of v) e led of
                (effs', led') \<Rightarrow> pending_loop dk sv now live es (effs @ effs') led')))"

definition pass_pending ::
    "disk \<Rightarrow> services \<Rightarrow> pyfloat \<Rightarrow> (bool \<times> bool) option \<Rightarrow> string set option \<Rightarrow> ledger \<Rightarrow> path_error option \<times> effect list \<times> ledger" where
  "pass_pending dk sv now caps reply led =
     (if pending_entries led = [] then (None, [], led)
      else (case caps of
          Some (True, False) \<Rightarrow> (None, [], led)
        | _ \<Rightarrow> (case reply of
            None \<Rightarrow> (None, [], led)
          | Some live \<Rightarrow> pending_loop dk sv now live (pending_entries led) [] led)))"

fun heal_loop :: "disk \<Rightarrow> services \<Rightarrow> pyfloat \<Rightarrow> ledger_entry list \<Rightarrow> effect list \<Rightarrow> ledger \<Rightarrow> effect list \<times> ledger" where
  "heal_loop dk sv now [] effs led = (effs, led)"
| "heal_loop dk sv now (e # es) effs led =
     (if find_srt_sidecar dk (le_path e) (le_queued e) = None then heal_loop dk sv now es effs led
      else (case complete_entry dk sv now (Some outcome_written) e (set_outcome (le_id e) outcome_written led) of
          (effs', led') \<Rightarrow> heal_loop dk sv now es (effs @ effs') led'))"

definition pass_heal_no_output :: "disk \<Rightarrow> services \<Rightarrow> pyfloat \<Rightarrow> ledger \<Rightarrow> effect list \<times> ledger" where
  "pass_heal_no_output dk sv now led =
     heal_loop dk sv now (no_output_entries_since (now - no_output_cooldown_s) led) [] led"

definition complete_by_canonical :: "disk \<Rightarrow> services \<Rightarrow> pyfloat \<Rightarrow> string \<Rightarrow> ledger \<Rightarrow> nat \<times> effect list \<times> ledger" where
  "complete_by_canonical dk sv now path led =
     (let matches = filter is_open (query_by_path path 20 led);
          (effs, led') = fold (\<lambda>e (effs, l). case complete_entry dk sv now None e l of (effs', l') \<Rightarrow> (effs @ effs', l')) matches ([], led)
      in (length matches, effs, led'))"

text \<open>One trigger for each Bazarr instance that owns a stuck row; \<open>rt_fire\<close> says whether the task of
  an instance was found and fired.\<close>

record retry_env =
  rt_instance :: "string \<Rightarrow> string"
  rt_configured :: "string \<Rightarrow> bool"
  rt_fire :: "string \<Rightarrow> bool"

definition pass_retry_bazarr_notify :: "retry_env \<Rightarrow> pyfloat \<Rightarrow> ledger \<Rightarrow> string list \<times> ledger" where
  "pass_retry_bazarr_notify rt now led =
     (let stuck = completed_without_bazarr now 86400 led;
          fired = filter (\<lambda>k. rt_configured rt k \<and> rt_fire rt k)
            (rev (remdups (rev (map (\<lambda>e. rt_instance rt (le_path e)) stuck))))
      in (fired,
          fold (\<lambda>e l. mark_bazarr_triggered (le_id e) now l)
            (filter (\<lambda>e. rt_instance rt (le_path e) \<in> set fired) stuck) led))"

definition watcher_tick ::
    "disk \<Rightarrow> services \<Rightarrow> retry_env \<Rightarrow> pyfloat \<Rightarrow> (bool \<times> bool) option \<Rightarrow> string set option \<Rightarrow> ledger
      \<Rightarrow> path_error option \<times> effect list \<times> string list \<times> ledger" where
  "watcher_tick dk sv rt now caps reply led =
     (case pass_pending dk sv now caps reply led of
        (Some err, effs, led1) \<Rightarrow> (Some err, effs, [], led1)
      | (None, effs, led1) \<Rightarrow>
          (case pass_heal_no_output dk sv now led1 of
             (effs', led2) \<Rightarrow>
               (case pass_retry_bazarr_notify rt now led2 of
                  (fired, led3) \<Rightarrow> (None, effs @ effs', fired, led3))))"

section \<open>The choice of a sidecar\<close>

lemma arg_min_list_least: "xs \<noteq> [] \<Longrightarrow> arg_min_list f xs \<in> set xs \<and> (\<forall>x \<in> set xs. f (arg_min_list f xs) \<le> f x)"
  for f :: "'a \<Rightarrow> 'b::linorder"
  by (simp add: arg_min_list_in f_arg_min_list_f)

lemma rank_inj: "sidecar_rank stem a = sidecar_rank stem b \<Longrightarrow> a = b"
  by (auto simp: sidecar_rank_def Let_def split: if_splits)

lemma arg_min_rank_set:
  assumes "xs \<noteq> []" "set xs = set ys"
  shows "arg_min_list (sidecar_rank stem) xs = arg_min_list (sidecar_rank stem) ys"
proof -
  have "ys \<noteq> []" using assms by auto
  with assms arg_min_list_least [of xs "sidecar_rank stem"] arg_min_list_least [of ys "sidecar_rank stem"]
  show ?thesis by (intro rank_inj) (auto intro: antisym)
qed

lemma set_ranked_siblings:
  assumes "set names = set names'" "map_option set fresh = map_option set fresh'"
  shows "set (ranked_siblings stem names fresh) = set (ranked_siblings stem names' fresh')"
proof -
  have s: "set (srt_siblings stem names) = set (srt_siblings stem names')"
    using assms(1) by (simp add: srt_siblings_def)
  define recent where "recent names f = (case f of None \<Rightarrow> [] | Some g \<Rightarrow> filter (\<lambda>n. n \<in> set g) (srt_siblings stem names))"
    for names f
  have r: "set (recent names fresh) = set (recent names' fresh')"
    using assms(2) s by (cases fresh; cases fresh') (auto simp: recent_def)
  then have "recent names fresh = [] \<longleftrightarrow> recent names' fresh' = []"
    unfolding set_empty [symmetric] by simp
  with r s show ?thesis
    unfolding ranked_siblings_def Let_def recent_def [symmetric] by simp
qed

definition is_fresh :: "string list option \<Rightarrow> string \<Rightarrow> bool" where
  "is_fresh fresh n = (case fresh of None \<Rightarrow> False | Some f \<Rightarrow> n \<in> set f)"

lemma is_fresh_fun: "is_fresh (Some f) = (\<lambda>n. n \<in> set f)" "is_fresh None = (\<lambda>n. False)"
  by (simp_all add: is_fresh_def fun_eq_iff)

lemma ranked_siblings_cases:
  "ranked_siblings stem names fresh =
     (if filter (is_fresh fresh) (srt_siblings stem names) = [] then srt_siblings stem names
      else filter (is_fresh fresh) (srt_siblings stem names))"
  by (cases fresh) (simp_all add: ranked_siblings_def is_fresh_fun Let_def)

text \<open>The subtitle taken for a job's output does not depend on the order in which the file system lists
  the directory: it is the exact \<open>.en.srt\<close> if that is among the candidates, and otherwise the
  candidate with the least rank and name. A file older than the job is only taken when no candidate
  is fresh.\<close>

theorem sidecar_choice_order_free:
  assumes "set names = set names'" "map_option set fresh = map_option set fresh'"
  shows "choose_srt_sidecar stem names fresh = choose_srt_sidecar stem names' fresh'
    \<and> (case choose_srt_sidecar stem names fresh of
         None \<Rightarrow> srt_siblings stem names = []
       | Some n \<Rightarrow> n \<in> set (srt_siblings stem names)
           \<and> (n = stem @ ''.en.srt'' \<or> list_all (\<lambda>m. sidecar_rank stem n \<le> sidecar_rank stem m) (ranked_siblings stem names fresh))
           \<and> (is_fresh fresh n \<or> list_all (\<lambda>m. \<not> is_fresh fresh m) (srt_siblings stem names)))"
proof
  let ?r = "ranked_siblings stem names fresh" and ?r' = "ranked_siblings stem names' fresh'"
  have e: "set ?r = set ?r'" by (rule set_ranked_siblings [OF assms])
  then have "?r = [] \<longleftrightarrow> ?r' = []" unfolding set_empty [symmetric] by simp
  with e arg_min_rank_set [of ?r ?r' stem]
  show "choose_srt_sidecar stem names fresh = choose_srt_sidecar stem names' fresh'"
    by (simp add: choose_srt_sidecar_def Let_def)
  have sub: "n \<in> set (srt_siblings stem names) \<and> (is_fresh fresh n \<or> list_all (\<lambda>m. \<not> is_fresh fresh m) (srt_siblings stem names))"
    if "n \<in> set ?r" for n
    using that by (auto simp: ranked_siblings_cases filter_empty_conv list_all_iff split: if_splits)
  have "?r = [] \<longleftrightarrow> srt_siblings stem names = []"
    by (auto simp: ranked_siblings_cases)
  then show "case choose_srt_sidecar stem names fresh of
         None \<Rightarrow> srt_siblings stem names = []
       | Some n \<Rightarrow> n \<in> set (srt_siblings stem names)
           \<and> (n = stem @ ''.en.srt'' \<or> list_all (\<lambda>m. sidecar_rank stem n \<le> sidecar_rank stem m) ?r)
           \<and> (is_fresh fresh n \<or> list_all (\<lambda>m. \<not> is_fresh fresh m) (srt_siblings stem names))"
    using sub arg_min_list_least [of ?r "sidecar_rank stem"]
    by (auto simp: choose_srt_sidecar_def Let_def list_all_iff)
qed

theorem sidecar_choice_order_free_witness:
  "choose_srt_sidecar ''m'' [''m.subgen.large.eng.srt'', ''m.old.srt'', ''m.en.forced.srt''] None
     = choose_srt_sidecar ''m'' [''m.en.forced.srt'', ''m.old.srt'', ''m.subgen.large.eng.srt''] None"
  using sidecar_choice_order_free [of "[''m.subgen.large.eng.srt'', ''m.old.srt'', ''m.en.forced.srt'']"
      "[''m.en.forced.srt'', ''m.old.srt'', ''m.subgen.large.eng.srt'']" None None "''m''"] by auto

section \<open>Re-timing touches only the job's own output\<close>

text \<open>C19. The watcher rewrites at most one file per completed job: the subtitle chosen for the job, beside its
  video, written no earlier than the job was queued (less the slack for clock skew), and its new
  text is the re-timed old one.\<close>

theorem rewrites_only_own_output:
  assumes "Rewrote file text \<in> set (fst (complete_entry dk sv now outcome e led))"
  shows "find_srt_sidecar dk (le_path e) (le_queued e) = Some file
    \<and> (\<exists>t old. dk_mtime dk file = Some t \<and> le_queued e - sidecar_mtime_slack_s \<le> t
        \<and> dk_text dk file = Some old \<and> retime_srt default_params old = Some text \<and> text \<noteq> old)"
proof -
  have "Rewrote file text \<notin> set (snd (fst (try_upload dk sv now e l)))" for l
    by (auto simp: try_upload_def Let_def split: option.splits prod.splits)
  moreover have "Rewrote file text \<notin> set (fst (trigger_scan sv now e' l))" for e' l
    by (simp add: trigger_scan_def)
  moreover have "Rewrote file text \<notin> set (run_aftercare dk e)"
    by (simp add: run_aftercare_def split: option.split)
  ultimately have "Rewrote file text \<in> set (run_retime dk sv e)"
    using assms by (auto simp: complete_entry_def Let_def split: prod.splits if_splits)
      (metis fst_conv snd_conv)+
  then show ?thesis
    by (auto simp: run_retime_def split: if_splits option.splits) (metis not_less)
qed

section \<open>What a pass over the open rows records\<close>

type_synonym row_status = "nat \<times> string \<times> pyfloat option \<times> string option"

definition row_status :: "ledger_entry \<Rightarrow> row_status" where
  "row_status e = (le_id e, le_path e, le_completed e, le_outcome e)"

lemma status_set_ids [simp]: "map row_status (set_arr_ids i a b c led) = map row_status led"
  by (simp add: set_arr_ids_def rows_update_def row_status_def)

lemma status_mark_bazarr [simp]: "map row_status (mark_bazarr_triggered i t led) = map row_status led"
  by (simp add: mark_bazarr_triggered_def rows_update_def row_status_def)

lemma status_fill [simp]: "map row_status (snd (fill_missing_arr_ids sv e led)) = map row_status led"
  by (simp add: fill_missing_arr_ids_def split: option.split)

lemma status_upload: "map row_status (snd (snd (try_upload dk sv now e led))) = map row_status led"
proof -
  obtain e1 l1 where f: "fill_missing_arr_ids sv e led = (e1, l1)" by fastforce
  with status_fill [of sv e led] have "map row_status l1 = map row_status led" by simp
  with f show ?thesis by (simp add: try_upload_def Let_def split: option.split)
qed

lemma status_scan: "map row_status (snd (trigger_scan sv now e led)) = map row_status led"
  by (simp add: trigger_scan_def)

lemma status_complete_entry:
  "map row_status (snd (complete_entry dk sv now outcome e led)) = map row_status (mark_completed (le_id e) now outcome led)"
  using status_upload [of dk sv now e "mark_completed (le_id e) now outcome led"] status_scan [of sv now]
  by (auto simp: complete_entry_def Let_def split: prod.splits if_splits) (metis snd_conv)+

definition close_status :: "nat \<Rightarrow> pyfloat \<Rightarrow> string option \<Rightarrow> row_status \<Rightarrow> row_status" where
  "close_status i now outcome s =
     (case s of (j, p, c, out) \<Rightarrow> if j = i \<and> c = None then (j, p, Some now, outcome) else s)"

lemma status_mark_completed:
  "map row_status (mark_completed i now outcome led) = map (close_status i now outcome) (map row_status led)"
  by (simp add: mark_completed_def row_status_def close_status_def is_open_def)

text \<open>Whether the pass closes an open row, and how.\<close>

definition left_queue :: "disk \<Rightarrow> string set \<Rightarrow> ledger_entry \<Rightarrow> bool" where
  "left_queue dk live e = (case canonical_to_subgen_batch (dk_libs dk) (le_path e) of Inl _ \<Rightarrow> False | Inr p \<Rightarrow> p \<notin> live)"

definition closes :: "disk \<Rightarrow> pyfloat \<Rightarrow> string set \<Rightarrow> ledger_entry \<Rightarrow> bool" where
  "closes dk now live e \<longleftrightarrow> left_queue dk live e \<and> output_verdict dk now e \<noteq> Wait"

lemma pending_loop_status:
  "fst (pending_loop dk sv now live es effs led) = None \<Longrightarrow>
     map row_status (snd (snd (pending_loop dk sv now live es effs led)))
       = fold (\<lambda>e. map (close_status (le_id e) now (outcome_of (output_verdict dk now e))))
           (filter (closes dk now live) es) (map row_status led)
     \<and> list_all (\<lambda>e. \<exists>p. canonical_to_subgen_batch (dk_libs dk) (le_path e) = Inr p) es"
proof (induction es arbitrary: effs led)
  case (Cons e es)
  then obtain p where p: "canonical_to_subgen_batch (dk_libs dk) (le_path e) = Inr p"
    by (auto split: sum.splits)
  show ?case
  proof (cases "closes dk now live e")
    case False
    then have "pending_loop dk sv now live (e # es) effs led = pending_loop dk sv now live es effs led"
      using p by (auto simp: closes_def left_queue_def split: verdict_of_job.split)
    with Cons p False show ?thesis by simp
  next
    case True
    define led1 where "led1 = (if output_verdict dk now e = No_output
       then mark_completed (le_id e) now (Some outcome_no_output) led
       else snd (complete_entry dk sv now (outcome_of (output_verdict dk now e)) e led))"
    have "\<exists>effs1. pending_loop dk sv now live (e # es) effs led = pending_loop dk sv now live es effs1 led1"
      using True p by (cases "output_verdict dk now e") (auto simp: closes_def left_queue_def led1_def case_prod_beta)
    then obtain effs1 where l: "pending_loop dk sv now live (e # es) effs led = pending_loop dk sv now live es effs1 led1"
      by blast
    have n: "fst (pending_loop dk sv now live es effs1 led1) = None"
      using Cons.prems unfolding l .
    have "map row_status led1 = map (close_status (le_id e) now (outcome_of (output_verdict dk now e))) (map row_status led)"
      using status_mark_completed status_complete_entry by (auto simp: led1_def outcome_of_def simp del: map_map)
    with Cons.IH [OF n] True p show ?thesis unfolding l by (simp del: map_map)
  qed
qed simp

lemma close_status_simps [simp]:
  "close_status i now outcome (i, p, None, out) = (i, p, Some now, outcome)"
  "close_status i now outcome (j, p, Some t, out) = (j, p, Some t, out)"
  "j \<noteq> i \<Longrightarrow> close_status i now outcome (j, p, c, out) = (j, p, c, out)"
  by (simp_all add: close_status_def)

lemma fold_close_other:
  "i \<notin> le_id ` set es \<Longrightarrow>
     fold (\<lambda>e. close_status (le_id e) now (g e)) es (i, p, c, out) = (i, p, c, out)"
  by (induction es) auto

lemma fold_close_closed: "fold (\<lambda>e. close_status (le_id e) now (g e)) es (i, p, Some t, out) = (i, p, Some t, out)"
  by (induction es) auto

lemma fold_close_in:
  "distinct (map le_id es) \<Longrightarrow> e \<in> set es \<Longrightarrow>
     fold (\<lambda>e. close_status (le_id e) now (g e)) es (le_id e, p, None, out) = (le_id e, p, Some now, g e)"
proof (induction es)
  case (Cons x es)
  show ?case
  proof (cases "x = e")
    case True
    then show ?thesis by (simp add: fold_close_closed)
  next
    case False
    with Cons.prems have "e \<in> set es" "le_id e \<noteq> le_id x" by (auto simp: image_iff)
    with Cons show ?thesis by simp
  qed
qed simp

lemma fold_map_map: "fold (\<lambda>e. map (f e)) es xs = map (fold f es) xs"
  by (induction es arbitrary: xs) simp_all

text \<open>What the pass leaves of a row \<open>e\<close>: a row that was closed stays as it was, an open one is closed now
  with the outcome its output earns, unless it is still in the queue or too young to judge.\<close>

definition settled_status :: "disk \<Rightarrow> pyfloat \<Rightarrow> string set \<Rightarrow> ledger_entry \<Rightarrow> row_status" where
  "settled_status dk now live e =
     (if is_open e \<and> closes dk now live e
      then (le_id e, le_path e, Some now, outcome_of (output_verdict dk now e)) else row_status e)"

text \<open>C18. A pass over the open rows that is not cut short judges every one of them by its own output: it stays
  open while its path is in subgen's queue or it is too young to judge, and otherwise is completed
  now, as written exactly when a subtitle of it is on disk and as no output exactly when its video
  is there without one. Rows completed earlier do not change.\<close>

theorem pass_judges_each_row:
  assumes "ledger_ok led" "pass_pending dk sv now caps (Some live) led = (None, effs, led')" "caps \<noteq> Some (True, False)"
  shows "map row_status led' = map (settled_status dk now live) led"
proof (cases "pending_entries led = []")
  case True
  then have "led' = led" "\<forall>e \<in> set led. \<not> is_open e"
    using assms(2) by (auto simp: pass_pending_def pending_entries_def filter_empty_conv)
  then show ?thesis by (auto simp: settled_status_def)
next
  case False
  let ?es = "filter (closes dk now live) (pending_entries led)"
  let ?g = "\<lambda>e. outcome_of (output_verdict dk now e)"
  have "pass_pending dk sv now caps (Some live) led = pending_loop dk sv now live (pending_entries led) [] led"
    using assms(3) False by (auto simp: pass_pending_def split: option.split bool.split)
  with assms(2) have "fst (pending_loop dk sv now live (pending_entries led) [] led) = None"
    "snd (snd (pending_loop dk sv now live (pending_entries led) [] led)) = led'"
    by simp_all
  with pending_loop_status [of dk sv now live "pending_entries led" "[]" led]
  have st: "map row_status led' = map (fold (\<lambda>e. close_status (le_id e) now (?g e)) ?es) (map row_status led)"
    by (simp only: fold_map_map)
  have d: "distinct (map le_id led)" using assms(1) by (simp add: ledger_ok_def)
  then have de: "distinct (map le_id ?es)"
    by (simp add: pending_entries_def distinct_map_filterI)
  have "fold (\<lambda>e. close_status (le_id e) now (?g e)) ?es (row_status e) = settled_status dk now live e" if e: "e \<in> set led" for e
  proof (cases "is_open e \<and> closes dk now live e")
    case True
    then have "e \<in> set ?es" using e by (simp add: pending_entries_def)
    from fold_close_in [OF de this, of now ?g "le_path e" "le_outcome e"] True show ?thesis
      by (simp add: settled_status_def row_status_def is_open_def)
  next
    case False
    have "le_id e \<notin> le_id ` set ?es"
    proof
      assume "le_id e \<in> le_id ` set ?es"
      then obtain x where "x \<in> set ?es" "le_id x = le_id e" by auto
      moreover from this have "x \<in> set led" by (simp add: pending_entries_def)
      ultimately have "x = e" using d e by (auto simp: distinct_map inj_on_def)
      with False \<open>x \<in> set ?es\<close> show False by (simp add: pending_entries_def)
    qed
    with False fold_close_other [of "le_id e" ?es now ?g] show ?thesis
      by (auto simp: settled_status_def row_status_def)
  qed
  then show ?thesis by (simp add: st)
qed

definition empty_disk :: disk where
  "empty_disk = \<lparr>dk_libs = [default_library], dk_resolve = (\<lambda>p. p), dk_exists = (\<lambda>_. True), dk_is_file = (\<lambda>_. True),
     dk_list = (\<lambda>_. Some []), dk_mtime = (\<lambda>_. None), dk_text = (\<lambda>_. None)\<rparr>"

definition no_services :: services where
  "no_services = \<lparr>sv_retime = True, sv_bazarr_configured = (\<lambda>_. False), sv_ids = (\<lambda>_. None), sv_upload = (\<lambda>_. False),
     sv_scan_task = (\<lambda>_. False), sv_scan = (\<lambda>_. False)\<rparr>"

definition silent_job :: ledger where
  "silent_job = snd (record_job (sample_job ''TV/a.mkv'' 0) [])"

theorem pass_judges_each_row_witness:
  "map row_status (snd (snd (pass_pending empty_disk no_services 500 None (Some {}) silent_job)))
     = [(1, ''TV/a.mkv'', Some 500, Some outcome_no_output)]"
proof -
  have "ledger_ok silent_job" by (simp add: ledger_ok_def) code_simp
  moreover have "fst (pass_pending empty_disk no_services 500 None (Some {}) silent_job) = None"
    by code_simp
  ultimately have "map row_status (snd (snd (pass_pending empty_disk no_services 500 None (Some {}) silent_job)))
      = map (settled_status empty_disk 500 {}) silent_job"
    using pass_judges_each_row [of silent_job empty_disk no_services 500 None "{}"] by (metis option.distinct(1) prod.collapse)
  also have "\<dots> = [(1, ''TV/a.mkv'', Some 500, Some outcome_no_output)]"
    by code_simp
  finally show ?thesis .
qed

definition brief_cue :: "int \<Rightarrow> cue" where
  "brief_cue t = \<lparr>cu_index = 1, cu_start = 0, cu_end = t, cu_lines = [''x'']\<rparr>"

definition subtitled_disk :: disk where
  "subtitled_disk = empty_disk\<lparr>dk_list := (\<lambda>_. Some [(''a.en.srt'', True)]), dk_mtime := (\<lambda>_. Some 100),
     dk_text := (\<lambda>_. Some (render_srt [brief_cue 500]))\<rparr>"

lemma brief_parsed:
  "parse_srt (render_srt [brief_cue 500]) = Some [brief_cue 500]"
  "parse_srt (render_srt [brief_cue 1000]) = Some [brief_cue 1000]"
proof -
  have "printable_cues [brief_cue 500]" "renumber 1 [brief_cue 500] = [brief_cue 500]"
    "printable_cues [brief_cue 1000]" "renumber 1 [brief_cue 1000] = [brief_cue 1000]"
    by code_simp+
  then show "parse_srt (render_srt [brief_cue 500]) = Some [brief_cue 500]"
    "parse_srt (render_srt [brief_cue 1000]) = Some [brief_cue 1000]"
    by (simp_all add: parse_rendered)
qed

lemma brief_retimed: "retime_srt default_params (render_srt [brief_cue 500]) = Some (render_srt [brief_cue 1000])"
proof -
  have "retime_cues default_params [brief_cue 500] = [brief_cue 1000]" by code_simp
  then show ?thesis by (simp add: retime_srt_def brief_parsed)
qed

lemma brief_sidecar: "find_srt_sidecar subtitled_disk ''TV/a.mkv'' 0 = Some [''media'', ''TV'', ''a.en.srt'']"
proof -
  have "find_srt_sidecar (empty_disk\<lparr>dk_list := (\<lambda>_. Some [(''a.en.srt'', True)]), dk_mtime := (\<lambda>_. Some 100),
      dk_text := (\<lambda>_. body)\<rparr>) ''TV/a.mkv'' 0 = Some [''media'', ''TV'', ''a.en.srt'']" for body
    by code_simp
  then show ?thesis by (simp only: subtitled_disk_def)
qed

lemma brief_rewritten: "run_retime subtitled_disk no_services (sample_job ''TV/a.mkv'' 0)
    = [Rewrote [''media'', ''TV'', ''a.en.srt''] (render_srt [brief_cue 1000])]"
proof -
  have "brief_cue 1000 \<noteq> brief_cue 500" by (simp add: brief_cue_def)
  then have "render_srt [brief_cue 1000] \<noteq> render_srt [brief_cue 500]"
    by (metis brief_parsed list.inject option.inject)
  moreover have "dk_mtime subtitled_disk srt = Some 100" "dk_text subtitled_disk srt = Some (render_srt [brief_cue 500])" for srt
    by (simp_all add: subtitled_disk_def)
  ultimately show ?thesis
    using brief_sidecar brief_retimed
    by (simp add: run_retime_def no_services_def sample_job_def sidecar_mtime_slack_s_def)
qed

theorem rewrites_only_own_output_witness:
  "\<exists>t old. dk_mtime subtitled_disk [''media'', ''TV'', ''a.en.srt''] = Some t \<and> - sidecar_mtime_slack_s \<le> t
     \<and> dk_text subtitled_disk [''media'', ''TV'', ''a.en.srt''] = Some old
     \<and> retime_srt default_params old = Some (render_srt [brief_cue 1000]) \<and> render_srt [brief_cue 1000] \<noteq> old"
proof -
  have "Rewrote [''media'', ''TV'', ''a.en.srt''] (render_srt [brief_cue 1000])
      \<in> set (fst (complete_entry subtitled_disk no_services 500 None (sample_job ''TV/a.mkv'' 0) []))"
    by (simp add: complete_entry_def brief_rewritten Let_def split: prod.split)
  from rewrites_only_own_output [OF this] show ?thesis
    by (simp add: sample_job_def)
qed

text \<open>A row of a library that is no longer configured ends every tick at its place in the table: the
  later rows are not judged, and neither of the other two passes runs.\<close>

lemma unknown_library_ends_the_tick:
  assumes "pending_entries led = e # es" "canonical_to_subgen_batch (dk_libs dk) (le_path e) = Inl err" "caps \<noteq> Some (True, False)"
  shows "watcher_tick dk sv rt now caps (Some live) led = (Some err, [], [], led)"
  using assms by (auto simp: watcher_tick_def pass_pending_def split: option.split bool.split)

end
