(* ===== verification/Config.thy ===== *)
theory Config
  imports Paths Decimal PerFileTask
begin

text \<open>
  The configuration (\<open>src/src/subarr/config.py\<close>) and the store of the settings a user changed
  (\<open>src/src/subarr/config_store.py\<close>): what each field reads from its environment variable, what a saved override
  makes of it, and the libraries and instances that are built from both. A path is kept as its text. The
  parser of floating-point numbers, \<open>float\<close>, and the text of a JSON value that is no string, \<open>str\<close>, are
  arguments; infinite numbers are left out.
\<close>

section \<open>The store of overrides\<close>

text \<open>The file: absent, no JSON, JSON that is no object, or an object. A read may fail; a corrupt file is moved
  aside, which may fail too.\<close>

datatype override_file = No_file | Bad_json | Other_json | Overrides "(string \<times> json) list"

record config_disk =
  cd_file :: override_file
  cd_preserved :: nat

record disk_faults =
  df_read :: bool
  df_rename :: bool

definition preserve_corrupt :: "disk_faults \<Rightarrow> config_disk \<Rightarrow> config_disk" where
  "preserve_corrupt df d = (if df_rename df then d else d\<lparr>cd_file := No_file, cd_preserved := cd_preserved d + 1\<rparr>)"

text \<open>The data and whether it is what is configured; \<open>None\<close> is the \<open>ConfigStoreError\<close>.\<close>

definition read_result :: "disk_faults \<Rightarrow> config_disk \<Rightarrow> ((string \<times> json) list \<times> bool) option \<times> config_disk" where
  "read_result df d =
     (case cd_file d of
        No_file \<Rightarrow> (Some ([], True), d)
      | file \<Rightarrow>
          if df_read df then (None, d)
          else (case file of
              Bad_json \<Rightarrow> (Some ([], False), preserve_corrupt df d)
            | Overrides kvs \<Rightarrow> (Some (kvs, True), d)
            | _ \<Rightarrow> (Some ([], True), d)))"

definition load_overrides_result :: "disk_faults \<Rightarrow> config_disk \<Rightarrow> ((string \<times> json) list \<times> bool) \<times> config_disk" where
  "load_overrides_result df d = (case read_result df d of (None, d') \<Rightarrow> (([], False), d') | (Some r, d') \<Rightarrow> (r, d'))"

definition load_overrides :: "disk_faults \<Rightarrow> config_disk \<Rightarrow> (string \<times> json) list \<times> config_disk" where
  "load_overrides df d = (case load_overrides_result df d of ((kvs, _), d') \<Rightarrow> (kvs, d'))"

text \<open>The flag says whether the save went through; the write replaces the file as a whole.\<close>

definition save_override :: "disk_faults \<Rightarrow> string \<Rightarrow> json \<Rightarrow> config_disk \<Rightarrow> bool \<times> config_disk" where
  "save_override df k v d =
     (case read_result df d of
        (None, d') \<Rightarrow> (False, d')
      | (Some (kvs, _), d') \<Rightarrow> (True, d'\<lparr>cd_file := Overrides (AList.update k v kvs)\<rparr>))"

definition clear_override :: "disk_faults \<Rightarrow> string \<Rightarrow> config_disk \<Rightarrow> bool \<times> config_disk" where
  "clear_override df k d =
     (case read_result df d of
        (None, d') \<Rightarrow> (False, d')
      | (Some (kvs, _), d') \<Rightarrow> (True, if k \<in> fst ` set kvs then d'\<lparr>cd_file := Overrides (AList.delete k kvs)\<rparr> else d'))"

section \<open>Values\<close>

datatype setting = Text string | Flag bool | Whole int | Number pyfloat | Languages "string list"

text \<open>\<open>int(s)\<close>: white space around, a sign, and digits with single underscores between them.\<close>

definition unsigned :: "string \<Rightarrow> int option" where
  "unsigned s =
     (let groups = split_on (CHR ''_'') s in
      if list_all (\<lambda>g. g \<noteq> [] \<and> list_all ascii_digit g) groups then Some (int (undec (concat groups))) else None)"

definition py_int :: "string \<Rightarrow> int option" where
  "py_int s =
     (case strip s of
        [] \<Rightarrow> None
      | c # t \<Rightarrow> if c = CHR ''-'' then map_option uminus (unsigned t) else if c = CHR ''+'' then unsigned t else unsigned (c # t))"

definition env_or :: "string option \<Rightarrow> string \<Rightarrow> string" where
  "env_or raw default_value = (case raw of None \<Rightarrow> default_value | Some s \<Rightarrow> if strip s = [] then default_value else s)"

definition off_words :: "string list" where "off_words = [''0'', ''false'', ''no'', ''off'']"
definition on_words :: "string list" where "on_words = [''1'', ''true'', ''yes'', ''on'']"

definition word_of :: "string \<Rightarrow> string" where "word_of s = lower (strip s)"

definition normalize_samesite :: "string \<Rightarrow> string" where
  "normalize_samesite v = (if word_of v \<in> {''lax'', ''strict'', ''none''} then word_of v else ''lax'')"

definition norm_llm_provider :: "string \<Rightarrow> string" where
  "norm_llm_provider v = (if word_of v \<in> {''ollama'', ''openai''} then word_of v else ''ollama'')"

definition norm_openai_server_type :: "string \<Rightarrow> string" where
  "norm_openai_server_type v = (if word_of v \<in> {''auto'', ''local'', ''openai'', ''openrouter''} then word_of v else ''auto'')"

definition norm_openai_vision :: "string \<Rightarrow> string" where
  "norm_openai_vision v =
     (let val = strip v in if lower val = ''off'' \<or> lower val = ''same'' then lower val else if val = [] then ''off'' else val)"

definition split_langs :: "string \<Rightarrow> string list" where
  "split_langs s = filter (\<lambda>t. t \<noteq> []) (split_on (CHR '' '') (map (\<lambda>c. if c = CHR '','' \<or> py_space c then CHR '' '' else c) s))"

definition lang_list :: "string \<Rightarrow> string list" where
  "lang_list s = normalize_wanted (Some (map Some (split_langs s)))"

definition default_subgen_url :: string where "default_subgen_url = ''http://subgen:9000''"

text \<open>\<open>None\<close> is a value that is no string and not \<open>None\<close>.\<close>

definition subgen_url_is_default :: "string option option \<Rightarrow> bool" where
  "subgen_url_is_default url =
     (case url of
        None \<Rightarrow> False
      | Some None \<Rightarrow> True
      | Some (Some s) \<Rightarrow>
          (let raw = strip s in raw = [] \<or> lower (rstrip_char (CHR ''/'') raw) = lower (rstrip_char (CHR ''/'') default_subgen_url)))"

section \<open>What a field reads\<close>

text \<open>The shapes of the right-hand sides in \<open>load\<close>, with the default text.\<close>

datatype reader =
    Env_or string
  | Bare string
  | Stripped string
  | Unless_off string
  | If_on string
  | If_on_or string
  | Whole_or string
  | Nonnegative_or string
  | Probability_or string
  | Lang_list string
  | Provider_or string
  | Vision_or string
  | Server_or string
  | Same_site_or string

definition bare :: "string option \<Rightarrow> string \<Rightarrow> string" where
  "bare raw default_value = (case raw of None \<Rightarrow> default_value | Some s \<Rightarrow> s)"

fun read_field :: "(string \<Rightarrow> pyfloat option) \<Rightarrow> reader \<Rightarrow> string option \<Rightarrow> setting option" where
  "read_field to_float (Env_or d) raw = Some (Text (env_or raw d))"
| "read_field to_float (Bare d) raw = Some (Text (bare raw d))"
| "read_field to_float (Stripped d) raw = Some (Text (strip (bare raw d)))"
| "read_field to_float (Unless_off d) raw = Some (Flag (word_of (env_or raw d) \<notin> set off_words))"
| "read_field to_float (If_on d) raw = Some (Flag (word_of (bare raw d) \<in> set on_words))"
| "read_field to_float (If_on_or d) raw = Some (Flag (word_of (env_or raw d) \<in> set on_words))"
| "read_field to_float (Whole_or d) raw = map_option Whole (py_int (env_or raw d))"
| "read_field to_float (Nonnegative_or d) raw = map_option (\<lambda>x. Number (max 0 x)) (to_float (env_or raw d))"
| "read_field to_float (Probability_or d) raw = map_option (\<lambda>x. Number (min 1 (max 0 x))) (to_float (env_or raw d))"
| "read_field to_float (Lang_list d) raw = Some (Languages (lang_list (bare raw d)))"
| "read_field to_float (Provider_or d) raw = Some (Text (norm_llm_provider (env_or raw d)))"
| "read_field to_float (Vision_or d) raw = Some (Text (norm_openai_vision (env_or raw d)))"
| "read_field to_float (Server_or d) raw = Some (Text (norm_openai_server_type (env_or raw d)))"
| "read_field to_float (Same_site_or d) raw = Some (Text (normalize_samesite (env_or raw d)))"

definition settings_table :: "(string \<times> string \<times> reader) list" where
  "settings_table =
    [(''media_root'', ''SUBARR_MEDIA_ROOT'', Env_or ''/media/library''),
     (''subgen_compose_path'', ''SUBGEN_COMPOSE_PATH'', Env_or ''/dockercontainers/subgen/compose.yaml''),
     (''subgen_url'', ''SUBGEN_URL'', Env_or ''http://subgen:9000''),
     (''subgen_container'', ''SUBGEN_CONTAINER'', Env_or ''subgen''),
     (''subgen_media_prefix'', ''SUBGEN_MEDIA_PREFIX'', Env_or ''/media''),
     (''db_path'', ''SUBARR_DB_PATH'', Env_or ''/data/subarr.db''),
     (''port'', ''SUBARR_PORT'', Whole_or ''9922''),
     (''plex_url'', ''PLEX_URL'', Stripped []),
     (''plex_token'', ''PLEX_TOKEN'', Bare []),
     (''plex_section'', ''PLEX_SECTION'', Env_or ''all''),
     (''plex_path_prefix'', ''PLEX_PATH_PREFIX'', Bare []),
     (''jellyfin_url'', ''JELLYFIN_URL'', Bare []),
     (''jellyfin_api_key'', ''JELLYFIN_API_KEY'', Bare []),
     (''jellyfin_path_prefix'', ''JELLYFIN_PATH_PREFIX'', Bare []),
     (''plex_partial_scan_enabled'', ''PLEX_PARTIAL_SCAN_ENABLED'', Unless_off ''1''),
     (''subgen_webhook_enabled'', ''SUBARR_SUBGEN_WEBHOOK_ENABLED'', Unless_off ''1''),
     (''sonarr_propagate_audio_lang'', ''SONARR_PROPAGATE_AUDIO_LANG'', If_on ''0''),
     (''retime_enabled'', ''SUBARR_RETIME_ENABLED'', If_on ''1''),
     (''forced_segment_enabled'', ''SUBARR_FORCED_SEGMENT_ENABLED'', If_on ''0''),
     (''per_file_task_enabled'', ''SUBARR_PER_FILE_TASK_ENABLED'', If_on ''0''),
     (''per_file_task_wanted'', ''SUBARR_PER_FILE_TASK_WANTED'', Lang_list []),
     (''debug'', ''SUBARR_DEBUG'', If_on ''0''),
     (''plex_audio_hints'', ''PLEX_AUDIO_HINTS'', If_on ''0''),
     (''vad_enabled'', ''SUBARR_VAD_ENABLED'', Unless_off ''1''),
     (''coverage_refresh_min_interval_s'', ''SUBARR_COVERAGE_REFRESH_MIN_INTERVAL_S'', Nonnegative_or ''120''),
     (''multilang_chunk_min_prob'', ''SUBARR_MULTILANG_CHUNK_MIN_PROB'', Probability_or ''0.5''),
     (''bazarr_url'', ''BAZARR_URL'', Env_or ''http://bazarr:6767''),
     (''bazarr_api_key'', ''BAZARR_API_KEY'', Bare []),
     (''sonarr_url'', ''SONARR_URL'', Env_or ''http://sonarr:8989''),
     (''sonarr_api_key'', ''SONARR_API_KEY'', Bare []),
     (''radarr_url'', ''RADARR_URL'', Env_or ''http://radarr:7878''),
     (''radarr_api_key'', ''RADARR_API_KEY'', Bare []),
     (''tautulli_url'', ''TAUTULLI_URL'', Env_or ''http://tautulli:8181''),
     (''tautulli_api_key'', ''TAUTULLI_API_KEY'', Bare []),
     (''arr_path_prefix'', ''ARR_PATH_PREFIX'', Env_or ''/data/Media/''),
     (''ollama_url'', ''OLLAMA_URL'', Env_or ''http://ollama:11434''),
     (''ollama_model'', ''OLLAMA_MODEL'', Env_or ''qwen2.5:7b''),
     (''ollama_vision_model'', ''OLLAMA_VISION_MODEL'', Env_or ''qwen2.5vl:7b''),
     (''llm_provider'', ''LLM_PROVIDER'', Provider_or ''ollama''),
     (''openai_base_url'', ''OPENAI_BASE_URL'', Stripped []),
     (''openai_api_key'', ''OPENAI_API_KEY'', Stripped []),
     (''openai_model'', ''OPENAI_MODEL'', Stripped []),
     (''openai_vision'', ''OPENAI_VISION'', Vision_or ''off''),
     (''openai_server_type'', ''OPENAI_SERVER_TYPE'', Server_or ''auto''),
     (''docker_proxy_url'', ''SUBARR_DOCKER_PROXY_URL'', Bare []),
     (''docker_socket_path'', ''SUBARR_DOCKER_SOCKET_PATH'', Bare []),
     (''telemetry_endpoint'', ''SUBARR_TELEMETRY_ENDPOINT'', Bare ''https://telemetry.subarr.com/v1/ping''),
     (''auth_user'', ''SUBARR_USER'', Bare []),
     (''auth_pass'', ''SUBARR_PASS'', Bare []),
     (''api_key'', ''SUBARR_API_KEY'', Bare []),
     (''csrf_protection'', ''SUBARR_CSRF_PROTECTION'', Unless_off ''1''),
     (''auth_disabled'', ''SUBARR_AUTH_DISABLED'', If_on_or ''0''),
     (''auth_reset'', ''SUBARR_AUTH_RESET'', If_on_or ''0''),
     (''cookie_samesite'', ''SUBARR_COOKIE_SAMESITE'', Same_site_or ''lax''),
     (''session_secret'', ''SUBARR_SESSION_SECRET'', Bare []),
     (''trusted_proxies'', ''SUBARR_TRUSTED_PROXIES'', Bare []),
     (''login_allowlist'', ''SUBARR_LOGIN_ALLOWLIST'', Bare []),
     (''login_max_attempts'', ''SUBARR_LOGIN_MAX_ATTEMPTS'', Whole_or ''5''),
     (''login_window_s'', ''SUBARR_LOGIN_WINDOW_S'', Whole_or ''300''),
     (''arena_retention_days'', ''SUBARR_ARENA_RETENTION_DAYS'', Whole_or ''30'')]"

type_synonym settings = "(string \<times> setting) list"

text \<open>\<open>None\<close> is the \<open>ValueError\<close> of a number that does not parse.\<close>

fun read_settings :: "(string \<Rightarrow> pyfloat option) \<Rightarrow> (string \<Rightarrow> string option) \<Rightarrow> (string \<times> string \<times> reader) list \<Rightarrow> settings option" where
  "read_settings to_float env [] = Some []"
| "read_settings to_float env ((f, var, r) # rows) =
     (case read_field to_float r (env var) of
        None \<Rightarrow> None
      | Some v \<Rightarrow> map_option ((#) (f, v)) (read_settings to_float env rows))"

section \<open>Overrides below the environment\<close>

definition field_env_vars :: "(string \<times> string) list" where
  "field_env_vars =
    [(''media_root'', ''SUBARR_MEDIA_ROOT''),
     (''arr_path_prefix'', ''ARR_PATH_PREFIX''),
     (''bazarr_url'', ''BAZARR_URL''),
     (''bazarr_api_key'', ''BAZARR_API_KEY''),
     (''sonarr_url'', ''SONARR_URL''),
     (''sonarr_api_key'', ''SONARR_API_KEY''),
     (''radarr_url'', ''RADARR_URL''),
     (''radarr_api_key'', ''RADARR_API_KEY''),
     (''tautulli_url'', ''TAUTULLI_URL''),
     (''tautulli_api_key'', ''TAUTULLI_API_KEY''),
     (''subgen_url'', ''SUBGEN_URL''),
     (''ollama_url'', ''OLLAMA_URL''),
     (''ollama_model'', ''OLLAMA_MODEL''),
     (''ollama_vision_model'', ''OLLAMA_VISION_MODEL''),
     (''llm_provider'', ''LLM_PROVIDER''),
     (''openai_base_url'', ''OPENAI_BASE_URL''),
     (''openai_api_key'', ''OPENAI_API_KEY''),
     (''openai_model'', ''OPENAI_MODEL''),
     (''openai_vision'', ''OPENAI_VISION''),
     (''openai_server_type'', ''OPENAI_SERVER_TYPE''),
     (''plex_url'', ''PLEX_URL''),
     (''plex_token'', ''PLEX_TOKEN''),
     (''jellyfin_url'', ''JELLYFIN_URL''),
     (''jellyfin_api_key'', ''JELLYFIN_API_KEY''),
     (''jellyfin_path_prefix'', ''JELLYFIN_PATH_PREFIX''),
     (''vad_enabled'', ''SUBARR_VAD_ENABLED''),
     (''plex_audio_hints'', ''PLEX_AUDIO_HINTS''),
     (''sonarr_propagate_audio_lang'', ''SONARR_PROPAGATE_AUDIO_LANG''),
     (''retime_enabled'', ''SUBARR_RETIME_ENABLED''),
     (''forced_segment_enabled'', ''SUBARR_FORCED_SEGMENT_ENABLED''),
     (''per_file_task_enabled'', ''SUBARR_PER_FILE_TASK_ENABLED''),
     (''per_file_task_wanted'', ''SUBARR_PER_FILE_TASK_WANTED''),
     (''plex_partial_scan_enabled'', ''PLEX_PARTIAL_SCAN_ENABLED''),
     (''subgen_webhook_enabled'', ''SUBARR_SUBGEN_WEBHOOK_ENABLED'')]"

definition env_is_set :: "(string \<Rightarrow> string option) \<Rightarrow> string \<Rightarrow> bool" where
  "env_is_set env f =
     (case map_of field_env_vars f of
        None \<Rightarrow> False
      | Some var \<Rightarrow> (case env var of None \<Rightarrow> False | Some raw \<Rightarrow> strip raw \<noteq> []))"

text \<open>The normalisers take any JSON value: \<open>None\<close> reads as the empty text.\<close>

definition none_or_str :: "(json \<Rightarrow> string) \<Rightarrow> json \<Rightarrow> string" where
  "none_or_str repr v = (if v = JNull then [] else py_str repr v)"

definition clean_str :: "(json \<Rightarrow> string) \<Rightarrow> json \<Rightarrow> string" where
  "clean_str repr v = strip (none_or_str repr v)"

definition coerce_bool :: "(json \<Rightarrow> string) \<Rightarrow> json \<Rightarrow> bool" where
  "coerce_bool repr v = (case v of JBool b \<Rightarrow> b | _ \<Rightarrow> word_of (py_str repr v) \<notin> set ([] # off_words))"

definition coerce_lang_list :: "json \<Rightarrow> string list" where
  "coerce_lang_list v =
     (case v of
        JStr s \<Rightarrow> lang_list s
      | JList xs \<Rightarrow> normalize_wanted (Some (map (\<lambda>x. case x of JStr s \<Rightarrow> Some s | _ \<Rightarrow> None) xs))
      | _ \<Rightarrow> [])"

datatype coercer = As_bool | As_langs | As_str | As_clean | As_provider | As_vision | As_server

fun coerce :: "(json \<Rightarrow> string) \<Rightarrow> coercer \<Rightarrow> json \<Rightarrow> setting" where
  "coerce repr As_bool v = Flag (coerce_bool repr v)"
| "coerce repr As_langs v = Languages (coerce_lang_list v)"
| "coerce repr As_str v = Text (py_str repr v)"
| "coerce repr As_clean v = Text (clean_str repr v)"
| "coerce repr As_provider v = Text (norm_llm_provider (none_or_str repr v))"
| "coerce repr As_vision v = Text (norm_openai_vision (none_or_str repr v))"
| "coerce repr As_server v = Text (norm_openai_server_type (none_or_str repr v))"

definition field_coerce :: "(string \<times> coercer) list" where
  "field_coerce =
    [(''vad_enabled'', As_bool),
     (''plex_audio_hints'', As_bool),
     (''sonarr_propagate_audio_lang'', As_bool),
     (''plex_partial_scan_enabled'', As_bool),
     (''subgen_webhook_enabled'', As_bool),
     (''forced_segment_enabled'', As_bool),
     (''per_file_task_enabled'', As_bool),
     (''per_file_task_wanted'', As_langs),
     (''ollama_model'', As_str),
     (''ollama_url'', As_str),
     (''ollama_vision_model'', As_str),
     (''llm_provider'', As_provider),
     (''openai_base_url'', As_clean),
     (''openai_api_key'', As_clean),
     (''openai_model'', As_clean),
     (''openai_vision'', As_vision),
     (''openai_server_type'', As_server),
     (''bazarr_url'', As_str),
     (''bazarr_api_key'', As_str),
     (''sonarr_url'', As_str),
     (''sonarr_api_key'', As_str),
     (''radarr_url'', As_str),
     (''radarr_api_key'', As_str),
     (''tautulli_url'', As_str),
     (''tautulli_api_key'', As_str),
     (''plex_url'', As_str),
     (''plex_token'', As_str),
     (''subgen_url'', As_str),
     (''jellyfin_url'', As_str),
     (''jellyfin_api_key'', As_str),
     (''jellyfin_path_prefix'', As_str)]"

definition overlay :: "(json \<Rightarrow> string) \<Rightarrow> (string \<Rightarrow> string option) \<Rightarrow> string \<times> json \<Rightarrow> settings \<Rightarrow> settings" where
  "overlay repr env kv s =
     (case map_of field_coerce (fst kv) of
        None \<Rightarrow> s
      | Some co \<Rightarrow> if env_is_set env (fst kv) then s else AList.update (fst kv) (coerce repr co (snd kv)) s)"

definition apply_persisted_overrides ::
    "(json \<Rightarrow> string) \<Rightarrow> (string \<Rightarrow> string option) \<Rightarrow> disk_faults \<Rightarrow> settings \<Rightarrow> config_disk \<Rightarrow> settings \<times> config_disk" where
  "apply_persisted_overrides repr env df s d = (case load_overrides df d of (kvs, d') \<Rightarrow> (fold (overlay repr env) kvs s, d'))"

section \<open>The configuration\<close>

record config =
  cf_settings :: settings
  cf_libraries :: "library list"
  cf_instances :: "instance_cfg list"

definition text_of :: "settings \<Rightarrow> string \<Rightarrow> string" where
  "text_of s f = (case map_of s f of Some (Text t) \<Rightarrow> t | _ \<Rightarrow> [])"

text \<open>A persisted value as the validators see it: every field of an object is read through \<open>str\<close>.\<close>

fun raw_of_json :: "(json \<Rightarrow> string) \<Rightarrow> json \<Rightarrow> raw" where
  "raw_of_json repr (JObj kvs) = RObj (map (\<lambda>(k, v). (k, py_str repr v)) kvs)"
| "raw_of_json repr (JList xs) = RList (map (raw_of_json repr) xs)"
| "raw_of_json repr v = ROther"

definition library_zero :: "settings \<Rightarrow> library" where
  "library_zero s =
     \<lparr>lib_slug = [], lib_name = ''default'', lib_fs_root = text_of s ''media_root'',
      lib_subgen_prefix = text_of s ''subgen_media_prefix'', lib_arr_prefix = text_of s ''arr_path_prefix'',
      lib_sonarr_id = [], lib_radarr_id = [], lib_bazarr_id = []\<rparr>"

definition library_extras :: "(json \<Rightarrow> string) \<Rightarrow> (string \<times> json) list \<Rightarrow> raw list" where
  "library_extras repr kvs = (case map_of kvs ''libraries'' of Some (JList xs) \<Rightarrow> map (raw_of_json repr) xs | _ \<Rightarrow> [])"

definition rebuild_libraries :: "(json \<Rightarrow> string) \<Rightarrow> disk_faults \<Rightarrow> config \<Rightarrow> config_disk \<Rightarrow> config \<times> config_disk" where
  "rebuild_libraries repr df c d =
     (case load_overrides_result df d of ((kvs, read_ok), d') \<Rightarrow>
        if \<not> read_ok \<and> cf_libraries c \<noteq> [] then (c, d')
        else (let dflt = library_zero (cf_settings c) in
              (c\<lparr>cf_libraries := (case build_libraries dflt (library_extras repr kvs) of Inl _ \<Rightarrow> [dflt] | Inr libs \<Rightarrow> libs)\<rparr>, d')))"

definition default_instance :: "settings \<Rightarrow> string \<Rightarrow> instance_cfg" where
  "default_instance s svc =
     \<lparr>inst_id = [], inst_service = svc, inst_name = ''default'', inst_url = text_of s (svc @ ''_url''),
      inst_api_key = text_of s (svc @ ''_api_key'')\<rparr>"

definition default_instances :: "settings \<Rightarrow> instance_cfg list" where
  "default_instances s = map (default_instance s) [''sonarr'', ''radarr'', ''bazarr'']"

definition instance_extras :: "(json \<Rightarrow> string) \<Rightarrow> (string \<times> json) list \<Rightarrow> (string \<times> raw) list" where
  "instance_extras repr kvs =
     (case map_of kvs ''instances'' of Some (JObj o_kvs) \<Rightarrow> map (\<lambda>(k, v). (k, raw_of_json repr v)) o_kvs | _ \<Rightarrow> [])"

definition rebuild_instances :: "(json \<Rightarrow> string) \<Rightarrow> disk_faults \<Rightarrow> config \<Rightarrow> config_disk \<Rightarrow> config \<times> config_disk" where
  "rebuild_instances repr df c d =
     (case load_overrides df d of (kvs, d') \<Rightarrow>
        (let dflts = default_instances (cf_settings c) in
         (c\<lparr>cf_instances := (case build_instances dflts (instance_extras repr kvs) of Inl _ \<Rightarrow> dflts | Inr insts \<Rightarrow> insts)\<rparr>, d')))"

text \<open>A warning is the library, the service and the id that is not configured.\<close>

definition validate_library_bindings :: "library list \<Rightarrow> instance_cfg list \<Rightarrow> (string \<times> string \<times> string) list" where
  "validate_library_bindings libs insts =
     concat (map (\<lambda>l. map (\<lambda>(svc, bound). (lib_slug l, svc, bound))
       (filter (\<lambda>(svc, bound). bound \<noteq> [] \<and> bound \<notin> set (instance_ids svc insts))
         [(''sonarr'', lib_sonarr_id l), (''radarr'', lib_radarr_id l), (''bazarr'', lib_bazarr_id l)])) libs)"

text \<open>A load reads the store three times.\<close>

record load_env =
  le_float :: "string \<Rightarrow> pyfloat option"
  le_repr :: "json \<Rightarrow> string"
  le_vars :: "string \<Rightarrow> string option"

definition load_config :: "load_env \<Rightarrow> disk_faults \<Rightarrow> disk_faults \<Rightarrow> disk_faults \<Rightarrow> config_disk \<Rightarrow> config option \<times> config_disk" where
  "load_config E df1 df2 df3 d =
     (case read_settings (le_float E) (le_vars E) settings_table of
        None \<Rightarrow> (None, d)
      | Some s \<Rightarrow>
          (let (s', d1) = apply_persisted_overrides (le_repr E) (le_vars E) df1 s d;
               (c1, d2) = rebuild_libraries (le_repr E) df2 \<lparr>cf_settings = s', cf_libraries = [], cf_instances = []\<rparr> d1;
               (c2, d3) = rebuild_instances (le_repr E) df3 c1 d2
           in (Some c2, d3)))"


section \<open>Every field keeps its type\<close>

text \<open>What a setting of each kind of field looks like.\<close>

fun has_type :: "reader \<Rightarrow> setting \<Rightarrow> bool" where
  "has_type (Env_or d) v = (\<exists>t. v = Text t)"
| "has_type (Bare d) v = (\<exists>t. v = Text t)"
| "has_type (Stripped d) v = (\<exists>t. v = Text t)"
| "has_type (Unless_off d) v = (\<exists>b. v = Flag b)"
| "has_type (If_on d) v = (\<exists>b. v = Flag b)"
| "has_type (If_on_or d) v = (\<exists>b. v = Flag b)"
| "has_type (Whole_or d) v = (\<exists>i. v = Whole i)"
| "has_type (Nonnegative_or d) v = (\<exists>x. v = Number x \<and> 0 \<le> x)"
| "has_type (Probability_or d) v = (\<exists>x. v = Number x \<and> 0 \<le> x \<and> x \<le> 1)"
| "has_type (Lang_list d) v = (\<exists>ls. v = Languages ls \<and> distinct ls \<and> [] \<notin> set ls \<and> ''und'' \<notin> set ls)"
| "has_type (Provider_or d) v = (v \<in> Text ` {''ollama'', ''openai''})"
| "has_type (Vision_or d) v =
     (\<exists>t. v = Text t \<and> t \<noteq> [] \<and> (lower t = ''off'' \<longrightarrow> t = ''off'') \<and> (lower t = ''same'' \<longrightarrow> t = ''same''))"
| "has_type (Server_or d) v = (v \<in> Text ` {''auto'', ''local'', ''openai'', ''openrouter''})"
| "has_type (Same_site_or d) v = (v \<in> Text ` {''lax'', ''strict'', ''none''})"

definition fits :: "coercer \<Rightarrow> reader \<Rightarrow> bool" where
  "fits co r =
     (case co of
        As_bool \<Rightarrow> (case r of Unless_off _ \<Rightarrow> True | If_on _ \<Rightarrow> True | _ \<Rightarrow> False)
      | As_langs \<Rightarrow> (case r of Lang_list _ \<Rightarrow> True | _ \<Rightarrow> False)
      | As_str \<Rightarrow> (case r of Env_or _ \<Rightarrow> True | Bare _ \<Rightarrow> True | Stripped _ \<Rightarrow> True | _ \<Rightarrow> False)
      | As_clean \<Rightarrow> (case r of Stripped _ \<Rightarrow> True | _ \<Rightarrow> False)
      | As_provider \<Rightarrow> (case r of Provider_or _ \<Rightarrow> True | _ \<Rightarrow> False)
      | As_vision \<Rightarrow> (case r of Vision_or _ \<Rightarrow> True | _ \<Rightarrow> False)
      | As_server \<Rightarrow> (case r of Server_or _ \<Rightarrow> True | _ \<Rightarrow> False))"

lemma normalize_wanted_codes:
  "distinct (normalize_wanted ws)" "[] \<notin> set (normalize_wanted ws)" "''und'' \<notin> set (normalize_wanted ws)"
  by (auto simp: normalize_wanted_def normalize_wanted_loop_distinct normalize_wanted_loop_set split: option.splits)

lemma norm_openai_vision_type: "has_type (Vision_or d) (Text (norm_openai_vision s))"
  by (auto simp: norm_openai_vision_def Let_def lower_def)

lemma norm_choices:
  "norm_llm_provider s \<in> {''ollama'', ''openai''}"
  "norm_openai_server_type s \<in> {''auto'', ''local'', ''openai'', ''openrouter''}"
  "normalize_samesite s \<in> {''lax'', ''strict'', ''none''}"
  unfolding norm_llm_provider_def norm_openai_server_type_def normalize_samesite_def by (simp_all split: if_splits)

lemma norm_types:
  "has_type (Provider_or d) (Text (norm_llm_provider s))"
  "has_type (Server_or d) (Text (norm_openai_server_type s))"
  "has_type (Same_site_or d) (Text (normalize_samesite s))"
  unfolding has_type.simps by (rule imageI, rule norm_choices)+

lemmas field_types = norm_types norm_openai_vision_type

lemma read_field_type: "read_field to_float r raw = Some v \<Longrightarrow> has_type r v"
  by (cases r)
     (auto simp: lang_list_def normalize_wanted_codes simp del: has_type.simps(11-14) intro: field_types)

lemma coerce_type: "fits co r \<Longrightarrow> has_type r (coerce repr co v)"
  by (cases co)
     (auto simp: fits_def coerce_lang_list_def lang_list_def normalize_wanted_codes simp del: has_type.simps(11-14)
       intro: field_types split: json.splits reader.splits)

text \<open>The tables agree: every field that can be saved is a field of the configuration, of a fitting type, with
  an environment variable that guards it, and the guard names the variable the field is read from.\<close>

lemma coercers_fit: "list_all (\<lambda>(f, co). case map_of settings_table f of Some (var, r) \<Rightarrow> fits co r | None \<Rightarrow> False) field_coerce"
  by code_simp

lemma guards_name_the_variable:
  "list_all (\<lambda>(f, var). map_option fst (map_of settings_table f) = Some var) field_env_vars"
  by code_simp

lemma every_saved_field_is_guarded: "list_all (\<lambda>(f, co). f \<in> fst ` set field_env_vars) field_coerce"
  by code_simp

lemma settings_table_distinct: "distinct (map fst settings_table)"
  by code_simp

section \<open>What a loaded configuration holds\<close>

lemma strip_Nil [simp]: "strip [] = []"
  by code_simp

lemma read_settings_fields:
  "read_settings to_float env rows = Some s \<Longrightarrow> map_of rows f = Some (var, r) \<Longrightarrow>
     map_of s f = read_field to_float r (env var) \<and> read_field to_float r (env var) \<noteq> None"
  by (induction rows arbitrary: s) (auto split: option.splits if_splits)

lemma map_of_overlay:
  "map_of (overlay repr env (g, v) s) f =
     (if f = g \<and> \<not> env_is_set env f then (case map_of field_coerce f of None \<Rightarrow> map_of s f | Some co \<Rightarrow> Some (coerce repr co v))
      else map_of s f)"
  by (auto simp: overlay_def update_conv' split: option.splits)

lemma map_of_overlays:
  assumes "distinct (map fst kvs)"
  shows "map_of (fold (overlay repr env) kvs s) f =
     (case (map_of field_coerce f, map_of kvs f) of
        (Some co, Some v) \<Rightarrow> if env_is_set env f then map_of s f else Some (coerce repr co v)
      | _ \<Rightarrow> map_of s f)"
  using assms
proof (induction kvs arbitrary: s)
  case (Cons kv kvs)
  obtain g v where kv: "kv = (g, v)" by fastforce
  from Cons.prems have "map_of kvs g = None" by (simp add: kv map_of_eq_None_iff)
  then show ?case using Cons by (auto simp: kv map_of_overlay split: option.splits)
qed (simp split: option.splits)

lemma rebuild_keeps_settings [simp]:
  "cf_settings (fst (rebuild_libraries repr df c d)) = cf_settings c"
  "cf_settings (fst (rebuild_instances repr df c d)) = cf_settings c"
  by (simp_all add: rebuild_libraries_def rebuild_instances_def Let_def split: prod.splits)

lemma load_config_settings:
  assumes "load_config E df1 df2 df3 d = (Some c, d')"
  obtains s where "read_settings (le_float E) (le_vars E) settings_table = Some s"
    and "cf_settings c = fold (overlay (le_repr E) (le_vars E)) (fst (load_overrides df1 d)) s"
proof -
  from assms obtain s where s: "read_settings (le_float E) (le_vars E) settings_table = Some s"
    by (auto simp: load_config_def split: option.splits)
  with assms have "cf_settings c = fst (apply_persisted_overrides (le_repr E) (le_vars E) df1 s d)"
    by (auto simp: load_config_def split_beta Let_def)
  then show ?thesis using s that by (simp add: apply_persisted_overrides_def split_beta)
qed

definition disk_ok :: "config_disk \<Rightarrow> bool" where
  "disk_ok d \<longleftrightarrow> (case cd_file d of Overrides kvs \<Rightarrow> distinct (map fst kvs) | _ \<Rightarrow> True)"

lemma load_overrides_distinct: "disk_ok d \<Longrightarrow> distinct (map fst (fst (load_overrides df d)))"
  by (auto simp: disk_ok_def load_overrides_def load_overrides_result_def read_result_def split: override_file.splits)

lemma saved_field_guard:
  assumes "map_of field_coerce f = Some co" and "map_of settings_table f = Some (var, r)"
  shows "map_of field_env_vars f = Some var"
proof -
  have "f \<in> fst ` set field_env_vars"
    using every_saved_field_is_guarded map_of_SomeD [OF assms(1)] by (auto simp: list_all_iff)
  then obtain w where w: "map_of field_env_vars f = Some w" by (metis map_of_eq_None_iff option.exhaust)
  have "map_option fst (map_of settings_table f) = Some w"
    using guards_name_the_variable map_of_SomeD [OF w] by (auto simp: list_all_iff)
  then show ?thesis using assms(2) w by simp
qed

text \<open>C10. Which value a field of a freshly loaded configuration has: what its environment variable says if it is set or
  nothing was saved for it (or the field cannot be saved), and otherwise the saved value after its coercion. A value
  of the environment that is not blank always wins.\<close>

theorem environment_wins:
  assumes "load_config E df1 df2 df3 d = (Some c, d')" and "disk_ok d"
    and "map_of settings_table f = Some (var, r)"
  shows "map_of (cf_settings c) f =
     (case (map_of field_coerce f, map_of (fst (load_overrides df1 d)) f) of
        (Some co, Some v) \<Rightarrow>
          if strip (or_empty (le_vars E var)) \<noteq> []
          then read_field (le_float E) r (le_vars E var) else Some (coerce (le_repr E) co v)
      | _ \<Rightarrow> read_field (le_float E) r (le_vars E var))"
proof -
  obtain s where s: "read_settings (le_float E) (le_vars E) settings_table = Some s"
    and c: "cf_settings c = fold (overlay (le_repr E) (le_vars E)) (fst (load_overrides df1 d)) s"
    using load_config_settings [OF assms(1)] by blast
  have "env_is_set (le_vars E) f \<longleftrightarrow> strip (or_empty (le_vars E var)) \<noteq> []" if "map_of field_coerce f = Some co" for co
    using saved_field_guard [OF that assms(3)] by (simp add: env_is_set_def or_empty_def split: option.splits)
  then show ?thesis
    using read_settings_fields [OF s assms(3)] unfolding c
    by (auto simp: map_of_overlays [OF load_overrides_distinct [OF assms(2)]] split: option.splits)
qed


definition demo_env :: load_env where
  "demo_env = \<lparr>le_float = (\<lambda>s. Some (of_nat (length s))), le_repr = (\<lambda>j. ''None''),
     le_vars = [''OLLAMA_URL'' \<mapsto> ''http://gpu:1'', ''BAZARR_URL'' \<mapsto> [CHR '' '']]\<rparr>"

definition demo_faults :: disk_faults where "demo_faults = \<lparr>df_read = False, df_rename = False\<rparr>"

definition demo_disk :: config_disk where
  "demo_disk = \<lparr>cd_file = Overrides [(''ollama_url'', JStr ''http://b''), (''bazarr_url'', JStr ''http://c''), (''vad_enabled'', JInt 0)],
     cd_preserved = 0\<rparr>"

fun int_parses :: "reader \<Rightarrow> string option \<Rightarrow> bool" where
  "int_parses (Whole_or d) raw = (case py_int (env_or raw d) of None \<Rightarrow> False | Some _ \<Rightarrow> True)"
| "int_parses r raw = True"

lemma settings_read_when_numbers_parse:
  assumes "\<And>s. to_float s \<noteq> None" and "list_all (\<lambda>(f, var, r). int_parses r (env var)) rows"
  shows "\<exists>s. read_settings to_float env rows = Some s"
proof -
  have "\<exists>v. read_field to_float r raw = Some v" if "int_parses r raw" for r raw
    using that assms(1) by (cases r) (auto split: option.splits)
  then show ?thesis using assms(2) by (induction rows) (fastforce split: option.splits)+
qed

lemma demo_float: "le_float demo_env s = Some (of_nat (length s))"
  by (simp add: demo_env_def)

lemma demo_loads: "\<exists>c d'. load_config demo_env df1 df2 df3 d = (Some c, d')"
proof -
  have "list_all (\<lambda>(f, var, r). int_parses r (le_vars demo_env var)) settings_table" by code_simp
  then obtain s where "read_settings (le_float demo_env) (le_vars demo_env) settings_table = Some s"
    using settings_read_when_numbers_parse [of "le_float demo_env" "le_vars demo_env"]
    by (metis demo_float option.distinct(1))
  then show ?thesis by (auto simp: load_config_def split_beta Let_def)
qed

lemma demo_disk_ok: "disk_ok demo_disk"
  by (simp add: disk_ok_def demo_disk_def)

theorem environment_wins_witness:
  "\<exists>c d'. load_config demo_env demo_faults demo_faults demo_faults demo_disk = (Some c, d')
     \<and> map_of (cf_settings c) ''ollama_url'' = Some (Text ''http://gpu:1'')
     \<and> map_of (cf_settings c) ''bazarr_url'' = Some (Text ''http://c'')"
proof -
  obtain c d' where c: "load_config demo_env demo_faults demo_faults demo_faults demo_disk = (Some c, d')"
    using demo_loads by blast
  have r: "map_of settings_table ''ollama_url'' = Some (''OLLAMA_URL'', Env_or ''http://ollama:11434'')"
    "map_of settings_table ''bazarr_url'' = Some (''BAZARR_URL'', Env_or ''http://bazarr:6767'')"
    "map_of field_coerce ''ollama_url'' = Some As_str" "map_of field_coerce ''bazarr_url'' = Some As_str"
    by code_simp+
  have l: "fst (load_overrides demo_faults demo_disk) =
      [(''ollama_url'', JStr ''http://b''), (''bazarr_url'', JStr ''http://c''), (''vad_enabled'', JInt 0)]"
    by (simp add: load_overrides_def load_overrides_result_def read_result_def demo_faults_def demo_disk_def)
  have v: "le_vars demo_env ''OLLAMA_URL'' = Some ''http://gpu:1''" "le_vars demo_env ''BAZARR_URL'' = Some [CHR '' '']"
    by (simp_all add: demo_env_def)
  have s: "strip ''http://gpu:1'' = ''http://gpu:1''" "strip [CHR '' ''] = []" by code_simp+
  show ?thesis
    using c environment_wins [OF c demo_disk_ok r(1)] environment_wins [OF c demo_disk_ok r(2)]
    by (simp add: r l v s or_empty_def env_or_def)
qed

lemma rebuild_libraries_ok:
  assumes "cf_libraries c = [] \<or> libraries_ok (cf_libraries c)"
  shows "libraries_ok (cf_libraries (fst (rebuild_libraries repr df c d)))"
proof -
  have "libraries_ok [library_zero s]" for s
    using libraries_ok_single [of "library_zero s"] by (simp add: library_zero_def)
  then show ?thesis
    using assms build_libraries_ok by (auto simp: rebuild_libraries_def Let_def split: prod.splits sum.splits)
qed

lemma rebuild_instances_libraries [simp]: "cf_libraries (fst (rebuild_instances repr df c d)) = cf_libraries c"
  by (simp add: rebuild_instances_def Let_def split: prod.splits)

lemma load_config_libraries:
  assumes "load_config E df1 df2 df3 d = (Some c, d')"
  shows "libraries_ok (cf_libraries c)"
  using assms by (auto simp: load_config_def split_beta Let_def rebuild_libraries_ok split: option.splits)

lemma overlay_typed:
  assumes "\<And>f var r. map_of settings_table f = Some (var, r) \<Longrightarrow> \<exists>v. map_of s f = Some v \<and> has_type r v"
    and "map_of settings_table f = Some (var, r)"
  shows "\<exists>v. map_of (fold (overlay repr env) kvs s) f = Some v \<and> has_type r v"
  using assms
proof (induction kvs arbitrary: s f var r)
  case (Cons kv kvs)
  obtain g v where kv: "kv = (g, v)" by fastforce
  have "\<exists>v. map_of (overlay repr env kv s) f = Some v \<and> has_type r v" if f: "map_of settings_table f = Some (var, r)" for f var r
  proof (cases "map_of field_coerce f")
    case (Some co)
    have "case map_of settings_table f of Some (var, r) \<Rightarrow> fits co r | None \<Rightarrow> False"
      using coercers_fit map_of_SomeD [OF Some] by (auto simp: list_all_iff)
    then have "fits co r" using f by simp
    then show ?thesis using Cons.prems(1) [OF f] Some coerce_type by (auto simp: kv map_of_overlay)
  qed (use Cons.prems(1) [OF f] in \<open>auto simp: kv map_of_overlay\<close>)
  then show ?case using Cons.IH [of "overlay repr env kv s", OF _ Cons.prems(2)] by simp
qed simp

text \<open>C11. Whatever the environment and the saved overrides hold, a configuration that loads gives every field a value of
  the field's type: a text, a flag, a number in its range, a language list without duplicates, blanks and \<open>und\<close>, or one of the
  named choices; and it has at least the default library, whose slug is empty, with distinct slugs and arr prefixes.\<close>

theorem settings_stay_typed:
  assumes "load_config E df1 df2 df3 d = (Some c, d')"
  shows "(\<forall>(f, var, r) \<in> set settings_table. \<exists>v. map_of (cf_settings c) f = Some v \<and> has_type r v)
    \<and> libraries_ok (cf_libraries c)"
proof -
  obtain s where s: "read_settings (le_float E) (le_vars E) settings_table = Some s"
    and c: "cf_settings c = fold (overlay (le_repr E) (le_vars E)) (fst (load_overrides df1 d)) s"
    using load_config_settings [OF assms] by blast
  have "\<exists>v. map_of s f = Some v \<and> has_type r v" if "map_of settings_table f = Some (var, r)" for f var r
    using read_settings_fields [OF s that] read_field_type by fastforce
  then have "\<exists>v. map_of (cf_settings c) f = Some v \<and> has_type r v" if "map_of settings_table f = Some (var, r)" for f var r
    unfolding c using that by (rule overlay_typed)
  then show ?thesis
    using load_config_libraries [OF assms] by (auto dest: map_of_is_SomeI [OF settings_table_distinct])
qed

theorem settings_stay_typed_witness:
  "\<exists>c d'. load_config demo_env demo_faults demo_faults demo_faults demo_disk = (Some c, d')
     \<and> (\<exists>v. map_of (cf_settings c) ''vad_enabled'' = Some v \<and> has_type (Unless_off ''1'') v)"
proof -
  obtain c d' where c: "load_config demo_env demo_faults demo_faults demo_faults demo_disk = (Some c, d')"
    using demo_loads by blast
  have "(''vad_enabled'', ''SUBARR_VAD_ENABLED'', Unless_off ''1'') \<in> set settings_table" by code_simp
  then show ?thesis using c settings_stay_typed [OF c] by blast
qed

text \<open>What the store holds, as a map.\<close>

definition kept :: "config_disk \<Rightarrow> string \<Rightarrow> json option" where
  "kept d = (case cd_file d of Overrides kvs \<Rightarrow> map_of kvs | _ \<Rightarrow> Map.empty)"

text \<open>A save that goes through changes exactly its key: every other saved override stays, and the next read that succeeds
  returns the new contents; it goes through unless the file is there and cannot be read, and then nothing changes. A
  corrupt file is counted as moved aside whenever the rename works.\<close>

theorem save_keeps_the_rest:
  "case save_override df k v d of (ok, d') \<Rightarrow>
     ok = (cd_file d = No_file \<or> \<not> df_read df)
     \<and> (if ok then kept d' = (kept d)(k \<mapsto> v)
           \<and> (\<exists>kvs. load_overrides_result \<lparr>df_read = False, df_rename = r\<rparr> d' = ((kvs, True), d') \<and> map_of kvs = (kept d)(k \<mapsto> v))
           \<and> cd_preserved d' = cd_preserved d + (if cd_file d = Bad_json \<and> \<not> df_rename df then 1 else 0)
        else d' = d)"
  by (cases "cd_file d")
     (auto simp: save_override_def read_result_def load_overrides_result_def preserve_corrupt_def update_conv' kept_def
        split: prod.splits if_splits)

section \<open>Where a save loses what was kept\<close>

text \<open>The store promises never to overwrite a file it could not read. A corrupt file that cannot be moved aside is
  overwritten all the same, and so is a file that holds JSON other than an object.\<close>

lemma unpreserved_file_is_overwritten:
  "save_override \<lparr>df_read = False, df_rename = True\<rparr> k v \<lparr>cd_file = Bad_json, cd_preserved = n\<rparr>
     = (True, \<lparr>cd_file = Overrides [(k, v)], cd_preserved = n\<rparr>)"
  "save_override demo_faults k v \<lparr>cd_file = Other_json, cd_preserved = n\<rparr> = (True, \<lparr>cd_file = Overrides [(k, v)], cd_preserved = n\<rparr>)"
  by (simp_all add: save_override_def read_result_def preserve_corrupt_def demo_faults_def)

text \<open>A rebuild that meets a corrupt file keeps the libraries; but when a save has met the file first, which is what
  happens when a root is edited, the rebuild that follows reads a good file without libraries and drops them.\<close>

lemma edit_after_corruption_drops_libraries:
  assumes "cf_libraries c \<noteq> []" and "k \<noteq> ''libraries''"
  shows "fst (rebuild_libraries repr demo_faults c \<lparr>cd_file = Bad_json, cd_preserved = n\<rparr>) = c"
    and "cf_libraries (fst (rebuild_libraries repr demo_faults c
           (snd (save_override demo_faults k v \<lparr>cd_file = Bad_json, cd_preserved = n\<rparr>)))) = [library_zero (cf_settings c)]"
  using assms
  by (simp_all add: rebuild_libraries_def load_overrides_result_def read_result_def preserve_corrupt_def demo_faults_def
      save_override_def library_extras_def build_libraries_def Let_def library_zero_def split: option.splits)

text \<open>A null override switches a feature on, opt-in ones too: its text is not one of the words for off.\<close>

lemma null_switches_on:
  assumes "repr JNull = ''None''"
  shows "coerce repr As_bool JNull = Flag True"
proof -
  have "word_of ''None'' \<notin> set ([] # off_words)" by code_simp
  then show ?thesis by (simp add: coerce_bool_def assms)
qed

text \<open>The table of the variables lists the re-timing switch among the toggles that are saved, but no coercion is
  registered for it: a saved value has no effect.\<close>

lemma saved_retime_is_ignored:
  "map_of field_env_vars ''retime_enabled'' = Some ''SUBARR_RETIME_ENABLED''" "overlay repr env (''retime_enabled'', v) s = s"
proof -
  have "map_of field_coerce ''retime_enabled'' = None" by code_simp
  then show "overlay repr env (''retime_enabled'', v) s = s" by (simp add: overlay_def)
qed code_simp

text \<open>The Plex URL loses its surrounding blanks when it comes from the environment, and keeps them when it was saved.\<close>

lemma saved_plex_url_keeps_blanks:
  "read_field to_float (Stripped []) (Some ('' http://p '')) = Some (Text ''http://p'')"
  "map_of (overlay repr (\<lambda>_. None) (''plex_url'', JStr '' http://p '') s) ''plex_url'' = Some (Text '' http://p '')"
proof -
  have "strip '' http://p '' = ''http://p''" by code_simp
  then show "read_field to_float (Stripped []) (Some ('' http://p '')) = Some (Text ''http://p'')" by (simp add: bare_def)
  have "map_of field_coerce ''plex_url'' = Some As_str" by code_simp
  then show "map_of (overlay repr (\<lambda>_. None) (''plex_url'', JStr '' http://p '') s) ''plex_url'' = Some (Text '' http://p '')"
    by (simp add: map_of_overlay env_is_set_def split: option.splits)
qed

text \<open>A warning names exactly the bindings that are not configured.\<close>

lemma mem_warnings:
  "(a, s, b) \<in> set (concat (map (\<lambda>l. map (\<lambda>(s, b). (g l, s, b)) (filter P (h l))) ls)) \<longleftrightarrow>
     (\<exists>l \<in> set ls. g l = a \<and> P (s, b) \<and> (s, b) \<in> set (h l))"
  by force

lemma dangling_bindings_are_named:
  "(sl, svc, i) \<in> set (validate_library_bindings libs insts) \<longleftrightarrow>
     (\<exists>l \<in> set libs. lib_slug l = sl \<and> i \<noteq> [] \<and> i \<notin> set (instance_ids svc insts)
        \<and> (svc, i) \<in> set [(''sonarr'', lib_sonarr_id l), (''radarr'', lib_radarr_id l), (''bazarr'', lib_bazarr_id l)])"
  unfolding validate_library_bindings_def mem_warnings prod.case conj_assoc ..

end
