(* ===== verification/CoverageAssembly.thy ===== *)
theory CoverageAssembly
  imports CoveragePasses
begin

text \<open>
  The assembly of coverage rows from the answers of Bazarr, Sonarr and Radarr
  (\<open>src/src/subarr/coverage_engine.py\<close>): one row for each wanted item, and the synthetic rows for
  episodes and movies that Bazarr does not report. The answers are arguments; a field the JSON may
  lack is an option, and a disk that does not change during a build replaces the cached walks.
\<close>

section \<open>Answers of the services\<close>

record arr_series =
  sr_id :: nat
  sr_title :: "string option"
  sr_path :: "string option"
  sr_original :: "string option"
  sr_monitored :: "bool option"
  sr_tags :: "nat list"

record arr_episode =
  ae_id :: nat
  ae_series :: "nat option"
  ae_title :: "string option"
  ae_season :: "nat option"
  ae_number :: "nat option"
  ae_has_file :: bool
  ae_file :: "nat option"

record arr_movie =
  am_id :: nat
  am_title :: "string option"
  am_path :: "string option"
  am_file :: "string option"
  am_original :: "string option"
  am_monitored :: "bool option"
  am_tags :: "nat list"
  am_has_file :: bool

text \<open>A missing subtitle of Bazarr: its \<open>code2\<close> and \<open>name\<close>.\<close>

type_synonym missing_sub = "string option \<times> string option"

record wanted_episode =
  we_series :: "nat option"
  we_episode :: "nat option"
  we_show :: "string option"
  we_title :: "string option"
  we_number :: "string option"
  we_missing :: "missing_sub list"

record wanted_movie =
  wm_radarr :: "nat option"
  wm_title :: "string option"
  wm_movie_title :: "string option"
  wm_missing :: "missing_sub list"

text \<open>One Sonarr or Radarr instance; \<open>ss_files\<close> are the episodes and the episode files it answers for a
  series, \<open>None\<close> when the request fails.\<close>

record sonarr_state =
  ss_series :: "arr_series list"
  ss_tags :: "(nat \<times> string) list"
  ss_missing :: "nat list"
  ss_recent :: "nat \<Rightarrow> pyfloat option"
  ss_airing :: "nat list"
  ss_configured :: bool
  ss_files :: "nat \<Rightarrow> (arr_episode list \<times> (nat \<times> string option) list) option"

record radarr_state =
  rs_movies :: "arr_movie list"
  rs_tags :: "(nat \<times> string) list"
  rs_missing :: "nat list"
  rs_recent :: "nat \<Rightarrow> pyfloat option"
  rs_configured :: bool

section \<open>Subtitle files on disk\<close>

text \<open>\<open>fv_dir\<close> lists a directory, \<open>fv_walk\<close> gives every directory below it by its relative path with
  its file names; \<open>None\<close> is a path that is no directory or an \<open>OSError\<close>.\<close>

record folder_view =
  fv_resolve :: "string list \<Rightarrow> string list"
  fv_dir :: "string list \<Rightarrow> listing"
  fv_walk :: "string list \<Rightarrow> (string \<times> string list) list option"

definition dir_of_canonical :: "library list \<Rightarrow> folder_view \<Rightarrow> (string list \<Rightarrow> 'a option) \<Rightarrow> string \<Rightarrow> 'a option" where
  "dir_of_canonical libs fv look c =
     (if c = [] then None
      else (case canonical_to_fs (fv_resolve fv) libs c of Inl _ \<Rightarrow> None | Inr full \<Rightarrow> look full))"

definition scan_for_srt :: "library list \<Rightarrow> folder_view \<Rightarrow> string \<Rightarrow> bool \<times> string list" where
  "scan_for_srt libs fv c =
     (case dir_of_canonical libs fv (fv_dir fv) c of
        None \<Rightarrow> (False, [])
      | Some es \<Rightarrow>
          (let srts = sort [n. (n, is_file) \<leftarrow> es, is_file \<and> lower (path_suffix n) = ''.srt''] in (srts \<noteq> [], srts)))"

definition scan_for_image_pairs :: "library list \<Rightarrow> folder_view \<Rightarrow> string \<Rightarrow> string list" where
  "scan_for_image_pairs libs fv c = image_sidecar_names (dir_of_canonical libs fv (fv_dir fv) c) []"

definition in_folder :: "string \<Rightarrow> string \<Rightarrow> string" where
  "in_folder d f = (if d = [] then f else d @ ''/'' @ f)"

definition image_pair_name :: "string list \<Rightarrow> string \<Rightarrow> bool" where
  "image_pair_name names f \<longleftrightarrow>
     suffix ''.idx'' (lower f) \<and> take (length f - 4) (lower f) @ ''.sub'' \<in> set (map lower names)"

definition scan_sidecars_recursive :: "library list \<Rightarrow> folder_view \<Rightarrow> string \<Rightarrow> string list \<times> string list" where
  "scan_sidecars_recursive libs fv c =
     (case dir_of_canonical libs fv (fv_walk fv) c of
        None \<Rightarrow> ([], [])
      | Some dirs \<Rightarrow>
          (sort [in_folder d f. (d, names) \<leftarrow> dirs, f \<leftarrow> names, suffix ''.srt'' (lower f)],
           sort [in_folder d f. (d, names) \<leftarrow> dirs, f \<leftarrow> names, \<not> suffix ''.srt'' (lower f), image_pair_name names f]))"

section \<open>Fields shared by all rows\<close>

definition or_default :: "string option \<Rightarrow> string \<Rightarrow> string" where
  "or_default v d = (if truthy_str v then or_empty v else d)"

definition first_truthy :: "string option \<Rightarrow> string option \<Rightarrow> string \<Rightarrow> string" where
  "first_truthy a b d = or_default a (or_default b d)"

definition missing_codes_of :: "missing_sub list \<Rightarrow> string list" where
  "missing_codes_of ms = map (\<lambda>(code, name). first_truthy code name ''?'') ms"

definition tags_for :: "nat list \<Rightarrow> (nat \<times> string) list \<Rightarrow> string list" where
  "tags_for tags tag_map = sort (map (\<lambda>t. case map_of tag_map t of Some l \<Rightarrow> l | None \<Rightarrow> dec t) tags)"

text \<open>\<open>CoverageItem(media_type, title)\<close> with the defaults of the other fields.\<close>

definition new_item :: "media_type \<Rightarrow> string \<Rightarrow> coverage_item" where
  "new_item media title =
     \<lparr>it_media = media, it_title = title, it_episode_title = None, it_episode_number = None, it_original = None,
      it_monitored = None, it_tags = [], it_path = None, it_sub_on_disk = False, it_sub_files = [], it_image_subs = [],
      it_sonarr = None, it_radarr = None, it_episode = None, it_missing = [], it_embedded = None, it_audio_langs = [],
      it_audio_tracks = [], it_lang_codes = None, it_rescan = False, it_file = None, it_pending = False,
      it_now_playing = False, it_just_imported = False, it_import_ts = None, it_mixed = False, it_mixed_langs = [],
      it_airing_soon = False, it_suspect = False, it_unknown = False, it_notes = [], it_blind = False,
      it_audio_verified = False, it_origin = None, it_mismatch = False, it_score = 0, it_reasons = [],
      it_state = Unprobed, it_forced_skip = False, it_image_skip = False, it_cannot_produce = False,
      it_track_flag = False, it_track_mismatch = None\<rparr>"

text \<open>A truthy id that is in a set of ids.\<close>

definition known_id :: "nat option \<Rightarrow> nat list \<Rightarrow> bool" where
  "known_id i ids \<longleftrightarrow> i \<noteq> Some 0 \<and> i \<in> Some ` set ids"

record build_env =
  be_libs :: "library list"
  be_disk :: folder_view
  be_hints :: hints
  be_probes :: probe_index
  be_failed :: failed_index
  be_score :: score_context

definition sonarr_score :: "build_env \<Rightarrow> sonarr_state \<Rightarrow> score_context" where
  "sonarr_score env ss =
     (be_score env)\<lparr>sc_imported_eps := ss_recent ss, sc_imported_movies := (\<lambda>_. None), sc_airing_soon := ss_airing ss\<rparr>"

definition radarr_score :: "build_env \<Rightarrow> radarr_state \<Rightarrow> score_context" where
  "radarr_score env rs =
     (be_score env)\<lparr>sc_imported_eps := (\<lambda>_. None), sc_imported_movies := rs_recent rs, sc_airing_soon := []\<rparr>"

section \<open>Episode files\<close>

text \<open>The prefetched maps as dictionaries in insertion order.\<close>

type_synonym fetched = "(nat \<times> arr_episode) list \<times> (nat \<times> string) list"

definition add_series_files :: "sonarr_state \<Rightarrow> nat \<Rightarrow> fetched \<Rightarrow> fetched" where
  "add_series_files ss sid m =
     (case ss_files ss sid of
        None \<Rightarrow> m
      | Some (eps, files) \<Rightarrow>
          (fold (\<lambda>e. AList.update (ae_id e) e) eps (fst m),
           fold (\<lambda>(i, p) fs. if truthy_str p then AList.update i (or_empty p) fs else fs) files (snd m)))"

definition resolve_sonarr_files :: "sonarr_state \<Rightarrow> nat list \<Rightarrow> fetched" where
  "resolve_sonarr_files ss ids =
     (if ids = [] \<or> \<not> ss_configured ss then ([], []) else fold (add_series_files ss) ids ([], []))"

definition maps_of :: "fetched \<Rightarrow> sonarr_maps" where
  "maps_of m = \<lparr>sm_episode_file = (\<lambda>e. case map_of (fst m) e of None \<Rightarrow> None | Some ep \<Rightarrow> ae_file ep),
     sm_file_path = map_of (snd m)\<rparr>"

section \<open>Rows of wanted items\<close>

definition series_by_id :: "arr_series list \<Rightarrow> nat option \<Rightarrow> arr_series option" where
  "series_by_id ss i = (case i of None \<Rightarrow> None | Some n \<Rightarrow> List.find (\<lambda>s. sr_id s = n) (rev ss))"

definition bare_episode_row :: "build_env \<Rightarrow> sonarr_state \<Rightarrow> sonarr_maps \<Rightarrow> wanted_episode \<Rightarrow> coverage_item" where
  "bare_episode_row env ss sm w =
     (let s = series_by_id (ss_series ss) (we_series w);
          canonical = strip_arr_prefix (be_libs env) (Option.bind s sr_path) None;
          (srts, images) = scan_sidecars_recursive (be_libs env) (be_disk env) (or_empty canonical);
          missing = missing_codes_of (we_missing w);
          (on_disk, seen) = stale_for_episode (be_libs env) sm (we_episode w) srts (we_number w) missing
      in (new_item Episode (first_truthy (we_show w) (Option.bind s sr_title) ''(unknown)''))
           \<lparr>it_episode_title := we_title w, it_episode_number := we_number w,
            it_original := Option.bind s sr_original, it_monitored := Option.bind s sr_monitored,
            it_tags := tags_for (case s of None \<Rightarrow> [] | Some x \<Rightarrow> sr_tags x) (ss_tags ss),
            it_path := canonical, it_sub_on_disk := on_disk, it_sub_files := seen,
            it_image_subs := episode_image_pairs (be_libs env) sm (we_episode w) images (we_number w),
            it_sonarr := we_series w, it_episode := we_episode w, it_missing := missing,
            it_pending := known_id (we_episode w) (ss_missing ss),
            it_file := episode_file_canonical (be_libs env) sm (we_episode w)\<rparr>)"

definition episode_row :: "build_env \<Rightarrow> sonarr_state \<Rightarrow> sonarr_maps \<Rightarrow> wanted_episode \<Rightarrow> coverage_item" where
  "episode_row env ss sm w =
     score_item (sonarr_score env ss)
       (attach_probe_episode (be_hints env) (be_probes env) (be_failed env) (bare_episode_row env ss sm w))"

definition movie_by_id :: "arr_movie list \<Rightarrow> nat option \<Rightarrow> arr_movie option" where
  "movie_by_id ms i = (case i of None \<Rightarrow> None | Some n \<Rightarrow> List.find (\<lambda>m. am_id m = n) (rev ms))"

definition bare_movie_row :: "build_env \<Rightarrow> radarr_state \<Rightarrow> wanted_movie \<Rightarrow> coverage_item" where
  "bare_movie_row env rs w =
     (let m = movie_by_id (rs_movies rs) (wm_radarr w);
          canonical = strip_arr_prefix (be_libs env) (Option.bind m am_path) None;
          (on_disk, seen) = scan_for_srt (be_libs env) (be_disk env) (or_empty canonical)
      in (new_item Movie (first_truthy (wm_title w) (wm_movie_title w) []))
           \<lparr>it_original := Option.bind m am_original, it_monitored := Option.bind m am_monitored,
            it_tags := tags_for (case m of None \<Rightarrow> [] | Some x \<Rightarrow> am_tags x) (rs_tags rs),
            it_path := canonical, it_file := strip_arr_prefix (be_libs env) (Option.bind m am_file) None,
            it_sub_on_disk := on_disk, it_sub_files := seen,
            it_image_subs := scan_for_image_pairs (be_libs env) (be_disk env) (or_empty canonical),
            it_radarr := map_option am_id m, it_missing := missing_codes_of (wm_missing w),
            it_pending := known_id (map_option am_id m) (rs_missing rs)\<rparr>)"

definition movie_row :: "build_env \<Rightarrow> radarr_state \<Rightarrow> wanted_movie \<Rightarrow> coverage_item" where
  "movie_row env rs w =
     score_item (radarr_score env rs)
       (attach_probe_movie (be_hints env) (be_probes env) (be_failed env) (bare_movie_row env rs w))"

section \<open>Rows Bazarr does not report\<close>

text \<open>\<open>f.rsplit("/", 1)[-1].rsplit(".", 1)[0]\<close>.\<close>

definition file_stem :: "string \<Rightarrow> string" where
  "file_stem f = rsplit_first (CHR ''.'') (base_name f)"

definition foreign_original :: "arr_series \<Rightarrow> bool" where
  "foreign_original s \<longleftrightarrow>
     truthy_str (sr_original s) \<and> lower (strip (or_empty (sr_original s))) \<notin> {''english'', []}"

definition bazarr_number :: "arr_episode \<Rightarrow> string option" where
  "bazarr_number ep =
     (case (ae_season ep, ae_number ep) of
        (Some s, Some n) \<Rightarrow> Some (dec s @ ''x'' @ dec n)
      | _ \<Rightarrow> None)"

text \<open>The canonical path of an episode that has a file with a known path.\<close>

definition blind_file :: "build_env \<Rightarrow> sonarr_maps \<Rightarrow> arr_episode \<Rightarrow> string option" where
  "blind_file env sm ep =
     (if \<not> ae_has_file ep then None
      else (case ae_file ep of
          None \<Rightarrow> None
        | Some i \<Rightarrow>
            (let path = (if i = 0 then None else sm_file_path sm i);
                 canonical = strip_arr_prefix (be_libs env) path None
             in if truthy_str path \<and> truthy_str canonical then canonical else None)))"

definition bare_blind_row :: "build_env \<Rightarrow> sonarr_state \<Rightarrow> arr_series \<Rightarrow> nat \<Rightarrow> arr_episode \<Rightarrow> string \<Rightarrow> coverage_item" where
  "bare_blind_row env ss s ep_id ep file =
     (let canonical = strip_arr_prefix (be_libs env) (sr_path s) None;
          images = snd (scan_sidecars_recursive (be_libs env) (be_disk env) (or_empty canonical))
      in (new_item Episode (or_default (sr_title s) ''(unknown)''))
           \<lparr>it_episode_title := ae_title ep, it_episode_number := bazarr_number ep, it_original := sr_original s,
            it_monitored := sr_monitored s, it_tags := tags_for (sr_tags s) (ss_tags ss), it_path := canonical,
            it_file := Some file, it_image_subs := sidecars_for_file images file, it_sonarr := Some (sr_id s),
            it_episode := Some ep_id, it_missing := [''en'']\<rparr>)"

definition confirmed_foreign :: "(string \<Rightarrow> string option) \<Rightarrow> string \<Rightarrow> bool" where
  "confirmed_foreign user file \<longleftrightarrow> truthy_str (user file) \<and> lower (strip (or_empty (user file))) \<notin> {[], ''en'', ''eng''}"

definition english_sidecar_on_disk :: "build_env \<Rightarrow> string option \<Rightarrow> string \<Rightarrow> bool" where
  "english_sidecar_on_disk env canonical file =
     list_ex (\<lambda>p. is_en_sidecar_for p (file_stem file) [''.srt''])
       (fst (scan_sidecars_recursive (be_libs env) (be_disk env) (or_empty canonical)))"

text \<open>The synthetic row of an episode of a foreign series, if it earns one: no English sidecar, and a
  label that is suspect or a confirmed foreign language.\<close>

definition blind_row :: "build_env \<Rightarrow> sonarr_state \<Rightarrow> arr_series \<Rightarrow> nat \<Rightarrow> arr_episode \<Rightarrow> string \<Rightarrow> coverage_item option" where
  "blind_row env ss s ep_id ep file =
     (if english_sidecar_on_disk env (strip_arr_prefix (be_libs env) (sr_path s) None) file then None
      else (let it = attach_probe_episode (be_hints env) (be_probes env) (be_failed env) (bare_blind_row env ss s ep_id ep file) in
        if \<not> it_suspect it \<and> \<not> confirmed_foreign (hi_user (be_hints env)) file then None
        else Some (score_item (sonarr_score env ss)
               (add_notes [Bazarr_blind_to (sr_original s)] (it\<lparr>it_blind := True\<rparr>)))))"

text \<open>The rows so far and the ids and files that already have one.\<close>

type_synonym seen_rows = "coverage_item list \<times> nat list \<times> string list"

definition blind_step :: "build_env \<Rightarrow> sonarr_state \<Rightarrow> sonarr_maps \<Rightarrow> arr_series \<times> nat \<times> arr_episode \<Rightarrow> seen_rows \<Rightarrow> seen_rows" where
  "blind_step env ss sm c acc =
     (case (c, acc) of
        ((s, ep_id, ep), (rows, ids, files)) \<Rightarrow>
          (case blind_file env sm ep of
             None \<Rightarrow> acc
           | Some file \<Rightarrow>
               if ep_id \<in> set ids \<or> file \<in> set files then acc
               else (case blind_row env ss s ep_id ep file of
                   None \<Rightarrow> acc
                 | Some it \<Rightarrow> (rows @ [it], ep_id # ids, file # files))))"

definition truthy_ids :: "nat option list \<Rightarrow> nat list" where
  "truthy_ids is = List.map_filter (\<lambda>i. if i = Some 0 then None else i) is"

definition truthy_strs :: "string option list \<Rightarrow> string list" where
  "truthy_strs ss = List.map_filter (\<lambda>s. if truthy_str s then s else None) ss"

definition add_bazarr_blind_rows ::
    "build_env \<Rightarrow> sonarr_state \<Rightarrow> coverage_item list \<Rightarrow> nat list \<Rightarrow> fetched \<Rightarrow> coverage_item list" where
  "add_bazarr_blind_rows env ss existing already m =
     (let foreign = filter foreign_original (ss_series ss);
          m' = fold (add_series_files ss) (filter (\<lambda>i. i \<noteq> 0 \<and> i \<notin> set already) (map sr_id foreign)) m;
          candidates = [(s, e, ep). s \<leftarrow> foreign, (e, ep) \<leftarrow> fst m', ae_series ep = Some (sr_id s)]
      in fst (fold (blind_step env ss (maps_of m')) candidates
           ([], truthy_ids (map it_episode existing), truthy_strs (map it_file existing))))"

definition bare_blind_movie :: "build_env \<Rightarrow> radarr_state \<Rightarrow> arr_movie \<Rightarrow> coverage_item" where
  "bare_blind_movie env rs m =
     (new_item Movie (or_default (am_title m) ''(unknown)''))
       \<lparr>it_original := am_original m, it_monitored := am_monitored m, it_tags := tags_for (am_tags m) (rs_tags rs),
        it_path := strip_arr_prefix (be_libs env) (am_path m) None,
        it_file := strip_arr_prefix (be_libs env) (am_file m) None,
        it_radarr := Some (am_id m), it_missing := [''en''], it_pending := known_id (Some (am_id m)) (rs_missing rs)\<rparr>"

definition covered_in_english :: "build_env \<Rightarrow> string option \<Rightarrow> string \<Rightarrow> coverage_item \<Rightarrow> bool" where
  "covered_in_english env folder file it \<longleftrightarrow>
     it_state it = Verified \<and>
     (it_embedded it \<noteq> None \<or>
      (truthy_str folder \<and>
       list_ex (\<lambda>p. is_en_sidecar_for p (file_stem file) [''.srt''])
         (snd (scan_for_srt (be_libs env) (be_disk env) (or_empty folder)))))"

definition blind_movie_step :: "build_env \<Rightarrow> radarr_state \<Rightarrow> arr_movie \<Rightarrow> seen_rows \<Rightarrow> seen_rows" where
  "blind_movie_step env rs m acc =
     (case acc of (rows, ids, files) \<Rightarrow>
        (let file = strip_arr_prefix (be_libs env) (am_file m) None in
         if \<not> am_has_file m \<or> (am_id m \<noteq> 0 \<and> am_id m \<in> set ids) \<or> \<not> truthy_str file \<or> or_empty file \<in> set files then acc
         else (let it = attach_probe_movie (be_hints env) (be_probes env) (be_failed env) (bare_blind_movie env rs m) in
           if covered_in_english env (strip_arr_prefix (be_libs env) (am_path m) None) (or_empty file) it then acc
           else (rows @ [score_item (radarr_score env rs) it],
                 (if am_id m \<noteq> 0 then am_id m # ids else ids), or_empty file # files))))"

definition add_radarr_blind_rows :: "build_env \<Rightarrow> radarr_state \<Rightarrow> coverage_item list \<Rightarrow> coverage_item list" where
  "add_radarr_blind_rows env rs existing =
     fst (fold (blind_movie_step env rs) (rs_movies rs)
       ([], truthy_ids (map it_radarr (filter (\<lambda>it. it_media it = Movie) existing)), truthy_strs (map it_file existing)))"

section \<open>All rows\<close>

definition sonarr_rows ::
    "build_env \<Rightarrow> (string \<times> wanted_episode) list \<Rightarrow> (string \<times> string) list \<Rightarrow> string list \<Rightarrow> string \<times> sonarr_state
      \<Rightarrow> coverage_item list \<times> coverage_item list" where
  "sonarr_rows env wanted bindings ids inst =
     (let ss = snd inst;
          mine = map snd (route_wanted wanted bindings ids (fst inst));
          series = remdups (truthy_ids (map we_series mine));
          m = resolve_sonarr_files ss series;
          rows = map (episode_row env ss (maps_of m)) mine
      in (rows, if ss_configured ss then add_bazarr_blind_rows env ss rows series m else []))"

definition radarr_rows ::
    "build_env \<Rightarrow> (string \<times> wanted_movie) list \<Rightarrow> (string \<times> string) list \<Rightarrow> string list \<Rightarrow> string \<times> radarr_state
      \<Rightarrow> coverage_item list \<times> coverage_item list" where
  "radarr_rows env wanted bindings ids inst =
     (let rs = snd inst;
          rows = map (movie_row env rs) (map snd (route_wanted wanted bindings ids (fst inst)))
      in (rows, if rs_configured rs then add_radarr_blind_rows env rs rows else []))"

record wanted_lists =
  wl_episodes :: "(string \<times> wanted_episode) list"
  wl_movies :: "(string \<times> wanted_movie) list"

definition assemble_rows ::
    "build_env \<Rightarrow> wanted_lists \<Rightarrow> (string \<times> sonarr_state) list \<Rightarrow> (string \<times> radarr_state) list \<Rightarrow> coverage_item list" where
  "assemble_rows env wl sonarrs radarrs =
     (let (to_sonarr, to_radarr) = bazarr_routing (be_libs env);
          eps = map (sonarr_rows env (wl_episodes wl) to_sonarr (map fst sonarrs)) sonarrs;
          movies = map (radarr_rows env (wl_movies wl) to_radarr (map fst radarrs)) radarrs
      in concat (map fst eps) @ concat (map fst movies) @ concat (map snd eps) @ concat (map snd movies))"

section \<open>What a row keeps\<close>

text \<open>The fields of a row that neither a probe nor the score touches.\<close>

definition row_core :: "coverage_item \<Rightarrow> coverage_item" where
  "row_core it = (new_item (it_media it) (it_title it))
     \<lparr>it_episode_title := it_episode_title it, it_episode_number := it_episode_number it, it_original := it_original it,
      it_monitored := it_monitored it, it_tags := it_tags it, it_path := it_path it, it_sub_on_disk := it_sub_on_disk it,
      it_sub_files := it_sub_files it, it_image_subs := it_image_subs it, it_sonarr := it_sonarr it, it_radarr := it_radarr it,
      it_episode := it_episode it, it_missing := it_missing it, it_pending := it_pending it, it_blind := it_blind it\<rparr>"

lemma core_update [simp]:
  "row_core (it\<lparr>it_embedded := v0\<rparr>) = row_core it"
  "row_core (it\<lparr>it_audio_langs := v1\<rparr>) = row_core it"
  "row_core (it\<lparr>it_audio_tracks := v2\<rparr>) = row_core it"
  "row_core (it\<lparr>it_lang_codes := v3\<rparr>) = row_core it"
  "row_core (it\<lparr>it_rescan := v4\<rparr>) = row_core it"
  "row_core (it\<lparr>it_file := v5\<rparr>) = row_core it"
  "row_core (it\<lparr>it_now_playing := v6\<rparr>) = row_core it"
  "row_core (it\<lparr>it_just_imported := v7\<rparr>) = row_core it"
  "row_core (it\<lparr>it_import_ts := v8\<rparr>) = row_core it"
  "row_core (it\<lparr>it_mixed := v9\<rparr>) = row_core it"
  "row_core (it\<lparr>it_mixed_langs := v10\<rparr>) = row_core it"
  "row_core (it\<lparr>it_airing_soon := v11\<rparr>) = row_core it"
  "row_core (it\<lparr>it_suspect := v12\<rparr>) = row_core it"
  "row_core (it\<lparr>it_unknown := v13\<rparr>) = row_core it"
  "row_core (it\<lparr>it_notes := v14\<rparr>) = row_core it"
  "row_core (it\<lparr>it_audio_verified := v15\<rparr>) = row_core it"
  "row_core (it\<lparr>it_origin := v16\<rparr>) = row_core it"
  "row_core (it\<lparr>it_mismatch := v17\<rparr>) = row_core it"
  "row_core (it\<lparr>it_score := v18\<rparr>) = row_core it"
  "row_core (it\<lparr>it_reasons := v19\<rparr>) = row_core it"
  "row_core (it\<lparr>it_state := v20\<rparr>) = row_core it"
  "row_core (it\<lparr>it_forced_skip := v21\<rparr>) = row_core it"
  "row_core (it\<lparr>it_image_skip := v22\<rparr>) = row_core it"
  "row_core (it\<lparr>it_cannot_produce := v23\<rparr>) = row_core it"
  "row_core (it\<lparr>it_track_flag := v24\<rparr>) = row_core it"
  "row_core (it\<lparr>it_track_mismatch := v25\<rparr>) = row_core it"
  by (simp_all add: row_core_def)

lemma core_add_notes [simp]: "row_core (add_notes ns it) = row_core it"
  by (simp add: add_notes_def)

lemma core_set_audio [simp]: "row_core (set_audio ls origin it) = row_core it"
  by (simp add: set_audio_def)

lemma core_labels [simp]:
  "row_core (label_from_user c it) = row_core it" "row_core (label_from_whisper c it) = row_core it"
  "row_core (label_from_tags it) = row_core it"
  unfolding label_from_user_def label_from_whisper_def label_from_tags_def Let_def if_distrib [of row_core]
  by (simp_all only: core_add_notes core_update core_set_audio if_distrib [of row_core] if_cancel)

lemma core_classify [simp]: "row_core (classify_audio_label t u p w it) = row_core it"
  by (simp add: classify_audio_label_def split: option.split)

lemma core_track [simp]: "row_core (apply_track_mismatch pr it) = row_core it"
  by (simp add: apply_track_mismatch_def split: option.split)

lemma core_probe [simp]: "row_core (apply_probe h f pr it) = row_core it"
  by (simp add: apply_probe_def Let_def split: prod.split)

lemma core_attach_episode [simp]: "row_core (attach_probe_episode h idx failed it) = row_core it"
  unfolding attach_probe_episode_def Let_def by (auto split: option.split prod.split)

lemma core_attach_movie [simp]: "row_core (attach_probe_movie h idx failed it) = row_core it"
  by (auto simp: attach_probe_movie_def Let_def split: list.split)

lemma core_score [simp]: "row_core (score_item sc it) = row_core it"
  unfolding score_item_def by (simp only: core_update)

lemma core_blind_eq: "row_core a = row_core b \<Longrightarrow> it_blind a = it_blind b"
  and core_media_eq: "row_core a = row_core b \<Longrightarrow> it_media a = it_media b"
  and core_ids_eq: "row_core a = row_core b \<Longrightarrow> it_sonarr a = it_sonarr b \<and> it_episode a = it_episode b \<and> it_radarr a = it_radarr b"
  and core_wanted_eq: "row_core a = row_core b \<Longrightarrow> it_episode_number a = it_episode_number b \<and> it_missing a = it_missing b \<and> it_title a = it_title b"
  by (simp_all add: row_core_def new_item_def)

section \<open>Every wanted item has its row\<close>

definition gap_key :: "coverage_item \<Rightarrow> nat option \<times> nat option \<times> string option \<times> string list" where
  "gap_key it = (it_sonarr it, it_episode it, it_episode_number it, it_missing it)"

definition wanted_key :: "wanted_episode \<Rightarrow> nat option \<times> nat option \<times> string option \<times> string list" where
  "wanted_key w = (we_series w, we_episode w, we_number w, missing_codes_of (we_missing w))"

lemma core_key_eq: "row_core a = row_core b \<Longrightarrow> gap_key a = gap_key b"
  using core_ids_eq [of a b] core_wanted_eq [of a b] by (simp add: gap_key_def)

definition is_wanted_episode :: "coverage_item \<Rightarrow> bool" where
  "is_wanted_episode it \<longleftrightarrow> it_media it = Episode \<and> \<not> it_blind it"

lemma core_wanted_episode: "row_core a = row_core b \<Longrightarrow> is_wanted_episode a = is_wanted_episode b"
  using core_blind_eq [of a b] core_media_eq [of a b] by (simp add: is_wanted_episode_def)

lemma core_episode_row: "row_core (episode_row env ss sm w) = row_core (bare_episode_row env ss sm w)"
  by (simp add: episode_row_def)

lemma core_movie_row: "row_core (movie_row env rs w) = row_core (bare_movie_row env rs w)"
  by (simp add: movie_row_def)

lemma new_item_fields [simp]:
  "it_media (new_item k t) = k" "it_title (new_item k t) = t" "it_blind (new_item k t) = False" "it_file (new_item k t) = None"
  "it_state (new_item k t) = Unprobed" "it_score (new_item k t) = 0"
  by (simp_all add: new_item_def)

lemma bare_episode_row_fields:
  "it_media (bare_episode_row env ss sm w) = Episode" "\<not> it_blind (bare_episode_row env ss sm w)"
  "gap_key (bare_episode_row env ss sm w) = wanted_key w"
  by (simp_all add: bare_episode_row_def Let_def gap_key_def wanted_key_def case_prod_beta)

lemma episode_row_fields:
  "is_wanted_episode (episode_row env ss sm w)" "gap_key (episode_row env ss sm w) = wanted_key w"
  using core_wanted_episode [OF core_episode_row] core_key_eq [OF core_episode_row]
  by (simp_all add: is_wanted_episode_def bare_episode_row_fields)

lemma movie_row_media: "it_media (movie_row env rs w) = Movie"
  by (simp add: core_media_eq [OF core_movie_row] bare_movie_row_def Let_def case_prod_beta)

lemma blind_row_marked: "blind_row env ss s i ep f = Some it \<Longrightarrow> it_blind it"
proof -
  assume b: "blind_row env ss s i ep f = Some it"
  define a where "a = attach_probe_episode (be_hints env) (be_probes env) (be_failed env) (bare_blind_row env ss s i ep f)"
  from b have "it = score_item (sonarr_score env ss) (add_notes [Bazarr_blind_to (sr_original s)] (a\<lparr>it_blind := True\<rparr>))"
    by (simp add: blind_row_def Let_def a_def split: if_splits)
  then have "row_core it = row_core (a\<lparr>it_blind := True\<rparr>)" by simp
  from core_blind_eq [OF this] show "it_blind it" by simp
qed

lemma blind_movie_media: "it_media (bare_blind_movie env rs m) = Movie"
  by (simp add: bare_blind_movie_def)

section \<open>The synthetic passes\<close>

text \<open>What the two synthetic passes share: a step looks at one candidate and either leaves everything as
  it is or appends one good row, whose file and whose non-zero id have no row yet, and records both.\<close>

definition fresh_row :: "(coverage_item \<Rightarrow> nat option) \<Rightarrow> coverage_item \<Rightarrow> nat list \<Rightarrow> string list \<Rightarrow> bool" where
  "fresh_row key it ids files \<longleftrightarrow> it_file it \<notin> Some ` set files \<and> it_file it \<noteq> None \<and> \<not> known_id (key it) ids"

locale dedup_pass =
  fixes step :: "'c \<Rightarrow> seen_rows \<Rightarrow> seen_rows"
    and key :: "coverage_item \<Rightarrow> nat option"
    and ok :: "'c \<Rightarrow> bool"
    and good :: "coverage_item \<Rightarrow> bool"
  assumes step_adds: "ok c \<Longrightarrow> step c (rows, ids, files) = (rows, ids, files) \<or>
    (\<exists>it ids'. step c (rows, ids, files) = (rows @ [it], ids', the (it_file it) # files)
       \<and> fresh_row key it ids files \<and> good it \<and> set ids \<subseteq> set ids' \<and> (\<forall>i. key it = Some i \<longrightarrow> i \<noteq> 0 \<longrightarrow> i \<in> set ids'))"
begin

definition clean :: "nat list \<Rightarrow> string list \<Rightarrow> seen_rows \<Rightarrow> bool" where
  "clean ids0 files0 acc \<longleftrightarrow>
     (case acc of (rows, ids, files) \<Rightarrow>
        (\<forall>it \<in> set rows. good it \<and> fresh_row key it ids0 files0) \<and> distinct (map it_file rows)
        \<and> distinct (truthy_ids (map key rows))
        \<and> set files0 \<subseteq> set files \<and> (\<forall>it \<in> set rows. it_file it \<in> Some ` set files)
        \<and> set ids0 \<subseteq> set ids \<and> set (truthy_ids (map key rows)) \<subseteq> set ids)"

lemma truthy_ids_snoc: "truthy_ids (xs @ [x]) = truthy_ids xs @ (case x of None \<Rightarrow> [] | Some i \<Rightarrow> if i = 0 then [] else [i])"
  by (induction xs) (auto simp: truthy_ids_def List.map_filter_simps split: option.split)

lemma step_clean:
  assumes c: "clean ids0 files0 acc" and ok: "ok c"
  shows "clean ids0 files0 (step c acc)"
proof -
  obtain rows ids files where acc: "acc = (rows, ids, files)" by (cases acc)
  show ?thesis
  proof (cases "step c (rows, ids, files) = (rows, ids, files)")
    case True
    with c acc show ?thesis by simp
  next
    case False
    then obtain it ids' where s: "step c (rows, ids, files) = (rows @ [it], ids', the (it_file it) # files)"
      and f: "fresh_row key it ids files" and g: "good it" "set ids \<subseteq> set ids'" "\<forall>i. key it = Some i \<longrightarrow> i \<noteq> 0 \<longrightarrow> i \<in> set ids'"
      using step_adds [OF ok, of rows ids files] by blast
    from f obtain p where p: "it_file it = Some p" "p \<notin> set files" by (auto simp: fresh_row_def)
    have sub: "set ids0 \<subseteq> set ids" "set files0 \<subseteq> set files" using c by (simp_all add: acc clean_def)
    have "fresh_row key it ids0 files0" using f sub by (auto simp: fresh_row_def known_id_def)
    moreover have "it_file it \<notin> it_file ` set rows"
      using c p by (auto simp: acc clean_def)
    moreover have "distinct (truthy_ids (map key (rows @ [it])))" "set (truthy_ids (map key (rows @ [it]))) \<subseteq> set ids'"
      using c f g by (auto simp: acc clean_def truthy_ids_snoc fresh_row_def known_id_def split: option.split)
    ultimately show ?thesis
      using c g p sub unfolding acc s clean_def by auto
  qed
qed

lemma pass_clean:
  assumes "list_all ok cs"
  shows "clean ids0 files0 (fold step cs ([], ids0, files0))"
proof -
  have "clean ids0 files0 (fold step cs acc)" if "clean ids0 files0 acc" for acc
    using that assms by (induction cs arbitrary: acc) (simp_all add: step_clean)
  then show ?thesis by (simp add: clean_def truthy_ids_def List.map_filter_simps)
qed

lemma pass_rows:
  assumes "list_all ok cs" "rows = fst (fold step cs ([], ids0, files0))"
  shows "(\<forall>it \<in> set rows. good it \<and> fresh_row key it ids0 files0) \<and> distinct (map it_file rows) \<and> distinct (truthy_ids (map key rows))"
  using pass_clean [of cs ids0 files0] assms by (cases "fold step cs ([], ids0, files0)") (simp add: clean_def)

end

lemma set_truthy_ids: "set (truthy_ids is) = {i. Some i \<in> set is \<and> i \<noteq> 0}"
  by (induction "is") (auto simp: truthy_ids_def List.map_filter_simps split: option.split)

lemma set_truthy_strs: "set (truthy_strs ss) = {s. Some s \<in> set ss \<and> s \<noteq> []}"
  by (induction ss) (auto simp: truthy_strs_def List.map_filter_simps truthy_str_def split: option.split)

section \<open>The synthetic rows are new gaps\<close>

lemma file_kept [simp]:
  "it_file (add_notes ns it) = it_file it" "it_file (set_audio ls origin it) = it_file it"
  by (simp_all add: add_notes_def set_audio_def)

lemma file_update:
  "it_file (it\<lparr>it_suspect := a\<rparr>) = it_file it" "it_file (it\<lparr>it_unknown := b\<rparr>) = it_file it"
  "it_file (it\<lparr>it_origin := c\<rparr>) = it_file it" "it_file (it\<lparr>it_audio_verified := d\<rparr>) = it_file it"
  "it_file (it\<lparr>it_mismatch := e\<rparr>) = it_file it" "it_file (it\<lparr>it_state := g\<rparr>) = it_file it"
  "it_file (it\<lparr>it_track_flag := i, it_track_mismatch := j\<rparr>) = it_file it"
  by simp_all

lemma file_labels [simp]:
  "it_file (label_from_user l it) = it_file it" "it_file (label_from_whisper l it) = it_file it"
  "it_file (label_from_tags it) = it_file it"
  unfolding label_from_user_def label_from_whisper_def label_from_tags_def Let_def if_distrib [of it_file]
  by (simp_all only: file_kept file_update if_distrib [of it_file] if_cancel)

lemma file_classify [simp]: "it_file (classify_audio_label t u p w it) = it_file it"
  by (simp add: classify_audio_label_def split: option.split)

lemma file_track [simp]: "it_file (apply_track_mismatch pr it) = it_file it"
  unfolding apply_track_mismatch_def by (simp only: file_kept file_update if_distrib [of it_file] split: option.split) simp

lemma file_probe [simp]: "it_file (apply_probe h f pr it) = Some f"
  by (simp add: apply_probe_def Let_def case_prod_beta)

lemma file_attach_episode:
  assumes "it_file it = Some f" "f \<noteq> []"
  shows "it_file (attach_probe_episode h idx failed it) = Some f"
proof (cases "List.find (\<lambda>(g, _). g = f) (idx (dir_name f))")
  case None
  with assms show ?thesis by (simp add: attach_probe_episode_def truthy_str_def or_empty_def Let_def)
next
  case (Some x)
  then have "fst x = f" by (auto simp: find_Some_iff)
  with Some assms show ?thesis by (simp add: attach_probe_episode_def truthy_str_def or_empty_def Let_def case_prod_beta)
qed

lemma file_attach_movie:
  assumes "it_file it = Some f" "f \<noteq> []"
  shows "it_file (attach_probe_movie h idx failed it) = Some f"
proof (cases "filter (\<lambda>(g, _). Some g = it_file it) (idx (or_empty (it_path it)))")
  case Nil
  with assms show ?thesis by (simp add: attach_probe_movie_def truthy_str_def Let_def)
next
  case (Cons x xs)
  then have "x \<in> set (filter (\<lambda>(g, _). Some g = it_file it) (idx (or_empty (it_path it))))" by simp
  with assms have "fst x = f" by auto
  with Cons assms show ?thesis by (simp add: attach_probe_movie_def truthy_str_def Let_def case_prod_beta)
qed

lemma core_path_eq: "row_core a = row_core b \<Longrightarrow> it_path a = it_path b \<and> it_original a = it_original b"
  by (simp add: row_core_def new_item_def)

definition blind_gap :: "build_env \<Rightarrow> coverage_item \<Rightarrow> bool" where
  "blind_gap env it \<longleftrightarrow>
     it_media it = Episode \<and> it_blind it \<and> truthy_str (it_file it)
     \<and> truthy_str (it_original it) \<and> lower (strip (or_empty (it_original it))) \<notin> {''english'', []}
     \<and> \<not> english_sidecar_on_disk env (it_path it) (or_empty (it_file it))
     \<and> (it_suspect it \<or> confirmed_foreign (hi_user (be_hints env)) (or_empty (it_file it)))"

lemma bare_blind_fields [simp]:
  "it_media (bare_blind_row env ss s i ep f) = Episode" "it_file (bare_blind_row env ss s i ep f) = Some f"
  "it_path (bare_blind_row env ss s i ep f) = strip_arr_prefix (be_libs env) (sr_path s) None"
  "it_original (bare_blind_row env ss s i ep f) = sr_original s" "it_episode (bare_blind_row env ss s i ep f) = Some i"
  by (simp_all add: bare_blind_row_def Let_def)

lemma score_keeps [simp]: "it_file (score_item sc it) = it_file it" "it_suspect (score_item sc it) = it_suspect it"
  "it_state (score_item sc it) = it_state it" "it_embedded (score_item sc it) = it_embedded it"
  by (simp_all add: score_item_def)

lemma blind_row_gap:
  assumes b: "blind_row env ss s i ep f = Some it" and f: "f \<noteq> []" and s: "foreign_original s"
  shows "blind_gap env it \<and> it_file it = Some f \<and> it_episode it = Some i"
proof -
  define a where "a = attach_probe_episode (be_hints env) (be_probes env) (be_failed env) (bare_blind_row env ss s i ep f)"
  from b have it: "it = score_item (sonarr_score env ss) (add_notes [Bazarr_blind_to (sr_original s)] (a\<lparr>it_blind := True\<rparr>))"
    and g: "\<not> english_sidecar_on_disk env (strip_arr_prefix (be_libs env) (sr_path s) None) f"
      "it_suspect a \<or> confirmed_foreign (hi_user (be_hints env)) f"
    by (simp_all add: blind_row_def Let_def a_def split: if_splits)
  have a: "row_core a = row_core (bare_blind_row env ss s i ep f)" and af: "it_file a = Some f"
    using f by (simp_all add: a_def file_attach_episode)
  have "row_core it = row_core (a\<lparr>it_blind := True\<rparr>)" by (simp add: it)
  from core_path_eq [OF this] core_ids_eq [OF this] core_media_eq [OF this] core_path_eq [OF a] core_ids_eq [OF a] core_media_eq [OF a]
  have "it_path it = strip_arr_prefix (be_libs env) (sr_path s) None" "it_original it = sr_original s" "it_episode it = Some i"
    "it_media it = Episode"
    by simp_all
  moreover have "it_file it = Some f" "it_suspect it = it_suspect a" by (simp_all add: it af add_notes_def)
  ultimately show ?thesis
    using g s f blind_row_marked [OF b] by (simp add: blind_gap_def foreign_original_def or_empty_def truthy_str_def)
qed

lemma blind_file_nonempty: "blind_file env sm ep = Some f \<Longrightarrow> f \<noteq> []"
  by (auto simp: blind_file_def Let_def truthy_str_def split: if_splits option.splits)

interpretation blind: dedup_pass "blind_step env ss sm" it_episode "\<lambda>c :: arr_series \<times> nat \<times> arr_episode. foreign_original (fst c)" "blind_gap env"
  for env ss sm
proof
  fix c :: "arr_series \<times> nat \<times> arr_episode" and rows ids files
  assume ok: "foreign_original (fst c)"
  obtain s i ep where c: "c = (s, i, ep)" by (cases c)
  show "blind_step env ss sm c (rows, ids, files) = (rows, ids, files) \<or>
    (\<exists>it ids'. blind_step env ss sm c (rows, ids, files) = (rows @ [it], ids', the (it_file it) # files)
       \<and> fresh_row it_episode it ids files \<and> blind_gap env it \<and> set ids \<subseteq> set ids'
       \<and> (\<forall>j. it_episode it = Some j \<longrightarrow> j \<noteq> 0 \<longrightarrow> j \<in> set ids'))"
  proof (cases "blind_file env sm ep")
    case None
    then show ?thesis by (simp add: c blind_step_def)
  next
    case (Some f)
    note f = blind_file_nonempty [OF Some]
    show ?thesis
    proof (cases "i \<in> set ids \<or> f \<in> set files \<or> blind_row env ss s i ep f = None")
      case True
      then show ?thesis by (auto simp: c Some blind_step_def)
    next
      case False
      then obtain it where it: "blind_row env ss s i ep f = Some it" by auto
      from blind_row_gap [OF it f] ok False show ?thesis
        by (auto simp: c Some blind_step_def it fresh_row_def known_id_def)
    qed
  qed
qed

definition movie_gap :: "build_env \<Rightarrow> coverage_item \<Rightarrow> bool" where
  "movie_gap env it \<longleftrightarrow> it_media it = Movie \<and> truthy_str (it_file it) \<and> \<not> covered_in_english env (it_path it) (or_empty (it_file it)) it"

lemma bare_movie_fields [simp]:
  "it_file (bare_blind_movie env rs m) = strip_arr_prefix (be_libs env) (am_file m) None"
  "it_path (bare_blind_movie env rs m) = strip_arr_prefix (be_libs env) (am_path m) None"
  "it_radarr (bare_blind_movie env rs m) = Some (am_id m)"
  by (simp_all add: bare_blind_movie_def)

interpretation films: dedup_pass "blind_movie_step env rs" it_radarr "\<lambda>_ :: arr_movie. True" "movie_gap env"
  for env rs
proof
  fix m :: arr_movie and rows ids files
  define it where "it = attach_probe_movie (be_hints env) (be_probes env) (be_failed env) (bare_blind_movie env rs m)"
  let ?f = "strip_arr_prefix (be_libs env) (am_file m) None"
  let ?r = "score_item (radarr_score env rs) it"
  show "blind_movie_step env rs m (rows, ids, files) = (rows, ids, files) \<or>
    (\<exists>it ids'. blind_movie_step env rs m (rows, ids, files) = (rows @ [it], ids', the (it_file it) # files)
       \<and> fresh_row it_radarr it ids files \<and> movie_gap env it \<and> set ids \<subseteq> set ids'
       \<and> (\<forall>j. it_radarr it = Some j \<longrightarrow> j \<noteq> 0 \<longrightarrow> j \<in> set ids'))"
  proof (cases "\<not> am_has_file m \<or> (am_id m \<noteq> 0 \<and> am_id m \<in> set ids) \<or> \<not> truthy_str ?f \<or> or_empty ?f \<in> set files
      \<or> covered_in_english env (strip_arr_prefix (be_libs env) (am_path m) None) (or_empty ?f) it")
    case True
    then show ?thesis by (auto simp: blind_movie_step_def Let_def it_def)
  next
    case False
    then obtain f where f: "?f = Some f" "f \<noteq> []" by (cases ?f) (auto simp: truthy_str_def)
    have core: "row_core it = row_core (bare_blind_movie env rs m)" by (simp add: it_def)
    have "it_file ?r = Some f" using f by (simp add: it_def file_attach_movie)
    moreover have core': "row_core ?r = row_core (bare_blind_movie env rs m)" using core by simp
    from core_path_eq [OF core'] core_ids_eq [OF core'] core_media_eq [OF core']
    have "it_path ?r = strip_arr_prefix (be_libs env) (am_path m) None" "it_radarr ?r = Some (am_id m)" "it_media ?r = Movie"
      by (simp_all add: blind_movie_media)
    moreover have "blind_movie_step env rs m (rows, ids, files)
        = (rows @ [?r], (if am_id m \<noteq> 0 then am_id m # ids else ids), f # files)"
      using False f by (simp add: blind_movie_step_def Let_def it_def [symmetric] or_empty_def)
    ultimately show ?thesis
      using False f by (auto simp: fresh_row_def known_id_def movie_gap_def or_empty_def covered_in_english_def truthy_str_def)
  qed
qed

definition shares_file :: "coverage_item list \<Rightarrow> coverage_item list \<Rightarrow> bool" where
  "shares_file xs ys \<longleftrightarrow> list_ex (\<lambda>x. list_ex (\<lambda>y. it_file x = it_file y) ys) xs"

lemma fresh_unshared:
  assumes "\<forall>it \<in> set rows. fresh_row key it ids (truthy_strs (map it_file existing)) \<and> truthy_str (it_file it)"
  shows "\<not> shares_file rows existing"
proof
  assume "shares_file rows existing"
  then obtain x y where x: "x \<in> set rows" "y \<in> set existing" "it_file x = it_file y"
    by (auto simp: shares_file_def list_ex_iff)
  with assms have fresh: "fresh_row key x ids (truthy_strs (map it_file existing))" and t: "truthy_str (it_file x)"
    by blast+
  from t obtain f where f: "it_file x = Some f" "f \<noteq> []" by (auto simp: truthy_str_def)
  with x have "f \<in> set (truthy_strs (map it_file existing))"
    unfolding set_truthy_strs by (metis (mono_tags, lifting) image_eqI list.set_map mem_Collect_eq)
  with fresh f show False by (simp add: fresh_row_def)
qed

lemma fresh_ids:
  assumes "\<forall>it \<in> set rows. fresh_row key it (truthy_ids is) files"
  shows "set (truthy_ids (map key rows)) \<inter> set (truthy_ids is) = {}"
proof -
  have False if "i \<in> set (truthy_ids (map key rows))" and i: "i \<in> set (truthy_ids is)" for i
  proof -
    from that(1) obtain it where it: "it \<in> set rows" "key it = Some i" "i \<noteq> 0" by (auto simp: set_truthy_ids)
    with assms have "\<not> known_id (Some i) (truthy_ids is)" by (metis fresh_row_def)
    with it i show False by (simp add: known_id_def)
  qed
  then show ?thesis by blast
qed

lemma blind_pass_facts:
  "(\<forall>it \<in> set (add_bazarr_blind_rows env ss eps already m). blind_gap env it
      \<and> fresh_row it_episode it (truthy_ids (map it_episode eps)) (truthy_strs (map it_file eps)))
    \<and> distinct (map it_file (add_bazarr_blind_rows env ss eps already m))
    \<and> distinct (truthy_ids (map it_episode (add_bazarr_blind_rows env ss eps already m)))"
proof -
  define foreign where "foreign = filter foreign_original (ss_series ss)"
  define m' where "m' = fold (add_series_files ss) (filter (\<lambda>i. i \<noteq> 0 \<and> i \<notin> set already) (map sr_id foreign)) m"
  define cands where "cands = [(s, e, ep). s \<leftarrow> foreign, (e, ep) \<leftarrow> fst m', ae_series ep = Some (sr_id s)]"
  have "list_all (\<lambda>c. foreign_original (fst c)) cands"
    by (auto simp: cands_def foreign_def list_all_iff)
  then show ?thesis
    by (rule blind.pass_rows) (simp only: add_bazarr_blind_rows_def Let_def cands_def m'_def foreign_def)
qed

lemma film_pass_facts:
  "(\<forall>it \<in> set (add_radarr_blind_rows env rs movies). movie_gap env it
      \<and> fresh_row it_radarr it (truthy_ids (map it_radarr (filter (\<lambda>it. it_media it = Movie) movies))) (truthy_strs (map it_file movies)))
    \<and> distinct (map it_file (add_radarr_blind_rows env rs movies))
    \<and> distinct (truthy_ids (map it_radarr (add_radarr_blind_rows env rs movies)))"
  by (rule films.pass_rows [OF _ add_radarr_blind_rows_def]) (simp add: list_all_iff)

text \<open>The synthetic rows are gaps that have no row yet. Those of a Sonarr instance are episodes of
  series that are not English, have no English sidecar, and carry either a suspect label or a foreign
  language the user confirmed; those of a Radarr instance are movies without verified English
  coverage. No file and no episode or movie id gets two rows, neither among the synthetic rows nor
  together with the rows of the wanted list.\<close>

theorem synthetic_rows_are_new_gaps:
  fixes eps movies :: "coverage_item list"
  shows "list_all (blind_gap env) (add_bazarr_blind_rows env ss eps already m)
    \<and> distinct (map it_file (add_bazarr_blind_rows env ss eps already m))
    \<and> \<not> shares_file (add_bazarr_blind_rows env ss eps already m) eps
    \<and> distinct (truthy_ids (map it_episode (add_bazarr_blind_rows env ss eps already m)))
    \<and> set (truthy_ids (map it_episode (add_bazarr_blind_rows env ss eps already m))) \<inter> set (truthy_ids (map it_episode eps)) = {}
    \<and> list_all (movie_gap env) (add_radarr_blind_rows env rs movies)
    \<and> distinct (map it_file (add_radarr_blind_rows env rs movies))
    \<and> \<not> shares_file (add_radarr_blind_rows env rs movies) movies
    \<and> distinct (truthy_ids (map it_radarr (add_radarr_blind_rows env rs movies)))"
proof -
  let ?e = "add_bazarr_blind_rows env ss eps already m" and ?v = "add_radarr_blind_rows env rs movies"
  note b = blind_pass_facts [of env ss eps already m] and f = film_pass_facts [of env rs movies]
  have "\<not> shares_file ?e eps" "\<not> shares_file ?v movies"
    using b f by (auto intro!: fresh_unshared simp: blind_gap_def movie_gap_def)
  moreover have "set (truthy_ids (map it_episode ?e)) \<inter> set (truthy_ids (map it_episode eps)) = {}"
    using b by (intro fresh_ids) blast
  ultimately show ?thesis using b f by (simp add: list_all_iff)
qed

section \<open>Nothing wanted is lost\<close>

definition movie_key :: "coverage_item \<Rightarrow> string \<times> string list" where
  "movie_key it = (it_title it, it_missing it)"

definition wanted_movie_key :: "wanted_movie \<Rightarrow> string \<times> string list" where
  "wanted_movie_key w = (first_truthy (wm_title w) (wm_movie_title w) [], missing_codes_of (wm_missing w))"

lemma movie_row_key: "movie_key (movie_row env rs w) = wanted_movie_key w"
proof -
  have "it_title (bare_movie_row env rs w) = fst (wanted_movie_key w) \<and> it_missing (bare_movie_row env rs w) = snd (wanted_movie_key w)"
    by (simp add: bare_movie_row_def Let_def wanted_movie_key_def case_prod_beta)
  with core_wanted_eq [OF core_movie_row, of env rs w] show ?thesis by (simp add: movie_key_def)
qed

lemma mset_concat_routed:
  assumes "distinct ids" "[] \<in> set ids"
  shows "mset (concat (map (\<lambda>i. map (f \<circ> snd) (route_wanted wanted bindings ids i)) ids)) = mset (map (f \<circ> snd) wanted)"
proof -
  have "mset (concat (map (\<lambda>i. map g (route_wanted wanted bindings ids i)) js))
      = image_mset g (mset (concat (map (route_wanted wanted bindings ids) js)))" for js and g :: "string \<times> 'b \<Rightarrow> 'a"
    by (induction js) simp_all
  then show ?thesis by (simp add: mset_routed [OF assms])
qed

lemma blind_rows_not_wanted: "filter is_wanted_episode (add_bazarr_blind_rows env ss eps already m) = []"
  using blind_pass_facts [of env ss eps already m] by (auto simp: filter_empty_conv is_wanted_episode_def blind_gap_def)

lemma movies_not_wanted_episodes: "filter is_wanted_episode (add_radarr_blind_rows env rs movies) = []"
  using film_pass_facts [of env rs movies] by (auto simp: filter_empty_conv is_wanted_episode_def movie_gap_def)

lemma sonarr_rows_wanted:
  "filter is_wanted_episode (fst (sonarr_rows env wanted b ids inst)) = fst (sonarr_rows env wanted b ids inst)"
  "filter is_wanted_episode (snd (sonarr_rows env wanted b ids inst)) = []"
  "map gap_key (fst (sonarr_rows env wanted b ids inst)) = map (wanted_key \<circ> snd) (route_wanted wanted b ids (fst inst))"
  by (simp_all add: sonarr_rows_def Let_def episode_row_fields blind_rows_not_wanted o_def filter_id_conv)

lemma radarr_rows_wanted:
  "filter is_wanted_episode (fst (radarr_rows env wanted b ids inst)) = []"
  "filter is_wanted_episode (snd (radarr_rows env wanted b ids inst)) = []"
  "map movie_key (fst (radarr_rows env wanted b ids inst)) = map (wanted_movie_key \<circ> snd) (route_wanted wanted b ids (fst inst))"
  "filter (\<lambda>it. it_media it = Movie) (fst (radarr_rows env wanted b ids inst)) = fst (radarr_rows env wanted b ids inst)"
  using movies_not_wanted_episodes
  by (simp_all add: radarr_rows_def Let_def movie_row_key movie_row_media o_def is_wanted_episode_def [of "movie_row _ _ _"]
      filter_id_conv)


definition quiet_env :: build_env where
  "quiet_env = \<lparr>be_libs = [default_library],
     be_disk = \<lparr>fv_resolve = (\<lambda>p. p), fv_dir = (\<lambda>_. None), fv_walk = (\<lambda>_. Some [([], [''Dark.S01E02.de.srt''])])\<rparr>,
     be_hints = \<lparr>hi_tautulli = no_hint, hi_user = no_hint, hi_plex = no_hint, hi_whisper = no_hint\<rparr>,
     be_probes = (\<lambda>_. []), be_failed = (\<lambda>_. []), be_score = gate_context\<rparr>"

definition dark_sonarr :: sonarr_state where
  "dark_sonarr = \<lparr>ss_series = [\<lparr>sr_id = 7, sr_title = Some ''Dark'', sr_path = Some ''/tv/Dark'', sr_original = Some ''German'',
       sr_monitored = Some True, sr_tags = []\<rparr>],
     ss_tags = [], ss_missing = [], ss_recent = (\<lambda>_. None), ss_airing = [], ss_configured = True, ss_files = (\<lambda>_. None)\<rparr>"

definition idle_radarr :: radarr_state where
  "idle_radarr = \<lparr>rs_movies = [], rs_tags = [], rs_missing = [], rs_recent = (\<lambda>_. None), rs_configured = False\<rparr>"

definition dark_wanted :: wanted_lists where
  "dark_wanted = \<lparr>wl_episodes = [([], \<lparr>we_series = Some 7, we_episode = Some 5, we_show = None, we_title = None,
       we_number = Some ''1x2'', we_missing = [(Some ''en'', None)]\<rparr>)],
     wl_movies = [(''gone'', \<lparr>wm_radarr = Some 3, wm_title = Some ''M'', wm_movie_title = None, wm_missing = [(None, Some ''English'')]\<rparr>)]\<rparr>"


end
