(* ===== verification/CoverageBuild.thy ===== *)
theory CoverageBuild
  imports CoverageAssembly
begin

text \<open>
  A whole coverage build (\<open>build_coverage\<close> of \<open>src/src/subarr/coverage_engine.py\<close>): the indexes over the
  probe cache, the split of the verified languages between the user and the machine layer, what
  Tautulli says is playing, the assembly of the rows, the passes over all of them and the ranking.
\<close>

section \<open>Probe indexes\<close>

text \<open>The ancestor folders of a path below its top level: \<open>"/".join(parts[:i])\<close> for \<open>i\<close> from two.\<close>

definition ancestor_dirs :: "string \<Rightarrow> string list" where
  "ancestor_dirs p = (let parts = split_on (CHR ''/'') p in map (\<lambda>i. join_with ''/'' (take i parts)) [2..<length parts])"

definition probe_index_of :: "(string \<times> probe_result) list \<Rightarrow> probe_index" where
  "probe_index_of entries d = filter (\<lambda>(p, _). d \<in> set (ancestor_dirs p)) entries"

definition failed_index_of :: "string list \<Rightarrow> failed_index" where
  "failed_index_of failed d = filter (\<lambda>p. d \<in> set (ancestor_dirs p)) failed"

section \<open>Two layers of verified languages\<close>

definition machine_source :: "string option \<Rightarrow> bool" where
  "machine_source src \<longleftrightarrow> (let s = lower (or_empty src) in contains ''whisper'' s \<or> contains ''auto'' s)"

text \<open>The machine's verdicts are taken out of the user's lookup, whose series rules stay.\<close>

definition split_verifications ::
    "verdict_store option \<Rightarrow> (string \<Rightarrow> string option) \<times> (string \<Rightarrow> string option)" where
  "split_verifications store =
     (case store of
        None \<Rightarrow> (\<lambda>_. None, \<lambda>_. None)
      | Some st \<Rightarrow>
          (let sources = verification_sources (Some st);
               machine = (\<lambda>(p, _). machine_source (sources p))
           in (series_lookup (filter (\<lambda>e. \<not> machine e) (get_all_as_lookup st))
                 (map (\<lambda>i. (in_prefix i, in_lang i)) (list_series_intents st)),
               map_of (rev (filter machine (get_all_as_lookup st))))))"

section \<open>What is playing\<close>

record session =
  se_show :: "string option"
  se_full :: "string option"
  se_decision :: "string option"
  se_stream_lang :: "string option"
  se_lang :: "string option"

record activity =
  ac_playing :: "string list"
  ac_transcoding :: "string list"
  ac_hints :: "(string \<times> string) list"

definition no_activity :: activity where
  "no_activity = \<lparr>ac_playing = [], ac_transcoding = [], ac_hints = []\<rparr>"

definition session_step :: "session \<Rightarrow> activity \<Rightarrow> activity" where
  "session_step s ac =
     (let title = lower (strip (first_truthy (se_show s) (se_full s) []));
          lang = lower (strip (first_truthy (se_stream_lang s) (se_lang s) []))
      in if title = [] then ac
         else ac\<lparr>ac_playing := List.insert title (ac_playing ac),
                 ac_transcoding := (if lower (or_empty (se_decision s)) = ''transcode''
                    then List.insert title (ac_transcoding ac) else ac_transcoding ac),
                 ac_hints := (if lang \<noteq> [] \<and> lang \<noteq> ''und'' then AList.update title lang (ac_hints ac) else ac_hints ac)\<rparr>)"

text \<open>\<open>None\<close> is a Tautulli that is not configured or does not answer.\<close>

definition tautulli_activity :: "session list option \<Rightarrow> activity" where
  "tautulli_activity sessions = (case sessions of None \<Rightarrow> no_activity | Some ss \<Rightarrow> fold session_step ss no_activity)"

section \<open>The passes over all rows\<close>

definition store_lookup :: "verdict_store option \<Rightarrow> (verdict_store \<Rightarrow> (string \<times> 'a) list) \<Rightarrow> string \<Rightarrow> 'a option" where
  "store_lookup store f = (case store of None \<Rightarrow> (\<lambda>_. None) | Some st \<Rightarrow> map_of (rev (f st)))"

definition marked_paths :: "verdict_store option \<Rightarrow> (verdict_store \<Rightarrow> mark_table) \<Rightarrow> string list" where
  "marked_paths store f = (case store of None \<Rightarrow> [] | Some st \<Rightarrow> map fst (f st))"

definition clear_dismissed :: "string list \<Rightarrow> coverage_item \<Rightarrow> coverage_item" where
  "clear_dismissed dismissed it =
     (if it_track_flag it \<and> it_file it \<in> Some ` set dismissed then it\<lparr>it_track_flag := False\<rparr> else it)"

definition finish_labels :: "verdict_store option \<Rightarrow> coverage_item list \<Rightarrow> coverage_item list" where
  "finish_labels store items =
     (let disqualified = disqualify_unsupported items;
          refined = refine_audio_sources (verification_sources store) disqualified;
          multi = apply_multilingual_verifications (store_lookup store get_all_multi_as_lookup) refined;
          annotated = annotate_carried_verdicts (store_lookup store get_carried_lookup) multi;
          flagged = fst (flag_mixed_language_series (marked_paths store vs_mixed_dismissed) annotated)
      in map (clear_dismissed (marked_paths store vs_track_dismissed)) flagged)"

definition finish_rows :: "verdict_store option \<Rightarrow> coverage_item list \<Rightarrow> coverage_item list" where
  "finish_rows store items =
     sort_key (\<lambda>it. - it_score it) (fst (drop_ignored_titles (marked_paths store vs_ignored) (finish_labels store items)))"

section \<open>The build\<close>

record build_inputs =
  bi_libs :: "library list"
  bi_disk :: folder_view
  bi_fs :: fs_env
  bi_now :: pyfloat
  bi_caps :: "subgen_caps option"
  bi_per_file :: bool
  bi_wanted_langs :: "string option list option"
  bi_probes :: "(string \<times> probe_result) list"
  bi_failed :: "string list"
  bi_history :: "play_row list"
  bi_sessions :: "session list option"
  bi_plex :: "string \<Rightarrow> string option"
  bi_wanted :: wanted_lists
  bi_sonarrs :: "(string \<times> sonarr_state) list"
  bi_radarrs :: "(string \<times> radarr_state) list"

text \<open>The override the feeder would send for each probed file with audio tracks; a look into the store may
  carry a verdict over, so the store is threaded through.\<close>

definition forced_step ::
    "fs_env \<Rightarrow> pyfloat \<Rightarrow> string list option \<Rightarrow> string \<Rightarrow> (string \<times> string option) list \<times> verdict_store
      \<Rightarrow> (string \<times> string option) list \<times> verdict_store" where
  "forced_step env now skips p acc =
     (case resolve_audio_language_override env now skips p (snd acc) of
        (v, st') \<Rightarrow> (AList.update p v (fst acc), st'))"

definition per_file_forced_map ::
    "fs_env \<Rightarrow> pyfloat \<Rightarrow> subgen_caps option \<Rightarrow> string list \<Rightarrow> verdict_store option
      \<Rightarrow> (string \<Rightarrow> string option) \<times> verdict_store option" where
  "per_file_forced_map env now caps paths store =
     (case store of
        None \<Rightarrow> (\<lambda>_. None, None)
      | Some st \<Rightarrow>
          (case fold (forced_step env now (Option.bind caps skip_audio_languages)) paths ([], st) of
             (resolved, st') \<Rightarrow> (\<lambda>p. case map_of resolved p of None \<Rightarrow> None | Some v \<Rightarrow> v, Some st')))"

definition score_base :: "build_inputs \<Rightarrow> (string \<Rightarrow> string option) \<Rightarrow> score_context" where
  "score_base bi forced =
     (let ac = tautulli_activity (bi_sessions bi) in
      \<lparr>sc_now = bi_now bi, sc_signals = tautulli_signals (bi_now bi) (bi_history bi), sc_now_playing = ac_playing ac,
       sc_imported_eps = (\<lambda>_. None), sc_imported_movies = (\<lambda>_. None), sc_airing_soon = [],
       sc_transcoding = ac_transcoding ac,
       sc_ignore_forced = (case bi_caps bi of None \<Rightarrow> False | Some c \<Rightarrow> ignore_forced_subtitles c),
       sc_ignore_image = (case bi_caps bi of None \<Rightarrow> False | Some c \<Rightarrow> ignore_image_subtitles c),
       sc_output_task = Option.bind (bi_caps bi) transcribe_or_translate,
       sc_per_file = active_config (bi_per_file bi) (bi_wanted_langs bi) (bi_caps bi),
       sc_forced = forced\<rparr>)"

definition build_env_of :: "build_inputs \<Rightarrow> (string \<Rightarrow> string option) \<Rightarrow> verdict_store option \<Rightarrow> build_env" where
  "build_env_of bi forced store =
     (let (user, whisper) = split_verifications store in
      \<lparr>be_libs = bi_libs bi, be_disk = bi_disk bi,
       be_hints = \<lparr>hi_tautulli = map_of (ac_hints (tautulli_activity (bi_sessions bi))), hi_user = user,
                   hi_plex = bi_plex bi, hi_whisper = whisper\<rparr>,
       be_probes = probe_index_of (bi_probes bi), be_failed = failed_index_of (bi_failed bi),
       be_score = score_base bi forced\<rparr>)"

definition build_rows :: "build_inputs \<Rightarrow> verdict_store option \<Rightarrow> coverage_item list \<times> verdict_store option" where
  "build_rows bi store =
     (let (forced, store') =
            (if active_config (bi_per_file bi) (bi_wanted_langs bi) (bi_caps bi) = None then (\<lambda>_. None, store)
             else per_file_forced_map (bi_fs bi) (bi_now bi) (bi_caps bi)
                    (map fst (filter (\<lambda>(_, pr). pr_audio pr \<noteq> []) (bi_probes bi))) store)
      in (assemble_rows (build_env_of bi forced store') (bi_wanted bi) (bi_sonarrs bi) (bi_radarrs bi), store'))"

definition build_coverage :: "build_inputs \<Rightarrow> verdict_store option \<Rightarrow> coverage_item list \<times> verdict_store option" where
  "build_coverage bi store = (let (rows, store') = build_rows bi store in (finish_rows store' rows, store'))"

section \<open>What a pass over the rows keeps\<close>

text \<open>What a row is, as far as queueing and ranking are concerned: its core, its file and its score. Every
  pass of \<open>finish_labels\<close> relabels rows and keeps what they are, in order.\<close>

definition row_identity :: "coverage_item \<Rightarrow> coverage_item \<times> string option \<times> int" where
  "row_identity it = (row_core it, it_file it, it_score it)"

locale row_pass =
  fixes pass :: "coverage_item list \<Rightarrow> coverage_item list"
  assumes keeps_rows: "map row_identity (pass items) = map row_identity items"
begin

lemma same_number: "length (pass items) = length items"
  by (metis keeps_rows length_map)

lemma filter_rows:
  assumes "\<And>a b. row_identity a = row_identity b \<Longrightarrow> P a = P b"
  shows "map row_identity (filter P (pass items)) = map row_identity (filter P items)"
proof -
  have same: "map row_identity (filter P xs) = map row_identity (filter P ys)" if "map row_identity xs = map row_identity ys" for xs ys
    using that
  proof (induction xs arbitrary: ys)
    case (Cons x xs)
    from Cons.prems obtain y zs where ys: "ys = y # zs" "row_identity x = row_identity y" "map row_identity xs = map row_identity zs"
      by (cases ys) simp_all
    show ?case
      unfolding ys(1) by (simp add: Cons.IH [OF ys(3)] assms [OF ys(2)] ys(2))
  qed simp
  show ?thesis by (rule same) (rule keeps_rows)
qed

lemma then_pass:
  assumes "row_pass after"
  shows "row_pass (\<lambda>items. after (pass items))"
  using assms keeps_rows by (simp add: row_pass_def)

end

text \<open>A pass that looks at one row at a time.\<close>

locale single_row_pass =
  fixes relabel :: "coverage_item \<Rightarrow> coverage_item"
  assumes keeps_row: "row_identity (relabel it) = row_identity it"

sublocale single_row_pass \<subseteq> row_pass "map relabel"
  by unfold_locales (simp add: keeps_row)

lemma identity_update [simp]:
  "row_identity (it\<lparr>it_state := a\<rparr>) = row_identity it" "row_identity (it\<lparr>it_origin := b\<rparr>) = row_identity it"
  "row_identity (it\<lparr>it_track_flag := c\<rparr>) = row_identity it" "row_identity (add_notes ns it) = row_identity it"
  "row_identity (it\<lparr>it_mixed := d\<rparr>) = row_identity it" "row_identity (it\<lparr>it_mixed_langs := e\<rparr>) = row_identity it"
  "row_identity (it\<lparr>it_audio_langs := f\<rparr>) = row_identity it" "row_identity (it\<lparr>it_lang_codes := g\<rparr>) = row_identity it"
  "row_identity (it\<lparr>it_suspect := h\<rparr>) = row_identity it" "row_identity (it\<lparr>it_unknown := i\<rparr>) = row_identity it"
  by (simp_all add: row_identity_def) (simp add: add_notes_def)

interpretation disqualified: single_row_pass disqualify
  by unfold_locales (simp add: disqualify_def Let_def)

interpretation dismissed: single_row_pass "clear_dismissed paths" for paths
  by unfold_locales (simp add: clear_dismissed_def)

interpretation refined: row_pass "refine_audio_sources sources" for sources
  by unfold_locales (simp add: refine_audio_sources_def o_def split: option.split)

interpretation annotated: row_pass "annotate_carried_verdicts carried" for carried
  by unfold_locales (simp add: annotate_carried_verdicts_def o_def split: option.split)

interpretation multilingual: row_pass "apply_multilingual_verifications multi" for multi
  by unfold_locales (simp add: apply_multilingual_verifications_def Let_def o_def split: option.split)

interpretation flagged: row_pass "\<lambda>items. fst (flag_mixed_language_series paths items)" for paths
  by unfold_locales (simp add: flag_mixed_language_series_def Let_def o_def split: option.split)

interpretation finished: row_pass "finish_labels store" for store
  by unfold_locales
    (simp only: finish_labels_def disqualify_unsupported_def Let_def dismissed.keeps_rows flagged.keeps_rows annotated.keeps_rows
      multilingual.keeps_rows refined.keeps_rows disqualified.keeps_rows)

lemma identity_path: "row_identity a = row_identity b \<Longrightarrow> row_path a = row_path b"
  using core_path_eq [of a b] by (simp add: row_identity_def row_path_def)

lemma report_rows:
  "mset (map row_identity (fst (build_coverage bi store)))
    = mset (map row_identity (filter (\<lambda>it. \<not> ignored_path (marked_paths (snd (build_rows bi store)) vs_ignored) (row_path it))
        (fst (build_rows bi store))))"
proof -
  define st where "st = snd (build_rows bi store)"
  let ?keep = "\<lambda>it. \<not> ignored_path (marked_paths st vs_ignored) (row_path it)"
  have "mset (map row_identity (filter ?keep (finish_labels st rows))) = mset (map row_identity (filter ?keep rows))" for rows
    by (rule arg_cong [where f = mset], rule finished.filter_rows) (drule identity_path, simp)
  then show ?thesis
    by (simp add: build_coverage_def finish_rows_def drop_ignored_titles_def st_def [symmetric] case_prod_beta)
qed

text \<open>C32. The report is a ranking of the assembled rows: it holds every row except those of ignored titles,
  each as often as it was assembled and with the file, the ids, the missing languages and the score
  it was assembled with, and it is ordered by falling score.\<close>

theorem report_ranks_the_rows:
  fixes bi :: build_inputs and store :: "verdict_store option"
  defines "rows \<equiv> fst (build_rows bi store)" and "st \<equiv> snd (build_rows bi store)"
  shows "mset (map row_identity (fst (build_coverage bi store)))
      = mset (map row_identity (filter (\<lambda>it. \<not> ignored_path (marked_paths st vs_ignored) (row_path it)) rows))
    \<and> sorted_wrt (\<lambda>a b. it_score b \<le> it_score a) (fst (build_coverage bi store))"
proof -
  have "sorted (map (\<lambda>it. - it_score it) (fst (build_coverage bi store)))"
    by (simp add: build_coverage_def finish_rows_def case_prod_beta)
  then have "sorted_wrt (\<lambda>a b. it_score b \<le> it_score a) (fst (build_coverage bi store))"
    by (simp add: sorted_map)
  then show ?thesis using report_rows [of bi store] by (simp add: rows_def st_def)
qed

section \<open>The two layers\<close>

definition series_rule :: "string \<Rightarrow> verdict_store \<Rightarrow> string option" where
  "series_rule p st = map_option (\<lambda>i. norm_or (in_lang i) (in_lang i)) (longest_intent p (vs_intents st) None)"

definition stored_lang :: "verdict \<Rightarrow> string" where
  "stored_lang r = norm_or (vd_lang r) (vd_lang r)"

lemma row_find_filter:
  "distinct (map vd_path rows) \<Longrightarrow>
     row_find vd_path p (filter q rows) = (case row_find vd_path p rows of None \<Rightarrow> None | Some r \<Rightarrow> if q r then Some r else None)"
proof (cases "row_find vd_path p rows")
  case None
  then have "row_find vd_path p (filter q rows) = None" unfolding row_find_None by auto
  with None show ?thesis by simp
next
  case (Some r)
  assume d: "distinct (map vd_path rows)"
  note r = row_find_Some [OF Some]
  show ?thesis
  proof (cases "q r")
    case True
    with r d row_find_in [of vd_path "filter q rows" r] Some show ?thesis by (simp add: distinct_map_filter)
  next
    case False
    with r d have "row_find vd_path p (filter q rows) = None"
      by (auto simp: row_find_None distinct_map inj_on_def)
    with Some False show ?thesis by simp
  qed
qed

lemma row_find_path: "row_find vd_path p rows = Some r \<Longrightarrow> vd_path r = p"
  by (auto simp: row_find_def find_Some_iff)

lemma rule_lookup:
  assumes "store_ok st"
  shows "match_intent (map (\<lambda>i. (in_prefix i, in_lang i)) (list_series_intents st)) p = series_rule p st"
proof -
  have d: "distinct (map in_prefix (vs_intents st))" using assms by (simp add: store_ok_def)
  show ?thesis
    using match_intent_longest [OF list_intents_keys [OF d], of "\<lambda>i. norm_or (in_lang i) (in_lang i)" p]
      longest_intent_perm [OF list_intents_keys [OF d] _ d, of p]
    by (simp add: series_rule_def list_series_intents_def o_def)
qed

lemma stored_source:
  assumes "store_ok st" "row_find vd_path p (vs_rows st) = Some r"
  shows "verification_sources (Some st) p = Some (vd_source r)"
  using assms distinct_lookup_rows [of "vs_rows st" vd_source p]
  by (simp add: store_ok_def verification_sources_def series_lookup_def get_all_sources_as_lookup_def)

lemma layer_lookup:
  assumes "store_ok st"
  shows "map_of (rev (filter (\<lambda>(p, _). q (verification_sources (Some st) p)) (get_all_as_lookup st))) p
    = (case row_find vd_path p (vs_rows st) of None \<Rightarrow> None | Some r \<Rightarrow> if q (Some (vd_source r)) then Some (stored_lang r) else None)"
proof -
  let ?q = "\<lambda>r. q (verification_sources (Some st) (vd_path r))"
  have d: "distinct (map vd_path (vs_rows st))" using assms by (simp add: store_ok_def)
  have "filter (\<lambda>(p, _). q (verification_sources (Some st) p)) (get_all_as_lookup st)
      = map (\<lambda>r. (vd_path r, stored_lang r)) (filter ?q (vs_rows st))"
    by (simp add: get_all_as_lookup_def filter_map o_def stored_lang_def)
  moreover have "distinct (map vd_path (filter ?q (vs_rows st)))"
    using d by (simp add: distinct_map_filter)
  ultimately have "map_of (rev (filter (\<lambda>(p, _). q (verification_sources (Some st) p)) (get_all_as_lookup st))) p
      = map_option stored_lang (row_find vd_path p (filter ?q (vs_rows st)))"
    by (simp add: distinct_lookup_rows)
  then show ?thesis
    using stored_source [OF assms, of p] row_find_path [of p "vs_rows st"]
    by (cases "row_find vd_path p (vs_rows st)") (simp_all add: row_find_filter [OF d])
qed

text \<open>What Whisper detected never enters a build as the word of the user: a file whose stored verdict
  came from the machine is known to the machine layer alone and falls back to the series rule of the
  user, any other stored verdict is known to the user layer alone, and a file without a verdict has
  only its series rule.\<close>

theorem machine_and_user_layers:
  assumes "store_ok st"
  shows "(fst (split_verifications (Some st)) p, snd (split_verifications (Some st)) p) =
    (case row_find vd_path p (vs_rows st) of
       None \<Rightarrow> (series_rule p st, None)
     | Some r \<Rightarrow>
         if machine_source (Some (vd_source r)) then (series_rule p st, Some (stored_lang r))
         else (Some (stored_lang r), None))"
  using layer_lookup [OF assms, of machine_source p] layer_lookup [OF assms, of "\<lambda>s. \<not> machine_source s" p]
  by (simp add: split_verifications_def Let_def series_lookup_def rule_lookup [OF assms] case_prod_unfold split: option.split)

definition heard_store :: verdict_store where
  "heard_store = upsert 5 ''TV/Alert/x.mkv'' ''rus'' ''whisper_audit'' 1 None None ''single'' None None None ruled_store"

theorem machine_and_user_layers_witness:
  "(fst (split_verifications (Some heard_store)) ''TV/Alert/x.mkv'', snd (split_verifications (Some heard_store)) ''TV/Alert/x.mkv'')
     = (Some ''fr'', Some ''ru'')"
proof -
  have "store_ok heard_store" by (simp add: store_ok_def) code_simp
  note m = machine_and_user_layers [OF this, of "''TV/Alert/x.mkv''"]
  obtain r where r: "row_find vd_path ''TV/Alert/x.mkv'' (vs_rows heard_store) = Some r"
    "vd_source r = ''whisper_audit''" "stored_lang r = ''ru''"
  proof
    show "row_find vd_path ''TV/Alert/x.mkv'' (vs_rows heard_store) = Some (hd (vs_rows heard_store))"
      "vd_source (hd (vs_rows heard_store)) = ''whisper_audit''" "stored_lang (hd (vs_rows heard_store)) = ''ru''"
      by code_simp+
  qed
  have "machine_source (Some ''whisper_audit'')" "series_rule ''TV/Alert/x.mkv'' heard_store = Some ''fr''"
    by code_simp+
  with r m show ?thesis by simp
qed

end
