(* ===== verification/RefreshQueue.thy ===== *)
theory RefreshQueue
  imports Prelude
begin

text \<open>
  The coalescing of coverage refreshes (\<open>request_refresh\<close>, \<open>_fire_debounced\<close> and
  \<open>_start_refresh_task\<close> of \<open>src/src/subarr/coverage_cache.py\<close>) as a state machine over the steps of the
  event loop: a kick, a timer that fires, a build that takes the lock, a build that ends. Builds that
  do not come from a kick (the periodic tick, a direct call of \<open>refresh\<close>) take part as well.
\<close>

section \<open>State\<close>

text \<open>\<open>rf_waiting\<close> are the tasks that have not yet taken the refresh lock; a task or the build in flight is
  marked when it was started by a kick. A timer is known by the time it fires.\<close>

record 'a refresher =
  rf_min :: pyfloat
  rf_last_done :: pyfloat
  rf_refreshing :: bool
  rf_again :: bool
  rf_args :: "'a option"
  rf_timer :: "pyfloat option"
  rf_waiting :: "('a \<times> bool) list"
  rf_building :: "('a \<times> bool) option"

definition new_refresher :: "pyfloat \<Rightarrow> 'a refresher" where
  "new_refresher m = \<lparr>rf_min = m, rf_last_done = 0, rf_refreshing = False, rf_again = False, rf_args = None,
     rf_timer = None, rf_waiting = [], rf_building = None\<rparr>"

definition set_min_interval :: "pyfloat \<Rightarrow> 'a refresher \<Rightarrow> 'a refresher" where
  "set_min_interval v s = s\<lparr>rf_min := max 0 v\<rparr>"

definition has_pending_refresh :: "'a refresher \<Rightarrow> bool" where
  "has_pending_refresh s \<longleftrightarrow> rf_again s \<or> rf_timer s \<noteq> None"

section \<open>Operations\<close>

definition time_until_allowed :: "pyfloat \<Rightarrow> 'a refresher \<Rightarrow> pyfloat" where
  "time_until_allowed now s =
     (if rf_min s \<le> 0 \<or> rf_last_done s = 0 then 0 else max 0 (rf_min s - (now - rf_last_done s)))"

definition start_refresh_task :: "'a \<Rightarrow> 'a refresher \<Rightarrow> 'a refresher" where
  "start_refresh_task args s = s\<lparr>rf_waiting := rf_waiting s @ [(args, True)]\<rparr>"

definition request_refresh :: "pyfloat \<Rightarrow> 'a \<Rightarrow> pyfloat option \<Rightarrow> 'a refresher \<Rightarrow> 'a refresher" where
  "request_refresh now args max_wait s0 =
     (let s = s0\<lparr>rf_args := Some args\<rparr> in
      if rf_refreshing s then s\<lparr>rf_again := True\<rparr>
      else (case rf_timer s of
          Some due \<Rightarrow>
            (case max_wait of
               None \<Rightarrow> s
             | Some m \<Rightarrow> if m < due - now then s\<lparr>rf_timer := Some (now + max 0 m)\<rparr> else s)
        | None \<Rightarrow>
            (let allowed = time_until_allowed now s;
                 wait = (case max_wait of None \<Rightarrow> allowed | Some m \<Rightarrow> min allowed (max 0 m))
             in if wait \<le> 0 then start_refresh_task args s else s\<lparr>rf_timer := Some (now + wait)\<rparr>)))"

definition fire_debounced :: "'a refresher \<Rightarrow> 'a refresher" where
  "fire_debounced s0 =
     (let s = s0\<lparr>rf_timer := None\<rparr> in
      if rf_refreshing s then s\<lparr>rf_again := True\<rparr>
      else (case rf_args s of None \<Rightarrow> s | Some args \<Rightarrow> start_refresh_task args s))"

text \<open>A task takes the lock and sets the flag.\<close>

definition begin_build :: "nat \<Rightarrow> 'a refresher \<Rightarrow> 'a refresher" where
  "begin_build i s = s\<lparr>rf_building := Some (rf_waiting s ! i), rf_refreshing := True,
     rf_waiting := take i (rf_waiting s) @ drop (Suc i) (rf_waiting s)\<rparr>"

text \<open>The build ends, published, held or failed. Only a task started by a kick looks for a follow-up.\<close>

definition end_build :: "pyfloat \<Rightarrow> 'a refresher \<Rightarrow> 'a refresher" where
  "end_build now s0 =
     (let s = s0\<lparr>rf_building := None, rf_refreshing := False, rf_last_done := now\<rparr> in
      case rf_building s0 of
        Some (_, True) \<Rightarrow>
          (if rf_again s then (case rf_args s of
               None \<Rightarrow> s\<lparr>rf_again := False\<rparr>
             | Some args \<Rightarrow> start_refresh_task args (s\<lparr>rf_again := False\<rparr>))
           else s)
      | _ \<Rightarrow> s)"

datatype 'a refresh_event =
    Kick pyfloat 'a "pyfloat option"
  | Direct 'a
  | Fire pyfloat
  | Start nat
  | Done pyfloat

fun refresh_step :: "'a refresh_event \<Rightarrow> 'a refresher \<Rightarrow> 'a refresher option" where
  "refresh_step (Kick now args max_wait) s = Some (request_refresh now args max_wait s)"
| "refresh_step (Direct args) s = Some (s\<lparr>rf_waiting := rf_waiting s @ [(args, False)]\<rparr>)"
| "refresh_step (Fire now) s =
     (case rf_timer s of None \<Rightarrow> None | Some due \<Rightarrow> if due \<le> now then Some (fire_debounced s) else None)"
| "refresh_step (Start i) s =
     (if rf_building s = None \<and> i < length (rf_waiting s) then Some (begin_build i s) else None)"
| "refresh_step (Done now) s = (if rf_building s = None then None else Some (end_build now s))"

fun refresh_run :: "'a refresh_event list \<Rightarrow> 'a refresher \<Rightarrow> 'a refresher option" where
  "refresh_run [] s = Some s"
| "refresh_run (e # es) s = (case refresh_step e s of None \<Rightarrow> None | Some s' \<Rightarrow> refresh_run es s')"

section \<open>A kick gets its build\<close>

fun is_start :: "'a refresh_event \<Rightarrow> bool" where
  "is_start (Start i) = True"
| "is_start _ = False"

fun is_kick :: "'a refresh_event \<Rightarrow> bool" where
  "is_kick (Kick now args max_wait) = True"
| "is_kick _ = False"

fun internal :: "'a refresh_event \<Rightarrow> bool" where
  "internal (Fire now) = True"
| "internal (Start i) = True"
| "internal (Done now) = True"
| "internal _ = False"

fun coalesced :: "'a refresh_event \<Rightarrow> bool" where
  "coalesced (Direct args) = False"
| "coalesced _ = True"

text \<open>A build is owed when a kick has come since the last build began.\<close>

definition owed :: "'a refresh_event list \<Rightarrow> bool" where
  "owed es \<longleftrightarrow> list_ex is_kick (takeWhile (\<lambda>e. \<not> is_start e) (rev es))"

lemma owed_snoc [simp]: "owed (es @ [e]) = (\<not> is_start e \<and> (is_kick e \<or> owed es))"
  by (simp add: owed_def)

lemma owed_append: "owed es \<Longrightarrow> \<not> list_ex is_start es' \<Longrightarrow> owed (es @ es')"
  by (induction es' rule: rev_induct) (simp_all flip: append_assoc)

lemma refresh_run_snoc:
  "refresh_run (es @ [e]) s = (case refresh_run es s of None \<Rightarrow> None | Some s' \<Rightarrow> refresh_step e s')"
  by (induction es arbitrary: s) (auto split: option.split)

text \<open>What holds of the machine as long as every build comes from a kick.\<close>

definition machine_ok :: "bool \<Rightarrow> 'a refresher \<Rightarrow> bool" where
  "machine_ok ow s \<longleftrightarrow>
     rf_refreshing s = (rf_building s \<noteq> None)
     \<and> list_all snd (rf_waiting s) \<and> (case rf_building s of None \<Rightarrow> True | Some b \<Rightarrow> snd b)
     \<and> (rf_again s \<longrightarrow> rf_building s \<noteq> None \<and> rf_args s \<noteq> None)
     \<and> (rf_timer s \<noteq> None \<longrightarrow> rf_args s \<noteq> None)
     \<and> (ow \<longrightarrow> rf_waiting s \<noteq> [] \<or> rf_timer s \<noteq> None \<or> rf_again s)"

lemmas refresh_defs = request_refresh_def fire_debounced_def begin_build_def end_build_def start_refresh_task_def Let_def

lemma machine_ok_kick: "machine_ok ow s \<Longrightarrow> machine_ok True (request_refresh now a mw s)"
  by (auto simp: machine_ok_def refresh_defs split: option.splits)

lemma machine_ok_fire: "machine_ok ow s \<Longrightarrow> rf_timer s \<noteq> None \<Longrightarrow> machine_ok ow (fire_debounced s)"
  by (auto simp: machine_ok_def refresh_defs split: option.splits)

lemma machine_ok_start:
  "machine_ok ow s \<Longrightarrow> rf_building s = None \<Longrightarrow> i < length (rf_waiting s) \<Longrightarrow> machine_ok False (begin_build i s)"
  by (auto simp: machine_ok_def begin_build_def list_all_iff dest: in_set_takeD in_set_dropD)

lemma machine_ok_done: "machine_ok ow s \<Longrightarrow> rf_building s \<noteq> None \<Longrightarrow> machine_ok ow (end_build now s)"
proof -
  assume ok: "machine_ok ow s" and "rf_building s \<noteq> None"
  then obtain a where "rf_building s = Some (a, True)" by (auto simp: machine_ok_def)
  with ok show ?thesis
    by (simp add: machine_ok_def end_build_def start_refresh_task_def Let_def split: option.split) fastforce
qed

lemma machine_ok_step:
  assumes "machine_ok ow s" "refresh_step e s = Some s'" "coalesced e"
  shows "machine_ok (\<not> is_start e \<and> (is_kick e \<or> ow)) s'"
proof (cases e)
  case (Kick now args max_wait)
  with assms(1,2) show ?thesis by (auto dest: machine_ok_kick)
next
  case (Fire now)
  with assms(2) have "rf_timer s \<noteq> None" "s' = fire_debounced s" by (auto split: option.splits if_splits)
  with Fire assms(1) show ?thesis by (simp add: machine_ok_fire del: not_None_eq)
next
  case (Start i)
  with assms(2) have "rf_building s = None" "i < length (rf_waiting s)" "s' = begin_build i s" by (auto split: if_splits)
  with Start assms(1) show ?thesis by (simp add: machine_ok_start [of ow])
next
  case (Done now)
  with assms(2) have "rf_building s \<noteq> None" "s' = end_build now s" by (auto split: if_splits)
  with Done assms(1) show ?thesis by (simp add: machine_ok_done del: not_None_eq)
qed (use assms(3) in simp)

lemma machine_ok_run:
  "refresh_run es (new_refresher m) = Some s \<Longrightarrow> list_all coalesced es \<Longrightarrow> machine_ok (owed es) s"
proof (induction es arbitrary: s rule: rev_induct)
  case Nil
  then show ?case by (auto simp: new_refresher_def machine_ok_def owed_def)
next
  case (snoc e es)
  from snoc.prems(1) obtain t where t: "refresh_run es (new_refresher m) = Some t" "refresh_step e t = Some s"
    by (auto simp: refresh_run_snoc split: option.splits)
  from snoc.IH [OF t(1)] snoc.prems(2) have "machine_ok (owed es) t" by simp
  from machine_ok_step [OF this t(2)] snoc.prems(2) show ?case by simp
qed

text \<open>The steps the machine can take on its own before a build begins.\<close>

definition idle_steps :: "'a refresher \<Rightarrow> nat" where
  "idle_steps s = (if rf_timer s = None then 0 else 1) + (if rf_building s = None then 0 else 1)"

lemma idle_step:
  assumes "refresh_step e s = Some s'" "internal e" "\<not> is_start e"
  shows "idle_steps s = Suc (idle_steps s')"
  using assms
  by (cases e) (auto simp: idle_steps_def refresh_defs split: option.splits if_splits prod.splits bool.splits)

lemma idle_run:
  "refresh_run es s = Some s' \<Longrightarrow> list_all internal es \<Longrightarrow> \<not> list_ex is_start es \<Longrightarrow> length es + idle_steps s' = idle_steps s"
  by (induction es arbitrary: s) (auto dest: idle_step split: option.splits)

lemma owed_enabled:
  assumes "machine_ok True s"
  shows "\<exists>e. internal e \<and> refresh_step e s \<noteq> None"
proof -
  consider "rf_building s \<noteq> None" | "rf_building s = None" "rf_waiting s \<noteq> []" | due where "rf_timer s = Some due"
    using assms unfolding machine_ok_def by blast
  then show ?thesis
  proof cases
    case 1
    then show ?thesis by (intro exI [of _ "Done 0"]) simp
  next
    case 2
    then show ?thesis by (intro exI [of _ "Start 0"]) simp
  next
    case 3
    then show ?thesis by (intro exI [of _ "Fire due"]) simp
  qed
qed

text \<open>As long as every build is started by a kick, no kick is lost: while a build is owed the machine can
  always take a step of its own, every such step keeps the debt until a build begins, and it can take
  at most two of them before one does. So each kick is followed by a build that begins after it.\<close>

theorem kick_gets_its_build:
  assumes "refresh_run es (new_refresher m) = Some s" "list_all coalesced es" "owed es"
  shows "(\<exists>e. internal e \<and> refresh_step e s \<noteq> None)
    \<and> (\<forall>es' s'. list_all internal es' \<longrightarrow> \<not> list_ex is_start es' \<longrightarrow> refresh_run es' s = Some s' \<longrightarrow>
         length es' \<le> 2 \<and> owed (es @ es'))"
proof (intro conjI allI impI)
  show "\<exists>e. internal e \<and> refresh_step e s \<noteq> None"
    using owed_enabled machine_ok_run [OF assms(1,2)] assms(3) by (simp del: not_None_eq)
  fix es' and s' :: "'a refresher"
  assume es': "list_all internal es'" "\<not> list_ex is_start es'" "refresh_run es' s = Some s'"
  have "idle_steps s \<le> 2" by (simp add: idle_steps_def)
  with idle_run [OF es'(3,1,2)] show "length es' \<le> 2" by simp
  show "owed (es @ es')" using assms(3) es'(2) by (rule owed_append)
qed

definition demo_kicks :: "nat refresh_event list" where
  "demo_kicks = [Kick 10 1 None, Start 0, Kick 11 2 None, Kick 12 3 None]"

theorem kick_gets_its_build_witness:
  "\<exists>s. refresh_run demo_kicks (new_refresher 120) = Some s
     \<and> (\<exists>e. internal e \<and> refresh_step e s \<noteq> None)"
proof -
  have "refresh_run demo_kicks (new_refresher 120) \<noteq> None"
    by (simp add: demo_kicks_def new_refresher_def refresh_defs time_until_allowed_def)
  then obtain s where s: "refresh_run demo_kicks (new_refresher 120) = Some s" by auto
  have "list_all coalesced demo_kicks" "owed demo_kicks" by (simp_all add: demo_kicks_def owed_def)
  from kick_gets_its_build [OF s this] s show ?thesis by blast
qed

text \<open>However many kicks arrive during a build, one build follows it, with the arguments of the last kick.\<close>

lemma burst_gives_one_follow_up:
  assumes "rf_building s = Some (a, True)" "rf_refreshing s" "ks \<noteq> []"
  shows "refresh_run (map (\<lambda>(t, x, w). Kick t x w) ks @ [Done now]) s
    = Some (s\<lparr>rf_args := Some (fst (snd (last ks))), rf_again := False, rf_building := None, rf_refreshing := False,
        rf_last_done := now, rf_waiting := rf_waiting s @ [(fst (snd (last ks)), True)]\<rparr>)"
proof -
  have kicks: "refresh_run (map (\<lambda>(t, x, w). Kick t x w) ks) s
      = Some (s\<lparr>rf_args := Some (fst (snd (last ks))), rf_again := True\<rparr>)"
    using assms(2,3)
  proof (induction ks arbitrary: s)
    case (Cons k ks)
    obtain t x w where k: "k = (t, x, w)" by (cases k) auto
    have step: "request_refresh t x w s = s\<lparr>rf_args := Some x, rf_again := True\<rparr>"
      using Cons.prems(1) by (simp add: request_refresh_def Let_def)
    show ?case
    proof (cases "ks = []")
      case False
      with Cons.IH [of "s\<lparr>rf_args := Some x, rf_again := True\<rparr>"] Cons.prems(1) k step show ?thesis by simp
    qed (simp add: k step)
  qed simp
  show ?thesis
    unfolding refresh_run_snoc kicks using assms(1) by (simp add: refresh_defs)
qed

text \<open>Two kicks in one turn of an idle event loop start two builds: the flag is set by the task and not
  by the kick.\<close>

lemma burst_on_idle_starts_two_builds:
  "map_option rf_waiting (refresh_run [Kick 10 (1::nat) None, Kick 10 2 None] (new_refresher 120)) = Some [(1, True), (2, True)]"
  by (simp add: new_refresher_def refresh_defs time_until_allowed_def)

text \<open>A kick during a build that no kick started waits for the next kick: no step is left to the machine
  when that build ends, although the flag says a follow-up is due.\<close>

lemma kick_during_periodic_build_stalls:
  "case refresh_run [Direct (0::nat), Start 0, Kick 10 1 None, Done 20] (new_refresher 120) of
     None \<Rightarrow> False
   | Some s \<Rightarrow> has_pending_refresh s \<and> (\<forall>e. internal e \<longrightarrow> refresh_step e s = None)"
proof -
  have run: "refresh_run [Direct (0::nat), Start 0, Kick 10 1 None, Done 20] (new_refresher 120)
      = Some ((new_refresher 120)\<lparr>rf_args := Some 1, rf_again := True, rf_last_done := 20\<rparr>)"
    by (simp add: new_refresher_def refresh_defs)
  have "refresh_step e ((new_refresher 120)\<lparr>rf_args := Some (1::nat), rf_again := True, rf_last_done := 20\<rparr>) = None"
    if "internal e" for e
    using that by (cases e) (simp_all add: new_refresher_def)
  then show ?thesis unfolding run by (simp add: has_pending_refresh_def)
qed

end
