(* ===== verification/CoverageCache.thy ===== *)
theory CoverageCache
  imports CoverageBuild RefreshQueue
begin

text \<open>
  The cached coverage snapshot (\<open>src/src/subarr/coverage_cache.py\<close>) with the health of the sources it is
  judged by (\<open>coverage_engine.py\<close>): the gate that holds back a degraded build, what is read out of a
  snapshot, the verdict sweep before a build and the eager probes after one. A row of a snapshot is
  the \<open>coverage_item\<close> it is the JSON view of.
\<close>

section \<open>Health of the sources\<close>

text \<open>One entry of the \<open>sources\<close> dictionary; the numeric keys are an association list.\<close>

record source_health =
  sh_ok :: bool
  sh_configured :: bool
  sh_counts :: "(string \<times> nat) list"
  sh_warnings :: "string list"
  sh_error :: "string option"

definition no_health :: source_health where
  "no_health = \<lparr>sh_ok = False, sh_configured = False, sh_counts = [], sh_warnings = [], sh_error = None\<rparr>"

text \<open>What a client does when asked: it is not configured, it answers, or it raises an
  \<open>IntegrationError\<close> with a text.\<close>

datatype 'a reply = Unconfigured | Answered 'a | Failed string

definition fetch_arr :: "'a list reply \<Rightarrow> source_health \<Rightarrow> 'a list \<times> source_health" where
  "fetch_arr r h =
     (case r of
        Unconfigured \<Rightarrow> ([], h\<lparr>sh_ok := False, sh_configured := False\<rparr>)
      | Answered rows \<Rightarrow>
          (rows, h\<lparr>sh_ok := True, sh_configured := True, sh_counts := AList.update ''count'' (length rows) (sh_counts h)\<rparr>)
      | Failed e \<Rightarrow> ([], h\<lparr>sh_ok := False, sh_configured := True, sh_error := Some e\<rparr>))"

definition fetch_arr_tags :: "(nat \<times> string option) list reply \<Rightarrow> source_health \<Rightarrow> (nat \<times> string) list \<times> source_health" where
  "fetch_arr_tags r h =
     (case r of
        Unconfigured \<Rightarrow> ([], h)
      | Answered rows \<Rightarrow>
          (fold (\<lambda>(i, label). AList.update i (case label of None \<Rightarrow> dec i | Some l \<Rightarrow> l)) rows [], h)
      | Failed e \<Rightarrow> ([], h\<lparr>sh_warnings := sh_warnings h @ [''tags: '' @ e]\<rparr>))"

text \<open>The three optional fetches share their shape: a count on success, a warning on failure.\<close>

definition fetch_optional :: "string \<Rightarrow> string \<Rightarrow> 'a list reply \<Rightarrow> source_health \<Rightarrow> 'a list \<times> source_health" where
  "fetch_optional key label r h =
     (case r of
        Unconfigured \<Rightarrow> ([], h)
      | Answered ids \<Rightarrow> (ids, h\<lparr>sh_counts := AList.update key (length ids) (sh_counts h)\<rparr>)
      | Failed e \<Rightarrow> ([], h\<lparr>sh_warnings := sh_warnings h @ [label @ '': '' @ e]\<rparr>))"

definition fetch_wanted_missing :: "nat list reply \<Rightarrow> source_health \<Rightarrow> nat list \<times> source_health" where
  "fetch_wanted_missing = fetch_optional ''wanted_missing'' ''wanted/missing''"

definition fetch_recent_imports :: "(nat \<times> pyfloat) list reply \<Rightarrow> source_health \<Rightarrow> (nat \<times> pyfloat) list \<times> source_health" where
  "fetch_recent_imports = fetch_optional ''recent_imports_24h'' ''history''"

definition fetch_calendar_upcoming :: "nat list reply \<Rightarrow> source_health \<Rightarrow> nat list \<times> source_health" where
  "fetch_calendar_upcoming = fetch_optional ''airing_within_48h'' ''calendar''"

text \<open>The five requests of a Sonarr instance; they touch different keys of the entry.\<close>

record sonarr_replies =
  sp_series :: "arr_series list reply"
  sp_tags :: "(nat \<times> string option) list reply"
  sp_missing :: "nat list reply"
  sp_recent :: "(nat \<times> pyfloat) list reply"
  sp_airing :: "nat list reply"
  sp_configured :: bool
  sp_files :: "nat \<Rightarrow> (arr_episode list \<times> (nat \<times> string option) list) option"

definition fetch_sonarr_inst :: "sonarr_replies \<Rightarrow> sonarr_state \<times> source_health" where
  "fetch_sonarr_inst r =
     (let (series, h1) = fetch_arr (sp_series r) no_health;
          (tags, h2) = fetch_arr_tags (sp_tags r) h1;
          (missing, h3) = fetch_wanted_missing (sp_missing r) h2;
          (recent, h4) = fetch_recent_imports (sp_recent r) h3;
          (airing, h5) = fetch_calendar_upcoming (sp_airing r) h4
      in (\<lparr>ss_series = series, ss_tags = tags, ss_missing = missing, ss_recent = map_of recent, ss_airing = airing,
           ss_configured = sp_configured r, ss_files = sp_files r\<rparr>, h5))"

definition joined_errors :: "(string \<times> source_health) list \<Rightarrow> string list" where
  "joined_errors hs =
     [''['' @ (if i = [] then ''0'' else i) @ ''] '' @ or_empty (sh_error h). (i, h) \<leftarrow> hs, truthy_str (sh_error h)]"

definition roll_count :: "source_health list \<Rightarrow> string \<Rightarrow> (string \<times> nat) list" where
  "roll_count hs key =
     (let vals = List.map_filter (\<lambda>h. map_of (sh_counts h) key) hs in if vals = [] then [] else [(key, sum_list vals)])"

definition rollup_arr_health :: "(string \<times> source_health) list \<Rightarrow> source_health" where
  "rollup_arr_health hs =
     (let configured = filter sh_configured (map snd hs) in
      \<lparr>sh_ok = (configured \<noteq> [] \<and> list_all sh_ok configured), sh_configured = (configured \<noteq> []),
       sh_counts = concat (map (roll_count (map snd hs)) [''count'', ''wanted_missing'', ''recent_imports_24h'', ''airing_within_48h'']),
       sh_warnings = concat (map (sh_warnings \<circ> snd) hs),
       sh_error = (if joined_errors hs = [] then None else Some (join_with ''; '' (joined_errors hs)))\<rparr>)"

lemmas fetch_defs = fetch_arr_tags_def fetch_optional_def fetch_wanted_missing_def fetch_recent_imports_def
  fetch_calendar_upcoming_def

text \<open>Only the main request decides about an instance.\<close>

lemma instance_health:
  "sh_ok (snd (fetch_sonarr_inst r)) = (case sp_series r of Answered _ \<Rightarrow> True | _ \<Rightarrow> False)"
  "sh_configured (snd (fetch_sonarr_inst r)) = (sp_series r \<noteq> Unconfigured)"
  by (auto simp: fetch_sonarr_inst_def fetch_arr_def fetch_defs no_health_def Let_def split: reply.split)

section \<open>Snapshots\<close>

definition report_totals :: "coverage_item list \<Rightarrow> (string \<times> nat) list" where
  "report_totals items =
     (let count = (\<lambda>p. length (filter p items)) in
      [(''items'', length items), (''episodes'', count (\<lambda>i. it_media i = Episode)), (''movies'', count (\<lambda>i. it_media i = Movie)),
       (''with_disk_sub'', count it_sub_on_disk), (''embedded_full_en'', count (\<lambda>i. it_embedded i = Some EN)),
       (''suggest_bazarr_rescan'', count it_rescan), (''pending_download'', count it_pending),
       (''actionable'', count (\<lambda>i. \<not> it_pending i))])"

type_synonym source_map = "(string \<times> source_health) list"

record snapshot =
  sn_at :: pyfloat
  sn_items :: "coverage_item list"
  sn_totals :: "(string \<times> nat) list"
  sn_sources :: source_map
  sn_duration :: pyfloat
  sn_count :: nat

definition age_s :: "pyfloat \<Rightarrow> snapshot \<Rightarrow> pyfloat" where
  "age_s now s = now - sn_at s"

text \<open>The row with id 1 of \<open>coverage_snapshot\<close>; its JSON may not parse.\<close>

datatype saved_row = Absent | Saved snapshot | Malformed

record coverage_cache =
  cc_cached :: "snapshot option"
  cc_saved :: saved_row
  cc_holds :: nat
  cc_last_sweep :: pyfloat

definition boot_cache :: "saved_row \<Rightarrow> coverage_cache" where
  "boot_cache saved = \<lparr>cc_cached = None, cc_saved = saved, cc_holds = 0, cc_last_sweep = 0\<rparr>"

definition load_cache :: "coverage_cache \<Rightarrow> coverage_cache" where
  "load_cache c =
     (case cc_saved c of Absent \<Rightarrow> c | Saved s \<Rightarrow> c\<lparr>cc_cached := Some s\<rparr> | Malformed \<Rightarrow> c\<lparr>cc_cached := None\<rparr>)"

record finished_build =
  fb_at :: pyfloat
  fb_items :: "coverage_item list"
  fb_sources :: source_map
  fb_duration :: pyfloat

definition snapshot_of :: "finished_build \<Rightarrow> snapshot" where
  "snapshot_of b = \<lparr>sn_at = fb_at b, sn_items = fb_items b, sn_totals = report_totals (fb_items b),
     sn_sources = fb_sources b, sn_duration = fb_duration b, sn_count = length (fb_items b)\<rparr>"

definition store_snapshot :: "finished_build \<Rightarrow> coverage_cache \<Rightarrow> coverage_cache" where
  "store_snapshot b c = c\<lparr>cc_saved := Saved (snapshot_of b), cc_cached := Some (snapshot_of b)\<rparr>"

section \<open>The publish gate\<close>

definition critical_sources :: "string list" where
  "critical_sources = [''bazarr'', ''sonarr'', ''radarr'']"

definition max_consecutive_holds :: nat where "max_consecutive_holds = 3"

definition health_of :: "source_map \<Rightarrow> string \<Rightarrow> source_health" where
  "health_of m name = (case map_of m name of None \<Rightarrow> no_health | Some h \<Rightarrow> h)"

definition newly_failed :: "source_map \<Rightarrow> source_map \<Rightarrow> string \<Rightarrow> bool" where
  "newly_failed new cached name \<longleftrightarrow>
     sh_configured (health_of new name) \<and> \<not> sh_ok (health_of new name) \<and> sh_ok (health_of cached name)"

definition degraded_sources :: "source_map \<Rightarrow> source_map option \<Rightarrow> string list" where
  "degraded_sources new cached = filter (newly_failed new (case cached of None \<Rightarrow> [] | Some m \<Rightarrow> m)) critical_sources"

definition publish :: "finished_build \<Rightarrow> coverage_cache \<Rightarrow> bool \<times> coverage_cache" where
  "publish b c =
     (let held = degraded_sources (fb_sources b) (map_option sn_sources (cc_cached c)) in
      if held \<noteq> [] \<and> cc_cached c \<noteq> None \<and> cc_holds c < max_consecutive_holds
      then (False, c\<lparr>cc_holds := cc_holds c + 1\<rparr>)
      else (True, store_snapshot b (c\<lparr>cc_holds := 0\<rparr>)))"

fun publish_all :: "finished_build list \<Rightarrow> coverage_cache \<Rightarrow> bool list \<times> coverage_cache" where
  "publish_all [] c = ([], c)"
| "publish_all (b # bs) c =
     (case publish b c of (p, c') \<Rightarrow> (case publish_all bs c' of (ps, c'') \<Rightarrow> (p # ps, c'')))"

text \<open>The snapshot served after some builds: that of the last published one, or the one loaded at boot.\<close>

definition served :: "snapshot option \<Rightarrow> finished_build list \<Rightarrow> bool list \<Rightarrow> snapshot option" where
  "served start bs flags =
     (case rev (filter snd (zip bs flags)) of [] \<Rightarrow> start | (b, _) # _ \<Rightarrow> Some (snapshot_of b))"

definition three_held :: "bool list \<Rightarrow> bool" where
  "three_held flags \<longleftrightarrow> take 3 (rev flags) = [False, False, False]"

lemma publish_all_snoc:
  "publish_all (bs @ [b]) c =
     (case publish_all bs c of (ps, c') \<Rightarrow> (case publish b c' of (p, c'') \<Rightarrow> (ps @ [p], c'')))"
  by (induction bs arbitrary: c) (auto split: prod.split)

lemma publish_all_length: "length (fst (publish_all bs c)) = length bs"
  by (induction bs arbitrary: c) (simp_all add: case_prod_beta)

lemma served_snoc:
  "length flags = length bs \<Longrightarrow>
   served start (bs @ [b]) (flags @ [p]) = (if p then Some (snapshot_of b) else served start bs flags)"
  by (simp add: served_def)

definition holds_in_row :: "bool list \<Rightarrow> nat" where
  "holds_in_row flags = length (takeWhile Not (rev flags))"

lemma holds_in_row_snoc [simp]: "holds_in_row (flags @ [p]) = (if p then 0 else Suc (holds_in_row flags))"
  by (simp add: holds_in_row_def)

lemma three_held_iff: "three_held flags \<longleftrightarrow> 3 \<le> holds_in_row flags"
proof -
  have "take 3 xs = [False, False, False] \<longleftrightarrow> 3 \<le> length (takeWhile Not xs)" for xs
    by (cases xs; cases "tl xs"; cases "tl (tl xs)") auto
  then show ?thesis by (simp add: three_held_def holds_in_row_def)
qed

lemma publish_iff:
  "publish b c = (p, c') \<Longrightarrow>
     p = (degraded_sources (fb_sources b) (map_option sn_sources (cc_cached c)) = [] \<or> 3 \<le> cc_holds c)
     \<and> cc_cached c' = (if p then Some (snapshot_of b) else cc_cached c)
     \<and> cc_holds c' = (if p then 0 else Suc (cc_holds c))"
  by (auto simp: publish_def store_snapshot_def max_consecutive_holds_def degraded_sources_def newly_failed_def
      health_of_def no_health_def Let_def split: if_splits)

text \<open>The gate has seen the builds \<open>bs\<close> with the outcomes \<open>flags\<close>.\<close>

definition gate_ok :: "snapshot option \<Rightarrow> finished_build list \<Rightarrow> bool list \<times> coverage_cache \<Rightarrow> bool" where
  "gate_ok start bs r \<longleftrightarrow>
     cc_cached (snd r) = served start bs (fst r) \<and> cc_holds (snd r) = holds_in_row (fst r)"

lemma gate_ok_run: "cc_holds c = 0 \<Longrightarrow> gate_ok (cc_cached c) bs (publish_all bs c)"
proof (induction bs rule: rev_induct)
  case Nil
  then show ?case by (simp add: gate_ok_def served_def holds_in_row_def)
next
  case (snoc b bs)
  obtain ps c' where r: "publish_all bs c = (ps, c')" by (cases "publish_all bs c")
  obtain p c'' where q: "publish b c' = (p, c'')" by (cases "publish b c'")
  have len: "length ps = length bs" using publish_all_length [of bs c] r by simp
  from snoc.IH [OF snoc.prems] publish_iff [OF q] len show ?case
    by (simp add: publish_all_snoc r q gate_ok_def served_snoc)
qed

lemma publish_all_take: "fst (publish_all (take i bs) c) = take i (fst (publish_all bs c))"
  by (induction bs arbitrary: c i) (simp_all add: take_Cons' case_prod_beta)

lemma publish_all_nth:
  assumes i: "i < length bs" and h: "cc_holds c = 0"
  defines "flags \<equiv> fst (publish_all bs c)"
  shows "flags ! i = (degraded_sources (fb_sources (bs ! i))
      (map_option sn_sources (served (cc_cached c) (take i bs) (take i flags))) = [] \<or> three_held (take i flags))"
proof -
  obtain ps c' where r: "publish_all (take i bs) c = (ps, c')" by (cases "publish_all (take i bs) c")
  obtain p c'' where q: "publish (bs ! i) c' = (p, c'')" by (cases "publish (bs ! i) c'")
  have ps: "ps = take i flags" using publish_all_take [of i bs c] r by (simp add: flags_def)
  have "publish_all (take (Suc i) bs) c = (ps @ [p], c'')"
    using i r q by (simp add: take_Suc_conv_app_nth publish_all_snoc)
  then have "take (Suc i) flags = ps @ [p]" using publish_all_take [of "Suc i" bs c] by (simp add: flags_def)
  moreover have "length ps = i" using publish_all_length [of "take i bs" c] r i by simp
  ultimately have "flags ! i = p" by (metis lessI nth_append_length nth_take)
  with publish_iff [OF q] gate_ok_run [OF h, of "take i bs"] ps r show ?thesis
    by (simp add: gate_ok_def three_held_iff)
qed

text \<open>C36. Whatever builds follow a boot, the gate serves the snapshot of the last published build, and it
  publishes exactly the builds that break no source which the served snapshot had healthy, and every
  build that comes after three held ones. So a failing service never replaces a good snapshot at once
  and never pins it for a fourth build in a row.\<close>

theorem degraded_builds_are_held:
  fixes saved :: saved_row and bs :: "finished_build list"
  defines "start \<equiv> load_cache (boot_cache saved)"
  defines "flags \<equiv> fst (publish_all bs start)"
  shows "cc_cached (snd (publish_all bs start)) = served (cc_cached start) bs flags
    \<and> flags = map (\<lambda>i. degraded_sources (fb_sources (bs ! i))
          (map_option sn_sources (served (cc_cached start) (take i bs) (take i flags))) = []
        \<or> three_held (take i flags)) [0..<length bs]
    \<and> list_all (\<lambda>i. list_ex id (take 4 (drop i flags))) [0..<length bs - 3]"
proof -
  have h: "cc_holds start = 0" by (simp add: start_def load_cache_def boot_cache_def split: saved_row.split)
  have len: "length flags = length bs" by (simp add: flags_def publish_all_length)
  have nth: "flags ! i = (degraded_sources (fb_sources (bs ! i))
      (map_option sn_sources (served (cc_cached start) (take i bs) (take i flags))) = [] \<or> three_held (take i flags))"
    if "i < length bs" for i using publish_all_nth [OF that h] by (simp add: flags_def)
  have four: "list_ex id (take 4 (drop i flags))" if "i < length bs - 3" for i
  proof (rule ccontr)
    assume "\<not> list_ex id (take 4 (drop i flags))"
    then have none: "\<not> flags ! (i + k)" if "k < 4" for k
      using that \<open>i < length bs - 3\<close> len by (auto simp: list_ex_length)
    have "take (i + 3) flags = take i flags @ [False, False, False]"
      using none [of 0] none [of 1] none [of 2] that len
      by (simp add: numeral_3_eq_3 take_Suc_conv_app_nth)
    then have "three_held (take (i + 3) flags)" by (simp add: three_held_def)
    moreover have "i + 3 < length bs" using that by (simp add: less_diff_conv)
    ultimately show False using nth [of "i + 3"] none [of 3] by simp
  qed
  show ?thesis
    using gate_ok_run [OF h, of bs] len nth four
    by (auto simp: gate_ok_def flags_def list_all_iff intro!: nth_equalityI)
qed

section \<open>What is read out of a snapshot\<close>

definition snapshot_items :: "snapshot option \<Rightarrow> coverage_item list" where
  "snapshot_items s = (case s of None \<Rightarrow> [] | Some x \<Rightarrow> sn_items x)"

text \<open>The verdict key of a row is the id of its episode or its movie.\<close>

definition row_ids :: "coverage_item \<Rightarrow> (int option \<times> int option) option" where
  "row_ids it =
     (if it_media it = Movie then map_option (\<lambda>i. (None, Some (int i))) (it_radarr it)
      else map_option (\<lambda>i. (Some (int i), None)) (it_episode it))"

definition add_row_ids :: "coverage_item \<Rightarrow> path_ids \<Rightarrow> path_ids" where
  "add_row_ids it m =
     (if truthy_str (it_file it) then
        (case row_ids it of None \<Rightarrow> m | Some ids \<Rightarrow> AList.update (or_empty (it_file it)) ids m)
      else m)"

definition snapshot_path_ids :: "snapshot option \<Rightarrow> path_ids" where
  "snapshot_path_ids s = fold add_row_ids (snapshot_items s) []"

record enqueue_ids =
  en_series :: "nat option"
  en_episode :: "nat option"
  en_movie :: "nat option"

definition no_ids :: enqueue_ids where
  "no_ids = \<lparr>en_series = None, en_episode = None, en_movie = None\<rparr>"

definition row_enqueue_ids :: "coverage_item \<Rightarrow> enqueue_ids" where
  "row_enqueue_ids it =
     (if it_media it = Movie then no_ids\<lparr>en_movie := it_radarr it\<rparr>
      else no_ids\<lparr>en_series := it_sonarr it, en_episode := it_episode it\<rparr>)"

definition add_enqueue_ids :: "coverage_item \<Rightarrow> (string \<times> enqueue_ids) list \<Rightarrow> (string \<times> enqueue_ids) list" where
  "add_enqueue_ids it m =
     (if truthy_str (it_file it) \<and> row_enqueue_ids it \<noteq> no_ids
      then AList.update (or_empty (it_file it)) (row_enqueue_ids it) m else m)"

definition snapshot_enqueue_ids :: "snapshot option \<Rightarrow> (string \<times> enqueue_ids) list" where
  "snapshot_enqueue_ids s = fold add_enqueue_ids (snapshot_items s) []"

definition enqueue_ids_for :: "snapshot option \<Rightarrow> string list \<Rightarrow> (string \<times> enqueue_ids) list" where
  "enqueue_ids_for s paths =
     fold (\<lambda>p m. case map_of (snapshot_enqueue_ids s) p of None \<Rightarrow> m | Some ids \<Rightarrow> AList.update p ids m) paths []"

definition clear_mismatch :: "string \<Rightarrow> coverage_item \<Rightarrow> coverage_item" where
  "clear_mismatch path it =
     (if it_file it = Some path \<and> it_track_flag it then it\<lparr>it_track_flag := False, it_track_mismatch := None\<rparr> else it)"

definition clear_track_mismatch_for :: "string \<Rightarrow> coverage_cache \<Rightarrow> nat \<times> coverage_cache" where
  "clear_track_mismatch_for path c =
     (case cc_cached c of
        None \<Rightarrow> (0, c)
      | Some s \<Rightarrow>
          (length (filter (\<lambda>it. it_file it = Some path \<and> it_track_flag it) (sn_items s)),
           c\<lparr>cc_cached := Some (s\<lparr>sn_items := map (clear_mismatch path) (sn_items s)\<rparr>)\<rparr>))"

section \<open>Eager probes\<close>

definition eager_probe_cap :: nat where "eager_probe_cap = 400"

definition eager_followup_max_wait_s :: pyfloat where "eager_followup_max_wait_s = 5"

text \<open>The file a row offers to the prober: an unprobed row with a video file.\<close>

definition eager_target :: "coverage_item \<Rightarrow> string option" where
  "eager_target it =
     (let c = (if truthy_str (it_file it) then it_file it else it_path it) in
      if it_state it = Unprobed \<and> truthy_str c \<and> lower (path_suffix (base_name (or_empty c))) \<in> set video_exts then c else None)"

fun eager_loop :: "nat \<Rightarrow> coverage_item list \<Rightarrow> string list \<Rightarrow> string list" where
  "eager_loop cap [] out = out"
| "eager_loop cap (it # items) out =
     (case eager_target it of
        None \<Rightarrow> eager_loop cap items out
      | Some c \<Rightarrow>
          if c \<in> set out then eager_loop cap items out
          else if cap \<le> length (out @ [c]) then out @ [c]
          else eager_loop cap items (out @ [c]))"

definition eager_probe_targets :: "coverage_item list \<Rightarrow> nat \<Rightarrow> string list" where
  "eager_probe_targets items cap = eager_loop cap items []"

text \<open>What a finished probe batch asks for: nothing, or a refresh with its longest wait.\<close>

record probe_batch =
  pb_done :: bool
  pb_probed :: nat
  pb_failures :: nat

definition eager_followup :: "string list \<Rightarrow> probe_batch \<Rightarrow> pyfloat option option" where
  "eager_followup targets b =
     (if \<not> pb_done b \<or> pb_probed b + pb_failures b = 0 then None
      else Some (if eager_probe_cap \<le> length targets then None else Some eager_followup_max_wait_s))"

definition eager_batch_done ::
    "pyfloat \<Rightarrow> 'a \<Rightarrow> string list \<Rightarrow> probe_batch \<Rightarrow> 'a refresher \<Rightarrow> 'a refresher" where
  "eager_batch_done now args targets b s =
     (case eager_followup targets b of None \<Rightarrow> s | Some w \<Rightarrow> request_refresh now args w s)"

section \<open>A refresh\<close>

definition carry_sweep_interval_s :: pyfloat where "carry_sweep_interval_s = 1800"

definition maybe_sweep_carry_overs ::
    "fs_env \<Rightarrow> pyfloat \<Rightarrow> verdict_store option \<Rightarrow> coverage_cache \<Rightarrow> verdict_store option \<times> coverage_cache" where
  "maybe_sweep_carry_overs env now store c =
     (case store of
        None \<Rightarrow> (None, c)
      | Some st \<Rightarrow>
          if now - cc_last_sweep c < carry_sweep_interval_s then (Some st, c)
          else (let ids = snapshot_path_ids (cc_cached c);
                    filled = (if ids = [] then st else snd (backfill_ids env ids st))
                in (Some (snd (sweep_carry_overs env ids now filled)), c\<lparr>cc_last_sweep := now\<rparr>)))"

text \<open>A whole refresh: the sweep, the build and the gate; the eager targets are those of a published
  build when there is a prober.\<close>

definition refresh_cache ::
    "pyfloat \<Rightarrow> bool \<Rightarrow> source_map \<Rightarrow> build_inputs \<Rightarrow> verdict_store option \<Rightarrow> coverage_cache
      \<Rightarrow> string list \<times> verdict_store option \<times> coverage_cache" where
  "refresh_cache done_at prober sources bi store c =
     (let (store1, c1) = maybe_sweep_carry_overs (bi_fs bi) (bi_now bi) store c;
          (items, store2) = build_coverage bi store1;
          (published, c2) = publish \<lparr>fb_at = done_at, fb_items = items, fb_sources = sources, fb_duration = done_at - bi_now bi\<rparr> c1
      in (if published \<and> prober then eager_probe_targets items eager_probe_cap else [], store2, c2))"

text \<open>The candidates in order, each once.\<close>

definition eager_candidates :: "coverage_item list \<Rightarrow> string list" where
  "eager_candidates items = List.map_filter eager_target items"

definition fresh_in_order :: "string list \<Rightarrow> string list" where
  "fresh_in_order xs = rev (remdups (rev xs))"

lemma fresh_in_order_snoc: "fresh_in_order (xs @ [x]) = (if x \<in> set xs then fresh_in_order xs else fresh_in_order xs @ [x])"
  by (simp add: fresh_in_order_def)

lemma set_fresh_in_order [simp]: "set (fresh_in_order xs) = set xs"
  by (simp add: fresh_in_order_def)

lemma fresh_in_order_prefix: "prefix (fresh_in_order xs) (fresh_in_order (xs @ ys))"
proof (induction ys rule: rev_induct)
  case (snoc y ys)
  show ?case
    unfolding append_assoc [symmetric] fresh_in_order_snoc [of "xs @ ys"] using snoc by (auto intro: prefix_order.trans)
qed simp

lemma eager_loop_takes:
  "0 < cap \<Longrightarrow> length (fresh_in_order done) < cap \<Longrightarrow>
   eager_loop cap items (fresh_in_order done) = take cap (fresh_in_order (done @ eager_candidates items))"
proof (induction items arbitrary: "done")
  case Nil
  then show ?case by (simp add: eager_candidates_def List.map_filter_simps)
next
  case (Cons it items)
  show ?case
  proof (cases "eager_target it")
    case None
    with Cons show ?thesis by (simp add: eager_candidates_def List.map_filter_simps)
  next
    case (Some c)
    have more: "eager_candidates (it # items) = c # eager_candidates items"
      by (simp add: eager_candidates_def List.map_filter_simps Some)
    show ?thesis
    proof (cases "c \<in> set done")
      case True
      then have same: "fresh_in_order (done @ [c]) = fresh_in_order done" by (simp add: fresh_in_order_snoc)
      with Cons.IH [of "done @ [c]"] Cons.prems True show ?thesis by (simp add: Some more)
    next
      case False
      then have new: "fresh_in_order (done @ [c]) = fresh_in_order done @ [c]" by (simp add: fresh_in_order_snoc)
      show ?thesis
      proof (cases "cap \<le> length (fresh_in_order done @ [c])")
        case True
        with Cons.prems have "length (fresh_in_order (done @ [c])) = cap" by (simp add: new)
        moreover obtain zs where "fresh_in_order ((done @ [c]) @ eager_candidates items) = fresh_in_order (done @ [c]) @ zs"
          using fresh_in_order_prefix [of "done @ [c]" "eager_candidates items"] by (auto elim: prefixE)
        ultimately have "take cap (fresh_in_order (done @ c # eager_candidates items)) = fresh_in_order done @ [c]"
          by (auto simp: new take_Cons')
        with True False show ?thesis by (simp add: Some more)
      next
        case False
        with Cons.IH [of "done @ [c]"] Cons.prems \<open>c \<notin> set done\<close> show ?thesis by (simp add: Some more new)
      qed
    qed
  qed
qed

text \<open>The prober is sent the first distinct files of the unprobed rows, as many as the cap allows.\<close>

lemma eager_targets_exact:
  "0 < cap \<Longrightarrow> eager_probe_targets items cap = take cap (fresh_in_order (eager_candidates items))"
  using eager_loop_takes [of cap "[]" items] by (simp add: eager_probe_targets_def fresh_in_order_def)

text \<open>Dismissing the mismatch of a file touches only its rows and is counted.\<close>

lemma clear_mismatch_idle: "it_file it \<noteq> Some path \<Longrightarrow> clear_mismatch path it = it"
  by (simp add: clear_mismatch_def)

lemma clear_mismatch_twice: "fst (clear_track_mismatch_for path (snd (clear_track_mismatch_for path c))) = 0"
  by (auto simp: clear_track_mismatch_for_def clear_mismatch_def filter_empty_conv split: option.split)

text \<open>The sweep runs at most once per interval and never without a verdict store.\<close>

lemma sweep_rate:
  assumes "now' - now < carry_sweep_interval_s"
    and "maybe_sweep_carry_overs env now (Some st) c = (store', c')" "\<not> now - cc_last_sweep c < carry_sweep_interval_s"
  shows "maybe_sweep_carry_overs env now' (Some st') c' = (Some st', c')"
  using assms by (auto simp: maybe_sweep_carry_overs_def Let_def)

end
