(* ===== verification/PendingOrder.thy ===== *)
theory PendingOrder
  imports PendingQueue
begin

text \<open>
  The order of the pending queue: what the feeder sees after an enqueue, a move, a
  promotion or a demotion, and the preservation of the store invariant by the reordering
  operations of \<open>PendingQueueStore\<close>.
\<close>

section \<open>The feeder order of a well-formed store\<close>

lemma feeder_key_less:
  "feeder_key a < feeder_key b \<longleftrightarrow>
     pj_priority b < pj_priority a \<or> (pj_priority a = pj_priority b \<and>
       (pj_position a < pj_position b \<or> (pj_position a = pj_position b \<and> pj_created_at a < pj_created_at b)))"
  by (auto simp: feeder_key_def)

lemma feeder_key_slot:
  assumes "feeder_key a \<le> feeder_key b" "slot a \<noteq> slot b"
  shows "pj_priority b < pj_priority a \<or> (pj_priority a = pj_priority b \<and> pj_position a < pj_position b)"
  using assms by (auto simp: feeder_key_def slot_def)

lemma slot_inj:
  "queue_wf st \<Longrightarrow> a \<in> set st \<Longrightarrow> b \<in> set st \<Longrightarrow> is_pending a \<Longrightarrow> is_pending b \<Longrightarrow> slot a = slot b \<Longrightarrow> a = b"
  by (auto simp: queue_wf_def distinct_map inj_on_def)

lemma feeder_key_inj: "queue_wf st \<Longrightarrow> inj_on feeder_key {j \<in> set st. is_pending j}"
  by (rule inj_onI) (auto intro: slot_inj simp: feeder_key_def slot_def)

lemma pending_list_alt: "pending_list st = sort_key feeder_key (filter is_pending st)"
  by (simp add: pending_list_def list_jobs_def is_pending_def [abs_def])

lemma set_pending_list [simp]: "set (pending_list st) = {j \<in> set st. is_pending j}"
  by (auto simp: pending_list_alt)

lemma sorted_pending_list [simp]: "sorted (map feeder_key (pending_list st))"
  by (simp add: pending_list_alt)

lemma mset_pending_list [simp]: "mset (pending_list st) = mset (filter is_pending st)"
  by (simp add: pending_list_alt)

lemma distinct_pending_ids: "queue_wf st \<Longrightarrow> distinct (map pj_id (pending_list st))"
  by (simp add: pending_list_alt distinct_map distinct_map_filterI queue_wf_def inj_on_def)

lemma pending_list_insert:
  assumes "queue_wf st'" "mset (filter is_pending st') = add_mset job (mset (as @ bs))"
    and "sorted (map feeder_key (as @ bs))"
    and "\<forall>a \<in> set as. feeder_key a \<le> feeder_key job" "\<forall>b \<in> set bs. feeder_key job \<le> feeder_key b"
  shows "pending_list st' = as @ job # bs"
  unfolding pending_list_alt
proof (rule sort_key_eqI)
  show "sorted (map feeder_key (as @ job # bs))" using assms(3-5) by (auto simp: sorted_append)
  show "inj_on feeder_key (set (filter is_pending st'))" using feeder_key_inj [OF assms(1)] by simp
  show "mset (filter is_pending st') = mset (as @ job # bs)" using assms(2) by simp
qed

definition others :: "string \<Rightarrow> queue_store \<Rightarrow> pending_job list" where
  "others jid st = filter (\<lambda>j. pj_id j \<noteq> jid) (pending_list st)"

lemma set_others: "set (others jid st) = {j \<in> set st. is_pending j \<and> pj_id j \<noteq> jid}"
  by (auto simp: others_def)

lemma sorted_others: "sorted (map feeder_key (others jid st))"
  unfolding others_def by (rule sorted_filter) simp

lemma mset_others: "mset (others jid st) = mset (filter (\<lambda>j. is_pending j \<and> pj_id j \<noteq> jid) st)"
  by (simp add: others_def filter_filter_mset)

lemma mset_update_pending:
  assumes "queue_wf st" "find_job jid st = Some j" "is_pending (g j)" 
  shows "mset (filter is_pending (update_rows jid g st)) = add_mset (g j) (mset (others jid st))"
proof -
  obtain as bs where *: "st = as @ j # bs" "pj_id j = jid" "\<forall>a \<in> set as \<union> set bs. pj_id a \<noteq> jid"
    "update_rows jid g st = as @ g j # bs"
    using row_split [of pj_id st jid j] assms(1,2)
    unfolding queue_wf_def find_job_def update_rows_def by blast
  have "filter (\<lambda>j. is_pending j \<and> pj_id j \<noteq> jid) as = filter is_pending as"
    "filter (\<lambda>j. is_pending j \<and> pj_id j \<noteq> jid) bs = filter is_pending bs"
    using *(3) by (auto intro: filter_cong)
  then show ?thesis using * assms(3) by (simp add: mset_others)
qed

text \<open>The bucket a move works on is the target's priority class of the other pending jobs.\<close>

lemma bucket_others:
  assumes "queue_wf st"
  shows "bucket p jid st = filter (\<lambda>j. pj_priority j = p) (others jid st)"
  unfolding bucket_def
proof (rule sort_key_eqI)
  let ?xs = "filter (\<lambda>j. is_pending j \<and> pj_priority j = p \<and> pj_id j \<noteq> jid) st"
  let ?ys = "filter (\<lambda>j. pj_priority j = p) (others jid st)"
  have "sorted (map feeder_key ?ys)" by (rule sorted_filter) (rule sorted_others)
  then have "sorted_wrt (\<lambda>x y. feeder_key x \<le> feeder_key y) ?ys" by (simp add: sorted_map)
  then have "sorted_wrt (\<lambda>x y. (pj_position x, pj_created_at x) \<le> (pj_position y, pj_created_at y)) ?ys"
    by (rule sorted_wrt_mono_rel [rotated]) (auto simp: feeder_key_def)
  then show "sorted (map (\<lambda>j. (pj_position j, pj_created_at j)) ?ys)" by (simp add: sorted_map)
  show "inj_on (\<lambda>j. (pj_position j, pj_created_at j)) (set ?xs)"
    by (rule inj_onI) (auto intro: slot_inj [OF assms] simp: slot_def)
  show "mset ?xs = mset ?ys"
    by (simp add: mset_others filter_filter_mset conj_ac)
qed

section \<open>The midpoint rule\<close>

lemma index_of_append:
  "pj_id t \<notin> pj_id ` set as \<Longrightarrow> index_of (pj_id t) (as @ t # bs) = Some (length as)"
  by (induction as) auto

lemma index_of_None: "index_of jid js = None \<longleftrightarrow> jid \<notin> pj_id ` set js"
  by (induction js) auto

lemma index_of_Some: "index_of jid js = Some i \<Longrightarrow> i < length js \<and> pj_id (js ! i) = jid"
  by (induction js arbitrary: i) (auto split: if_splits)

lemma move_position_split:
  assumes "ordered = as @ t # bs" "pj_id t \<notin> pj_id ` set as"
    and "sorted_wrt (\<lambda>x y. pj_position x < pj_position y) ordered"
  shows "(\<forall>a \<in> set as. pj_position a < move_position True t ordered)"
    and "move_position True t ordered < pj_position t"
    and "pj_position t < move_position False t ordered"
    and "\<forall>b \<in> set bs. move_position False t ordered < pj_position b"
proof -
  have idx: "index_of (pj_id t) ordered = Some (length as)" using assms index_of_append by simp
  have less: "\<forall>a \<in> set as. pj_position a < pj_position t" "\<forall>b \<in> set bs. pj_position t < pj_position b"
    using assms(1,3) by (auto simp: sorted_wrt_append)
  have T: "move_position True t ordered =
      (if as = [] then pj_position t - 1 else (pj_position (last as) + pj_position t) / 2)"
    using idx assms(1) by (auto simp: move_position_def last_conv_nth nth_append field_simps)
  have F: "move_position False t ordered =
      (if bs = [] then pj_position t + 1 else (pj_position t + pj_position (hd bs)) / 2)"
    using idx assms(1) by (auto simp: move_position_def nth_append hd_conv_nth field_simps)
  have last: "as \<noteq> [] \<Longrightarrow> a \<in> set as \<Longrightarrow> pj_position a \<le> pj_position (last as)" for a
    using assms(1,3) by (cases as rule: rev_cases) (auto simp: sorted_wrt_append)
  have hd: "bs \<noteq> [] \<Longrightarrow> b \<in> set bs \<Longrightarrow> pj_position (hd bs) \<le> pj_position b" for b
    using assms(1,3) by (cases bs) (auto simp: sorted_wrt_append)
  show "\<forall>a \<in> set as. pj_position a < move_position True t ordered"
  proof
    fix a assume a: "a \<in> set as"
    then have ne: "as \<noteq> []" by auto
    then have "pj_position a \<le> pj_position (last as)" "pj_position (last as) < pj_position t"
      using last [OF ne a] less(1) by auto
    then show "pj_position a < move_position True t ordered" using ne by (simp add: T field_simps)
  qed
  show "move_position True t ordered < pj_position t" using less by (auto simp: T field_simps)
  show "pj_position t < move_position False t ordered" using less by (auto simp: F field_simps)
  show "\<forall>b \<in> set bs. move_position False t ordered < pj_position b"
  proof
    fix b assume b: "b \<in> set bs"
    then have ne: "bs \<noteq> []" by auto
    then have "pj_position (hd bs) \<le> pj_position b" "pj_position t < pj_position (hd bs)"
      using hd [OF ne b] less(2) by auto
    then show "move_position False t ordered < pj_position b" using ne by (simp add: F field_simps)
  qed
qed

lemma move_position_fresh:
  assumes "sorted_wrt (\<lambda>x y. pj_position x < pj_position y) ordered" "distinct (map pj_id ordered)"
    and "pj_id target \<in> pj_id ` set ordered \<Longrightarrow> target \<in> set ordered"
    and "k \<in> set ordered"
  shows "pj_position k \<noteq> move_position before target ordered"
proof (cases "index_of (pj_id target) ordered")
  case None
  from assms(4) have ne: "ordered \<noteq> []" by auto
  have "pj_position k \<le> pj_position (last ordered)"
    using assms(1,4) ne by (cases ordered rule: rev_cases) (auto simp: sorted_wrt_append)
  then show ?thesis using None ne by (simp add: move_position_def)
next
  case (Some i)
  then have "target \<in> set ordered" using assms(3) index_of_None [of "pj_id target" ordered] by auto
  then obtain as bs where o: "ordered = as @ target # bs" by (auto dest: split_list)
  then have "pj_id target \<notin> pj_id ` set as" using assms(2) by auto
  from move_position_split [OF o this assms(1)] o assms(1,4) show ?thesis
    by (cases before) (auto simp: sorted_wrt_append)
qed

section \<open>Reordering keeps the invariant\<close>

lemma queue_wf_reslot:
  assumes "queue_wf st" "find_job jid st = Some j"
    and "is_pending j \<Longrightarrow> \<forall>k \<in> set (bucket p jid st). pj_position k \<noteq> q"
  shows "queue_wf (update_rows jid (\<lambda>j. j\<lparr>pj_priority := p, pj_position := q\<rparr>) st)"
proof (rule queue_wf_update [OF assms(1,2)])
  assume "is_pending (j\<lparr>pj_priority := p, pj_position := q\<rparr>)"
  then have "is_pending j" by (simp add: is_pending_def)
  with assms(3) show "slot (j\<lparr>pj_priority := p, pj_position := q\<rparr>)
      \<notin> slot ` {k \<in> set st. is_pending k \<and> pj_id k \<noteq> jid}"
    using bucket_facts(1) [OF assms(1)] by (auto simp: slot_def)
qed (simp_all add: active_def)

lemma move_job_unfold:
  assumes "move_job jid before_id after_id st = Inr (job', st')"
  obtains job target q where "find_job jid st = Some job"
    "find_job (or_empty (if truthy_str before_id then before_id else after_id)) st = Some target"
    "q = move_position (truthy_str before_id) target (bucket (pj_priority target) jid st)"
    "job' = job\<lparr>pj_priority := pj_priority target, pj_position := q\<rparr>"
    "st' = update_rows jid (\<lambda>j. j\<lparr>pj_priority := pj_priority target, pj_position := q\<rparr>) st"
proof -
  from assms obtain job target where
    1: "find_job jid st = Some job"
      "find_job (or_empty (if truthy_str before_id then before_id else after_id)) st = Some target"
    by (auto simp: move_job_def Let_def require_job_Inr split: if_splits sum.splits)
  define q where "q = move_position (truthy_str before_id) target (bucket (pj_priority target) jid st)"
  let ?g = "\<lambda>j. j\<lparr>pj_priority := pj_priority target, pj_position := q\<rparr>"
  have "find_job jid (update_rows jid ?g st) = Some (?g job)"
    by (rule find_update_rows) (use 1 in auto)
  then have "job' = ?g job" "st' = update_rows jid ?g st"
    using assms 1 by (auto simp: move_job_def Let_def require_job_def q_def split: if_splits)
  then show thesis using that 1 q_def by blast
qed

lemma queue_wf_move:
  assumes "queue_wf st" "move_job jid b a st = Inr (job', st')"
  shows "queue_wf st'"
proof (rule move_job_unfold [OF assms(2)])
  fix job target q
  assume f: "find_job jid st = Some job"
    and t: "find_job (or_empty (if truthy_str b then b else a)) st = Some target"
    and q: "q = move_position (truthy_str b) target (bucket (pj_priority target) jid st)"
    and st': "st' = update_rows jid (\<lambda>j. j\<lparr>pj_priority := pj_priority target, pj_position := q\<rparr>) st"
  have "target \<in> set (bucket (pj_priority target) jid st)"
    if "pj_id target \<in> pj_id ` set (bucket (pj_priority target) jid st)"
  proof -
    from that obtain k where "k \<in> set (bucket (pj_priority target) jid st)" "pj_id k = pj_id target" by auto
    moreover have "k \<in> set st" using calculation bucket_facts(1) [OF assms(1)] by auto
    then have "k = target"
      using calculation(2) find_job_Some [OF t] assms(1) by (auto simp: queue_wf_def distinct_map inj_on_def)
    ultimately show ?thesis by simp
  qed
  then show "queue_wf st'" unfolding st'
    using move_position_fresh [OF bucket_facts(2,3) [OF assms(1)]] q
    by (intro queue_wf_reslot [OF assms(1) f]) blast
qed


lemma reposition_unfold:
  assumes "find_job jid st = Some job"
  defines "rivals \<equiv> map pj_position
      (filter (\<lambda>j. is_pending j \<and> pj_priority j = pj_priority job \<and> pj_id j \<noteq> jid) st)"
  obtains q where "reposition jid to_top st =
      Inr (job\<lparr>pj_position := q\<rparr>, update_rows jid (\<lambda>j. j\<lparr>pj_position := q\<rparr>) st)"
    "rivals = [] \<Longrightarrow> q = pj_position job"
    "\<forall>r \<in> set rivals. if to_top then q < r else r < q"
proof -
  define q where "q = (case (sql_min rivals, sql_max rivals) of
      (Some lo, Some hi) \<Rightarrow> (if to_top then lo - 1 else hi + 1) | _ \<Rightarrow> pj_position job)"
  have "find_job jid (update_rows jid (\<lambda>j. j\<lparr>pj_position := q\<rparr>) st) = Some (job\<lparr>pj_position := q\<rparr>)"
    by (rule find_update_rows) (use assms in auto)
  then have *: "reposition jid to_top st =
      Inr (job\<lparr>pj_position := q\<rparr>, update_rows jid (\<lambda>j. j\<lparr>pj_position := q\<rparr>) st)"
    by (simp add: reposition_def require_job_def assms(1) rivals_def [symmetric] Let_def q_def)
  have "if to_top then q < r else r < q" if "r \<in> set rivals" for r
  proof -
    from that have "sql_min rivals \<noteq> None" "sql_max rivals \<noteq> None" by auto
    then obtain lo hi where "sql_min rivals = Some lo" "sql_max rivals = Some hi" by blast
    with sql_min_le sql_max_ge that show ?thesis by (fastforce simp: q_def)
  qed
  then show thesis by (intro that [OF *]) (auto simp: q_def)
qed

lemma reposition_missing: "find_job jid st = None \<Longrightarrow> reposition jid to_top st = Inl (KeyError jid)"
  by (simp add: reposition_def require_job_def)

lemma queue_wf_reposition:
  assumes "queue_wf st" "reposition jid to_top st = Inr (job', st')"
  shows "queue_wf st'"
proof (cases "find_job jid st")
  case None
  then show ?thesis using assms reposition_missing by simp
next
  case (Some job)
  show ?thesis
  proof (rule reposition_unfold [OF Some, of to_top])
    fix q
    assume r: "reposition jid to_top st =
        Inr (job\<lparr>pj_position := q\<rparr>, update_rows jid (\<lambda>j. j\<lparr>pj_position := q\<rparr>) st)"
      and q: "\<forall>r \<in> set (map pj_position
        (filter (\<lambda>j. is_pending j \<and> pj_priority j = pj_priority job \<and> pj_id j \<noteq> jid) st)).
          if to_top then q < r else r < q"
    have "slot (job\<lparr>pj_position := q\<rparr>) \<notin> slot ` {k \<in> set st. is_pending k \<and> pj_id k \<noteq> jid}"
      using q by (auto simp: slot_def split: if_splits)
    then have "queue_wf (update_rows jid (\<lambda>j. j\<lparr>pj_position := q\<rparr>) st)"
      by (intro queue_wf_update [OF assms(1) Some]) (simp_all add: active_def)
    then show ?thesis using assms(2) r by simp
  qed
qed

section \<open>Where an operation puts a job\<close>

fun place :: "bool \<Rightarrow> string \<Rightarrow> pending_job \<Rightarrow> pending_job list \<Rightarrow> pending_job list" where
  "place before tid j [] = []"
| "place before tid j (x # xs) =
     (if pj_id x = tid then (if before then j # x # xs else x # j # xs) else x # place before tid j xs)"

lemma place_split:
  "pj_id t \<notin> pj_id ` set as \<Longrightarrow>
     place before (pj_id t) j (as @ t # bs) = (if before then as @ j # t # bs else as @ t # j # bs)"
  by (induction as) auto

lemma others_split:
  assumes "queue_wf st" "find_job tid st = Some t" "is_pending t" "tid \<noteq> jid"
  shows "\<exists>as bs. others jid st = as @ t # bs \<and> pj_id t = tid \<and> tid \<notin> pj_id ` (set as \<union> set bs)"
proof -
  have t: "t \<in> set (others jid st)" "pj_id t = tid"
    using find_job_Some [OF assms(2)] assms(3,4) by (auto simp: set_others)
  then obtain as bs where o: "others jid st = as @ t # bs" by (auto dest: split_list)
  have "distinct (map pj_id (others jid st))"
    unfolding others_def by (rule distinct_map_filterI) (rule distinct_pending_ids [OF assms(1)])
  with o t(2) show ?thesis by auto
qed

text \<open>The new key fits between the target and its neighbour on the requested side.\<close>

lemma moved_key_fits:
  assumes wf: "queue_wf st" and o: "others jid st = as @ t # bs" and nin: "pj_id t \<notin> pj_id ` set as"
    and j: "pj_priority j = pj_priority t"
      "pj_position j = move_position before t (bucket (pj_priority t) jid st)"
  shows "before \<Longrightarrow> (\<forall>a \<in> set as. feeder_key a \<le> feeder_key j) \<and> (\<forall>b \<in> set (t # bs). feeder_key j \<le> feeder_key b)"
    and "\<not> before \<Longrightarrow> (\<forall>a \<in> set (as @ [t]). feeder_key a \<le> feeder_key j) \<and> (\<forall>b \<in> set bs. feeder_key j \<le> feeder_key b)"
proof -
  let ?p = "pj_priority t"
  let ?as = "filter (\<lambda>k. pj_priority k = ?p) as" and ?bs = "filter (\<lambda>k. pj_priority k = ?p) bs"
  have b: "bucket ?p jid st = ?as @ t # ?bs" by (simp add: bucket_others [OF wf] o)
  have nin': "pj_id t \<notin> pj_id ` set ?as" using nin by auto
  note fit = move_position_split [OF b nin' bucket_facts(2) [OF wf]]
  have sorted: "sorted_wrt (\<lambda>x y. feeder_key x \<le> feeder_key y) (as @ t # bs)"
    using sorted_others [of jid st] by (simp only: o sorted_map)
  have le_t: "\<forall>a \<in> set as. feeder_key a \<le> feeder_key t" and t_le: "\<forall>b \<in> set bs. feeder_key t \<le> feeder_key b"
    using sorted by (auto simp: sorted_wrt_append)
  show "(\<forall>a \<in> set as. feeder_key a \<le> feeder_key j) \<and> (\<forall>b \<in> set (t # bs). feeder_key j \<le> feeder_key b)" if before
  proof -
    have jt: "feeder_key j \<le> feeder_key t" using fit(2) j that by (auto simp: feeder_key_def)
    have "feeder_key a \<le> feeder_key j" if a: "a \<in> set as" for a
    proof (cases "pj_priority a = ?p")
      case True
      then show ?thesis using fit(1) a j \<open>before\<close> by (auto simp: feeder_key_def)
    next
      case False
      then show ?thesis using le_t a j by (auto simp: feeder_key_def)
    qed
    then show ?thesis using jt t_le by (auto intro: order_trans)
  qed
  show "(\<forall>a \<in> set (as @ [t]). feeder_key a \<le> feeder_key j) \<and> (\<forall>b \<in> set bs. feeder_key j \<le> feeder_key b)" if "\<not> before"
  proof -
    have tj: "feeder_key t \<le> feeder_key j" using fit(3) j that by (auto simp: feeder_key_def)
    have "feeder_key j \<le> feeder_key b" if b: "b \<in> set bs" for b
    proof (cases "pj_priority b = ?p")
      case True
      then show ?thesis using fit(4) b j \<open>\<not> before\<close> by (auto simp: feeder_key_def)
    next
      case False
      then show ?thesis using t_le b j by (auto simp: feeder_key_def)
    qed
    then show ?thesis using tj le_t by (auto intro: order_trans)
  qed
qed

lemma move_job_result:
  assumes "find_job jid st = Some job" "find_job tid st = Some t" "tid \<noteq> []"
    and q_def: "q = move_position before t (bucket (pj_priority t) jid st)"
  shows "move_job jid (if before then Some tid else None) (if before then None else Some tid) st =
    Inr (job\<lparr>pj_priority := pj_priority t, pj_position := q\<rparr>,
         update_rows jid (\<lambda>j. j\<lparr>pj_priority := pj_priority t, pj_position := q\<rparr>) st)"
proof -
  let ?g = "\<lambda>j. j\<lparr>pj_priority := pj_priority t, pj_position := q\<rparr>"
  have "find_job jid (update_rows jid ?g st) = Some (?g job)"
    by (rule find_update_rows) (use assms in auto)
  then show ?thesis using assms(1-3)
    by (cases before) (simp_all add: move_job_def require_job_def truthy_str_def or_empty_def Let_def q_def)
qed

lemma move_job_places:
  assumes wf: "queue_wf st" and j: "find_job jid st = Some job" "is_pending job"
    and t: "find_job tid st = Some t" "is_pending t" and ne: "tid \<noteq> jid" "tid \<noteq> []"
  shows "\<exists>job' st'. move_job jid (if before then Some tid else None) (if before then None else Some tid) st = Inr (job', st')
    \<and> pj_id job' = jid \<and> pj_priority job' = pj_priority t
    \<and> pending_list st' = place before tid job' (others jid st) \<and> queue_wf st'"
proof -
  define q where "q = move_position before t (bucket (pj_priority t) jid st)"
  let ?g = "\<lambda>j. j\<lparr>pj_priority := pj_priority t, pj_position := q\<rparr>"
  let ?st = "update_rows jid ?g st"
  note res = move_job_result [OF j(1) t(1) ne(2) q_def]
  have wf': "queue_wf ?st" by (rule queue_wf_move [OF wf res])
  obtain as bs where o: "others jid st = as @ t # bs" "pj_id t = tid" and nin: "tid \<notin> pj_id ` (set as \<union> set bs)"
    using others_split [OF wf t ne(1)] by blast
  have gj: "is_pending (?g job)" using j(2) by (simp add: is_pending_def)
  have ms: "mset (filter is_pending ?st) = add_mset (?g job) (mset (as @ t # bs))"
    using mset_update_pending [where g = ?g, OF wf j(1) gj] o by simp
  have so: "sorted (map feeder_key (as @ t # bs))" using sorted_others [of jid st] o by simp
  have nin': "pj_id t \<notin> pj_id ` set as" using nin o(2) by auto
  have pj: "pj_priority (?g job) = pj_priority t"
    "pj_position (?g job) = move_position before t (bucket (pj_priority t) jid st)"
    by (simp_all add: q_def)
  note fits = moved_key_fits [OF wf o(1) nin' pj]
  have "pending_list ?st = (if before then as @ ?g job # t # bs else as @ t # ?g job # bs)"
  proof (cases before)
    case True
    with fits(1) pending_list_insert [OF wf' ms so] show ?thesis by simp
  next
    case False
    with fits(2) pending_list_insert [OF wf', of "?g job" "as @ [t]" bs] ms so show ?thesis by simp
  qed
  then have "pending_list ?st = place before tid (?g job) (others jid st)"
    using place_split [OF nin', of before "?g job" bs] o by simp
  then show ?thesis using res wf' find_job_Some [OF j(1)] by auto
qed


lemma filter_pending_append: "is_pending j \<Longrightarrow> filter is_pending (st @ [j]) = filter is_pending st @ [j]"
  by simp

lemma sorted_priority_split:
  "sorted_wrt (\<lambda>x y. feeder_key x \<le> feeder_key y) xs \<Longrightarrow>
     filter (\<lambda>k. p < pj_priority k) xs @ filter (\<lambda>k. \<not> p < pj_priority k) xs = xs"
proof (induction xs)
  case (Cons x xs)
  then show ?case
  proof (cases "p < pj_priority x")
    case False
    with Cons.prems have "\<forall>k \<in> set xs. \<not> p < pj_priority k" by (auto simp: feeder_key_def)
    then have "filter (\<lambda>k. p < pj_priority k) xs = []" by (simp add: filter_empty_conv)
    moreover from this Cons have "filter (\<lambda>k. \<not> p < pj_priority k) xs = xs" by simp
    ultimately show ?thesis using False by simp
  qed simp
qed simp

lemma sorted_pending_wrt: "sorted_wrt (\<lambda>x y. feeder_key x \<le> feeder_key y) (pending_list st)"
  using sorted_pending_list [of st] by (simp only: sorted_map)

lemma sorted_others_wrt: "sorted_wrt (\<lambda>x y. feeder_key x \<le> feeder_key y) (others jid st)"
  using sorted_others [of jid st] by (simp only: sorted_map)

lemma enqueue_places:
  assumes wf: "queue_wf st" and fresh: "i \<notin> pj_id ` set st"
    and new: "\<forall>k \<in> set st. active k \<longrightarrow> pj_path k \<noteq> path"
    and e: "enqueue i t path src p ovr tsk sid eid ign byp mid st = (j, st')"
  shows "pending_list st' = filter (\<lambda>k. source_priority p src - 1 < pj_priority k) (pending_list st) @ j #
      filter (\<lambda>k. \<not> source_priority p src - 1 < pj_priority k) (pending_list st)"
proof (cases rule: enqueue_cases [of path st i t src p ovr tsk sid eid ign byp mid])
  case (dup k)
  then show ?thesis using new find_SomeD [OF dup(1)] by auto
next
  case (new k)
  let ?p = "source_priority p src"
  let ?as = "filter (\<lambda>k. ?p - 1 < pj_priority k) (pending_list st)"
  let ?bs = "filter (\<lambda>k. \<not> ?p - 1 < pj_priority k) (pending_list st)"
  have jk: "j = k" "st' = st @ [j]" using new(2) e by auto
  have split: "?as @ ?bs = pending_list st" by (rule sorted_priority_split) (rule sorted_pending_wrt)
  have "queue_wf st'" using queue_wf_enqueue [OF wf fresh] e by (metis snd_conv)
  moreover have "mset (filter is_pending st') = add_mset j (mset (?as @ ?bs))"
    unfolding split jk using new(5) jk by simp
  moreover have "sorted (map feeder_key (?as @ ?bs))" unfolding split by simp
  moreover have "\<forall>a \<in> set ?as. feeder_key a \<le> feeder_key j"
  proof
    fix a assume "a \<in> set ?as"
    then have a: "a \<in> set st" "is_pending a" "?p \<le> pj_priority a" by auto
    show "feeder_key a \<le> feeder_key j"
      using next_position_fresh [OF a(1,2), of ?p] a(3) new jk by (auto simp: feeder_key_def)
  qed
  moreover have "\<forall>b \<in> set ?bs. feeder_key j \<le> feeder_key b"
    using new jk by (auto simp: feeder_key_def)
  ultimately show ?thesis by (rule pending_list_insert)
qed

lemma reposition_places:
  assumes wf: "queue_wf st" and j: "find_job jid st = Some job" "is_pending job"
  shows "\<exists>job' st'. reposition jid to_top st = Inr (job', st') \<and> pj_id job' = jid
    \<and> pj_priority job' = pj_priority job
    \<and> pending_list st' =
        (let p = (if to_top then pj_priority job else pj_priority job - 1) in
         filter (\<lambda>k. p < pj_priority k) (others jid st) @ job' # filter (\<lambda>k. \<not> p < pj_priority k) (others jid st))"
proof (rule reposition_unfold [OF j(1), of to_top])
  fix q
  assume r: "reposition jid to_top st = Inr (job\<lparr>pj_position := q\<rparr>, update_rows jid (\<lambda>j. j\<lparr>pj_position := q\<rparr>) st)"
    and q: "\<forall>r \<in> set (map pj_position
        (filter (\<lambda>j. is_pending j \<and> pj_priority j = pj_priority job \<and> pj_id j \<noteq> jid) st)).
          if to_top then q < r else r < q"
  let ?p = "if to_top then pj_priority job else pj_priority job - 1"
  let ?as = "filter (\<lambda>k. ?p < pj_priority k) (others jid st)"
  let ?bs = "filter (\<lambda>k. \<not> ?p < pj_priority k) (others jid st)"
  let ?st = "update_rows jid (\<lambda>j. j\<lparr>pj_position := q\<rparr>) st" and ?j = "job\<lparr>pj_position := q\<rparr>"
  have split: "?as @ ?bs = others jid st" by (rule sorted_priority_split) (rule sorted_others_wrt)
  have wf': "queue_wf ?st" by (rule queue_wf_reposition [OF wf r])
  have gj: "is_pending ?j" using j(2) by (simp add: is_pending_def)
  have ms: "mset (filter is_pending ?st) = add_mset ?j (mset (?as @ ?bs))"
    unfolding split using mset_update_pending [where g = "\<lambda>j. j\<lparr>pj_position := q\<rparr>", OF wf j(1) gj] .
  have so: "sorted (map feeder_key (?as @ ?bs))" unfolding split by (rule sorted_others)
  have qk: "if to_top then q < pj_position k else pj_position k < q"
    if "k \<in> set (others jid st)" "pj_priority k = pj_priority job" for k
    using q that by (auto simp: set_others)
  have "\<forall>a \<in> set ?as. feeder_key a \<le> feeder_key ?j"
  proof
    fix a assume "a \<in> set ?as"
    then show "feeder_key a \<le> feeder_key ?j" using qk [of a] by (auto simp: feeder_key_def split: if_splits)
  qed
  moreover have "\<forall>b \<in> set ?bs. feeder_key ?j \<le> feeder_key b"
  proof
    fix b assume "b \<in> set ?bs"
    then show "feeder_key ?j \<le> feeder_key b" using qk [of b] by (auto simp: feeder_key_def split: if_splits)
  qed
  ultimately have "pending_list ?st = ?as @ ?j # ?bs" by (rule pending_list_insert [OF wf' ms so])
  then show ?thesis using r find_job_Some [OF j(1)] by (simp add: Let_def)
qed

section \<open>Reachable stores\<close>

text \<open>One step of the store: the operations as the producers, the feeder and the queue page
  use them. Only PENDING rows are handed to subgen or failed (the feeder takes them from
  \<open>next_pending\<close>), and a new row gets a fresh \<open>uuid4\<close>.\<close>

inductive queue_step :: "library list \<Rightarrow> queue_store \<Rightarrow> queue_store \<Rightarrow> bool" for libs where
  step_enqueue: "i \<notin> pj_id ` set st \<Longrightarrow>
     queue_step libs st (snd (enqueue i t path src p ovr tsk sid eid ign byp mid st))"
| step_submit: "find_job jid st = Some j \<Longrightarrow> is_pending j \<Longrightarrow> queue_step libs st (snd (mark_submitted jid t st))"
| step_fail: "find_job jid st = Some j \<Longrightarrow> is_pending j \<Longrightarrow> queue_step libs st (snd (set_status jid ERROR e None st))"
| step_remove: "queue_step libs st (snd (remove_job jid st))"
| step_skipped: "queue_step libs st (snd (resolve_skipped path st))"
| step_orphans: "queue_step libs st (snd (resolve_orphaned_submitted libs live age t st))"
| step_clear: "queue_step libs st (snd (clear_jobs status st))"
| step_reposition: "reposition jid to_top st = Inr (j, st') \<Longrightarrow> queue_step libs st st'"
| step_move: "move_job jid b a st = Inr (j, st') \<Longrightarrow> queue_step libs st st'"

inductive queue_reachable :: "library list \<Rightarrow> queue_store \<Rightarrow> bool" for libs where
  reach_empty: "queue_reachable libs []"
| reach_step: "queue_reachable libs st \<Longrightarrow> queue_step libs st st' \<Longrightarrow> queue_reachable libs st'"

inductive_cases queue_reachableE: "queue_reachable libs st"

lemma queue_step_wf: "queue_step libs st st' \<Longrightarrow> queue_wf st \<Longrightarrow> queue_wf st'"
proof (induction rule: queue_step.induct)
  case (step_enqueue i st)
  then show ?case by (intro queue_wf_enqueue)
next
  case (step_submit jid st j t)
  then show ?case unfolding mark_submitted_def
    by (intro queue_wf_set_status) (auto intro: pending_active)
next
  case (step_fail jid st j e)
  then show ?case by (intro queue_wf_set_status) auto
next
  case (step_orphans st)
  then show ?case by (simp add: resolve_orphaned_submitted_def orphan_loop_wf)
next
  case (step_clear st status)
  then show ?case by (cases status) (auto simp: clear_jobs_def Let_def queue_wf_def [of "[]"])
next
  case (step_reposition jid to_top st j st')
  then show ?case by (blast intro: queue_wf_reposition)
next
  case (step_move jid b a st j st')
  then show ?case by (blast intro: queue_wf_move)
qed (auto simp: remove_job_def resolve_skipped_def Let_def)

lemma queue_reachable_wf: "queue_reachable libs st \<Longrightarrow> queue_wf st"
  by (induction rule: queue_reachable.induct) (auto simp: queue_wf_def [of "[]"] intro: queue_step_wf)


section \<open>Properties\<close>

definition demo_queue :: queue_store where
  "demo_queue =
     snd (enqueue ''c'' 3 ''TV/c.mkv'' ''gaps'' None None None None None False False None
       (snd (enqueue ''b'' 2 ''TV/b.mkv'' ''gaps'' None None None None None False False None
         (snd (enqueue ''a'' 1 ''TV/a.mkv'' ''manual'' None None None None None False False None [])))))"

lemmas enqueue_eval = enqueue_def source_priority_def priority_by_source_def next_position_def
  is_pending_def active_def default_priority_def Let_def

lemma demo_queue_eval:
  "map pj_id demo_queue = [''a'', ''b'', ''c'']" "map pj_path demo_queue = [''TV/a.mkv'', ''TV/b.mkv'', ''TV/c.mkv'']"
  "map pj_priority demo_queue = [2, 1, 1]" "map pj_position demo_queue = [0, 0, 1]"
  "map pj_status demo_queue = [PENDING, PENDING, PENDING]" "length demo_queue = 3"
  by (simp_all add: demo_queue_def enqueue_eval)

lemma demo_queue_wf: "queue_wf demo_queue"
  by (simp add: queue_wf_def demo_queue_def enqueue_eval slot_def)



text \<open>Enqueueing a path that is already pending or submitted returns that row and changes
  nothing; any other path is appended to the end of its priority bucket: the feeder order
  becomes the jobs of at least that priority, the new job, the jobs of lower priority.\<close>

theorem enqueue_order:
  assumes "queue_wf st" and "i \<notin> pj_id ` set st"
    and "enqueue i t path src p ovr tsk sid eid ign byp mid st = (j, st')"
  shows "if path \<in> active_paths st
    then st' = st \<and> j \<in> set st \<and> active j \<and> pj_path j = path
    else pj_path j = path \<and> pj_priority j = source_priority p src \<and> is_pending j
      \<and> pending_list st' =
          filter (\<lambda>k. source_priority p src \<le> pj_priority k) (pending_list st) @ j #
          filter (\<lambda>k. pj_priority k < source_priority p src) (pending_list st)"
proof (cases rule: enqueue_cases [of path st i t src p ovr tsk sid eid ign byp mid])
  case (dup k)
  then show ?thesis using assms(3) find_SomeD [OF dup(1)] by (auto simp: active_paths_def)
next
  case (new k)
  then have k: "k = j" using assms(3) by simp
  have lt: "(source_priority p src - 1 < q) = (source_priority p src \<le> q)" for q by auto
  from new(1) have "path \<notin> active_paths st" by (auto simp: active_paths_def)
  then show ?thesis
    using enqueue_places [OF assms(1,2) new(1) assms(3)] new(4-6) k by (simp add: lt not_le)
qed

theorem enqueue_order_witness:
  "\<exists>j st'. enqueue ''d'' 4 ''TV/d.mkv'' ''auto'' None None None None None False False None demo_queue = (j, st')
    \<and> map pj_id (pending_list st') = [''a'', ''b'', ''c'', ''d'']"
proof -
  obtain j st' where e: "enqueue ''d'' 4 ''TV/d.mkv'' ''auto'' None None None None None False False None demo_queue = (j, st')"
    by force
  have "''d'' \<notin> pj_id ` set demo_queue" by (simp add: demo_queue_def enqueue_eval)
  note order = enqueue_order [OF demo_queue_wf this e]
  have "map pj_id (pending_list st') = [''a'', ''b'', ''c'', ''d'']"
    using order e by (auto simp: demo_queue_def enqueue_eval pending_list_alt active_paths_def feeder_key_def)
  with e show ?thesis by (intro exI conjI)
qed

text \<open>Moving a pending job before or after another pending job adopts the target's
  priority, puts the job immediately on the requested side of the target in the feeder
  order, leaves the relative order of all other jobs as it was, and keeps the store
  well formed.\<close>

theorem move_job_order:
  assumes "queue_wf st" and "find_job jid st = Some job" and "is_pending job"
    and "find_job tid st = Some target" and "is_pending target" and "tid \<noteq> jid" and "tid \<noteq> []"
  shows "\<exists>job' st'. move_job jid (if before then Some tid else None) (if before then None else Some tid) st = Inr (job', st')
    \<and> pj_id job' = jid \<and> pj_priority job' = pj_priority target
    \<and> pending_list st' = place before tid job' (others jid st) \<and> queue_wf st'"
  using assms by (rule move_job_places)

theorem move_job_order_witness:
  "\<exists>job' st'. move_job ''c'' (Some ''a'') None demo_queue = Inr (job', st')
    \<and> pj_priority job' = 2 \<and> map pj_id (pending_list st') = [''c'', ''a'', ''b'']"
proof -
  obtain c a where c: "find_job ''c'' demo_queue = Some c" "is_pending c"
    and a: "find_job ''a'' demo_queue = Some a" "is_pending a" "pj_priority a = 2"
    by (simp add: demo_queue_def enqueue_eval find_job_def row_find_def)
  from move_job_order [OF demo_queue_wf c a(1,2), of True] a(3)
  obtain job' st' where *: "move_job ''c'' (Some ''a'') None demo_queue = Inr (job', st')"
    "pj_id job' = ''c''" "pj_priority job' = 2" "pending_list st' = place True ''a'' job' (others ''c'' demo_queue)"
    by auto
  have "map pj_id (pending_list st') = [''c'', ''a'', ''b'']"
    using *(2,4) by (simp add: others_def pending_list_alt demo_queue_def enqueue_eval feeder_key_def)
  with * show ?thesis by auto
qed

text \<open>A one-step move of a pending job exchanges it with its neighbour in the feeder order
  (across bucket boundaries too), and at the end of the list it changes nothing.\<close>

theorem move_step_swaps:
  assumes "queue_wf st" and "pending_list st = xs @ a # b # ys" and "pj_id a \<noteq> []" and "pj_id b \<noteq> []"
  shows "(\<exists>b' st'. move_step (pj_id b) True st = Inr (b', st') \<and> pj_id b' = pj_id b
            \<and> pending_list st' = xs @ b' # a # ys)
       \<and> (\<exists>a' st'. move_step (pj_id a) False st = Inr (a', st') \<and> pj_id a' = pj_id a
            \<and> pending_list st' = xs @ b # a' # ys)
       \<and> (xs = [] \<longrightarrow> move_step (pj_id a) True st = Inr (a, st))
       \<and> (ys = [] \<longrightarrow> move_step (pj_id b) False st = Inr (b, st))"
proof -
  note P = assms(2)
  have d: "distinct (map pj_id (xs @ a # b # ys))" using distinct_pending_ids [OF assms(1)] P by simp
  have ids: "pj_id a \<notin> pj_id ` set xs" "pj_id b \<notin> pj_id ` set (xs @ [a])" "pj_id a \<noteq> pj_id b"
    using d by auto
  have in_st: "a \<in> set st" "is_pending a" "b \<in> set st" "is_pending b"
    using set_pending_list [of st] P by auto
  have find: "find_job (pj_id a) st = Some a" "find_job (pj_id b) st = Some b"
    using in_st assms(1) by (auto intro: find_job_in simp: queue_wf_def)
  have ia: "index_of (pj_id a) (pending_list st) = Some (length xs)"
    unfolding P by (rule index_of_append) (rule ids)
  have ib: "index_of (pj_id b) (pending_list st) = Some (Suc (length xs))"
    using index_of_append [of b "xs @ [a]" ys] ids(2) P by simp
  have keep: "filter (\<lambda>j. pj_id j \<noteq> i) zs = zs" if "i \<notin> pj_id ` set zs" for i zs
    using that by (intro filter_True) auto
  have oth: "others (pj_id b) st = xs @ a # ys" "others (pj_id a) st = xs @ b # ys"
    using d by (auto simp: others_def P keep)
  have up: "\<exists>b' st'. move_step (pj_id b) True st = Inr (b', st') \<and> pj_id b' = pj_id b
      \<and> pending_list st' = xs @ b' # a # ys"
    using move_job_places [OF assms(1) find(2) in_st(4) find(1) in_st(2) ids(3) assms(3), of True]
      place_split [of a xs True _ ys] ids(1) by (auto simp: move_step_def ib [unfolded P] oth P nth_append Let_def)
  moreover have "\<exists>a' st'. move_step (pj_id a) False st = Inr (a', st') \<and> pj_id a' = pj_id a
      \<and> pending_list st' = xs @ b # a' # ys"
    using move_job_places [OF assms(1) find(1) in_st(2) find(2) in_st(4) ids(3) [symmetric] assms(4), of False]
      place_split [of b xs False _ ys] ids(2) by (auto simp: move_step_def ia [unfolded P] oth P nth_append Let_def)
  moreover have "xs = [] \<Longrightarrow> move_step (pj_id a) True st = Inr (a, st)"
    using ia by (simp add: move_step_def P)
  moreover have "ys = [] \<Longrightarrow> move_step (pj_id b) False st = Inr (b, st)"
    using index_of_append [of b "xs @ [a]" "[]"] ids(2) by (simp add: move_step_def P nth_append)
  ultimately show ?thesis by blast
qed

theorem move_step_swaps_witness:
  "\<exists>b' st'. move_step ''b'' True demo_queue = Inr (b', st') \<and> map pj_id (pending_list st') = [''b'', ''a'', ''c'']"
proof -
  obtain a b c where abc: "pending_list demo_queue = [] @ a # b # [c]"
    "pj_id a = ''a''" "pj_id b = ''b''" "pj_id c = ''c''"
    by (simp add: demo_queue_def enqueue_eval pending_list_alt feeder_key_def)
  with move_step_swaps [OF demo_queue_wf abc(1)] show ?thesis by auto
qed

text \<open>Promoting a pending job makes it the first of its priority bucket, demoting it the
  last; the other jobs keep their order and an unknown id raises \<open>KeyError\<close>.\<close>

theorem promote_demote_order:
  assumes "queue_wf st" and "find_job jid st = Some job" and "is_pending job"
  shows "(\<exists>job' st'. promote jid st = Inr (job', st') \<and> pj_id job' = jid
            \<and> pending_list st' = filter (\<lambda>k. pj_priority job < pj_priority k) (others jid st) @ job' #
                filter (\<lambda>k. pj_priority k \<le> pj_priority job) (others jid st))
       \<and> (\<exists>job' st'. demote jid st = Inr (job', st') \<and> pj_id job' = jid
            \<and> pending_list st' = filter (\<lambda>k. pj_priority job \<le> pj_priority k) (others jid st) @ job' #
                filter (\<lambda>k. pj_priority k < pj_priority job) (others jid st))"
proof -
  have lt: "(pj_priority job - 1 < q) = (pj_priority job \<le> q)" for q by auto
  show ?thesis
  proof (intro conjI)
    show "\<exists>job' st'. promote jid st = Inr (job', st') \<and> pj_id job' = jid
        \<and> pending_list st' = filter (\<lambda>k. pj_priority job < pj_priority k) (others jid st) @ job' #
            filter (\<lambda>k. pj_priority k \<le> pj_priority job) (others jid st)"
      using reposition_places [OF assms, of True] by (auto simp: promote_def not_less Let_def)
    show "\<exists>job' st'. demote jid st = Inr (job', st') \<and> pj_id job' = jid
        \<and> pending_list st' = filter (\<lambda>k. pj_priority job \<le> pj_priority k) (others jid st) @ job' #
            filter (\<lambda>k. pj_priority k < pj_priority job) (others jid st)"
      using reposition_places [OF assms, of False] by (auto simp: demote_def lt not_le Let_def)
  qed
qed

theorem promote_demote_order_witness:
  "\<exists>job' st'. promote ''c'' demo_queue = Inr (job', st') \<and> map pj_id (pending_list st') = [''a'', ''c'', ''b'']"
proof -
  obtain c where c: "find_job ''c'' demo_queue = Some c" "is_pending c" "pj_priority c = 1"
    by (simp add: demo_queue_def enqueue_eval find_job_def row_find_def)
  from promote_demote_order [OF demo_queue_wf c(1,2)]
  obtain job' st' where *: "promote ''c'' demo_queue = Inr (job', st')" "pj_id job' = ''c''"
    "pending_list st' = filter (\<lambda>k. 1 < pj_priority k) (others ''c'' demo_queue) @ job' #
       filter (\<lambda>k. pj_priority k \<le> 1) (others ''c'' demo_queue)"
    using c(3) by auto
  then have "map pj_id (pending_list st') = [''a'', ''c'', ''b'']"
    by (simp add: others_def pending_list_alt demo_queue_def enqueue_eval feeder_key_def)
  with * show ?thesis by auto
qed

end
