(* ===== verification/Feeder.thy ===== *)
theory Feeder
  imports PendingOrder
begin

text \<open>
  The pending-queue feeder (\<open>src/src/subarr/pending_feeder.py\<close>) and the GPU capacity gate it
  shares with the arena (\<open>src/src/subarr/subgen_capacity.py\<close>). A tick is one definition over
  the feeder's state (the store and the in-flight reservations); the injected callables
  (submission, target depth, pause switch, capabilities, clocks) are fields of \<open>feed_env\<close>.
  An exception that leaves a tick is an \<open>Inl\<close> beside the state it leaves behind.
\<close>

section \<open>The capacity gate\<close>

definition subgen_capacity_free :: "int \<Rightarrow> int \<Rightarrow> int option \<Rightarrow> bool" where
  "subgen_capacity_free processing_count arena_in_flight n =
     (case n of None \<Rightarrow> True | Some k \<Rightarrow> processing_count + arena_in_flight < k)"

section \<open>subgen's queue reply\<close>

text \<open>An entry is the \<open>path\<close> of a dict entry, \<open>None\<close> when there is none.\<close>

record subgen_queue =
  sq_queued :: "string option list"
  sq_processing :: "string option list"
  sq_queued_count :: "int option"
  sq_processing_count :: "int option"

definition subgen_paths :: "subgen_queue \<Rightarrow> string set" where
  "subgen_paths q = set (map or_empty (filter truthy_str (sq_queued q @ sq_processing q)))"

definition effective_depth :: "subgen_queue \<Rightarrow> int" where
  "effective_depth q =
     (case (sq_queued_count q, sq_processing_count q) of
        (Some a, Some b) \<Rightarrow> a + b
      | _ \<Rightarrow> int (length (sq_queued q)) + int (length (sq_processing q)))"

definition processing_count :: "subgen_queue \<Rightarrow> int" where
  "processing_count q =
     (case sq_processing_count q of Some p \<Rightarrow> p | None \<Rightarrow> int (length (sq_processing q)))"

definition inflight_grace_s :: pyfloat where "inflight_grace_s = 30"
definition orphan_grace_s :: pyfloat where "orphan_grace_s = 60"

section \<open>State and environment\<close>

record feeder =
  fd_store :: queue_store
  fd_inflight :: "(string \<times> pyfloat) list"

record feed_env =
  fe_libs :: "library list"
  fe_submit :: "pending_job \<Rightarrow> string option"  \<comment> \<open>the exception text, if submitting raises\<close>
  fe_target :: int
  fe_arena :: int
  fe_limit :: "int option"
  fe_mono :: pyfloat
  fe_wall :: pyfloat

record feed_loop_state =
  fl_store :: queue_store
  fl_inflight :: "(string \<times> pyfloat) list"
  fl_live :: "string set"
  fl_effective :: int
  fl_submitted :: int

definition feed_ok :: "feed_env \<Rightarrow> int \<Rightarrow> feed_loop_state \<Rightarrow> bool" where
  "feed_ok env pc s \<longleftrightarrow> fl_effective s < fe_target env
     \<and> subgen_capacity_free (pc + int (length (fl_inflight s))) (fe_arena env) (fe_limit env)"

definition adopt :: "feed_env \<Rightarrow> pending_job \<Rightarrow> string \<Rightarrow> feed_loop_state \<Rightarrow> feed_loop_state" where
  "adopt env job p s = s\<lparr>fl_store := snd (mark_submitted (pj_id job) (fe_wall env) (fl_store s)),
     fl_inflight := AList.delete p (fl_inflight s), fl_live := fl_live s - {p},
     fl_effective := fl_effective s + 1, fl_submitted := fl_submitted s + 1\<rparr>"

definition fail_job :: "pending_job \<Rightarrow> string \<Rightarrow> feed_loop_state \<Rightarrow> feed_loop_state" where
  "fail_job job msg s = s\<lparr>fl_store := snd (set_status (pj_id job) ERROR (Some (take 500 msg)) None (fl_store s))\<rparr>"

definition submitted :: "feed_env \<Rightarrow> pending_job \<Rightarrow> string \<Rightarrow> feed_loop_state \<Rightarrow> feed_loop_state" where
  "submitted env job p s = s\<lparr>fl_store := snd (mark_submitted (pj_id job) (fe_wall env) (fl_store s)),
     fl_inflight := AList.update p (fe_mono env) (fl_inflight s),
     fl_effective := fl_effective s + 1, fl_submitted := fl_submitted s + 1\<rparr>"

lemma pending_filter_drop:
  assumes "\<And>j. pj_id (g j) = pj_id j" "\<And>j. \<not> is_pending (g j)"
  shows "filter is_pending (update_rows jid g st) = filter (\<lambda>k. is_pending k \<and> pj_id k \<noteq> jid) st"
  using assms by (induction st) (auto simp: update_rows_def rows_update_def)

lemma filter_pending_set_status:
  "s \<noteq> PENDING \<Longrightarrow> filter is_pending (snd (set_status jid s e t st)) =
     filter (\<lambda>k. pj_id k \<noteq> jid) (filter is_pending st)"
  unfolding set_status_def snd_conv
  by (subst pending_filter_drop) (auto simp: is_pending_def conj_commute)

lemma pending_count_decreases:
  assumes "j \<in> set st" "is_pending j" "s \<noteq> PENDING"
  shows "length (filter is_pending (snd (set_status (pj_id j) s e t st))) < length (filter is_pending st)"
proof -
  note filter_pending_set_status [OF assms(3), of "pj_id j" e t st]
  moreover have "j \<in> set (filter is_pending st)" using assms by simp
  ultimately show ?thesis by (simp only:) (rule length_filter_less, auto)
qed

lemma next_pending_in: "next_pending 1 st = j # js \<Longrightarrow> j \<in> set st \<and> is_pending j"
  using set_take_subset [of 1 "pending_list st"] by (auto simp: next_pending_def)

section \<open>One tick\<close>

function feed_loop :: "feed_env \<Rightarrow> int \<Rightarrow> feed_loop_state \<Rightarrow> (path_error + int) \<times> feed_loop_state" where
  "feed_loop env pc s =
     (if feed_ok env pc s
      then (case next_pending 1 (fl_store s) of
          [] \<Rightarrow> (Inr (fl_submitted s), s)
        | job # _ \<Rightarrow>
            (case canonical_to_subgen_batch (fe_libs env) (pj_path job) of
               Inl e \<Rightarrow> (Inl e, s)
             | Inr p \<Rightarrow>
                 if p \<in> fl_live s then feed_loop env pc (adopt env job p s)
                 else (case fe_submit env job of
                     Some msg \<Rightarrow> feed_loop env pc (fail_job job msg s)
                   | None \<Rightarrow> feed_loop env pc (submitted env job p s))))
      else (Inr (fl_submitted s), s))"
  by pat_completeness auto
termination
  by (relation "measure (\<lambda>(env, pc, s). length (filter is_pending (fl_store s)))")
    (auto simp: adopt_def fail_job_def submitted_def mark_submitted_def
      dest!: next_pending_in intro: pending_count_decreases)

declare feed_loop.simps [simp del]

definition prune_inflight ::
    "string set \<Rightarrow> pyfloat \<Rightarrow> (string \<times> pyfloat) list \<Rightarrow> (string \<times> pyfloat) list" where
  "prune_inflight live now inflight =
     filter (\<lambda>(p, t). p \<notin> live \<and> now - t < inflight_grace_s) inflight"

definition tick ::
    "bool \<Rightarrow> subgen_queue option \<Rightarrow> feed_env \<Rightarrow> feeder \<Rightarrow> (path_error + int) \<times> feeder" where
  "tick paused reply env fd =
     (if paused then (Inr 0, fd)
      else (case reply of
          None \<Rightarrow> (Inr 0, fd)
        | Some q \<Rightarrow>
            (let live = subgen_paths q in
             case resolve_orphaned_submitted (fe_libs env) live orphan_grace_s (fe_wall env) (fd_store fd) of
               (Inl e, st) \<Rightarrow> (Inl e, fd\<lparr>fd_store := st\<rparr>)
             | (Inr _, st) \<Rightarrow>
                 (let inflight = prune_inflight live (fe_mono env) (fd_inflight fd);
                      target = max 0 (fe_target env);
                      (r, s) = feed_loop (env\<lparr>fe_target := target\<rparr>) (processing_count q)
                        \<lparr>fl_store = st, fl_inflight = inflight, fl_live = live,
                         fl_effective = effective_depth q + int (length inflight), fl_submitted = 0\<rparr>
                  in (r, fd\<lparr>fd_store := fl_store s, fd_inflight := fl_inflight s\<rparr>)))))"

definition release_inflight :: "library list \<Rightarrow> string \<Rightarrow> feeder \<Rightarrow> path_error + feeder" where
  "release_inflight libs path fd =
     (case canonical_to_subgen_batch libs path of
        Inl e \<Rightarrow> Inl e
      | Inr p \<Rightarrow> Inr (fd\<lparr>fd_inflight := AList.delete p (fd_inflight fd)\<rparr>))"

section \<open>The interface the feeder relies on\<close>

text \<open>
  A work source hands out its backlog from the front; settling the front job (as submitted
  or failed) removes exactly that job and keeps the source's invariant.
\<close>

locale work_source =
  fixes inv :: "'s \<Rightarrow> bool"
    and backlog :: "'s \<Rightarrow> 'j list"
    and peek :: "'s \<Rightarrow> 'j list"
    and settle :: "'j \<Rightarrow> 'o \<Rightarrow> 's \<Rightarrow> 's"
  assumes peek: "inv s \<Longrightarrow> peek s = take 1 (backlog s)"
    and settle_backlog: "inv s \<Longrightarrow> backlog s = j # js \<Longrightarrow> backlog (settle j r s) = js"
    and settle_inv: "inv s \<Longrightarrow> backlog s = j # js \<Longrightarrow> inv (settle j r s)"
begin

primrec settle_all :: "('j \<times> 'o) list \<Rightarrow> 's \<Rightarrow> 's" where
  "settle_all [] s = s"
| "settle_all (o1 # os) s = settle_all os (settle (fst o1) (snd o1) s)"

lemma settle_all_prefix:
  "inv s \<Longrightarrow> backlog s = map fst os @ rest \<Longrightarrow> inv (settle_all os s) \<and> backlog (settle_all os s) = rest"
  by (induction os arbitrary: s) (auto simp: settle_backlog settle_inv)

lemma peek_Cons: "inv s \<Longrightarrow> peek s = j # js \<Longrightarrow> \<exists>rest. backlog s = j # rest"
  by (cases "backlog s") (auto simp: peek)

lemma peek_Nil: "inv s \<Longrightarrow> peek s = [] \<Longrightarrow> backlog s = []"
  by (cases "backlog s") (auto simp: peek)

end

datatype outcome = Handed pyfloat | Failed string

definition settle_job :: "pending_job \<Rightarrow> outcome \<Rightarrow> queue_store \<Rightarrow> queue_store" where
  "settle_job j r st = (case r of
     Handed t \<Rightarrow> snd (mark_submitted (pj_id j) t st)
   | Failed msg \<Rightarrow> snd (set_status (pj_id j) ERROR (Some msg) None st))"

lemma pending_list_settle:
  assumes "queue_wf st" "pending_list st = j # js" "s \<noteq> PENDING"
  shows "pending_list (snd (set_status (pj_id j) s e t st)) = js"
proof -
  have "pending_list (snd (set_status (pj_id j) s e t st)) = filter (\<lambda>k. pj_id k \<noteq> pj_id j) (pending_list st)"
    unfolding pending_list_alt filter_pending_set_status [OF assms(3)] by (rule sort_key_filter)
  then have "pending_list (snd (set_status (pj_id j) s e t st)) = filter (\<lambda>k. pj_id k \<noteq> pj_id j) (j # js)"
    by (simp only: assms(2))
  moreover have "pj_id j \<notin> pj_id ` set js" using distinct_pending_ids [OF assms(1)] assms(2) by auto
  then have "filter (\<lambda>k. pj_id k \<noteq> pj_id j) js = js" by (intro filter_True) (auto simp: image_iff)
  ultimately show ?thesis by simp
qed

interpretation pq: work_source queue_wf pending_list "next_pending 1" settle_job
proof unfold_locales
  fix s show "next_pending 1 s = take 1 (pending_list s)" by (simp add: next_pending_def)
next
  fix s j js r assume *: "queue_wf s" "pending_list s = j # js"
  then show "pending_list (settle_job j r s) = js"
    by (cases r) (simp_all add: settle_job_def mark_submitted_def pending_list_settle)
  have "j \<in> set (pending_list s)" using *(2) by simp
  then have "find_job (pj_id j) s = Some j" "active j"
    using *(1) by (auto intro: find_job_in pending_active simp: queue_wf_def)
  then show "queue_wf (settle_job j r s)"
    using *(1) by (cases r) (auto simp: settle_job_def mark_submitted_def intro: queue_wf_set_status)
qed


section \<open>What a run of the loop does\<close>

lemma feed_loop_stop: "\<not> feed_ok env pc s \<Longrightarrow> feed_loop env pc s = (Inr (fl_submitted s), s)"
  by (subst feed_loop.simps) simp

lemma adopt_store: "fl_store (adopt env j p s) = settle_job j (Handed (fe_wall env)) (fl_store s)"
  and submitted_store: "fl_store (submitted env j p s) = settle_job j (Handed (fe_wall env)) (fl_store s)"
  and fail_store: "fl_store (fail_job j msg s) = settle_job j (Failed (take 500 msg)) (fl_store s)"
  by (simp_all add: adopt_def submitted_def fail_job_def settle_job_def)

text \<open>One unfolding of the loop as a case rule: it stops, it raises, or it settles the front
  job and goes on.\<close>

lemma feed_loop_cases:
  obtains
    (stop) "\<not> feed_ok env pc s \<or> next_pending 1 (fl_store s) = []"
      "feed_loop env pc s = (Inr (fl_submitted s), s)"
  | (raise) job js e where "feed_ok env pc s" "next_pending 1 (fl_store s) = job # js"
      "canonical_to_subgen_batch (fe_libs env) (pj_path job) = Inl e" "feed_loop env pc s = (Inl e, s)"
  | (settle) job js p s1 o1 where "feed_ok env pc s" "next_pending 1 (fl_store s) = job # js"
      "canonical_to_subgen_batch (fe_libs env) (pj_path job) = Inr p"
      "feed_loop env pc s = feed_loop env pc s1" "fl_store s1 = settle_job job o1 (fl_store s)"
      "s1 = adopt env job p s \<or> s1 = submitted env job p s \<or> (\<exists>msg. s1 = fail_job job msg s)"
proof (cases "feed_ok env pc s")
  case False
  then show thesis by (intro stop) (auto simp: feed_loop_stop)
next
  case ok: True
  show thesis
  proof (cases "next_pending 1 (fl_store s)")
    case Nil
    then show thesis by (intro stop) (simp_all add: feed_loop.simps [of env pc s])
  next
    case (Cons job js)
    show thesis
    proof (cases "canonical_to_subgen_batch (fe_libs env) (pj_path job)")
      case (Inl e)
      with ok Cons show thesis by (intro raise) (simp_all add: feed_loop.simps [of env pc s])
    next
      case (Inr p)
      consider "p \<in> fl_live s" | msg where "p \<notin> fl_live s" "fe_submit env job = Some msg"
        | "p \<notin> fl_live s" "fe_submit env job = None" by blast
      then show thesis
      proof cases
        case 1
        then show thesis using ok Cons Inr
          by (intro settle [OF ok Cons Inr _ adopt_store]) (auto simp: feed_loop.simps [of env pc s])
      next
        case 2
        then show thesis using ok Cons Inr
          by (intro settle [OF ok Cons Inr _ fail_store]) (auto simp: feed_loop.simps [of env pc s])
      next
        case 3
        then show thesis using ok Cons Inr
          by (intro settle [OF ok Cons Inr _ submitted_store]) (auto simp: feed_loop.simps [of env pc s])
      qed
    qed
  qed
qed

lemma feed_loop_induct [case_names stop raise settle]:
  assumes "\<And>s. \<not> feed_ok env pc s \<or> next_pending 1 (fl_store s) = [] \<Longrightarrow>
      feed_loop env pc s = (Inr (fl_submitted s), s) \<Longrightarrow> P s"
    and "\<And>s job js e. feed_ok env pc s \<Longrightarrow> next_pending 1 (fl_store s) = job # js \<Longrightarrow>
      canonical_to_subgen_batch (fe_libs env) (pj_path job) = Inl e \<Longrightarrow> feed_loop env pc s = (Inl e, s) \<Longrightarrow> P s"
    and "\<And>s job js p s1 o1. feed_ok env pc s \<Longrightarrow> next_pending 1 (fl_store s) = job # js \<Longrightarrow>
      canonical_to_subgen_batch (fe_libs env) (pj_path job) = Inr p \<Longrightarrow>
      feed_loop env pc s = feed_loop env pc s1 \<Longrightarrow> fl_store s1 = settle_job job o1 (fl_store s) \<Longrightarrow>
      s1 = adopt env job p s \<or> s1 = submitted env job p s \<or> (\<exists>msg. s1 = fail_job job msg s) \<Longrightarrow> P s1 \<Longrightarrow> P s"
  shows "P s"
proof (induction "length (filter is_pending (fl_store s))" arbitrary: s rule: less_induct)
  case less
  show ?case
  proof (cases rule: feed_loop_cases [of env pc s])
    case stop
    then show ?thesis by (rule assms(1))
  next
    case (raise job js e)
    then show ?thesis by (rule assms(2))
  next
    case (settle job js p s1 o1)
    have "length (filter is_pending (fl_store s1)) < length (filter is_pending (fl_store s))"
      using next_pending_in [OF settle(2)] settle(5)
      by (cases o1) (auto simp: settle_job_def mark_submitted_def intro: pending_count_decreases)
    then have "P s1" by (rule less)
    with settle show ?thesis by (rule assms(3))
  qed
qed

lemma feed_loop_settles:
  "queue_wf (fl_store s) \<Longrightarrow> \<exists>os. fl_store (snd (feed_loop env pc s)) = pq.settle_all os (fl_store s)
     \<and> (\<exists>rest. pending_list (fl_store s) = map fst os @ rest)"
proof (induction s rule: feed_loop_induct [of env pc])
  case (settle s job js p s1 o1)
  obtain rest where front: "pending_list (fl_store s) = job # rest"
    using pq.peek_Cons [OF settle.prems settle(2)] by blast
  then have "queue_wf (fl_store s1)" and rest: "pending_list (fl_store s1) = rest"
    using pq.settle_inv [OF settle.prems front] pq.settle_backlog [OF settle.prems front] settle(5) by auto
  with settle.IH obtain os rest' where
    "fl_store (snd (feed_loop env pc s1)) = pq.settle_all os (fl_store s1)"
    "rest = map fst os @ rest'" by blast
  then show ?case using settle(4,5) front by (intro exI [of _ "(job, o1) # os"]) auto
qed (auto intro: exI [of _ "[]"])

lemma feed_loop_depth:
  "feed_loop env pc s = (Inr n, s') \<Longrightarrow>
     fl_submitted s \<le> n \<and> n - fl_submitted s = fl_effective s' - fl_effective s
     \<and> fl_effective s' \<le> max (fl_effective s) (fe_target env)"
proof (induction s rule: feed_loop_induct [of env pc])
  case (settle s job js p s1 o1)
  then show ?case by (auto simp: adopt_def submitted_def fail_job_def feed_ok_def)
qed auto

lemma length_update_le: "length (AList.update k v al) \<le> Suc (length al)"
  by (induction al) auto

lemma feed_loop_capacity:
  "fe_limit env = Some k \<Longrightarrow>
     int (length (fl_inflight (snd (feed_loop env pc s)))) \<le> max (int (length (fl_inflight s))) (k - pc - fe_arena env)"
proof (induction s rule: feed_loop_induct [of env pc])
  case (settle s job js p s1 o1)
  have "int (length (fl_inflight s)) < k - pc - fe_arena env"
    using settle.hyps(1) settle.prems by (simp add: feed_ok_def subgen_capacity_free_def)
  moreover have "length (fl_inflight s1) \<le> Suc (length (fl_inflight s))"
    using settle.hyps(6) length_update_le [of p "fe_mono env" "fl_inflight s"] length_delete_le [of p "fl_inflight s"]
    by (auto simp: adopt_def submitted_def fail_job_def)
  ultimately show ?case using settle.IH settle.hyps(4) settle.prems by auto
qed auto

lemma feed_loop_drains:
  assumes "\<forall>j \<in> set (fl_store s). \<exists>p. canonical_to_subgen_batch (fe_libs env) (pj_path j) = Inr p"
    and "fe_limit env = None"
    and "fl_effective s + int (length (filter is_pending (fl_store s))) \<le> fe_target env"
  shows "\<exists>n. fst (feed_loop env pc s) = Inr n \<and> filter is_pending (fl_store (snd (feed_loop env pc s))) = []"
  using assms
proof (induction s rule: feed_loop_induct [of env pc])
  case (stop s)
  have "filter is_pending (fl_store s) = []"
  proof (cases "next_pending 1 (fl_store s)")
    case Nil
    then have "set (pending_list (fl_store s)) = {}" by (simp add: next_pending_def)
    then show ?thesis by (simp add: filter_empty_conv)
  next
    case (Cons j js)
    then have "\<not> fl_effective s < fe_target env" using stop by (simp add: feed_ok_def subgen_capacity_free_def)
    then have "length (filter is_pending (fl_store s)) = 0" using stop.prems(3) by linarith
    then show ?thesis by simp
  qed
  then show ?case using stop by simp
next
  case (raise s job js e)
  then show ?case using next_pending_in [OF raise(2)] by force
next
  case (settle s job js p s1 o1)
  have in_s: "job \<in> set (fl_store s)" "is_pending job" using next_pending_in [OF settle(2)] by auto
  have "map pj_path (fl_store s1) = map pj_path (fl_store s)"
    unfolding settle(5)
    by (cases o1) (simp_all add: settle_job_def mark_submitted_def set_status_def update_rows_def rows_update_map)
  then have paths: "pj_path ` set (fl_store s1) = pj_path ` set (fl_store s)" by (metis set_map)
  have "length (filter is_pending (fl_store s1)) < length (filter is_pending (fl_store s))"
    using in_s settle(5)
    by (cases o1) (auto simp: settle_job_def mark_submitted_def intro: pending_count_decreases)
  then have "fl_effective s1 + int (length (filter is_pending (fl_store s1))) \<le> fe_target env"
    using settle.prems(3) settle(6) by (auto simp: adopt_def submitted_def fail_job_def)
  moreover have "\<forall>j \<in> set (fl_store s1). \<exists>p. canonical_to_subgen_batch (fe_libs env) (pj_path j) = Inr p"
  proof
    fix j assume "j \<in> set (fl_store s1)"
    then have "pj_path j \<in> pj_path ` set (fl_store s)" using paths by blast
    then show "\<exists>p. canonical_to_subgen_batch (fe_libs env) (pj_path j) = Inr p"
      using settle.prems(1) by auto
  qed
  ultimately show ?case using settle.IH settle.prems(2) settle(4) by simp
qed


lemma orphan_loop_pending:
  "distinct (map pj_id st) \<Longrightarrow> \<forall>r \<in> set rs. r \<in> orig \<and> \<not> is_pending r \<Longrightarrow> set st \<subseteq> orig \<Longrightarrow> inj_on pj_id orig \<Longrightarrow>
     filter is_pending (snd (orphan_loop f live c rs n st)) = filter is_pending st"
proof (induction f live c rs n st rule: orphan_loop.induct)
  case (2 f live c r rs n st)
  let ?st = "delete_where (\<lambda>j. pj_id j = pj_id r) st"
  have keep: "filter is_pending ?st = filter is_pending st"
  proof -
    have "\<not> is_pending j" if "j \<in> set st" "pj_id j = pj_id r" for j
      using that "2.prems" by (auto simp: inj_on_def)
    then show ?thesis by (auto simp: delete_where_def rows_delete_def intro: filter_cong)
  qed
  have "distinct (map pj_id ?st)" "set ?st \<subseteq> orig"
    using "2.prems" by (auto simp: delete_where_def rows_delete_def distinct_map_filterI)
  then show ?case using 2 keep by (simp split: sum.split option.split)
qed simp

lemma resolve_orphaned_pending:
  assumes "queue_wf st"
  shows "filter is_pending (snd (resolve_orphaned_submitted libs live age t st)) = filter is_pending st"
  unfolding resolve_orphaned_submitted_def
  by (rule orphan_loop_pending [where orig = "set st"])
    (use assms in \<open>auto simp: queue_wf_def is_pending_def distinct_map\<close>)

lemma resolve_orphaned_wf:
  "queue_wf st \<Longrightarrow> queue_wf (snd (resolve_orphaned_submitted libs live age t st))"
  by (simp add: resolve_orphaned_submitted_def orphan_loop_wf)

lemma pending_list_cong: "filter is_pending st = filter is_pending st' \<Longrightarrow> pending_list st = pending_list st'"
  by (simp add: pending_list_alt)

text \<open>A tick either does not touch the store, or runs the loop on the store the orphan
  resolution leaves.\<close>

lemma tick_cases:
  obtains
    (idle) "paused \<or> reply = None" "tick paused reply env fd = (Inr 0, fd)"
  | (orphan_error) q e st where "\<not> paused" "reply = Some q"
      "resolve_orphaned_submitted (fe_libs env) (subgen_paths q) orphan_grace_s (fe_wall env) (fd_store fd) = (Inl e, st)"
      "tick paused reply env fd = (Inl e, fd\<lparr>fd_store := st\<rparr>)"
  | (loop) q m st r s where "\<not> paused" "reply = Some q"
      "resolve_orphaned_submitted (fe_libs env) (subgen_paths q) orphan_grace_s (fe_wall env) (fd_store fd) = (Inr m, st)"
      "feed_loop (env\<lparr>fe_target := max 0 (fe_target env)\<rparr>) (processing_count q)
         \<lparr>fl_store = st, fl_inflight = prune_inflight (subgen_paths q) (fe_mono env) (fd_inflight fd),
          fl_live = subgen_paths q,
          fl_effective = effective_depth q + int (length (prune_inflight (subgen_paths q) (fe_mono env) (fd_inflight fd))),
          fl_submitted = 0\<rparr> = (r, s)"
      "tick paused reply env fd = (r, fd\<lparr>fd_store := fl_store s, fd_inflight := fl_inflight s\<rparr>)"
proof (cases "paused \<or> reply = None")
  case True
  then show thesis by (intro idle) (auto simp: tick_def)
next
  case False
  then obtain q where q: "\<not> paused" "reply = Some q" by auto
  obtain x st where x: "resolve_orphaned_submitted (fe_libs env) (subgen_paths q) orphan_grace_s (fe_wall env) (fd_store fd) = (x, st)"
    by force
  show thesis
  proof (cases x)
    case (Inl e)
    then show thesis using q x by (intro orphan_error) (simp_all add: tick_def)
  next
    case (Inr m)
    obtain r s where "feed_loop (env\<lparr>fe_target := max 0 (fe_target env)\<rparr>) (processing_count q)
         \<lparr>fl_store = st, fl_inflight = prune_inflight (subgen_paths q) (fe_mono env) (fd_inflight fd),
          fl_live = subgen_paths q,
          fl_effective = effective_depth q + int (length (prune_inflight (subgen_paths q) (fe_mono env) (fd_inflight fd))),
          fl_submitted = 0\<rparr> = (r, s)" by force
    then show thesis using q x Inr by (intro loop) (simp_all add: tick_def Let_def)
  qed
qed

lemma settle_all_status:
  "queue_wf st \<Longrightarrow> pending_list st = map fst os @ rest \<Longrightarrow> j \<in> set (map fst os) \<Longrightarrow>
     \<exists>j' \<in> set (pq.settle_all os st). pj_id j' = pj_id j \<and> pj_path j' = pj_path j
        \<and> pj_status j' \<in> {SUBMITTED, ERROR}"
proof (induction os arbitrary: st rest rule: rev_induct)
  case Nil
  then show ?case by simp
next
  case (snoc x os)
  obtain k out where x: "x = (k, out)" by force
  have app: "pq.settle_all (os @ [x]) st = settle_job k out (pq.settle_all os st)"
    by (induction os arbitrary: st) (simp_all add: x)
  have "pending_list st = map fst os @ (k # rest)" using snoc.prems(2) x by simp
  then have wf: "queue_wf (pq.settle_all os st)" and pl: "pending_list (pq.settle_all os st) = k # rest"
    using pq.settle_all_prefix [OF snoc.prems(1)] by blast+
  have k: "k \<in> set (pq.settle_all os st)" using set_pending_list [of "pq.settle_all os st"] pl by auto
  define g :: "pending_job \<Rightarrow> pending_job" where "g = (\<lambda>j. case out of
      Handed t \<Rightarrow> j\<lparr>pj_status := SUBMITTED, pj_error := None, pj_submitted_at := Some t\<rparr>
    | Failed msg \<Rightarrow> j\<lparr>pj_status := ERROR, pj_error := Some msg\<rparr>)"
  have sj: "settle_job k out xs = map (\<lambda>j. if pj_id j = pj_id k then g j else j) xs" for xs
    by (cases out) (simp_all add: settle_job_def mark_submitted_def set_status_def update_rows_def rows_update_def g_def)
  have g: "pj_id (g j) = pj_id j" "pj_path (g j) = pj_path j" "pj_status (g j) \<in> {SUBMITTED, ERROR}" for j
    by (cases out; simp add: g_def)+
  consider "j = k" | "j \<in> set (map fst os)" using snoc.prems(3) x by auto
  then show ?case
  proof cases
    case 1
    then show ?thesis unfolding app sj using k g by (intro bexI [of _ "g k"]) auto
  next
    case 2
    with snoc.IH [OF snoc.prems(1) \<open>pending_list st = map fst os @ (k # rest)\<close>] obtain j' where
      "j' \<in> set (pq.settle_all os st)" "pj_id j' = pj_id j" "pj_path j' = pj_path j" "pj_status j' \<in> {SUBMITTED, ERROR}"
      by auto
    then show ?thesis unfolding app sj
      using g [of j'] by (intro bexI [of _ "if pj_id j' = pj_id k then g j' else j'"]) auto
  qed
qed

section \<open>Properties\<close>

text \<open>A tick hands out a prefix of the pending list in feeder order: the jobs it takes are
  submitted (or failed, when submitting raised), nothing is skipped, and the rest of the
  queue keeps its order; a failed submission does not hold the jobs behind it.\<close>

theorem tick_takes_prefix:
  assumes "queue_wf (fd_store fd)" and "tick paused reply env fd = (r, fd')"
  shows "\<exists>n. pending_list (fd_store fd') = drop n (pending_list (fd_store fd))
    \<and> (\<forall>j \<in> set (take n (pending_list (fd_store fd))).
         \<exists>j' \<in> set (fd_store fd'). pj_id j' = pj_id j \<and> pj_path j' = pj_path j \<and> pj_status j' \<in> {SUBMITTED, ERROR})
    \<and> queue_wf (fd_store fd')"
proof (cases rule: tick_cases [of paused reply env fd])
  case idle
  then show ?thesis using assms by (intro exI [of _ 0]) simp
next
  case (orphan_error q e st)
  have "pending_list st = pending_list (fd_store fd)" "queue_wf st"
    using resolve_orphaned_pending [OF assms(1)] resolve_orphaned_wf [OF assms(1)] orphan_error(3)
    by (metis pending_list_cong snd_conv)+
  then show ?thesis using assms(2) orphan_error(4) by (intro exI [of _ 0]) auto
next
  case (loop q m st r s)
  have same: "pending_list st = pending_list (fd_store fd)" and wf: "queue_wf st"
    using resolve_orphaned_pending [OF assms(1)] resolve_orphaned_wf [OF assms(1)] loop(3)
    by (metis pending_list_cong snd_conv)+
  define s0 where "s0 = \<lparr>fl_store = st, fl_inflight = prune_inflight (subgen_paths q) (fe_mono env) (fd_inflight fd),
          fl_live = subgen_paths q,
          fl_effective = effective_depth q + int (length (prune_inflight (subgen_paths q) (fe_mono env) (fd_inflight fd))),
          fl_submitted = 0\<rparr>"
  have s0: "fl_store s0 = st" and run: "snd (feed_loop (env\<lparr>fe_target := max 0 (fe_target env)\<rparr>) (processing_count q) s0) = s"
    using loop(4) by (simp_all add: s0_def)
  obtain os rest where os: "fl_store s = pq.settle_all os st" "pending_list st = map fst os @ rest"
    using feed_loop_settles [of s0 "env\<lparr>fe_target := max 0 (fe_target env)\<rparr>" "processing_count q"] wf
    unfolding run s0 by blast
  have "pending_list (fl_store s) = rest" "queue_wf (fl_store s)"
    using pq.settle_all_prefix [OF wf os(2)] os(1) by auto
  moreover have "fd_store fd' = fl_store s" using assms(2) loop(5) by auto
  ultimately show ?thesis
    using settle_all_status [OF wf os(2)] os same
    by (intro exI [of _ "length os"]) auto
qed


text \<open>Concrete feeder used by the witnesses: one library, subgen idle, and a submission that
  raises for the second job.\<close>

definition demo_library :: library where
  "demo_library = \<lparr>lib_slug = [], lib_name = ''Main'', lib_fs_root = ''/media'', lib_subgen_prefix = ''/media'',
     lib_arr_prefix = ''/data'', lib_sonarr_id = [], lib_radarr_id = [], lib_bazarr_id = []\<rparr>"

definition demo_env :: feed_env where
  "demo_env = \<lparr>fe_libs = [demo_library],
     fe_submit = (\<lambda>j. if pj_path j = ''TV/b.mkv'' then Some ''boom'' else None),
     fe_target = 3, fe_arena = 0, fe_limit = None, fe_mono = 100, fe_wall = 1000\<rparr>"

definition demo_feeder :: feeder where
  "demo_feeder = \<lparr>fd_store = demo_queue, fd_inflight = []\<rparr>"

definition idle_subgen :: subgen_queue where
  "idle_subgen = \<lparr>sq_queued = [], sq_processing = [], sq_queued_count = Some 0, sq_processing_count = Some 0\<rparr>"

theorem tick_takes_prefix_witness:
  "\<exists>n. pending_list (fd_store (snd (tick False (Some idle_subgen) demo_env demo_feeder)))
     = drop n (pending_list demo_queue)"
  using tick_takes_prefix [of demo_feeder False "Some idle_subgen" demo_env, OF _ surjective_pairing] demo_queue_wf
  by (auto simp: demo_feeder_def)

lemma orphan_loop_total:
  "\<forall>r \<in> set rs. \<exists>p. f (pj_path r) = Inr p \<Longrightarrow> \<exists>m. fst (orphan_loop f live c rs n st) = Inr m"
  by (induction f live c rs n st rule: orphan_loop.induct) (auto split: option.splits)

lemma set_orphan_loop: "set (snd (orphan_loop f live c rs n st)) \<subseteq> set st"
  by (induction f live c rs n st rule: orphan_loop.induct)
    (auto simp: delete_where_def split: sum.splits option.splits)

lemma tick_drains:
  assumes "queue_wf (fd_store fd)"
    and "\<forall>j \<in> set (fd_store fd). fst (split_canonical (pj_path j)) \<in> lib_slug ` set (fe_libs env)"
    and "fe_limit env = None"
    and "effective_depth q + int (length (fd_inflight fd)) + int (length (pending_list (fd_store fd))) \<le> fe_target env"
  shows "\<exists>n. fst (tick False (Some q) env fd) = Inr n
    \<and> pending_list (fd_store (snd (tick False (Some q) env fd))) = []"
proof -
  have ok: "\<exists>p. canonical_to_subgen_batch (fe_libs env) (pj_path j) = Inr p" if "j \<in> set (fd_store fd)" for j
    using assms(2) that subgen_batch_error [of "fe_libs env" "pj_path j"]
    by (cases "canonical_to_subgen_batch (fe_libs env) (pj_path j)") auto
  show ?thesis
  proof (cases rule: tick_cases [of False "Some q" env fd])
    case (orphan_error q' e st)
    then show ?thesis
      using orphan_loop_total [of "filter (\<lambda>j. pj_status j = SUBMITTED) (fd_store fd)" "canonical_to_subgen_batch (fe_libs env)"] ok
      by (auto simp: resolve_orphaned_submitted_def) (metis fst_conv sum.distinct(1))
  next
    case (loop q' m st r s)
    let ?env = "env\<lparr>fe_target := max 0 (fe_target env)\<rparr>"
    let ?fl = "prune_inflight (subgen_paths q') (fe_mono env) (fd_inflight fd)"
    define s0 where "s0 = \<lparr>fl_store = st, fl_inflight = ?fl, fl_live = subgen_paths q',
        fl_effective = effective_depth q' + int (length ?fl), fl_submitted = 0\<rparr>"
    have q: "q' = q" using loop(2) by simp
    have sub: "set st \<subseteq> set (fd_store fd)"
      using set_orphan_loop loop(3) unfolding resolve_orphaned_submitted_def by (metis snd_conv)
    have "filter is_pending st = filter is_pending (fd_store fd)"
      using resolve_orphaned_pending [OF assms(1)] loop(3) by (metis snd_conv)
    then have len: "length (filter is_pending st) = length (pending_list (fd_store fd))"
      by (simp add: pending_list_alt)
    have "length ?fl \<le> length (fd_inflight fd)" by (simp add: prune_inflight_def)
    then have "fl_effective s0 + int (length (filter is_pending (fl_store s0))) \<le> fe_target ?env"
      using assms(4) len q by (simp add: s0_def)
    moreover have "\<forall>j \<in> set (fl_store s0). \<exists>p. canonical_to_subgen_batch (fe_libs ?env) (pj_path j) = Inr p"
      using ok sub by (auto simp: s0_def)
    ultimately obtain n where n: "fst (feed_loop ?env (processing_count q') s0) = Inr n"
      "filter is_pending (fl_store (snd (feed_loop ?env (processing_count q') s0))) = []"
      using feed_loop_drains [of s0 ?env "processing_count q'"] assms(3) by auto
    have "feed_loop ?env (processing_count q') s0 = (r, s)" using loop(4) by (simp add: s0_def)
    then show ?thesis using n loop(5) by (simp add: pending_list_alt)
  qed simp
qed

lemma demo_rows_known:
  "\<forall>j \<in> set (fd_store demo_feeder). fst (split_canonical (pj_path j)) \<in> lib_slug ` set (fe_libs demo_env)"
  by (simp add: demo_feeder_def demo_env_def demo_library_def demo_queue_def enqueue_eval
      split_canonical_def strip_def strip_of_def py_space_def code_of_def)

lemma demo_room:
  "queue_wf (fd_store demo_feeder)" "fe_limit demo_env = None"
  "effective_depth idle_subgen + int (length (fd_inflight demo_feeder))
     + int (length (pending_list (fd_store demo_feeder))) \<le> fe_target demo_env"
proof -
  have "length (pending_list demo_queue) = 3"
    by (simp add: demo_queue_def enqueue_eval pending_list_alt)
  then show "effective_depth idle_subgen + int (length (fd_inflight demo_feeder))
     + int (length (pending_list (fd_store demo_feeder))) \<le> fe_target demo_env"
    by (simp add: demo_feeder_def demo_env_def idle_subgen_def effective_depth_def)
qed (simp_all add: demo_feeder_def demo_env_def demo_queue_wf)

text \<open>C2. A tick never raises subgen's depth beyond the target: the number of jobs it hands
  over is bounded by the gap between the target and the effective depth (subgen's own depth
  plus the reservations still in flight), and when subgen advertises a concurrency limit the
  reservations never exceed what that limit leaves.\<close>

theorem tick_respects_depth:
  assumes "tick False (Some q) env fd = (Inr n, fd')"
  defines "inflight \<equiv> prune_inflight (subgen_paths q) (fe_mono env) (fd_inflight fd)"
  shows "0 \<le> n \<and> n \<le> max 0 (max 0 (fe_target env) - (effective_depth q + int (length inflight)))
    \<and> (\<forall>k. fe_limit env = Some k \<longrightarrow>
         int (length (fd_inflight fd')) \<le> max (int (length inflight)) (k - processing_count q - fe_arena env))"
proof (cases rule: tick_cases [of False "Some q" env fd])
  case (loop q' m st r s)
  let ?env = "env\<lparr>fe_target := max 0 (fe_target env)\<rparr>"
  have q: "q' = q" and r: "r = Inr n" and fd': "fd_inflight fd' = fl_inflight s" using loop(2,5) assms(1) by auto
  note run = loop(4) [unfolded q r, folded inflight_def]
  from feed_loop_depth [OF run] have "0 \<le> n \<and> n \<le> max 0 (max 0 (fe_target env) - (effective_depth q + int (length inflight)))"
    by auto
  moreover have "int (length (fl_inflight s)) \<le> max (int (length inflight)) (k - processing_count q - fe_arena env)"
    if k: "fe_limit env = Some k" for k
  proof -
    define s0 where "s0 = \<lparr>fl_store = st, fl_inflight = inflight, fl_live = subgen_paths q,
        fl_effective = effective_depth q + int (length inflight), fl_submitted = 0\<rparr>"
    have "snd (feed_loop ?env (processing_count q) s0) = s" "fl_inflight s0 = inflight"
      using run by (simp_all add: s0_def)
    then show ?thesis using feed_loop_capacity [of ?env k "processing_count q" s0] k by simp
  qed
  ultimately show ?thesis unfolding fd' by blast
qed (use assms in auto)

theorem tick_respects_depth_witness:
  "\<exists>n fd'. tick False (Some idle_subgen) demo_env demo_feeder = (Inr n, fd') \<and> 0 \<le> n \<and> n \<le> 3"
proof -
  obtain n fd' where run: "tick False (Some idle_subgen) demo_env demo_feeder = (Inr n, fd')"
    using tick_drains [OF demo_room(1) demo_rows_known demo_room(2,3)] by (metis prod.collapse)
  show ?thesis using run tick_respects_depth [OF run]
    by (auto simp: demo_env_def demo_feeder_def idle_subgen_def effective_depth_def prune_inflight_def)
qed



text \<open>A pending job at the head of the queue whose library is not configured any more
  makes every tick raise before anything behind it is handed out: translating its path is
  outside the guarded submission, so the whole queue is stuck behind it.\<close>

theorem tick_blocked_by_unknown_library:
  assumes "queue_wf (fd_store fd)" and "pending_list (fd_store fd) = j # js"
    and "fst (split_canonical (pj_path j)) \<notin> lib_slug ` set (fe_libs env)"
    and "\<forall>k \<in> set (fd_store fd). pj_status k \<noteq> SUBMITTED"
    and "effective_depth q + int (length (fd_inflight fd)) < fe_target env" and "fe_limit env = None"
  shows "fst (tick False (Some q) env fd) = Inl (PathOutsideRoot (fst (split_canonical (pj_path j))))
    \<and> pending_list (fd_store (snd (tick False (Some q) env fd))) = j # js"
proof -
  let ?fl = "prune_inflight (subgen_paths q) (fe_mono env) (fd_inflight fd)"
  let ?env = "env\<lparr>fe_target := max 0 (fe_target env)\<rparr>"
  have nosub: "filter (\<lambda>j. pj_status j = SUBMITTED) (fd_store fd) = []"
    using assms(4) by (simp add: filter_empty_conv)
  have batch: "canonical_to_subgen_batch (fe_libs env) (pj_path j) =
      Inl (PathOutsideRoot (fst (split_canonical (pj_path j))))"
    using assms(3) by (subst subgen_batch_error) simp
  have len: "length ?fl \<le> length (fd_inflight fd)" by (simp add: prune_inflight_def)
  define s0 where "s0 = \<lparr>fl_store = fd_store fd, fl_inflight = ?fl, fl_live = subgen_paths q,
      fl_effective = effective_depth q + int (length ?fl), fl_submitted = 0\<rparr>"
  have "feed_ok ?env (processing_count q) s0"
    using assms(5,6) len by (simp add: feed_ok_def s0_def subgen_capacity_free_def)
  moreover have "next_pending 1 (fl_store s0) = [j]" by (simp add: s0_def next_pending_def assms(2))
  ultimately have "feed_loop ?env (processing_count q) s0 =
      (Inl (PathOutsideRoot (fst (split_canonical (pj_path j)))), s0)"
    using batch by (subst feed_loop.simps) simp
  then show ?thesis using assms(2)
    by (simp add: tick_def resolve_orphaned_submitted_def nosub Let_def s0_def [symmetric]) (simp add: s0_def)
qed

definition stuck_feeder :: feeder where
  "stuck_feeder = \<lparr>fd_store = snd (enqueue ''x'' 1 ''@gone/TV/x.mkv'' ''gaps'' None None None None None False False None []),
     fd_inflight = []\<rparr>"

theorem tick_blocked_by_unknown_library_witness:
  "fst (tick False (Some idle_subgen) demo_env stuck_feeder) = Inl (PathOutsideRoot ''gone'')"
proof -
  have q: "queue_wf (fd_store stuck_feeder)" "pending_list (fd_store stuck_feeder) = fd_store stuck_feeder"
    "\<forall>k \<in> set (fd_store stuck_feeder). pj_status k \<noteq> SUBMITTED" "map pj_path (fd_store stuck_feeder) = [''@gone/TV/x.mkv'']"
    by (simp_all add: stuck_feeder_def queue_wf_def enqueue_eval slot_def pending_list_alt)
  then obtain j where j: "fd_store stuck_feeder = [j]" "pj_path j = ''@gone/TV/x.mkv''" by (cases "fd_store stuck_feeder") auto
  have s: "fst (split_canonical ''@gone/TV/x.mkv'') = ''gone''"
    by (simp add: split_canonical_def partition_at_def strip_def strip_of_def py_space_def code_of_def)
  show ?thesis
    using tick_blocked_by_unknown_library [of stuck_feeder j "[]" demo_env idle_subgen] q j s
    by (simp add: demo_env_def demo_library_def idle_subgen_def effective_depth_def stuck_feeder_def)
qed

end
