(* ===== verification/ForcedSegments.thy ===== *)
theory ForcedSegments
  imports SrtTiming Langs MediaProbe
begin

text \<open>
  Detection of foreign passages in English audio (\<open>src/src/subarr/forced_segment.py\<close>): speech utterances
  are grouped into windows, each window is judged by its language probabilities, foreign utterances
  are merged into spans, and the translated cues become a forced subtitle file. Times are seconds,
  the voice detector and the language identifier are arguments.
\<close>

section \<open>Parameters\<close>

type_synonym utterance = "pyfloat \<times> pyfloat"

record span =
  sp_start :: int
  sp_end :: int

record forced_params =
  fp_primary :: string
  fp_min_span :: pyfloat
  fp_merge_gap :: pyfloat
  fp_conf_floor :: pyfloat
  fp_over_flag :: bool
  fp_mostly_foreign :: pyfloat
  fp_window :: pyfloat
  fp_min_confidence :: pyfloat
  fp_max_english :: pyfloat

definition default_forced_params :: forced_params where
  "default_forced_params = \<lparr>fp_primary = ''en'', fp_min_span = 5 / 2, fp_merge_gap = 3 / 2, fp_conf_floor = 1 / 2,
     fp_over_flag = True, fp_mostly_foreign = 1 / 2, fp_window = 15, fp_min_confidence = 1 / 2, fp_max_english = 1 / 4\<rparr>"

definition forced_english_tags :: "string list" where "forced_english_tags = [''en'', ''eng'']"

definition is_english :: "string option \<Rightarrow> forced_params \<Rightarrow> bool" where
  "is_english lang p \<longleftrightarrow> truthy_str lang \<and> lower (or_empty lang) \<in> set (lower (fp_primary p) # ''eng'' # forced_english_tags)"

section \<open>Utterances\<close>

text \<open>An utterance with its foreign flag.\<close>

type_synonym classified = "(utterance \<times> bool) list"

definition classify_utterances ::
    "utterance list \<Rightarrow> (utterance \<Rightarrow> string option \<times> pyfloat) \<Rightarrow> forced_params \<Rightarrow> classified" where
  "classify_utterances us lid p =
     map (\<lambda>u. case lid u of (lang, conf) \<Rightarrow>
        (u, (lang \<noteq> None \<and> \<not> is_english lang p) \<or> (fp_over_flag p \<and> conf < fp_conf_floor p))) us"

definition speech_s :: "utterance list \<Rightarrow> pyfloat" where
  "speech_s us = sum_list (map (\<lambda>(s, e). e - s) us)"

definition foreign_of :: "classified \<Rightarrow> utterance list" where
  "foreign_of c = map fst (filter snd c)"

definition foreign_fraction :: "classified \<Rightarrow> pyfloat" where
  "foreign_fraction c = (let n = speech_s (map fst c) in if n \<le> 0 then 0 else speech_s (foreign_of c) / n)"

definition is_mostly_foreign :: "classified \<Rightarrow> forced_params \<Rightarrow> bool" where
  "is_mostly_foreign c p \<longleftrightarrow> fp_mostly_foreign p < foreign_fraction c"

section \<open>Spans\<close>

text \<open>\<open>merged[-1]\<close> is the first element of the accumulator.\<close>

fun merge_step :: "pyfloat \<Rightarrow> utterance list \<Rightarrow> utterance list \<Rightarrow> utterance list" where
  "merge_step gap [] acc = rev acc"
| "merge_step gap ((s, e) # us) [] = merge_step gap us [(s, e)]"
| "merge_step gap ((s, e) # us) ((a, b) # acc) =
     (if s - b \<le> gap then merge_step gap us ((a, max b e) # acc) else merge_step gap us ((s, e) # (a, b) # acc))"

definition merged_ranges :: "classified \<Rightarrow> forced_params \<Rightarrow> utterance list" where
  "merged_ranges c p = merge_step (fp_merge_gap p) (sort (foreign_of c)) []"

definition ms_of :: "pyfloat \<Rightarrow> int" where
  "ms_of t = py_round (t * 1000)"

definition merge_foreign_spans :: "classified \<Rightarrow> forced_params \<Rightarrow> span list" where
  "merge_foreign_spans c p =
     map (\<lambda>(s, e). \<lparr>sp_start = ms_of s, sp_end = ms_of e\<rparr>) (filter (\<lambda>(s, e). fp_min_span p \<le> e - s) (merged_ranges c p))"

definition assemble_foreign_spans ::
    "utterance list \<Rightarrow> (utterance \<Rightarrow> string option \<times> pyfloat) \<Rightarrow> forced_params \<Rightarrow> span list" where
  "assemble_foreign_spans us lid p = merge_foreign_spans (classify_utterances us lid p) p"

section \<open>Windows\<close>

record speech_window =
  wd_start :: pyfloat
  wd_end :: pyfloat
  wd_members :: "nat list"

text \<open>The inner loop: how far a window that starts at \<open>w_start\<close> reaches.\<close>

function window_end :: "utterance list \<Rightarrow> pyfloat \<Rightarrow> pyfloat \<Rightarrow> nat \<Rightarrow> nat" where
  "window_end us w_start window_s j =
     (if j < length us \<and> snd (us ! j) - w_start \<le> window_s then window_end us w_start window_s (j + 1) else j)"
  by pat_completeness auto
termination by (relation "measure (\<lambda>(us, _, _, j). length us - j)") auto

declare window_end.simps [simp del]

lemma window_end_ge: "j \<le> window_end us a w j"
proof (induction us a w j rule: window_end.induct)
  case (1 us a w j)
  then show ?case by (subst window_end.simps) auto
qed

lemma window_end_le: "j \<le> length us \<Longrightarrow> window_end us a w j \<le> length us"
proof (induction us a w j rule: window_end.induct)
  case (1 us a w j)
  then show ?case by (subst window_end.simps) auto
qed

text \<open>The outer loop ends because every window takes at least the utterance it starts with.\<close>

function assemble_windows_from :: "utterance list \<Rightarrow> pyfloat \<Rightarrow> nat \<Rightarrow> speech_window list" where
  "assemble_windows_from us window_s i =
     (if i < length us
      then (let j = window_end us (fst (us ! i)) window_s (i + 1)
            in \<lparr>wd_start = fst (us ! i), wd_end = snd (us ! (j - 1)), wd_members = [i..<j]\<rparr>
               # assemble_windows_from us window_s j)
      else [])"
  by pat_completeness auto
termination
proof (relation "measure (\<lambda>(us, _, i). length us - i)")
  fix us :: "utterance list" and window_s i j
  assume "i < length us" "j = window_end us (fst (us ! i)) window_s (i + 1)"
  then show "((us, window_s, j), us, window_s, i) \<in> measure (\<lambda>(us, _, i). length us - i)"
    using window_end_ge [of "i + 1" us "fst (us ! i)" window_s] by simp
qed simp

declare assemble_windows_from.simps [simp del]

definition assemble_windows :: "utterance list \<Rightarrow> pyfloat \<Rightarrow> speech_window list" where
  "assemble_windows us window_s = assemble_windows_from us window_s 0"

definition window_is_foreign :: "string option \<Rightarrow> pyfloat \<Rightarrow> pyfloat \<Rightarrow> forced_params \<Rightarrow> bool" where
  "window_is_foreign top_lang top_prob english_prob p \<longleftrightarrow>
     top_lang \<noteq> None \<and> \<not> is_english top_lang p \<and> fp_min_confidence p \<le> top_prob \<and> english_prob \<le> fp_max_english p"

text \<open>\<open>flag_by_idx\<close>: a later window overwrites an earlier one.\<close>

definition window_flag :: "speech_window list \<Rightarrow> bool list \<Rightarrow> nat \<Rightarrow> bool" where
  "window_flag ws flags k =
     (case List.find (\<lambda>(w, _). k \<in> set (wd_members w)) (rev (zip ws flags)) of None \<Rightarrow> False | Some (_, b) \<Rightarrow> b)"

definition expand_window_verdicts :: "utterance list \<Rightarrow> speech_window list \<Rightarrow> bool list \<Rightarrow> classified" where
  "expand_window_verdicts us ws flags = map (\<lambda>k. (us ! k, window_flag ws flags k)) [0..<length us]"

section \<open>File names and the subtitle file\<close>

definition forced_sidecar_name :: "string \<Rightarrow> string \<Rightarrow> string" where
  "forced_sidecar_name stem lang = stem @ ''.'' @ lang @ ''.forced.srt''"

definition is_forced_sidecar_for :: "string \<Rightarrow> string \<Rightarrow> string \<Rightarrow> bool" where
  "is_forced_sidecar_for filename stem lang =
     (let name = rsplit_last (CHR ''/'') filename in
      if \<not> suffix ''.srt'' (lower name) then False
      else (let base = take (length name - 4) name in
        if \<not> prefix stem base then False
        else (let parts = map lower (filter (\<lambda>p. p \<noteq> []) (split_on (CHR ''.'') (drop (length stem) base)));
                  want = (if lower lang = ''en'' then [lower lang, ''eng''] else [lower lang])
              in ''forced'' \<in> set parts \<and> list_ex (\<lambda>p. p \<in> set want) parts)))"

text \<open>\<open>str.splitlines\<close> on the Latin-1 range.\<close>

definition line_break :: "char \<Rightarrow> bool" where
  "line_break c \<longleftrightarrow> code_of c \<in> {10, 11, 12, 13, 28, 29, 30, 133}"

fun split_lines :: "string \<Rightarrow> string list" where
  "split_lines [] = []"
| "split_lines (c # cs) =
     (if c = cr \<and> prefix [nl] cs then [] # split_lines (tl cs)
      else if line_break c then [] # split_lines cs
      else (case split_lines cs of [] \<Rightarrow> [[c]] | l # ls \<Rightarrow> (c # l) # ls))"

definition cue_lines :: "string \<Rightarrow> string list" where
  "cue_lines body = map strip (filter (\<lambda>l. strip l \<noteq> []) (split_lines body))"

definition built_cues :: "(int \<times> int \<times> string) list \<Rightarrow> cue list" where
  "built_cues cues =
     map (\<lambda>(s, e, body). \<lparr>cu_index = 0, cu_start = s, cu_end = e, cu_lines = cue_lines body\<rparr>)
       (filter (\<lambda>(s, e, body). cue_lines body \<noteq> []) cues)"

definition build_forced_srt :: "(int \<times> int \<times> string) list \<Rightarrow> string" where
  "build_forced_srt cues = render_srt (built_cues cues)"

section \<open>The gate\<close>

definition gate_min_runtime_s :: pyfloat where "gate_min_runtime_s = 120"

datatype gate_reason = Not_english_audio | Multilingual | Existing_forced | Too_short | Qualifies

definition qualifies_for_forced_segment ::
    "string list \<Rightarrow> english_label option \<Rightarrow> string option \<Rightarrow> bool \<Rightarrow> pyfloat option \<Rightarrow> forced_params \<Rightarrow> pyfloat \<Rightarrow> bool \<times> gate_reason" where
  "qualifies_for_forced_segment audio_langs embedded lang_class has_sidecar duration p min_runtime =
     (if \<not> list_ex (\<lambda>l. lower l \<in> set (fp_primary p # forced_english_tags)) audio_langs then (False, Not_english_audio)
      else if lang_class = Some ''multi'' then (False, Multilingual)
      else if embedded = Some EN_forced \<or> has_sidecar then (False, Existing_forced)
      else if (case duration of None \<Rightarrow> False | Some d \<Rightarrow> d < min_runtime) then (False, Too_short)
      else (True, Qualifies))"

section \<open>Windows partition the speech\<close>

definition window_ok :: "utterance list \<Rightarrow> pyfloat \<Rightarrow> speech_window \<Rightarrow> bool" where
  "window_ok us window_s w \<longleftrightarrow>
     (let ks = wd_members w in
      ks \<noteq> [] \<and> wd_start w = fst (us ! hd ks) \<and> wd_end w = snd (us ! last ks)
      \<and> list_all (\<lambda>k. k = hd ks \<or> snd (us ! k) - wd_start w \<le> window_s) ks
      \<and> (length us \<le> last ks + 1 \<or> window_s < snd (us ! (last ks + 1)) - wd_start w))"

lemma window_end_fits: "j \<le> k \<Longrightarrow> k < window_end us a w j \<Longrightarrow> snd (us ! k) - a \<le> w"
proof (induction us a w j rule: window_end.induct)
  case (1 us a w j)
  show ?case
  proof (cases "j < length us \<and> snd (us ! j) - a \<le> w")
    case True
    with 1 show ?thesis by (cases "k = j") (simp_all add: window_end.simps [of us a w j])
  next
    case False
    with 1 show ?thesis by (simp add: window_end.simps [of us a w j])
  qed
qed

lemma window_end_stops: "window_end us a w j < length us \<Longrightarrow> w < snd (us ! window_end us a w j) - a"
proof (induction us a w j rule: window_end.induct)
  case (1 us a w j)
  then show ?case
    by (cases "j < length us \<and> snd (us ! j) - a \<le> w") (auto simp: window_end.simps [of us a w j])
qed

lemma assemble_windows_from_ok:
  "i \<le> length us \<Longrightarrow> concat (map wd_members (assemble_windows_from us w i)) = [i..<length us]
     \<and> list_all (window_ok us w) (assemble_windows_from us w i)"
proof (induction us w i rule: assemble_windows_from.induct)
  case (1 us w i)
  show ?case
  proof (cases "i < length us")
    case True
    define j where "j = window_end us (fst (us ! i)) w (i + 1)"
    have j: "i + 1 \<le> j" "j \<le> length us"
      using True by (simp_all add: j_def window_end_ge window_end_le)
    let ?w = "\<lparr>wd_start = fst (us ! i), wd_end = snd (us ! (j - 1)), wd_members = [i..<j]\<rparr>"
    have step: "assemble_windows_from us w i = ?w # assemble_windows_from us w j"
      using True by (subst assemble_windows_from.simps) (simp add: j_def Let_def)
    have ends: "hd [i..<j] = i" "last [i..<j] = j - 1" using j by (simp_all add: last_conv_nth)
    have "k = i \<or> snd (us ! k) - fst (us ! i) \<le> w" if "k \<in> set [i..<j]" for k
      using that window_end_fits [of "i + 1" k us "fst (us ! i)" w] by (cases "k = i") (simp_all add: j_def)
    then have "\<forall>k \<in> set [i..<j]. k = i \<or> snd (us ! k) - fst (us ! i) \<le> w" by blast
    moreover have "length us \<le> j \<or> w < snd (us ! j) - fst (us ! i)"
      using window_end_stops [of us "fst (us ! i)" w "i + 1"] unfolding j_def by linarith
    ultimately have "window_ok us w ?w"
      using j by (simp add: window_ok_def ends list_all_iff)
    moreover have "[i..<j] @ [j..<length us] = [i..<length us]"
      using j upt_add_eq_append [of i j "length us - j"] by simp
    ultimately show ?thesis
      using "1.IH" [OF True j_def] j by (simp add: step)
  next
    case False
    then have "assemble_windows_from us w i = []" by (subst assemble_windows_from.simps) simp
    with False show ?thesis by simp
  qed
qed

text \<open>C33. The windows are built in one pass that always ends, and they partition the speech: their
  utterances, read in order, are exactly all utterances, each in one window. A window starts with its
  first utterance and ends with its last, whatever joins it ends within the window length, and it
  was extended as far as it could be: the utterance after it would not have fitted.\<close>

theorem windows_partition_speech:
  "concat (map wd_members (assemble_windows us w)) = [0..<length us] \<and> list_all (window_ok us w) (assemble_windows us w)"
  by (simp add: assemble_windows_def assemble_windows_from_ok)

section \<open>Merged spans\<close>

definition apart :: "pyfloat \<Rightarrow> utterance \<Rightarrow> utterance \<Rightarrow> bool" where
  "apart gap r q \<longleftrightarrow> snd r + gap < fst q"

definition inside :: "utterance \<Rightarrow> utterance \<Rightarrow> bool" where
  "inside u r \<longleftrightarrow> fst r \<le> fst u \<and> snd u \<le> snd r"

lemma inside_trans: "inside u r \<Longrightarrow> inside r q \<Longrightarrow> inside u q"
  by (auto simp: inside_def)

text \<open>The utterances still to come start no earlier than the ranges merged so far.\<close>

definition in_order :: "utterance list \<Rightarrow> utterance list \<Rightarrow> bool" where
  "in_order us acc \<longleftrightarrow> sorted us \<and> (\<forall>r \<in> set acc. \<forall>u \<in> set us. fst r \<le> fst u)"

lemma in_order_step:
  assumes "in_order ((s, e) # us) ((a, b) # acc)"
  shows "a \<le> s" "in_order us ((a, x) # acc)" "in_order us ((s, e) # (a, b) # acc)" "\<forall>q \<in> set acc. fst q \<le> s"
  using assms by (auto simp: in_order_def less_eq_prod_def)

lemma in_order_first: "in_order ((s, e) # us) [] \<Longrightarrow> in_order us [(s, e)]"
  by (auto simp: in_order_def less_eq_prod_def)

lemma merge_step_apart:
  "in_order us acc \<Longrightarrow> sorted_wrt (\<lambda>q r. apart gap r q) acc \<Longrightarrow> sorted_wrt (apart gap) (merge_step gap us acc)"
proof (induction gap us acc rule: merge_step.induct)
  case (1 gap acc)
  then show ?case by (simp add: sorted_wrt_rev)
next
  case (2 gap s e us)
  then show ?case by (simp add: in_order_first)
next
  case (3 gap s e us a b acc)
  note o = in_order_step [OF "3.prems"(1)]
  show ?case
  proof (cases "s - b \<le> gap")
    case True
    with "3.IH"(1) [OF True o(2)] "3.prems"(2) show ?thesis by (simp add: apart_def)
  next
    case False
    then have "\<forall>q \<in> set ((a, b) # acc). apart gap q (s, e)"
      using "3.prems"(2) o(1) by (force simp: apart_def)
    with "3.IH"(2) [OF False o(3)] "3.prems"(2) False show ?thesis by simp
  qed
qed

lemma merge_step_inside:
  "in_order us acc \<Longrightarrow> u \<in> set us \<union> set acc \<Longrightarrow> \<exists>r \<in> set (merge_step gap us acc). inside u r"
proof (induction gap us acc arbitrary: u rule: merge_step.induct)
  case (1 gap acc)
  then show ?case by (auto simp: inside_def)
next
  case (2 gap s e us)
  then show ?case by (simp add: in_order_first)
next
  case (3 gap s e us a b acc)
  note o = in_order_step [OF "3.prems"(1)]
  show ?case
  proof (cases "s - b \<le> gap")
    case True
    note ih = "3.IH"(1) [OF True o(2)]
    have "inside (s, e) (a, max b e)" "inside (a, b) (a, max b e)" using o(1) by (simp_all add: inside_def)
    moreover have "\<exists>r \<in> set (merge_step gap us ((a, max b e) # acc)). inside (a, max b e) r"
      by (rule ih) simp
    ultimately have "\<exists>r \<in> set (merge_step gap us ((a, max b e) # acc)). inside u r" if "u = (s, e) \<or> u = (a, b)"
      using that inside_trans by blast
    moreover have "\<exists>r \<in> set (merge_step gap us ((a, max b e) # acc)). inside u r" if "u \<in> set us \<union> set acc"
      using that by (intro ih) auto
    ultimately show ?thesis using "3.prems"(2) True by auto
  next
    case False
    with "3.IH"(2) [OF False o(3), of u] "3.prems"(2) show ?thesis by auto
  qed
qed

lemma merge_step_ends:
  "r \<in> set (merge_step gap us acc) \<Longrightarrow> fst r \<in> fst ` (set us \<union> set acc) \<and> snd r \<in> snd ` (set us \<union> set acc)"
proof (induction gap us acc rule: merge_step.induct)
  case (3 gap s e us a b acc)
  show ?case
  proof (cases "s - b \<le> gap")
    case True
    with 3 have "fst r \<in> insert a (fst ` (set us \<union> set acc)) \<and> snd r \<in> insert (max b e) (snd ` (set us \<union> set acc))"
      by (auto simp: image_Un)
    moreover have "max b e = b \<or> max b e = e" by (simp add: max_def)
    ultimately show ?thesis by (auto simp: image_Un)
  next
    case False
    with 3 have "fst r \<in> insert s (insert a (fst ` (set us \<union> set acc))) \<and> snd r \<in> insert e (insert b (snd ` (set us \<union> set acc)))"
      by (auto simp: image_Un)
    then show ?thesis by (auto simp: image_Un)
  qed
qed auto

text \<open>Merging foreign utterances loses nothing and joins no more than it should: every foreign utterance
  lies inside one merged range, every merged range starts where a foreign utterance starts and ends
  where one ends, consecutive ranges are further apart than the merge gap, and the spans that are
  written are exactly the merged ranges that reach the minimum length.\<close>

theorem merged_spans_exact:
  fixes c :: classified and p :: forced_params
  shows "sorted_wrt (apart (fp_merge_gap p)) (merged_ranges c p)
    \<and> list_all (\<lambda>u. list_ex (inside u) (merged_ranges c p)) (foreign_of c)
    \<and> list_all (\<lambda>r. fst r \<in> fst ` set (foreign_of c) \<and> snd r \<in> snd ` set (foreign_of c)) (merged_ranges c p)
    \<and> merge_foreign_spans c p
      = map (\<lambda>r. \<lparr>sp_start = ms_of (fst r), sp_end = ms_of (snd r)\<rparr>) (filter (\<lambda>r. fp_min_span p \<le> snd r - fst r) (merged_ranges c p))"
proof -
  have o: "in_order (sort (foreign_of c)) []" by (simp add: in_order_def)
  show ?thesis
    using merge_step_apart [OF o, of "fp_merge_gap p"] merge_step_inside [OF o, of _ "fp_merge_gap p"]
      merge_step_ends [of _ "fp_merge_gap p" "sort (foreign_of c)" "[]"]
    by (auto simp: merged_ranges_def merge_foreign_spans_def list_all_iff list_ex_iff case_prod_unfold)
qed

section \<open>Names and text\<close>

definition token :: "string \<Rightarrow> bool" where
  "token w \<longleftrightarrow> w \<noteq> [] \<and> CHR ''.'' \<notin> set w \<and> CHR ''/'' \<notin> set w"

lemma rsplit_last_whole: "c \<notin> set s \<Longrightarrow> rsplit_last c s = s"
proof -
  assume "c \<notin> set s"
  then have "takeWhile (\<lambda>x. x \<noteq> c) (rev s) = rev s" by (intro takeWhile_eq_all_conv [THEN iffD2]) auto
  then show ?thesis by (simp only: rsplit_last_def rev_rev_ident)
qed

lemma forced_tokens_read:
  assumes "token a" "token b" "CHR ''/'' \<notin> set stem"
  shows "is_forced_sidecar_for (stem @ ''.'' @ a @ ''.'' @ b @ ''.srt'') stem lang
    \<longleftrightarrow> ''forced'' \<in> {lower a, lower b} \<and> {lower a, lower b} \<inter> (if lower lang = ''en'' then {lower lang, ''eng''} else {lower lang}) \<noteq> {}"
proof -
  let ?base = "stem @ ''.'' @ a @ ''.'' @ b"
  have name: "rsplit_last (CHR ''/'') (?base @ ''.srt'') = ?base @ ''.srt''"
    using assms by (intro rsplit_last_whole) (simp add: token_def)
  have low: "suffix ''.srt'' (lower (?base @ ''.srt''))"
  proof -
    have "lower (?base @ ''.srt'') = lower ?base @ ''.srt''" by (simp add: lower_def lower_char_def code_of_def)
    then show ?thesis by (simp add: suffix_def)
  qed
  have parts: "split_on (CHR ''.'') (''.'' @ a @ ''.'' @ b) = [[], a, b]"
    using assms split_on_append_sep [of "CHR ''.''" a b] split_on_single [of "CHR ''.''" b] by (simp add: token_def)
  have "take (length (?base @ ''.srt'') - 4) (?base @ ''.srt'') = ?base" by simp
  moreover have "prefix stem ?base" "drop (length stem) ?base = ''.'' @ a @ ''.'' @ b" by simp_all
  ultimately show ?thesis
    using assms(1,2) name low parts unfolding is_forced_sidecar_for_def Let_def by (auto simp: token_def)
qed

text \<open>The name the writer gives a forced sidecar is recognised by the reader, for every file stem and
  every language code without dots and slashes, and an English one is also recognised under its
  three-letter code and in the old order of tokens.\<close>

theorem forced_name_roundtrip:
  assumes "lang \<noteq> []" "CHR ''.'' \<notin> set lang" "CHR ''/'' \<notin> set (stem @ lang)"
  shows "is_forced_sidecar_for (forced_sidecar_name stem lang) stem lang
    \<and> is_forced_sidecar_for (stem @ ''.forced.'' @ lang @ ''.srt'') stem lang
    \<and> is_forced_sidecar_for (stem @ ''.eng.forced.srt'') stem ''en''"
proof -
  have t: "token lang" "token ''forced''" "token ''eng''" and s: "CHR ''/'' \<notin> set stem"
    using assms by (simp_all add: token_def)
  have l: "lower ''forced'' = ''forced''" "lower ''eng'' = ''eng''" "lower ''en'' = ''en''"
    by code_simp+
  show ?thesis
    using forced_tokens_read [OF t(1,2) s, of lang] forced_tokens_read [OF t(2,1) s, of lang]
      forced_tokens_read [OF t(3,2) s, of "''en''"]
    by (simp add: l forced_sidecar_name_def)
qed

theorem forced_name_roundtrip_witness:
  "is_forced_sidecar_for (forced_sidecar_name ''Movie (2020)'' ''en'') ''Movie (2020)'' ''en''"
  using forced_name_roundtrip [of "''en''" "''Movie (2020)''"] by simp

lemma line_break_line: "l \<in> set (split_lines s) \<Longrightarrow> c \<in> set l \<Longrightarrow> \<not> line_break c"
proof (induction s arbitrary: l c rule: split_lines.induct)
  case (2 d cs)
  show ?case
  proof (cases "(d = cr \<and> prefix [nl] cs) \<or> line_break d")
    case True
    with 2 show ?thesis by (auto split: if_splits)
  next
    case False
    then have "split_lines (d # cs) = (case split_lines cs of [] \<Rightarrow> [[d]] | l # ls \<Rightarrow> (d # l) # ls)" by auto
    moreover have "\<forall>k \<in> set (split_lines cs). \<forall>x \<in> set k. \<not> line_break x"
      using "2.IH"(3) False by blast
    ultimately show ?thesis
      using "2.prems" False by (cases "split_lines cs") auto
  qed
qed simp

lemma last_strip_of: "strip_of p s \<noteq> [] \<Longrightarrow> \<not> p (last (strip_of p s))"
  by (simp add: strip_of_def last_rev hd_dropWhile)

lemma cue_line_ok:
  assumes "l \<in> set (cue_lines body)"
  shows "text_line l \<and> \<not> py_space (last l)"
proof -
  from assms obtain k where k: "k \<in> set (split_lines body)" "l = strip k" "strip k \<noteq> []"
    by (auto simp: cue_lines_def)
  have "set l \<subseteq> set k" using set_strip_of [of py_space k] by (simp add: k(2) strip_def)
  moreover have "line_break nl" "line_break cr" by code_simp+
  ultimately have "nl \<notin> set l" "cr \<notin> set l" using line_break_line [OF k(1)] by blast+
  moreover have "\<not> py_space (last l)" "\<not> py_space (hd l)"
    using k(3) hd_strip_of [of py_space k] last_strip_of [of py_space k] by (simp_all add: k(2) strip_def)
  moreover have "strip l \<noteq> []"
    using k(3) calculation(4) unfolding k(2) [symmetric] strip_nonempty_iff by (meson hd_in_set)
  ultimately show ?thesis by (simp add: text_line_def)
qed

text \<open>Whatever text the translation returns, the forced subtitle file reads back as the cues that were
  put into it: those with visible text, their blank lines and the white space around lines removed,
  numbered from one.\<close>

theorem forced_srt_roundtrip:
  assumes "list_all (\<lambda>(s, e, body). 0 \<le> s \<and> s < 360000000 \<and> 0 \<le> e \<and> e < 360000000) cues"
  shows "parse_srt (build_forced_srt cues) = Some (renumber 1 (built_cues cues))"
proof -
  have "printable c" if "c \<in> set (built_cues cues)" for c
  proof -
    from that obtain s e body where c: "(s, e, body) \<in> set cues" "c = \<lparr>cu_index = 0, cu_start = s, cu_end = e, cu_lines = cue_lines body\<rparr>"
      by (auto simp: built_cues_def)
    with assms show ?thesis
      using cue_line_ok [of _ body] by (auto simp: printable_def list_all_iff)
  qed
  moreover have "\<not> py_space (last (last (cu_lines (last (built_cues cues)))))" if "built_cues cues \<noteq> []"
  proof -
    from that have "last (built_cues cues) \<in> set (built_cues cues)" by simp
    then obtain s e body where c: "cue_lines body \<noteq> []" "cu_lines (last (built_cues cues)) = cue_lines body"
      unfolding built_cues_def by auto
    with cue_line_ok [of "last (cue_lines body)" body] show ?thesis by simp
  qed
  ultimately have "printable_cues (built_cues cues)"
    by (auto simp: printable_cues_def list_all_iff)
  then show ?thesis by (simp add: build_forced_srt_def parse_rendered)
qed

theorem forced_srt_roundtrip_witness:
  "parse_srt (build_forced_srt [(1000, 2500, '' Hola ''), (3000, 4000, ''  '')])
     = Some (renumber 1 (built_cues [(1000, 2500, '' Hola ''), (3000, 4000, ''  '')]))"
  by (rule forced_srt_roundtrip) simp

end
