(* ===== verification/Onboarding.thy ===== *)
theory Onboarding
  imports Config
begin

text \<open>
  The setup wizard (\<open>src/src/subarr/onboarding.py\<close> and the state endpoints of
  \<open>src/src/subarr/routers/onboarding.py\<close>): the one stored row with the values entered so far, the masking of
  secrets on the way out and its guard on the way in, the values shown from the running configuration, and the
  flush of the wizard into the configuration and the store of overrides. The bullet of the mask is written as
  character 149, its place in Windows-1252; a character of the model is one of 256.
\<close>

section \<open>Secrets\<close>

definition secret_suffixes :: "string list" where
  "secret_suffixes = [''_api_key'', ''_apikey'', ''_token'', ''_password'', ''_secret'']"

definition mask :: string where "mask = replicate 4 (CHR 149)"

definition is_secret_key :: "string \<Rightarrow> bool" where
  "is_secret_key k \<longleftrightarrow> list_ex (\<lambda>s. suffix s (lower k)) secret_suffixes"

definition mask_secret :: "json \<Rightarrow> json" where
  "mask_secret v =
     (case v of
        JStr s \<Rightarrow> if s = [] then v else JStr (if 4 < length s then mask @ drop (length s - 4) s else mask)
      | _ \<Rightarrow> v)"

definition is_masked :: "json \<Rightarrow> bool" where
  "is_masked v = (case v of JStr s \<Rightarrow> prefix mask s | _ \<Rightarrow> False)"

type_synonym progress = "(string \<times> json) list"

definition mask_progress :: "progress \<Rightarrow> progress" where
  "mask_progress p = map (\<lambda>(k, v). (k, if is_secret_key k then mask_secret v else v)) p"

section \<open>The running configuration as a first answer\<close>

definition prefill_fields :: "string list" where
  "prefill_fields =
    [''media_root'', ''arr_path_prefix'', ''bazarr_url'', ''bazarr_api_key'', ''sonarr_url'', ''sonarr_api_key'',
     ''radarr_url'', ''radarr_api_key'', ''tautulli_url'', ''tautulli_api_key'', ''subgen_url'', ''ollama_url'',
     ''ollama_model'', ''plex_url'', ''plex_token'']"

definition configured_signals :: "string list" where
  "configured_signals = [''bazarr_api_key'', ''sonarr_api_key'', ''radarr_api_key'', ''tautulli_api_key'', ''plex_token'']"

definition install_is_configured :: "settings \<Rightarrow> bool" where
  "install_is_configured s \<longleftrightarrow> list_ex (\<lambda>f. text_of s f \<noteq> []) configured_signals"

definition settings_prefill :: "settings \<Rightarrow> progress" where
  "settings_prefill s = map (\<lambda>f. (f, JStr (text_of s f))) (filter (\<lambda>f. text_of s f \<noteq> []) prefill_fields)"

section \<open>The stored row\<close>

definition step_done :: int where "step_done = 12"
definition max_step :: int where "max_step = step_done"

text \<open>The progress column is \<open>None\<close> when its text is no JSON.\<close>

record onboarding_row =
  ob_step :: int
  ob_completed :: "pyfloat option"
  ob_json :: "progress option"
  ob_created :: pyfloat
  ob_updated :: pyfloat
  ob_seen :: "pyfloat option"

definition ensure_row :: "pyfloat \<Rightarrow> onboarding_row option \<Rightarrow> onboarding_row" where
  "ensure_row now r =
     (case r of
        Some row \<Rightarrow> row
      | None \<Rightarrow> \<lparr>ob_step = 0, ob_completed = None, ob_json = Some [], ob_created = now, ob_updated = now, ob_seen = None\<rparr>)"

definition progress_of :: "onboarding_row \<Rightarrow> progress" where
  "progress_of r = (case ob_json r of None \<Rightarrow> [] | Some p \<Rightarrow> p)"

definition mark_ui_seen :: "pyfloat \<Rightarrow> onboarding_row \<Rightarrow> onboarding_row" where
  "mark_ui_seen now r = r\<lparr>ob_seen := (case ob_seen r of None \<Rightarrow> Some now | Some t \<Rightarrow> Some t)\<rparr>"

definition patch_field :: "string \<times> json \<Rightarrow> progress \<Rightarrow> progress" where
  "patch_field kv p =
     (if snd kv = JNull then AList.delete (fst kv) p
      else if is_secret_key (fst kv) \<and> is_masked (snd kv) then p
      else AList.update (fst kv) (snd kv) p)"

definition update_row ::
    "int option \<Rightarrow> progress \<Rightarrow> string list \<Rightarrow> pyfloat \<Rightarrow> onboarding_row \<Rightarrow> onboarding_row" where
  "update_row step patch unset now r =
     r\<lparr>ob_step := (case step of None \<Rightarrow> ob_step r | Some n \<Rightarrow> max 0 (min max_step n)),
       ob_json := Some (fold AList.delete unset (fold patch_field patch (progress_of r))),
       ob_updated := now\<rparr>"

definition complete_row :: "pyfloat \<Rightarrow> onboarding_row \<Rightarrow> onboarding_row" where
  "complete_row now r =
     r\<lparr>ob_step := step_done, ob_completed := (case ob_completed r of None \<Rightarrow> Some now | Some t \<Rightarrow> Some t), ob_updated := now\<rparr>"

definition reset_row :: "pyfloat \<Rightarrow> onboarding_row \<Rightarrow> onboarding_row" where
  "reset_row now r = r\<lparr>ob_step := 0, ob_completed := None, ob_json := Some [], ob_updated := now\<rparr>"

definition is_complete :: "onboarding_row \<Rightarrow> bool" where "is_complete r \<longleftrightarrow> ob_completed r \<noteq> None"

text \<open>The progress that a request for the state is answered with: \<open>to_dict\<close> masks the stored progress, and the
  masked values of the running configuration are merged below it.\<close>

definition state_progress :: "onboarding_row \<Rightarrow> progress" where
  "state_progress r = mask_progress (progress_of r)"

definition apply_prefill :: "progress \<Rightarrow> settings \<Rightarrow> progress" where
  "apply_prefill shown s = AList.merge (mask_progress (settings_prefill s)) shown"

definition get_state :: "settings \<Rightarrow> onboarding_row \<Rightarrow> progress" where
  "get_state s r = apply_prefill (state_progress r) s"

text \<open>A connection test of a service with a masked or blank credential uses the configured one. A result
  \<open>None\<close> leaves the request as it is.\<close>

definition test_cred_attr :: "(string \<times> string) list" where
  "test_cred_attr =
    [(''bazarr'', ''bazarr_api_key''), (''sonarr'', ''sonarr_api_key''), (''radarr'', ''radarr_api_key''),
     (''tautulli'', ''tautulli_api_key''), (''openai'', ''openai_api_key'')]"

record test_request =
  tr_api_key :: string
  tr_token :: string

definition resolve_masked_credential :: "settings \<Rightarrow> string \<Rightarrow> test_request \<Rightarrow> test_request" where
  "resolve_masked_credential s service body =
     (let svc = lower service in
      if svc = ''plex'' then
        (let tok = or_str (tr_token body) (tr_api_key body) in
         if (tok = [] \<or> is_masked (JStr tok)) \<and> text_of s ''plex_token'' \<noteq> [] then body\<lparr>tr_token := text_of s ''plex_token''\<rparr>
         else body)
      else (case map_of test_cred_attr svc of
          None \<Rightarrow> body
        | Some attr \<Rightarrow>
            if (tr_api_key body = [] \<or> is_masked (JStr (tr_api_key body))) \<and> text_of s attr \<noteq> []
            then body\<lparr>tr_api_key := text_of s attr\<rparr> else body))"

section \<open>The flush into the configuration\<close>

definition library_defining_fields :: "string list" where
  "library_defining_fields = [''media_root'', ''subgen_media_prefix'', ''arr_path_prefix'']"

definition instance_defining_fields :: "string list" where
  "instance_defining_fields =
    [''sonarr_url'', ''sonarr_api_key'', ''radarr_url'', ''radarr_api_key'', ''bazarr_url'', ''bazarr_api_key'']"

text \<open>The fields the wizard writes; the first becomes a path.\<close>

definition wizard_fields :: "string list" where
  "wizard_fields =
    [''media_root'', ''arr_path_prefix'', ''bazarr_url'', ''bazarr_api_key'', ''sonarr_url'', ''sonarr_api_key'',
     ''radarr_url'', ''radarr_api_key'', ''tautulli_url'', ''tautulli_api_key'', ''subgen_url'', ''ollama_url'',
     ''ollama_model'']"

record flush_state =
  fl_settings :: settings
  fl_disk :: config_disk
  fl_libs_dirty :: bool
  fl_insts_dirty :: bool

text \<open>\<open>Path(v)\<close> raises for a value that is no string; the value is then skipped. A path has no JSON form: its
  save reads the store, as every save does, and fails before it writes.\<close>

definition wizard_value :: "(json \<Rightarrow> string) \<Rightarrow> string \<Rightarrow> json \<Rightarrow> string option" where
  "wizard_value repr f v =
     (if f = ''media_root'' then (case v of JStr s \<Rightarrow> Some s | _ \<Rightarrow> None) else Some (py_str repr v))"

definition persist_value :: "disk_faults \<Rightarrow> string \<Rightarrow> string \<Rightarrow> config_disk \<Rightarrow> config_disk" where
  "persist_value df f t d = (if f = ''media_root'' then snd (read_result df d) else snd (save_override df f (JStr t) d))"

definition flush_field ::
    "(json \<Rightarrow> string) \<Rightarrow> (string \<Rightarrow> string option) \<Rightarrow> (string \<Rightarrow> disk_faults) \<Rightarrow> progress \<Rightarrow> string \<Rightarrow> flush_state \<Rightarrow> flush_state" where
  "flush_field repr env df p f w =
     (if \<not> truthy (jget f p) \<or> env_is_set env f then w
      else (case wizard_value repr f (jget f p) of
          None \<Rightarrow> w
        | Some t \<Rightarrow>
            w\<lparr>fl_settings := AList.update f (Text t) (fl_settings w),
              fl_libs_dirty := (fl_libs_dirty w \<or> f \<in> set library_defining_fields),
              fl_insts_dirty := (fl_insts_dirty w \<or> f \<in> set instance_defining_fields),
              fl_disk := persist_value (df f) f t (fl_disk w)\<rparr>))"

text \<open>The faults of each access are named by the field that is saved, and by \<open>''libraries''\<close> and \<open>''instances''\<close> for
  the two rebuilds.\<close>

definition apply_progress_to_settings ::
    "(json \<Rightarrow> string) \<Rightarrow> (string \<Rightarrow> string option) \<Rightarrow> (string \<Rightarrow> disk_faults) \<Rightarrow> progress \<Rightarrow> config \<Rightarrow> config_disk
      \<Rightarrow> config \<times> config_disk" where
  "apply_progress_to_settings repr env df p c d =
     (let w = fold (flush_field repr env df p) wizard_fields
                \<lparr>fl_settings = cf_settings c, fl_disk = d, fl_libs_dirty = False, fl_insts_dirty = False\<rparr>;
          (c1, d1) = (let c0 = c\<lparr>cf_settings := fl_settings w\<rparr> in
             if fl_libs_dirty w then rebuild_libraries repr (df ''libraries'') c0 (fl_disk w) else (c0, fl_disk w))
      in if fl_insts_dirty w then rebuild_instances repr (df ''instances'') c1 d1 else (c1, d1))"

text \<open>Completion; the flag says whether the first walk is started: only when the wizard was not complete before, an
  arr service is configured and no scan exists yet.\<close>

definition maybe_auto_first_walk :: "bool \<Rightarrow> nat \<Rightarrow> bool" where
  "maybe_auto_first_walk arr_configured scans \<longleftrightarrow> arr_configured \<and> scans = 0"

definition complete_onboarding ::
    "(json \<Rightarrow> string) \<Rightarrow> (string \<Rightarrow> string option) \<Rightarrow> (string \<Rightarrow> disk_faults) \<Rightarrow> (config \<Rightarrow> bool) \<Rightarrow> nat \<Rightarrow> pyfloat
      \<Rightarrow> onboarding_row \<Rightarrow> config \<Rightarrow> config_disk \<Rightarrow> bool \<times> onboarding_row \<times> config \<times> config_disk" where
  "complete_onboarding repr env df arr_configured scans now r c d =
     (let r' = complete_row now r;
          (c', d') = apply_progress_to_settings repr env df (progress_of r') c d
      in (\<not> is_complete r \<and> maybe_auto_first_walk (arr_configured c') scans, r', c', d'))"

section \<open>Secrets stay on the server, and survive their own masks\<close>

text \<open>The value a field has for the wizard before masking: what was entered, or else what is configured.\<close>

definition wizard_knows :: "settings \<Rightarrow> onboarding_row \<Rightarrow> string \<Rightarrow> json option" where
  "wizard_knows s r k =
     (case map_of (progress_of r) k of Some v \<Rightarrow> Some v | None \<Rightarrow> map_of (settings_prefill s) k)"

lemma map_of_mask_progress: "map_of (mask_progress p) k = map_option (if is_secret_key k then mask_secret else id) (map_of p k)"
  by (induction p) (auto simp: mask_progress_def)

lemma get_state_map:
  "map_of (get_state s r) k = map_option (if is_secret_key k then mask_secret else id) (wizard_knows s r k)"
  by (auto simp: get_state_def apply_prefill_def state_progress_def merge_conv' map_of_mask_progress wizard_knows_def
      map_add_def split: option.splits)

lemma mask_secret_JStr:
  "t \<noteq> [] \<Longrightarrow> \<exists>u. mask_secret (JStr t) = JStr (mask @ u) \<and> suffix u t \<and> length u \<le> 4 \<and> length u < length t"
  by (auto simp: mask_secret_def suffix_drop intro: exI [of _ "[]"])

text \<open>C24. The state served to the wizard never holds a secret in clear: a field whose name ends like a secret is served, if
  its value is a text, as the mask followed by at most four last characters of that text and never all of it, and what is
  served is the same for any two configurations and stored rows that differ in secrets with the same masks only.\<close>

theorem served_secrets_are_masked:
  "(\<forall>k t. is_secret_key k \<and> wizard_knows s r k = Some (JStr t) \<and> t \<noteq> []
      \<longrightarrow> (\<exists>u. map_of (get_state s r) k = Some (JStr (mask @ u)) \<and> suffix u t \<and> length u \<le> 4 \<and> length u < length t))
   \<and> ((\<forall>k. map_option (if is_secret_key k then mask_secret else id) (wizard_knows s r k)
            = map_option (if is_secret_key k then mask_secret else id) (wizard_knows s' r' k))
      \<longrightarrow> map_of (get_state s r) = map_of (get_state s' r'))"
  using mask_secret_JStr by (auto simp: get_state_map fun_eq_iff)

definition demo_row :: "string \<Rightarrow> onboarding_row" where
  "demo_row t =
     \<lparr>ob_step = 3, ob_completed = None, ob_json = Some [(''sonarr_api_key'', JStr t)], ob_created = 0, ob_updated = 0,
      ob_seen = None\<rparr>"

lemma demo_wizard_knows:
  "wizard_knows [] (demo_row t) k = (if k = ''sonarr_api_key'' then Some (JStr t) else None)"
proof -
  have "settings_prefill [] = []" by code_simp
  then show ?thesis by (simp add: wizard_knows_def demo_row_def progress_of_def)
qed

theorem served_secrets_are_masked_witness:
  "(\<exists>u. map_of (get_state [] (demo_row ''abcdef'')) ''sonarr_api_key'' = Some (JStr (mask @ u))
        \<and> suffix u ''abcdef'' \<and> length u \<le> 4 \<and> length u < length ''abcdef'')
   \<and> map_of (get_state [] (demo_row ''abcdef'')) = map_of (get_state [] (demo_row ''xycdef''))"
proof -
  have sec: "is_secret_key ''sonarr_api_key''" and eq: "mask_secret (JStr ''abcdef'') = mask_secret (JStr ''xycdef'')"
    by code_simp+
  note c = served_secrets_are_masked [of "[]" "demo_row ''abcdef''" "[]" "demo_row ''xycdef''"]
  have knows: "is_secret_key ''sonarr_api_key'' \<and> wizard_knows [] (demo_row ''abcdef'') ''sonarr_api_key'' = Some (JStr ''abcdef'')
      \<and> ''abcdef'' \<noteq> []"
    using sec by (simp add: demo_wizard_knows)
  have same: "\<forall>k. map_option (if is_secret_key k then mask_secret else id) (wizard_knows [] (demo_row ''abcdef'') k)
            = map_option (if is_secret_key k then mask_secret else id) (wizard_knows [] (demo_row ''xycdef'') k)"
    using sec eq by (simp add: demo_wizard_knows)
  show ?thesis
    using c [THEN conjunct1, rule_format, OF knows] c [THEN conjunct2, rule_format, OF same [rule_format]] by blast
qed

lemma map_of_patch_field:
  "map_of (patch_field (k, v) p) =
     (if v = JNull then (map_of p)(k := None) else if is_secret_key k \<and> is_masked v then map_of p else (map_of p)(k \<mapsto> v))"
  by (simp add: patch_field_def delete_conv' update_conv')

lemma map_of_patch:
  "distinct (map fst patch) \<Longrightarrow>
   map_of (fold patch_field patch p) k =
     (case map_of patch k of
        None \<Rightarrow> map_of p k
      | Some v \<Rightarrow> if v = JNull then None else if is_secret_key k \<and> is_masked v then map_of p k else Some v)"
proof (induction patch arbitrary: p)
  case (Cons kv patch)
  obtain g v where kv: "kv = (g, v)" by fastforce
  have "map_of patch g = None" using Cons.prems by (simp add: kv map_of_eq_None_iff)
  then show ?case using Cons by (auto simp: kv map_of_patch_field split: option.splits)
qed simp

lemma distinct_get_state: "distinct (map fst (get_state s r))"
proof -
  have "distinct prefill_fields" by code_simp
  then have "distinct (map fst (mask_progress (settings_prefill s)))"
    by (simp add: mask_progress_def settings_prefill_def comp_def case_prod_beta)
  then show ?thesis by (simp add: get_state_def apply_prefill_def distinct_merge)
qed

lemma masked_text: "is_masked (mask_secret v) \<longleftrightarrow> (\<exists>t. v = JStr t \<and> t \<noteq> [])"
  by (cases v) (auto simp: is_masked_def mask_secret_def mask_def)

lemma mask_secret_other: "\<forall>t. v = JStr t \<longrightarrow> t = [] \<Longrightarrow> mask_secret v = v"
  by (cases v) (auto simp: mask_secret_def)

lemma mask_secret_null: "mask_secret v = JNull \<longleftrightarrow> v = JNull"
  by (cases v) (auto simp: mask_secret_def)

lemma settings_prefill_text:
  "map_of (settings_prefill s) k = (if k \<in> set prefill_fields \<and> text_of s k \<noteq> [] then Some (JStr (text_of s k)) else None)"
  by (simp add: settings_prefill_def map_of_map_restrict restrict_map_def)

lemma progress_of_update:
  "progress_of (update_row step patch unset now r) = fold AList.delete unset (fold patch_field patch (progress_of r))"
  by (simp add: update_row_def progress_of_def [of "_\<lparr>ob_updated := _\<rparr>"])

text \<open>C23. When the wizard sends back what it was shown, nothing that was entered is lost, the secrets least of all: every stored
  field keeps its value, no mask is ever stored in place of a secret, and the fields that only the configuration knew are
  added with their configured values, except for the secrets among them.\<close>

theorem echo_keeps_the_answers:
  "jget k (progress_of (update_row step (get_state s r) [] now r)) =
     (case map_of (progress_of r) k of
        Some v \<Rightarrow> v
      | None \<Rightarrow> if is_secret_key k then JNull else jget k (settings_prefill s))"
proof -
  have p: "map_of (progress_of (update_row step (get_state s r) [] now r)) k =
      (case map_of (get_state s r) k of
         None \<Rightarrow> map_of (progress_of r) k
       | Some v \<Rightarrow> if v = JNull then None else if is_secret_key k \<and> is_masked v then map_of (progress_of r) k else Some v)"
    by (simp add: progress_of_update map_of_patch [OF distinct_get_state])
  have prefill: "\<exists>t. v = JStr t \<and> t \<noteq> []" if "map_of (settings_prefill s) k = Some v" for v
    using that by (auto simp: settings_prefill_text split: if_splits)
  show ?thesis
  proof (cases "is_secret_key k")
    case True
    then show ?thesis
      using prefill by (auto simp: jget_def p get_state_map wizard_knows_def masked_text mask_secret_null
          intro: mask_secret_other split: option.splits)
  next
    case False
    then show ?thesis
      using prefill by (auto simp: jget_def p get_state_map wizard_knows_def split: option.splits)
  qed
qed

section \<open>What the wizard sets is there after a restart\<close>

lemma kept_save:
  "\<not> df_read df \<Longrightarrow> kept (snd (save_override df k v d)) = (kept d)(k \<mapsto> v)"
  "disk_ok d \<Longrightarrow> disk_ok (snd (save_override df k v d))"
  by (cases "cd_file d"; simp add: save_override_def read_result_def preserve_corrupt_def kept_def disk_ok_def
      update_conv' distinct_update; force)+

lemma kept_read: "kept (snd (read_result df d)) = kept d" "disk_ok (snd (read_result df d)) = disk_ok d"
  by (cases "cd_file d"; simp add: read_result_def preserve_corrupt_def kept_def disk_ok_def)+

lemma load_overrides_kept: "\<not> df_read df \<Longrightarrow> map_of (fst (load_overrides df d)) = kept d"
  by (cases "cd_file d") (auto simp: load_overrides_def load_overrides_result_def read_result_def kept_def preserve_corrupt_def)

lemma flush_other:
  "f \<noteq> g \<Longrightarrow> \<not> df_read (df f) \<Longrightarrow>
     map_of (fl_settings (flush_field repr env df p f w)) g = map_of (fl_settings w) g
     \<and> kept (fl_disk (flush_field repr env df p f w)) g = kept (fl_disk w) g"
  by (auto simp: flush_field_def persist_value_def update_conv' kept_save kept_read split: option.splits)

lemma flush_disk_ok: "disk_ok (fl_disk w) \<Longrightarrow> disk_ok (fl_disk (flush_field repr env df p f w))"
  by (auto simp: flush_field_def persist_value_def kept_save kept_read split: option.splits)

lemma flush_sets:
  assumes "jget f p = JStr t" and "t \<noteq> []" and "\<not> env_is_set env f" and "f \<noteq> ''media_root''" and "\<not> df_read (df f)"
  shows "map_of (fl_settings (flush_field repr env df p f w)) f = Some (Text t)
    \<and> kept (fl_disk (flush_field repr env df p f w)) f = Some (JStr t)"
  using assms by (simp add: flush_field_def wizard_value_def persist_value_def update_conv' kept_save)

lemma flush_others:
  "g \<notin> set fs \<Longrightarrow> (\<And>f. \<not> df_read (df f)) \<Longrightarrow>
     map_of (fl_settings (fold (flush_field repr env df p) fs w)) g = map_of (fl_settings w) g
     \<and> kept (fl_disk (fold (flush_field repr env df p) fs w)) g = kept (fl_disk w) g"
  by (induction fs arbitrary: w) (use flush_other in \<open>auto 0 3\<close>)

lemma flush_all_disk_ok: "disk_ok (fl_disk w) \<Longrightarrow> disk_ok (fl_disk (fold (flush_field repr env df p) fs w))"
  by (induction fs arbitrary: w) (auto simp: flush_disk_ok)

lemma flush_all_sets:
  assumes "f \<in> set fs" and "distinct fs" and "jget f p = JStr t" and "t \<noteq> []" and "\<not> env_is_set env f" and "f \<noteq> ''media_root''"
    and "\<And>g. \<not> df_read (df g)"
  shows "map_of (fl_settings (fold (flush_field repr env df p) fs w)) f = Some (Text t)
    \<and> kept (fl_disk (fold (flush_field repr env df p) fs w)) f = Some (JStr t)"
proof -
  obtain a b where fs: "fs = a @ f # b" using assms(1) split_list by metis
  then have "f \<notin> set b" using assms(2) by simp
  then show ?thesis
    using flush_sets [OF assms(3-6) assms(7)] flush_others [of f b df] assms(7) by (simp add: fs)
qed

lemma rebuild_disk:
  "snd (rebuild_libraries repr df c d) = snd (read_result df d)"
  "snd (rebuild_instances repr df c d) = snd (read_result df d)"
  by (auto simp: rebuild_libraries_def rebuild_instances_def load_overrides_def load_overrides_result_def Let_def
      split: prod.splits option.splits)

lemma apply_progress_result:
  assumes "apply_progress_to_settings repr env df p c d = (c', d')"
  defines "w \<equiv> fold (flush_field repr env df p) wizard_fields
                \<lparr>fl_settings = cf_settings c, fl_disk = d, fl_libs_dirty = False, fl_insts_dirty = False\<rparr>"
  shows "cf_settings c' = fl_settings w \<and> kept d' = kept (fl_disk w) \<and> disk_ok d' = disk_ok (fl_disk w)"
proof -
  have "c' = fst (apply_progress_to_settings repr env df p c d)" "d' = snd (apply_progress_to_settings repr env df p c d)"
    using assms(1) by simp_all
  then show ?thesis
    by (simp add: apply_progress_to_settings_def split_beta Let_def rebuild_disk kept_read flip: w_def)
qed

lemma wizard_fields_saved:
  "list_all (\<lambda>f. f = ''media_root'' \<or> f = ''arr_path_prefix'' \<or> map_of field_coerce f = Some As_str) wizard_fields"
  "distinct wizard_fields"
  "map_of field_coerce ''media_root'' = None" "map_of field_coerce ''arr_path_prefix'' = None"
  "list_all (\<lambda>(f, r). case map_of settings_table f of None \<Rightarrow> False | Some _ \<Rightarrow> True) (map (\<lambda>f. (f, ())) wizard_fields)"
  by code_simp+



text \<open>The root and the arr prefix do not survive: the root is not saved at all, since a path has no JSON form, and neither of the
  two has a coercion, so that a saved value is ignored when the configuration is loaded.\<close>

lemma wizard_roots_do_not_survive:
  "persist_value df ''media_root'' t d = snd (read_result df d)"
  "overlay repr env (''media_root'', v) s = s" "overlay repr env (''arr_path_prefix'', v) s = s"
  by (simp_all add: persist_value_def overlay_def wizard_fields_saved)

end
