(* ===== verification/OrphanPrune.thy ===== *)
theory OrphanPrune
  imports ProbeStore
begin

text \<open>
  Pruning rows of vanished files (\<open>src/src/subarr/orphan_prune.py\<close>). The stores it sweeps are known to it
  by two operations, \<open>all_paths\<close> and \<open>delete\<close>; the contract it relies on is the locale \<open>path_store\<close>, met by
  the probe cache and by the verdict store.
\<close>

section \<open>The decision\<close>

definition max_missing_ratio :: pyfloat where "max_missing_ratio = 1 / 2"
definition min_total_to_judge :: nat where "min_total_to_judge = 1"

datatype prune_reason = Nothing_to_judge | No_missing_paths | Storage_fault nat nat | Looks_like_renames nat nat

record prune_decision =
  pd_safe :: bool
  pd_would_delete :: nat
  pd_reason :: prune_reason

definition partition_missing :: "(string \<Rightarrow> bool) \<Rightarrow> string list \<Rightarrow> string list \<times> string list" where
  "partition_missing exists paths = (filter exists paths, filter (\<lambda>p. \<not> exists p) paths)"

definition decide_prune :: "pyfloat \<Rightarrow> nat \<Rightarrow> nat \<Rightarrow> prune_decision" where
  "decide_prune ratio n_paths missing =
     (if n_paths < min_total_to_judge then \<lparr>pd_safe = False, pd_would_delete = 0, pd_reason = Nothing_to_judge\<rparr>
      else if missing = 0 then \<lparr>pd_safe = True, pd_would_delete = 0, pd_reason = No_missing_paths\<rparr>
      else if ratio < of_nat missing / of_nat n_paths
      then \<lparr>pd_safe = False, pd_would_delete = missing, pd_reason = Storage_fault missing n_paths\<rparr>
      else \<lparr>pd_safe = True, pd_would_delete = missing, pd_reason = Looks_like_renames missing n_paths\<rparr>)"

section \<open>One store\<close>

text \<open>\<open>sum(1 for p in missing if store.delete(p))\<close>.\<close>

fun delete_all :: "(string \<Rightarrow> 's \<Rightarrow> bool \<times> 's) \<Rightarrow> string list \<Rightarrow> 's \<Rightarrow> nat \<times> 's" where
  "delete_all remove [] s = (0, s)"
| "delete_all remove (p # ps) s =
     (case remove p s of
        (gone, s') \<Rightarrow> (case delete_all remove ps s' of (n, s'') \<Rightarrow> ((if gone then n + 1 else n), s'')))"

record prune_report =
  pt_decision :: prune_decision
  pt_deleted :: nat
  pt_missing :: "string list"

definition prune_missing ::
    "('s \<Rightarrow> string list) \<Rightarrow> (string \<Rightarrow> 's \<Rightarrow> bool \<times> 's) \<Rightarrow> (string \<Rightarrow> bool) \<Rightarrow> bool \<Rightarrow> pyfloat \<Rightarrow> 's \<Rightarrow> prune_report \<times> 's" where
  "prune_missing paths remove exists dry_run ratio s =
     (let missing = snd (partition_missing exists (paths s));
          decision = decide_prune ratio (length (paths s)) (length missing)
      in if \<not> pd_safe decision \<or> dry_run then (\<lparr>pt_decision = decision, pt_deleted = 0, pt_missing = missing\<rparr>, s)
         else (case delete_all remove missing s of
             (n, s') \<Rightarrow> (\<lparr>pt_decision = decision, pt_deleted = n, pt_missing = missing\<rparr>, s')))"

section \<open>Several stores\<close>

record multi_prune_report =
  mp_decision :: prune_decision
  mp_total :: nat
  mp_missing :: "string list"
  mp_deleted :: "(string \<times> nat) list"

definition seen_paths :: "('s \<Rightarrow> string list) \<Rightarrow> (string \<times> 's) list \<Rightarrow> string list" where
  "seen_paths paths stores = fold (\<lambda>p seen. if p \<in> set seen then seen else seen @ [p]) (concat (map (paths \<circ> snd) stores)) []"

fun prune_each ::
    "(string \<Rightarrow> 's \<Rightarrow> bool \<times> 's) \<Rightarrow> string list \<Rightarrow> (string \<times> 's) list \<Rightarrow> (string \<times> nat) list \<times> (string \<times> 's) list" where
  "prune_each remove missing [] = ([], [])"
| "prune_each remove missing ((name, s) # stores) =
     (case (delete_all remove missing s, prune_each remove missing stores) of
        ((n, s'), (counts, stores')) \<Rightarrow> ((name, n) # counts, (name, s') # stores'))"

definition prune_missing_multi ::
    "('s \<Rightarrow> string list) \<Rightarrow> (string \<Rightarrow> 's \<Rightarrow> bool \<times> 's) \<Rightarrow> (string \<Rightarrow> bool) \<Rightarrow> bool \<Rightarrow> pyfloat \<Rightarrow> (string \<times> 's) list
      \<Rightarrow> multi_prune_report \<times> (string \<times> 's) list" where
  "prune_missing_multi paths remove exists dry_run ratio stores =
     (let seen = seen_paths paths stores;
          missing = snd (partition_missing exists seen);
          decision = decide_prune ratio (length seen) (length missing)
      in if \<not> pd_safe decision \<or> dry_run
         then (\<lparr>mp_decision = decision, mp_total = length seen, mp_missing = missing, mp_deleted = []\<rparr>, stores)
         else (case prune_each remove missing stores of
             (counts, stores') \<Rightarrow>
               (\<lparr>mp_decision = decision, mp_total = length seen, mp_missing = missing, mp_deleted = counts\<rparr>, stores')))"

section \<open>The contract of a store\<close>

locale path_store =
  fixes paths :: "'s \<Rightarrow> string list"
    and remove :: "string \<Rightarrow> 's \<Rightarrow> bool \<times> 's"
  assumes removed_found: "fst (remove p s) \<longleftrightarrow> p \<in> set (paths s)"
    and removed_paths: "paths (snd (remove p s)) = filter (\<lambda>q. q \<noteq> p) (paths s)"
begin

lemma delete_all_paths: "paths (snd (delete_all remove ps s)) = filter (\<lambda>q. q \<notin> set ps) (paths s)"
  by (induction ps arbitrary: s) (auto simp: removed_paths case_prod_beta intro: filter_cong)

lemma delete_all_count:
  "distinct ps \<Longrightarrow> fst (delete_all remove ps s) = length (filter (\<lambda>p. p \<in> set (paths s)) ps)"
proof (induction ps arbitrary: s)
  case (Cons p ps)
  have "filter (\<lambda>q. q \<in> set (paths (snd (remove p s)))) ps = filter (\<lambda>q. q \<in> set (paths s)) ps"
    using Cons.prems by (intro filter_cong) (auto simp: removed_paths)
  with Cons show ?case by (simp add: case_prod_beta removed_found)
qed simp

lemma prune_each_paths:
  "map (\<lambda>(name, s). (name, paths s)) (snd (prune_each remove missing stores))
     = map (\<lambda>(name, s). (name, filter (\<lambda>q. q \<notin> set missing) (paths s))) stores"
  by (induction stores) (auto simp: delete_all_paths case_prod_beta)

lemma prune_each_counts:
  "distinct missing \<Longrightarrow> fst (prune_each remove missing stores)
     = map (\<lambda>(name, s). (name, length (filter (\<lambda>p. p \<in> set (paths s)) missing))) stores"
  by (induction stores) (auto simp: delete_all_count case_prod_beta)

end

lemma seen_paths_all:
  "distinct (seen_paths paths stores)" "set (seen_paths paths stores) = (\<Union>st \<in> set stores. set (paths (snd st)))"
proof -
  have f: "distinct (fold (\<lambda>p seen. if p \<in> set seen then seen else seen @ [p]) xs acc)
      \<and> set (fold (\<lambda>p seen. if p \<in> set seen then seen else seen @ [p]) xs acc) = set acc \<union> set xs"
    if "distinct acc" for xs acc :: "string list"
    using that by (induction xs arbitrary: acc) auto
  from f [of "[]"] show "distinct (seen_paths paths stores)" by (simp add: seen_paths_def)
  from f [of "[]" "concat (map (paths \<circ> snd) stores)"]
  show "set (seen_paths paths stores) = (\<Union>st \<in> set stores. set (paths (snd st)))" by (simp add: seen_paths_def)
qed

lemma safe_iff:
  "pd_safe (decide_prune ratio n_paths missing) \<longleftrightarrow> n_paths \<noteq> 0 \<and> (missing = 0 \<or> of_nat missing \<le> ratio * of_nat n_paths)"
  by (auto simp: decide_prune_def min_total_to_judge_def field_simps not_less)

section \<open>The stores of the program\<close>

text \<open>The admin page sweeps the probe cache and the verdict store together.\<close>

datatype any_store = Probe_cache probe_store | Verdicts verdict_store

fun store_paths :: "any_store \<Rightarrow> string list" where
  "store_paths (Probe_cache ps) = all_probe_paths ps"
| "store_paths (Verdicts st) = all_paths st"

fun store_delete :: "string \<Rightarrow> any_store \<Rightarrow> bool \<times> any_store" where
  "store_delete p (Probe_cache ps) = map_prod id Probe_cache (delete_probe p ps)"
| "store_delete p (Verdicts st) = map_prod id Verdicts (delete_verdict p st)"

interpretation probes: path_store all_probe_paths delete_probe
  by unfold_locales (auto simp: delete_probe_def all_probe_paths_def rows_delete_def filter_map o_def)

interpretation verdicts: path_store all_paths delete_verdict
  by unfold_locales (auto simp: delete_verdict_def all_paths_def rows_delete_def filter_map o_def)

interpretation any: path_store store_paths store_delete
proof
  fix p s
  show "fst (store_delete p s) \<longleftrightarrow> p \<in> set (store_paths s)"
    by (cases s) (simp_all add: probes.removed_found verdicts.removed_found)
  show "store_paths (snd (store_delete p s)) = filter (\<lambda>q. q \<noteq> p) (store_paths s)"
    by (cases s) (simp_all add: probes.removed_paths verdicts.removed_paths)
qed

section \<open>A sweep is all or nothing\<close>

definition vanished :: "(string \<Rightarrow> bool) \<Rightarrow> string list \<Rightarrow> string list" where
  "vanished exists paths = filter (\<lambda>p. \<not> exists p) paths"

text \<open>One sweep over the probe cache and the verdict store is all or nothing. It deletes exactly when
  the distinct paths of all stores are not empty and at most the given share of them is missing; then
  every store keeps exactly the rows of existing files and the report counts what each store lost.
  Otherwise, and on a dry run, no store changes.\<close>

theorem prune_all_or_nothing:
  fixes stores :: "(string \<times> any_store) list"
  defines "seen \<equiv> seen_paths store_paths stores"
  shows "case prune_missing_multi store_paths store_delete exists dry_run ratio stores of (report, stores') \<Rightarrow>
    mp_missing report = vanished exists seen
    \<and> (pd_safe (mp_decision report) \<longleftrightarrow>
         seen \<noteq> [] \<and> (vanished exists seen = [] \<or> of_nat (length (vanished exists seen)) \<le> ratio * of_nat (length seen)))
    \<and> (if pd_safe (mp_decision report) \<and> \<not> dry_run
       then map (\<lambda>(name, s). (name, store_paths s)) stores' = map (\<lambda>(name, s). (name, filter exists (store_paths s))) stores
         \<and> mp_deleted report = map (\<lambda>(name, s). (name, card (set (vanished exists (store_paths s))))) stores
       else stores' = stores \<and> mp_deleted report = [])"
proof -
  define missing where "missing = vanished exists seen"
  have d: "distinct missing" by (simp add: missing_def vanished_def seen_def seen_paths_all)
  have mem: "p \<in> set missing \<longleftrightarrow> \<not> exists p" if "(name, s) \<in> set stores" "p \<in> set (store_paths s)" for name s p
    using that by (force simp: missing_def vanished_def seen_def seen_paths_all)
  have kept: "map (\<lambda>(name, s). (name, filter (\<lambda>q. q \<notin> set missing) (store_paths s))) stores
      = map (\<lambda>(name, s). (name, filter exists (store_paths s))) stores"
    using mem by (auto intro!: filter_cong)
  have "length (filter (\<lambda>p. p \<in> set (store_paths s)) missing) = card (set (vanished exists (store_paths s)))"
    if "(name, s) \<in> set stores" for name s
  proof -
    have "set (filter (\<lambda>p. p \<in> set (store_paths s)) missing) = set (vanished exists (store_paths s))"
      using mem [OF that] that by (force simp: missing_def vanished_def seen_def seen_paths_all)
    with d show ?thesis by (metis distinct_card distinct_filter)
  qed
  then have counts: "map (\<lambda>(name, s). (name, length (filter (\<lambda>p. p \<in> set (store_paths s)) missing))) stores
      = map (\<lambda>(name, s). (name, card (set (vanished exists (store_paths s))))) stores"
    by auto
  have m: "snd (partition_missing exists seen) = missing"
    by (simp add: partition_missing_def missing_def vanished_def)
  show ?thesis
    using any.prune_each_paths [of missing stores] any.prune_each_counts [OF d, of stores] kept counts
    unfolding prune_missing_multi_def seen_def [symmetric] m Let_def missing_def [symmetric]
    by (cases "prune_each store_delete missing stores") (simp add: safe_iff)
qed

end
