(* ===== verification/PendingReconcile.thy ===== *)
theory PendingReconcile
  imports PendingQueue Sidecars
begin

text \<open>
  Clearing submitted rows whose English coverage exists (\<open>src/src/subarr/pending_reconcile.py\<close>).
  The injected listing is a function of the canonical path; \<open>None\<close> stands for any exception it
  raises.
\<close>

record reconcile_report =
  rr_satisfied :: "string list"
  rr_resolved :: nat
  rr_skipped_bypass :: nat
  rr_examined :: nat

definition satisfied_by :: "(string \<Rightarrow> string list option) \<Rightarrow> pending_job \<Rightarrow> bool" where
  "satisfied_by list_siblings job =
     (case list_siblings (pj_path job) of
        None \<Rightarrow> False
      | Some siblings \<Rightarrow> list_ex (\<lambda>n. is_full_english_sidecar n (stem_of (pj_path job))) siblings)"

fun reconcile_scan :: "(string \<Rightarrow> string list option) \<Rightarrow> pending_job list \<Rightarrow> reconcile_report \<Rightarrow> reconcile_report" where
  "reconcile_scan list_siblings [] rep = rep"
| "reconcile_scan list_siblings (job # jobs) rep =
     (let rep1 = rep\<lparr>rr_examined := rr_examined rep + 1\<rparr> in
      reconcile_scan list_siblings jobs
        (if pj_bypass_skip job then rep1\<lparr>rr_skipped_bypass := rr_skipped_bypass rep1 + 1\<rparr>
         else if satisfied_by list_siblings job then rep1\<lparr>rr_satisfied := rr_satisfied rep1 @ [pj_path job]\<rparr>
         else rep1))"

fun resolve_all :: "string list \<Rightarrow> nat \<times> queue_store \<Rightarrow> nat \<times> queue_store" where
  "resolve_all [] acc = acc"
| "resolve_all (p # ps) (n, st) = (case resolve_skipped p st of (k, st') \<Rightarrow> resolve_all ps (n + k, st'))"

definition reconcile_pending ::
    "(string \<Rightarrow> string list option) \<Rightarrow> bool \<Rightarrow> queue_store \<Rightarrow> reconcile_report \<times> queue_store" where
  "reconcile_pending list_siblings dry_run st =
     (let rep = reconcile_scan list_siblings (list_jobs (Some SUBMITTED) st)
                  \<lparr>rr_satisfied = [], rr_resolved = 0, rr_skipped_bypass = 0, rr_examined = 0\<rparr>
      in if dry_run then (rep, st)
         else (case resolve_all (rr_satisfied rep) (0, st) of (n, st') \<Rightarrow> (rep\<lparr>rr_resolved := n\<rparr>, st')))"

section \<open>Properties\<close>

lemma reconcile_scan_satisfied:
  "rr_satisfied (reconcile_scan ls jobs rep) = rr_satisfied rep
     @ map pj_path (filter (\<lambda>j. \<not> pj_bypass_skip j \<and> satisfied_by ls j) jobs)"
  by (induction jobs arbitrary: rep) (simp_all add: Let_def)

lemma resolve_all_store:
  "snd (resolve_all ps (n, st)) = filter (\<lambda>j. \<not> (pj_status j = SUBMITTED \<and> pj_path j \<in> set ps)) st"
proof (induction ps arbitrary: n st)
  case (Cons p ps)
  then show ?case
    by (auto simp: resolve_skipped_def delete_where_def rows_delete_def Let_def intro: filter_cong)
qed simp

lemma resolve_all_count:
  "fst (resolve_all ps (n, st)) + length (snd (resolve_all ps (n, st))) = n + length st"
proof (induction ps arbitrary: n st)
  case (Cons p ps)
  have "length (delete_where P st) \<le> length st" for P by (simp add: delete_where_def rows_delete_def)
  from this [of "\<lambda>j. pj_status j = SUBMITTED \<and> pj_path j = p"] show ?case
    using Cons by (simp add: resolve_skipped_def deleted_def Let_def)
qed simp

text \<open>Reconciliation removes exactly the submitted rows that were not forced past subgen's skip
  rules and whose listing shows a full English text sidecar; every pending, done and failed row,
  every bypass row and every row whose listing failed stays, in order, and the reported count
  is the number of rows removed.\<close>

theorem reconcile_removes_exactly:
  assumes "queue_wf st"
  shows "snd (reconcile_pending ls False st) =
      filter (\<lambda>j. \<not> (pj_status j = SUBMITTED \<and> \<not> pj_bypass_skip j \<and> satisfied_by ls j)) st
    \<and> rr_resolved (fst (reconcile_pending ls False st)) + length (snd (reconcile_pending ls False st)) = length st
    \<and> snd (reconcile_pending ls True st) = st"
proof -
  let ?rep = "reconcile_scan ls (list_jobs (Some SUBMITTED) st) \<lparr>rr_satisfied = [], rr_resolved = 0, rr_skipped_bypass = 0, rr_examined = 0\<rparr>"
  have sat: "set (rr_satisfied ?rep) = pj_path ` {j \<in> set st. pj_status j = SUBMITTED \<and> \<not> pj_bypass_skip j \<and> satisfied_by ls j}"
    by (auto simp: reconcile_scan_satisfied list_jobs_def)
  have inj: "j = k" if "j \<in> set st" "k \<in> set st" "pj_status j = SUBMITTED" "pj_status k = SUBMITTED" "pj_path j = pj_path k" for j k
  proof -
    have "inj_on pj_path {j \<in> set st. active j}" using assms by (simp add: queue_wf_def distinct_map)
    then show ?thesis using that by (simp add: inj_on_def active_def)
  qed
  have "snd (reconcile_pending ls False st) = snd (resolve_all (rr_satisfied ?rep) (0, st))"
    by (simp add: reconcile_pending_def Let_def split: prod.split)
  also have "\<dots> = filter (\<lambda>j. \<not> (pj_status j = SUBMITTED \<and> \<not> pj_bypass_skip j \<and> satisfied_by ls j)) st"
    unfolding resolve_all_store sat by (rule filter_cong) (auto dest: inj)
  finally have one: "snd (reconcile_pending ls False st) =
      filter (\<lambda>j. \<not> (pj_status j = SUBMITTED \<and> \<not> pj_bypass_skip j \<and> satisfied_by ls j)) st" .
  have "rr_resolved (fst (reconcile_pending ls False st)) + length (snd (reconcile_pending ls False st)) = length st"
    using resolve_all_count [of "rr_satisfied ?rep" 0 st]
    by (cases "resolve_all (rr_satisfied ?rep) (0, st)") (simp add: reconcile_pending_def)
  then show ?thesis using one by (simp add: reconcile_pending_def Let_def)
qed

definition submitted_pair :: queue_store where
  "submitted_pair =
     map (\<lambda>j. j\<lparr>pj_status := SUBMITTED\<rparr>)
       (snd (enqueue ''b'' 2 ''TV/b.mkv'' ''gaps'' None None None None None False True None
         (snd (enqueue ''a'' 1 ''TV/a.mkv'' ''gaps'' None None None None None False False None []))))"

definition english_everywhere :: "string \<Rightarrow> string list option" where
  "english_everywhere p = Some [stem_of p @ ''.en.srt'']"

theorem reconcile_removes_exactly_witness:
  "map pj_path (snd (reconcile_pending english_everywhere False submitted_pair)) = [''TV/b.mkv'']"
proof -
  have wf: "queue_wf submitted_pair" unfolding queue_wf_def by code_simp
  have e: "map pj_path (filter (\<lambda>j. \<not> (pj_status j = SUBMITTED \<and> \<not> pj_bypass_skip j \<and> satisfied_by english_everywhere j)) submitted_pair) = [''TV/b.mkv'']"
    by code_simp
  show ?thesis using reconcile_removes_exactly [OF wf, of english_everywhere] e by simp
qed

end
