(* ===== verification/PendingWalks.thy ===== *)
theory PendingWalks
  imports AutoQueue
begin

text \<open>
  The approval queue of the manual-confirm mode (\<open>src/src/subarr/pending_store.py\<close>): walks that wait for
  the user, their decisions, and the status recomputed from them. The two SQLite tables are lists of
  rows; deleting a walk deletes its decisions.
\<close>

section \<open>Tables\<close>

datatype walk_status = Awaiting | Approved_all | Approved_partial | Rejected | Expired

text \<open>The JSON of a decision (\<open>Decision.to_dict\<close> of \<open>auto_queue.py\<close>).\<close>

record walk_item =
  wi_title :: string
  wi_media :: media_type
  wi_number :: "string option"
  wi_score :: int
  wi_queue :: bool
  wi_reason :: decision_reason
  wi_episode :: "nat option"
  wi_path :: "string option"

definition decision_view :: "decision \<Rightarrow> walk_item" where
  "decision_view d =
     (let it = dc_item d in
      \<lparr>wi_title = it_title it, wi_media = it_media it, wi_number = it_episode_number it, wi_score = it_score it,
       wi_queue = dc_queue d, wi_reason = dc_reason d, wi_episode = it_episode it, wi_path = it_path it\<rparr>)"

record pending_decision =
  pn_id :: nat
  pn_walk :: string
  pn_item :: walk_item
  pn_approved :: "bool option"
  pn_scan :: "string option"

record walk_row =
  wk_id :: string
  wk_created :: pyfloat
  wk_status :: walk_status
  wk_considered :: nat
  wk_total :: nat
  wk_approved :: nat

text \<open>\<open>ps_seq\<close> is the last id given out: ids are never used twice.\<close>

record pending_store =
  ps_walks :: "walk_row list"
  ps_decisions :: "pending_decision list"
  ps_seq :: nat

definition expire_after_s :: pyfloat where "expire_after_s = 7 * 86400"

section \<open>Operations\<close>

definition prune_walks :: "pyfloat \<Rightarrow> nat \<Rightarrow> pending_store \<Rightarrow> nat \<times> pending_store" where
  "prune_walks now days st =
     (let gone = (\<lambda>w. wk_created w < now - of_nat (days * 86400) \<and> wk_status w \<noteq> Awaiting);
          dead = map wk_id (filter gone (ps_walks st))
      in (length dead, st\<lparr>ps_walks := filter (\<lambda>w. \<not> gone w) (ps_walks st),
            ps_decisions := filter (\<lambda>d. pn_walk d \<notin> set dead) (ps_decisions st)\<rparr>))"

definition expire_old :: "pyfloat \<Rightarrow> pending_store \<Rightarrow> pending_store" where
  "expire_old now st =
     st\<lparr>ps_walks := map (\<lambda>w. if wk_status w = Awaiting \<and> wk_created w < now - expire_after_s
                           then w\<lparr>wk_status := Expired\<rparr> else w) (ps_walks st)\<rparr>"

fun add_decisions :: "string \<Rightarrow> walk_item list \<Rightarrow> pending_store \<Rightarrow> pending_store" where
  "add_decisions w [] st = st"
| "add_decisions w (it # items) st =
     add_decisions w items (st\<lparr>ps_seq := ps_seq st + 1, ps_decisions := ps_decisions st @
       [\<lparr>pn_id = ps_seq st + 1, pn_walk = w, pn_item = it, pn_approved = None, pn_scan = None\<rparr>]\<rparr>)"

definition create_walk :: "string \<Rightarrow> pyfloat \<Rightarrow> nat \<Rightarrow> walk_item list \<Rightarrow> pending_store \<Rightarrow> pending_store" where
  "create_walk new_id now considered items st =
     (let st1 = expire_old now st in
      add_decisions new_id items (st1\<lparr>ps_walks := ps_walks st1 @
        [\<lparr>wk_id = new_id, wk_created = now, wk_status = Awaiting, wk_considered = considered,
          wk_total = length items, wk_approved = 0\<rparr>]\<rparr>))"

definition decisions_of :: "string \<Rightarrow> pending_store \<Rightarrow> pending_decision list" where
  "decisions_of w st = sort_key pn_id (filter (\<lambda>d. pn_walk d = w) (ps_decisions st))"

definition get_walk :: "string \<Rightarrow> pending_store \<Rightarrow> (walk_row \<times> pending_decision list) option" where
  "get_walk w st = map_option (\<lambda>r. (r, decisions_of w st)) (List.find (\<lambda>r. wk_id r = w) (ps_walks st))"

definition list_walks :: "walk_status option \<Rightarrow> nat \<Rightarrow> pending_store \<Rightarrow> walk_row list" where
  "list_walks status limit st =
     take limit (sort_key (\<lambda>w. - wk_created w)
       (filter (\<lambda>w. case status of None \<Rightarrow> True | Some s \<Rightarrow> wk_status w = s) (ps_walks st)))"

definition pending_walk_count :: "pending_store \<Rightarrow> nat" where
  "pending_walk_count st = length (filter (\<lambda>w. wk_status w = Awaiting) (ps_walks st))"

definition mark_decision :: "nat \<Rightarrow> bool \<Rightarrow> string option \<Rightarrow> pending_store \<Rightarrow> pending_store" where
  "mark_decision i approved scan st =
     st\<lparr>ps_decisions := map (\<lambda>d. if pn_id d = i then d\<lparr>pn_approved := Some approved, pn_scan := scan\<rparr> else d) (ps_decisions st)\<rparr>"

definition walk_outcome :: "bool option list \<Rightarrow> walk_status" where
  "walk_outcome votes =
     (let approved = length (filter (\<lambda>v. v = Some True) votes); rejected = length (filter (\<lambda>v. v = Some False) votes);
          n = length votes
      in if approved = n then Approved_all else if rejected = n then Rejected
         else if approved + rejected = n then Approved_partial else Awaiting)"

definition finalise_walk :: "string \<Rightarrow> pending_store \<Rightarrow> walk_status \<times> pending_store" where
  "finalise_walk w st =
     (let votes = map pn_approved (filter (\<lambda>d. pn_walk d = w) (ps_decisions st)) in
      if votes = [] then (Awaiting, st)
      else (walk_outcome votes, st\<lparr>ps_walks := map (\<lambda>r. if wk_id r = w then
               r\<lparr>wk_status := walk_outcome votes, wk_approved := length (filter (\<lambda>v. v = Some True) votes)\<rparr> else r)
               (ps_walks st)\<rparr>))"

section \<open>Invariant\<close>

text \<open>Ids are unique and below the sequence, and every decision belongs to a walk that counts it. Only the
  ids, the owners and the counts matter.\<close>

definition decision_keys :: "pending_store \<Rightarrow> (nat \<times> string) list" where
  "decision_keys st = map (\<lambda>d. (pn_id d, pn_walk d)) (ps_decisions st)"

definition walk_keys :: "pending_store \<Rightarrow> (string \<times> nat) list" where
  "walk_keys st = map (\<lambda>w. (wk_id w, wk_total w)) (ps_walks st)"

definition keys_ok :: "(nat \<times> string) list \<Rightarrow> (string \<times> nat) list \<Rightarrow> nat \<Rightarrow> bool" where
  "keys_ok ds ws n \<longleftrightarrow>
     distinct (map fst ds) \<and> list_all (\<lambda>d. fst d \<le> n) ds \<and> distinct (map fst ws)
     \<and> list_all (\<lambda>d. snd d \<in> set (map fst ws)) ds
     \<and> list_all (\<lambda>w. snd w = length (filter (\<lambda>d. snd d = fst w) ds)) ws"

definition pending_ok :: "pending_store \<Rightarrow> bool" where
  "pending_ok st \<longleftrightarrow> keys_ok (decision_keys st) (walk_keys st) (ps_seq st)"

inductive pending_step :: "pending_store \<Rightarrow> pending_store \<Rightarrow> bool" where
  create: "i \<notin> wk_id ` set (ps_walks st) \<Longrightarrow> pending_step st (create_walk i now n items st)"
| mark: "pending_step st (mark_decision d a s st)"
| finalise: "pending_step st (snd (finalise_walk w st))"
| prune: "pending_step st (snd (prune_walks now days st))"

lemma add_decisions_rows:
  "ps_walks (add_decisions w items st) = ps_walks st"
  "ps_seq (add_decisions w items st) = ps_seq st + length items"
  by (induction items arbitrary: st) simp_all

lemma add_decisions_list:
  "ps_decisions (add_decisions w items st) = ps_decisions st @
     map (\<lambda>(k, it). \<lparr>pn_id = ps_seq st + 1 + k, pn_walk = w, pn_item = it, pn_approved = None, pn_scan = None\<rparr>) (enumerate 0 items)"
proof (induction items arbitrary: st)
  case (Cons it items)
  show ?case by (simp add: Cons.IH enumerate_Suc_eq case_prod_beta apfst_def map_prod_def)
qed simp

lemma expire_keys: "decision_keys (expire_old now st) = decision_keys st" "walk_keys (expire_old now st) = walk_keys st"
  "ps_seq (expire_old now st) = ps_seq st"
  by (simp_all add: decision_keys_def walk_keys_def expire_old_def)

lemma mark_keys: "decision_keys (mark_decision i a s st) = decision_keys st" "walk_keys (mark_decision i a s st) = walk_keys st"
  "ps_seq (mark_decision i a s st) = ps_seq st"
  by (simp_all add: decision_keys_def walk_keys_def mark_decision_def)

lemma finalise_keys: "decision_keys (snd (finalise_walk w st)) = decision_keys st" "walk_keys (snd (finalise_walk w st)) = walk_keys st"
  "ps_seq (snd (finalise_walk w st)) = ps_seq st"
  by (simp_all add: decision_keys_def walk_keys_def finalise_walk_def Let_def)

lemma keys_ok_delete:
  assumes ok: "keys_ok ds ws n" and dead: "\<And>w. w \<in> set ws \<Longrightarrow> fst w \<in> dead \<longleftrightarrow> gone w"
  shows "keys_ok (filter (\<lambda>d. snd d \<notin> dead) ds) (filter (\<lambda>w. \<not> gone w) ws) n"
proof -
  have "filter (\<lambda>d. snd d \<notin> dead \<and> snd d = fst w) ds = filter (\<lambda>d. snd d = fst w) ds" if "w \<in> set ws" "\<not> gone w" for w
    using dead [OF that(1)] that(2) by (auto intro!: filter_cong)
  moreover have "snd d \<in> fst ` {w \<in> set ws. \<not> gone w}" if d: "d \<in> set ds" "snd d \<notin> dead" for d
  proof -
    obtain w where "w \<in> set ws" "fst w = snd d" using ok d(1) by (auto simp: keys_ok_def list_all_iff)
    with dead [OF this(1)] d(2) show ?thesis by (auto intro: image_eqI [of _ _ w])
  qed
  ultimately show ?thesis using ok by (auto simp: keys_ok_def list_all_iff distinct_map_filter)
qed

lemma keys_ok_add:
  assumes ok: "keys_ok ds ws n" and fresh: "i \<notin> set (map fst ws)"
  shows "keys_ok (ds @ map (\<lambda>k. (n + 1 + k, i)) [0..<m]) (ws @ [(i, m)]) (n + m)"
proof -
  have none: "filter (\<lambda>d. snd d = i) ds = []"
    using ok fresh by (auto simp: keys_ok_def list_all_iff filter_empty_conv)
  have mine: "length (filter (\<lambda>d. snd d = j) (map (\<lambda>k. (n + 1 + k, i)) [0..<m])) = (if j = i then m else 0)" for j
    by (simp add: o_def)
  have old: "fst d \<le> n" if "d \<in> set ds" for d using ok that by (auto simp: keys_ok_def list_all_iff)
  have "distinct (map fst (ds @ map (\<lambda>k. (n + 1 + k, i)) [0..<m]))"
    using ok old by (fastforce simp: keys_ok_def distinct_map inj_on_def)
  moreover have "list_all (\<lambda>d. fst d \<le> n + m) (ds @ map (\<lambda>k. (n + 1 + k, i)) [0..<m])"
    using old by (auto simp: list_all_iff intro: trans_le_add1)
  moreover have "list_all (\<lambda>w. snd w = length (filter (\<lambda>d. snd d = fst w) (ds @ map (\<lambda>k. (n + 1 + k, i)) [0..<m]))) (ws @ [(i, m)])"
    using ok none fresh unfolding keys_ok_def list_all_iff filter_append length_append mine by auto
  ultimately show ?thesis using ok fresh by (auto simp: keys_ok_def list_all_iff)
qed

lemma pending_ok_prune: "pending_ok st \<Longrightarrow> pending_ok (snd (prune_walks now days st))"
proof -
  assume ok: "pending_ok st"
  define gone where "gone = (\<lambda>w :: walk_row. wk_created w < now - of_nat (days * 86400) \<and> wk_status w \<noteq> Awaiting)"
  define dead where "dead = wk_id ` {w \<in> set (ps_walks st). gone w}"
  have gone: "wk_id w \<in> dead \<longleftrightarrow> gone w" if "w \<in> set (ps_walks st)" for w
    using ok that by (auto simp: pending_ok_def keys_ok_def walk_keys_def dead_def distinct_map inj_on_def o_def)
  have "decision_keys (snd (prune_walks now days st)) = filter (\<lambda>d. snd d \<notin> dead) (decision_keys st)"
    by (simp add: prune_walks_def Let_def decision_keys_def filter_map o_def dead_def gone_def)
  moreover have "walk_keys (snd (prune_walks now days st)) = filter (\<lambda>w. \<not> fst w \<in> dead) (walk_keys st)"
    using gone by (auto simp: prune_walks_def Let_def walk_keys_def filter_map o_def gone_def intro!: arg_cong [where f = "map _"] filter_cong)
  ultimately show ?thesis
    using keys_ok_delete [OF ok [unfolded pending_ok_def], of dead "\<lambda>w. fst w \<in> dead"]
    by (simp add: pending_ok_def prune_walks_def Let_def)
qed

lemma pending_ok_create:
  assumes ok: "pending_ok st" and fresh: "i \<notin> wk_id ` set (ps_walks st)"
  shows "pending_ok (create_walk i now n items st)"
proof -
  define st1 where "st1 = expire_old now st"
  have ok1: "keys_ok (decision_keys st1) (walk_keys st1) (ps_seq st1)"
    using ok by (simp add: pending_ok_def st1_def expire_keys)
  have fresh1: "i \<notin> set (map fst (walk_keys st1))"
    using fresh by (auto simp: st1_def expire_keys) (auto simp: walk_keys_def)
  have ids: "map (\<lambda>p. (Suc (ps_seq st1 + fst p), i)) (enumerate 0 items) = map (\<lambda>k. (Suc (ps_seq st1 + k), i)) [0..<length items]"
    using map_map [of "\<lambda>k. (Suc (ps_seq st1 + k), i)" fst "enumerate 0 items"] by (simp add: o_def)
  have "decision_keys (create_walk i now n items st) = decision_keys st1 @ map (\<lambda>k. (ps_seq st1 + 1 + k, i)) [0..<length items]"
    using ids by (simp add: create_walk_def Let_def decision_keys_def add_decisions_list case_prod_beta o_def st1_def)
  moreover have "walk_keys (create_walk i now n items st) = walk_keys st1 @ [(i, length items)]"
    by (simp add: create_walk_def Let_def walk_keys_def add_decisions_rows st1_def)
  moreover have "ps_seq (create_walk i now n items st) = ps_seq st1 + length items"
    by (simp add: create_walk_def Let_def add_decisions_rows st1_def)
  ultimately show ?thesis using keys_ok_add [OF ok1 fresh1] by (simp add: pending_ok_def)
qed

lemma pending_step_ok: "pending_step st st' \<Longrightarrow> pending_ok st \<Longrightarrow> pending_ok st'"
  by (induction rule: pending_step.induct)
    (simp_all add: pending_ok_create pending_ok_prune, simp_all add: pending_ok_def mark_keys finalise_keys)

lemma pending_store_invariant: "pending_step\<^sup>*\<^sup>* \<lparr>ps_walks = [], ps_decisions = [], ps_seq = 0\<rparr> st \<Longrightarrow> pending_ok st"
  by (induction rule: rtranclp_induct) (simp_all add: pending_step_ok, simp add: pending_ok_def keys_ok_def decision_keys_def walk_keys_def)

end
