(* ===== verification/ScanRun.thy ===== *)
theory ScanRun
  imports Feeder Ledger SubgenCaps
begin

text \<open>
  The store of the scans (\<open>src/src/subarr/scan_store.py\<close>), the runner that hands the paths of a scan to subgen
  one after another (\<open>scan_runner.py\<close>), and what the application does with its outcomes and at a restart of
  subgen (\<open>_record_scan_outcome\<close> and \<open>_on_subgen_restart\<close> in \<open>app.py\<close>).
\<close>

section \<open>Scans\<close>

datatype path_status = Path_pending | Path_running | Path_ok | Path_skipped | Path_empty | Path_error | Path_orphaned

datatype scan_status = Scan_pending | Scan_running | Scan_done | Scan_error | Scan_cancelled

text \<open>The texts stored with a path: why subgen skipped it, how it refused it, and the exceptions by their
  class.\<close>

datatype skip_reason = Files_skipped json | Files_queued json | Files_without_audio json | Files_pending_detection json

datatype detail =
    No_detail
  | Skip_reasons "skip_reason list"
  | Outside_allowlist int string
  | Rejected_because int string
  | Rejected int
  | Unexpected_reply int
  | No_connection string
  | Raised string
  | Run_cancelled
  | Lost_at_restart

record path_result =
  pr_path :: string
  pr_status :: path_status
  pr_code :: "int option"
  pr_body :: "json option"
  pr_error :: "detail option"
  pr_started :: "pyfloat option"
  pr_finished :: "pyfloat option"

definition new_result :: "string \<Rightarrow> path_result" where
  "new_result p = \<lparr>pr_path = p, pr_status = Path_pending, pr_code = None, pr_body = None, pr_error = None,
     pr_started = None, pr_finished = None\<rparr>"

record scan =
  sn_id :: string
  sn_created :: pyfloat
  sn_status :: scan_status
  sn_reverse :: bool
  sn_index :: nat
  sn_paths :: "string list"
  sn_results :: "path_result list"

type_synonym scan_store = "scan list"

definition new_scan :: "string \<Rightarrow> pyfloat \<Rightarrow> string list \<Rightarrow> bool \<Rightarrow> scan" where
  "new_scan i now paths reverse =
     \<lparr>sn_id = i, sn_created = now, sn_status = Scan_pending, sn_reverse = reverse, sn_index = 0, sn_paths = paths,
      sn_results = map new_result paths\<rparr>"

definition create_scan :: "string \<Rightarrow> pyfloat \<Rightarrow> string list \<Rightarrow> bool \<Rightarrow> scan_store \<Rightarrow> scan \<times> scan_store" where
  "create_scan i now paths reverse store = (let s = new_scan i now paths reverse in (s, store @ [s]))"

definition get_scan :: "string \<Rightarrow> scan_store \<Rightarrow> scan option" where
  "get_scan i store = row_find sn_id i store"

definition scans_since :: "pyfloat \<Rightarrow> scan_store \<Rightarrow> nat" where
  "scans_since since store = length (filter (\<lambda>s. since \<le> sn_created s) store)"

definition save_scan :: "scan \<Rightarrow> scan_store \<Rightarrow> scan_store" where
  "save_scan s store =
     rows_update sn_id (sn_id s) (\<lambda>r. r\<lparr>sn_status := sn_status s, sn_index := sn_index s, sn_results := sn_results s\<rparr>) store"

definition list_recent :: "pyfloat \<Rightarrow> nat \<Rightarrow> scan_store \<Rightarrow> scan list" where
  "list_recent since limit store = take limit (sort_key (\<lambda>s. - sn_created s) (filter (\<lambda>s. since \<le> sn_created s) store))"

definition delete_scan :: "string \<Rightarrow> scan_store \<Rightarrow> bool \<times> scan_store" where
  "delete_scan i store = (get_scan i store \<noteq> None, rows_delete (\<lambda>s. sn_id s = i) store)"

definition prune_scans :: "pyfloat \<Rightarrow> nat \<Rightarrow> scan_store \<Rightarrow> nat \<times> scan_store" where
  "prune_scans now days store =
     (let old = (\<lambda>s. sn_created s < now - of_nat days * 86400) in (length (filter old store), rows_delete old store))"

definition delete_where_status_in :: "scan_status list \<Rightarrow> pyfloat option \<Rightarrow> scan_store \<Rightarrow> nat \<times> scan_store" where
  "delete_where_status_in statuses older store =
     (let gone = (\<lambda>s. sn_status s \<in> set statuses \<and> (case older of None \<Rightarrow> True | Some t \<Rightarrow> sn_created s < t)) in
      if statuses = [] then (0, store) else (length (filter gone store), rows_delete gone store))"

section \<open>Paths lost at a restart of subgen\<close>

definition base_name :: "string \<Rightarrow> string" where "base_name p = rsplit_last (CHR ''/'') p"

definition is_lost :: "string set \<Rightarrow> string set \<Rightarrow> path_result \<Rightarrow> bool" where
  "is_lost completed live r \<longleftrightarrow> pr_status r = Path_ok \<and> pr_path r \<notin> completed \<and> base_name (pr_path r) \<notin> live"

definition orphan_result :: "string set \<Rightarrow> string set \<Rightarrow> path_result \<Rightarrow> path_result" where
  "orphan_result completed live r =
     (if is_lost completed live r then r\<lparr>pr_status := Path_orphaned, pr_error := Some Lost_at_restart\<rparr> else r)"

definition mark_orphaned_before :: "pyfloat \<Rightarrow> string set \<Rightarrow> string set \<Rightarrow> scan_store \<Rightarrow> nat \<times> scan_store" where
  "mark_orphaned_before cutoff completed live store =
     (sum_list (map (\<lambda>s. length (filter (is_lost completed live) (sn_results s))) (filter (\<lambda>s. sn_created s < cutoff) store)),
      map (\<lambda>s. if sn_created s < cutoff then s\<lparr>sn_results := map (orphan_result completed live) (sn_results s)\<rparr> else s) store)"

text \<open>The restart hook: what was completed in the last day, and the base names in subgen's queue, empty when it
  cannot be asked.\<close>

definition on_subgen_restart :: "pyfloat \<Rightarrow> ledger \<Rightarrow> string list option \<Rightarrow> scan_store \<Rightarrow> nat \<times> scan_store" where
  "on_subgen_restart detected ledger queue store =
     mark_orphaned_before detected (set (completed_paths_since (detected - 86400) ledger))
       (case queue of None \<Rightarrow> {} | Some ps \<Rightarrow> base_name ` set (filter (\<lambda>p. p \<noteq> []) ps)) store"

section \<open>What subgen answered\<close>

text \<open>\<open>body.get(k, 0)\<close>, and the comparison of what it gives with a number, which raises for other values.\<close>

definition counter :: "string \<Rightarrow> json \<Rightarrow> json" where
  "counter k body =
     (case body of JObj kvs \<Rightarrow> (case map_of kvs k of None \<Rightarrow> JInt 0 | Some v \<Rightarrow> v) | _ \<Rightarrow> JInt 0)"

definition number :: "json \<Rightarrow> pyfloat option" where
  "number j = (case j of JBool b \<Rightarrow> Some (if b then 1 else 0) | JInt i \<Rightarrow> Some (of_int i) | JFloat r \<Rightarrow> Some r | _ \<Rightarrow> None)"

definition skip_reasons :: "json \<Rightarrow> skip_reason list" where
  "skip_reasons body =
     (if truthy (counter ''skipped'' body) then [Files_skipped (counter ''skipped'' body)] else [])
     @ (if truthy (counter ''already_in_queue'' body) then [Files_queued (counter ''already_in_queue'' body)] else [])
     @ (if truthy (counter ''no_audio'' body) then [Files_without_audio (counter ''no_audio'' body)] else [])
     @ (if truthy (counter ''pending_language_detect'' body)
        then [Files_pending_detection (counter ''pending_language_detect'' body)] else [])"

definition refusal :: "int \<Rightarrow> json \<Rightarrow> detail" where
  "refusal code body =
     (case body of
        JObj kvs \<Rightarrow> (case jget ''error'' kvs of
            JStr reason \<Rightarrow> if strip reason = [] then Rejected code
              else if sublist ''allowed media root'' reason then Outside_allowlist code reason else Rejected_because code reason
          | _ \<Rightarrow> Rejected code)
      | _ \<Rightarrow> Rejected code)"

text \<open>\<open>None\<close> when a comparison raises.\<close>

definition classify_ok :: "json \<Rightarrow> (path_status \<times> detail) option" where
  "classify_ok body =
     (case number (counter ''walked'' body) of
        None \<Rightarrow> None
      | Some w \<Rightarrow>
          if w = 0 then Some (Path_empty, No_detail)
          else if w < 0 then Some (Path_error, Unexpected_reply 200)
          else (case number (counter ''queued'' body) of
              None \<Rightarrow> None
            | Some q \<Rightarrow>
                if 0 < q then Some (Path_ok, No_detail)
                else if q < 0 then Some (Path_error, Unexpected_reply 200)
                else (case number (counter ''skipped'' body) of
                    None \<Rightarrow> None
                  | Some s \<Rightarrow>
                      if 0 < s then Some (Path_skipped, Skip_reasons (skip_reasons body))
                      else (case number (counter ''already_in_queue'' body) of
                          None \<Rightarrow> None
                        | Some a \<Rightarrow> if 0 < a then Some (Path_ok, No_detail) else Some (Path_error, Unexpected_reply 200)))))"

definition classify_batch_outcome :: "int \<Rightarrow> json \<Rightarrow> (path_status \<times> detail) option" where
  "classify_batch_outcome code body =
     (if code = 200 then classify_ok body
      else if code = 401 \<or> code = 403 then Some (Path_error, refusal code body)
      else if code = 404 then Some (Path_empty, No_detail)
      else Some (Path_error, Unexpected_reply code))"

section \<open>The runner\<close>

datatype compat_problem = Not_reachable | No_batch_endpoint

definition check_can_scan :: "subgen_caps option \<Rightarrow> compat_problem option" where
  "check_can_scan caps =
     (case caps of None \<Rightarrow> None
      | Some c \<Rightarrow> if \<not> reachable c then Some Not_reachable else if \<not> has_batch c then Some No_batch_endpoint else None)"

text \<open>What a scan was started with.\<close>

record scan_flags =
  sf_override :: "string option"
  sf_ignore_forced :: bool
  sf_bypass :: bool
  sf_tasks :: "(string \<times> string option) list"

text \<open>What the request for a path meets: an answer, a transport failure with its text, another exception by
  its class, or the cancellation of the run.\<close>

datatype batch_reply = Answered int json | Unavailable string | Failed string | Cancelled

text \<open>The world of a run: the capabilities when a path is reached, subgen's reply to the parameters sent for it,
  and when it starts and ends.\<close>

record run_env =
  rv_libs :: "library list"
  rv_caps :: "nat \<Rightarrow> subgen_caps option"
  rv_answer :: "nat \<Rightarrow> (string \<times> string) list \<Rightarrow> batch_reply"
  rv_start :: "nat \<Rightarrow> pyfloat"
  rv_end :: "nat \<Rightarrow> pyfloat"

definition path_task :: "scan_flags \<Rightarrow> subgen_caps option \<Rightarrow> string \<Rightarrow> string option" where
  "path_task flags caps p =
     (case map_of (sf_tasks flags) p of
        Some (Some t) \<Rightarrow> if (case caps of None \<Rightarrow> False | Some c \<Rightarrow> per_request_task c) then Some t else None
      | _ \<Rightarrow> None)"

text \<open>The parameters of the request, or the class of the exception that comes before it.\<close>

definition request_of :: "run_env \<Rightarrow> scan_flags \<Rightarrow> bool \<Rightarrow> nat \<Rightarrow> string \<Rightarrow> string + (string \<times> string) list" where
  "request_of env flags reverse i p =
     (case canonical_to_subgen_batch (rv_libs env) p of
        Inl _ \<Rightarrow> Inl ''PathOutsideRootError''
      | Inr directory \<Rightarrow>
          (case batch_params directory reverse None (sf_override flags) None (path_task flags (rv_caps env i) p)
              (sf_ignore_forced flags) (sf_bypass flags) of
             None \<Rightarrow> Inl ''ValueError''
           | Some ps \<Rightarrow> Inr ps))"

definition reply_to :: "run_env \<Rightarrow> scan_flags \<Rightarrow> bool \<Rightarrow> nat \<Rightarrow> string \<Rightarrow> batch_reply" where
  "reply_to env flags reverse i p =
     (case request_of env flags reverse i p of Inl c \<Rightarrow> Failed c | Inr ps \<Rightarrow> rv_answer env i ps)"

definition settle_result :: "batch_reply \<Rightarrow> pyfloat \<Rightarrow> path_result \<Rightarrow> path_result" where
  "settle_result reply now r =
     (let r' = (case reply of
          Answered code body \<Rightarrow>
            (let r1 = r\<lparr>pr_code := Some code, pr_body := Some body\<rparr> in
              case classify_batch_outcome code body of
                None \<Rightarrow> r1\<lparr>pr_status := Path_error, pr_error := Some (Raised ''TypeError'')\<rparr>
              | Some (st, d) \<Rightarrow> (if d = No_detail then r1\<lparr>pr_status := st\<rparr> else r1\<lparr>pr_status := st, pr_error := Some d\<rparr>))
        | Unavailable t \<Rightarrow> r\<lparr>pr_status := Path_error, pr_error := Some (No_connection t)\<rparr>
        | Failed c \<Rightarrow> r\<lparr>pr_status := Path_error, pr_error := Some (Raised c)\<rparr>
        | Cancelled \<Rightarrow> r\<lparr>pr_status := Path_error, pr_error := Some Run_cancelled\<rparr>)
      in r'\<lparr>pr_finished := Some now\<rparr>)"

text \<open>What the outcome hook and the error hook are told of a reply.\<close>

definition reported :: "string \<Rightarrow> batch_reply \<Rightarrow> (string \<times> path_status \<times> detail) list" where
  "reported p reply =
     (case reply of
        Answered code body \<Rightarrow> (case classify_batch_outcome code body of None \<Rightarrow> [] | Some (st, d) \<Rightarrow> [(p, st, d)])
      | _ \<Rightarrow> [])"

definition error_class :: "batch_reply \<Rightarrow> string list" where
  "error_class reply =
     (case reply of
        Answered code body \<Rightarrow> (case classify_batch_outcome code body of None \<Rightarrow> [''TypeError''] | Some _ \<Rightarrow> [])
      | Unavailable _ \<Rightarrow> [''SubgenUnavailable'']
      | Failed c \<Rightarrow> [c]
      | Cancelled \<Rightarrow> [])"

datatype scan_event =
    Scan_start string "string list"
  | Path_start nat string
  | Path_done nat path_result
  | Scan_cut nat
  | Scan_end scan

text \<open>A run: the record it holds in memory, the store, and what it has emitted, reported and sent.\<close>

record run_state =
  rs_scan :: scan
  rs_store :: scan_store
  rs_events :: "scan_event list"
  rs_reports :: "(string \<times> path_status \<times> detail) list"
  rs_classes :: "string list"
  rs_requests :: "(string \<times> string) list list"

definition with_scan :: "scan \<Rightarrow> scan_event list \<Rightarrow> run_state \<Rightarrow> run_state" where
  "with_scan s evs st = st\<lparr>rs_scan := s, rs_store := save_scan s (rs_store st), rs_events := rs_events st @ evs\<rparr>"

definition begin_result :: "pyfloat \<Rightarrow> path_result \<Rightarrow> path_result" where
  "begin_result now r = r\<lparr>pr_status := Path_running, pr_started := Some now\<rparr>"

definition begin_path :: "run_env \<Rightarrow> nat \<Rightarrow> string \<Rightarrow> run_state \<Rightarrow> run_state" where
  "begin_path env i p st =
     (let s = rs_scan st in
      with_scan (s\<lparr>sn_index := i, sn_results := (sn_results s)[i := begin_result (rv_start env i) (sn_results s ! i)]\<rparr>)
        [Path_start i p] st)"

definition end_path :: "run_env \<Rightarrow> scan_flags \<Rightarrow> nat \<Rightarrow> string \<Rightarrow> run_state \<Rightarrow> bool \<times> run_state" where
  "end_path env flags i p st =
     (let s = rs_scan st;
          reply = reply_to env flags (sn_reverse s) i p;
          r = settle_result reply (rv_end env i) (sn_results s ! i);
          s' = s\<lparr>sn_results := (sn_results s)[i := r]\<rparr>;
          st' = st\<lparr>rs_reports := rs_reports st @ reported p reply, rs_classes := rs_classes st @ error_class reply,
                   rs_requests := rs_requests st @ (case request_of env flags (sn_reverse s) i p of Inl _ \<Rightarrow> [] | Inr ps \<Rightarrow> [ps])\<rparr>
      in if reply = Cancelled then (False, with_scan (s'\<lparr>sn_status := Scan_error\<rparr>) [Scan_cut i] st')
         else (True, with_scan s' [Path_done i r] st'))"

text \<open>The loop over the paths; the flag says whether it went through. A path without a result raises out of
  the run.\<close>

fun run_paths :: "run_env \<Rightarrow> scan_flags \<Rightarrow> nat \<Rightarrow> string list \<Rightarrow> run_state \<Rightarrow> bool \<times> run_state" where
  "run_paths env flags i [] st = (True, st)"
| "run_paths env flags i (p # ps) st =
     (if length (sn_results (rs_scan st)) \<le> i then (False, st)
      else (case end_path env flags i p (begin_path env i p st) of
              (True, st') \<Rightarrow> run_paths env flags (Suc i) ps st'
            | (False, st') \<Rightarrow> (False, st')))"

definition start_run :: "scan \<Rightarrow> scan_store \<Rightarrow> run_state" where
  "start_run s store =
     with_scan (s\<lparr>sn_status := Scan_running\<rparr>) [Scan_start (sn_id s) (sn_paths s)]
       \<lparr>rs_scan = s, rs_store = store, rs_events = [], rs_reports = [], rs_classes = [], rs_requests = []\<rparr>"

definition finish_run :: "run_state \<Rightarrow> run_state" where
  "finish_run st =
     (let s = (rs_scan st)\<lparr>sn_index := length (sn_paths (rs_scan st)), sn_status := Scan_done\<rparr> in with_scan s [Scan_end s] st)"

definition run_scan :: "run_env \<Rightarrow> scan_flags \<Rightarrow> string \<Rightarrow> scan_store \<Rightarrow> run_state option" where
  "run_scan env flags i store =
     (case get_scan i store of
        None \<Rightarrow> None
      | Some s \<Rightarrow>
          Some (case run_paths env flags 0 (sn_paths s) (start_run s store) of
                  (True, st) \<Rightarrow> finish_run st
                | (False, st) \<Rightarrow> st))"

section \<open>What the application does with the outcomes\<close>

text \<open>Only a skipped path is acted upon: its submitted job leaves the queue and its slot is released; the path
  of an unknown library raises, which is swallowed after the job is gone.\<close>

definition record_scan_outcome :: "library list \<Rightarrow> string \<times> path_status \<times> detail \<Rightarrow> feeder \<Rightarrow> feeder" where
  "record_scan_outcome libs report fd =
     (case report of (p, st, _) \<Rightarrow>
        if st \<noteq> Path_skipped then fd
        else (let fd' = fd\<lparr>fd_store := snd (resolve_skipped p (fd_store fd))\<rparr> in
          case release_inflight libs p fd' of Inl _ \<Rightarrow> fd' | Inr fd'' \<Rightarrow> fd''))"

section \<open>A run gives each path its verdict\<close>

definition scan_reply :: "run_env \<Rightarrow> scan_flags \<Rightarrow> scan \<Rightarrow> nat \<Rightarrow> batch_reply" where
  "scan_reply env flags s i = reply_to env flags (sn_reverse s) i (sn_paths s ! i)"

definition verdict_on :: "run_env \<Rightarrow> scan_flags \<Rightarrow> scan \<Rightarrow> nat \<Rightarrow> path_result" where
  "verdict_on env flags s i =
     settle_result (scan_reply env flags s i) (rv_end env i) (begin_result (rv_start env i) (sn_results s ! i))"

text \<open>How many paths are answered before the run is cancelled.\<close>

definition answered_paths :: "run_env \<Rightarrow> scan_flags \<Rightarrow> scan \<Rightarrow> nat" where
  "answered_paths env flags s = length (takeWhile (\<lambda>i. scan_reply env flags s i \<noteq> Cancelled) [0..<length (sn_paths s)])"

text \<open>The scan after its first \<open>k\<close> paths, in memory.\<close>

definition after_paths :: "run_env \<Rightarrow> scan_flags \<Rightarrow> scan \<Rightarrow> nat \<Rightarrow> path_result list" where
  "after_paths env flags s k =
     map (\<lambda>i. if i < k then verdict_on env flags s i else sn_results s ! i) [0..<length (sn_results s)]"

definition path_events :: "run_env \<Rightarrow> scan_flags \<Rightarrow> scan \<Rightarrow> nat \<Rightarrow> scan_event list" where
  "path_events env flags s k =
     concat (map (\<lambda>i. [Path_start i (sn_paths s ! i), Path_done i (verdict_on env flags s i)]) [0..<k])"

definition reports_until :: "run_env \<Rightarrow> scan_flags \<Rightarrow> scan \<Rightarrow> nat \<Rightarrow> (string \<times> path_status \<times> detail) list" where
  "reports_until env flags s k = concat (map (\<lambda>i. reported (sn_paths s ! i) (scan_reply env flags s i)) [0..<k])"

definition expected_scan :: "run_env \<Rightarrow> scan_flags \<Rightarrow> scan \<Rightarrow> scan" where
  "expected_scan env flags s =
     (let k = answered_paths env flags s; n = length (sn_paths s) in
      s\<lparr>sn_status := (if k = n then Scan_done else Scan_error), sn_index := k, sn_results := after_paths env flags s (Suc k)\<rparr>)"

definition expected_events :: "run_env \<Rightarrow> scan_flags \<Rightarrow> scan \<Rightarrow> scan_event list" where
  "expected_events env flags s =
     (let k = answered_paths env flags s in
      Scan_start (sn_id s) (sn_paths s) # path_events env flags s k
        @ (if k = length (sn_paths s) then [Scan_end (expected_scan env flags s)] else [Path_start k (sn_paths s ! k), Scan_cut k]))"

definition at_path :: "run_env \<Rightarrow> scan_flags \<Rightarrow> scan \<Rightarrow> scan_store \<Rightarrow> nat \<Rightarrow> run_state \<Rightarrow> bool" where
  "at_path env flags s store i st \<longleftrightarrow>
     (\<exists>j. rs_scan st = s\<lparr>sn_status := Scan_running, sn_index := j, sn_results := after_paths env flags s i\<rparr>)
     \<and> rs_store st = save_scan (rs_scan st) store
     \<and> rs_events st = Scan_start (sn_id s) (sn_paths s) # path_events env flags s i
     \<and> rs_reports st = reports_until env flags s i"

lemma save_scan_again: "sn_id s' = sn_id s \<Longrightarrow> save_scan s' (save_scan s store) = save_scan s' store"
  by (simp add: save_scan_def rows_update_def comp_def cong: if_cong)

lemma length_after_paths [simp]: "length (after_paths env flags s k) = length (sn_results s)"
  by (simp add: after_paths_def)

lemma after_paths_0 [simp]: "after_paths env flags s 0 = sn_results s"
  by (simp add: after_paths_def map_nth)

lemma after_paths_nth: "i < length (sn_results s) \<Longrightarrow> after_paths env flags s i ! i = sn_results s ! i"
  by (simp add: after_paths_def)

lemma after_paths_Suc: "(after_paths env flags s i)[i := verdict_on env flags s i] = after_paths env flags s (Suc i)"
  by (rule nth_equalityI) (auto simp: after_paths_def nth_list_update less_Suc_eq)

lemma after_paths_all: "length (sn_results s) \<le> k \<Longrightarrow> after_paths env flags s (Suc k) = after_paths env flags s k"
  by (auto simp: after_paths_def)

lemma one_path:
  assumes "at_path env flags s store i st" "i < length (sn_paths s)" "length (sn_results s) = length (sn_paths s)"
    "scan_reply env flags s i \<noteq> Cancelled"
  shows "\<exists>st'. end_path env flags i (sn_paths s ! i) (begin_path env i (sn_paths s ! i) st) = (True, st')
     \<and> at_path env flags s store (Suc i) st'"
  using assms
  by (auto simp: at_path_def end_path_def begin_path_def with_scan_def Let_def save_scan_again after_paths_nth
      after_paths_Suc path_events_def reports_until_def scan_reply_def [symmetric] verdict_on_def [symmetric])

lemma cut_path:
  assumes "at_path env flags s store i st" "i < length (sn_paths s)" "length (sn_results s) = length (sn_paths s)"
    "scan_reply env flags s i = Cancelled"
  shows "\<exists>st'. end_path env flags i (sn_paths s ! i) (begin_path env i (sn_paths s ! i) st) = (False, st')
     \<and> rs_store st' = save_scan (s\<lparr>sn_status := Scan_error, sn_index := i, sn_results := after_paths env flags s (Suc i)\<rparr>) store
     \<and> rs_events st' = Scan_start (sn_id s) (sn_paths s) # path_events env flags s i @ [Path_start i (sn_paths s ! i), Scan_cut i]
     \<and> rs_reports st' = reports_until env flags s i"
proof -
  have v: "settle_result Cancelled (rv_end env i) (begin_result (rv_start env i) (sn_results s ! i)) = verdict_on env flags s i"
    using assms(4) by (simp add: verdict_on_def)
  have r: "reply_to env flags (sn_reverse s) i (sn_paths s ! i) = Cancelled" using assms(4) by (simp add: scan_reply_def)
  show ?thesis
    using assms by (auto simp: at_path_def end_path_def begin_path_def with_scan_def Let_def save_scan_again after_paths_nth
      reported_def v r) (simp_all add: save_scan_def after_paths_Suc)
qed

lemma run_paths_on:
  assumes "at_path env flags s store i st" "i \<le> length (sn_paths s)" "length (sn_results s) = length (sn_paths s)"
    "\<forall>j<i. scan_reply env flags s j \<noteq> Cancelled"
  shows "(let k = answered_paths env flags s; n = length (sn_paths s); out = run_paths env flags i (drop i (sn_paths s)) st in
     if k = n then fst out \<and> at_path env flags s store n (snd out)
     else \<not> fst out \<and> k < n
       \<and> rs_store (snd out) = save_scan (s\<lparr>sn_status := Scan_error, sn_index := k, sn_results := after_paths env flags s (Suc k)\<rparr>) store
       \<and> rs_events (snd out) = Scan_start (sn_id s) (sn_paths s) # path_events env flags s k @ [Path_start k (sn_paths s ! k), Scan_cut k]
       \<and> rs_reports (snd out) = reports_until env flags s k)"
  using assms
proof (induction "length (sn_paths s) - i" arbitrary: i st)
  case 0
  then have i: "i = length (sn_paths s)" by simp
  have "answered_paths env flags s = length (sn_paths s)"
    using 0 i by (simp add: answered_paths_def takeWhile_eq_all_conv [THEN iffD2])
  then show ?case using 0 i by (simp add: Let_def)
next
  case (Suc m)
  then have lt: "i < length (sn_paths s)" by simp
  then have d: "drop i (sn_paths s) = sn_paths s ! i # drop (Suc i) (sn_paths s)" by (simp add: Cons_nth_drop_Suc)
  have len: "\<not> length (sn_results (rs_scan st)) \<le> i" using Suc.prems(1,3) lt by (auto simp: at_path_def)
  show ?case
  proof (cases "scan_reply env flags s i = Cancelled")
    case True
    have k: "answered_paths env flags s = i"
    proof -
      have "[0..<length (sn_paths s)] = [0..<i] @ i # [Suc i..<length (sn_paths s)]"
        using lt by (metis less_imp_le upt_add_eq_append le_add_diff_inverse upt_conv_Cons zero_le)
      moreover have "takeWhile (\<lambda>j. scan_reply env flags s j \<noteq> Cancelled) ([0..<i] @ i # [Suc i..<length (sn_paths s)]) = [0..<i]"
        using Suc.prems(4) True by (subst takeWhile_append2) auto
      ultimately show ?thesis by (simp add: answered_paths_def)
    qed
    from cut_path [OF Suc.prems(1) lt Suc.prems(3) True] show ?thesis
      using lt len by (auto simp: d k Let_def)
  next
    case False
    from one_path [OF Suc.prems(1) lt Suc.prems(3) False] obtain st' where
      st': "end_path env flags i (sn_paths s ! i) (begin_path env i (sn_paths s ! i) st) = (True, st')"
        "at_path env flags s store (Suc i) st'" by blast
    have "run_paths env flags i (drop i (sn_paths s)) st = run_paths env flags (Suc i) (drop (Suc i) (sn_paths s)) st'"
      using len st'(1) by (simp add: d)
    moreover have "m = length (sn_paths s) - Suc i" "Suc i \<le> length (sn_paths s)" using Suc.hyps(2) lt by auto
    moreover have "\<forall>j<Suc i. scan_reply env flags s j \<noteq> Cancelled" using Suc.prems(4) False by (auto simp: less_Suc_eq)
    ultimately show ?thesis using Suc.hyps(1) [OF _ st'(2) _ Suc.prems(3)] by simp
  qed
qed

lemma at_start: "length (sn_results s) = length (sn_paths s) \<Longrightarrow> at_path env flags s store 0 (start_run s store)"
  by (auto simp: at_path_def start_run_def with_scan_def path_events_def reports_until_def intro: exI [of _ "sn_index s"])

lemma get_save_other: "j \<noteq> sn_id s \<Longrightarrow> get_scan j (save_scan s store) = get_scan j store"
  by (induction store) (auto simp: get_scan_def save_scan_def rows_update_def row_find_def)

lemma get_save:
  "get_scan (sn_id s) store = Some r \<Longrightarrow>
     get_scan (sn_id s) (save_scan s store) = Some (r\<lparr>sn_status := sn_status s, sn_index := sn_index s, sn_results := sn_results s\<rparr>)"
  by (induction store) (auto simp: get_scan_def save_scan_def rows_update_def row_find_def split: if_splits)

lemma settled_status: "pr_status (settle_result reply now r) \<in> {Path_ok, Path_skipped, Path_empty, Path_error}"
  by (auto simp: settle_result_def classify_batch_outcome_def classify_ok_def Let_def
      split: batch_reply.splits option.splits if_splits)

lemma answered_paths_le: "answered_paths env flags s \<le> length (sn_paths s)"
  using length_takeWhile_le [of _ "[0..<length (sn_paths s)]"] by (simp add: answered_paths_def)


lemma get_saved:
  assumes "get_scan i store = Some s" "sn_id t = i" "t = s\<lparr>sn_status := a, sn_index := b, sn_results := c\<rparr>"
  shows "get_scan i (save_scan t store) = Some t" "j \<noteq> i \<Longrightarrow> get_scan j (save_scan t store) = get_scan j store"
  using assms get_save [of t store s] get_save_other [of j t store] by simp_all

lemma verdict_status:
  "j < length (sn_results s) \<Longrightarrow> j < k
    \<Longrightarrow> pr_status (after_paths env flags s k ! j) \<in> {Path_ok, Path_skipped, Path_empty, Path_error}"
  using settled_status by (simp add: after_paths_def verdict_on_def)

lemma finished_run:
  assumes "at_path env flags s store n st" "n = length (sn_paths s)" "length (sn_results s) = n"
    "answered_paths env flags s = n"
  shows "rs_store (finish_run st) = save_scan (expected_scan env flags s) store
     \<and> rs_events (finish_run st) = expected_events env flags s \<and> rs_reports (finish_run st) = reports_until env flags s n"
proof -
  from assms(1) obtain j where sc: "rs_scan st = s\<lparr>sn_status := Scan_running, sn_index := j, sn_results := after_paths env flags s n\<rparr>"
    by (auto simp: at_path_def)
  define t where "t = (rs_scan st)\<lparr>sn_index := n, sn_status := Scan_done\<rparr>"
  have "expected_scan env flags s = t"
    using assms after_paths_all [of s n env flags] by (simp add: expected_scan_def Let_def t_def sc)
  moreover have "finish_run st = with_scan t [Scan_end t] st"
    using assms(2) by (simp add: finish_run_def Let_def t_def sc)
  moreover have "sn_id t = sn_id (rs_scan st)" by (simp add: t_def)
  ultimately show ?thesis
    using assms(1,2,4) by (simp add: with_scan_def at_path_def expected_events_def Let_def save_scan_again)
qed

text \<open>C8. A run ends with the verdict of every path it reached, each from subgen's own answer to that path: the
  stored scan is done, or stopped as an error at the path where it was cancelled with the later paths
  untouched; the events are those of the paths in order, the outcome hook heard exactly the answers,
  no verdict stays pending or running, and no other scan changes.\<close>

theorem run_gives_each_path_its_verdict:
  assumes stored: "get_scan i store = Some s" and len: "length (sn_results s) = length (sn_paths s)"
  shows "\<exists>st. run_scan env flags i store = Some st
     \<and> get_scan i (rs_store st) = Some (expected_scan env flags s)
     \<and> rs_events st = expected_events env flags s
     \<and> rs_reports st = reports_until env flags s (answered_paths env flags s)
     \<and> (\<forall>k < answered_paths env flags s. pr_status (sn_results (expected_scan env flags s) ! k) \<in> {Path_ok, Path_skipped, Path_empty, Path_error})
     \<and> (\<forall>j. j \<noteq> i \<longrightarrow> get_scan j (rs_store st) = get_scan j store)"
proof -
  define k where "k = answered_paths env flags s"
  have id: "sn_id s = i" using stored row_find_Some [of sn_id i store s] by (simp add: get_scan_def)
  have exp: "expected_scan env flags s = s\<lparr>sn_status := (if k = length (sn_paths s) then Scan_done else Scan_error), sn_index := k,
      sn_results := after_paths env flags s (Suc k)\<rparr>"
    by (simp add: expected_scan_def Let_def k_def)
  have statuses: "\<forall>j<k. pr_status (sn_results (expected_scan env flags s) ! j) \<in> {Path_ok, Path_skipped, Path_empty, Path_error}"
    using answered_paths_le [of env flags s] len verdict_status [of _ s "Suc k" env flags] by (simp add: exp k_def)
  obtain b st where out: "run_paths env flags 0 (sn_paths s) (start_run s store) = (b, st)" by fastforce
  have none: "\<forall>j<0. scan_reply env flags s j \<noteq> Cancelled" by simp
  have on: "if k = length (sn_paths s) then b \<and> at_path env flags s store (length (sn_paths s)) st
     else \<not> b \<and> k < length (sn_paths s)
       \<and> rs_store st = save_scan (s\<lparr>sn_status := Scan_error, sn_index := k, sn_results := after_paths env flags s (Suc k)\<rparr>) store
       \<and> rs_events st = Scan_start (sn_id s) (sn_paths s) # path_events env flags s k @ [Path_start k (sn_paths s ! k), Scan_cut k]
       \<and> rs_reports st = reports_until env flags s k"
    using run_paths_on [of env flags s store 0 "start_run s store", OF at_start [OF len] le0 len none]
    by (simp only: Let_def k_def drop0 out fst_conv snd_conv)
  have "\<exists>st. run_scan env flags i store = Some st \<and> rs_store st = save_scan (expected_scan env flags s) store
     \<and> rs_events st = expected_events env flags s \<and> rs_reports st = reports_until env flags s k"
  proof (cases "k = length (sn_paths s)")
    case True
    with on have "b" and "at_path env flags s store k st" by simp_all
    then have "rs_store (finish_run st) = save_scan (expected_scan env flags s) store
        \<and> rs_events (finish_run st) = expected_events env flags s \<and> rs_reports (finish_run st) = reports_until env flags s k"
      using finished_run [OF _ True] True len k_def by simp
    moreover have "run_scan env flags i store = Some (finish_run st)" using stored out \<open>b\<close> by (simp add: run_scan_def)
    ultimately show ?thesis by blast
  next
    case False
    with on have "\<not> b" "rs_store st = save_scan (expected_scan env flags s) store" "rs_events st = expected_events env flags s"
      "rs_reports st = reports_until env flags s k"
      by (simp_all add: exp expected_events_def Let_def k_def)
    moreover have "run_scan env flags i store = Some st" using stored out \<open>\<not> b\<close> by (simp add: run_scan_def)
    ultimately show ?thesis by blast
  qed
  moreover have "sn_id (expected_scan env flags s) = i" using id by (simp add: exp)
  ultimately show ?thesis using get_saved [OF stored _ exp] statuses unfolding k_def by metis
qed

text \<open>Subgen queues the first file, skips the second, and the run is cancelled at the third.\<close>

definition demo_env :: run_env where
  "demo_env = \<lparr>rv_libs = [default_library], rv_caps = (\<lambda>_. None),
     rv_answer = (\<lambda>i _. if i = 0 then Answered 200 (JObj [(''walked'', JInt 1), (''queued'', JInt 1)])
       else if i = 1 then Answered 200 (JObj [(''walked'', JInt 1), (''queued'', JInt 0), (''skipped'', JInt 1)]) else Cancelled),
     rv_start = of_nat, rv_end = of_nat\<rparr>"

definition demo_flags :: scan_flags where
  "demo_flags = \<lparr>sf_override = None, sf_ignore_forced = False, sf_bypass = False, sf_tasks = []\<rparr>"

definition demo_scan :: scan where
  "demo_scan = new_scan ''s1'' 0 [''TV/a.mkv'', ''TV/b.mkv'', ''TV/c.mkv''] False"

lemma run_gives_each_path_its_verdict_witness:
  "\<exists>st. run_scan demo_env demo_flags ''s1'' [demo_scan] = Some st
     \<and> map pr_status (sn_results (expected_scan demo_env demo_flags demo_scan)) = [Path_ok, Path_skipped, Path_error]
     \<and> get_scan ''s1'' (rs_store st) = Some (expected_scan demo_env demo_flags demo_scan)"
proof -
  have "get_scan ''s1'' [demo_scan] = Some demo_scan" "length (sn_results demo_scan) = length (sn_paths demo_scan)"
    by (simp_all add: get_scan_def row_find_def demo_scan_def new_scan_def)
  from run_gives_each_path_its_verdict [OF this, of demo_env demo_flags] obtain st where
    "run_scan demo_env demo_flags ''s1'' [demo_scan] = Some st"
    "get_scan ''s1'' (rs_store st) = Some (expected_scan demo_env demo_flags demo_scan)" by blast
  moreover have "map pr_status (sn_results (expected_scan demo_env demo_flags demo_scan)) = [Path_ok, Path_skipped, Path_error]"
  proof -
    have "request_of demo_env demo_flags False i p = (case canonical_to_subgen_batch [default_library] p of Inl _ \<Rightarrow> Inl ''PathOutsideRootError''
        | Inr d \<Rightarrow> Inr [(''directory'', d), (''reverse'', ''false'')])" for i p
      by (simp add: request_of_def demo_env_def demo_flags_def batch_params_def path_task_def opt_param_def truthy_str_def
          split: sum.split)
    moreover have "canonical_to_subgen_batch [default_library] ''TV/a.mkv'' = Inr ''/media/TV/a.mkv''"
      "canonical_to_subgen_batch [default_library] ''TV/b.mkv'' = Inr ''/media/TV/b.mkv''"
      "canonical_to_subgen_batch [default_library] ''TV/c.mkv'' = Inr ''/media/TV/c.mkv''" by code_simp+
    ultimately have replies: "scan_reply demo_env demo_flags demo_scan i = rv_answer demo_env i []" if "i < 3" for i
      using that by (auto simp: scan_reply_def reply_to_def demo_scan_def new_scan_def demo_env_def numeral_3_eq_3 less_Suc_eq)
    have size: "length (sn_paths demo_scan) = 3" "length (sn_results demo_scan) = 3" by (simp_all add: demo_scan_def new_scan_def)
    have three: "[0..<3] = [0, 1, 2 :: nat]" by code_simp
    have "answered_paths demo_env demo_flags demo_scan = 2"
      unfolding answered_paths_def size three by (simp add: replies) (simp add: demo_env_def)
    moreover have "pr_status (verdict_on demo_env demo_flags demo_scan i) = (if i = 0 then Path_ok else if i = 1 then Path_skipped else Path_error)"
      if "i < 3" for i
      by (simp add: verdict_on_def replies that)
        (simp add: demo_env_def settle_result_def classify_batch_outcome_def classify_ok_def counter_def number_def)
    ultimately show ?thesis
      unfolding expected_scan_def Let_def after_paths_def by (simp add: size three)
  qed
  ultimately show ?thesis by (intro exI conjI)
qed

section \<open>What the outcomes free\<close>

definition skipped_in :: "(string \<times> path_status \<times> detail) list \<Rightarrow> string set" where
  "skipped_in reports = {p. \<exists>d. (p, Path_skipped, d) \<in> set reports}"

lemma one_outcome:
  "fd_store (record_scan_outcome libs r fd)
     = filter (\<lambda>j. \<not> (pj_status j = SUBMITTED \<and> pj_path j \<in> skipped_in [r])) (fd_store fd)
   \<and> fd_inflight (record_scan_outcome libs r fd)
     = filter (\<lambda>e. \<not> (\<exists>c \<in> skipped_in [r]. canonical_to_subgen_batch libs c = Inr (fst e))) (fd_inflight fd)"
  by (cases r) (auto simp: record_scan_outcome_def skipped_in_def resolve_skipped_def delete_where_def rows_delete_def Let_def
      release_inflight_def AList.delete_eq split: sum.split intro!: filter_cong)

text \<open>Reporting the outcomes of a run frees exactly what subgen skipped: of the queue only the submitted jobs of
  skipped paths go, of the reserved slots only those of skipped paths, and everything else stays, in
  order.\<close>

theorem skipped_paths_free_their_slots:
  "fd_store (fold (record_scan_outcome libs) reports fd)
     = filter (\<lambda>j. \<not> (pj_status j = SUBMITTED \<and> pj_path j \<in> skipped_in reports)) (fd_store fd)
   \<and> fd_inflight (fold (record_scan_outcome libs) reports fd)
     = filter (\<lambda>e. \<not> (\<exists>c \<in> skipped_in reports. canonical_to_subgen_batch libs c = Inr (fst e))) (fd_inflight fd)"
proof (induction reports arbitrary: fd)
  case (Cons r rs)
  have "skipped_in (r # rs) = skipped_in [r] \<union> skipped_in rs" by (auto simp: skipped_in_def)
  then show ?case using Cons one_outcome [of libs r fd] by (auto simp: filter_filter intro!: filter_cong)
qed (simp add: skipped_in_def)

section \<open>What goes wrong\<close>

text \<open>The hook looks one day back in the ledger, but the marking has no such bound: a path finished two days
  before the restart is called lost.\<close>

lemma finished_long_ago_is_called_lost:
  fixes led :: ledger and store :: scan_store
  defines "led \<equiv> [(sample_job ''TV/a.mkv'' 0)\<lparr>le_completed := Some 60, le_outcome := Some outcome_written\<rparr>]"
    and "store \<equiv> [(new_scan ''s1'' 0 [''TV/a.mkv''] False)\<lparr>sn_status := Scan_done,
           sn_results := [(new_result ''TV/a.mkv'')\<lparr>pr_status := Path_ok\<rparr>]\<rparr>]"
  shows "completed_paths_since 0 led = [''TV/a.mkv'']"
    "map (map pr_status \<circ> sn_results) (snd (on_subgen_restart 172800 led (Some []) store)) = [[Path_orphaned]]"
  by (simp_all add: led_def store_def on_subgen_restart_def mark_orphaned_before_def orphan_result_def is_lost_def new_scan_def
      new_result_def completed_paths_since_def completed_since_def sample_job_def)

text \<open>The record a running scan holds in memory overwrites the marks of a restart at its next save.\<close>

lemma restart_marks_are_overwritten:
  "get_scan (sn_id s) store = Some r \<Longrightarrow> sn_created r < cutoff
    \<Longrightarrow> map_option sn_results (get_scan (sn_id s) (save_scan s (snd (mark_orphaned_before cutoff completed live store))))
      = Some (sn_results s)"
  by (induction store) (auto simp: get_scan_def row_find_def save_scan_def rows_update_def mark_orphaned_before_def split: if_splits)

text \<open>A file without audio is walked and neither queued nor skipped: the answer is called unexpected.\<close>

lemma no_audio_is_unexpected:
  "classify_batch_outcome 200 (JObj [(''walked'', JInt 1), (''queued'', JInt 0), (''skipped'', JInt 0), (''no_audio'', JInt 1)])
     = Some (Path_error, Unexpected_reply 200)"
  by (simp add: classify_batch_outcome_def classify_ok_def counter_def number_def)

end
