(* ===== verification/QueueView.thy ===== *)
theory QueueView
  imports ScanRun Submission
begin

text \<open>
  The Queue page (\<open>src/src/subarr/routers/queue.py\<close>): the outcome shown for a path of a scan, the history in which
  a file is judged by its latest attempt, its cache, and the filter of subgen's live jobs. The reason
  subgen skipped a file for its audio language comes from \<open>submission_language.py\<close>.
\<close>

section \<open>Why subgen skipped a file\<close>

definition sidecar_exts :: "string list" where
  "sidecar_exts = [''.srt'', ''.vtt'', ''.sub'', ''.ass'', ''.ssa'', ''.idx'', ''.sbv'', ''.pgs'', ''.ttml'', ''.lrc'']"

text \<open>The media tree: \<open>resolve\<close>, which paths are files and directories, and the entries a directory yields with
  whether reading it then raises.\<close>

record media_tree =
  mt_libs :: "library list"
  mt_resolve :: "string list \<Rightarrow> string list"
  mt_is_file :: "string list \<Rightarrow> bool"
  mt_is_dir :: "string list \<Rightarrow> bool"
  mt_entries :: "string list \<Rightarrow> (string \<times> bool) list \<times> bool"

definition is_sidecar_of :: "string \<Rightarrow> string \<times> bool \<Rightarrow> bool" where
  "is_sidecar_of stem e \<longleftrightarrow> snd e \<and> prefix (stem @ ''.'') (fst e) \<and> list_ex (\<lambda>x. suffix x (lower (fst e))) sidecar_exts"

definition sub_exists :: "media_tree \<Rightarrow> string \<Rightarrow> bool" where
  "sub_exists mt canonical =
     (case canonical_to_fs (mt_resolve mt) (mt_libs mt) canonical of
        Inl _ \<Rightarrow> False
      | Inr fs \<Rightarrow>
          fs \<noteq> [] \<and> mt_is_file mt fs \<and> mt_is_dir mt (butlast fs)
          \<and> list_ex (is_sidecar_of (path_stem (last fs))) (fst (mt_entries mt (butlast fs))))"

text \<open>What the user's verdict makes of the skip of a tagged language: there is none, it is multilingual with or
  without a subgen that can bypass, it names a skipped language, or another one.\<close>

datatype skip_case = Unverified | Multi_can_bypass | Multi_no_bypass | Verified_skipped string | Verified_other string

record explanation =
  xp_expected :: bool
  xp_tags :: "string list"
  xp_case :: skip_case

definition explain_audio_language_skip ::
    "(string \<Rightarrow> verdict option) \<Rightarrow> subgen_caps option \<Rightarrow> probe \<Rightarrow> string \<Rightarrow> explanation option" where
  "explain_audio_language_skip verdict_of caps probe canonical =
     (let skip = normalized_skips caps in
      if skip = [] then None
      else (case tagged_audio_languages probe canonical of
          None \<Rightarrow> None
        | Some tagged \<Rightarrow>
            (let hit = sort (remdups (filter (\<lambda>t. t \<in> set skip) tagged)) in
             if hit = [] then None
             else (case verdict_of canonical of
                 None \<Rightarrow> Some \<lparr>xp_expected = False, xp_tags = hit, xp_case = Unverified\<rparr>
               | Some v \<Rightarrow>
                   if vd_class v = ''multi''
                   then Some \<lparr>xp_expected = False, xp_tags = hit,
                     xp_case = (if (case caps of None \<Rightarrow> False | Some c \<Rightarrow> bypass_skip c) then Multi_can_bypass else Multi_no_bypass)\<rparr>
                   else (let lang = norm_code (Some (vd_lang v)) in
                     if lang \<in> set skip then Some \<lparr>xp_expected = True, xp_tags = hit, xp_case = Verified_skipped lang\<rparr>
                     else Some \<lparr>xp_expected = False, xp_tags = hit, xp_case = Verified_other lang\<rparr>)))))"

section \<open>The outcome of a path\<close>

datatype category = Cat_ok | Cat_skipped | Cat_error | Cat_running | Cat_orphaned | Cat_pending

text \<open>The chips, one constructor for each label the code gives.\<close>

datatype chip =
    Running_chip
  | No_subtitle
  | Completed_chip
  | Queued_chip json
  | Explained explanation
  | Subtitle_exists
  | Skipped_chip "detail option"
  | Interrupted
  | Failed_chip "detail option"
  | Lost_chip "detail option"
  | File_removed
  | Pending_chip

fun category_of :: "chip \<Rightarrow> category" where
  "category_of Running_chip = Cat_running"
| "category_of No_subtitle = Cat_error"
| "category_of Completed_chip = Cat_ok"
| "category_of (Queued_chip _) = Cat_ok"
| "category_of (Explained _) = Cat_skipped"
| "category_of Subtitle_exists = Cat_skipped"
| "category_of (Skipped_chip _) = Cat_skipped"
| "category_of Interrupted = Cat_skipped"
| "category_of (Failed_chip _) = Cat_error"
| "category_of (Lost_chip _) = Cat_orphaned"
| "category_of File_removed = Cat_skipped"
| "category_of Pending_chip = Cat_pending"

text \<open>\<open>(error or "").strip().lower() == "cancelled"\<close>\<close>

fun says_cancelled :: "detail option \<Rightarrow> bool" where
  "says_cancelled (Some Run_cancelled) = True"
| "says_cancelled (Some (No_connection t)) = (lower (strip t) = ''cancelled'')"
| "says_cancelled _ = False"

record page_env =
  pg_tree :: media_tree
  pg_explain :: "string \<Rightarrow> explanation option"
  pg_completed :: "string list"
  pg_no_output :: "string list"
  pg_live :: "string list"
  pg_active :: "(string \<times> pyfloat) list"

definition path_outcome_chip :: "page_env \<Rightarrow> path_result \<Rightarrow> chip" where
  "path_outcome_chip pg r =
     (case pr_status r of
        Path_running \<Rightarrow> Running_chip
      | Path_ok \<Rightarrow>
          if pr_path r \<in> set (pg_no_output pg) then No_subtitle
          else if pr_path r \<in> set (pg_completed pg) then Completed_chip
          else Queued_chip (case pr_body r of Some (JObj kvs) \<Rightarrow> counter ''queued'' (JObj kvs) | _ \<Rightarrow> JInt 0)
      | Path_skipped \<Rightarrow>
          if pr_path r \<noteq> [] \<and> sub_exists (pg_tree pg) (pr_path r) then Subtitle_exists
          else (case (if pr_path r = [] then None else pg_explain pg (pr_path r)) of
              Some x \<Rightarrow> Explained x
            | None \<Rightarrow> Skipped_chip (pr_error r))
      | Path_error \<Rightarrow> if says_cancelled (pr_error r) then Interrupted else Failed_chip (pr_error r)
      | Path_orphaned \<Rightarrow> Lost_chip (pr_error r)
      | Path_empty \<Rightarrow> File_removed
      | Path_pending \<Rightarrow> Pending_chip)"

section \<open>The history\<close>

record hist_row =
  hr_scan :: string
  hr_created :: pyfloat
  hr_scan_status :: scan_status
  hr_path :: string
  hr_chip :: chip
  hr_started :: "pyfloat option"
  hr_finished :: "pyfloat option"
  hr_code :: "int option"
  hr_library :: "path_error + (string \<times> string)"
  hr_retries :: nat

definition hist_row_of :: "page_env \<Rightarrow> scan \<times> path_result \<Rightarrow> hist_row" where
  "hist_row_of pg e = (case e of (s, r) \<Rightarrow>
     \<lparr>hr_scan = sn_id s, hr_created = sn_created s, hr_scan_status = sn_status s, hr_path = pr_path r,
      hr_chip = path_outcome_chip pg r, hr_started = pr_started r, hr_finished = pr_finished r, hr_code = pr_code r,
      hr_library = library_label (mt_libs (pg_tree pg)) (pr_path r), hr_retries = 0\<rparr>)"

definition supersedable :: "path_status \<Rightarrow> bool" where
  "supersedable st \<longleftrightarrow> st = Path_skipped \<or> st = Path_error \<or> st = Path_orphaned"

definition retry_waiting :: "page_env \<Rightarrow> scan \<times> path_result \<Rightarrow> bool" where
  "retry_waiting pg e =
     (case map_of (pg_active pg) (pr_path (snd e)) of None \<Rightarrow> False | Some t \<Rightarrow> sn_created (fst e) < t)"

definition is_live :: "page_env \<Rightarrow> path_result \<Rightarrow> bool" where
  "is_live pg r \<longleftrightarrow> base_name (pr_path r) \<in> set (pg_live pg)"

text \<open>The dictionary \<open>newest\<close> holds a reference to the row shown for a path: its place in the history, or \<open>None\<close>
  for an attempt that is not shown. \<open>setdefault\<close> keeps an entry that is there.\<close>

type_synonym newest_rows = "string \<rightharpoonup> nat option"

definition set_default :: "string \<Rightarrow> nat option \<Rightarrow> newest_rows \<Rightarrow> newest_rows" where
  "set_default p v newest = (if newest p = None then newest(p \<mapsto> v) else newest)"

definition history_step :: "page_env \<Rightarrow> scan \<times> path_result \<Rightarrow> hist_row list \<times> newest_rows \<Rightarrow> hist_row list \<times> newest_rows" where
  "history_step pg e st =
     (case st of (history, newest) \<Rightarrow>
        let p = pr_path (snd e); sup = supersedable (pr_status (snd e)) in
        if sup \<and> newest p \<noteq> None
        then (case newest p of
                Some (Some k) \<Rightarrow> (history[k := (history ! k)\<lparr>hr_retries := hr_retries (history ! k) + 1\<rparr>], newest)
              | _ \<Rightarrow> (history, newest))
        else if sup \<and> (retry_waiting pg e \<or> is_live pg (snd e)) then (history, newest(p \<mapsto> None))
        else if is_live pg (snd e) \<and> (pr_status (snd e) = Path_running \<or> pr_status (snd e) = Path_ok)
        then (history, set_default p None newest)
        else (history @ [hist_row_of pg e], set_default p (Some (length history)) newest))"

definition attempts_of :: "scan list \<Rightarrow> (scan \<times> path_result) list" where
  "attempts_of scans = concat (map (\<lambda>s. map (Pair s) (sn_results s)) (sort_key (\<lambda>s. - sn_created s) scans))"

definition count_category :: "category \<Rightarrow> hist_row list \<Rightarrow> nat" where
  "count_category c rows = length (filter (\<lambda>r. category_of (hr_chip r) = c) rows)"

text \<open>The view, or the exception of a path whose library has no default to fall back to.\<close>

definition build_history_view :: "page_env \<Rightarrow> scan list \<Rightarrow> (hist_row list \<times> (category \<times> nat) list) option" where
  "build_history_view pg scans =
     (let history = fst (fold (history_step pg) (attempts_of scans) ([], Map.empty)) in
      if list_ex (\<lambda>r. isl (hr_library r)) history then None
      else Some (history, map (\<lambda>c. (c, count_category c history)) [Cat_ok, Cat_skipped, Cat_error, Cat_running, Cat_orphaned]))"

section \<open>A file is judged by its latest attempt\<close>

text \<open>The view without references: what an attempt shows depends on the paths of the newer attempts, and the
  failures it stands for are the older ones of its path.\<close>

definition is_hidden :: "page_env \<Rightarrow> string list \<Rightarrow> scan \<times> path_result \<Rightarrow> bool" where
  "is_hidden pg newer e \<longleftrightarrow>
     (if supersedable (pr_status (snd e))
      then pr_path (snd e) \<in> set newer \<or> retry_waiting pg e \<or> is_live pg (snd e)
      else is_live pg (snd e) \<and> (pr_status (snd e) = Path_running \<or> pr_status (snd e) = Path_ok))"

definition failures_of :: "string \<Rightarrow> (scan \<times> path_result) list \<Rightarrow> nat" where
  "failures_of p es = length (filter (\<lambda>e. supersedable (pr_status (snd e)) \<and> pr_path (snd e) = p) es)"

fun shown_history :: "page_env \<Rightarrow> string list \<Rightarrow> (scan \<times> path_result) list \<Rightarrow> hist_row list" where
  "shown_history pg newer [] = []"
| "shown_history pg newer (e # es) =
     (if is_hidden pg newer e then []
      else [(hist_row_of pg e)\<lparr>hr_retries := if pr_path (snd e) \<in> set newer then 0 else failures_of (pr_path (snd e)) es\<rparr>])
     @ shown_history pg (pr_path (snd e) # newer) es"

definition bump :: "newest_rows \<Rightarrow> (scan \<times> path_result) list \<Rightarrow> nat \<Rightarrow> hist_row \<Rightarrow> hist_row" where
  "bump newest es k r =
     (if newest (hr_path r) = Some (Some k) then r\<lparr>hr_retries := hr_retries r + failures_of (hr_path r) es\<rparr> else r)"

definition bumped :: "newest_rows \<Rightarrow> (scan \<times> path_result) list \<Rightarrow> hist_row list \<Rightarrow> hist_row list" where
  "bumped newest es rows = map (\<lambda>k. bump newest es k (rows ! k)) [0..<length rows]"

definition refers :: "newest_rows \<Rightarrow> hist_row list \<Rightarrow> bool" where
  "refers newest rows \<longleftrightarrow> (\<forall>p k. newest p = Some (Some k) \<longrightarrow> k < length rows \<and> hr_path (rows ! k) = p)"

lemma bumped_nil: "bumped newest [] rows = rows"
  by (rule nth_equalityI) (simp_all add: bumped_def bump_def failures_of_def)

lemma hr_path_of [simp]: "hr_path (hist_row_of pg e) = pr_path (snd e)"
  by (simp add: hist_row_of_def split: prod.split)

lemma bumped_cong:
  "length rows = length rows' \<Longrightarrow> (\<And>k. k < length rows \<Longrightarrow> bump newest es k (rows ! k) = bump newest' es' k (rows' ! k))
    \<Longrightarrow> bumped newest es rows = bumped newest' es' rows'"
  by (simp add: bumped_def)

lemma fresh_row [simp]: "hr_retries (hist_row_of pg e) = 0" "(hist_row_of pg e)\<lparr>hr_retries := 0\<rparr> = hist_row_of pg e"
  by (simp_all add: hist_row_of_def split: prod.split)

lemma step_again:
  "supersedable (pr_status (snd e)) \<Longrightarrow> newest (pr_path (snd e)) = Some v \<Longrightarrow>
     history_step pg e (rows, newest)
       = (case v of None \<Rightarrow> rows | Some k \<Rightarrow> rows[k := (rows ! k)\<lparr>hr_retries := hr_retries (rows ! k) + 1\<rparr>], newest)"
  by (cases v) (simp_all add: history_step_def Let_def)

lemma step_hidden:
  "is_hidden pg newer e \<Longrightarrow> \<forall>p. newest p \<noteq> None \<longleftrightarrow> p \<in> set newer
    \<Longrightarrow> \<not> (supersedable (pr_status (snd e)) \<and> newest (pr_path (snd e)) \<noteq> None)
    \<Longrightarrow> history_step pg e (rows, newest) = (rows, set_default (pr_path (snd e)) None newest)"
  by (cases "supersedable (pr_status (snd e))") (auto simp: history_step_def Let_def is_hidden_def set_default_def)

lemma step_shown:
  "\<not> is_hidden pg newer e \<Longrightarrow> \<forall>p. newest p \<noteq> None \<longleftrightarrow> p \<in> set newer
    \<Longrightarrow> history_step pg e (rows, newest) = (rows @ [hist_row_of pg e], set_default (pr_path (snd e)) (Some (length rows)) newest)"
  by (cases "supersedable (pr_status (snd e))") (auto simp: history_step_def Let_def is_hidden_def)

lemma set_default_dom: "\<forall>p. newest p \<noteq> None \<longleftrightarrow> p \<in> set newer \<Longrightarrow> \<forall>q. set_default p v newest q \<noteq> None \<longleftrightarrow> q \<in> set (p # newer)"
  by (auto simp: set_default_def)

lemma retry_keeps_path: "k < length rows \<Longrightarrow> hr_path (rows[x := (rows ! x)\<lparr>hr_retries := n\<rparr>] ! k) = hr_path (rows ! k)"
  by (cases "x = k") simp_all

lemma failures_of_Cons:
  "failures_of q (e # es) = (if supersedable (pr_status (snd e)) \<and> pr_path (snd e) = q then Suc (failures_of q es) else failures_of q es)"
  by (simp add: failures_of_def)

lemma bumped_retry:
  assumes "refers newest rows" "newest (pr_path (snd e)) = Some (Some k)" "supersedable (pr_status (snd e))"
  shows "bumped newest es (rows[k := (rows ! k)\<lparr>hr_retries := hr_retries (rows ! k) + 1\<rparr>]) = bumped newest (e # es) rows"
proof (rule bumped_cong)
  fix j assume j: "j < length (rows[k := (rows ! k)\<lparr>hr_retries := hr_retries (rows ! k) + 1\<rparr>])"
  have k: "k < length rows" "hr_path (rows ! k) = pr_path (snd e)" using assms by (auto simp: refers_def)
  show "bump newest es j (rows[k := (rows ! k)\<lparr>hr_retries := hr_retries (rows ! k) + 1\<rparr>] ! j) = bump newest (e # es) j (rows ! j)"
  proof (cases "j = k")
    case True
    then show ?thesis using k assms(2,3) by (simp add: bump_def failures_of_Cons)
  next
    case False
    then show ?thesis using assms(2) by (auto simp: bump_def failures_of_Cons)
  qed
qed simp

lemma bumped_hidden:
  "newest (pr_path (snd e)) = Some None \<Longrightarrow> bumped newest es rows = bumped newest (e # es) rows"
  by (rule bumped_cong) (auto simp: bump_def failures_of_Cons)

lemma history_fold:
  assumes "refers newest rows" "\<forall>p. newest p \<noteq> None \<longleftrightarrow> p \<in> set newer"
  shows "fst (fold (history_step pg) es (rows, newest)) = bumped newest es rows @ shown_history pg newer es"
  using assms
proof (induction es arbitrary: rows newest newer)
  case Nil
  then show ?case by (simp add: bumped_nil)
next
  case (Cons e es)
  define p where "p = pr_path (snd e)"
  show ?case
  proof (cases "supersedable (pr_status (snd e)) \<and> newest p \<noteq> None")
    case True
    then obtain v where v: "newest p = Some v" by auto
    have seen: "p \<in> set newer" using v Cons.prems(2) by force
    have hidden: "is_hidden pg newer e" using True seen by (simp add: is_hidden_def p_def)
    define rows' where "rows' = (case v of None \<Rightarrow> rows | Some k \<Rightarrow> rows[k := (rows ! k)\<lparr>hr_retries := hr_retries (rows ! k) + 1\<rparr>])"
    have step: "history_step pg e (rows, newest) = (rows', newest)"
      using step_again [of e newest v pg rows] True v by (simp add: rows'_def p_def)
    have "refers newest rows'"
      using Cons.prems(1) by (auto simp: refers_def rows'_def retry_keeps_path split: option.split)
    moreover have "\<forall>q. newest q \<noteq> None \<longleftrightarrow> q \<in> set (p # newer)" using Cons.prems(2) seen by auto
    moreover have "bumped newest es rows' = bumped newest (e # es) rows"
    proof (cases v)
      case None
      then show ?thesis using v bumped_hidden [of newest e es rows] by (simp add: rows'_def p_def)
    next
      case (Some k)
      then show ?thesis using v True bumped_retry [OF Cons.prems(1), of e k es] by (simp add: rows'_def p_def)
    qed
    ultimately show ?thesis using Cons.IH [of newest rows' "p # newer"] step hidden by (simp add: p_def)
  next
    case False
    then have fresh: "failures_of q (e # es) = failures_of q es" if "newest q \<noteq> None" for q
      using that by (auto simp: failures_of_Cons p_def)
    show ?thesis
    proof (cases "is_hidden pg newer e")
      case True
      define newest' where "newest' = set_default p None newest"
      have "refers newest' rows" using Cons.prems(1) by (auto simp: refers_def newest'_def set_default_def split: if_splits)
      moreover have "bumped newest' es rows = bumped newest (e # es) rows"
        using fresh by (intro bumped_cong) (auto simp: bump_def newest'_def set_default_def)
      ultimately show ?thesis
        using Cons.IH [of newest' rows "p # newer"] set_default_dom [OF Cons.prems(2), of p None]
          step_hidden [OF True Cons.prems(2), of rows] False True
        by (simp add: newest'_def p_def)
    next
      case shown: False
      define newest' where "newest' = set_default p (Some (length rows)) newest"
      have "refers newest' (rows @ [hist_row_of pg e])"
        using Cons.prems(1) by (auto simp: refers_def newest'_def set_default_def nth_append p_def less_SucI split: if_splits)
      moreover have "bumped newest' es (rows @ [hist_row_of pg e])
          = bumped newest (e # es) rows
            @ [(hist_row_of pg e)\<lparr>hr_retries := if p \<in> set newer then 0 else failures_of p es\<rparr>]"
      proof -
        have "bump newest' es (length rows) (hist_row_of pg e)
            = (hist_row_of pg e)\<lparr>hr_retries := if p \<in> set newer then 0 else failures_of p es\<rparr>"
        proof (cases "newest p")
          case None
          then have "p \<notin> set newer" using Cons.prems(2) by force
          then show ?thesis using None
            by (auto simp: bump_def newest'_def set_default_def p_def)
        next
          case (Some v)
          then have "newest p \<noteq> Some (Some (length rows))" "p \<in> set newer" using Cons.prems by (auto simp: refers_def)
          then show ?thesis using Some
            by (simp add: bump_def newest'_def set_default_def p_def)
        qed
        moreover have "bump newest' es k (rows ! k) = bump newest (e # es) k (rows ! k)" if "k < length rows" for k
          using that fresh by (auto simp: bump_def newest'_def set_default_def)
        ultimately show ?thesis by (simp add: bumped_def nth_append)
      qed
      ultimately show ?thesis
        using Cons.IH [of newest' "rows @ [hist_row_of pg e]" "p # newer"] set_default_dom [OF Cons.prems(2), of p "Some (length rows)"]
          step_shown [OF shown Cons.prems(2), of rows] shown
        by (simp add: newest'_def p_def)
    qed
  qed
qed

fun is_failure :: "chip \<Rightarrow> bool" where
  "is_failure (Explained _) = True"
| "is_failure Subtitle_exists = True"
| "is_failure (Skipped_chip _) = True"
| "is_failure Interrupted = True"
| "is_failure (Failed_chip _) = True"
| "is_failure (Lost_chip _) = True"
| "is_failure _ = False"

lemma failure_chip: "is_failure (hr_chip (hist_row_of pg e)) \<longleftrightarrow> supersedable (pr_status (snd e))"
  by (cases e) (auto simp: hist_row_of_def path_outcome_chip_def supersedable_def split: path_status.splits option.splits)

lemma shown_failures:
  "distinct (map hr_path (filter (\<lambda>r. is_failure (hr_chip r)) (shown_history pg newer es)))
   \<and> set (map hr_path (filter (\<lambda>r. is_failure (hr_chip r)) (shown_history pg newer es))) \<inter> set newer = {}"
proof (induction es arbitrary: newer)
  case (Cons e es)
  have "supersedable (pr_status (snd e)) \<Longrightarrow> \<not> is_hidden pg newer e \<Longrightarrow> pr_path (snd e) \<notin> set newer"
    by (simp add: is_hidden_def)
  then show ?case using Cons.IH [of "pr_path (snd e) # newer"] by (auto simp: failure_chip)
qed simp

text \<open>C9. The Queue page judges each file by its latest attempt: the history is that of the attempts newest first
  without the failures a newer attempt, a waiting retry or a running job supersedes, the row of the
  newest attempt says how many older failures it stands for, no two failures of one path are shown, and
  the counts are those of the rows.\<close>

theorem latest_attempt_decides:
  fixes pg :: page_env and scans :: "scan list"
  defines "rows \<equiv> shown_history pg [] (attempts_of scans)"
  shows "build_history_view pg scans
      = (if list_ex (\<lambda>r. isl (hr_library r)) rows then None
         else Some (rows, map (\<lambda>c. (c, count_category c rows)) [Cat_ok, Cat_skipped, Cat_error, Cat_running, Cat_orphaned]))
    \<and> distinct (map hr_path (filter (\<lambda>r. is_failure (hr_chip r)) rows))"
proof -
  have "fst (fold (history_step pg) (attempts_of scans) ([], Map.empty)) = rows"
    using history_fold [of Map.empty "[]" "[]" pg "attempts_of scans"] by (simp add: refers_def bumped_def rows_def)
  then show ?thesis using shown_failures [of pg "[]" "attempts_of scans"] by (simp add: build_history_view_def Let_def rows_def)
qed

section \<open>The cache of the history\<close>

text \<open>What a build reads, by the time it starts: the view of the page.\<close>

record hist_cache =
  hc_key :: "nat option"
  hc_built :: pyfloat
  hc_view :: "hist_row list \<times> (category \<times> nat) list"
  hc_refreshing :: bool

definition empty_cache :: hist_cache where
  "empty_cache = \<lparr>hc_key = None, hc_built = 0, hc_view = ([], []), hc_refreshing = False\<rparr>"

definition hist_ttl_s :: pyfloat where "hist_ttl_s = 5"
definition default_history_window_s :: nat where "default_history_window_s = 24 * 3600"

definition invalidate_history_cache :: "hist_cache \<Rightarrow> hist_cache" where
  "invalidate_history_cache c = c\<lparr>hc_key := None, hc_built := 0\<rparr>"

text \<open>A refresh in the background: it starts unless one is running, reads the stores while requests go on, and
  puts its view in place; a failing build only clears the flag.\<close>

definition begin_refresh :: "hist_cache \<Rightarrow> hist_cache option" where
  "begin_refresh c = (if hc_refreshing c then None else Some (c\<lparr>hc_refreshing := True\<rparr>))"

definition end_refresh :: "nat \<Rightarrow> pyfloat \<Rightarrow> (hist_row list \<times> (category \<times> nat) list) option \<Rightarrow> hist_cache \<Rightarrow> hist_cache" where
  "end_refresh window now built c =
     (case built of
        None \<Rightarrow> c\<lparr>hc_refreshing := False\<rparr>
      | Some v \<Rightarrow> c\<lparr>hc_key := Some window, hc_built := now, hc_view := v, hc_refreshing := False\<rparr>)"

text \<open>What a request is served, whether it asks for a refresh, and the cache after it; a cold cache builds now, and
  a build that raises is the request's own failure.\<close>

definition serve_history ::
    "nat \<Rightarrow> pyfloat \<Rightarrow> (hist_row list \<times> (category \<times> nat) list) option \<Rightarrow> hist_cache
      \<Rightarrow> ((hist_row list \<times> (category \<times> nat) list) \<times> bool \<times> hist_cache) option" where
  "serve_history window now built c =
     (if hc_key c = Some window \<and> 0 < hc_built c
      then Some (hc_view c, hist_ttl_s \<le> now - hc_built c, c)
      else (case built of None \<Rightarrow> None | Some v \<Rightarrow> Some (v, False, c\<lparr>hc_key := Some window, hc_built := now, hc_view := v\<rparr>)))"

text \<open>The request after an invalidation is served a view built for it, unless a refresh that began before ends
  in between: then it is served what that refresh had read.\<close>

lemma invalidation_forces_a_build:
  "serve_history window now (Some v) (invalidate_history_cache c)
     = Some (v, False, c\<lparr>hc_key := Some window, hc_built := now, hc_view := v\<rparr>)"
  by (simp add: serve_history_def invalidate_history_cache_def)

lemma refresh_undoes_invalidation:
  "begin_refresh c = Some c1 \<Longrightarrow> 0 < t1
    \<Longrightarrow> \<exists>fresh c2. serve_history window t2 (Some new_view) (end_refresh window t1 (Some old_view) (invalidate_history_cache c1))
          = Some (old_view, fresh, c2)"
  by (simp add: serve_history_def end_refresh_def)

section \<open>The live jobs\<close>

text \<open>A job of subgen as it is listed: not a dictionary, or its \<open>path\<close> entry.\<close>

definition subgen_library_prefixes :: "library list \<Rightarrow> string \<Rightarrow> string list" where
  "subgen_library_prefixes libs default_prefix =
     (let raws = (if libs = [] then [default_prefix] else map lib_subgen_prefix libs);
          texts = filter (\<lambda>t. t \<noteq> []) (map strip raws)
      in rev (remdups (rev (map (\<lambda>t. if t = ''/'' then ''/'' else rstrip_char (CHR ''/'') t @ ''/'') texts))))"

definition is_library_job :: "json \<Rightarrow> string list \<Rightarrow> bool" where
  "is_library_job t pres =
     (case t of
        JObj kvs \<Rightarrow> (case jget ''path'' kvs of JStr p \<Rightarrow> list_ex (\<lambda>x. prefix x p) pres | _ \<Rightarrow> False)
      | _ \<Rightarrow> False)"

definition match_progress :: "string \<Rightarrow> (string \<times> 'a) list \<Rightarrow> 'a option" where
  "match_progress processing progress =
     (let b = base_name processing in
      if b = [] then None
      else (case map_of progress b of
              Some x \<Rightarrow> Some x
            | None \<Rightarrow> map_option snd (List.find (\<lambda>e. prefix (fst e) b) progress)))"

lemma library_jobs_lie_in_a_library:
  assumes "is_library_job t (subgen_library_prefixes libs pre)" "libs \<noteq> []"
  shows "\<exists>kvs p l. t = JObj kvs \<and> jget ''path'' kvs = JStr p \<and> l \<in> set libs \<and> strip (lib_subgen_prefix l) \<noteq> []
     \<and> prefix (if strip (lib_subgen_prefix l) = ''/'' then ''/'' else rstrip_char (CHR ''/'') (strip (lib_subgen_prefix l)) @ ''/'') p"
  using assms by (auto simp: is_library_job_def subgen_library_prefixes_def Let_def list_ex_iff split: json.splits)

section \<open>A subtitle of another video\<close>

text \<open>Any subtitle whose name begins with the stem counts, also that of another video of the directory.\<close>

lemma other_video_counts_as_subtitle:
  "is_sidecar_of ''Pilot'' (''Pilot.Part.2.en.srt'', True)"
  by code_simp

end
