(* ===== verification/QueueApi.thy ===== *)
theory QueueApi
  imports QueueView AutoQueue CoverageCache Completion PendingOrder
begin

text \<open>
  The actions of the Queue page (\<open>src/src/subarr/routers/queue.py\<close>) with their HTTP status codes, the completion
  webhook, and the backfill of the whole backlog with the selection of \<open>src/src/subarr/backfill.py\<close>.
\<close>

section \<open>Replies\<close>

datatype 'a reply = Reply 'a | Http nat

section \<open>The pending queue\<close>

datatype pending_request =
    Move "string option" "string option"
  | Step string
  | Promote
  | Demote
  | Remove

definition require_pending :: "string \<Rightarrow> queue_store \<Rightarrow> pending_job reply" where
  "require_pending jid q =
     (case find_job jid q of
        None \<Rightarrow> Http 404
      | Some j \<Rightarrow> if pj_status j \<noteq> PENDING then Http 409 else Reply j)"

text \<open>A store operation that raises: \<open>missing\<close> is the code for a \<open>KeyError\<close>, which only the moves catch; what is
  not caught is answered with 500.\<close>

definition store_reply :: "nat \<Rightarrow> queue_error + (pending_job \<times> queue_store) \<Rightarrow> queue_store \<Rightarrow> pending_job option reply \<times> queue_store" where
  "store_reply missing r q =
     (case r of Inr (j, q') \<Rightarrow> (Reply (Some j), q') | Inl (KeyError _) \<Rightarrow> (Http missing, q) | Inl ValueError \<Rightarrow> (Http 500, q))"

definition when_pending :: "string \<Rightarrow> queue_store \<Rightarrow> pending_job option reply \<times> queue_store \<Rightarrow> pending_job option reply \<times> queue_store" where
  "when_pending jid q next_reply = (case require_pending jid q of Http c \<Rightarrow> (Http c, q) | Reply _ \<Rightarrow> next_reply)"

fun handle_pending :: "pending_request \<Rightarrow> string \<Rightarrow> queue_store \<Rightarrow> pending_job option reply \<times> queue_store" where
  "handle_pending (Move before_id after_id) jid q =
     when_pending jid q
       (if \<not> (truthy_str before_id \<or> truthy_str after_id) then (Http 400, q)
        else store_reply 404 (move_job jid before_id after_id q) q)"
| "handle_pending (Step dir) jid q =
     (if dir \<noteq> ''up'' \<and> dir \<noteq> ''down'' then (Http 400, q)
      else when_pending jid q (store_reply 404 (move_step jid (dir = ''up'') q) q))"
| "handle_pending Promote jid q = when_pending jid q (store_reply 500 (promote jid q) q)"
| "handle_pending Demote jid q = when_pending jid q (store_reply 500 (demote jid q) q)"
| "handle_pending Remove jid q = (if fst (remove_job jid q) then (Reply None, snd (remove_job jid q)) else (Http 404, q))"

record feed_controls =
  fc_paused :: bool
  fc_depth :: int

definition set_queue_control :: "bool option \<Rightarrow> int option \<Rightarrow> feed_controls \<Rightarrow> feed_controls" where
  "set_queue_control paused depth fc =
     (let fc1 = (case paused of None \<Rightarrow> fc | Some b \<Rightarrow> fc\<lparr>fc_paused := b\<rparr>) in
      case depth of None \<Rightarrow> fc1 | Some d \<Rightarrow> fc1\<lparr>fc_depth := max 0 d\<rparr>)"

definition list_pending :: "queue_store \<Rightarrow> pending_job list \<times> pending_job list \<times> (job_status \<times> nat) list" where
  "list_pending q = (list_jobs (Some PENDING) q, list_jobs (Some SUBMITTED) q, count_by_status q)"

section \<open>Cancel, requeue, history\<close>

definition cancel_queued :: "subgen_caps option \<Rightarrow> (string \<Rightarrow> json option) \<Rightarrow> string \<Rightarrow> json reply" where
  "cancel_queued caps subgen path =
     (let p = strip path in
      if p = [] then Http 400
      else if sublist ''..'' p then Http 400
      else if \<not> (case caps of None \<Rightarrow> False | Some c \<Rightarrow> queue_cancel c) then Http 503
      else (case subgen p of None \<Rightarrow> Http 502 | Some r \<Rightarrow> Reply r))"

record queue_page =
  qp_queue :: queue_store
  qp_scans :: scan_store
  qp_cache :: hist_cache
  qp_verdicts :: "verdict_store option"
  qp_kicks :: nat

definition ids_of :: "snapshot option \<Rightarrow> string \<Rightarrow> enqueue_ids" where
  "ids_of snap p = (case map_of (enqueue_ids_for snap [p]) p of None \<Rightarrow> no_ids | Some ids \<Rightarrow> ids)"

definition requeue ::
    "fs_env \<Rightarrow> subgen_caps option \<Rightarrow> snapshot option \<Rightarrow> pyfloat \<Rightarrow> string \<Rightarrow> string \<Rightarrow> queue_page
      \<Rightarrow> pending_job reply \<times> queue_page" where
  "requeue env caps snap now new_id path st =
     (let p = strip_char (CHR ''/'') (strip path) in
      if p = [] then (Http 400, st)
      else (case to_fs env p of
          Inl _ \<Rightarrow> (Http 400, st)
        | Inr fs \<Rightarrow>
            if \<not> fs_exists env fs then (Http 404, st)
            else (let (ovr, verdicts) = (case qp_verdicts st of
                      None \<Rightarrow> (None, None)
                    | Some vs \<Rightarrow> apsnd Some (resolve_audio_language_override env now (case caps of None \<Rightarrow> None | Some c \<Rightarrow> skip_audio_languages c) p vs));
                  ids = ids_of snap p;
                  (job, q) = enqueue new_id now p ''manual'' None ovr None (map_option int (en_series ids)) (map_option int (en_episode ids))
                    False False (map_option int (en_movie ids)) (qp_queue st)
              in (Reply job, st\<lparr>qp_queue := q, qp_verdicts := verdicts, qp_kicks := qp_kicks st + 1,
                    qp_cache := invalidate_history_cache (qp_cache st)\<rparr>))))"

definition delete_from_history :: "string \<Rightarrow> queue_page \<Rightarrow> unit reply \<times> queue_page" where
  "delete_from_history i st =
     (case delete_scan i (qp_scans st) of
        (False, _) \<Rightarrow> (Http 404, st)
      | (True, scans) \<Rightarrow> (Reply (), st\<lparr>qp_scans := scans, qp_cache := invalidate_history_cache (qp_cache st)\<rparr>))"

text \<open>A status outside the enumeration is refused like every other than done and error. \<open>older_than_s\<close> counts when
  it is not zero.\<close>

definition clear_history :: "pyfloat \<Rightarrow> scan_status list \<Rightarrow> int option \<Rightarrow> queue_page \<Rightarrow> nat reply \<times> queue_page" where
  "clear_history now statuses older st =
     (if \<not> list_all (\<lambda>s. s = Scan_done \<or> s = Scan_error) statuses then (Http 400, st)
      else (let (n, scans) = delete_where_status_in statuses
                  (case older of None \<Rightarrow> None | Some s \<Rightarrow> if s = 0 then None else Some (now - of_int s)) (qp_scans st)
            in (Reply n, st\<lparr>qp_scans := scans\<rparr>)))"

section \<open>The completion webhook\<close>

definition webhook_completed ::
    "bool \<Rightarrow> library list \<Rightarrow> disk \<Rightarrow> services \<Rightarrow> pyfloat \<Rightarrow> string option \<Rightarrow> ledger
      \<Rightarrow> (bool \<times> nat) reply \<times> effect list \<times> ledger" where
  "webhook_completed enabled libs dk sv now file led =
     (if \<not> enabled then (Reply (False, 0), [], led)
      else if \<not> truthy_str file then (Http 400, [], led)
      else (case complete_by_canonical dk sv now (subgen_to_canonical libs (or_empty file)) led of
              (n, effs, led') \<Rightarrow> (Reply (True, n), effs, led')))"

section \<open>Backfill\<close>

record backfill_config =
  bf_enabled :: bool
  bf_target :: int
  bf_batch :: int

definition default_backfill :: backfill_config where
  "default_backfill = \<lparr>bf_enabled = False, bf_target = 3, bf_batch = 5\<rparr>"

definition select_backfill_batch :: "'a list \<Rightarrow> int \<Rightarrow> backfill_config \<Rightarrow> 'a list" where
  "select_backfill_batch gaps depth cfg =
     (if \<not> bf_enabled cfg then []
      else (let headroom = bf_target cfg - depth in
        if headroom \<le> 0 then []
        else (let n = min headroom (min (bf_batch cfg) (int (length gaps))) in take (slice_point n gaps) gaps)))"

definition backfill_context :: "auto_queue_rules \<Rightarrow> string list \<Rightarrow> string list \<Rightarrow> pyfloat \<Rightarrow> run_context" where
  "backfill_context rules in_flight suppressed now =
     \<lparr>rc_rules = rules\<lparr>aq_mode := Auto_rules, aq_max_per_run := 10000000, aq_settle_minutes := 0\<rparr>,
      rc_in_flight = in_flight, rc_suppressed = suppressed, rc_now = now\<rparr>"

definition eligible_backfill_items :: "auto_queue_rules \<Rightarrow> string list \<Rightarrow> string list \<Rightarrow> pyfloat \<Rightarrow> coverage_item list \<Rightarrow> coverage_item list" where
  "eligible_backfill_items rules in_flight suppressed now items =
     map dc_item (filter dc_queue (evaluate (backfill_context rules in_flight suppressed now) items))"

definition backfill_path :: "coverage_item \<Rightarrow> string" where
  "backfill_path it = (if truthy_str (it_file it) then or_empty (it_file it) else or_empty (it_path it))"

text \<open>The loop over the eligible rows; \<open>new_id i\<close> is the id made for the \<open>i\<close>-th of them.\<close>

definition backfill_row :: "(nat \<Rightarrow> string) \<Rightarrow> pyfloat \<Rightarrow> nat \<times> coverage_item \<Rightarrow> nat \<times> queue_store \<Rightarrow> nat \<times> queue_store" where
  "backfill_row new_id now e st =
     (case e of (i, it) \<Rightarrow>
        if backfill_path it = [] then st
        else (fst st + 1, snd (enqueue (new_id i) now (backfill_path it) ''backfill'' None None None None (map_option int (it_episode it))
                False False None (snd st))))"

definition backfill_library ::
    "(nat \<Rightarrow> string) \<Rightarrow> pyfloat \<Rightarrow> auto_queue_rules \<Rightarrow> snapshot option \<Rightarrow> ledger \<Rightarrow> queue_store \<Rightarrow> nat reply \<times> queue_store" where
  "backfill_library new_id now rules snap led q =
     (case snap of
        None \<Rightarrow> (Http 409, q)
      | Some s \<Rightarrow>
          (let in_flight = map le_path (pending_entries led) @ map pj_path (filter active q);
               suppressed = no_output_paths_since (now - no_output_cooldown_s) led;
               eligible = eligible_backfill_items rules in_flight suppressed now (sn_items s);
               (n, q') = fold (backfill_row new_id now) (enumerate 0 eligible) (0, q)
           in (Reply n, q')))"

section \<open>The pending API is guarded\<close>

definition identity_of_job :: "pending_job \<Rightarrow> string \<times> string \<times> job_status" where
  "identity_of_job j = (pj_id j, pj_path j, pj_status j)"

lemma identity_update_rows:
  "(\<And>j. identity_of_job (g j) = identity_of_job j) \<Longrightarrow> map identity_of_job (update_rows jid g q) = map identity_of_job q"
  by (simp add: update_rows_def rows_update_map)

lemma move_job_safe:
  assumes "queue_wf q" "move_job jid b a q = Inr (j, q')"
  shows "queue_wf q' \<and> map identity_of_job q' = map identity_of_job q"
proof
  show "queue_wf q'" by (rule queue_wf_move [OF assms])
  show "map identity_of_job q' = map identity_of_job q"
    by (rule move_job_unfold [OF assms(2)]) (auto intro!: identity_update_rows simp: identity_of_job_def)
qed

lemma move_job_error: "move_job jid b a q = Inl e \<Longrightarrow> truthy_str b \<or> truthy_str a \<Longrightarrow> \<exists>k. e = KeyError k"
  by (auto simp: move_job_def Let_def require_job_def split: if_splits option.splits)

lemma move_step_safe:
  assumes "queue_wf q" "move_step jid up q = Inr (j, q')"
  shows "queue_wf q' \<and> map identity_of_job q' = map identity_of_job q"
  using assms move_job_safe by (auto simp: move_step_def Let_def split: option.splits if_splits)

lemma move_step_error:
  assumes "move_step jid up q = Inl e" "[] \<notin> pj_id ` set q"
  shows "\<exists>k. e = KeyError k"
proof -
  have named: "truthy_str (Some (pj_id (pending_list q ! k)))" if "k < length (pending_list q)" for k
  proof -
    have "pj_id (pending_list q ! k) \<in> pj_id ` set q" using nth_mem [OF that] by simp
    then show ?thesis using assms(2) by (auto simp only: truthy_str_def option.inject option.distinct simp_thms)
  qed
  show ?thesis
  proof (cases "index_of jid (pending_list q)")
    case None
    then show ?thesis using assms(1) by (auto simp: move_step_def Let_def)
  next
    case (Some k)
    then have "k < length (pending_list q)" by (simp add: index_of_Some)
    then have "truthy_str (Some (pj_id (pending_list q ! (k - 1))))"
      "\<not> length (pending_list q) - 1 \<le> k \<Longrightarrow> truthy_str (Some (pj_id (pending_list q ! (k + 1))))"
      using named by auto
    then show ?thesis using assms(1) Some move_job_error [of jid] by (auto simp: move_step_def Let_def split: if_splits)
  qed
qed

lemma reposition_safe:
  assumes "queue_wf q" "reposition jid up q = r" "find_job jid q \<noteq> None"
  shows "\<exists>j q'. r = Inr (j, q') \<and> queue_wf q' \<and> map identity_of_job q' = map identity_of_job q"
proof -
  obtain job where job: "find_job jid q = Some job" using assms(3) by auto
  show ?thesis
    by (rule reposition_unfold [OF job, of up])
      (use assms queue_wf_reposition [OF assms(1), of jid up] in \<open>auto intro!: identity_update_rows simp: identity_of_job_def\<close>)
qed

definition safe_reply :: "queue_store \<Rightarrow> pending_job option reply \<times> queue_store \<Rightarrow> bool" where
  "safe_reply q r \<longleftrightarrow>
     (case r of
        (Http c, q') \<Rightarrow> q' = q \<and> c \<in> {400, 404, 409}
      | (Reply _, q') \<Rightarrow> queue_wf q' \<and> map identity_of_job q' = map identity_of_job q)"

lemma when_pending_cases:
  "when_pending jid q r = (Http 404, q) \<and> find_job jid q = None
   \<or> (\<exists>j. find_job jid q = Some j \<and> pj_status j \<noteq> PENDING) \<and> when_pending jid q r = (Http 409, q)
   \<or> (\<exists>j. find_job jid q = Some j \<and> is_pending j) \<and> when_pending jid q r = r"
  by (auto simp: when_pending_def require_pending_def is_pending_def split: option.split)

lemma when_pending_reply:
  "when_pending jid q r = (Reply x, q') \<Longrightarrow> \<exists>j. find_job jid q = Some j \<and> is_pending j"
  using when_pending_cases [of jid q r] by auto

lemma safe_store_reply:
  "(\<And>e. r = Inl e \<Longrightarrow> \<exists>k. e = KeyError k) \<Longrightarrow> (\<And>j q'. r = Inr (j, q') \<Longrightarrow> queue_wf q' \<and> map identity_of_job q' = map identity_of_job q)
    \<Longrightarrow> safe_reply q (store_reply 404 r q)"
  by (cases r) (force simp: store_reply_def safe_reply_def)+

lemma safe_reorder:
  assumes wf: "queue_wf q" and ids: "[] \<notin> pj_id ` set q" and r: "r \<noteq> Remove"
  shows "safe_reply q (handle_pending r jid q)"
proof -
  have wrap: "safe_reply q (when_pending jid q n)" if "find_job jid q \<noteq> None \<Longrightarrow> safe_reply q n" for n
    using when_pending_cases [of jid q n] that by (auto simp: safe_reply_def)
  have top: "safe_reply q (store_reply 500 (reposition jid t q) q)" if "find_job jid q \<noteq> None" for t
    using reposition_safe [OF wf refl that, of t] by (auto simp: store_reply_def safe_reply_def)
  show ?thesis
  proof (cases r)
    case (Move b a)
    have "safe_reply q (store_reply 404 (move_job jid b a q) q)" if "truthy_str b \<or> truthy_str a"
      using move_job_error [OF _ that, of jid q] move_job_safe [OF wf, of jid b a] by (intro safe_store_reply) blast+
    then show ?thesis unfolding Move handle_pending.simps by (intro wrap) (auto simp: safe_reply_def)
  next
    case (Step d)
    have "safe_reply q (store_reply 404 (move_step jid (d = ''up'') q) q)"
      using move_step_error [OF _ ids, of jid "d = ''up''"] move_step_safe [OF wf, of jid "d = ''up''"] by (intro safe_store_reply) blast+
    then show ?thesis unfolding Step handle_pending.simps using wrap by (auto simp: safe_reply_def)
  next
    case Promote
    then show ?thesis using top wrap by (simp add: promote_def)
  next
    case Demote
    then show ?thesis using top wrap by (simp add: demote_def)
  qed (use r in simp)
qed



section \<open>A backfill tops up\<close>

lemma map_filter_rejected: "filter dc_queue (List.map_filter (skip_decision rc) items) = []"
  by (induction items) (auto simp: List.map_filter_simps skip_decision_def split: option.split)

lemma backfill_eligible:
  "length items \<le> 10000000 \<Longrightarrow> set (eligible_backfill_items rules fl held now items)
     = {it \<in> set items. skip_reason (backfill_context rules fl held now) it = None}"
proof -
  assume "length items \<le> 10000000"
  moreover have "length (filter (\<lambda>it. skip_reason (backfill_context rules fl held now) it = None) items) \<le> length items" by simp
  ultimately have "length (filter (\<lambda>it. skip_reason (backfill_context rules fl held now) it = None) items) \<le> 10000000" by linarith
  then show ?thesis
    by (simp add: eligible_backfill_items_def evaluate_def backfill_context_def Let_def slice_point_def map_filter_rejected comp_def)
qed

lemma in_flight_mono: "set fl \<subseteq> set fl' \<Longrightarrow> is_in_flight it fl \<Longrightarrow> is_in_flight it fl'"
  by (auto simp: is_in_flight_def list_ex_iff Let_def split: option.splits)

lemma eligible_mono:
  "set fl \<subseteq> set fl' \<Longrightarrow> skip_reason (backfill_context rules fl' held now) it = None
    \<Longrightarrow> skip_reason (backfill_context rules fl held now) it = None"
  using in_flight_mono [of fl fl' it] by (auto simp: skip_reason_def backfill_context_def Let_def split: if_splits)

lemma backfill_row_cases:
  assumes "queue_wf (snd st)" "new_id i \<notin> pj_id ` set (snd st)"
  shows "\<exists>new. snd (backfill_row new_id now (i, it) st) = snd st @ new \<and> queue_wf (snd (backfill_row new_id now (i, it) st))
     \<and> (\<forall>j \<in> set new. is_pending j \<and> pj_priority j = 0 \<and> pj_id j = new_id i)
     \<and> pj_path ` set new = {p. p = backfill_path it \<and> p \<noteq> []} - active_paths (snd st)"
proof (cases "backfill_path it = []")
  case True
  then show ?thesis using assms by (simp add: backfill_row_def)
next
  case False
  show ?thesis
  proof (cases rule: enqueue_cases [of "backfill_path it" "snd st" "new_id i" now "''backfill''" None None None None
        "map_option int (it_episode it)" False False None])
    case (dup j)
    then have "backfill_path it \<in> active_paths (snd st)" using find_SomeD [OF dup(1)] by (auto simp: active_paths_def intro: image_eqI [of _ _ j])
    then show ?thesis using dup False assms by (auto simp: backfill_row_def)
  next
    case (new j)
    then have "backfill_path it \<notin> active_paths (snd st)" by (auto simp: active_paths_def)
    moreover have "source_priority None ''backfill'' = 0" by (simp add: source_priority_def priority_by_source_def)
    ultimately show ?thesis using new False queue_wf_enqueue [OF assms, of now "backfill_path it" "''backfill''" None None None None
          "map_option int (it_episode it)" False False None]
      by (intro exI [of _ "[j]"]) (auto simp: backfill_row_def)
  qed
qed

lemma active_paths_append: "active_paths (q @ new) = active_paths q \<union> pj_path ` {j \<in> set new. active j}"
  by (auto simp: active_paths_def)

lemma backfill_all:
  assumes "queue_wf (snd st)" "inj new_id" "\<forall>i \<ge> k. new_id i \<notin> pj_id ` set (snd st)"
  shows "\<exists>new. snd (fold (backfill_row new_id now) (enumerate k items) st) = snd st @ new
     \<and> queue_wf (snd (fold (backfill_row new_id now) (enumerate k items) st))
     \<and> (\<forall>j \<in> set new. is_pending j \<and> pj_priority j = 0)
     \<and> pj_path ` set new = {p. \<exists>it \<in> set items. p = backfill_path it \<and> p \<noteq> []} - active_paths (snd st)"
  using assms
proof (induction items arbitrary: st k)
  case Nil
  then show ?case by simp
next
  case (Cons it items)
  define st1 where "st1 = backfill_row new_id now (k, it) st"
  from backfill_row_cases [of st new_id k now it] Cons.prems obtain new where new: "snd st1 = snd st @ new" "queue_wf (snd st1)"
    "\<forall>j \<in> set new. is_pending j \<and> pj_priority j = 0 \<and> pj_id j = new_id k"
    "pj_path ` set new = {p. p = backfill_path it \<and> p \<noteq> []} - active_paths (snd st)"
    unfolding st1_def by auto
  have "\<forall>i \<ge> Suc k. new_id i \<notin> pj_id ` set (snd st1)"
  proof (intro allI impI)
    fix i assume i: "Suc k \<le> i"
    then have "new_id i \<noteq> new_id k" using Cons.prems(2) by (auto dest: injD)
    then have "new_id i \<notin> pj_id ` set new" using new(3) by auto
    moreover have "new_id i \<notin> pj_id ` set (snd st)" using Cons.prems(3) i by (metis Suc_leD)
    ultimately show "new_id i \<notin> pj_id ` set (snd st1)" unfolding new(1) set_append image_Un by blast
  qed
  from Cons.IH [OF new(2) Cons.prems(2) this] obtain new' where new':
    "snd (fold (backfill_row new_id now) (enumerate (Suc k) items) st1) = snd st1 @ new'"
    "queue_wf (snd (fold (backfill_row new_id now) (enumerate (Suc k) items) st1))"
    "\<forall>j \<in> set new'. is_pending j \<and> pj_priority j = 0"
    "pj_path ` set new' = {p. \<exists>it \<in> set items. p = backfill_path it \<and> p \<noteq> []} - active_paths (snd st1)" by blast
  have "active_paths (snd st1) = active_paths (snd st) \<union> pj_path ` set new"
    using new(3) pending_active unfolding new(1) active_paths_append by blast
  then have "pj_path ` set (new @ new') = {p. \<exists>i \<in> set (it # items). p = backfill_path i \<and> p \<noteq> []} - active_paths (snd st)"
    using new(4) new'(4) by (auto simp: image_Un)
  moreover have "\<forall>j \<in> set (new @ new'). is_pending j \<and> pj_priority j = 0" using new(3) new'(3) by auto
  moreover have "fold (backfill_row new_id now) (enumerate k (it # items)) st = fold (backfill_row new_id now) (enumerate (Suc k) items) st1"
    by (simp add: st1_def)
  moreover have "snd st1 @ new' = snd st @ (new @ new')" using new(1) by simp
  ultimately show ?case using new'(1,2) by metis
qed

lemma backfill_nothing_new:
  "\<forall>it \<in> set items. backfill_path it = [] \<or> backfill_path it \<in> active_paths (snd st)
    \<Longrightarrow> snd (fold (backfill_row new_id now) (enumerate k items) st) = snd st"
proof (induction items arbitrary: st k)
  case (Cons it items)
  have "snd (backfill_row new_id now (k, it) st) = snd st"
  proof (cases "backfill_path it = []")
    case False
    then have "\<exists>j \<in> set (snd st). pj_path j = backfill_path it \<and> active j" using Cons.prems by (auto simp: active_paths_def)
    then obtain j where "List.find (\<lambda>j. pj_path j = backfill_path it \<and> active j) (snd st) = Some j"
      using find_NoneD [of "\<lambda>j. pj_path j = backfill_path it \<and> active j" "snd st"]
      by (cases "List.find (\<lambda>j. pj_path j = backfill_path it \<and> active j) (snd st)") auto
    then show ?thesis using False by (simp add: backfill_row_def enqueue_def)
  qed (simp add: backfill_row_def)
  then show ?case using Cons by simp
qed simp

text \<open>A backfill appends to the queue exactly one pending job for every eligible file that has none, at the
  lowest priority and without touching the jobs that are there, and doing it again on the same snapshot
  adds nothing.\<close>

theorem backfill_tops_up:
  fixes s :: snapshot
  defines "ctx \<equiv> (\<lambda>rules led q now. backfill_context rules (map le_path (pending_entries led) @ map pj_path (filter active q))
      (no_output_paths_since (now - no_output_cooldown_s) led) now)"
  assumes wf: "queue_wf q" and fresh: "inj new_id" "range new_id \<inter> pj_id ` set q = {}"
    and small: "length (sn_items s) \<le> 10000000"
    and run: "backfill_library new_id now rules (Some s) led q = (reply, q')"
  shows "\<exists>new. q' = q @ new \<and> queue_wf q' \<and> (\<forall>j \<in> set new. is_pending j \<and> pj_priority j = 0)
     \<and> pj_path ` set new
        = {p. \<exists>it \<in> set (sn_items s). skip_reason (ctx rules led q now) it = None \<and> p = backfill_path it \<and> p \<noteq> []} - active_paths q
     \<and> snd (backfill_library other_id now rules (Some s) led q') = q'"
proof -
  define fl where "fl = (\<lambda>q. map le_path (pending_entries led) @ map pj_path (filter active q))"
  define held where "held = no_output_paths_since (now - no_output_cooldown_s) led"
  define el where "el = (\<lambda>q. eligible_backfill_items rules (fl q) held now (sn_items s))"
  have run_eq: "snd (backfill_library ids now rules (Some s) led p) = snd (fold (backfill_row ids now) (enumerate 0 (el p)) (0, p))" for ids p
    by (simp add: backfill_library_def Let_def el_def fl_def held_def split: prod.split)
  have el: "set (el p) = {it \<in> set (sn_items s). skip_reason (backfill_context rules (fl p) held now) it = None}" for p
    unfolding el_def by (rule backfill_eligible [OF small])
  have q': "q' = snd (fold (backfill_row new_id now) (enumerate 0 (el q)) (0, q))" using run_eq [of new_id q] run by simp
  have "\<forall>i \<ge> 0. new_id i \<notin> pj_id ` set q" using fresh(2) by auto
  with backfill_all [of "(0, q)" new_id 0 now "el q"] wf fresh(1) obtain new where new: "q' = q @ new" "queue_wf q'"
    "\<forall>j \<in> set new. is_pending j \<and> pj_priority j = 0"
    "pj_path ` set new = {p. \<exists>it \<in> set (el q). p = backfill_path it \<and> p \<noteq> []} - active_paths q"
    unfolding q' by auto
  have "set (fl q) \<subseteq> set (fl q')" by (auto simp: fl_def new(1))
  then have "set (el q') \<subseteq> set (el q)" using eligible_mono unfolding el by blast
  moreover have "active_paths q' = active_paths q \<union> pj_path ` set new"
    using new(3) pending_active unfolding new(1) active_paths_append by blast
  ultimately have "\<forall>it \<in> set (el q'). backfill_path it = [] \<or> backfill_path it \<in> active_paths q'" using new(4) by auto
  then have "snd (backfill_library other_id now rules (Some s) led q') = q'"
    unfolding run_eq using backfill_nothing_new [of "el q'" "(0, q')"] by simp
  moreover have "{p. \<exists>it \<in> set (el q). p = backfill_path it \<and> p \<noteq> []}
      = {p. \<exists>it \<in> set (sn_items s). skip_reason (ctx rules led q now) it = None \<and> p = backfill_path it \<and> p \<noteq> []}"
    by (auto simp: el ctx_def fl_def held_def)
  ultimately show ?thesis using new by metis
qed

section \<open>What goes wrong\<close>

text \<open>A backfilled job carries an episode id and no series id. At completion the episode id keeps the lookup of the
  missing ids from running, and without a series neither the upload nor the scan is made: Bazarr never
  hears of the subtitle.\<close>

lemma backfilled_rows_have_no_series:
  "j \<in> set (snd (backfill_row new_id now (i, it) (n, q))) \<Longrightarrow> j \<notin> set q
    \<Longrightarrow> pj_series_id j = None \<and> pj_movie_id j = None \<and> pj_episode_id j = map_option int (it_episode it)"
  by (auto simp: backfill_row_def enqueue_def Let_def split: if_splits option.splits)

lemma backfilled_episode_never_reaches_bazarr:
  assumes "le_series e = None" "truthy_id (le_episode e)" "\<not> truthy_id (le_movie e)"
  shows "\<forall>eff \<in> set (fst (complete_entry dk sv now outcome e led)).
     (\<exists>p t. eff = Rewrote p t) \<or> (\<exists>p. eff = Judged p) \<or> (\<exists>p. eff = Media_refreshed p)"
  using assms
  by (auto simp: complete_entry_def try_upload_def fill_missing_arr_ids_def run_retime_def run_aftercare_def Let_def truthy_id_def
      split: option.splits if_splits prod.splits)

text \<open>Clearing the history does not invalidate its cache: the next request is served the cleared rows.\<close>

lemma cleared_rows_are_served:
  assumes "clear_history now [Scan_done] None st = (reply, st')" "hc_key (qp_cache st) = Some window" "0 < hc_built (qp_cache st)"
  shows "\<exists>fresh c. serve_history window t built (qp_cache st') = Some (hc_view (qp_cache st), fresh, c)"
  using assms by (auto simp: clear_history_def serve_history_def split: prod.splits)

definition one_gap :: snapshot where
  "one_gap = \<lparr>sn_at = 0, sn_items = [blank_item\<lparr>it_state := Verified, it_score := 300, it_file := Some ''TV/x.mkv''\<rparr>],
     sn_totals = [], sn_sources = [], sn_duration = 0, sn_count = 1\<rparr>"

lemma backfill_tops_up_witness:
  "\<exists>new. snd (backfill_library (\<lambda>i. replicate i CHR ''j'') 0 default_rules (Some one_gap) [] []) = new \<and> pj_path ` set new = {''TV/x.mkv''}"
proof -
  obtain reply q' where run: "backfill_library (\<lambda>i. replicate i CHR ''j'') 0 default_rules (Some one_gap) [] [] = (reply, q')" by fastforce
  have fresh: "inj (\<lambda>i. replicate i CHR ''j'')" "range (\<lambda>i. replicate i CHR ''j'') \<inter> pj_id ` set [] = {}"
    by (auto intro!: injI dest: arg_cong [of _ _ length])
  have "length (sn_items one_gap) \<le> 10000000" "queue_wf []" by (simp_all add: one_gap_def queue_wf_def)
  from backfill_tops_up [OF this(2) fresh this(1) run] obtain new where new: "q' = [] @ new"
    "pj_path ` set new = {p. \<exists>it \<in> set (sn_items one_gap). skip_reason (backfill_context default_rules
        (map le_path (pending_entries []) @ map pj_path (filter active [])) (no_output_paths_since (0 - no_output_cooldown_s) []) 0) it = None
        \<and> p = backfill_path it \<and> p \<noteq> []} - active_paths []"
    by blast
  moreover have "list_all (\<lambda>it. skip_reason (backfill_context default_rules [] [] 0) it = None \<and> backfill_path it = ''TV/x.mkv'') (sn_items one_gap)"
    by code_simp
  moreover have "sn_items one_gap \<noteq> []" by (simp add: one_gap_def)
  ultimately have "pj_path ` set new = {''TV/x.mkv''}"
    by (auto simp: one_gap_def pending_entries_def no_output_paths_since_def active_paths_def)
  with new(1) run show ?thesis by simp
qed

end
