(* ===== verification/Relink.thy ===== *)
theory Relink
  imports Paths VerdictStore
begin

text \<open>
  The relinking of stale rows after a change of layout (\<open>src/src/subarr/relink.py\<close>): which current file a
  stale path means, the grouping of the matches into rules \<open>old head \<rightarrow> new head\<close> with the reason of
  every path, and the caches of the inventory walk. Dictionaries that only serve to group are the lists
  of what they group, in order.
\<close>

section \<open>Heads and tails\<close>

definition rule_min_verified :: nat where "rule_min_verified = 3"
definition min_tail :: nat where "min_tail = 3"
definition min_tail_sized :: nat where "min_tail_sized = 2"

definition split_head :: "string \<Rightarrow> string \<times> string list" where
  "split_head canonical =
     (let s = strip canonical;
          (head, rest) = (if prefix ''@'' s then (case partition_at (CHR ''/'') s of (h, _, r) \<Rightarrow> (h, r)) else ([], s))
      in (head, filter (\<lambda>p. p \<noteq> []) (split_on (CHR ''/'') rest)))"

definition join_head :: "string \<Rightarrow> string list \<Rightarrow> string" where
  "join_head pre segs =
     (let body = join_with ''/'' segs in
      if pre \<noteq> [] \<and> body \<noteq> [] then pre @ ''/'' @ body else if pre \<noteq> [] then pre else body)"

definition slug_of :: "string \<Rightarrow> string" where
  "slug_of c = lstrip_char (CHR ''@'') (fst (split_head c))"

definition shared_tail :: "string list \<Rightarrow> string list \<Rightarrow> nat" where
  "shared_tail a b = length (takeWhile (\<lambda>(x, y). x = y) (zip (rev a) (rev b)))"

definition last_segs :: "nat \<Rightarrow> string list \<Rightarrow> string list" where
  "last_segs n segs = drop (length segs - n) segs"

text \<open>The longest shared tail wins; a tie for the longest is nothing.\<close>

definition unique_best :: "(nat \<times> 'a) list \<Rightarrow> (nat \<times> 'a) option" where
  "unique_best cands =
     (case filter (\<lambda>c. list_all (\<lambda>d. fst d \<le> fst c) cands) cands of [c] \<Rightarrow> Some c | _ \<Rightarrow> None)"

section \<open>One stale path\<close>

datatype how = Size | Path_only

datatype relink_reason =
    Failed_library | Too_short | No_candidate | Needs_size | Size_changed | Ambiguous | Contested | Collision
  | Path_only_withheld | Below_threshold | Offered

record relink_inputs =
  ri_old_sizes :: "string \<Rightarrow> int option"
  ri_verified :: "string list"
  ri_probed :: "string list"
  ri_inventory :: "(string \<times> int) list"
  ri_failed :: "string list"

record relink_match =
  mt_old :: string
  mt_new :: string
  mt_old_head :: string
  mt_new_head :: string
  mt_how :: how

datatype judged = Dropped relink_reason "(string \<times> string) option" | Matched relink_match

definition candidates :: "relink_inputs \<Rightarrow> string \<Rightarrow> (string \<times> string list) list" where
  "candidates ri s =
     (let tail2 = last_segs min_tail_sized (snd (split_head s)) in
      filter (\<lambda>(c, segs). min_tail_sized \<le> length segs \<and> last_segs min_tail_sized segs = tail2 \<and> c \<noteq> s)
        (map (\<lambda>c. (c, snd (split_head c))) (filter (\<lambda>c. slug_of c \<notin> set (ri_failed ri)) (map fst (ri_inventory ri)))))"

text \<open>The two heads left when a shared tail of \<open>n\<close> segments is taken off.\<close>

definition heads :: "nat \<Rightarrow> string \<Rightarrow> string \<Rightarrow> string \<times> string" where
  "heads n old new =
     (case (split_head old, split_head new) of
        ((p, segs), (q, segs')) \<Rightarrow> (join_head p (take (length segs - n) segs), join_head q (take (length segs' - n) segs')))"

definition scored :: "string list \<Rightarrow> (string \<times> string list) list \<Rightarrow> (nat \<times> string) list" where
  "scored segs cands = map (\<lambda>(c, cs). (shared_tail segs cs, c)) cands"

definition same_third :: "string list \<Rightarrow> string \<times> string list \<Rightarrow> bool" where
  "same_third segs c \<longleftrightarrow> min_tail \<le> length (snd c) \<and> snd c ! (length (snd c) - min_tail) = segs ! (length segs - min_tail)"

definition settle_match :: "string \<Rightarrow> how \<Rightarrow> (nat \<times> string) list \<Rightarrow> judged" where
  "settle_match s h pool =
     (case unique_best pool of
        None \<Rightarrow> Dropped Ambiguous None
      | Some (n, c) \<Rightarrow>
          Matched \<lparr>mt_old = s, mt_new = c, mt_old_head = fst (heads n s c), mt_new_head = snd (heads n s c), mt_how = h\<rparr>)"

definition judge :: "relink_inputs \<Rightarrow> string \<Rightarrow> judged" where
  "judge ri s =
     (if slug_of s \<in> set (ri_failed ri) then Dropped Failed_library None
      else (let segs = snd (split_head s) in
        if length segs < min_tail_sized then Dropped Too_short None
        else (let cands = candidates ri s;
                  third = (min_tail \<le> length segs);
                  long = scored segs (filter (same_third segs) cands)
          in if cands = [] then Dropped No_candidate None
             else (case ri_old_sizes ri s of
                 Some sz \<Rightarrow>
                   (let pool = scored segs (filter (\<lambda>(c, _). map_of (ri_inventory ri) c = Some sz) cands) in
                    if pool = [] then
                      Dropped Size_changed
                        (if third then (case unique_best long of None \<Rightarrow> None | Some (n, c) \<Rightarrow> Some (heads n s c)) else None)
                    else settle_match s Size pool)
               | None \<Rightarrow>
                   if \<not> third \<or> long = [] then Dropped Needs_size None else settle_match s Path_only long))))"

section \<open>Rules\<close>

record relink_rule =
  rr_old_head :: string
  rr_new_head :: string
  rr_by_size :: "relink_match list"
  rr_path_only :: "relink_match list"
  rr_withheld :: nat
  rr_mismatches :: nat
  rr_collisions :: nat
  rr_verified :: nat

definition rule_key :: "relink_match \<Rightarrow> string \<times> string" where
  "rule_key m = (mt_old_head m, mt_new_head m)"

definition included_pairs :: "relink_rule \<Rightarrow> relink_match list" where
  "included_pairs r = sort_key mt_old (rr_by_size r @ rr_path_only r)"

text \<open>All judgements, in the order of the sorted distinct paths.\<close>

definition judgements :: "relink_inputs \<Rightarrow> string list \<Rightarrow> (string \<times> judged) list" where
  "judgements ri stale = map (\<lambda>s. (s, judge ri s)) (sort (remdups stale))"

definition matches_of :: "(string \<times> judged) list \<Rightarrow> relink_match list" where
  "matches_of js = List.map_filter (\<lambda>(_, j). case j of Matched m \<Rightarrow> Some m | Dropped _ _ \<Rightarrow> None) js"

definition mismatch_count :: "(string \<times> judged) list \<Rightarrow> string \<times> string \<Rightarrow> nat" where
  "mismatch_count js key = length (filter (\<lambda>(_, j). case j of Dropped Size_changed (Some k) \<Rightarrow> k = key | _ \<Rightarrow> False) js)"

definition contested :: "relink_match list \<Rightarrow> relink_match \<Rightarrow> bool" where
  "contested ms m \<longleftrightarrow> 1 < length (filter (\<lambda>k. mt_new k = mt_new m) ms)"

definition collided :: "relink_inputs \<Rightarrow> relink_match \<Rightarrow> bool" where
  "collided ri m \<longleftrightarrow> (if mt_old m \<in> set (ri_verified ri) then mt_new m \<in> set (ri_verified ri) else mt_new m \<in> set (ri_probed ri))"

definition group_rule :: "relink_inputs \<Rightarrow> (string \<times> judged) list \<Rightarrow> string \<times> string \<Rightarrow> relink_rule" where
  "group_rule ri js key =
     (let mine = filter (\<lambda>m. \<not> contested (matches_of js) m \<and> rule_key m = key) (matches_of js);
          pairs = filter (\<lambda>m. \<not> collided ri m) mine;
          sized = filter (\<lambda>m. mt_how m = Size) pairs;
          loose = filter (\<lambda>m. mt_how m = Path_only) pairs;
          wrong = mismatch_count js key;
          hold = (loose \<noteq> [] \<and> (sized = [] \<or> 0 < wrong));
          kept = (if hold then [] else loose)
      in \<lparr>rr_old_head = fst key, rr_new_head = snd key, rr_by_size = sized, rr_path_only = kept,
          rr_withheld = (if hold then length loose else 0), rr_mismatches = wrong,
          rr_collisions = length (filter (collided ri) mine),
          rr_verified = length (filter (\<lambda>m. mt_old m \<in> set (ri_verified ri)) (sized @ kept))\<rparr>)"

definition all_groups :: "relink_inputs \<Rightarrow> (string \<times> judged) list \<Rightarrow> relink_rule list" where
  "all_groups ri js =
     map (group_rule ri js) (remdups (map rule_key (filter (\<lambda>m. \<not> contested (matches_of js) m) (matches_of js))))"

definition is_offered :: "relink_rule \<Rightarrow> bool" where
  "is_offered r \<longleftrightarrow> rule_min_verified \<le> rr_verified r"

definition group_rows :: "relink_rule \<Rightarrow> nat" where
  "group_rows r = length (included_pairs r) + rr_collisions r + rr_withheld r"

definition path_reason :: "relink_inputs \<Rightarrow> (string \<times> judged) list \<Rightarrow> judged \<Rightarrow> relink_reason" where
  "path_reason ri js j =
     (case j of
        Dropped why _ \<Rightarrow> why
      | Matched m \<Rightarrow>
          if contested (matches_of js) m then Contested
          else if collided ri m then Collision
          else (let r = group_rule ri js (rule_key m) in
            if mt_how m = Path_only \<and> 0 < rr_withheld r then Path_only_withheld
            else if is_offered r then Offered else Below_threshold))"

definition all_reasons :: "relink_reason list" where
  "all_reasons = [Failed_library, Too_short, No_candidate, Needs_size, Size_changed, Ambiguous, Contested, Collision,
     Path_only_withheld, Below_threshold, Offered]"

definition examples_per_reason :: nat where "examples_per_reason = 3"

record relink_analysis =
  ra_rules :: "relink_rule list"
  ra_reasons :: "(relink_reason \<times> nat) list"
  ra_examples :: "(relink_reason \<times> string list) list"
  ra_unoffered :: "relink_rule list"

definition rule_order :: "(relink_rule \<Rightarrow> nat) \<Rightarrow> relink_rule \<Rightarrow> int \<times> string \<times> string" where
  "rule_order f r = (- int (f r), rr_old_head r, rr_new_head r)"

definition analyse :: "relink_inputs \<Rightarrow> string list \<Rightarrow> relink_analysis" where
  "analyse ri stale =
     (let js = judgements ri stale;
          because = map (\<lambda>(s, j). (s, path_reason ri js j)) js;
          paths = (\<lambda>r. map fst (filter (\<lambda>(_, r'). r' = r) because));
          groups = all_groups ri js
      in \<lparr>ra_rules = sort_key (rule_order rr_verified) (filter is_offered groups),
          ra_reasons = map (\<lambda>r. (r, length (paths r))) all_reasons,
          ra_examples = [(r, take examples_per_reason (sort (paths r))). r \<leftarrow> all_reasons, paths r \<noteq> []],
          ra_unoffered = sort_key (rule_order group_rows) (filter (\<lambda>r. \<not> is_offered r) groups)\<rparr>)"

definition build_rules :: "relink_inputs \<Rightarrow> string list \<Rightarrow> relink_rule list" where
  "build_rules ri stale = ra_rules (analyse ri stale)"

section \<open>Facts about one match\<close>

lemma unique_best_in: "unique_best cands = Some c \<Longrightarrow> c \<in> set cands"
proof -
  assume "unique_best cands = Some c"
  then have "filter (\<lambda>c. list_all (\<lambda>d. fst d \<le> fst c) cands) cands = [c]"
    by (simp add: unique_best_def split: list.splits)
  then have "c \<in> set (filter (\<lambda>c. list_all (\<lambda>d. fst d \<le> fst c) cands) cands)" by simp
  then show ?thesis by simp
qed

lemma shared_tail_same:
  "shared_tail a b = n \<Longrightarrow> n \<le> length a \<and> n \<le> length b \<and> last_segs n a = last_segs n b"
proof -
  assume n: "shared_tail a b = n"
  let ?zs = "zip (rev a) (rev b)"
  have tw: "takeWhile (\<lambda>(x, y). x = y) ?zs = take n ?zs"
    using takeWhile_eq_take [of "\<lambda>(x, y). x = y" ?zs] n by (simp only: shared_tail_def)
  have "n \<le> length ?zs" using length_takeWhile_le [of "\<lambda>(x, y). x = y" ?zs] n by (simp only: shared_tail_def)
  then have len: "n \<le> length a" "n \<le> length b" by simp_all
  have same: "x = y" if "(x, y) \<in> set (zip (take n (rev a)) (take n (rev b)))" for x y
    using set_takeWhileD [of "(x, y)" "\<lambda>(x, y). x = y" ?zs] that by (simp only: tw take_zip) simp
  have "take n (rev a) = take n (rev b)"
  proof (rule nth_equalityI)
    fix i assume "i < length (take n (rev a))"
    with len have "i < length (zip (take n (rev a)) (take n (rev b)))" by simp
    from nth_mem [OF this] this have "(take n (rev a) ! i, take n (rev b) ! i) \<in> set (zip (take n (rev a)) (take n (rev b)))"
      by (simp only: nth_zip length_zip min_less_iff_conj)
    then show "take n (rev a) ! i = take n (rev b) ! i" by (rule same)
  qed (use len in simp)
  then have "rev (take n (rev a)) = rev (take n (rev b))" by simp
  with len show ?thesis by (simp add: last_segs_def rev_take)
qed

text \<open>What makes a match trustworthy: the two paths share their last segments, only their heads differ,
  the new path is a listed file of a readable library, and it has the old size unless none is known.\<close>

definition good_match :: "relink_inputs \<Rightarrow> relink_match \<Rightarrow> bool" where
  "good_match ri m \<longleftrightarrow>
     (\<exists>n. (mt_old_head m, mt_new_head m) = heads n (mt_old m) (mt_new m)
        \<and> n \<le> length (snd (split_head (mt_old m))) \<and> n \<le> length (snd (split_head (mt_new m)))
        \<and> last_segs n (snd (split_head (mt_old m))) = last_segs n (snd (split_head (mt_new m)))
        \<and> (if mt_how m = Size then 2 else 3) \<le> n)
     \<and> mt_new m \<in> set (map fst (ri_inventory ri)) \<and> mt_new m \<noteq> mt_old m
     \<and> slug_of (mt_old m) \<notin> set (ri_failed ri) \<and> slug_of (mt_new m) \<notin> set (ri_failed ri)
     \<and> (if mt_how m = Size then ri_old_sizes ri (mt_old m) \<noteq> None \<and> map_of (ri_inventory ri) (mt_new m) = ri_old_sizes ri (mt_old m)
        else ri_old_sizes ri (mt_old m) = None)"

lemma candidates_in:
  "(c, segs) \<in> set (candidates ri s) \<Longrightarrow> segs = snd (split_head c) \<and> c \<in> set (map fst (ri_inventory ri)) \<and> c \<noteq> s
     \<and> slug_of c \<notin> set (ri_failed ri) \<and> 2 \<le> length segs \<and> last_segs 2 segs = last_segs 2 (snd (split_head s))"
  by (auto simp: candidates_def Let_def min_tail_sized_def)

lemma last_segs_step:
  assumes "last_segs n a = last_segs n b" "n < length a" "n < length b" "a ! (length a - Suc n) = b ! (length b - Suc n)"
  shows "last_segs (Suc n) a = last_segs (Suc n) b"
proof -
  have "last_segs (Suc n) xs = xs ! (length xs - Suc n) # last_segs n xs" if "n < length xs" for xs :: "string list"
    using that by (simp add: last_segs_def Suc_diff_Suc Cons_nth_drop_Suc [symmetric])
  with assms show ?thesis by metis
qed

lemma shared_tail_ge:
  assumes "last_segs n a = last_segs n b" "n \<le> length a" "n \<le> length b"
  shows "n \<le> shared_tail a b"
proof -
  have "rev (last_segs n a) = rev (last_segs n b)" using assms(1) by simp
  then have same: "take n (rev a) = take n (rev b)" using assms(2,3) by (simp add: last_segs_def rev_drop)
  have all: "\<forall>p \<in> set (take n (zip (rev a) (rev b))). case p of (x, y) \<Rightarrow> x = y"
    unfolding take_zip same by (auto simp: set_zip)
  have "takeWhile (\<lambda>(x, y). x = y) (take n (zip (rev a) (rev b)) @ drop n (zip (rev a) (rev b)))
      = take n (zip (rev a) (rev b)) @ takeWhile (\<lambda>(x, y). x = y) (drop n (zip (rev a) (rev b)))"
    by (rule takeWhile_append2) (rule bspec [OF all])
  then have "length (takeWhile (\<lambda>(x, y). x = y) (zip (rev a) (rev b)))
      = length (take n (zip (rev a) (rev b)) @ takeWhile (\<lambda>(x, y). x = y) (drop n (zip (rev a) (rev b))))"
    unfolding append_take_drop_id by (rule arg_cong)
  then show ?thesis using assms(2,3) by (simp add: shared_tail_def)
qed

lemma settle_good:
  assumes "settle_match s h (scored segs cands) = Matched m" "set cands \<subseteq> set (candidates ri s)" "segs = snd (split_head s)"
    and "2 \<le> length segs" "h = Path_only \<Longrightarrow> 3 \<le> length segs \<and> list_all (same_third segs) cands"
    and "slug_of s \<notin> set (ri_failed ri)"
    and "if h = Size then ri_old_sizes ri s \<noteq> None \<and> list_all (\<lambda>(c, _). map_of (ri_inventory ri) c = ri_old_sizes ri s) cands
         else ri_old_sizes ri s = None"
  shows "good_match ri m \<and> mt_old m = s"
proof -
  from assms(1) obtain n c where b: "unique_best (scored segs cands) = Some (n, c)"
    "m = \<lparr>mt_old = s, mt_new = c, mt_old_head = fst (heads n s c), mt_new_head = snd (heads n s c), mt_how = h\<rparr>"
    by (auto simp: settle_match_def split: option.splits)
  from unique_best_in [OF b(1)] obtain cs where c: "(c, cs) \<in> set cands" "n = shared_tail segs cs"
    by (auto simp: scored_def)
  from candidates_in assms(2) c(1) have f: "cs = snd (split_head c)" "c \<in> set (map fst (ri_inventory ri))" "c \<noteq> s"
    "slug_of c \<notin> set (ri_failed ri)" "2 \<le> length cs" "last_segs 2 cs = last_segs 2 segs"
    unfolding assms(3) by blast+
  note tail = shared_tail_same [OF c(2) [symmetric]]
  have two: "2 \<le> n" using shared_tail_ge [of 2 segs cs] f(5,6) assms(4) c(2) by simp
  have three: "3 \<le> n" if "h = Path_only"
  proof -
    have t: "3 \<le> length segs" "3 \<le> length cs" "cs ! (length cs - 3) = segs ! (length segs - 3)"
      using assms(5) [OF that] c(1) by (auto simp: list_all_iff same_third_def min_tail_def)
    have "last_segs (Suc 2) segs = last_segs (Suc 2) cs"
      by (rule last_segs_step) (use t f(6) in \<open>simp_all add: numeral_3_eq_3\<close>)
    with t shared_tail_ge [of 3 segs cs] c(2) show ?thesis by (simp add: numeral_3_eq_3)
  qed
  have sizes: "if h = Size then ri_old_sizes ri s \<noteq> None \<and> map_of (ri_inventory ri) c = ri_old_sizes ri s else ri_old_sizes ri s = None"
    using assms(7) c(1) by (auto simp: list_all_iff)
  show ?thesis
    using tail two three f sizes assms(3,6) by (cases h) (auto simp: good_match_def b(2) intro!: exI [of _ n])
qed

lemma judge_good: "judge ri s = Matched m \<Longrightarrow> good_match ri m \<and> mt_old m = s"
proof -
  assume j: "judge ri s = Matched m"
  let ?segs = "snd (split_head s)"
  have base: "slug_of s \<notin> set (ri_failed ri)" "2 \<le> length ?segs"
    using j by (auto simp: judge_def Let_def min_tail_sized_def split: if_splits)
  show ?thesis
  proof (cases "ri_old_sizes ri s")
    case (Some sz)
    with j have "settle_match s Size (scored ?segs (filter (\<lambda>(c, _). map_of (ri_inventory ri) c = Some sz) (candidates ri s))) = Matched m"
      by (auto simp: judge_def Let_def split: if_splits)
    from settle_good [OF this _ refl base(2) _ base(1)] show ?thesis by (auto simp: Some list_all_iff)
  next
    case None
    with j have "settle_match s Path_only (scored ?segs (filter (same_third ?segs) (candidates ri s))) = Matched m" "3 \<le> length ?segs"
      by (auto simp: judge_def Let_def min_tail_def split: if_splits)
    from settle_good [OF this(1) _ refl base(2) _ base(1)] this(2) show ?thesis by (auto simp: None list_all_iff)
  qed
qed

section \<open>What the rules hold\<close>

text \<open>The matches that end up in a rule: claimed by one path only, without a row at the new path, and not
  withheld for lack of sizes.\<close>

definition kept :: "relink_inputs \<Rightarrow> (string \<times> judged) list \<Rightarrow> relink_match \<Rightarrow> bool" where
  "kept ri js m \<longleftrightarrow> \<not> contested (matches_of js) m \<and> \<not> collided ri m
     \<and> (mt_how m = Size \<or> rr_withheld (group_rule ri js (rule_key m)) = 0)"

lemma mset_by_how:
  "mset (filter (\<lambda>m. mt_how m = Size) ms) + mset (filter (\<lambda>m. mt_how m = Path_only) ms) = mset ms"
proof (induction ms)
  case (Cons m ms)
  then show ?case by (cases "mt_how m") simp_all
qed simp

lemma group_included:
  "mset (included_pairs (group_rule ri js key)) = mset (filter (\<lambda>m. rule_key m = key) (filter (kept ri js) (matches_of js)))"
proof -
  define pairs where "pairs = filter (\<lambda>m. \<not> collided ri m) (filter (\<lambda>m. \<not> contested (matches_of js) m \<and> rule_key m = key) (matches_of js))"
  define hold where "hold = (filter (\<lambda>m. mt_how m = Path_only) pairs \<noteq> []
    \<and> (filter (\<lambda>m. mt_how m = Size) pairs = [] \<or> 0 < mismatch_count js key))"
  have parts: "rr_by_size (group_rule ri js key) = filter (\<lambda>m. mt_how m = Size) pairs"
    "rr_path_only (group_rule ri js key) = (if hold then [] else filter (\<lambda>m. mt_how m = Path_only) pairs)"
    by (simp_all only: group_rule_def Let_def relink_rule.select_convs flip: pairs_def hold_def)
  have inc: "mset (included_pairs (group_rule ri js key)) =
      mset (filter (\<lambda>m. mt_how m = Size) pairs) + (if hold then {#} else mset (filter (\<lambda>m. mt_how m = Path_only) pairs))"
    by (simp add: included_pairs_def parts)
  have wh: "rr_withheld (group_rule ri js key) = (if hold then length (filter (\<lambda>m. mt_how m = Path_only) pairs) else 0)"
    by (simp only: group_rule_def Let_def relink_rule.select_convs flip: pairs_def hold_def)
  then have wh0: "rr_withheld (group_rule ri js key) = 0 \<longleftrightarrow> \<not> hold" by (cases hold) (simp_all add: hold_def)
  have "filter (\<lambda>m. rule_key m = key) (filter (kept ri js) (matches_of js))
      = filter (\<lambda>m. mt_how m = Size \<or> rr_withheld (group_rule ri js key) = 0) pairs"
    by (auto simp: pairs_def kept_def intro!: filter_cong)
  then show ?thesis
    unfolding inc wh0 using mset_by_how [of pairs] by (cases hold) simp_all
qed

lemma concat_by_key:
  "distinct ks \<Longrightarrow> mset (concat (map (\<lambda>k. filter (\<lambda>m. f m = k) xs) ks)) = mset (filter (\<lambda>m. f m \<in> set ks) xs)"
proof (induction ks)
  case (Cons k ks)
  have "mset (filter (\<lambda>m. f m \<in> set (k # ks)) xs) = mset (filter (\<lambda>m. f m = k) xs) + mset (filter (\<lambda>m. f m \<in> set ks) xs)"
    using Cons.prems by (induction xs) auto
  with Cons show ?case by simp
qed simp

lemma mset_concat_perm: "mset xs = mset ys \<Longrightarrow> mset (concat (map f xs)) = mset (concat (map f ys))"
proof -
  have sum: "mset (concat (map f zs)) = (\<Sum>z\<in>#mset zs. mset (f z))" for zs by (induction zs) simp_all
  assume "mset xs = mset ys"
  then show ?thesis by (simp only: sum)
qed

lemma rules_hold:
  fixes ri :: relink_inputs and stale :: "string list"
  defines "js \<equiv> judgements ri stale"
  shows "mset (concat (map included_pairs (build_rules ri stale)))
    = mset (filter (\<lambda>m. kept ri js m \<and> is_offered (group_rule ri js (rule_key m))) (matches_of js))"
proof -
  define keys where "keys = filter (\<lambda>k. is_offered (group_rule ri js k))
      (remdups (map rule_key (filter (\<lambda>m. \<not> contested (matches_of js) m) (matches_of js))))"
  have "mset (build_rules ri stale) = mset (map (group_rule ri js) keys)"
    by (simp add: build_rules_def analyse_def Let_def all_groups_def js_def [symmetric] keys_def filter_map o_def)
  then have "mset (concat (map included_pairs (build_rules ri stale))) = mset (concat (map (\<lambda>k. included_pairs (group_rule ri js k)) keys))"
    using mset_concat_perm [of "build_rules ri stale" "map (group_rule ri js) keys" included_pairs] by (simp add: o_def)
  also have "\<dots> = mset (concat (map (\<lambda>k. filter (\<lambda>m. rule_key m = k) (filter (kept ri js) (matches_of js))) keys))"
    by (simp add: mset_concat comp_def group_included)
  also have "\<dots> = mset (filter (\<lambda>m. rule_key m \<in> set keys) (filter (kept ri js) (matches_of js)))"
    by (rule concat_by_key) (simp add: keys_def)
  also have "filter (\<lambda>m. rule_key m \<in> set keys) (filter (kept ri js) (matches_of js))
      = filter (\<lambda>m. kept ri js m \<and> is_offered (group_rule ri js (rule_key m))) (matches_of js)"
    by (auto simp: keys_def kept_def intro!: filter_cong)
  finally show ?thesis .
qed

lemma matches_old: "map mt_old (matches_of (judgements ri stale))
    = filter (\<lambda>s. case judge ri s of Matched _ \<Rightarrow> True | Dropped _ _ \<Rightarrow> False) (sort (remdups stale))"
proof -
  have "map mt_old (matches_of (map (\<lambda>s. (s, judge ri s)) ss))
      = filter (\<lambda>s. case judge ri s of Matched _ \<Rightarrow> True | Dropped _ _ \<Rightarrow> False) ss" for ss
    by (induction ss) (auto simp: matches_of_def List.map_filter_simps dest: judge_good split: judged.split)
  then show ?thesis by (simp add: judgements_def)
qed

lemma matches_in: "m \<in> set (matches_of (judgements ri stale)) \<Longrightarrow> good_match ri m \<and> mt_old m \<in> set stale"
proof -
  assume m: "m \<in> set (matches_of (judgements ri stale))"
  then have "mt_old m \<in> set (map mt_old (matches_of (judgements ri stale)))" by simp
  then have "mt_old m \<in> set stale" unfolding matches_old by simp
  moreover have "good_match ri m" if "m \<in> set (matches_of (map (\<lambda>s. (s, judge ri s)) ss))" for ss
    using that by (induction ss) (auto simp: matches_of_def List.map_filter_simps dest: judge_good split: judged.splits)
  ultimately show ?thesis using m by (simp add: judgements_def)
qed

lemma uncontested_distinct: "distinct (map mt_new (filter (\<lambda>m. \<not> contested ms m) ms))"
proof -
  have "distinct (map f (filter (\<lambda>m. \<not> 1 < length (filter (\<lambda>k. f k = f m) (as @ bs))) bs))" for f :: "'a \<Rightarrow> 'b" and as bs
  proof (induction bs arbitrary: as)
    case (Cons b bs)
    have "f b \<notin> f ` set (filter (\<lambda>m. \<not> 1 < length (filter (\<lambda>k. f k = f m) (as @ b # bs))) bs)"
      by (auto simp: filter_empty_conv)
    with Cons.IH [of "as @ [b]"] show ?case by simp
  qed simp
  from this [of mt_new "[]" ms] show ?thesis by (simp add: contested_def)
qed

lemma distinct_map_mset: "mset xs = mset ys \<Longrightarrow> distinct (map f xs) = distinct (map f ys)"
  by (metis mset_map mset_eq_imp_distinct_iff)

text \<open>C37. Every rule offered is trustworthy: it rests on at least three verified rows, and each of its pairs
  maps a stale path to a listed file of a readable library by replacing the head and keeping the last
  segments, two of them when the recorded size agrees and three when no size is known, and never onto
  a path that has a row of its own. Over all rules no stale path and no current file occurs twice.\<close>

theorem relink_rules_sound:
  "list_all (\<lambda>r. 3 \<le> length (filter (\<lambda>m. mt_old m \<in> set (ri_verified ri)) (included_pairs r))
      \<and> list_all (\<lambda>m. good_match ri m \<and> \<not> collided ri m \<and> mt_old m \<in> set stale
           \<and> rule_key m = (rr_old_head r, rr_new_head r)) (included_pairs r)) (build_rules ri stale)
    \<and> distinct (map mt_old (concat (map included_pairs (build_rules ri stale))))
    \<and> distinct (map mt_new (concat (map included_pairs (build_rules ri stale))))"
proof (intro conjI)
  define js where "js = judgements ri stale"
  let ?P = "\<lambda>m. kept ri js m \<and> is_offered (group_rule ri js (rule_key m))"
  note hold = rules_hold [of ri stale, folded js_def]
  show "list_all (\<lambda>r. 3 \<le> length (filter (\<lambda>m. mt_old m \<in> set (ri_verified ri)) (included_pairs r))
      \<and> list_all (\<lambda>m. good_match ri m \<and> \<not> collided ri m \<and> mt_old m \<in> set stale
           \<and> rule_key m = (rr_old_head r, rr_new_head r)) (included_pairs r)) (build_rules ri stale)"
    unfolding list_all_iff
  proof (intro ballI conjI)
    fix r assume r: "r \<in> set (build_rules ri stale)"
    then obtain key where k: "r = group_rule ri js key" "is_offered r"
      by (auto simp: build_rules_def analyse_def Let_def all_groups_def js_def)
    have "mset (filter (\<lambda>m. mt_old m \<in> set (ri_verified ri)) (included_pairs r))
        = mset (filter (\<lambda>m. mt_old m \<in> set (ri_verified ri)) (rr_by_size r @ rr_path_only r))"
      by (simp add: included_pairs_def)
    then have "length (filter (\<lambda>m. mt_old m \<in> set (ri_verified ri)) (included_pairs r)) = rr_verified r"
      unfolding k(1) by (metis (no_types, lifting) group_rule_def relink_rule.select_convs(3,4,8) size_mset)
    with k(2) show "3 \<le> length (filter (\<lambda>m. mt_old m \<in> set (ri_verified ri)) (included_pairs r))"
      by (simp add: is_offered_def rule_min_verified_def)
    fix m assume "m \<in> set (included_pairs r)"
    then have m: "rule_key m = key" "kept ri js m" "m \<in> set (matches_of js)"
      unfolding k(1) using mset_eq_setD [OF group_included] by auto
    from matches_in m(3) show "good_match ri m" "mt_old m \<in> set stale" by (auto simp: js_def)
    from m show "\<not> collided ri m" "rule_key m = (rr_old_head r, rr_new_head r)"
      by (simp_all add: kept_def k(1) group_rule_def Let_def)
  qed
  have "distinct (map mt_old (matches_of js))" by (simp add: js_def matches_old)
  then show "distinct (map mt_old (concat (map included_pairs (build_rules ri stale))))"
    unfolding distinct_map_mset [OF hold] by (rule distinct_map_filter)
  have "filter ?P (matches_of js) = filter ?P (filter (\<lambda>m. \<not> contested (matches_of js) m) (matches_of js))"
    by (auto simp: kept_def intro!: filter_cong)
  then show "distinct (map mt_new (concat (map included_pairs (build_rules ri stale))))"
    unfolding distinct_map_mset [OF hold] using distinct_map_filter [OF uncontested_distinct [of "matches_of js"], of ?P] by simp
qed

lemma offered_iff:
  "path_reason ri js j = Offered \<longleftrightarrow>
     (case j of Dropped why _ \<Rightarrow> why = Offered | Matched m \<Rightarrow> kept ri js m \<and> is_offered (group_rule ri js (rule_key m)))"
proof (cases j)
  case (Matched m)
  then show ?thesis by (cases "mt_how m") (auto simp: path_reason_def kept_def Let_def)
qed (simp add: path_reason_def)

lemma judge_not_offered: "judge ri s = Dropped why k \<Longrightarrow> why \<noteq> Offered"
  by (auto simp: judge_def settle_match_def Let_def split: if_splits option.splits)

lemma sum_reasons: "(\<Sum>r\<leftarrow>all_reasons. length (filter (\<lambda>(_, r'). r' = r) xs)) = length xs"
proof (induction xs)
  case (Cons x xs)
  then show ?case by (cases x; cases "snd x") (simp_all add: all_reasons_def)
qed (simp add: all_reasons_def)

text \<open>Every stale path is accounted for exactly once: the counts of the reasons add up to the number of
  distinct stale paths, and the paths counted as offered are exactly those in the pairs of the rules.\<close>

theorem relink_accounts_for_all:
  "(\<Sum>(r, n)\<leftarrow>ra_reasons (analyse ri stale). n) = card (set stale)
   \<and> map_of (ra_reasons (analyse ri stale)) Offered = Some (length (concat (map included_pairs (ra_rules (analyse ri stale)))))"
proof -
  define js where "js = judgements ri stale"
  define because where "because = map (\<lambda>(s, j). (s, path_reason ri js j)) js"
  have reasons: "ra_reasons (analyse ri stale) = map (\<lambda>r. (r, length (filter (\<lambda>(_, r'). r' = r) because))) all_reasons"
    by (simp add: analyse_def Let_def because_def js_def)
  have "length because = card (set stale)"
    by (simp add: because_def js_def judgements_def length_remdups_card_conv)
  then have "(\<Sum>(r, n)\<leftarrow>ra_reasons (analyse ri stale). n) = card (set stale)"
    using sum_reasons [of because] by (simp add: reasons o_def)
  moreover have "map_of (ra_reasons (analyse ri stale)) Offered = Some (length (filter (\<lambda>(_, r'). r' = Offered) because))"
    by (simp add: reasons all_reasons_def)
  moreover have "length (filter (\<lambda>(_, r'). r' = Offered) because)
      = length (filter (\<lambda>m. kept ri js m \<and> is_offered (group_rule ri js (rule_key m))) (matches_of js))"
  proof -
    have "length (filter (\<lambda>(_, r'). r' = Offered) (map (\<lambda>(s, j). (s, path_reason ri js j)) (map (\<lambda>s. (s, judge ri s)) ss)))
        = length (filter (\<lambda>m. kept ri js m \<and> is_offered (group_rule ri js (rule_key m))) (matches_of (map (\<lambda>s. (s, judge ri s)) ss)))" for ss
      by (induction ss) (auto simp: matches_of_def List.map_filter_simps offered_iff judge_not_offered split: judged.split)
    then show ?thesis by (simp add: because_def js_def judgements_def)
  qed
  moreover have "\<dots> = length (concat (map included_pairs (ra_rules (analyse ri stale))))"
    using rules_hold [of ri stale] by (metis build_rules_def js_def size_mset)
  ultimately show ?thesis by simp
qed

section \<open>The inventory and its memory\<close>

text \<open>A walk of one library root: whether the root can be read, whether the walk reported an error, and the
  files it listed with their sizes; \<open>None\<close> is a failing \<open>stat\<close>.\<close>

record library_walk =
  iw_slug :: string
  iw_readable :: bool
  iw_errors :: bool
  iw_files :: "(string list \<times> int option) list"

record inventory =
  iv_files :: "(string \<times> int) list"
  iv_failed :: "string list"
  iv_walked_at :: pyfloat

definition walk_failed :: "library_walk \<Rightarrow> bool" where
  "walk_failed w \<longleftrightarrow> \<not> iw_readable w \<or> iw_errors w"

definition found_file :: "(string list \<Rightarrow> string list) \<Rightarrow> library list \<Rightarrow> string list \<times> int option \<Rightarrow> (string \<times> int) option" where
  "found_file resolve libs f =
     (case f of (path, sz) \<Rightarrow>
        if path = [] \<or> \<not> is_video_name (last path) then None
        else (case (sz, fs_to_canonical resolve libs path) of (Some n, Inr c) \<Rightarrow> Some (c, n) | _ \<Rightarrow> None))"

definition walk_inventory :: "(string list \<Rightarrow> string list) \<Rightarrow> library list \<Rightarrow> pyfloat \<Rightarrow> library_walk list \<Rightarrow> inventory" where
  "walk_inventory resolve libs now walks =
     \<lparr>iv_files = fold (\<lambda>(c, n). AList.update c n)
        (concat (map (\<lambda>w. List.map_filter (found_file resolve libs) (iw_files w)) (filter (\<lambda>w. \<not> walk_failed w) walks))) [],
      iv_failed = map iw_slug (filter walk_failed walks), iv_walked_at = now\<rparr>"

definition inventory_ttl_s :: pyfloat where "inventory_ttl_s = 300"
definition no_rules_ttl_s :: pyfloat where "no_rules_ttl_s = 6 * 3600"

text \<open>The clock readings at the end of a walk and right after it are one value. \<open>'k\<close> is the key made of the library slugs and roots, the fingerprint is a digest of the other inputs.\<close>

record 'k relink_memory =
  im_cache :: "('k \<times> pyfloat \<times> inventory) option"
  im_no_rules :: "('k \<times> string \<times> pyfloat \<times> inventory \<times> relink_analysis option) option"

definition get_inventory ::
    "pyfloat \<Rightarrow> 'k \<Rightarrow> pyfloat \<Rightarrow> inventory \<Rightarrow> 'k relink_memory \<Rightarrow> inventory \<times> 'k relink_memory" where
  "get_inventory now key max_age fresh m =
     (case im_cache m of
        Some (k, since, iv) \<Rightarrow>
          if k = key \<and> now - since < max_age then (iv, m) else (fresh, m\<lparr>im_cache := Some (key, iv_walked_at fresh, fresh)\<rparr>)
      | None \<Rightarrow> (fresh, m\<lparr>im_cache := Some (key, iv_walked_at fresh, fresh)\<rparr>))"

definition no_rules_hit :: "pyfloat \<Rightarrow> 'k \<Rightarrow> string \<Rightarrow> pyfloat \<Rightarrow> 'k relink_memory \<Rightarrow> (inventory \<times> relink_analysis option) option" where
  "no_rules_hit now key fingerprint max_age m =
     (case im_no_rules m of
        Some (k, f, since, iv, a) \<Rightarrow> if k = key \<and> f = fingerprint \<and> now - since < max_age then Some (iv, a) else None
      | None \<Rightarrow> None)"

definition peek_inventory :: "pyfloat \<Rightarrow> 'k \<Rightarrow> 'k relink_memory \<Rightarrow> inventory option" where
  "peek_inventory now key m =
     (case (case im_cache m of Some (k, since, iv) \<Rightarrow> if k = key \<and> now - since < inventory_ttl_s then [iv] else [] | None \<Rightarrow> [])
         @ (case im_no_rules m of Some (k, _, since, iv, _) \<Rightarrow> if k = key \<and> now - since < no_rules_ttl_s then [iv] else [] | None \<Rightarrow> []) of
        [] \<Rightarrow> None
      | [iv] \<Rightarrow> Some iv
      | a # b # _ \<Rightarrow> Some (if iv_walked_at a < iv_walked_at b then b else a))"

definition remember_no_rules :: "'k \<Rightarrow> string \<Rightarrow> inventory \<Rightarrow> relink_analysis option \<Rightarrow> 'k relink_memory \<Rightarrow> 'k relink_memory" where
  "remember_no_rules key fingerprint iv a m =
     (if iv_failed iv \<noteq> [] then m else m\<lparr>im_no_rules := Some (key, fingerprint, iv_walked_at iv, iv, a)\<rparr>)"

definition invalidate_inventory :: "'k relink_memory \<Rightarrow> 'k relink_memory" where
  "invalidate_inventory m = m\<lparr>im_cache := None, im_no_rules := None\<rparr>"

text \<open>A remembered answer comes from a complete walk that is young enough.\<close>

definition memory_ok :: "'k relink_memory \<Rightarrow> bool" where
  "memory_ok m \<longleftrightarrow>
     (case im_no_rules m of None \<Rightarrow> True | Some (k, f, since, iv, a) \<Rightarrow> iv_failed iv = [] \<and> since = iv_walked_at iv)
     \<and> (case im_cache m of None \<Rightarrow> True | Some (k, since, iv) \<Rightarrow> since = iv_walked_at iv)"

lemma memory_ok_steps:
  "memory_ok (invalidate_inventory m)"
  "memory_ok m \<Longrightarrow> memory_ok (remember_no_rules key f iv a m)"
  "memory_ok m \<Longrightarrow> memory_ok (snd (get_inventory now key age fresh m))"
  by (auto simp: memory_ok_def invalidate_inventory_def remember_no_rules_def get_inventory_def split: option.splits)

lemma peek_is_young:
  "memory_ok m \<Longrightarrow> peek_inventory now key m = Some iv \<Longrightarrow> now - iv_walked_at iv < no_rules_ttl_s"
  by (auto simp: memory_ok_def peek_inventory_def inventory_ttl_s_def no_rules_ttl_s_def split: option.splits if_splits)

lemma remembered_walk_complete:
  "memory_ok m \<Longrightarrow> no_rules_hit now key f age m = Some (iv, a) \<Longrightarrow> iv_failed iv = [] \<and> now - iv_walked_at iv < age"
  by (auto simp: memory_ok_def no_rules_hit_def split: option.splits if_splits)

end
