(* ===== verification/Schedules.thy ===== *)
theory Schedules
  imports AutoQueue Decimal Srt
begin

text \<open>
  Schedules (\<open>src/src/subarr/schedule_store.py\<close>, \<open>_due\<close> and \<open>_next_run_for\<close> of
  \<open>src/src/subarr/scheduler.py\<close>): the table of schedules and its updates, when a schedule is due and when
  it runs next. A naive local \<open>datetime\<close> is the number of seconds since 1970-01-01 00:00 of the local
  calendar; \<open>fromtimestamp\<close> and \<open>timestamp\<close>, which know the time zone, are arguments.
\<close>

section \<open>Local date and time\<close>

definition day_s :: int where "day_s = 86400"

definition day_of :: "pyfloat \<Rightarrow> int" where
  "day_of t = \<lfloor>t\<rfloor> div day_s"

text \<open>\<open>weekday()\<close> counts from Monday; 1970-01-01 was a Thursday. Two dates have the same ISO year and
  week exactly when the same number of Mondays has passed.\<close>

definition weekday :: "pyfloat \<Rightarrow> int" where
  "weekday t = (day_of t + 3) mod 7"

definition iso_week :: "pyfloat \<Rightarrow> int" where
  "iso_week t = (day_of t + 3) div 7"

text \<open>\<open>t.replace(hour=h, minute=m, second=0, microsecond=0)\<close>, \<open>None\<close> when it raises.\<close>

definition replace_time :: "pyfloat \<Rightarrow> int \<Rightarrow> int \<Rightarrow> pyfloat option" where
  "replace_time t h m =
     (if 0 \<le> h \<and> h < 24 \<and> 0 \<le> m \<and> m < 60 then Some (of_int (day_of t * day_s + h * 3600 + m * 60)) else None)"

text \<open>\<open>int(s)\<close> of a string: blanks around it, a sign and single underscores between digits are allowed.\<close>

definition int_literal :: "string \<Rightarrow> int option" where
  "int_literal s =
     (let t = strip s;
          (neg, u) = (case t of [] \<Rightarrow> (False, []) | c # r \<Rightarrow> if c = CHR ''-'' then (True, r) else if c = CHR ''+'' then (False, r) else (False, t));
          parts = split_on (CHR ''_'') u
      in if list_all (\<lambda>p. p \<noteq> [] \<and> list_all ascii_digit p) parts
         then Some (if neg then - int (undec (concat parts)) else int (undec (concat parts))) else None)"

definition parse_hhmm :: "string \<Rightarrow> (int \<times> int) option" where
  "parse_hhmm s =
     (case split_on (CHR '':'') s of
        [hh, mm] \<Rightarrow> (case (int_literal hh, int_literal mm) of (Some h, Some m) \<Rightarrow> Some (h, m) | _ \<Rightarrow> None)
      | _ \<Rightarrow> None)"

section \<open>Schedules\<close>

record schedule_config =
  sd_name :: string
  sd_enabled :: bool
  sd_kind :: string
  sd_interval :: int
  sd_hhmm :: string
  sd_dow :: int
  sd_last_run :: "pyfloat option"
  sd_next_run :: "pyfloat option"
  sd_last_result :: "string option"
  sd_probe_roots :: string

definition kind_interval :: string where "kind_interval = ''interval''"
definition kind_daily :: string where "kind_daily = ''daily''"
definition kind_weekly :: string where "kind_weekly = ''weekly''"

text \<open>\<open>[p.strip() for p in roots.split(",") if p.strip()]\<close>.\<close>

definition probe_roots_of :: "schedule_config \<Rightarrow> string list" where
  "probe_roots_of s = filter (\<lambda>p. p \<noteq> []) (map strip (split_on (CHR '','') (sd_probe_roots s)))"

text \<open>The clock reads \<open>clock\<close>, the local time is \<open>now\<close>; \<open>None\<close> is the \<open>ValueError\<close> of an hour or minute
  that does not exist.\<close>

definition due :: "(pyfloat \<Rightarrow> pyfloat) \<Rightarrow> schedule_config \<Rightarrow> pyfloat \<Rightarrow> pyfloat \<Rightarrow> pyfloat option \<Rightarrow> bool option" where
  "due local s now clock last_run =
     (if \<not> sd_enabled s then Some False
      else if sd_kind s = kind_interval then
        Some (case last_run of None \<Rightarrow> True | Some l \<Rightarrow> of_int (sd_interval s * 60) \<le> clock - l)
      else if sd_kind s \<in> {kind_daily, kind_weekly} then
        (case parse_hhmm (sd_hhmm s) of
           None \<Rightarrow> Some False
         | Some (h, m) \<Rightarrow>
             (case replace_time now h m of
                None \<Rightarrow> None
              | Some target \<Rightarrow>
                  Some (\<not> (case last_run of
                            None \<Rightarrow> False
                          | Some l \<Rightarrow> target \<le> local l \<and> (sd_kind s = kind_daily \<or> iso_week (local l) = iso_week now))
                        \<and> \<not> (sd_kind s = kind_weekly \<and> weekday now \<noteq> sd_dow s)
                        \<and> target \<le> now)))
      else Some False)"

definition next_local :: "schedule_config \<Rightarrow> pyfloat \<Rightarrow> pyfloat \<Rightarrow> pyfloat" where
  "next_local s now target =
     (let candidate = (if target \<le> now then target + of_int day_s else target) in
      if sd_kind s = kind_weekly then candidate + of_int ((sd_dow s - weekday candidate) mod 7 * day_s) else candidate)"

definition next_run_for :: "(pyfloat \<Rightarrow> pyfloat) \<Rightarrow> schedule_config \<Rightarrow> pyfloat \<Rightarrow> pyfloat \<Rightarrow> pyfloat option option" where
  "next_run_for stamp s now clock =
     (if \<not> sd_enabled s then Some None
      else if sd_kind s = kind_interval then Some (Some (clock + of_int (sd_interval s * 60)))
      else (case parse_hhmm (sd_hhmm s) of
          None \<Rightarrow> Some None
        | Some (h, m) \<Rightarrow>
            (case replace_time now h m of None \<Rightarrow> None | Some target \<Rightarrow> Some (Some (stamp (next_local s now target))))))"

section \<open>The store\<close>

record schedule_store =
  st_schedules :: "schedule_config list"
  st_rules :: "auto_queue_rules option"

definition get_schedule :: "string \<Rightarrow> schedule_store \<Rightarrow> schedule_config option" where
  "get_schedule name st = List.find (\<lambda>s. sd_name s = name) (st_schedules st)"

definition list_schedules :: "schedule_store \<Rightarrow> schedule_config list" where
  "list_schedules st = sort_key sd_name (st_schedules st)"

record schedule_update =
  su_enabled :: "bool option"
  su_kind :: "string option"
  su_interval :: "int option"
  su_hhmm :: "string option"
  su_dow :: "int option"
  su_probe_roots :: "string option"

definition given :: "'a option \<Rightarrow> 'a \<Rightarrow> 'a" where
  "given v old = (case v of None \<Rightarrow> old | Some x \<Rightarrow> x)"

definition apply_update :: "schedule_update \<Rightarrow> schedule_config \<Rightarrow> schedule_config" where
  "apply_update u s = s\<lparr>sd_enabled := given (su_enabled u) (sd_enabled s),
     sd_kind := (if truthy_str (su_kind u) then or_empty (su_kind u) else sd_kind s),
     sd_interval := given (su_interval u) (sd_interval s),
     sd_hhmm := (if truthy_str (su_hhmm u) then or_empty (su_hhmm u) else sd_hhmm s),
     sd_dow := given (su_dow u) (sd_dow s), sd_probe_roots := given (su_probe_roots u) (sd_probe_roots s)\<rparr>"

definition on_schedule :: "string \<Rightarrow> (schedule_config \<Rightarrow> schedule_config) \<Rightarrow> schedule_store \<Rightarrow> schedule_store" where
  "on_schedule name f st = st\<lparr>st_schedules := map (\<lambda>s. if sd_name s = name then f s else s) (st_schedules st)\<rparr>"

text \<open>\<open>Inl\<close> is the \<open>KeyError\<close> of an unknown schedule.\<close>

definition update_schedule :: "string \<Rightarrow> schedule_update \<Rightarrow> schedule_store \<Rightarrow> string + schedule_store" where
  "update_schedule name u st =
     (case get_schedule name st of None \<Rightarrow> Inl name | Some _ \<Rightarrow> Inr (on_schedule name (apply_update u) st))"

definition record_run :: "string \<Rightarrow> pyfloat \<Rightarrow> pyfloat option \<Rightarrow> string \<Rightarrow> schedule_store \<Rightarrow> schedule_store" where
  "record_run name ran_at next result =
     on_schedule name (\<lambda>s. s\<lparr>sd_last_run := Some ran_at, sd_next_run := next, sd_last_result := Some result\<rparr>)"

definition get_rules :: "schedule_store \<Rightarrow> auto_queue_rules" where
  "get_rules st = given (st_rules st) default_rules"

definition set_rules :: "auto_queue_rules \<Rightarrow> schedule_store \<Rightarrow> schedule_store" where
  "set_rules r st = st\<lparr>st_rules := Some r\<rparr>"

lemma on_schedule_names: "map sd_name (st_schedules (on_schedule name f st)) = map sd_name (st_schedules st)"
  if "\<And>s. sd_name (f s) = sd_name s"
  by (simp add: on_schedule_def that)

lemma update_schedule_keeps_names:
  "update_schedule name u st = Inr st' \<Longrightarrow> map sd_name (st_schedules st') = map sd_name (st_schedules st)"
  by (auto simp: update_schedule_def on_schedule_names apply_update_def split: option.splits)

section \<open>When a schedule fires\<close>

lemma day_of_iff: "day_of t = e \<longleftrightarrow> of_int (e * day_s) \<le> t \<and> t < of_int ((e + 1) * day_s)"
proof -
  have parts: "q = e \<longleftrightarrow> e * 86400 \<le> f \<and> f < (e + 1) * 86400"
    if "f = 86400 * q + r" "0 \<le> r" "r < 86400" for f q r :: int
  proof (cases q e rule: linorder_cases)
    case less
    then have "86400 * (q + 1) \<le> 86400 * e" by simp
    then have "f < e * 86400" using that by (simp only: distrib_left distrib_right mult.commute)
    with less show ?thesis by simp
  next
    case equal
    with that show ?thesis by (simp add: algebra_simps)
  next
    case greater
    then have "86400 * (e + 1) \<le> 86400 * q" by simp
    then have "(e + 1) * 86400 \<le> f" using that by (simp only: mult.commute)
    with greater show ?thesis by simp
  qed
  have "day_of t = e \<longleftrightarrow> e * 86400 \<le> \<lfloor>t\<rfloor> \<and> \<lfloor>t\<rfloor> < (e + 1) * 86400"
    unfolding day_of_def day_s_def
    by (rule parts [where r = "\<lfloor>t\<rfloor> mod 86400"]) (simp_all only: mult_div_mod_eq pos_mod_sign pos_mod_bound zero_less_numeral)
  also have "\<dots> \<longleftrightarrow> of_int (e * 86400) \<le> t \<and> t < of_int ((e + 1) * 86400)"
    by (simp only: le_floor_iff floor_less_iff)
  finally show ?thesis by (simp only: day_s_def)
qed

lemma day_of_mono: "s \<le> t \<Longrightarrow> day_of s \<le> day_of t"
  unfolding day_of_def by (intro zdiv_mono1 floor_mono) (simp_all add: day_s_def)

definition clock_offset :: "int \<Rightarrow> int \<Rightarrow> int" where
  "clock_offset h m = h * 3600 + m * 60"

definition real_clock :: "int \<Rightarrow> int \<Rightarrow> bool" where
  "real_clock h m \<longleftrightarrow> 0 \<le> h \<and> h < 24 \<and> 0 \<le> m \<and> m < 60"

lemma clock_offset_bounds: "real_clock h m \<Longrightarrow> 0 \<le> clock_offset h m \<and> clock_offset h m < day_s"
  by (auto simp: real_clock_def clock_offset_def day_s_def)

definition slot_at :: "int \<Rightarrow> int \<Rightarrow> pyfloat" where
  "slot_at off d = of_int (d * day_s + off)"

lemma slot_less [simp]: "slot_at off d < slot_at off e \<longleftrightarrow> d < e" "slot_at off d \<le> slot_at off e \<longleftrightarrow> d \<le> e"
  by (simp_all add: slot_at_def day_s_def)

lemma slot_eq [simp]: "slot_at off d = slot_at off e \<longleftrightarrow> d = e"
  by (simp add: slot_at_def day_s_def)

lemma replace_time_slot: "real_clock h m \<Longrightarrow> replace_time t h m = Some (slot_at (clock_offset h m) (day_of t))"
  by (simp add: replace_time_def real_clock_def slot_at_def clock_offset_def add.assoc)

lemma day_of_slot: "0 \<le> off \<Longrightarrow> off < day_s \<Longrightarrow> day_of (slot_at off d) = d"
  unfolding day_of_iff slot_at_def of_int_le_iff of_int_less_iff by (simp add: day_s_def)

text \<open>The first slot after \<open>now\<close>.\<close>

definition next_day :: "int \<Rightarrow> pyfloat \<Rightarrow> int" where
  "next_day off now = (if slot_at off (day_of now) \<le> now then day_of now + 1 else day_of now)"

lemma next_day_least:
  assumes "0 \<le> off" "off < day_s"
  shows "now < slot_at off d \<longleftrightarrow> next_day off now \<le> d"
proof (cases "day_of now" d rule: linorder_cases)
  case less
  then have "of_int ((day_of now + 1) * day_s) \<le> slot_at off d"
    unfolding slot_at_def of_int_le_iff using assms by (simp add: day_s_def)
  moreover have "now < of_int ((day_of now + 1) * day_s)" using day_of_iff [of now "day_of now"] by simp
  ultimately show ?thesis using less by (auto simp: next_day_def)
next
  case equal
  then show ?thesis by (auto simp: next_day_def)
next
  case greater
  then have "slot_at off d \<le> of_int (day_of now * day_s)"
    unfolding slot_at_def of_int_le_iff using assms by (simp add: day_s_def)
  moreover have "of_int (day_of now * day_s) \<le> now" using day_of_iff [of now "day_of now"] by simp
  ultimately show ?thesis using greater by (auto simp: next_day_def)
qed

lemma next_local_slot:
  assumes "0 \<le> off" "off < day_s"
  shows "next_local s now (slot_at off (day_of now)) =
    slot_at off (if sd_kind s = kind_weekly then next_day off now + (sd_dow s - (next_day off now + 3)) mod 7 else next_day off now)"
proof -
  have cand: "(if slot_at off (day_of now) \<le> now then slot_at off (day_of now) + of_int day_s else slot_at off (day_of now))
      = slot_at off (next_day off now)"
    by (simp add: next_day_def slot_at_def day_s_def)
  have "weekday (slot_at off (next_day off now)) = (next_day off now + 3) mod 7"
    by (simp add: weekday_def day_of_slot assms)
  then show ?thesis
    unfolding next_local_def cand Let_def by (simp add: slot_at_def mod_diff_right_eq algebra_simps day_s_def)
qed

text \<open>A slot that fired is the schedule's own: a calendar of a daily or weekly schedule.\<close>

definition calendar_ok :: "schedule_config \<Rightarrow> int \<Rightarrow> int \<Rightarrow> bool" where
  "calendar_ok s h m \<longleftrightarrow> sd_enabled s \<and> sd_kind s \<in> {kind_daily, kind_weekly} \<and> 0 \<le> sd_dow s \<and> sd_dow s < 7
     \<and> parse_hhmm (sd_hhmm s) = Some (h, m) \<and> real_clock h m"

lemma due_slot:
  assumes "calendar_ok s h m"
  shows "due local s t clock (Some l) = Some (slot_at (clock_offset h m) (day_of t) \<le> t
    \<and> \<not> (slot_at (clock_offset h m) (day_of t) \<le> local l \<and> (sd_kind s = kind_daily \<or> iso_week (local l) = iso_week t))
    \<and> (sd_kind s = kind_weekly \<longrightarrow> weekday t = sd_dow s))"
  using assms by (auto simp: due_def calendar_ok_def replace_time_slot kind_interval_def kind_daily_def kind_weekly_def)

lemma next_run_slot:
  assumes "calendar_ok s h m"
  shows "next_run_for stamp s now clock = Some (Some (stamp (next_local s now (slot_at (clock_offset h m) (day_of now)))))"
  using assms by (auto simp: next_run_for_def calendar_ok_def replace_time_slot kind_interval_def kind_daily_def kind_weekly_def)

lemma week_gap:
  fixes a b dow :: int
  assumes "a \<le> b" "b < a + (dow - (a + 3)) mod 7" "0 \<le> dow" "dow < 7"
  shows "(b + 3) mod 7 \<noteq> dow"
proof
  assume "(b + 3) mod 7 = dow"
  then have "(dow - (a + 3)) mod 7 = ((b + 3) - (a + 3)) mod 7" by (metis mod_diff_left_eq)
  also have "\<dots> = (b - a) mod 7" by simp
  also have "\<dots> = b - a"
    using assms(1,2) pos_mod_bound [of 7 "dow - (a + 3)"] by (intro mod_pos_pos_trivial) linarith+
  finally show False using assms(2) by simp
qed

lemma week_hit:
  fixes a dow :: int
  assumes "0 \<le> dow" "dow < 7"
  shows "(a + (dow - (a + 3)) mod 7 + 3) mod 7 = dow"
proof -
  have "(a + (dow - (a + 3)) mod 7 + 3) mod 7 = ((a + 3) + (dow - (a + 3)) mod 7) mod 7" by (simp add: ac_simps)
  also have "\<dots> = ((a + 3) + (dow - (a + 3))) mod 7" by (rule mod_add_right_eq)
  also have "\<dots> = dow" using assms by (simp add: mod_pos_pos_trivial)
  finally show ?thesis .
qed

text \<open>Between a run and the next slot the schedule is not due; at the slot it is.\<close>

lemma due_until_next:
  assumes cal: "calendar_ok s h m" and last: "local l = now" and t: "now \<le> t"
  defines "nxt \<equiv> next_local s now (slot_at (clock_offset h m) (day_of now))"
  assumes upto: "t \<le> nxt"
  shows "due local s t clock (Some l) = Some (t = nxt)"
proof -
  define off where "off = clock_offset h m"
  have off: "0 \<le> off" "off < day_s" using cal clock_offset_bounds by (auto simp: off_def calendar_ok_def)
  define n where "n = (if sd_kind s = kind_weekly then next_day off now + (sd_dow s - (next_day off now + 3)) mod 7 else next_day off now)"
  have nxt: "nxt = slot_at off n" by (simp only: nxt_def n_def off_def [symmetric] next_local_slot [OF off])
  have n_ge: "next_day off now \<le> n" by (simp add: n_def)
  then have later: "now < nxt" using next_day_least [OF off] nxt by simp
  have kind: "sd_kind s = kind_daily \<or> sd_kind s = kind_weekly" "kind_daily \<noteq> kind_weekly" "0 \<le> sd_dow s" "sd_dow s < 7"
    using cal by (auto simp: calendar_ok_def kind_daily_def kind_weekly_def)
  show ?thesis
  proof (cases "t = nxt")
    case True
    have "day_of t = n" using True nxt day_of_slot [OF off] by simp
    moreover have "sd_kind s = kind_weekly \<longrightarrow> weekday t = sd_dow s"
      using \<open>day_of t = n\<close> kind(3,4) by (simp add: weekday_def n_def week_hit)
    ultimately show ?thesis
      using True later nxt last by (simp add: due_slot [OF cal] flip: off_def)
  next
    case False
    define e where "e = day_of t"
    have "\<not> (slot_at off e \<le> t \<and> \<not> (slot_at off e \<le> now \<and> (sd_kind s = kind_daily \<or> iso_week now = iso_week t))
        \<and> (sd_kind s = kind_weekly \<longrightarrow> weekday t = sd_dow s))"
    proof
      assume fires: "slot_at off e \<le> t \<and> \<not> (slot_at off e \<le> now \<and> (sd_kind s = kind_daily \<or> iso_week now = iso_week t))
        \<and> (sd_kind s = kind_weekly \<longrightarrow> weekday t = sd_dow s)"
      have "slot_at off e \<le> t" "t < slot_at off n" using fires False upto nxt by auto
      then have "slot_at off e < slot_at off n" by (rule order.strict_trans1)
      then have "e < n" by simp
      show False
      proof (cases "slot_at off e \<le> now")
        case True
        have "day_of (slot_at off e) \<le> day_of now" "day_of now \<le> e"
          using True t by (simp_all only: e_def day_of_mono)
        then have "day_of now = e" using day_of_slot [OF off, of e] by simp
        then show False using fires True kind by (auto simp: iso_week_def e_def)
      next
        case False
        then have "next_day off now \<le> e" using next_day_least [OF off, of now e] by simp
        with \<open>e < n\<close> have "sd_kind s = kind_weekly" "e < next_day off now + (sd_dow s - (next_day off now + 3)) mod 7"
          by (auto simp: n_def split: if_splits)
        with week_gap [OF \<open>next_day off now \<le> e\<close> this(2) kind(3,4)] fires show False by (simp add: weekday_def e_def)
      qed
    qed
    then show ?thesis using False last by (simp add: due_slot [OF cal] e_def flip: off_def)
  qed
qed


definition demo_schedule :: schedule_config where
  "demo_schedule = \<lparr>sd_name = ''coverage_walk'', sd_enabled = True, sd_kind = kind_weekly, sd_interval = 0, sd_hhmm = ''03:30'',
     sd_dow = 6, sd_last_run = None, sd_next_run = None, sd_last_result = None, sd_probe_roots = []\<rparr>"

lemma demo_schedule_ok: "calendar_ok demo_schedule 3 30"
  by code_simp


text \<open>A saved time such as \<open>25:00\<close> parses and then makes the check raise, which ends the whole tick.\<close>

lemma impossible_time_raises:
  "due (\<lambda>x. x) (demo_schedule\<lparr>sd_hhmm := ''25:00''\<rparr>) now 0 l = None"
proof -
  have "parse_hhmm ''25:00'' = Some (25, 0)" by code_simp
  then show ?thesis by (simp add: due_def demo_schedule_def kind_interval_def kind_weekly_def replace_time_def)
qed

end
