(* ===== verification/Scheduler.thy ===== *)
theory Scheduler
  imports Schedules PendingWalks PendingOrder Ledger CoverageBuild
begin

text \<open>
  The scheduler (\<open>src/src/subarr/scheduler.py\<close>): the tick that fires due schedules, the coverage walk
  that turns a report into queued jobs or a list for approval, the approval itself and the Bazarr
  poke; and the resolution of an episode id (\<open>arr_resolve.py\<close>). The services, the disk and the clock are
  arguments; the probe walks before a build act on the probe cache the build reads.
\<close>

section \<open>The services\<close>

text \<open>A pool of clients has an instance 0 and named instances (\<open>IntegrationBundle.client_for\<close>).\<close>

type_synonym 'c pool = "'c \<times> (string \<times> 'c) list"

definition client_for :: "'c pool \<Rightarrow> string \<Rightarrow> 'c" where
  "client_for pool iid = (if iid = [] then fst pool else case map_of (snd pool) iid of None \<Rightarrow> fst pool | Some c \<Rightarrow> c)"

text \<open>A Sonarr client: an episode is its series and its file id, a file its path; \<open>None\<close> is a request
  that raises.\<close>

record sonarr_client =
  sn_configured :: bool
  sn_episode :: "nat \<Rightarrow> (nat option \<times> nat option) option"
  sn_file :: "nat \<Rightarrow> string option option"

record bazarr_client =
  bz_key :: string
  bz_configured :: bool
  bz_tasks :: "(string option \<times> string option) list option"
  bz_accepts :: "string \<Rightarrow> bool"

record sched_env =
  ev_libs :: "library list"
  ev_resolve :: "string list \<Rightarrow> string list"
  ev_exists :: "string list \<Rightarrow> bool"
  ev_sonarr :: "sonarr_client pool"
  ev_bazarr :: "bazarr_client pool"
  ev_now :: pyfloat
  ev_local :: "pyfloat \<Rightarrow> pyfloat"
  ev_stamp :: "pyfloat \<Rightarrow> pyfloat"
  ev_ids :: "nat \<Rightarrow> string"

record scheduler =
  sw_schedules :: schedule_store
  sw_pending :: "pending_store option"
  sw_queue :: "queue_store option"
  sw_ledger :: ledger
  sw_scans :: "(string \<times> string) list"
  sw_pokes :: "(string \<times> pyfloat) list"
  sw_walking :: bool
  sw_next :: nat

section \<open>Episode ids\<close>

definition resolve_episode_target :: "sched_env \<Rightarrow> nat option \<Rightarrow> string option \<Rightarrow> string option \<times> nat option" where
  "resolve_episode_target env ep hint =
     (case ep of
        None \<Rightarrow> (None, None)
      | Some e \<Rightarrow>
          (case (if truthy_str hint then
                   (case library_for_canonical (ev_libs env) (or_empty hint) of
                      Inl _ \<Rightarrow> None | Inr lib \<Rightarrow> Some (client_for (ev_sonarr env) (lib_sonarr_id lib)))
                 else Some (client_for (ev_sonarr env) [])) of
             None \<Rightarrow> (None, None)
           | Some c \<Rightarrow>
               if \<not> sn_configured c then (None, None)
               else (case sn_episode c e of
                   None \<Rightarrow> (None, None)
                 | Some (series, file) \<Rightarrow>
                     if file = None \<or> file = Some 0 then (None, series)
                     else (case sn_file c (the file) of
                         None \<Rightarrow> (None, series)
                       | Some path \<Rightarrow> if truthy_str path then (strip_arr_prefix (ev_libs env) path None, series) else (None, series)))))"

section \<open>Enqueueing one row\<close>

datatype enqueue_error = No_canonical string | Escapes_root string | Missing_on_disk string string

definition checked_target :: "sched_env \<Rightarrow> string \<Rightarrow> string option \<Rightarrow> enqueue_error + string" where
  "checked_target env title canonical =
     (if \<not> truthy_str canonical then Inl (No_canonical title)
      else (case canonical_to_fs (ev_resolve env) (ev_libs env) (or_empty canonical) of
          Inl _ \<Rightarrow> Inl (Escapes_root title)
        | Inr target \<Rightarrow> if ev_exists env target then Inr (or_empty canonical) else Inl (Missing_on_disk title (or_empty canonical))))"

text \<open>Through the pending queue, or straight to a scan when none is wired.\<close>

definition source_subgenscan :: string where "source_subgenscan = ''subgenscan''"

definition submit_row ::
    "sched_env \<Rightarrow> string \<Rightarrow> string \<Rightarrow> nat option \<Rightarrow> nat option \<Rightarrow> nat option \<Rightarrow> scheduler \<Rightarrow> string \<times> scheduler" where
  "submit_row env source canonical series episode movie s =
     (let new_id = ev_ids env (sw_next s) in
      case sw_queue s of
        Some q \<Rightarrow>
          (case enqueue new_id (ev_now env) canonical source None None None (map_option int series) (map_option int episode)
                  False False (map_option int movie) q of
             (job, q') \<Rightarrow> (pj_id job, s\<lparr>sw_queue := Some q', sw_next := sw_next s + 1\<rparr>))
      | None \<Rightarrow>
          (new_id, s\<lparr>sw_scans := sw_scans s @ [(new_id, canonical)], sw_next := sw_next s + 1,
             sw_ledger := snd (record_job \<lparr>le_id = 0, le_path = canonical, le_series = map_option int series,
               le_episode = map_option int episode, le_movie = map_option int movie, le_scan = Some new_id,
               le_source = source_subgenscan, le_version = None, le_queued = ev_now env, le_completed = None,
               le_bazarr = None, le_outcome = None\<rparr> (sw_ledger s))\<rparr>))"

text \<open>The automatic path starts from the file of the row, the approval from the path stored with the
  decision; an id is only resolved when it is truthy.\<close>

definition truthy_id :: "nat option \<Rightarrow> bool" where
  "truthy_id i \<longleftrightarrow> i \<noteq> None \<and> i \<noteq> Some 0"

definition row_target :: "sched_env \<Rightarrow> nat option \<Rightarrow> string option \<Rightarrow> string option \<times> nat option" where
  "row_target env ep canonical =
     (if truthy_id ep then
        (case resolve_episode_target env ep canonical of (resolved, series) \<Rightarrow>
           (if truthy_str canonical then canonical else resolved, series))
      else (canonical, None))"

definition enqueue_decision :: "sched_env \<Rightarrow> decision \<Rightarrow> scheduler \<Rightarrow> (enqueue_error + string) \<times> scheduler" where
  "enqueue_decision env d s =
     (let it = dc_item d;
          (canonical, series) = row_target env (it_episode it) (if truthy_str (it_file it) then it_file it else it_path it)
      in case checked_target env (it_title it) canonical of
           Inl e \<Rightarrow> (Inl e, s)
         | Inr c \<Rightarrow> (case submit_row env ''auto'' c series (it_episode it) (it_radarr it) s of (i, s') \<Rightarrow> (Inr i, s')))"

definition enqueue_from_item :: "sched_env \<Rightarrow> walk_item \<Rightarrow> scheduler \<Rightarrow> (enqueue_error + string) \<times> scheduler" where
  "enqueue_from_item env wi s =
     (let (canonical, series) = row_target env (wi_episode wi) (wi_path wi)
      in case checked_target env (wi_title wi) canonical of
           Inl e \<Rightarrow> (Inl e, s)
         | Inr c \<Rightarrow> (case submit_row env ''gaps'' c series (wi_episode wi) None s of (i, s') \<Rightarrow> (Inr i, s')))"

text \<open>The results of a batch in order, with the state handed on.\<close>

fun enqueue_all :: "('d \<Rightarrow> scheduler \<Rightarrow> (enqueue_error + string) \<times> scheduler) \<Rightarrow> 'd list \<Rightarrow> scheduler
    \<Rightarrow> (enqueue_error + string) list \<times> scheduler" where
  "enqueue_all step [] s = ([], s)"
| "enqueue_all step (d # ds) s =
     (case step d s of (r, s') \<Rightarrow> (case enqueue_all step ds s' of (rs, s'') \<Rightarrow> (r # rs, s'')))"

definition errors_of :: "('e + 'a) list \<Rightarrow> 'e list" where
  "errors_of rs = List.map_filter (\<lambda>r. case r of Inl e \<Rightarrow> Some e | Inr _ \<Rightarrow> None) rs"

definition ids_of :: "('e + 'a) list \<Rightarrow> 'a list" where
  "ids_of rs = List.map_filter (\<lambda>r. case r of Inl _ \<Rightarrow> None | Inr i \<Rightarrow> Some i) rs"

section \<open>The Bazarr poke\<close>

definition bazarr_poke_cooldown_s :: pyfloat where "bazarr_poke_cooldown_s = 300"

definition bazarr_of :: "sched_env \<Rightarrow> coverage_item \<Rightarrow> bazarr_client" where
  "bazarr_of env it =
     (let canonical = (if truthy_str (it_file it) then or_empty (it_file it) else or_empty (it_path it)) in
      case library_for_canonical (ev_libs env) canonical of
        Inr lib \<Rightarrow> if canonical = [] then client_for (ev_bazarr env) [] else client_for (ev_bazarr env) (lib_bazarr_id lib)
      | Inl _ \<Rightarrow> client_for (ev_bazarr env) [])"

definition group_step :: "sched_env \<Rightarrow> coverage_item \<Rightarrow> (string \<times> bazarr_client \<times> nat) list \<Rightarrow> (string \<times> bazarr_client \<times> nat) list" where
  "group_step env it m =
     (let bz = bazarr_of env it in
      case map_of m (bz_key bz) of
        None \<Rightarrow> m @ [(bz_key bz, bz, 1)]
      | Some (first, n) \<Rightarrow> AList.update (bz_key bz) (first, n + 1) m)"

definition stale_by_instance :: "sched_env \<Rightarrow> coverage_item list \<Rightarrow> (string \<times> bazarr_client \<times> nat) list" where
  "stale_by_instance env items = fold (group_step env) (filter it_rescan items) []"

definition scan_task_hints :: "string list" where
  "scan_task_hints = [''series_full_scan_subtitles'', ''movies_full_scan_subtitles'', ''scan_disk_series'',
     ''scan_disk_episodes'', ''scan disk'', ''index all existing episodes'']"

definition discover_scan_task :: "(string option \<times> string option) list \<Rightarrow> string option" where
  "discover_scan_task tasks =
     (case [job. hint \<leftarrow> scan_task_hints, (job, name) \<leftarrow> tasks,
              contains hint (lower (or_empty job)) \<or> contains hint (lower (or_empty name))] of
        [] \<Rightarrow> None | job # _ \<Rightarrow> job)"

datatype poke = Not_wired | Cooling nat | Discovery_failed | No_task | Poked string nat | Trigger_failed

definition poke_instance :: "pyfloat \<Rightarrow> bazarr_client \<Rightarrow> nat \<Rightarrow> (string \<times> pyfloat) list \<Rightarrow> poke \<times> (string \<times> pyfloat) list" where
  "poke_instance now bz n pokes =
     (let since = now - (case map_of pokes (bz_key bz) of None \<Rightarrow> 0 | Some t \<Rightarrow> t) in
      if \<not> bz_configured bz then (Not_wired, pokes)
      else if since < bazarr_poke_cooldown_s then (Cooling n, pokes)
      else (case bz_tasks bz of
          None \<Rightarrow> (Discovery_failed, pokes)
        | Some tasks \<Rightarrow>
            (let task = discover_scan_task tasks in
             if \<not> truthy_str task then (No_task, pokes)
             else if bz_accepts bz (or_empty task) then (Poked (or_empty task) n, AList.update (bz_key bz) now pokes)
             else (Trigger_failed, pokes))))"

fun poke_all :: "pyfloat \<Rightarrow> (string \<times> bazarr_client \<times> nat) list \<Rightarrow> (string \<times> pyfloat) list
    \<Rightarrow> (string \<times> poke) list \<times> (string \<times> pyfloat) list" where
  "poke_all now [] pokes = ([], pokes)"
| "poke_all now ((key, bz, n) # insts) pokes =
     (case poke_instance now bz n pokes of (p, pokes') \<Rightarrow>
        (case poke_all now insts pokes' of (ps, pokes'') \<Rightarrow> ((key, p) # ps, pokes'')))"

definition maybe_poke :: "sched_env \<Rightarrow> coverage_item list \<Rightarrow> scheduler \<Rightarrow> (string \<times> poke) list \<times> scheduler" where
  "maybe_poke env items s =
     (case poke_all (ev_now env) (stale_by_instance env items) (sw_pokes s) of (ps, pokes) \<Rightarrow> (ps, s\<lparr>sw_pokes := pokes\<rparr>))"

section \<open>The coverage walk\<close>

datatype walk_result =
    Already_running
  | Build_failed
  | Stashed nat nat string
  | Walked nat nat "(enqueue_error + string) list" "(string \<times> poke) list"

definition walk_context :: "sched_env \<Rightarrow> scheduler \<Rightarrow> run_context" where
  "walk_context env s =
     \<lparr>rc_rules = get_rules (sw_schedules s),
      rc_in_flight = map le_path (pending_entries (sw_ledger s))
        @ (case sw_queue s of None \<Rightarrow> [] | Some q \<Rightarrow> map pj_path (filter active q)),
      rc_suppressed = no_output_paths_since (ev_now env - no_output_cooldown_s) (sw_ledger s),
      rc_now = ev_now env\<rparr>"

definition walk_locked :: "sched_env \<Rightarrow> coverage_item list \<Rightarrow> scheduler \<Rightarrow> walk_result \<times> scheduler" where
  "walk_locked env items s0 =
     (let (pokes, s) = maybe_poke env items s0;
          ds = evaluate (walk_context env s) items;
          queue = filter dc_queue ds
      in case sw_pending s of
           Some ps \<Rightarrow>
             if aq_mode (get_rules (sw_schedules s)) = Manual_confirm then
               (Stashed (length items) (length queue) (ev_ids env (sw_next s)),
                s\<lparr>sw_next := sw_next s + 1,
                  sw_pending := Some (create_walk (ev_ids env (sw_next s)) (ev_now env) (length items) (map decision_view queue) ps)\<rparr>)
             else (case enqueue_all (enqueue_decision env) queue s of (rs, s') \<Rightarrow> (Walked (length items) (length queue) rs pokes, s'))
         | None \<Rightarrow> (case enqueue_all (enqueue_decision env) queue s of (rs, s') \<Rightarrow> (Walked (length items) (length queue) rs pokes, s')))"

text \<open>\<open>None\<close> is a build that raised.\<close>

definition run_coverage_walk :: "sched_env \<Rightarrow> coverage_item list option \<Rightarrow> scheduler \<Rightarrow> walk_result \<times> scheduler" where
  "run_coverage_walk env report s =
     (if sw_walking s then (Already_running, s)
      else (case report of None \<Rightarrow> (Build_failed, s) | Some items \<Rightarrow> walk_locked env items s))"

text \<open>The report a walk builds: the call passes no verdict store.\<close>

definition walk_report :: "build_inputs \<Rightarrow> coverage_item list" where
  "walk_report bi = fst (build_coverage bi None)"

section \<open>Approval\<close>

definition chosen :: "nat list \<Rightarrow> pending_decision \<Rightarrow> bool" where
  "chosen ids d \<longleftrightarrow> pn_approved d = None \<and> (ids = [] \<or> pn_id d \<in> set ids)"

definition on_pending :: "(pending_store \<Rightarrow> pending_store) \<Rightarrow> scheduler \<Rightarrow> scheduler" where
  "on_pending f s = s\<lparr>sw_pending := map_option f (sw_pending s)\<rparr>"

definition approve_one :: "sched_env \<Rightarrow> pending_decision \<Rightarrow> scheduler \<Rightarrow> (enqueue_error + string) \<times> scheduler" where
  "approve_one env d s =
     (case enqueue_from_item env (pn_item d) s of
        (Inr i, s') \<Rightarrow> (Inr i, on_pending (mark_decision (pn_id d) True (Some i)) s')
      | (Inl e, s') \<Rightarrow> (Inl e, on_pending (mark_decision (pn_id d) False None) s'))"

datatype approval = No_store | Walk_not_found | Decided "(enqueue_error + string) list" walk_status

definition finalise :: "string \<Rightarrow> scheduler \<Rightarrow> walk_status \<times> scheduler" where
  "finalise w s =
     (case sw_pending s of
        None \<Rightarrow> (Awaiting, s)
      | Some ps \<Rightarrow> (case finalise_walk w ps of (st, ps') \<Rightarrow> (st, s\<lparr>sw_pending := Some ps'\<rparr>)))"

definition approve_pending :: "sched_env \<Rightarrow> string \<Rightarrow> nat list \<Rightarrow> scheduler \<Rightarrow> approval \<times> scheduler" where
  "approve_pending env w ids s =
     (case sw_pending s of
        None \<Rightarrow> (No_store, s)
      | Some ps \<Rightarrow>
          (case get_walk w ps of
             None \<Rightarrow> (Walk_not_found, s)
           | Some (row, ds) \<Rightarrow>
               (case enqueue_all (approve_one env) (filter (chosen ids) ds) s of
                  (rs, s') \<Rightarrow> (case finalise w s' of (st, s'') \<Rightarrow> (Decided rs st, s'')))))"

definition reject_pending :: "string \<Rightarrow> nat list \<Rightarrow> scheduler \<Rightarrow> (nat \<times> walk_status) option \<times> scheduler" where
  "reject_pending w ids s =
     (case Option.bind (sw_pending s) (get_walk w) of
        None \<Rightarrow> (None, s)
      | Some (row, ds) \<Rightarrow>
          (let todo = filter (chosen ids) ds;
               s' = fold (\<lambda>d. on_pending (mark_decision (pn_id d) False None)) todo s
           in case finalise w s' of (st, s'') \<Rightarrow> (Some (length todo, st), s'')))"

section \<open>The tick\<close>

datatype fired = Walk walk_result | Unknown_schedule string

definition fire :: "sched_env \<Rightarrow> coverage_item list option \<Rightarrow> string \<Rightarrow> scheduler \<Rightarrow> fired \<times> scheduler" where
  "fire env report name s =
     (if name = ''coverage_walk'' then (case run_coverage_walk env report s of (r, s') \<Rightarrow> (Walk r, s'))
      else (Unknown_schedule name, s))"

text \<open>The schedules of one tick; the flag is set when a time of day that does not exist ends it. The run is
  recorded at the time the walk ends, with \<open>str(result)[:1000]\<close>.\<close>

fun tick_schedules ::
    "sched_env \<Rightarrow> pyfloat \<Rightarrow> (fired \<Rightarrow> string) \<Rightarrow> coverage_item list option \<Rightarrow> schedule_config list \<Rightarrow> scheduler \<Rightarrow> bool \<times> scheduler" where
  "tick_schedules env ended render report [] s = (False, s)"
| "tick_schedules env ended render report (c # cs) s =
     (case due (ev_local env) c (ev_local env (ev_now env)) (ev_now env) (sd_last_run c) of
        None \<Rightarrow> (True, s)
      | Some False \<Rightarrow> tick_schedules env ended render report cs s
      | Some True \<Rightarrow>
          (case fire env report (sd_name c) s of (r, s') \<Rightarrow>
             (case next_run_for (ev_stamp env) c (ev_local env ended) ended of
                None \<Rightarrow> (True, s')
              | Some nxt \<Rightarrow>
                  tick_schedules env ended render report cs
                    (s'\<lparr>sw_schedules := record_run (sd_name c) ended nxt (take 1000 (render r)) (sw_schedules s')\<rparr>))))"

definition scheduler_tick :: "sched_env \<Rightarrow> pyfloat \<Rightarrow> (fired \<Rightarrow> string) \<Rightarrow> coverage_item list option \<Rightarrow> scheduler \<Rightarrow> bool \<times> scheduler" where
  "scheduler_tick env ended render report s =
     tick_schedules env ended render report (list_schedules (sw_schedules s)) s"

section \<open>What a batch does to the queue\<close>

text \<open>A path that translates to an existing target.\<close>

definition on_disk :: "sched_env \<Rightarrow> string \<Rightarrow> bool" where
  "on_disk env c \<longleftrightarrow> (case canonical_to_fs (ev_resolve env) (ev_libs env) c of Inl _ \<Rightarrow> False | Inr target \<Rightarrow> ev_exists env target)"

text \<open>One row enqueued: it was active already, or it is the new last job.\<close>

definition enqueued_one :: "sched_env \<Rightarrow> string \<Rightarrow> string \<Rightarrow> string \<Rightarrow> string \<Rightarrow> queue_store \<Rightarrow> queue_store \<Rightarrow> bool" where
  "enqueued_one env source new_id i path q q' \<longleftrightarrow>
     on_disk env path \<and> (\<exists>j \<in> set q'. active j \<and> pj_id j = i \<and> pj_path j = path) \<and>
     (if path \<in> active_paths q then q' = q
      else (\<exists>j. q' = q @ [j] \<and> pj_id j = new_id \<and> pj_path j = path \<and> pj_source j = source \<and> is_pending j))"

lemma checked_target_on_disk: "checked_target env t c = Inr p \<Longrightarrow> on_disk env p \<and> truthy_str c \<and> p = or_empty c"
  by (auto simp: checked_target_def on_disk_def split: if_splits sum.splits)

lemma submit_row_queue:
  assumes "sw_queue s = Some q" "submit_row env source path series ep movie s = (i, s')" "on_disk env path"
  shows "\<exists>q'. s' = s\<lparr>sw_queue := Some q', sw_next := sw_next s + 1\<rparr> \<and> enqueued_one env source (ev_ids env (sw_next s)) i path q q'
    \<and> (queue_wf q \<longrightarrow> ev_ids env (sw_next s) \<notin> pj_id ` set q \<longrightarrow> queue_wf q')"
proof -
  let ?e = "enqueue (ev_ids env (sw_next s)) (ev_now env) path source None None None (map_option int series) (map_option int ep)
      False False (map_option int movie) q"
  obtain j q' where e: "?e = (j, q')" by (cases ?e)
  have s': "i = pj_id j" "s' = s\<lparr>sw_queue := Some q', sw_next := sw_next s + 1\<rparr>"
    using assms(1,2) e by (simp_all add: submit_row_def Let_def)
  have "queue_wf q'" if "queue_wf q" "ev_ids env (sw_next s) \<notin> pj_id ` set q"
    using queue_wf_enqueue [OF that] e by (metis snd_conv)
  moreover have "enqueued_one env source (ev_ids env (sw_next s)) i path q q'"
    using e
  proof (cases rule: enqueue_cases [of path q "ev_ids env (sw_next s)" "ev_now env" source None None None
        "map_option int series" "map_option int ep" False False "map_option int movie"])
    case (dup k)
    then have "k = j" "q' = q" "j \<in> set q" "active j" "pj_path j = path" using e find_SomeD [OF dup(1)] by auto
    then show ?thesis using assms(3) s' by (auto simp: enqueued_one_def active_paths_def)
  next
    case (new k)
    then have k: "k = j" "q' = q @ [j]" using e by auto
    from e have "pj_source j = source"
      using new(1) by (auto simp: enqueue_def Let_def split: option.splits dest!: find_SomeD)
    with new k show ?thesis using assms(3) s' pending_active by (auto simp: enqueued_one_def active_paths_def)
  qed
  ultimately show ?thesis using s'(2) by blast
qed

text \<open>The ids still to be drawn are new to the queue.\<close>

definition ids_free :: "sched_env \<Rightarrow> nat \<Rightarrow> queue_store \<Rightarrow> bool" where
  "ids_free env n q \<longleftrightarrow> inj (ev_ids env) \<and> (\<forall>k \<ge> n. ev_ids env k \<notin> pj_id ` set q)"

text \<open>Both ways to enqueue a row share this contract: an error leaves everything as it is, a success
  enqueues the path the row asks for and only touches the queue.\<close>

locale row_enqueuer =
  fixes env :: sched_env and source :: string
    and target_of :: "'d \<Rightarrow> string option"
    and step :: "'d \<Rightarrow> scheduler \<Rightarrow> (enqueue_error + string) \<times> scheduler"
  assumes step_error: "step d s = (Inl e, s') \<Longrightarrow> s' = s"
    and step_enqueues: "step d s = (Inr i, s') \<Longrightarrow> sw_queue s = Some q \<Longrightarrow>
      \<exists>path q'. target_of d = Some path \<and> s' = s\<lparr>sw_queue := Some q', sw_next := sw_next s + 1\<rparr>
        \<and> enqueued_one env source (ev_ids env (sw_next s)) i path q q'
        \<and> (queue_wf q \<longrightarrow> ev_ids env (sw_next s) \<notin> pj_id ` set q \<longrightarrow> queue_wf q')"
begin

text \<open>The new jobs of a batch: pending, from the right source, on disk, and asked for by some row.\<close>

definition fresh_jobs :: "'d list \<Rightarrow> queue_store \<Rightarrow> pending_job list \<Rightarrow> bool" where
  "fresh_jobs ds q new \<longleftrightarrow>
     list_all (\<lambda>j. is_pending j \<and> pj_source j = source \<and> on_disk env (pj_path j) \<and> pj_path j \<notin> active_paths q
       \<and> Some (pj_path j) \<in> target_of ` set ds) new
     \<and> distinct (map pj_path new)"

lemma enqueued_ids_free:
  assumes "enqueued_one env source (ev_ids env n) i path q q'" "ids_free env n q"
  shows "ids_free env (n + 1) q'"
proof -
  from assms(1) obtain xs where q': "q' = q @ xs" "pj_id ` set xs \<subseteq> {ev_ids env n}"
    by (cases "path \<in> active_paths q") (auto simp: enqueued_one_def)
  have "ev_ids env k \<notin> pj_id ` set q'" if "n + 1 \<le> k" for k
  proof
    assume "ev_ids env k \<in> pj_id ` set q'"
    moreover have "ev_ids env k \<notin> pj_id ` set q" using assms(2) that by (simp add: ids_free_def)
    ultimately have "ev_ids env k = ev_ids env n" using q' by auto
    with assms(2) that show False by (simp add: ids_free_def inj_eq)
  qed
  with assms(2) show ?thesis by (simp add: ids_free_def)
qed

text \<open>A row got its job, or an error.\<close>

definition settled :: "queue_store \<Rightarrow> 'd \<times> (enqueue_error + string) \<Rightarrow> bool" where
  "settled q x \<longleftrightarrow> (case x of (d, Inl e) \<Rightarrow> True
     | (d, Inr i) \<Rightarrow> (\<exists>j \<in> set q. active j \<and> pj_id j = i \<and> Some (pj_path j) = target_of d))"

lemma batch:
  assumes "enqueue_all step ds s = (rs, s')" "sw_queue s = Some q" "queue_wf q" "ids_free env (sw_next s) q"
  shows "\<exists>new k. s' = s\<lparr>sw_queue := Some (q @ new), sw_next := k\<rparr> \<and> queue_wf (q @ new) \<and> fresh_jobs ds q new
    \<and> length rs = length ds \<and> list_all (settled (q @ new)) (zip ds rs)"
  using assms
proof (induction ds arbitrary: s q rs)
  case Nil
  then have "s' = s\<lparr>sw_queue := Some q, sw_next := sw_next s\<rparr>" by simp
  with Nil show ?case by (intro exI [of _ "[]"] exI [of _ "sw_next s"]) (simp add: fresh_jobs_def)
next
  case (Cons d ds)
  obtain r s1 where r: "step d s = (r, s1)" by (cases "step d s")
  obtain rs' where rs: "enqueue_all step ds s1 = (rs', s')" "rs = r # rs'"
    using Cons.prems(1) r by (auto split: prod.splits)
  show ?case
  proof (cases r)
    case (Inl e)
    with step_error r have "s1 = s" by blast
    from Cons.IH [OF rs(1)] Cons.prems this obtain new k where
      IH: "s' = s\<lparr>sw_queue := Some (q @ new), sw_next := k\<rparr>" "queue_wf (q @ new)" "fresh_jobs ds q new"
      "length rs' = length ds" "list_all (settled (q @ new)) (zip ds rs')" by auto
    then show ?thesis by (intro exI [of _ new] exI [of _ k]) (auto simp: rs Inl fresh_jobs_def settled_def list_all_iff)
  next
    case (Inr i)
    with step_enqueues [of d s i s1 q] r Cons.prems(2) obtain path q1 where
      st: "target_of d = Some path" "s1 = s\<lparr>sw_queue := Some q1, sw_next := sw_next s + 1\<rparr>"
        "enqueued_one env source (ev_ids env (sw_next s)) i path q q1"
        "queue_wf q \<longrightarrow> ev_ids env (sw_next s) \<notin> pj_id ` set q \<longrightarrow> queue_wf q1" by blast
    have wf1: "queue_wf q1" using st(4) Cons.prems(3,4) by (auto simp: ids_free_def)
    have free1: "ids_free env (sw_next s1) q1" using enqueued_ids_free [OF st(3) Cons.prems(4)] st(2) by simp
    from Cons.IH [OF rs(1) _ wf1 free1] st(2) obtain new k where
      IH: "s' = s1\<lparr>sw_queue := Some (q1 @ new), sw_next := k\<rparr>" "queue_wf (q1 @ new)" "fresh_jobs ds q1 new"
      "length rs' = length ds" "list_all (settled (q1 @ new)) (zip ds rs')" by auto
    obtain xs where xs: "q1 = q @ xs" "fresh_jobs [d] q xs" "set (map pj_path xs) \<subseteq> active_paths q1"
      using st(1,3) by (force simp: enqueued_one_def fresh_jobs_def active_paths_def pending_active split: if_splits)
    have "fresh_jobs (d # ds) q (xs @ new)"
      using xs IH(3) pending_active unfolding fresh_jobs_def list_all_iff active_paths_def
      by (auto 0 3 simp: image_iff)
    moreover have "settled (q @ xs @ new) (d, r)"
      using st(1,3) xs(1) by (auto simp: settled_def Inr enqueued_one_def)
    ultimately show ?thesis
      using IH st(2) xs(1) by (intro exI [of _ "xs @ new"] exI [of _ k]) (auto simp: rs(2))
  qed
qed

end

definition decision_target :: "sched_env \<Rightarrow> decision \<Rightarrow> string option" where
  "decision_target env d =
     (let it = dc_item d in fst (row_target env (it_episode it) (if truthy_str (it_file it) then it_file it else it_path it)))"

definition item_target :: "sched_env \<Rightarrow> walk_item \<Rightarrow> string option" where
  "item_target env wi = fst (row_target env (wi_episode wi) (wi_path wi))"

lemma row_step_enqueues:
  assumes "row_target env ep c0 = (canonical, series)" "checked_target env t canonical = Inr path"
    "submit_row env source path series ep movie s = (i, s')" "sw_queue s = Some q"
  shows "\<exists>path q'. canonical = Some path \<and> s' = s\<lparr>sw_queue := Some q', sw_next := sw_next s + 1\<rparr>
    \<and> enqueued_one env source (ev_ids env (sw_next s)) i path q q'
    \<and> (queue_wf q \<longrightarrow> ev_ids env (sw_next s) \<notin> pj_id ` set q \<longrightarrow> queue_wf q')"
proof -
  from checked_target_on_disk [OF assms(2)] have p: "on_disk env path" "canonical = Some path"
    by (auto simp: truthy_str_def or_empty_def split: option.splits)
  with submit_row_queue [OF assms(4,3) p(1)] show ?thesis by blast
qed

interpretation auto_rows: row_enqueuer env "''auto''" "decision_target env" "enqueue_decision env" for env
proof
  fix d s e s' assume "enqueue_decision env d s = (Inl e, s')"
  then show "s' = s" by (auto simp: enqueue_decision_def Let_def split: prod.splits sum.splits)
next
  fix d s i s' q assume a: "enqueue_decision env d s = (Inr i, s')" "sw_queue s = Some q"
  let ?t = "row_target env (it_episode (dc_item d)) (if truthy_str (it_file (dc_item d)) then it_file (dc_item d) else it_path (dc_item d))"
  obtain canonical series where t: "?t = (canonical, series)" by (cases ?t)
  with a(1) obtain c where "checked_target env (it_title (dc_item d)) canonical = Inr c"
    "submit_row env ''auto'' c series (it_episode (dc_item d)) (it_radarr (dc_item d)) s = (i, s')"
    by (auto simp: enqueue_decision_def Let_def split: prod.splits sum.splits)
  from row_step_enqueues [OF t this a(2)]
  show "\<exists>path q'. decision_target env d = Some path \<and> s' = s\<lparr>sw_queue := Some q', sw_next := sw_next s + 1\<rparr>
      \<and> enqueued_one env ''auto'' (ev_ids env (sw_next s)) i path q q'
      \<and> (queue_wf q \<longrightarrow> ev_ids env (sw_next s) \<notin> pj_id ` set q \<longrightarrow> queue_wf q')"
    by (simp add: decision_target_def Let_def t)
qed

interpretation stored_rows: row_enqueuer env "''gaps''" "item_target env" "enqueue_from_item env" for env
proof
  fix wi s e s' assume "enqueue_from_item env wi s = (Inl e, s')"
  then show "s' = s" by (auto simp: enqueue_from_item_def Let_def split: prod.splits sum.splits)
next
  fix wi s i s' q assume a: "enqueue_from_item env wi s = (Inr i, s')" "sw_queue s = Some q"
  obtain canonical series where t: "row_target env (wi_episode wi) (wi_path wi) = (canonical, series)"
    by (cases "row_target env (wi_episode wi) (wi_path wi)")
  with a(1) obtain c where "checked_target env (wi_title wi) canonical = Inr c"
    "submit_row env ''gaps'' c series (wi_episode wi) None s = (i, s')"
    by (auto simp: enqueue_from_item_def Let_def split: prod.splits sum.splits)
  from row_step_enqueues [OF t this a(2)]
  show "\<exists>path q'. item_target env wi = Some path \<and> s' = s\<lparr>sw_queue := Some q', sw_next := sw_next s + 1\<rparr>
      \<and> enqueued_one env ''gaps'' (ev_ids env (sw_next s)) i path q q'
      \<and> (queue_wf q \<longrightarrow> ev_ids env (sw_next s) \<notin> pj_id ` set q \<longrightarrow> queue_wf q')"
    by (simp add: item_target_def t)
qed

section \<open>The walk\<close>

lemma maybe_poke_state: obtains pk p where "maybe_poke env items s = (pk, s\<lparr>sw_pokes := p\<rparr>)"
  by (cases "poke_all (ev_now env) (stale_by_instance env items) (sw_pokes s)") (simp add: maybe_poke_def)

text \<open>What a walk queues: the rows the rules let through.\<close>

definition walk_choice :: "sched_env \<Rightarrow> coverage_item list \<Rightarrow> scheduler \<Rightarrow> decision list" where
  "walk_choice env items s = filter dc_queue (evaluate (walk_context env s) items)"

lemma walk_context_poke [simp]: "walk_context env (s\<lparr>sw_pokes := p\<rparr>) = walk_context env s"
  by (simp add: walk_context_def)

text \<open>A walk that holds its rows back for approval stores exactly them and leaves the queue alone.\<close>

lemma manual_walk_only_stashes:
  assumes "run_coverage_walk env (Some items) s = (Stashed n k w, s')"
  shows "sw_queue s' = sw_queue s \<and> sw_ledger s' = sw_ledger s \<and> k = length (walk_choice env items s)
    \<and> (\<exists>ps. sw_pending s = Some ps \<and> sw_pending s' = Some (create_walk w (ev_now env) (length items)
         (map decision_view (walk_choice env items s)) ps))"
proof -
  obtain pk p where mp: "maybe_poke env items s = (pk, s\<lparr>sw_pokes := p\<rparr>)" by (rule maybe_poke_state)
  from assms show ?thesis
    by (auto simp: run_coverage_walk_def walk_locked_def mp Let_def walk_choice_def
        split: if_splits option.splits prod.splits)
qed

text \<open>A walk that queues does so by the rules and leaves a well-formed queue: the old jobs stay where
  they are, and each new job is pending, was not active before, occurs once, is a target on disk and
  belongs to a row the rules chose. Every chosen row ends with an error or with an active job for its
  target, and nothing but the queue, the drawn ids and the poke times changes.\<close>

theorem walk_queues_by_the_rules:
  assumes "run_coverage_walk env (Some items) s = (Walked n k rs pokes, s')"
    and "sw_queue s = Some q" "queue_wf q" "ids_free env (sw_next s) q"
  defines "choice \<equiv> filter dc_queue (evaluate (walk_context env s) items)"
  shows "\<exists>new m. s' = s\<lparr>sw_queue := Some (q @ new), sw_pokes := sw_pokes s', sw_next := m\<rparr> \<and> queue_wf (q @ new)
    \<and> list_all (\<lambda>j. is_pending j \<and> pj_source j = ''auto'' \<and> on_disk env (pj_path j) \<and> pj_path j \<notin> active_paths q
         \<and> Some (pj_path j) \<in> decision_target env ` set choice) new
    \<and> distinct (map pj_path new)
    \<and> k = length choice \<and> length rs = k
    \<and> list_all (\<lambda>(d, r). case r of Inl e \<Rightarrow> True
         | Inr i \<Rightarrow> \<exists>j \<in> set (q @ new). active j \<and> pj_id j = i \<and> Some (pj_path j) = decision_target env d) (zip choice rs)"
proof -
  obtain pk p where mp: "maybe_poke env items s = (pk, s\<lparr>sw_pokes := p\<rparr>)" by (rule maybe_poke_state)
  from assms(1) have run: "enqueue_all (enqueue_decision env) choice (s\<lparr>sw_pokes := p\<rparr>) = (rs, s')" "k = length choice"
    by (auto simp: run_coverage_walk_def walk_locked_def mp Let_def choice_def split: if_splits option.splits prod.splits)
  from auto_rows.batch [OF run(1), of q] assms(2-4) obtain new m where
    b: "s' = s\<lparr>sw_pokes := p, sw_queue := Some (q @ new), sw_next := m\<rparr>" "queue_wf (q @ new)" "auto_rows.fresh_jobs env choice q new"
      "length rs = length choice" "list_all (auto_rows.settled env (q @ new)) (zip choice rs)" by auto
  have "list_all (\<lambda>(d, r). case r of Inl e \<Rightarrow> True
      | Inr i \<Rightarrow> \<exists>j \<in> set (q @ new). active j \<and> pj_id j = i \<and> Some (pj_path j) = decision_target env d) (zip choice rs)"
    using b(5) unfolding auto_rows.settled_def [abs_def] case_prod_unfold .
  moreover have "s' = s\<lparr>sw_queue := Some (q @ new), sw_pokes := sw_pokes s', sw_next := m\<rparr>" by (simp add: b(1))
  ultimately show ?thesis
    using b(2-4) run(2) unfolding auto_rows.fresh_jobs_def by (intro exI [of _ new] exI [of _ m]) simp
qed

section \<open>An example installation\<close>

definition one_library :: library where
  "one_library = \<lparr>lib_slug = [], lib_name = ''Main'', lib_fs_root = ''/media'', lib_subgen_prefix = ''/media'',
     lib_arr_prefix = ''/data'', lib_sonarr_id = [], lib_radarr_id = [], lib_bazarr_id = []\<rparr>"

definition quiet_sonarr :: sonarr_client where
  "quiet_sonarr = \<lparr>sn_configured = False, sn_episode = (\<lambda>_. None), sn_file = (\<lambda>_. None)\<rparr>"

definition quiet_bazarr :: bazarr_client where
  "quiet_bazarr = \<lparr>bz_key = ''bazarr'', bz_configured = False, bz_tasks = None, bz_accepts = (\<lambda>_. False)\<rparr>"

definition small_env :: sched_env where
  "small_env = \<lparr>ev_libs = [one_library], ev_resolve = (\<lambda>p. p), ev_exists = (\<lambda>_. True), ev_sonarr = (quiet_sonarr, []),
     ev_bazarr = (quiet_bazarr, []), ev_now = 1000, ev_local = (\<lambda>t. t), ev_stamp = (\<lambda>t. t), ev_ids = (\<lambda>k. replicate k CHR ''x'')\<rparr>"

definition a_film :: coverage_item where
  "a_film = (new_item Movie ''Film'')\<lparr>it_file := Some ''Movies/Film/film.mkv'', it_path := Some ''Movies/Film'',
     it_state := Verified, it_score := 900\<rparr>"

definition a_decision :: decision where
  "a_decision = \<lparr>dc_item = a_film, dc_queue = True, dc_reason = Matches_rules Auto_rules\<rparr>"

definition night_scheduler :: scheduler where
  "night_scheduler = \<lparr>sw_schedules = \<lparr>st_schedules = [], st_rules = Some (default_rules\<lparr>aq_mode := Auto_rules\<rparr>)\<rparr>,
     sw_pending = Some (create_walk ''w'' 500 1 [decision_view a_decision] \<lparr>ps_walks = [], ps_decisions = [], ps_seq = 0\<rparr>),
     sw_queue = Some [], sw_ledger = [], sw_scans = [], sw_pokes = [], sw_walking = False, sw_next = 0\<rparr>"

lemma night_ids: "ids_free small_env 0 []"
  by (auto simp: ids_free_def small_env_def inj_def dest: arg_cong [where f = length])

lemma night_wf: "queue_wf []"
  by (simp add: queue_wf_def)

lemma night_fields: "sw_queue night_scheduler = Some []" "sw_next night_scheduler = 0" "\<not> sw_walking night_scheduler"
  "aq_mode (get_rules (sw_schedules night_scheduler)) = Auto_rules" "\<exists>ps. sw_pending night_scheduler = Some ps"
  by (simp_all add: night_scheduler_def get_rules_def given_def)

theorem walk_queues_by_the_rules_witness:
  "\<exists>rs pokes s' new. run_coverage_walk small_env (Some [a_film]) night_scheduler = (Walked 1 1 rs pokes, s')
     \<and> length rs = 1 \<and> sw_queue s' = Some new \<and> queue_wf new \<and> list_all is_pending new"
proof -
  obtain pk p where mp: "maybe_poke small_env [a_film] night_scheduler = (pk, night_scheduler\<lparr>sw_pokes := p\<rparr>)" by (rule maybe_poke_state)
  obtain rs0 s0 where e: "enqueue_all (enqueue_decision small_env)
      (filter dc_queue (evaluate (walk_context small_env night_scheduler) [a_film])) (night_scheduler\<lparr>sw_pokes := p\<rparr>) = (rs0, s0)" by fastforce
  then obtain n k rs pokes s' where o: "run_coverage_walk small_env (Some [a_film]) night_scheduler = (Walked n k rs pokes, s')"
    using night_fields(5) by (auto simp: run_coverage_walk_def walk_locked_def mp Let_def night_fields(3,4) split: prod.split)
  then have n: "n = 1"
    by (auto simp: run_coverage_walk_def walk_locked_def mp Let_def split: if_splits option.splits prod.splits)
  have one: "length (filter dc_queue (evaluate (walk_context small_env night_scheduler) [a_film])) = 1" by code_simp
  from walk_queues_by_the_rules [OF o night_fields(1) night_wf] night_ids night_fields(2) one
  obtain new m where new: "s' = night_scheduler\<lparr>sw_queue := Some ([] @ new), sw_pokes := sw_pokes s', sw_next := m\<rparr>"
    "queue_wf new" "list_all is_pending new" "k = 1" "length rs = 1" by (auto simp: list_all_iff)
  have "sw_queue s' = Some new" by (subst new(1)) simp
  with o n new show ?thesis by auto
qed

text \<open>The walk builds its report without the verdict store, so the titles the user ignores keep their rows.\<close>

lemma walk_keeps_ignored_titles:
  "mset (map row_identity (walk_report bi)) = mset (map row_identity (fst (build_rows bi None)))"
proof -
  have "snd (build_rows bi None) = None" by (simp add: build_rows_def per_file_forced_map_def case_prod_beta)
  then show ?thesis using report_rows [of bi None] by (simp add: walk_report_def marked_paths_def ignored_path_def)
qed

section \<open>The approval\<close>

lemma on_pending_fields [simp]:
  "sw_queue (on_pending f s) = sw_queue s" "sw_next (on_pending f s) = sw_next s" "sw_ledger (on_pending f s) = sw_ledger s"
  "sw_scans (on_pending f s) = sw_scans s"
  "sw_pending (on_pending f s) = map_option f (sw_pending s)"
  by (simp_all add: on_pending_def)

lemma on_pending_on_pending: "on_pending f (on_pending g s) = on_pending (\<lambda>x. f (g x)) s"
  by (cases "sw_pending s") (simp_all add: on_pending_def)

lemma on_pending_id: "on_pending (\<lambda>x. x) s = s"
  by (cases "sw_pending s") (simp_all add: on_pending_def)

lemma submit_row_pending:
  "submit_row env source c series ep movie (on_pending f s) = apsnd (on_pending f) (submit_row env source c series ep movie s)"
  by (simp add: submit_row_def Let_def on_pending_def split: option.split prod.split)

lemma enqueue_from_item_pending:
  "enqueue_from_item env wi (on_pending f s) = apsnd (on_pending f) (enqueue_from_item env wi s)"
  by (simp add: enqueue_from_item_def Let_def submit_row_pending split: prod.split sum.split)

lemma enqueue_stored_pending:
  "enqueue_all (enqueue_from_item env) ds (on_pending f s) = apsnd (on_pending f) (enqueue_all (enqueue_from_item env) ds s)"
  by (induction ds arbitrary: s) (simp_all add: enqueue_from_item_pending split: prod.split)

lemma enqueue_from_item_keeps: "enqueue_from_item env wi s = (r, s') \<Longrightarrow> sw_pending s' = sw_pending s"
  by (auto simp: enqueue_from_item_def submit_row_def Let_def split: prod.splits sum.splits option.splits)

lemma enqueue_stored_keeps: "enqueue_all (enqueue_from_item env) ds s = (rs, s') \<Longrightarrow> sw_pending s' = sw_pending s"
  by (induction ds arbitrary: s rs) (auto dest: enqueue_from_item_keeps split: prod.splits)

text \<open>The mark a decision gets from its result.\<close>

definition mark_result :: "pending_decision \<times> (enqueue_error + string) \<Rightarrow> pending_store \<Rightarrow> pending_store" where
  "mark_result x = (case x of (d, Inr i) \<Rightarrow> mark_decision (pn_id d) True (Some i) | (d, Inl e) \<Rightarrow> mark_decision (pn_id d) False None)"

definition voted :: "pending_decision \<times> (enqueue_error + string) \<Rightarrow> pending_decision \<Rightarrow> pending_decision" where
  "voted x d = (if pn_id d = pn_id (fst x)
     then (case snd x of Inr i \<Rightarrow> d\<lparr>pn_approved := Some True, pn_scan := Some i\<rparr> | Inl e \<Rightarrow> d\<lparr>pn_approved := Some False, pn_scan := None\<rparr>)
     else d)"

lemma voted_keys [simp]: "pn_id (voted x d) = pn_id d" "pn_walk (voted x d) = pn_walk d"
  by (simp_all add: voted_def split: sum.split)

lemma approve_one_alt:
  "approve_one env d s = (case enqueue_from_item env (pn_item d) s of (r, s') \<Rightarrow> (r, on_pending (mark_result (d, r)) s'))"
  by (auto simp: approve_one_def mark_result_def split: prod.split sum.split)

lemma approve_batch:
  "enqueue_all (approve_one env) ds s =
     (case enqueue_all (enqueue_from_item env) (map pn_item ds) s of
        (rs, s') \<Rightarrow> (rs, on_pending (fold mark_result (zip ds rs)) s'))"
proof (induction ds arbitrary: s)
  case Nil
  then show ?case by (simp add: on_pending_id id_def)
next
  case (Cons d ds)
  obtain r s1 where r: "enqueue_from_item env (pn_item d) s = (r, s1)" by (cases "enqueue_from_item env (pn_item d) s")
  obtain rs s2 where rs: "enqueue_all (enqueue_from_item env) (map pn_item ds) s1 = (rs, s2)"
    by (cases "enqueue_all (enqueue_from_item env) (map pn_item ds) s1")
  show ?case
    by (simp add: approve_one_alt [of env d] r Cons.IH enqueue_stored_pending rs on_pending_on_pending comp_def)
qed

lemma sort_key_map_same:
  assumes "\<And>x. k (f x) = k x"
  shows "sort_key k (map f xs) = map f (sort_key k xs)"
proof (induction xs)
  case (Cons x xs)
  have "insort_key k (f x) (map f ys) = map f (insort_key k x ys)" for ys by (induction ys) (auto simp: assms)
  with Cons show ?case by simp
qed simp

lemma decisions_mark: "decisions_of w (mark_result x ps) = map (voted x) (decisions_of w ps)"
proof -
  have "ps_decisions (mark_result x ps) = map (voted x) (ps_decisions ps)"
    by (auto simp: mark_result_def mark_decision_def voted_def split: prod.split sum.split)
  then show ?thesis
    by (simp add: decisions_of_def filter_map o_def sort_key_map_same)
qed

lemma decisions_marks: "decisions_of w (fold mark_result xs ps) = map (fold voted xs) (decisions_of w ps)"
  by (induction xs arbitrary: ps) (simp_all add: decisions_mark)

lemma fold_voted_other: "pn_id d \<notin> pn_id ` fst ` set xs \<Longrightarrow> fold voted xs d = d"
  by (induction xs) (auto simp: voted_def)

lemma fold_voted_keys [simp]: "pn_id (fold voted xs d) = pn_id d"
  by (induction xs arbitrary: d) simp_all

lemma fold_voted_decided: "pn_approved d \<noteq> None \<Longrightarrow> pn_approved (fold voted xs d) \<noteq> None"
proof (induction xs arbitrary: d)
  case (Cons x xs)
  have "pn_approved (voted x d) \<noteq> None" using Cons.prems by (simp add: voted_def del: not_None_eq split: sum.split)
  from Cons.IH [OF this] show ?case by simp
qed simp

lemma fold_voted_in: "pn_id d \<in> pn_id ` fst ` set xs \<Longrightarrow> pn_approved (fold voted xs d) \<noteq> None"
proof (induction xs arbitrary: d)
  case (Cons x xs)
  show ?case
  proof (cases "pn_id d = pn_id (fst x)")
    case True
    then have "pn_approved (voted x d) \<noteq> None" by (simp add: voted_def del: not_None_eq split: sum.split)
    from fold_voted_decided [OF this] show ?thesis by simp
  next
    case False
    with Cons.prems have "pn_id (voted x d) \<in> pn_id ` fst ` set xs" by auto
    from Cons.IH [OF this] show ?thesis by simp
  qed
qed simp

lemma finalise_pending:
  assumes "sw_pending s = Some ps" "finalise w s = (st, s')" "decisions_of w ps \<noteq> []"
  shows "\<exists>ps'. s' = s\<lparr>sw_pending := Some ps'\<rparr> \<and> ps_decisions ps' = ps_decisions ps"
    "st = walk_outcome (map pn_approved (decisions_of w ps))"
proof -
  have "mset (map pn_approved (filter (\<lambda>d. pn_walk d = w) (ps_decisions ps))) = mset (map pn_approved (decisions_of w ps))"
    by (simp add: decisions_of_def)
  then have same: "walk_outcome (map pn_approved (filter (\<lambda>d. pn_walk d = w) (ps_decisions ps))) = walk_outcome (map pn_approved (decisions_of w ps))"
    unfolding walk_outcome_def by (metis (no_types, lifting) mset_filter size_mset)
  have "filter (\<lambda>d. pn_walk d = w) (ps_decisions ps) \<noteq> []" using assms(3) by (metis decisions_of_def sort_key_simps(1))
  with assms(1,2) same show "\<exists>ps'. s' = s\<lparr>sw_pending := Some ps'\<rparr> \<and> ps_decisions ps' = ps_decisions ps"
    "st = walk_outcome (map pn_approved (decisions_of w ps))"
    by (auto simp: finalise_def finalise_walk_def Let_def split: if_splits)
qed

text \<open>An approval decides each chosen open decision of the walk exactly once: it is approved with its
  job when the row could be enqueued and turned down otherwise, decisions made before or not chosen
  stay as they are, and the status of the walk is the outcome of all its votes. The queue only grows
  by new jobs for stored rows, so approving again finds nothing open and enqueues nothing.\<close>

theorem approval_decides_once:
  assumes "sw_pending s = Some ps" "get_walk w ps = Some (row, ds)" "ds \<noteq> []" "distinct (map pn_id ds)"
    and "sw_queue s = Some q" "queue_wf q" "ids_free env (sw_next s) q"
    and "approve_pending env w ids s = (Decided rs st, s')"
  shows "\<exists>new ps'. sw_queue s' = Some (q @ new) \<and> queue_wf (q @ new) \<and> sw_pending s' = Some ps'
    \<and> list_all (\<lambda>j. is_pending j \<and> on_disk env (pj_path j) \<and> pj_path j \<notin> active_paths q) new
    \<and> length rs = length (filter (chosen ids) ds)
    \<and> decisions_of w ps' = map (fold voted (zip (filter (chosen ids) ds) rs)) ds
    \<and> list_all (\<lambda>(d, d'). if chosen ids d then pn_approved d' \<noteq> None else d' = d) (zip ds (decisions_of w ps'))
    \<and> st = walk_outcome (map pn_approved (decisions_of w ps'))
    \<and> filter (chosen ids) (decisions_of w ps') = []"
proof -
  define todo where "todo = filter (chosen ids) ds"
  obtain rs0 s1 where e: "enqueue_all (enqueue_from_item env) (map pn_item todo) s = (rs0, s1)"
    by (cases "enqueue_all (enqueue_from_item env) (map pn_item todo) s")
  from stored_rows.batch [OF e assms(5-7)] obtain new m where
    b: "s1 = s\<lparr>sw_queue := Some (q @ new), sw_next := m\<rparr>" "queue_wf (q @ new)"
      "stored_rows.fresh_jobs env (map pn_item todo) q new" "length rs0 = length todo" by auto
  define ps1 where "ps1 = fold mark_result (zip todo rs0) ps"
  have ds: "ds = decisions_of w ps" using assms(2) by (auto simp: get_walk_def)
  have d1: "decisions_of w ps1 = map (fold voted (zip todo rs0)) ds" by (simp add: ps1_def decisions_marks ds)
  have pend: "sw_pending (on_pending (fold mark_result (zip todo rs0)) s1) = Some ps1" using b(1) assms(1) by (simp add: ps1_def)
  obtain st0 s2 where fin: "finalise w (on_pending (fold mark_result (zip todo rs0)) s1) = (st0, s2)" by (cases "finalise w (on_pending (fold mark_result (zip todo rs0)) s1)")
  have res: "rs0 = rs" "st0 = st" "s2 = s'"
    using assms(8) fin by (simp_all add: approve_pending_def assms(1,2) approve_batch e todo_def [symmetric])
  have "decisions_of w ps1 \<noteq> []" using assms(3) by (simp add: d1)
  from finalise_pending [OF pend fin this] obtain ps' where
    ps': "s' = (on_pending (fold mark_result (zip todo rs0)) s1)\<lparr>sw_pending := Some ps'\<rparr>" "ps_decisions ps' = ps_decisions ps1"
    "st = walk_outcome (map pn_approved (decisions_of w ps1))" using res by auto
  have d2: "decisions_of w ps' = map (fold voted (zip todo rs)) ds" using d1 ps'(2) res by (simp add: decisions_of_def)
  have ids: "set (map fst (zip todo rs)) = set todo" using b(4) res by (simp add: map_fst_zip)
  have vote: "if chosen ids d then pn_approved (fold voted (zip todo rs) d) \<noteq> None else fold voted (zip todo rs) d = d"
    if "d \<in> set ds" for d
  proof (cases "chosen ids d")
    case True
    then have "pn_id d \<in> pn_id ` fst ` set (zip todo rs)" using that ids by (auto simp: todo_def)
    with True fold_voted_in show ?thesis by simp
  next
    case False
    have "pn_id d \<notin> pn_id ` set todo"
      using False that assms(4) by (auto simp: todo_def distinct_map inj_on_def)
    with False fold_voted_other ids show ?thesis by simp
  qed
  have "\<not> chosen ids (fold voted (zip todo rs) d)" if "d \<in> set ds" for d
    using vote [OF that] by (cases "chosen ids d") (auto simp: chosen_def)
  then have none: "filter (chosen ids) (decisions_of w ps') = []"
    by (auto simp: d2 filter_empty_conv)
  have "list_all (\<lambda>(d, d'). if chosen ids d then pn_approved d' \<noteq> None else d' = d) (zip ds (decisions_of w ps'))"
    unfolding d2 zip_map2 zip_same_conv_map list_all_iff using vote by (simp del: not_None_eq)
  moreover have "st = walk_outcome (map pn_approved (decisions_of w ps'))" using ps'(2,3) by (simp add: decisions_of_def)
  moreover have "sw_queue s' = Some (q @ new)" "sw_pending s' = Some ps'" by (simp_all add: ps'(1) b(1))
  moreover have "list_all (\<lambda>j. is_pending j \<and> on_disk env (pj_path j) \<and> pj_path j \<notin> active_paths q) new"
    using b(3) by (auto simp: stored_rows.fresh_jobs_def list_all_iff)
  ultimately show ?thesis using b(2,4) res d2 none by (auto simp: todo_def)
qed

theorem approval_decides_once_witness:
  "\<exists>rs st s'. approve_pending small_env ''w'' [] night_scheduler = (Decided rs st, s') \<and> length rs = 1
     \<and> (\<exists>ps'. sw_pending s' = Some ps' \<and> filter (chosen []) (decisions_of ''w'' ps') = [])"
proof -
  define ps where "ps = create_walk ''w'' 500 1 [decision_view a_decision] \<lparr>ps_walks = [], ps_decisions = [], ps_seq = 0\<rparr>"
  have pend: "sw_pending night_scheduler = Some ps" by (simp add: night_scheduler_def ps_def)
  define d where "d = \<lparr>pn_id = 1, pn_walk = ''w'', pn_item = decision_view a_decision, pn_approved = None, pn_scan = None\<rparr>"
  obtain row where walk: "get_walk ''w'' ps = Some (row, [d])"
    by (simp add: ps_def get_walk_def create_walk_def expire_old_def Let_def decisions_of_def d_def)
  have "fst (approve_pending small_env ''w'' [] night_scheduler) \<noteq> No_store \<and> fst (approve_pending small_env ''w'' [] night_scheduler) \<noteq> Walk_not_found"
    by (simp add: approve_pending_def pend walk split: prod.split)
  then obtain rs st s' where r: "approve_pending small_env ''w'' [] night_scheduler = (Decided rs st, s')"
    by (cases "approve_pending small_env ''w'' [] night_scheduler"; cases "fst (approve_pending small_env ''w'' [] night_scheduler)") auto
  have free: "ids_free small_env (sw_next night_scheduler) []" using night_ids by (simp add: night_fields)
  have "filter (chosen []) [d] = [d]" by (simp add: chosen_def d_def)
  with approval_decides_once [OF pend walk _ _ night_fields(1) night_wf free r] show ?thesis using r by auto
qed

text \<open>The automatic walk asks for the file of a row; the decision stored for approval only keeps the folder,
  so an approval enqueues the folder of the series.\<close>

lemma approval_targets_the_folder:
  assumes "truthy_str (it_file (dc_item d))" "truthy_str (it_path (dc_item d))"
  shows "decision_target env d = it_file (dc_item d)" "item_target env (decision_view d) = it_path (dc_item d)"
  using assms by (simp_all add: decision_target_def item_target_def row_target_def decision_view_def Let_def split: prod.split)

end
