(* ===== verification/SettingsApi.thy ===== *)
theory SettingsApi
  imports Config
begin

text \<open>
  The library and instance settings of the web interface (\<open>src/src/subarr/routers/libraries.py\<close>,
  \<open>src/src/subarr/routers/instances.py\<close>): replacing the list of libraries, and adding, editing and deleting a
  service instance, each with its HTTP status codes, its write to the store of overrides and its effect on the
  running configuration; and how the instance requests wait for each other. A response is an HTTP error code or
  a body.
\<close>

type_synonym 'a response = "nat + 'a"

section \<open>Libraries\<close>

record library_in =
  li_slug :: "string option"
  li_name :: string
  li_fs_root :: string
  li_subgen_prefix :: "string option"
  li_arr_prefix :: string
  li_sonarr_id :: "string option"
  li_radarr_id :: "string option"
  li_bazarr_id :: "string option"

definition binding_field :: "string \<Rightarrow> string option \<Rightarrow> (string \<times> json) list" where
  "binding_field f v = (if strip (or_empty v) = [] then [] else [(f, JStr (strip (or_empty v)))])"

definition library_entry :: "library_in \<Rightarrow> json" where
  "library_entry i = JObj
     ([(''slug'', JStr (or_str (strip (or_empty (li_slug i))) (slugify (li_name i)))),
       (''name'', JStr (li_name i)),
       (''fs_root'', JStr (li_fs_root i)),
       (''arr_prefix'', JStr (li_arr_prefix i))]
      @ (if truthy_str (li_subgen_prefix i) then [(''subgen_prefix'', JStr (or_empty (li_subgen_prefix i)))] else [])
      @ binding_field ''sonarr_id'' (li_sonarr_id i) @ binding_field ''radarr_id'' (li_radarr_id i)
      @ binding_field ''bazarr_id'' (li_bazarr_id i))"

text \<open>A store that cannot be read fails the save, and the request with 500.\<close>

definition put_libraries ::
    "(json \<Rightarrow> string) \<Rightarrow> disk_faults \<Rightarrow> library_in list \<Rightarrow> config \<times> config_disk \<Rightarrow> library list response \<times> config \<times> config_disk" where
  "put_libraries repr df ins cd =
     (case cd of (c, d) \<Rightarrow>
        let extras = map library_entry ins in
        case build_libraries (hd (cf_libraries c)) (map (raw_of_json repr) extras) of
          Inl _ \<Rightarrow> (Inl 422, c, d)
        | Inr libs \<Rightarrow>
            (case save_override df ''libraries'' (JList extras) d of
               (False, d') \<Rightarrow> (Inl 500, c, d')
             | (True, d') \<Rightarrow> (Inr libs, c\<lparr>cf_libraries := libs\<rparr>, d')))"

section \<open>Instances\<close>

text \<open>What is shown of an instance: never its key.\<close>

record instance_view =
  iv_id :: string
  iv_service :: string
  iv_name :: string
  iv_url :: string
  iv_is_default :: bool
  iv_has_api_key :: bool

definition serialize_instance :: "instance_cfg \<Rightarrow> instance_view" where
  "serialize_instance i =
     \<lparr>iv_id = inst_id i, iv_service = inst_service i, iv_name = inst_name i, iv_url = inst_url i,
      iv_is_default = (inst_id i = []), iv_has_api_key = (inst_api_key i \<noteq> [])\<rparr>"

definition arr_services :: "string list" where "arr_services = [''sonarr'', ''radarr'', ''bazarr'']"

definition stored_instances :: "(string \<times> json) list \<Rightarrow> (string \<times> json) list" where
  "stored_instances kvs = (case map_of kvs ''instances'' of Some (JObj o_kvs) \<Rightarrow> o_kvs | _ \<Rightarrow> [])"

definition extras_of_store :: "disk_faults \<Rightarrow> config_disk \<Rightarrow> (string \<times> json) list \<times> config_disk" where
  "extras_of_store df d = (case load_overrides df d of (kvs, d') \<Rightarrow> (stored_instances kvs, d'))"

text \<open>\<open>list(extras.get(service, []))\<close>; \<open>None\<close> is the exception for a value that cannot be iterated.\<close>

definition service_entries :: "string \<Rightarrow> (string \<times> json) list \<Rightarrow> json list option" where
  "service_entries svc extras =
     (case map_of extras svc of
        None \<Rightarrow> Some []
      | Some (JList xs) \<Rightarrow> Some xs
      | Some (JObj kvs) \<Rightarrow> Some (map (\<lambda>kv. JStr (fst kv)) kvs)
      | Some (JStr s) \<Rightarrow> Some (map (\<lambda>ch. JStr [ch]) s)
      | Some _ \<Rightarrow> None)"

text \<open>\<open>slugify(i.get("name", ""))\<close>: a null reads as the empty name, another value that is true and no string raises.\<close>

definition name_slug :: "(string \<times> json) list \<Rightarrow> string option" where
  "name_slug e =
     (case jget ''name'' e of JStr s \<Rightarrow> Some (slugify s) | v \<Rightarrow> if truthy v then None else Some (slugify []))"

fun id_taken :: "string \<Rightarrow> json list \<Rightarrow> bool option" where
  "id_taken new [] = Some False"
| "id_taken new (JObj e # es) =
     (case name_slug e of
        None \<Rightarrow> None
      | Some s \<Rightarrow> if s = new \<or> jget ''slug'' e = JStr new then Some True else id_taken new es)"
| "id_taken new (v # es) = None"

definition entry_matches :: "string \<Rightarrow> json \<Rightarrow> bool option" where
  "entry_matches iid v =
     (case v of
        JObj e \<Rightarrow>
          if truthy (jget ''slug'' e) then Some (jget ''slug'' e = JStr iid)
          else map_option (\<lambda>s. s = iid) (name_slug e)
      | _ \<Rightarrow> None)"

text \<open>The index of the first match, if any; the outer \<open>None\<close> is an exception.\<close>

fun find_entry :: "string \<Rightarrow> nat \<Rightarrow> json list \<Rightarrow> nat option option" where
  "find_entry iid n [] = Some None"
| "find_entry iid n (v # vs) =
     (case entry_matches iid v of
        None \<Rightarrow> None
      | Some True \<Rightarrow> Some (Some n)
      | Some False \<Rightarrow> find_entry iid (Suc n) vs)"

fun drop_entries :: "string \<Rightarrow> json list \<Rightarrow> json list option" where
  "drop_entries iid [] = Some []"
| "drop_entries iid (v # vs) =
     (case entry_matches iid v of
        None \<Rightarrow> None
      | Some b \<Rightarrow> map_option (\<lambda>rest. if b then rest else v # rest) (drop_entries iid vs))"

record instance_in =
  ii_name :: string
  ii_url :: string
  ii_api_key :: string

definition instance_entry :: "instance_in \<Rightarrow> json \<Rightarrow> string \<Rightarrow> json" where
  "instance_entry i key iid =
     JObj [(''name'', JStr (ii_name i)), (''url'', JStr (ii_url i)), (''api_key'', key), (''slug'', JStr iid)]"

text \<open>The part of each request before the lock: the new extras, with the id it is about.\<close>

datatype instance_request =
    Add_instance string instance_in
  | Edit_instance string string instance_in
  | Remove_instance string string

definition old_key :: "json \<Rightarrow> json" where
  "old_key v = (case v of JObj e \<Rightarrow> (case map_of e ''api_key'' of Some k \<Rightarrow> k | None \<Rightarrow> JStr []) | _ \<Rightarrow> JStr [])"

definition plan_request :: "instance_request \<Rightarrow> (string \<times> json) list \<Rightarrow> (string \<times> string \<times> (string \<times> json) list) response" where
  "plan_request rq extras =
     (case rq of
        Add_instance svc i \<Rightarrow>
          (if svc \<notin> set arr_services then Inl 422
           else if ii_name i = [] \<or> ii_url i = [] \<or> ii_api_key i = [] then Inl 422
           else (case service_entries svc extras of
               None \<Rightarrow> Inl 500
             | Some es \<Rightarrow>
                 (case id_taken (slugify (ii_name i)) es of
                    None \<Rightarrow> Inl 500
                  | Some True \<Rightarrow> Inl 409
                  | Some False \<Rightarrow>
                      Inr (svc, slugify (ii_name i),
                        AList.update svc (JList (es @ [instance_entry i (JStr (ii_api_key i)) (slugify (ii_name i))])) extras))))
      | Edit_instance svc iid i \<Rightarrow>
          (if svc \<notin> set arr_services then Inl 422
           else if strip iid = [] then Inl 400
           else (case service_entries svc extras of
               None \<Rightarrow> Inl 500
             | Some es \<Rightarrow>
                 (case find_entry iid 0 es of
                    None \<Rightarrow> Inl 500
                  | Some None \<Rightarrow> Inl 404
                  | Some (Some n) \<Rightarrow>
                      Inr (svc, iid,
                        AList.update svc (JList (es[n := instance_entry i
                          (if ii_api_key i \<noteq> [] then JStr (ii_api_key i) else old_key (es ! n)) iid])) extras))))
      | Remove_instance svc iid \<Rightarrow>
          (if svc \<notin> set arr_services then Inl 422
           else if strip iid = [] then Inl 400
           else (case service_entries svc extras of
               None \<Rightarrow> Inl 500
             | Some es \<Rightarrow>
                 (case drop_entries iid es of
                    None \<Rightarrow> Inl 500
                  | Some es' \<Rightarrow>
                      if length es' = length es then Inl 404 else Inr (svc, iid, AList.update svc (JList es') extras)))))"

text \<open>The part under the lock.\<close>

definition apply_instances ::
    "(json \<Rightarrow> string) \<Rightarrow> disk_faults \<Rightarrow> disk_faults \<Rightarrow> (string \<times> json) list \<Rightarrow> config \<times> config_disk \<Rightarrow> unit response \<times> config \<times> config_disk" where
  "apply_instances repr dfs dfb extras cd =
     (case cd of (c, d) \<Rightarrow>
        case build_instances (default_instances (cf_settings c)) (map (\<lambda>(k, v). (k, raw_of_json repr v)) extras) of
          Inl _ \<Rightarrow> (Inl 422, c, d)
        | Inr _ \<Rightarrow>
            (case save_override dfs ''instances'' (JObj extras) d of
               (False, d') \<Rightarrow> (Inl 500, c, d')
             | (True, d') \<Rightarrow> (Inr (), rebuild_instances repr dfb c d')))"

definition find_instance :: "string \<Rightarrow> string \<Rightarrow> config \<Rightarrow> instance_cfg option" where
  "find_instance svc iid c = List.find (\<lambda>i. inst_service i = svc \<and> inst_id i = iid) (cf_instances c)"

text \<open>The body: the instance as it is now, or for a removal the warnings. An instance that is not found after the
  change raises.\<close>

datatype instance_body = Shown instance_view | Removed "(string \<times> string \<times> string) list"

definition answer :: "instance_request \<Rightarrow> string \<Rightarrow> string \<Rightarrow> config \<Rightarrow> instance_body response" where
  "answer rq svc iid c =
     (case rq of
        Remove_instance _ _ \<Rightarrow> Inr (Removed (validate_library_bindings (cf_libraries c) (cf_instances c)))
      | _ \<Rightarrow> (case find_instance svc iid c of None \<Rightarrow> Inl 500 | Some i \<Rightarrow> Inr (Shown (serialize_instance i))))"

definition serve_request ::
    "(json \<Rightarrow> string) \<Rightarrow> disk_faults \<Rightarrow> disk_faults \<Rightarrow> disk_faults \<Rightarrow> instance_request \<Rightarrow> config \<times> config_disk
      \<Rightarrow> instance_body response \<times> config \<times> config_disk" where
  "serve_request repr dfr dfs dfb rq cd =
     (case cd of (c, d) \<Rightarrow>
        (case extras_of_store dfr d of (extras, d1) \<Rightarrow>
           (case plan_request rq extras of
              Inl n \<Rightarrow> (Inl n, c, d1)
            | Inr (svc, iid, extras') \<Rightarrow>
                (case apply_instances repr dfs dfb extras' (c, d1) of
                   (Inl n, cd') \<Rightarrow> (Inl n, cd')
                 | (Inr _, (c', d')) \<Rightarrow> (answer rq svc iid c', c', d')))))"

section \<open>Libraries: what is saved is what is loaded\<close>

lemma save_reads_back:
  "save_override df k v d = (True, d') \<Longrightarrow> \<not> df_read df' \<Longrightarrow>
     \<exists>kvs. load_overrides_result df' d' = ((kvs, True), d') \<and> map_of kvs k = Some v"
  by (cases "cd_file d")
     (auto simp: save_override_def read_result_def load_overrides_result_def update_conv' split: prod.splits if_splits)

lemma save_fails_unchanged: "save_override df k v d = (False, d') \<Longrightarrow> d' = d"
  by (cases "cd_file d") (auto simp: save_override_def read_result_def split: prod.splits if_splits)

text \<open>Libraries and instances are kept the same way: a value under a key of the store is checked, saved and adopted, and a
  rebuild reads it back. What was saved and adopted is then what every later rebuild yields.\<close>

locale durable_setting =
  fixes key :: string
    and accepted :: "config \<Rightarrow> json \<Rightarrow> 'v option"
    and adopt :: "'v \<Rightarrow> config \<Rightarrow> config"
    and rebuild :: "disk_faults \<Rightarrow> config \<Rightarrow> config_disk \<Rightarrow> config \<times> config_disk"
  assumes rebuild_reads: "load_overrides_result df d = ((kvs, True), d) \<Longrightarrow> map_of kvs key = Some j \<Longrightarrow> accepted c j = Some v
      \<Longrightarrow> rebuild df c d = (adopt v c, d)"
    and accepted_adopt: "accepted (adopt v c) j = accepted c j"
    and adopt_again: "adopt v (adopt v c) = adopt v c"
begin

lemma saved_is_rebuilt:
  assumes "save_override df key j d = (True, d')" and "accepted c j = Some v" and "\<not> df_read df'"
  shows "rebuild df' (adopt v c) d' = (adopt v c, d')"
proof -
  obtain kvs where k: "load_overrides_result df' d' = ((kvs, True), d')" "map_of kvs key = Some j"
    using save_reads_back [OF assms(1,3)] by blast
  show ?thesis using rebuild_reads [OF k] assms(2) by (simp add: accepted_adopt adopt_again)
qed

end

definition accepted_libraries :: "(json \<Rightarrow> string) \<Rightarrow> config \<Rightarrow> json \<Rightarrow> library list option" where
  "accepted_libraries repr c j =
     (case j of
        JList xs \<Rightarrow>
          (case build_libraries (library_zero (cf_settings c)) (map (raw_of_json repr) xs) of Inl _ \<Rightarrow> None | Inr libs \<Rightarrow> Some libs)
      | _ \<Rightarrow> None)"

definition accepted_instances :: "(json \<Rightarrow> string) \<Rightarrow> config \<Rightarrow> json \<Rightarrow> instance_cfg list option" where
  "accepted_instances repr c j =
     (case j of
        JObj kvs \<Rightarrow>
          (case build_instances (default_instances (cf_settings c)) (map (\<lambda>(k, v). (k, raw_of_json repr v)) kvs) of
             Inl _ \<Rightarrow> None | Inr insts \<Rightarrow> Some insts)
      | _ \<Rightarrow> None)"

interpretation kept_libraries: durable_setting "''libraries''" "accepted_libraries repr" "\<lambda>libs c. c\<lparr>cf_libraries := libs\<rparr>"
    "rebuild_libraries repr" for repr
  by unfold_locales
     (auto simp: accepted_libraries_def rebuild_libraries_def library_extras_def Let_def split: json.splits sum.splits)

interpretation kept_instances: durable_setting "''instances''" "accepted_instances repr" "\<lambda>insts c. c\<lparr>cf_instances := insts\<rparr>"
    "rebuild_instances repr" for repr
  by unfold_locales
     (auto simp: accepted_instances_def rebuild_instances_def load_overrides_def instance_extras_def Let_def
        split: json.splits sum.splits)

text \<open>C26. A list of libraries that is accepted has one library per entry behind the default one, with distinct slugs and
  arr prefixes; it is what the program runs with, and every later rebuild from the store, a restart included, yields the
  same list. A request that is refused, or whose save fails, changes neither the configuration nor the store.\<close>

theorem saved_libraries_reload:
  assumes "put_libraries repr df ins (c, d) = (resp, c', d')"
    and "hd (cf_libraries c) = library_zero (cf_settings c)" and "\<not> df_read df'"
  shows "case resp of
      Inl n \<Rightarrow> c' = c \<and> d' = d
    | Inr libs \<Rightarrow> libraries_ok libs \<and> length libs = 1 + length ins \<and> cf_libraries c' = libs
        \<and> rebuild_libraries repr df' c' d' = (c', d')"
proof -
  define extras where "extras = map library_entry ins"
  show ?thesis
  proof (cases "build_libraries (hd (cf_libraries c)) (map (raw_of_json repr) extras)")
    case (Inl e)
    then show ?thesis using assms(1) by (auto simp: put_libraries_def Let_def simp flip: extras_def)
  next
    case (Inr libs)
    obtain ok d1 where s: "save_override df ''libraries'' (JList extras) d = (ok, d1)" by fastforce
    show ?thesis
    proof (cases ok)
      case True
      then have r: "resp = Inr libs" "c' = c\<lparr>cf_libraries := libs\<rparr>" "d' = d1"
        using assms(1) Inr s by (auto simp: put_libraries_def Let_def simp flip: extras_def)
      have "accepted_libraries repr c (JList extras) = Some libs" using Inr assms(2) by (simp add: accepted_libraries_def)
      then have "rebuild_libraries repr df' (c\<lparr>cf_libraries := libs\<rparr>) d1 = (c\<lparr>cf_libraries := libs\<rparr>, d1)"
        using kept_libraries.saved_is_rebuilt [of df "JList extras" d d1 repr c libs df'] s True assms(3) by simp
      moreover have "length libs = 1 + length ins" "libraries_ok libs"
        using build_libraries_ok [OF Inr] by (simp_all add: extras_def)
      ultimately show ?thesis by (simp add: r)
    next
      case False
      then show ?thesis
        using assms(1) Inr s save_fails_unchanged [of df "''libraries''" "JList extras" d d1]
        by (auto simp: put_libraries_def Let_def simp flip: extras_def)
    qed
  qed
qed

definition demo_config :: config where
  "demo_config = (let s = [(''media_root'', Text ''/m''), (''subgen_media_prefix'', Text ''/media''), (''arr_path_prefix'', Text ''/tv'')] in
     \<lparr>cf_settings = s, cf_libraries = [library_zero s], cf_instances = default_instances s\<rparr>)"

definition demo_library :: library_in where
  "demo_library = \<lparr>li_slug = None, li_name = ''4K Films'', li_fs_root = ''/m4k'', li_subgen_prefix = None,
     li_arr_prefix = ''/films4k/'', li_sonarr_id = None, li_radarr_id = Some ''uhd'', li_bazarr_id = None\<rparr>"

theorem saved_libraries_reload_witness:
  "\<exists>libs c' d'. put_libraries (\<lambda>_. []) demo_faults [demo_library] (demo_config, demo_disk) = (Inr libs, c', d')
     \<and> libraries_ok libs \<and> length libs = 2 \<and> rebuild_libraries (\<lambda>_. []) demo_faults c' d' = (c', d')"
proof -
  have "case build_libraries (hd (cf_libraries demo_config)) (map (raw_of_json (\<lambda>_. [])) (map library_entry [demo_library])) of
      Inl _ \<Rightarrow> False | Inr _ \<Rightarrow> True"
    by code_simp
  then obtain libs where "build_libraries (hd (cf_libraries demo_config)) (map (raw_of_json (\<lambda>_. [])) (map library_entry [demo_library])) = Inr libs"
    by (auto split: sum.splits)
  moreover obtain d' where "save_override demo_faults ''libraries'' (JList (map library_entry [demo_library])) demo_disk = (True, d')"
    by (simp add: save_override_def read_result_def demo_faults_def demo_disk_def)
  ultimately have p: "put_libraries (\<lambda>_. []) demo_faults [demo_library] (demo_config, demo_disk)
      = (Inr libs, demo_config\<lparr>cf_libraries := libs\<rparr>, d')"
    by (simp add: put_libraries_def Let_def)
  have "hd (cf_libraries demo_config) = library_zero (cf_settings demo_config)"
    by (simp add: demo_config_def Let_def)
  from saved_libraries_reload [OF p this, of demo_faults] p show ?thesis by (auto simp: demo_faults_def)
qed


section \<open>Instances: what a request does\<close>

lemma slugify_strip: "slugify (strip s) = slugify s"
  by (simp add: slugify_def strip_def strip_of_strip_of)

lemma strip_slugify: "strip (slugify s) = slugify s"
proof (rule strip_no_space)
  have "\<not> py_space (CHR ''-'')" by code_simp
  moreover have "\<not> py_space c" if "slug_char c" for c
    using that by (auto simp: slug_char_def py_space_def Let_def)
  ultimately show "\<forall>c \<in> set (slugify s). \<not> py_space c" using slugify_chars by blast
qed

lemma service_instances_has:
  "service_instances svc i rs seen = Inr out \<Longrightarrow> RObj e \<in> set rs \<Longrightarrow>
     \<lparr>inst_id = or_str (raw_field e ''slug'') (slugify (raw_field e ''name'')), inst_service = svc,
      inst_name = raw_field e ''name'', inst_url = raw_field e ''url'', inst_api_key = raw_field e ''api_key''\<rparr> \<in> set out"
proof (induction svc i rs seen arbitrary: out rule: service_instances.induct)
  case (2 svc i r rs seen)
  then obtain o_kvs where r: "r = RObj o_kvs" by (auto split: raw.splits)
  from "2.prems"(1) r obtain rest where
    rec: "service_instances svc (i + 1) rs (or_str (raw_field o_kvs ''slug'') (slugify (raw_field o_kvs ''name'')) # seen) = Inr rest"
    and out: "out = \<lparr>inst_id = or_str (raw_field o_kvs ''slug'') (slugify (raw_field o_kvs ''name'')), inst_service = svc,
        inst_name = raw_field o_kvs ''name'', inst_url = raw_field o_kvs ''url'', inst_api_key = raw_field o_kvs ''api_key''\<rparr> # rest"
    and ne: "or_str (raw_field o_kvs ''slug'') (slugify (raw_field o_kvs ''name'')) \<noteq> []" "raw_field o_kvs ''name'' \<noteq> []"
      "raw_field o_kvs ''url'' \<noteq> []" "raw_field o_kvs ''api_key'' \<noteq> []"
      "or_str (raw_field o_kvs ''slug'') (slugify (raw_field o_kvs ''name'')) \<notin> set seen"
    by (auto simp: Let_def split: if_splits sum.splits)
  show ?case
  proof (cases "r = RObj e")
    case True
    then show ?thesis using r out by simp
  next
    case False
    then have "RObj e \<in> set rs" using "2.prems"(2) by auto
    then show ?thesis using "2.IH" [OF r refl refl refl refl] ne rec by (simp add: out)
  qed
qed simp

lemma all_service_instances_has:
  "all_service_instances extras svcs = Inr out \<Longrightarrow> svc \<in> set svcs \<Longrightarrow> map_of extras svc = Some (RList rs) \<Longrightarrow>
     \<exists>a. service_instances svc 0 rs [[]] = Inr a \<and> set a \<subseteq> set out"
proof (induction extras svcs arbitrary: out rule: all_service_instances.induct)
  case (2 extras s svcs)
  from "2.prems"(1) obtain raws a b where
    raws: "(case map_of extras s of None \<Rightarrow> RList [] | Some r \<Rightarrow> r) = RList raws"
    and a: "service_instances s 0 raws [[]] = Inr a"
    and b: "all_service_instances extras svcs = Inr b" and out: "out = a @ b"
    by (auto split: raw.splits sum.splits)
  show ?case
  proof (cases "svc = s")
    case True
    then show ?thesis using raws a "2.prems"(3) by (auto simp: out)
  next
    case False
    then show ?thesis using "2.IH" [OF raws a b] "2.prems"(2,3) by (fastforce simp: out)
  qed
qed simp

lemma find_instance_unique:
  assumes "distinct (instance_ids svc (cf_instances c))" and "x \<in> set (cf_instances c)" and "inst_service x = svc"
  shows "find_instance svc (inst_id x) c = Some x"
proof -
  have "find_instance svc (inst_id x) c \<noteq> None"
    using assms(2,3) by (auto simp: find_instance_def find_None_iff)
  then obtain y where y: "find_instance svc (inst_id x) c = Some y" by blast
  then have "y \<in> set (cf_instances c)" "inst_service y = svc" "inst_id y = inst_id x"
    by (auto simp: find_instance_def find_Some_iff)
  then have "y = x"
    using assms by (auto simp: instance_ids_def distinct_map inj_on_def)
  then show ?thesis using y by simp
qed

lemma map_of_raw: "map_of (map (\<lambda>(k, v). (k, raw_of_json repr v)) kvs) k = map_option (raw_of_json repr) (map_of kvs k)"
  by (induction kvs) auto

text \<open>The ids of each service are distinct in a list of instances that was accepted.\<close>

definition instances_ok :: "instance_cfg list \<Rightarrow> bool" where
  "instances_ok insts \<longleftrightarrow> (\<forall>svc. distinct (instance_ids svc insts))
     \<and> (\<forall>x \<in> set insts. inst_id x \<noteq> [] \<longrightarrow> inst_service x \<in> set multi_instance_services)"

lemma build_instances_ok:
  assumes "build_instances (default_instances s) extras = Inr insts"
  shows "instances_ok insts"
proof -
  from assms obtain out where o: "all_service_instances extras multi_instance_services = Inr out"
    and i: "insts = default_instances s @ out"
    by (auto simp: build_instances_def default_instances_def default_instance_def split: sum.splits)
  have d: "distinct multi_instance_services" by code_simp
  from all_service_instances_ok [OF o d]
  have A: "\<forall>x \<in> set out. inst_service x \<in> set multi_instance_services \<and> inst_id x \<noteq> []"
    "\<And>svc. distinct (instance_ids svc out)" by auto
  have "distinct (instance_ids svc insts)" for svc
  proof -
    have "instance_ids svc (default_instances s) = (if svc \<in> {''sonarr'', ''radarr'', ''bazarr''} then [[]] else [])"
      by (auto simp: instance_ids_def default_instances_def default_instance_def)
    moreover have "[] \<notin> set (instance_ids svc out)" using A(1) by (auto simp: instance_ids_def)
    ultimately show ?thesis using A(2) by (simp add: i instance_ids_def)
  qed
  moreover have "\<forall>x \<in> set (default_instances s). inst_id x = []"
    by (simp add: default_instances_def default_instance_def)
  ultimately show ?thesis using A(1) by (auto simp: instances_ok_def i)
qed


text \<open>The stored instances.\<close>

definition stored_of :: "config_disk \<Rightarrow> (string \<times> json) list" where
  "stored_of d = (case kept d ''instances'' of Some (JObj o_kvs) \<Rightarrow> o_kvs | _ \<Rightarrow> [])"

lemma good_read:
  assumes "\<not> df_read df"
  shows "extras_of_store df d = (stored_of d, snd (read_result df d))" and "kept (snd (read_result df d)) = kept d"
  using assms by (cases "cd_file d"; simp add: extras_of_store_def load_overrides_def load_overrides_result_def
      read_result_def stored_of_def stored_instances_def kept_def preserve_corrupt_def)+

lemma apply_instances_cases:
  assumes "apply_instances repr dfs dfb extras (c, d) = (resp, c', d')" and "\<not> df_read dfb"
  obtains (refused) n where "resp = Inl n" "c' = c" "d' = d"
  | (saved) insts d1 where "resp = Inr ()" "save_override dfs ''instances'' (JObj extras) d = (True, d1)" "d' = d1"
      "build_instances (default_instances (cf_settings c)) (map (\<lambda>(k, v). (k, raw_of_json repr v)) extras) = Inr insts"
      "c' = c\<lparr>cf_instances := insts\<rparr>"
proof (cases "build_instances (default_instances (cf_settings c)) (map (\<lambda>(k, v). (k, raw_of_json repr v)) extras)")
  case (Inl e)
  then show ?thesis using assms(1) refused by (auto simp: apply_instances_def)
next
  case (Inr insts)
  obtain ok d1 where s: "save_override dfs ''instances'' (JObj extras) d = (ok, d1)" by fastforce
  show ?thesis
  proof (cases ok)
    case True
    have "rebuild_instances repr dfb c d1 = (c\<lparr>cf_instances := insts\<rparr>, d1)"
      using save_reads_back [OF _ assms(2), of dfs "''instances''" "JObj extras" d d1] s True Inr
      by (auto intro: kept_instances.rebuild_reads simp: accepted_instances_def)
    then show ?thesis using assms(1) Inr s True by (intro saved) (auto simp: apply_instances_def)
  next
    case False
    then show ?thesis
      using assms(1) Inr s save_fails_unchanged [of dfs "''instances''" "JObj extras" d d1]
      by (intro refused) (auto simp: apply_instances_def)
  qed
qed

lemma save_kept: "save_override df k v d = (True, d') \<Longrightarrow> kept d' = (kept d)(k \<mapsto> v)"
  by (cases "cd_file d") (auto simp: save_override_def read_result_def preserve_corrupt_def kept_def update_conv'
      split: prod.splits if_splits)

lemma served_cases:
  assumes "serve_request repr dfr dfs dfb rq (c, d) = (resp, c', d')" and "\<not> df_read dfr" and "\<not> df_read dfb"
  obtains (refused) n where "resp = Inl n" "c' = c" "kept d' = kept d"
  | (went) svc iid extras insts d1 where "plan_request rq (stored_of d) = Inr (svc, iid, extras)"
      "build_instances (default_instances (cf_settings c)) (map (\<lambda>(k, v). (k, raw_of_json repr v)) extras) = Inr insts"
      "save_override dfs ''instances'' (JObj extras) d1 = (True, d')" "kept d1 = kept d"
      "c' = c\<lparr>cf_instances := insts\<rparr>" "resp = answer rq svc iid c'"
proof (cases "plan_request rq (stored_of d)")
  case (Inl n)
  then show ?thesis using assms(1) good_read [OF assms(2), of d] by (intro refused) (auto simp: serve_request_def)
next
  case (Inr plan)
  obtain svc iid extras where p: "plan = (svc, iid, extras)" by (cases plan) auto
  define d1 where "d1 = snd (read_result dfr d)"
  obtain r c1 d2 where a: "apply_instances repr dfs dfb extras (c, d1) = (r, c1, d2)" by (metis prod_cases3)
  have g: "extras_of_store dfr d = (stored_of d, d1)" "kept d1 = kept d"
    using good_read [OF assms(2), of d] by (simp_all add: d1_def)
  from a assms(3) show ?thesis
  proof (cases rule: apply_instances_cases)
    case (refused n)
    then show ?thesis using assms(1) a Inr g by (intro that(1)) (auto simp: serve_request_def p)
  next
    case (saved insts d3)
    have "serve_request repr dfr dfs dfb rq (c, d) = (answer rq svc iid c1, c1, d3)"
      using saved(1,3) a Inr g by (simp add: serve_request_def p)
    then have R: "resp = answer rq svc iid c1" "c' = c1" "d' = d3" using assms(1) by simp_all
    show ?thesis
    proof (rule that(2) [of svc iid extras insts d1])
      show "plan_request rq (stored_of d) = Inr (svc, iid, extras)" using Inr p by simp
      show "build_instances (default_instances (cf_settings c)) (map (\<lambda>(k, v). (k, raw_of_json repr v)) extras) = Inr insts"
        by (rule saved(4))
      show "save_override dfs ''instances'' (JObj extras) d1 = (True, d')" using saved(2) R(3) by simp
      show "kept d1 = kept d" by (rule g(2))
      show "c' = c\<lparr>cf_instances := insts\<rparr>" unfolding R(2) by (rule saved(5))
      show "resp = answer rq svc iid c'" unfolding R(1,2) ..
    qed
  qed
qed



definition demo_instance :: instance_in where
  "demo_instance = \<lparr>ii_name = ''4K'', ii_url = ''http://k'', ii_api_key = ''key''\<rparr>"

lemma demo_request:
  "\<exists>c' d'. serve_request (\<lambda>_. []) demo_faults demo_faults demo_faults (Add_instance ''sonarr'' demo_instance) (demo_config, demo_disk)
     = (Inr (Shown \<lparr>iv_id = ''4k'', iv_service = ''sonarr'', iv_name = ''4K'', iv_url = ''http://k'', iv_is_default = False,
          iv_has_api_key = True\<rparr>), c', d')"
proof -
  have "fst (serve_request (\<lambda>_. []) demo_faults demo_faults demo_faults (Add_instance ''sonarr'' demo_instance) (demo_config, demo_disk))
     = Inr (Shown \<lparr>iv_id = ''4k'', iv_service = ''sonarr'', iv_name = ''4K'', iv_url = ''http://k'', iv_is_default = False,
          iv_has_api_key = True\<rparr>)"
    by code_simp
  then show ?thesis by (metis prod.collapse)
qed


text \<open>What an added instance is: its key stays out of the answer, the entries that were stored for its service are
  kept in front of the new one, and those of the other services are untouched.\<close>

lemma added_instance_is_served:
  assumes "serve_request repr dfr dfs dfb (Add_instance svc i) (c, d) = (Inr b, c', d')" and "\<not> df_read dfr" and "\<not> df_read dfb"
  shows "find_instance svc (slugify (ii_name i)) c' = Some \<lparr>inst_id = slugify (ii_name i), inst_service = svc,
          inst_name = strip (ii_name i), inst_url = strip (ii_url i), inst_api_key = strip (ii_api_key i)\<rparr>
    \<and> (\<exists>es. service_entries svc (stored_of d) = Some es
         \<and> service_entries svc (stored_of d') = Some (es @ [instance_entry i (JStr (ii_api_key i)) (slugify (ii_name i))]))
    \<and> (\<forall>s. s \<noteq> svc \<longrightarrow> map_of (stored_of d') s = map_of (stored_of d) s)"
  using assms
proof (cases rule: served_cases)
  case (went svc' iid extras insts d1)
  from went(1) obtain es where es: "service_entries svc (stored_of d) = Some es" and svc: "svc' = svc" "svc \<in> set arr_services"
    and iid: "iid = slugify (ii_name i)"
    and ex: "extras = AList.update svc (JList (es @ [instance_entry i (JStr (ii_api_key i)) iid])) (stored_of d)"
    by (auto simp: plan_request_def split: if_splits option.splits bool.splits)
  define e where "e = [(''name'', ii_name i), (''url'', ii_url i), (''api_key'', ii_api_key i), (''slug'', iid)]"
  have raw: "raw_of_json repr (instance_entry i (JStr (ii_api_key i)) iid) = RObj e"
    by (simp add: instance_entry_def e_def)
  from went(2) obtain out where o: "all_service_instances (map (\<lambda>(k, v). (k, raw_of_json repr v)) extras) multi_instance_services = Inr out"
    and insts: "insts = map (\<lambda>x. x\<lparr>inst_id := []\<rparr>) (default_instances (cf_settings c)) @ out"
    by (auto simp: build_instances_def split: sum.splits)
  have m: "map_of (map (\<lambda>(k, v). (k, raw_of_json repr v)) extras) svc = Some (RList (map (raw_of_json repr) es @ [RObj e]))"
    by (simp add: map_of_raw ex update_conv' raw)
  have "svc \<in> set multi_instance_services" using svc(2) by (simp add: arr_services_def multi_instance_services_def)
  from all_service_instances_has [OF o this m] obtain a
    where a: "service_instances svc 0 (map (raw_of_json repr) es @ [RObj e]) [[]] = Inr a" "set a \<subseteq> set out" by blast
  have f: "raw_field e ''name'' = strip (ii_name i)" "raw_field e ''url'' = strip (ii_url i)"
    "raw_field e ''api_key'' = strip (ii_api_key i)" "raw_field e ''slug'' = iid"
    by (simp_all add: raw_field_def e_def or_empty_def iid strip_slugify)
  have id: "or_str (raw_field e ''slug'') (slugify (raw_field e ''name'')) = iid"
    by (simp add: f or_str_def slugify_strip iid)
  define x where "x = \<lparr>inst_id = iid, inst_service = svc, inst_name = strip (ii_name i), inst_url = strip (ii_url i),
      inst_api_key = strip (ii_api_key i)\<rparr>"
  have "x \<in> set out" using service_instances_has [OF a(1), of e, unfolded id] a(2) by (auto simp: f(1-3) x_def)
  then have "x \<in> set (cf_instances c')" by (simp add: went(5) insts)
  moreover have "distinct (instance_ids svc (cf_instances c'))"
    using build_instances_ok [OF went(2)] by (simp add: went(5) instances_ok_def)
  ultimately have "find_instance svc iid c' = Some x"
    using find_instance_unique [of svc c' x] by (simp add: x_def)
  moreover have "stored_of d' = extras"
    using save_kept [OF went(3)] by (simp add: stored_of_def)
  ultimately show ?thesis using es by (simp add: iid x_def ex service_entries_def update_conv')
qed simp


section \<open>Where an instance is lost\<close>

text \<open>A store that could not be read once, while the extras were collected, is taken to hold no instances; the save that
  follows reads it well and writes only the new one.\<close>

definition one_instance_disk :: config_disk where
  "one_instance_disk = \<lparr>cd_file = Overrides [(''instances'', JObj [(''sonarr'', JList [instance_entry
     \<lparr>ii_name = ''old'', ii_url = ''http://o'', ii_api_key = ''o''\<rparr> (JStr ''o'') ''old''])])], cd_preserved = 0\<rparr>"

lemma failed_read_drops_instances:
  "map iv_id (map serialize_instance (cf_instances (fst (snd (serve_request (\<lambda>_. []) \<lparr>df_read = True, df_rename = False\<rparr>
     demo_faults demo_faults (Add_instance ''sonarr'' demo_instance) (demo_config, one_instance_disk)))))) = [[], [], [], ''4k'']"
  "map iv_id (map serialize_instance (cf_instances (fst (snd (serve_request (\<lambda>_. []) demo_faults
     demo_faults demo_faults (Add_instance ''sonarr'' demo_instance) (demo_config, one_instance_disk)))))) = [[], [], [], ''old'', ''4k'']"
  by code_simp+

text \<open>Concurrent requests. A request reads the store and plans its new extras when it arrives; it then takes the lock, saves, and
  holds the lock while the clients are rebuilt. A request that arrives meanwhile plans at once and waits; the lock goes
  to the first that waits.\<close>

record lock_state =
  lk_config :: config
  lk_disk :: config_disk
  lk_busy :: bool
  lk_waiting :: "(string \<times> json) list list"

definition lock_apply :: "(string \<times> json) list \<Rightarrow> lock_state \<Rightarrow> lock_state" where
  "lock_apply extras w =
     (case apply_instances (\<lambda>_. []) demo_faults demo_faults extras (lk_config w, lk_disk w) of
        (Inl _, c, d) \<Rightarrow> w\<lparr>lk_config := c, lk_disk := d\<rparr>
      | (Inr _, c, d) \<Rightarrow> w\<lparr>lk_config := c, lk_disk := d, lk_busy := True\<rparr>)"

definition lock_arrive :: "instance_request \<Rightarrow> lock_state \<Rightarrow> lock_state" where
  "lock_arrive rq w =
     (case extras_of_store demo_faults (lk_disk w) of (extras, d) \<Rightarrow>
        (case plan_request rq extras of
           Inl _ \<Rightarrow> w\<lparr>lk_disk := d\<rparr>
         | Inr (svc, iid, extras') \<Rightarrow>
             if lk_busy w then w\<lparr>lk_disk := d, lk_waiting := lk_waiting w @ [extras']\<rparr>
             else lock_apply extras' (w\<lparr>lk_disk := d\<rparr>)))"

definition lock_release :: "lock_state \<Rightarrow> lock_state" where
  "lock_release w =
     (case lk_waiting w of
        [] \<Rightarrow> w\<lparr>lk_busy := False\<rparr>
      | extras # rest \<Rightarrow> lock_apply extras (w\<lparr>lk_busy := False, lk_waiting := rest\<rparr>))"

definition named_instance :: "string \<Rightarrow> instance_request" where
  "named_instance n = Add_instance ''radarr'' \<lparr>ii_name = n, ii_url = ''http://r'', ii_api_key = ''k''\<rparr>"

text \<open>Three instances are added at once; each request succeeds in its turn, and the second instance is gone afterwards: the third
  request had planned its extras before the second one saved.\<close>

lemma waiting_request_undoes_another:
  "map iv_id (map serialize_instance (cf_instances (lk_config
     (lock_release (lock_release (lock_arrive (named_instance ''c'') (lock_arrive (named_instance ''b'')
       (lock_arrive (named_instance ''a'') \<lparr>lk_config = demo_config, lk_disk = demo_disk, lk_busy = False, lk_waiting = []\<rparr>)))))))) 
     = [[], [], [], ''a'', ''c'']"
  "map iv_id (map serialize_instance (cf_instances (lk_config
     (lock_release (lock_arrive (named_instance ''c'') (lock_arrive (named_instance ''b'')
       (lock_arrive (named_instance ''a'') \<lparr>lk_config = demo_config, lk_disk = demo_disk, lk_busy = False, lk_waiting = []\<rparr>))))))) 
     = [[], [], [], ''a'', ''b'']"
  by code_simp+


end
