(* ===== verification/SidecarScan.thy ===== *)
theory SidecarScan
  imports Sidecars
begin

text \<open>
  The detector of subtitle files whose name does not pair with their video
  (\<open>src/src/subarr/sidecar_scanner.py\<close>): the normal form of a stem, the judgement of one file among the
  videos of its directory, the scan, and the rename it suggests. The similarity of two texts (difflib)
  is an argument.
\<close>

section \<open>Stems\<close>

definition lang_tokens :: "string list" where
  "lang_tokens = [''en'', ''eng'', ''english'', ''fre'', ''fr'', ''fra'', ''ja'', ''jpn'', ''ko'', ''kor'', ''zh'', ''chi'', ''cmn'',
     ''es'', ''spa'', ''de'', ''ger'', ''deu'', ''it'', ''ita'', ''pt'', ''por'', ''ru'', ''rus'', ''hi'', ''hin'', ''ar'', ''ara'',
     ''forced'', ''sdh'', ''cc'']"

lemma lang_tokens_nonempty: "t \<in> set lang_tokens \<Longrightarrow> t \<noteq> []"
  by (auto simp: lang_tokens_def)

declare conj_cong [fundef_cong]

text \<open>A nonempty run of tokens.\<close>

function token_run :: "string \<Rightarrow> bool" where
  "token_run s = list_ex (\<lambda>t. prefix t s \<and> (drop (length t) s = [] \<or> token_run (drop (length t) s))) lang_tokens"
  by pat_completeness auto

termination
  by (relation "measure length") (auto dest!: lang_tokens_nonempty simp: prefix_def)

declare token_run.simps [simp del]

definition line_end :: char where "line_end = char_of (10 :: nat)"

text \<open>\<open>\.(en|...)+$\<close> removed once: tokens hold no dot, so a match starts at the last dot; the end may stand
  before one final line feed.\<close>

definition strip_lang :: "string \<Rightarrow> string" where
  "strip_lang s =
     (let feed = (s \<noteq> [] \<and> last s = line_end);
          body = (if feed then butlast s else s)
      in if CHR ''.'' \<in> set body \<and> token_run (lower (rsplit_last (CHR ''.'') body))
         then rsplit_first (CHR ''.'') body @ (if feed then [line_end] else []) else s)"

lemma rsplit_first_shorter: "c \<in> set s \<Longrightarrow> length (rsplit_first c s) < length s"
proof -
  assume c: "c \<in> set s"
  then have "dropWhile (\<lambda>x. x \<noteq> c) (rev s) \<noteq> []" by auto
  then obtain y ys where y: "dropWhile (\<lambda>x. x \<noteq> c) (rev s) = y # ys" by (cases "dropWhile (\<lambda>x. x \<noteq> c) (rev s)") auto
  then have "length ys < length s" using length_dropWhile_le [of "\<lambda>x. x \<noteq> c" "rev s"] by simp
  then show ?thesis using c y by (simp add: rsplit_first_def)
qed

lemma strip_lang_shorter: "strip_lang s \<noteq> s \<Longrightarrow> length (strip_lang s) < length s"
  using rsplit_first_shorter [of "CHR ''.''" s] rsplit_first_shorter [of "CHR ''.''" "butlast s"]
  by (auto simp: strip_lang_def Let_def split: if_splits)

function strip_all :: "string \<Rightarrow> string" where
  "strip_all s = (if strip_lang s = s then s else strip_all (strip_lang s))"
  by pat_completeness auto

termination
  by (relation "measure length") (simp_all add: strip_lang_shorter)

declare strip_all.simps [simp del]

definition plain_char :: "char \<Rightarrow> bool" where
  "plain_char c \<longleftrightarrow> (let n = code_of c in (48 \<le> n \<and> n \<le> 57) \<or> (97 \<le> n \<and> n \<le> 122))"

fun space_runs :: "bool \<Rightarrow> string \<Rightarrow> string" where
  "space_runs inrun [] = []"
| "space_runs inrun (c # s) =
     (if plain_char c then c # space_runs False s else if inrun then space_runs True s else CHR '' '' # space_runs True s)"

definition normalise_stem :: "string \<Rightarrow> string" where
  "normalise_stem s = strip (space_runs False (strip_all (lower s)))"

section \<open>One subtitle file\<close>

datatype pairing = Exact | Case_mismatch | Trailing_tag | Stem_typo | Orphan

definition classify_stems :: "(string \<Rightarrow> string \<Rightarrow> rat) \<Rightarrow> string \<Rightarrow> string \<Rightarrow> rat \<times> pairing" where
  "classify_stems sim video srt =
     (if video = srt then (1, Exact)
      else (let v = normalise_stem video; s = normalise_stem srt in
        if v = s then (if lower video = lower srt then (99 / 100, Case_mismatch) else (99 / 100, Trailing_tag))
        else (sim v s, Stem_typo)))"

record mismatch =
  sm_srt :: string
  sm_video :: "string option"
  sm_rename :: "string option"
  sm_similarity :: rat
  sm_reason :: pairing

fun best_match :: "(string \<Rightarrow> string \<Rightarrow> rat) \<Rightarrow> string \<Rightarrow> rat \<times> string option \<times> pairing \<Rightarrow> string list \<Rightarrow> rat \<times> string option \<times> pairing" where
  "best_match sim stem best [] = best"
| "best_match sim stem best (v # vs) =
     (case classify_stems sim (path_stem v) stem of
        (q, why) \<Rightarrow> best_match sim stem (if fst best < q then (q, Some v, why) else best) vs)"

definition classify_one :: "(string \<Rightarrow> string \<Rightarrow> rat) \<Rightarrow> rat \<Rightarrow> string list \<Rightarrow> string \<Rightarrow> mismatch option" where
  "classify_one sim threshold videos srt =
     (let stem = path_stem srt; bare = strip_lang stem in
      if list_ex (\<lambda>v. path_stem v = bare) videos then None
      else (case best_match sim bare (0, None, Orphan) videos of
              (q, Some v, why) \<Rightarrow>
                if q < threshold then Some \<lparr>sm_srt = srt, sm_video = None, sm_rename = None, sm_similarity = q, sm_reason = Orphan\<rparr>
                else Some \<lparr>sm_srt = srt, sm_video = Some v, sm_rename = Some (path_stem v @ drop (length bare) stem @ path_suffix srt),
                  sm_similarity = q, sm_reason = why\<rparr>
            | (q, None, why) \<Rightarrow> Some \<lparr>sm_srt = srt, sm_video = None, sm_rename = None, sm_similarity = q, sm_reason = Orphan\<rparr>))"

section \<open>The scan\<close>

text \<open>An entry below the root: its name, its depth, whether it is a symbolic link (\<open>None\<close> when asking
  raises), and the sorted names of the video files beside it.\<close>

record srt_entry =
  se_name :: string
  se_depth :: nat
  se_link :: "bool option"
  se_videos :: "string list"

record scan_result =
  sr_total :: nat
  sr_exact :: nat
  sr_loose :: "mismatch list"
  sr_orphans :: "mismatch list"
  sr_errors :: nat

definition scan_one :: "(string \<Rightarrow> string \<Rightarrow> rat) \<Rightarrow> rat \<Rightarrow> nat option \<Rightarrow> srt_entry \<Rightarrow> scan_result \<Rightarrow> scan_result" where
  "scan_one sim threshold max_depth e res =
     (case se_link e of
        None \<Rightarrow> res\<lparr>sr_errors := sr_errors res + 1\<rparr>
      | Some link \<Rightarrow>
          if link \<or> (case max_depth of None \<Rightarrow> False | Some m \<Rightarrow> m < se_depth e) then res
          else (let res' = res\<lparr>sr_total := sr_total res + 1\<rparr> in
            case classify_one sim threshold (se_videos e) (se_name e) of
              None \<Rightarrow> res'\<lparr>sr_exact := sr_exact res + 1\<rparr>
            | Some m \<Rightarrow> if sm_video m = None then res'\<lparr>sr_orphans := sr_orphans res @ [m]\<rparr> else res'\<lparr>sr_loose := sr_loose res @ [m]\<rparr>))"

definition scan_root :: "(string \<Rightarrow> string \<Rightarrow> rat) \<Rightarrow> rat \<Rightarrow> nat option \<Rightarrow> srt_entry list option \<Rightarrow> scan_result" where
  "scan_root sim threshold max_depth entries =
     (let none = \<lparr>sr_total = 0, sr_exact = 0, sr_loose = [], sr_orphans = [], sr_errors = 0\<rparr> in
      case entries of
        None \<Rightarrow> none\<lparr>sr_errors := 1\<rparr>
      | Some es \<Rightarrow> (let res = fold (scan_one sim threshold max_depth) es none in res\<lparr>sr_loose := sort_key (\<lambda>m. - sm_similarity m) (sr_loose res)\<rparr>))"

section \<open>The rename\<close>

datatype rename_error = Source_missing | Target_exists | Other_directory

text \<open>The files are their directories and names.\<close>

definition apply_rename :: "string \<times> string \<Rightarrow> string \<times> string \<Rightarrow> (string \<times> string) list \<Rightarrow> rename_error + (string \<times> string) list" where
  "apply_rename src target files =
     (if src \<notin> set files then Inl Source_missing
      else if target \<in> set files then Inl Target_exists
      else if fst src \<noteq> fst target then Inl Other_directory
      else Inr (map (\<lambda>f. if f = src then target else f) files))"

section \<open>Facts about stems\<close>

lemma rsplit_join: "c \<in> set s \<Longrightarrow> s = rsplit_first c s @ c # rsplit_last c s"
proof -
  assume c: "c \<in> set s"
  have ne: "dropWhile (\<lambda>x. x \<noteq> c) (rev s) \<noteq> []" using c by auto
  have "rev s = takeWhile (\<lambda>x. x \<noteq> c) (rev s) @ c # drop 1 (dropWhile (\<lambda>x. x \<noteq> c) (rev s))"
    using hd_dropWhile [OF ne] by (metis (no_types, lifting) drop0 drop_Suc drop_Suc_Cons hd_Cons_tl list.collapse ne One_nat_def takeWhile_dropWhile_id)
  from arg_cong [OF this, of rev] show ?thesis using c by (simp add: rsplit_first_def rsplit_last_def)
qed

lemma rsplit_append: "c \<notin> set t \<Longrightarrow> rsplit_first c (s @ c # t) = s \<and> rsplit_last c (s @ c # t) = t"
proof -
  assume c: "c \<notin> set t"
  then have all: "\<And>x. x \<in> set (rev t) \<Longrightarrow> x \<noteq> c" by auto
  have "takeWhile (\<lambda>x. x \<noteq> c) (rev t @ c # rev s) = rev t" "dropWhile (\<lambda>x. x \<noteq> c) (rev t @ c # rev s) = c # rev s"
    by (subst takeWhile_append2 dropWhile_append2, erule all, simp)+
  then show ?thesis by (simp add: rsplit_first_def rsplit_last_def)
qed

lemma rsplit_last_no_sep: "c \<notin> set (rsplit_last c s)"
  by (auto simp: rsplit_last_def dest: set_takeWhileD)

lemma strip_lang_cases:
  assumes "line_end \<notin> set s"
  obtains "strip_lang s = s" | t where "s = strip_lang s @ CHR ''.'' # t" "CHR ''.'' \<notin> set t" "token_run (lower t)"
proof -
  have feed: "(s \<noteq> [] \<and> last s = line_end) = False" using assms last_in_set [of s] by metis
  show ?thesis
  proof (cases "CHR ''.'' \<in> set s \<and> token_run (lower (rsplit_last (CHR ''.'') s))")
    case True
    then have "strip_lang s = rsplit_first (CHR ''.'') s" by (simp only: strip_lang_def Let_def feed if_False if_True append_Nil2 simp_thms)
    then show ?thesis using that(2) rsplit_join [of "CHR ''.''" s] rsplit_last_no_sep [of "CHR ''.''" s] True by auto
  next
    case False
    then have "strip_lang s = s" by (simp only: strip_lang_def Let_def feed if_False if_True append_Nil2 simp_thms)
    then show ?thesis by (rule that(1))
  qed
qed

lemma strip_lang_append:
  "line_end \<notin> set (s @ CHR ''.'' # t) \<Longrightarrow> CHR ''.'' \<notin> set t \<Longrightarrow> token_run (lower t) \<Longrightarrow> strip_lang (s @ CHR ''.'' # t) = s"
proof -
  assume no: "line_end \<notin> set (s @ CHR ''.'' # t)" "CHR ''.'' \<notin> set t" "token_run (lower t)"
  then have "last (s @ CHR ''.'' # t) \<noteq> line_end" using last_in_set [of "s @ CHR ''.'' # t"] by (metis append_is_Nil_conv list.distinct(1))
  then show ?thesis using no rsplit_append [of "CHR ''.''" t s] by (simp add: strip_lang_def Let_def)
qed

lemma stem_with_srt: "s \<noteq> [] \<Longrightarrow> path_stem (s @ ''.srt'') = s \<and> path_suffix (s @ ''.srt'') = ''.srt''"
  using rsplit_append [of "CHR ''.''" "''srt''" s] by (simp add: path_stem_def path_suffix_def has_suffix_def)

lemma best_match_in: "best_match sim stem best vs = (q, Some v, why) \<Longrightarrow> fst (snd best) = Some v \<or> v \<in> set vs"
  by (induction sim stem best vs rule: best_match.induct) (auto split: prod.splits if_splits)

text \<open>A file renamed as suggested pairs exactly with its video at the next scan, provided that the file had a
  language tag or that the title of the video does not itself end like one.\<close>

theorem suggested_rename_is_exact:
  assumes m: "classify_one sim threshold videos (s @ ''.srt'') = Some m" "sm_video m = Some v"
    and names: "s \<noteq> []" "line_end \<notin> set s" "line_end \<notin> set (path_stem v)" "path_stem v \<noteq> []"
    and tagged: "strip_lang s \<noteq> s \<or> strip_lang (path_stem v) = path_stem v"
  shows "\<exists>name. sm_rename m = Some name \<and> classify_one sim threshold videos name = None"
proof -
  define tag where "tag = drop (length (strip_lang s)) s"
  have "v \<in> set videos" and name: "sm_rename m = Some ((path_stem v @ tag) @ ''.srt'')"
    using m stem_with_srt [OF names(1)] best_match_in [of sim "strip_lang s" "(0, None, Orphan)" videos _ v]
    by (auto simp: classify_one_def Let_def tag_def split: if_splits prod.splits option.splits)
  have "strip_lang (path_stem v @ tag) = path_stem v"
  proof (cases rule: strip_lang_cases [OF names(2)])
    case 1
    then show ?thesis using tagged by (simp add: tag_def)
  next
    case (2 t)
    then have "tag = CHR ''.'' # t" by (metis append_eq_conv_conj tag_def)
    then show ?thesis using strip_lang_append [of "path_stem v" t] 2 names by (metis Un_iff set_append)
  qed
  then have "list_ex (\<lambda>w. path_stem w = strip_lang (path_stem ((path_stem v @ tag) @ ''.srt''))) videos"
    using stem_with_srt [of "path_stem v @ tag"] names(4) \<open>v \<in> set videos\<close> by (auto simp: list_ex_iff)
  then have "classify_one sim threshold videos ((path_stem v @ tag) @ ''.srt'') = None"
    by (simp only: classify_one_def Let_def if_True)
  with name show ?thesis by blast
qed

lemma suggested_rename_is_exact_witness:
  "\<exists>m name. classify_one (\<lambda>_ _. 0) (85 / 100) [''show.mkv''] (''SHOW.en'' @ ''.srt'') = Some m \<and> sm_rename m = Some name
     \<and> classify_one (\<lambda>_ _. 0) (85 / 100) [''show.mkv''] name = None"
proof -
  have stems: "path_stem ''show.mkv'' = ''show''" "strip_lang ''SHOW.en'' = ''SHOW''" "path_stem (''SHOW.en'' @ ''.srt'') = ''SHOW.en''"
    "strip_lang ''show'' = ''show''" "normalise_stem ''show'' = normalise_stem ''SHOW''" "lower ''show'' = lower ''SHOW''" by code_simp+
  then obtain m where m: "classify_one (\<lambda>_ _. 0) (85 / 100) [''show.mkv''] (''SHOW.en'' @ ''.srt'') = Some m" "sm_video m = Some ''show.mkv''"
    by (simp add: classify_one_def classify_stems_def Let_def)
  have "\<exists>name. sm_rename m = Some name \<and> classify_one (\<lambda>_ _. 0) (85 / 100) [''show.mkv''] name = None"
    by (rule suggested_rename_is_exact [OF m]) (simp_all add: stems, code_simp+)
  with m(1) show ?thesis by blast
qed

section \<open>Names that are right and still reported\<close>

text \<open>Only one tag is removed, so a second one stays in the bare stem and the suggestion drops it.\<close>

lemma second_tag_is_dropped:
  "map_option sm_rename (classify_one sim (85 / 100) [''video.mkv''] ''video.en.forced.srt'') = Some (Some ''video.forced.srt'')"
proof -
  have "path_stem ''video.mkv'' = ''video''" "path_stem ''video.en.forced.srt'' = ''video.en.forced''" "strip_lang ''video.en.forced'' = ''video.en''"
    "normalise_stem ''video'' = normalise_stem ''video.en''" "path_suffix ''video.en.forced.srt'' = ''.srt''" by code_simp+
  then show ?thesis by (simp add: classify_one_def classify_stems_def Let_def)
qed

text \<open>A title that ends in a short word like a language is reported although the names agree.\<close>

lemma title_like_a_tag_is_reported:
  "map_option sm_rename (classify_one sim (85 / 100) [''Pay.It.mkv''] ''Pay.It.srt'') = Some (Some ''Pay.It.It.srt'')"
proof -
  have "path_stem ''Pay.It.mkv'' = ''Pay.It''" "path_stem ''Pay.It.srt'' = ''Pay.It''" "strip_lang ''Pay.It'' = ''Pay''"
    "normalise_stem ''Pay.It'' = normalise_stem ''Pay''" "path_suffix ''Pay.It.srt'' = ''.srt''" by code_simp+
  then show ?thesis by (simp add: classify_one_def classify_stems_def Let_def)
qed

section \<open>The scan accounts for every file\<close>

definition scanned :: "nat option \<Rightarrow> srt_entry \<Rightarrow> bool" where
  "scanned max_depth e \<longleftrightarrow> se_link e = Some False \<and> (case max_depth of None \<Rightarrow> True | Some m \<Rightarrow> se_depth e \<le> m)"

lemma scan_counts:
  "sr_total (scan_root sim threshold max_depth (Some es)) = length (filter (scanned max_depth) es)
   \<and> sr_total (scan_root sim threshold max_depth (Some es)) = sr_exact (scan_root sim threshold max_depth (Some es))
        + length (sr_loose (scan_root sim threshold max_depth (Some es))) + length (sr_orphans (scan_root sim threshold max_depth (Some es)))"
proof -
  define f where "f = fold (scan_one sim threshold max_depth)"
  have "sr_total (f es r) = sr_total r + length (filter (scanned max_depth) es)
      \<and> sr_exact (f es r) + length (sr_loose (f es r)) + length (sr_orphans (f es r)) + sr_total r
        = sr_exact r + length (sr_loose r) + length (sr_orphans r) + sr_total (f es r)" for r
    unfolding f_def
  proof (induction es arbitrary: r)
    case (Cons e es)
    show ?case using Cons [of "scan_one sim threshold max_depth e r"]
      by (auto simp: scan_one_def scanned_def Let_def split: option.splits if_splits)
  qed simp
  from this [of "\<lparr>sr_total = 0, sr_exact = 0, sr_loose = [], sr_orphans = [], sr_errors = 0\<rparr>"]
  show ?thesis by (simp add: scan_root_def Let_def f_def)
qed

text \<open>A rename keeps every other file and loses none.\<close>

lemma rename_conserves:
  "apply_rename src target files = Inr files' \<Longrightarrow> length files' = length files \<and> target \<in> set files' \<and> fst src = fst target
     \<and> (\<forall>f. f \<noteq> src \<and> f \<noteq> target \<longrightarrow> (f \<in> set files' \<longleftrightarrow> f \<in> set files))"
  by (auto simp: apply_rename_def split: if_splits)

end
