(* ===== verification/TaskHealth.thy ===== *)
theory TaskHealth
  imports Langs Decimal
begin

text \<open>
  The supervision of the background loops (\<open>src/src/subarr/task_health.py\<close>) with the crash aggregates it
  feeds (\<open>crash_store.py\<close>): the redaction of credentials, one row per task, the verdict on a task, and
  the sanitised crash events.
\<close>

section \<open>Redaction\<close>

definition secret_keys :: "string list" where
  "secret_keys = [''api_key'', ''api-key'', ''apikey'', ''token'', ''x-plex-token'', ''password'', ''passwd'', ''secret'',
     ''access_token'', ''access-token'', ''accesstoken'']"

definition value_char :: "char \<Rightarrow> bool" where
  "value_char c \<longleftrightarrow> c \<noteq> CHR ''&'' \<and> \<not> py_space c \<and> c \<noteq> CHR 0x27 \<and> c \<noteq> CHR 0x22"

text \<open>\<open>key=\<close> at the head of a text, in any case.\<close>

definition key_head :: "string \<Rightarrow> string \<Rightarrow> bool" where
  "key_head k t \<longleftrightarrow> prefix (k @ ''='') (lower t)"

definition secret_head :: "string \<Rightarrow> string option" where
  "secret_head t = List.find (\<lambda>k. key_head k t \<and> takeWhile value_char (drop (length k + 1) t) \<noteq> []) secret_keys"

definition redacted :: string where "redacted = ''<redacted>''"

lemma length_rest: "length (dropWhile P (drop (Suc n) (c # s))) \<le> length s"
  using length_dropWhile_le [of P "drop (Suc n) (c # s)"] by simp

function redact_secrets :: "string \<Rightarrow> string" where
  "redact_secrets t =
     (case t of
        [] \<Rightarrow> []
      | c # s \<Rightarrow>
          (case secret_head t of
             None \<Rightarrow> c # redact_secrets s
           | Some k \<Rightarrow> take (length k) t @ ''='' @ redacted @ redact_secrets (dropWhile value_char (drop (length k + 1) t))))"
  by pat_completeness auto

termination
  by (relation "measure length") (auto simp: less_Suc_eq_le le_trans [OF length_dropWhile_le])

declare redact_secrets.simps [simp del]

definition max_detail :: nat where "max_detail = 4000"

text \<open>The values a text shows: whatever follows a \<open>key=\<close> anywhere in it.\<close>

definition shown_at :: "string \<Rightarrow> string list" where
  "shown_at t = map (\<lambda>k. takeWhile value_char (drop (length k + 1) t)) (filter (\<lambda>k. key_head k t) secret_keys)"

fun shown_values :: "string \<Rightarrow> string list" where
  "shown_values [] = []"
| "shown_values (c # s) = shown_at (c # s) @ shown_values s"

definition safe_values :: "string set" where
  "safe_values = {[], redacted}"

section \<open>The rows of the tasks\<close>

definition unhealthy_consecutive :: nat where "unhealthy_consecutive = 3"
definition stale_multiple :: pyfloat where "stale_multiple = 3"

record task_row =
  th_name :: string
  th_last_success :: "pyfloat option"
  th_last_error :: "pyfloat option"
  th_error_type :: "string option"
  th_error_detail :: "string option"
  th_failures_in_row :: nat
  th_runs :: nat
  th_failures :: nat
  th_interval :: "pyfloat option"
  th_updated :: pyfloat

definition coalesce :: "'a option \<Rightarrow> 'a option \<Rightarrow> 'a option" where
  "coalesce a b = (case a of None \<Rightarrow> b | Some _ \<Rightarrow> a)"

definition upsert_task :: "task_row \<Rightarrow> (task_row \<Rightarrow> task_row) \<Rightarrow> task_row list \<Rightarrow> task_row list" where
  "upsert_task row change rows =
     (if row_find th_name (th_name row) rows = None then rows @ [row] else rows_update th_name (th_name row) change rows)"

definition register_task :: "pyfloat \<Rightarrow> string \<Rightarrow> pyfloat option \<Rightarrow> bool \<Rightarrow> task_row list \<Rightarrow> task_row list" where
  "register_task now name every one_shot rows =
     (let given = (if one_shot then None else every) in
      upsert_task
        \<lparr>th_name = name, th_last_success = None, th_last_error = None, th_error_type = None, th_error_detail = None,
         th_failures_in_row = 0, th_runs = 0, th_failures = 0, th_interval = given, th_updated = now\<rparr>
        (\<lambda>r. r\<lparr>th_interval := (if one_shot then None else coalesce given (th_interval r))\<rparr>) rows)"

definition record_task_success :: "pyfloat \<Rightarrow> string \<Rightarrow> pyfloat option \<Rightarrow> task_row list \<Rightarrow> task_row list" where
  "record_task_success now name every rows =
     upsert_task
       \<lparr>th_name = name, th_last_success = Some now, th_last_error = None, th_error_type = None, th_error_detail = None,
        th_failures_in_row = 0, th_runs = 1, th_failures = 0, th_interval = every, th_updated = now\<rparr>
       (\<lambda>r. r\<lparr>th_last_success := Some now, th_failures_in_row := 0, th_runs := th_runs r + 1,
             th_interval := coalesce every (th_interval r), th_updated := now\<rparr>) rows"

text \<open>A raised exception: its class name, its formatted traceback, and the module and line of each frame
  from the outermost to the innermost.\<close>

record raised =
  rx_type :: string
  rx_trace :: string
  rx_frames :: "(string \<times> nat) list"

definition error_detail :: "string \<Rightarrow> string" where
  "error_detail trace = (let t = redact_secrets trace in drop (length t - max_detail) t)"

definition failed_row :: "pyfloat \<Rightarrow> string \<Rightarrow> raised \<Rightarrow> pyfloat option \<Rightarrow> task_row" where
  "failed_row now name exc every =
     \<lparr>th_name = name, th_last_success = None, th_last_error = Some now, th_error_type = Some (rx_type exc),
      th_error_detail = Some (error_detail (rx_trace exc)), th_failures_in_row = 1, th_runs = 1, th_failures = 1,
      th_interval = every, th_updated = now\<rparr>"

definition fail_again :: "pyfloat \<Rightarrow> raised \<Rightarrow> pyfloat option \<Rightarrow> task_row \<Rightarrow> task_row" where
  "fail_again now exc every r =
     r\<lparr>th_last_error := Some now, th_error_type := Some (rx_type exc), th_error_detail := Some (error_detail (rx_trace exc)),
       th_failures_in_row := th_failures_in_row r + 1, th_runs := th_runs r + 1, th_failures := th_failures r + 1,
       th_interval := coalesce every (th_interval r), th_updated := now\<rparr>"

section \<open>Crash events\<close>

definition max_key :: nat where "max_key = 64"
definition max_keys :: nat where "max_keys = 64"
definition max_exc :: nat where "max_exc = 40"

record crash_event =
  ce_type :: string
  ce_location :: string
  ce_at :: pyfloat

definition own_module :: "string \<Rightarrow> bool" where
  "own_module m \<longleftrightarrow> prefix ''subarr.'' m \<or> m = ''subarr''"

text \<open>The walk over the frames: the last module of the program, or else the first frame.\<close>

definition frame_step :: "(string \<times> nat) option \<Rightarrow> string \<times> nat \<Rightarrow> (string \<times> nat) option" where
  "frame_step best f =
     (case f of (m, line) \<Rightarrow>
        if own_module m then Some (if prefix ''subarr.'' m then drop 7 m else m, line)
        else (case best of None \<Rightarrow> Some (if m = [] then ''?'' else m, line) | Some b \<Rightarrow> Some b))"

definition no_separators :: "string \<Rightarrow> string" where
  "no_separators m = map (\<lambda>c. if c = CHR ''/'' \<or> c = CHR 0x5C then CHR ''_'' else c) m"

definition crash_location :: "raised \<Rightarrow> string" where
  "crash_location exc =
     (case foldl frame_step None (rx_frames exc) of
        None \<Rightarrow> ''?:0''
      | Some (m, line) \<Rightarrow> no_separators m @ '':'' @ dec line)"

definition record_crash :: "raised \<Rightarrow> pyfloat \<Rightarrow> crash_event list \<Rightarrow> crash_event list" where
  "record_crash exc now events =
     (let ty = take max_exc (rx_type exc) in
      events @ [\<lparr>ce_type = ty, ce_location = take (max_key - length ty - 1) (crash_location exc), ce_at = now\<rparr>])"

definition crash_key :: "crash_event \<Rightarrow> string" where
  "crash_key e = ce_type e @ '':'' @ ce_location e"

text \<open>Groups of one count come in an order SQLite leaves open; here it is that of their first events.\<close>

definition crash_counts :: "pyfloat \<Rightarrow> crash_event list \<Rightarrow> (string \<times> nat) list" where
  "crash_counts cutoff events =
     (let keys = map crash_key (filter (\<lambda>e. cutoff \<le> ce_at e) events) in
      take max_keys (sort_key (\<lambda>(_, n). - int n) (map (\<lambda>k. (k, length (filter (\<lambda>j. j = k) keys))) (rev (remdups (rev keys))))))"

definition prune_crashes :: "pyfloat \<Rightarrow> nat \<Rightarrow> crash_event list \<Rightarrow> crash_event list" where
  "prune_crashes now days events = rows_delete (\<lambda>e. ce_at e < now - of_nat days * 86400) events"

section \<open>The two stores together\<close>

record supervision =
  sv_tasks :: "task_row list"
  sv_crashes :: "crash_event list"

definition record_task_failure :: "pyfloat \<Rightarrow> string \<Rightarrow> raised \<Rightarrow> pyfloat option \<Rightarrow> supervision \<Rightarrow> supervision" where
  "record_task_failure now name exc every sv =
     \<lparr>sv_tasks = upsert_task (failed_row now name exc every) (fail_again now exc every) (sv_tasks sv),
      sv_crashes = record_crash exc now (sv_crashes sv)\<rparr>"

definition task_next_run_at :: "task_row \<Rightarrow> pyfloat option" where
  "task_next_run_at r =
     (case (th_interval r, th_last_success r) of (Some n, Some t) \<Rightarrow> if n \<noteq> 0 then Some (t + n) else None | _ \<Rightarrow> None)"

definition is_unhealthy :: "pyfloat \<Rightarrow> task_row \<Rightarrow> bool" where
  "is_unhealthy now r \<longleftrightarrow>
     (if unhealthy_consecutive \<le> th_failures_in_row r then True
      else if th_last_success r = None \<and> 0 < th_failures r then True
      else (case (th_interval r, th_last_success r) of
              (Some n, Some t) \<Rightarrow> n \<noteq> 0 \<and> stale_multiple * n < now - t | _ \<Rightarrow> False))"

definition task_states :: "task_row list \<Rightarrow> task_row list" where
  "task_states rows = sort_key th_name rows"

definition any_unhealthy :: "pyfloat \<Rightarrow> task_row list \<Rightarrow> bool" where
  "any_unhealthy now rows \<longleftrightarrow> list_ex (is_unhealthy now) (task_states rows)"

section \<open>What is shown after redaction\<close>

lemma secret_keys_clean: "k \<in> set secret_keys \<Longrightarrow> k \<noteq> [] \<and> CHR ''='' \<notin> set k \<and> CHR ''>'' \<notin> set k"
  by (auto simp: secret_keys_def)

lemma lower_char_equals [simp]: "lower_char c = CHR ''='' \<longleftrightarrow> c = CHR ''=''"
proof
  assume h: "lower_char c = CHR ''=''"
  then have "code_of (lower_char c) = 61" by (simp add: code_of_def)
  then have "code_of c = code_of (CHR ''='')" by (auto simp: code_lower_char code_of_def [of "CHR ''=''"] split: if_splits)
  then show "c = CHR ''=''" by (simp only: code_of_eq)
qed (simp add: lower_char_def code_of_def)

lemma equals_lower_char [simp]: "CHR ''='' = lower_char c \<longleftrightarrow> c = CHR ''=''"
  by (metis lower_char_equals)

lemma lower_append: "lower (a @ b) = lower a @ lower b" and lower_take: "lower (take n a) = take n (lower a)"
  by (simp_all add: lower_def take_map)

lemma equals_in_lower [simp]: "CHR ''='' \<in> set (lower t) \<longleftrightarrow> CHR ''='' \<in> set t"
  by (induction t) (auto simp: lower_def)

lemma prefix_to_sep: "prefix (k @ [e]) (m @ e # y) \<Longrightarrow> e \<notin> set k \<Longrightarrow> e \<notin> set m \<Longrightarrow> k = m"
proof (induction k arbitrary: m)
  case Nil then show ?case by (cases m) auto
next
  case (Cons x k) then show ?case by (cases m) auto
qed

lemma secret_head_Some:
  "secret_head t = Some k \<Longrightarrow> k \<in> set secret_keys \<and> key_head k t \<and> takeWhile value_char (drop (length k + 1) t) \<noteq> []"
  unfolding secret_head_def by (drule find_SomeD) simp

lemma secret_head_None:
  "secret_head t = None \<Longrightarrow> k \<in> set secret_keys \<Longrightarrow> key_head k t \<Longrightarrow> takeWhile value_char (drop (length k + 1) t) = []"
  by (auto simp: secret_head_def find_NoneD)

lemma key_headD: "key_head k t \<Longrightarrow> \<exists>u y. t = u @ CHR ''='' # y \<and> lower u = k \<and> length u = length k"
proof -
  assume "key_head k t"
  then obtain z where z: "lower t = k @ CHR ''='' # z" by (auto simp: key_head_def prefix_def)
  then obtain u v where "t = u @ v" "lower u = k" "lower v = CHR ''='' # z"
    unfolding lower_def by (auto simp: map_eq_append_conv)
  moreover from this(3) obtain y where "v = CHR ''='' # y" by (auto simp: lower_def)
  ultimately show ?thesis by (auto simp: lower_def)
qed

lemma redact_Nil [simp]: "redact_secrets [] = []"
  by (simp add: redact_secrets.simps)

lemma redact_at:
  "t \<noteq> [] \<Longrightarrow> redact_secrets t =
     (case secret_head t of
        None \<Rightarrow> hd t # redact_secrets (List.tl t)
      | Some k \<Rightarrow> take (length k) t @ ''='' @ redacted @ redact_secrets (dropWhile value_char (drop (length k + 1) t)))"
  by (subst redact_secrets.simps) (auto split: list.split option.split)

lemma redact_None: "secret_head (c # s) = None \<Longrightarrow> redact_secrets (c # s) = c # redact_secrets s"
  by (simp add: redact_at)

lemma redact_Some:
  assumes "secret_head t = Some k"
  obtains u y where "t = u @ CHR ''='' # y" "lower u = k" "u \<noteq> []" "CHR ''='' \<notin> set u" "CHR ''>'' \<notin> set k"
    "redact_secrets t = u @ CHR ''='' # redacted @ redact_secrets (dropWhile value_char y)"
proof -
  from secret_head_Some [OF assms] key_headD obtain u y
    where t: "t = u @ CHR ''='' # y" and u: "lower u = k" "length u = length k" and k: "k \<in> set secret_keys" by blast
  have clean: "u \<noteq> []" "CHR ''='' \<notin> set u" "CHR ''>'' \<notin> set k"
    using secret_keys_clean [OF k] u(1) equals_in_lower [of u] by (auto simp: lower_def)
  have "take (length k) t = u" "drop (length k + 1) t = y" and ne: "t \<noteq> []" by (simp_all add: t flip: u(2))
  then have "redact_secrets t = u @ CHR ''='' # redacted @ redact_secrets (dropWhile value_char y)"
    unfolding redact_at [OF ne] assms by simp
  with that t u clean show ?thesis by blast
qed

lemma hd_redact: "t \<noteq> [] \<Longrightarrow> redact_secrets t \<noteq> [] \<and> hd (redact_secrets t) = hd t"
proof (cases "secret_head t")
  case (Some k)
  then show ?thesis by (elim redact_Some) simp
next
  case None
  assume "t \<noteq> []"
  with None show ?thesis by (cases t) (auto simp: redact_None)
qed

lemma stops_redact: "takeWhile value_char t = [] \<Longrightarrow> takeWhile value_char (redact_secrets t) = []"
  using hd_redact [of t] by (cases t; cases "redact_secrets t") (auto split: if_splits)

lemma stops_dropWhile: "takeWhile P (dropWhile P t) = []"
  by (induction t) auto

lemma redacted_value: "takeWhile value_char u = [] \<Longrightarrow> takeWhile value_char (redacted @ u) = redacted"
  by (simp add: redacted_def value_char_def py_space_def code_of_def)

text \<open>A \<open>key=\<close> in the output was redacted there, or stands in the input with the same continuation.\<close>

lemma key_in_output:
  assumes "CHR ''='' \<notin> set w" "prefix (w @ ''='') (lower (redact_secrets t))"
  shows "takeWhile value_char (drop (length w + 1) (redact_secrets t)) = redacted
    \<or> (prefix (w @ ''='') (lower t) \<and> drop (length w + 1) (redact_secrets t) = redact_secrets (drop (length w + 1) t))"
  using assms
proof (induction w arbitrary: t)
  case Nil
  then obtain c s where t: "t = c # s" by (cases t) (auto simp: lower_def)
  show ?case
  proof (cases "secret_head t")
    case None
    with Nil t show ?thesis by (auto simp: redact_None lower_def)
  next
    case (Some k)
    then show ?thesis using Nil by (elim redact_Some) (auto simp: lower_def neq_Nil_conv)
  qed
next
  case (Cons x w)
  then obtain c s where t: "t = c # s" by (cases t) (auto simp: lower_def)
  show ?case
  proof (cases "secret_head t")
    case None
    have "x = lower_char c" "prefix (w @ ''='') (lower (redact_secrets s))"
      using Cons.prems(2) None t by (auto simp: redact_None lower_def)
    with Cons.IH [of s] Cons.prems(1) None t show ?thesis by (auto simp: redact_None lower_def)
  next
    case (Some k)
    then show ?thesis
    proof (rule redact_Some)
      fix u y
      assume u: "t = u @ CHR ''='' # y" "lower u = k" "CHR ''='' \<notin> set u"
        and out: "redact_secrets t = u @ CHR ''='' # redacted @ redact_secrets (dropWhile value_char y)"
      have "lower (CHR ''='' # z) = CHR ''='' # lower z" for z
        using lower_char_equals [of "CHR ''=''"] by (simp add: lower_def)
      then have "x # w = lower u"
        using prefix_to_sep [of "x # w" "CHR ''=''" "lower u"] Cons.prems u(3) by (simp add: out lower_append)
      then have "length (x # w) = length u" by (simp add: lower_def)
      then have "drop (length (x # w) + 1) (redact_secrets t) = redacted @ redact_secrets (dropWhile value_char y)"
        by (simp add: out)
      then show ?thesis by (simp only: redacted_value [OF stops_redact [OF stops_dropWhile]] simp_thms)
    qed
  qed
qed

lemma shown_values_append:
  "v \<in> set (shown_values (a @ b)) \<Longrightarrow> v \<in> set (shown_values b) \<or> (\<exists>a1 a2. a = a1 @ a2 \<and> a2 \<noteq> [] \<and> v \<in> set (shown_at (a2 @ b)))"
proof (induction a)
  case (Cons c a)
  then consider "v \<in> set (shown_at (c # a @ b))" | "v \<in> set (shown_values (a @ b))" by auto
  then show ?case
  proof cases
    case 1 then show ?thesis by (metis append_Cons append_Nil list.distinct(1))
  next
    case 2 with Cons.IH show ?thesis by (metis append_Cons)
  qed
qed simp

lemma shown_at_value:
  "v \<in> set (shown_at t) \<Longrightarrow> \<exists>k \<in> set secret_keys. key_head k t \<and> v = takeWhile value_char (drop (length k + 1) t)"
  by (auto simp: shown_at_def)

text \<open>What follows a redacted key is the mark, and no key ends inside the mark.\<close>

lemma shown_before_mark:
  assumes "CHR ''='' \<notin> set u" "u \<noteq> []" "takeWhile value_char r = []" "v \<in> set (shown_at (u @ CHR ''='' # redacted @ r))"
  shows "v = redacted"
proof -
  from shown_at_value [OF assms(4)] obtain k where k: "k \<in> set secret_keys" "key_head k (u @ CHR ''='' # redacted @ r)"
    and v: "v = takeWhile value_char (drop (length k + 1) (u @ CHR ''='' # redacted @ r))" by blast
  have "lower (CHR ''='' # z) = CHR ''='' # lower z" for z
    using lower_char_equals [of "CHR ''=''"] by (simp add: lower_def)
  then have "k = lower u"
    using prefix_to_sep [of k "CHR ''=''" "lower u"] secret_keys_clean [OF k(1)] k(2) assms(1) by (simp add: key_head_def lower_append)
  then have "length k = length u" by (simp add: lower_def)
  then show ?thesis using redacted_value [OF assms(3)] v by simp
qed

lemma no_key_in_mark:
  assumes "w \<noteq> []" "suffix w (CHR ''='' # redacted)" shows "shown_at (w @ r) = []"
proof -
  obtain w' where w: "w = w' @ [CHR ''>'']" using assms
    by (cases w rule: rev_cases) (auto simp: suffix_def redacted_def)
  have eq: "CHR ''='' \<notin> set (List.tl w)"
    using assms by (cases w) (auto simp: suffix_def redacted_def Cons_eq_append_conv append_eq_Cons_conv)
  have "\<not> key_head k (w @ r)" if k: "k \<in> set secret_keys" for k
  proof
    assume "key_head k (w @ r)"
    from key_headD [OF this] obtain u y where u: "w @ r = u @ CHR ''='' # y" "lower u = k" by blast
    have "lower_char (CHR ''>'') = CHR ''>''" by (simp add: lower_char_def code_of_def)
    then have "CHR ''>'' \<in> set u \<Longrightarrow> CHR ''>'' \<in> set (lower u)" by (force simp: lower_def image_iff)
    then have clean: "u \<noteq> []" "CHR ''>'' \<notin> set u" "CHR ''='' \<notin> set u"
      using secret_keys_clean [OF k] u(2) equals_in_lower [of u] by (auto simp: lower_def)
    show False
    proof (cases "length w \<le> length u")
      case True
      then have "prefix w u" using u(1) by (metis prefix_length_prefix prefixI)
      then show False using clean(2) w by (auto simp: prefix_def)
    next
      case False
      then have "w ! length u = CHR ''=''" using u(1) by (metis nth_append nth_append_length not_le)
      moreover obtain j where j: "length u = Suc j" using clean(1) by (cases u) auto
      moreover have "w ! length u = List.tl w ! j" "j < length (List.tl w)"
        using False j by (simp_all add: nth_tl)
      ultimately show False using eq by (metis nth_mem)
    qed
  qed
  then show ?thesis by (simp add: shown_at_def)
qed

lemma mark_shows_nothing: "suffix w (CHR ''='' # redacted) \<Longrightarrow> shown_values (w @ r) = shown_values r"
  by (induction w) (auto simp: no_key_in_mark [of "_ # _", simplified] dest: suffix_ConsD)

lemma redact_safe: "set (shown_values (redact_secrets t)) \<subseteq> safe_values"
proof (induction t rule: measure_induct_rule [of length])
  case (less t)
  show ?case
  proof (cases t)
    case (Cons c s)
    show ?thesis
    proof (cases "secret_head t")
      case None
      have "shown_at (redact_secrets t) = shown_at (c # redact_secrets s)" using None Cons by (simp add: redact_None)
      have "v \<in> safe_values" if "v \<in> set (shown_at (redact_secrets t))" for v
      proof -
        from shown_at_value [OF that] obtain k where k: "k \<in> set secret_keys" "key_head k (redact_secrets t)"
          and v: "v = takeWhile value_char (drop (length k + 1) (redact_secrets t))" by blast
        consider "v = redacted"
          | "key_head k t" "drop (length k + 1) (redact_secrets t) = redact_secrets (drop (length k + 1) t)"
          using key_in_output [of k t] secret_keys_clean [OF k(1)] k(2) v by (auto simp: key_head_def)
        then show ?thesis
        proof cases
          case 2
          have "v = []" unfolding v 2(2) by (rule stops_redact [OF secret_head_None [OF None k(1) 2(1)]])
          then show ?thesis by (simp add: safe_values_def)
        qed (simp add: safe_values_def)
      qed
      moreover have "set (shown_values (redact_secrets s)) \<subseteq> safe_values" using less.IH [of s] Cons by simp
      ultimately show ?thesis using None Cons by (auto simp: redact_None)
    next
      case (Some k)
      then show ?thesis
      proof (rule redact_Some)
        fix u y
        assume u: "t = u @ CHR ''='' # y" "u \<noteq> []" "CHR ''='' \<notin> set u"
          and out: "redact_secrets t = u @ CHR ''='' # redacted @ redact_secrets (dropWhile value_char y)"
        let ?r = "redact_secrets (dropWhile value_char y)"
        have r: "takeWhile value_char ?r = []" by (rule stops_redact [OF stops_dropWhile])
        have "length (dropWhile value_char y) < length t" using length_dropWhile_le [of value_char y] u(1) by simp
        then have rest: "set (shown_values ?r) \<subseteq> safe_values" by (rule less.IH)
        have mark: "shown_values (CHR ''='' # redacted @ ?r) = shown_values ?r"
          using mark_shows_nothing [of "CHR ''='' # redacted" ?r] by simp
        show ?thesis
        proof
          fix v assume "v \<in> set (shown_values (redact_secrets t))"
          from shown_values_append [OF this [unfolded out]] consider "v \<in> set (shown_values ?r)"
            | a1 a2 where "u = a1 @ a2" "a2 \<noteq> []" "v \<in> set (shown_at (a2 @ CHR ''='' # redacted @ ?r))"
            unfolding mark by blast
          then show "v \<in> safe_values"
          proof cases
            case 1 then show ?thesis using rest by blast
          next
            case 2
            then have "v = redacted" using shown_before_mark [of a2 ?r v] u(3) r by simp
            then show ?thesis by (simp add: safe_values_def)
          qed
        qed
      qed
    qed
  qed (simp add: safe_values_def)
qed

lemma shown_values_drop: "set (shown_values (drop n t)) \<subseteq> set (shown_values t)"
proof (induction t arbitrary: n)
  case (Cons c t)
  then show ?case by (cases n) auto
qed simp


section \<open>The rows against the history\<close>

datatype task_event =
    Registered string "pyfloat option" bool
  | Succeeded string "pyfloat option"
  | Failed string raised "pyfloat option"

type_synonym task_history = "(pyfloat \<times> task_event) list"

fun task_step :: "pyfloat \<times> task_event \<Rightarrow> supervision \<Rightarrow> supervision" where
  "task_step (now, Registered name every one_shot) sv = sv\<lparr>sv_tasks := register_task now name every one_shot (sv_tasks sv)\<rparr>"
| "task_step (now, Succeeded name every) sv = sv\<lparr>sv_tasks := record_task_success now name every (sv_tasks sv)\<rparr>"
| "task_step (now, Failed name exc every) sv = record_task_failure now name exc every sv"

definition task_run :: "task_history \<Rightarrow> supervision" where
  "task_run h = fold task_step h \<lparr>sv_tasks = [], sv_crashes = []\<rparr>"

fun about :: "string \<Rightarrow> pyfloat \<times> task_event \<Rightarrow> bool" where
  "about n (_, Registered name _ _) = (name = n)"
| "about n (_, Succeeded name _) = (name = n)"
| "about n (_, Failed name _ _) = (name = n)"

text \<open>The cycles of a task in its history: when each ended, and the exception of a failed one.\<close>

fun cycle_of :: "pyfloat \<times> task_event \<Rightarrow> (pyfloat \<times> raised option) option" where
  "cycle_of (_, Registered _ _ _) = None"
| "cycle_of (now, Succeeded _ _) = Some (now, None)"
| "cycle_of (now, Failed _ exc _) = Some (now, Some exc)"

definition cycles :: "task_history \<Rightarrow> (pyfloat \<times> raised option) list" where
  "cycles h = List.map_filter cycle_of h"

definition failed_cycle :: "pyfloat \<times> raised option \<Rightarrow> bool" where
  "failed_cycle c \<longleftrightarrow> snd c \<noteq> None"

definition last_where :: "('a \<Rightarrow> bool) \<Rightarrow> 'a list \<Rightarrow> 'a option" where
  "last_where P xs = List.find P (rev xs)"

fun cadence :: "pyfloat option \<Rightarrow> pyfloat \<times> task_event \<Rightarrow> pyfloat option" where
  "cadence v (_, Registered _ every one_shot) = (if one_shot then None else coalesce every v)"
| "cadence v (_, Succeeded _ every) = coalesce every v"
| "cadence v (_, Failed _ _ every) = coalesce every v"

definition summary :: "string \<Rightarrow> task_history \<Rightarrow> task_row option" where
  "summary n h =
     (let evs = filter (about n) h; cs = cycles evs; bad = last_where failed_cycle cs in
      if evs = [] then None
      else Some \<lparr>th_name = n,
        th_last_success = map_option fst (last_where (\<lambda>c. \<not> failed_cycle c) cs),
        th_last_error = map_option fst bad,
        th_error_type = map_option (\<lambda>c. rx_type (the (snd c))) bad,
        th_error_detail = map_option (\<lambda>c. error_detail (rx_trace (the (snd c)))) bad,
        th_failures_in_row = length (takeWhile failed_cycle (rev cs)),
        th_runs = length cs,
        th_failures = length (filter failed_cycle cs),
        th_interval = foldl cadence None evs,
        th_updated = (if cs = [] then fst (hd evs) else fst (last cs))\<rparr>)"

fun crash_of :: "pyfloat \<times> task_event \<Rightarrow> crash_event option" where
  "crash_of (now, Failed _ exc _) = Some (hd (record_crash exc now []))"
| "crash_of _ = None"

lemma row_find_upsert:
  assumes "\<And>r. th_name (change r) = th_name r"
  shows "row_find th_name k (upsert_task row change rows) =
    (if k = th_name row then Some (case row_find th_name k rows of None \<Rightarrow> row | Some r \<Rightarrow> change r) else row_find th_name k rows)"
proof -
  have "row_find th_name k (rows @ [row]) = (case row_find th_name k rows of None \<Rightarrow> if k = th_name row then Some row else None | Some r \<Rightarrow> Some r)"
    by (induction rows) (auto simp: row_find_def)
  then show ?thesis using row_find_update [of th_name change k "th_name row" rows, OF assms]
    by (auto simp: upsert_task_def split: option.split)
qed

lemma cycles_snoc: "cycles (h @ [e]) = cycles h @ (case cycle_of e of None \<Rightarrow> [] | Some c \<Rightarrow> [c])"
  by (induction h) (auto simp: cycles_def List.map_filter_simps split: option.split)

lemma last_where_snoc: "last_where P (xs @ [x]) = (if P x then Some x else last_where P xs)"
  by (simp add: last_where_def)

lemma no_cycles_registered: "cycles h = [] \<Longrightarrow> last_where P (cycles h) = None"
  by (simp add: last_where_def)

lemma summary_other: "\<not> about n e \<Longrightarrow> summary n (h @ [e]) = summary n h"
  by (simp add: summary_def)

lemma summary_None: "summary n h = None \<longleftrightarrow> filter (about n) h = []"
  by (simp add: summary_def Let_def)

lemma summary_snoc:
  assumes "about n (now, ev)"
  shows "summary n (h @ [(now, ev)]) = Some
    (case ev of
       Registered _ every one_shot \<Rightarrow>
         (case summary n h of
            None \<Rightarrow> \<lparr>th_name = n, th_last_success = None, th_last_error = None, th_error_type = None, th_error_detail = None,
               th_failures_in_row = 0, th_runs = 0, th_failures = 0, th_interval = (if one_shot then None else every), th_updated = now\<rparr>
          | Some r \<Rightarrow> r\<lparr>th_interval := (if one_shot then None else coalesce every (th_interval r))\<rparr>)
     | Succeeded _ every \<Rightarrow>
         (case summary n h of
            None \<Rightarrow> \<lparr>th_name = n, th_last_success = Some now, th_last_error = None, th_error_type = None, th_error_detail = None,
               th_failures_in_row = 0, th_runs = 1, th_failures = 0, th_interval = every, th_updated = now\<rparr>
          | Some r \<Rightarrow> r\<lparr>th_last_success := Some now, th_failures_in_row := 0, th_runs := th_runs r + 1,
               th_interval := coalesce every (th_interval r), th_updated := now\<rparr>)
     | Failed _ exc every \<Rightarrow> (case summary n h of None \<Rightarrow> failed_row now n exc every | Some r \<Rightarrow> fail_again now exc every r))"
proof (cases "filter (about n) h = []")
  case True
  then show ?thesis using assms
    by (cases ev) (simp_all add: summary_def cycles_def List.map_filter_simps last_where_def failed_cycle_def failed_row_def coalesce_def split: option.split)
next
  case False
  then have "hd (filter (about n) h @ [e]) = hd (filter (about n) h)" for e by simp
  with False show ?thesis using assms
    by (cases ev) (simp_all add: summary_def Let_def cycles_snoc last_where_snoc failed_cycle_def fail_again_def)
qed

text \<open>After any history of registrations, successful and failed cycles, from an empty database, the row
  of a task says exactly what its own events say: the failures since its last success, its last success
  and last failure with the redacted text, its counts and its cadence; and the crash events are
  those of the failed cycles, in order.\<close>

theorem task_rows_tell_the_history:
  "row_find th_name n (sv_tasks (task_run h)) = summary n h \<and> sv_crashes (task_run h) = List.map_filter crash_of h"
proof (induction h rule: rev_induct)
  case Nil
  show ?case by (simp add: task_run_def summary_def row_find_def List.map_filter_simps)
next
  case (snoc e h)
  obtain now ev where e: "e = (now, ev)" by (cases e)
  have run: "task_run (h @ [e]) = task_step e (task_run h)" by (simp add: task_run_def)
  have crashes: "List.map_filter crash_of (h @ [e]) = List.map_filter crash_of h @ (case crash_of e of None \<Rightarrow> [] | Some c \<Rightarrow> [c])"
    by (induction h) (auto simp: List.map_filter_simps split: option.split)
  have "row_find th_name n (sv_tasks (task_step e (task_run h))) = summary n (h @ [e])"
  proof (cases "about n e")
    case True
    then show ?thesis unfolding e summary_snoc [OF True [unfolded e]] using snoc.IH
      by (cases ev) (auto simp: register_task_def record_task_success_def record_task_failure_def row_find_upsert
        fail_again_def failed_row_def Let_def split: option.split)
  next
    case False
    then show ?thesis unfolding summary_other [OF False] using snoc.IH e
      by (cases ev) (auto simp: register_task_def record_task_success_def record_task_failure_def row_find_upsert
        fail_again_def failed_row_def Let_def)
  qed
  moreover have "sv_crashes (task_step e (task_run h)) = List.map_filter crash_of (h @ [e])"
    unfolding crashes using snoc.IH e by (cases ev) (simp_all add: record_task_failure_def record_crash_def Let_def)
  ultimately show ?case by (simp add: run)
qed

text \<open>The key a crash is reported under is at most 64 characters and has no path separator, whatever the
  module of the frame.\<close>

lemma no_separators_clean: "CHR ''/'' \<notin> set (no_separators m) \<and> CHR 0x5C \<notin> set (no_separators m)"
  by (auto simp: no_separators_def)

lemma crash_key_bounded: "length (crash_key (hd (record_crash exc now []))) \<le> max_key"
  by (simp add: record_crash_def crash_key_def Let_def max_key_def max_exc_def)

end
