(* ===== verification/UpdateChecker.thy ===== *)
theory UpdateChecker
  imports Decimal Libraries
begin

text \<open>
  The update check (\<open>src/src/subarr/update_checker.py\<close>): the order of version tags, the releases an install is missing,
  the reading of a feed entry and of the version constant, and the table with one row per tracked product through a
  poll. What the web answers is an argument; an entry of the feed is given by the parts the code reads from it, and the
  parser of its date is an argument.
\<close>

section \<open>Versions\<close>

text \<open>\<open>re.findall("[0-9]+", tag)\<close>, each run as its number.\<close>

function digit_runs :: "string \<Rightarrow> nat list" where
  "digit_runs s =
     (case dropWhile (\<lambda>c. \<not> ascii_digit c) s of
        [] \<Rightarrow> []
      | t \<Rightarrow> undec (takeWhile ascii_digit t) # digit_runs (dropWhile ascii_digit t))"
  by pat_completeness auto
termination
proof (relation "measure length")
  fix s t u assume t: "dropWhile (\<lambda>c. \<not> ascii_digit c) s = t # u"
  have "ascii_digit t" using t by (simp add: dropWhile_eq_Cons_conv)
  moreover have "length (t # u) \<le> length s" using t by (metis length_dropWhile_le)
  ultimately show "(dropWhile ascii_digit (t # u), s) \<in> measure length"
    using length_dropWhile_le [of ascii_digit u] by auto
qed simp

declare digit_runs.simps [simp del]

definition version_key :: "string option \<Rightarrow> nat list option" where
  "version_key tag = (if \<not> truthy_str tag \<or> digit_runs (or_empty tag) = [] then None else Some (digit_runs (or_empty tag)))"

definition padded :: "nat \<Rightarrow> nat list \<Rightarrow> nat list" where
  "padded n k = k @ replicate (n - length k) 0"

text \<open>Tuples compare lexicographically; the result is the sign.\<close>

fun tuple_cmp :: "nat list \<Rightarrow> nat list \<Rightarrow> int" where
  "tuple_cmp [] [] = 0"
| "tuple_cmp [] (y # ys) = -1"
| "tuple_cmp (x # xs) [] = 1"
| "tuple_cmp (x # xs) (y # ys) = (if x < y then -1 else if y < x then 1 else tuple_cmp xs ys)"

definition compare_versions :: "string option \<Rightarrow> string option \<Rightarrow> int option" where
  "compare_versions a b =
     (case (version_key a, version_key b) of
        (Some ka, Some kb) \<Rightarrow>
          (let n = max (length ka) (length kb) in Some (tuple_cmp (padded n ka) (padded n kb)))
      | _ \<Rightarrow> None)"

section \<open>The feed\<close>

record feed_entry =
  fe_links :: "string option list"
  fe_id :: "string option"
  fe_updated :: "string option"
  fe_title :: "string option option"
  fe_content :: "string option"

record release =
  rl_tag :: "string option"
  rl_title :: string
  rl_released_at :: "pyfloat option"
  rl_notes_url :: "string option"
  rl_body :: "string option"

text \<open>\<open>s.rsplit(sep, 1)[1]\<close> for a text with the separator: what follows its last occurrence.\<close>

fun after_last :: "string \<Rightarrow> string \<Rightarrow> string option" where
  "after_last sep [] = (if sep = [] then Some [] else None)"
| "after_last sep (c # s) =
     (case after_last sep s of
        Some t \<Rightarrow> Some t
      | None \<Rightarrow> if prefix sep (c # s) then Some (drop (length sep) (c # s)) else None)"

definition tag_part :: string where "tag_part = ''/releases/tag/''"

text \<open>The loop over the links: the notes address and the tag.\<close>

fun scan_links :: "string option list \<Rightarrow> string option \<Rightarrow> string option \<times> string option" where
  "scan_links [] notes = (notes, None)"
| "scan_links (href # links) notes =
     (if truthy_str href \<and> sublist tag_part (or_empty href) then (href, after_last tag_part (or_empty href))
      else scan_links links (if truthy_str href \<and> notes = None then href else notes))"

text \<open>\<open>s.replace("Z", "+00:00")\<close>\<close>

definition iso_zone :: "string \<Rightarrow> string" where
  "iso_zone s = concat (map (\<lambda>c. if c = CHR ''Z'' then ''+00:00'' else [c]) s)"

definition parse_entry :: "(string \<Rightarrow> pyfloat option) \<Rightarrow> feed_entry \<Rightarrow> release" where
  "parse_entry to_time e =
     (let (notes, tag) = scan_links (fe_links e) None;
          tag' = (if tag = None \<and> truthy_str (fe_id e) \<and> CHR ''/'' \<in> set (or_empty (fe_id e))
                  then after_last ''/'' (or_empty (fe_id e)) else tag)
      in \<lparr>rl_tag = tag',
          rl_title = (case fe_title e of None \<Rightarrow> [] | Some t \<Rightarrow> strip (or_empty t)),
          rl_released_at = (if truthy_str (fe_updated e) then to_time (iso_zone (strip (or_empty (fe_updated e)))) else None),
          rl_notes_url = notes, rl_body = fe_content e\<rparr>)"

text \<open>\<open>None\<close> is a feed that does not parse as XML, or is refused for its size.\<close>

definition max_feed_bytes :: nat where "max_feed_bytes = 4000000"

definition parse_atom_entries :: "(string \<Rightarrow> pyfloat option) \<Rightarrow> (string \<Rightarrow> feed_entry list option) \<Rightarrow> string \<Rightarrow> release list" where
  "parse_atom_entries to_time from_xml xml =
     (if xml = [] \<or> max_feed_bytes < length xml then []
      else (case from_xml xml of None \<Rightarrow> [] | Some es \<Rightarrow> map (parse_entry to_time) es))"

definition parse_atom_feed :: "(string \<Rightarrow> pyfloat option) \<Rightarrow> (string \<Rightarrow> feed_entry list option) \<Rightarrow> string \<Rightarrow> release option" where
  "parse_atom_feed to_time from_xml xml =
     (case parse_atom_entries to_time from_xml xml of [] \<Rightarrow> None | e # _ \<Rightarrow> Some e)"

text \<open>The version constant: the first line \<open>subgen_version = 'v'\<close>, in either quote, white space free around the sign.\<close>

definition quote_char :: "char \<Rightarrow> bool" where "quote_char c \<longleftrightarrow> c = CHR 39 \<or> c = CHR 34"

definition version_line :: "string \<Rightarrow> string option" where
  "version_line l =
     (if \<not> prefix ''subgen_version'' l then None
      else (case dropWhile py_space (drop 14 l) of
          [] \<Rightarrow> None
        | e # rest \<Rightarrow>
            if e \<noteq> CHR ''='' then None
            else (case dropWhile py_space rest of
                [] \<Rightarrow> None
              | q # body \<Rightarrow>
                  if quote_char q \<and> takeWhile (\<lambda>c. \<not> quote_char c) body \<noteq> []
                    \<and> dropWhile (\<lambda>c. \<not> quote_char c) body \<noteq> []
                  then Some (takeWhile (\<lambda>c. \<not> quote_char c) body) else None)))"

text \<open>White space and the quoted text may run over line ends: each line start is tried with all that follows it.\<close>

fun find_version :: "bool \<Rightarrow> string \<Rightarrow> string option" where
  "find_version at_start [] = None"
| "find_version at_start (c # s) =
     (case (if at_start then version_line (c # s) else None) of
        Some v \<Rightarrow> Some v
      | None \<Rightarrow> find_version (c = CHR 10) s)"

definition parse_vanilla_version :: "string \<Rightarrow> string option" where
  "parse_vanilla_version src = find_version True src"

section \<open>What an install is missing\<close>

record missed =
  ms_tag :: "string option"
  ms_title :: string
  ms_notes_url :: "string option"
  ms_released_at :: "pyfloat option"

definition digest :: "release \<Rightarrow> missed" where
  "digest e = \<lparr>ms_tag = rl_tag e, ms_title = or_str (rl_title e) (or_empty (rl_tag e)), ms_notes_url = rl_notes_url e,
     ms_released_at = rl_released_at e\<rparr>"

fun missed_loop :: "string \<Rightarrow> release list \<Rightarrow> missed list" where
  "missed_loop cur [] = []"
| "missed_loop cur (e # es) =
     (case compare_versions (Some (or_empty (rl_tag e))) (Some cur) of
        Some c \<Rightarrow> if c \<le> 0 then [] else digest e # missed_loop cur es
      | None \<Rightarrow>
          if lstrip_char (CHR ''v'') (or_empty (rl_tag e)) = lstrip_char (CHR ''v'') cur then []
          else digest e # missed_loop cur es)"

definition missed_releases :: "release list \<Rightarrow> string option \<Rightarrow> missed list" where
  "missed_releases es current = (if truthy_str current then missed_loop (or_empty current) es else [])"

section \<open>The table\<close>

record update_row =
  ur_repo :: string
  ur_current :: "string option"
  ur_latest :: "string option"
  ur_released_at :: "pyfloat option"
  ur_notes_url :: "string option"
  ur_breaking :: bool
  ur_checked :: pyfloat
  ur_error :: "string option"
  ur_missed :: "missed list"

type_synonym update_table = "(string \<times> update_row) list"

definition has_update :: "update_row \<Rightarrow> bool" where
  "has_update r =
     (if \<not> truthy_str (ur_current r) \<or> \<not> truthy_str (ur_latest r) then False
      else (case compare_versions (ur_current r) (ur_latest r) of
          None \<Rightarrow> lstrip_char (CHR ''v'') (or_empty (ur_current r)) \<noteq> lstrip_char (CHR ''v'') (or_empty (ur_latest r))
        | Some c \<Rightarrow> c < 0))"

definition write_state :: "string \<Rightarrow> update_row \<Rightarrow> update_table \<Rightarrow> update_table" where
  "write_state product row rows = AList.update product row rows"

definition write_error :: "string \<Rightarrow> string \<Rightarrow> string \<Rightarrow> pyfloat \<Rightarrow> update_table \<Rightarrow> update_table" where
  "write_error product repo err now rows =
     (case map_of rows product of
        Some r \<Rightarrow> AList.update product (r\<lparr>ur_checked := now, ur_error := Some err\<rparr>) rows
      | None \<Rightarrow>
          AList.update product \<lparr>ur_repo = repo, ur_current = None, ur_latest = None, ur_released_at = None, ur_notes_url = None,
            ur_breaking = False, ur_checked = now, ur_error = Some err, ur_missed = []\<rparr> rows)"

definition prune_untracked :: "(string \<times> string) list \<Rightarrow> update_table \<Rightarrow> nat \<times> update_table" where
  "prune_untracked products rows =
     (length (filter (\<lambda>pr. fst pr \<notin> fst ` set products) rows), filter (\<lambda>pr. fst pr \<in> fst ` set products) rows)"

section \<open>A poll\<close>

datatype web_reply = Raises string | Status nat string

text \<open>The parsers, the text of the exception that a status raises, the versions that run, and the products that are read
  from a raw file.\<close>

record poll_env =
  pe_time :: "string \<Rightarrow> pyfloat option"
  pe_xml :: "string \<Rightarrow> feed_entry list option"
  pe_status_text :: "nat \<Rightarrow> string"
  pe_current :: "string \<Rightarrow> string option"
  pe_vanilla :: "string \<Rightarrow> string option"

definition success_status :: "nat \<Rightarrow> bool" where "success_status n \<longleftrightarrow> 200 \<le> n \<and> n \<le> 299"

definition poll_one :: "poll_env \<Rightarrow> pyfloat \<Rightarrow> string \<Rightarrow> string \<Rightarrow> web_reply \<Rightarrow> update_table \<Rightarrow> update_table" where
  "poll_one E now product repo reply rows =
     (case reply of
        Raises t \<Rightarrow> write_error product repo t now rows
      | Status n body \<Rightarrow>
          if n = 404 then write_error product repo ''no public release'' now rows
          else if \<not> success_status n then write_error product repo (pe_status_text E n) now rows
          else (case parse_atom_entries (pe_time E) (pe_xml E) body of
              [] \<Rightarrow> write_error product repo ''no public release'' now rows
            | e # es \<Rightarrow>
                if \<not> truthy_str (rl_tag e) then write_error product repo ''no public release'' now rows
                else write_state product
                  \<lparr>ur_repo = repo, ur_current = pe_current E product, ur_latest = rl_tag e, ur_released_at = rl_released_at e,
                   ur_notes_url = rl_notes_url e, ur_breaking = sublist ''breaking'' (lower (or_empty (rl_body e))), ur_checked = now,
                   ur_error = None, ur_missed = missed_releases (e # es) (pe_current E product)\<rparr> rows))"

definition poll_vanilla :: "poll_env \<Rightarrow> pyfloat \<Rightarrow> string \<Rightarrow> string \<Rightarrow> web_reply \<Rightarrow> update_table \<Rightarrow> update_table" where
  "poll_vanilla E now product repo reply rows =
     (case reply of
        Raises t \<Rightarrow> write_error product repo t now rows
      | Status n body \<Rightarrow>
          if \<not> success_status n then write_error product repo (pe_status_text E n) now rows
          else (case parse_vanilla_version body of
              None \<Rightarrow> write_error product repo ''no release info'' now rows
            | Some latest \<Rightarrow>
                write_state product
                  \<lparr>ur_repo = repo, ur_current = pe_current E product, ur_latest = Some latest, ur_released_at = None,
                   ur_notes_url = Some (''https://github.com/'' @ repo @ ''/commits/main''), ur_breaking = False, ur_checked = now,
                   ur_error = None, ur_missed = []\<rparr> rows))"

definition poll_product :: "poll_env \<Rightarrow> pyfloat \<Rightarrow> (string \<Rightarrow> web_reply) \<Rightarrow> string \<times> string \<Rightarrow> update_table \<Rightarrow> update_table" where
  "poll_product E now web pr rows =
     (if truthy_str (pe_vanilla E (fst pr)) then poll_vanilla E now (fst pr) (snd pr) (web (fst pr)) rows
      else poll_one E now (fst pr) (snd pr) (web (fst pr)) rows)"

definition poll_all :: "poll_env \<Rightarrow> pyfloat \<Rightarrow> (string \<Rightarrow> web_reply) \<Rightarrow> (string \<times> string) list \<Rightarrow> update_table \<Rightarrow> update_table" where
  "poll_all E now web products rows = fold (poll_product E now web) products (snd (prune_untracked products rows))"

section \<open>The order of versions\<close>

text \<open>The components of a version, with zeros behind its last one; the first component that differs decides.\<close>

definition component :: "nat list \<Rightarrow> nat \<Rightarrow> nat" where
  "component k i = (if i < length k then k ! i else 0)"

definition older :: "nat list \<Rightarrow> nat list \<Rightarrow> bool" where
  "older a b \<longleftrightarrow> (\<exists>i. component a i < component b i \<and> (\<forall>j < i. component a j = component b j))"

lemma component_padded: "component (padded n k) = component k"
  by (auto simp: fun_eq_iff component_def padded_def nth_append)

lemma component_Cons: "component (x # xs) i = (case i of 0 \<Rightarrow> x | Suc j \<Rightarrow> component xs j)"
  by (simp add: component_def split: nat.split)

lemma older_Cons: "older (x # xs) (y # ys) \<longleftrightarrow> x < y \<or> x = y \<and> older xs ys"
proof
  assume "older (x # xs) (y # ys)"
  then obtain i where i: "component (x # xs) i < component (y # ys) i" "\<forall>j < i. component (x # xs) j = component (y # ys) j"
    by (auto simp: older_def)
  show "x < y \<or> x = y \<and> older xs ys"
  proof (cases i)
    case (Suc k)
    have "component xs j = component ys j" if "j < k" for j
      using i(2) that by (auto simp: Suc component_Cons dest: spec [of _ "Suc j"])
    moreover have "x = y" using i(2) by (auto simp: Suc component_Cons dest: spec [of _ 0])
    ultimately show ?thesis using i(1) by (auto simp: older_def Suc component_Cons)
  qed (use i in \<open>simp add: component_Cons\<close>)
next
  assume "x < y \<or> x = y \<and> older xs ys"
  then show "older (x # xs) (y # ys)"
  proof
    assume "x = y \<and> older xs ys"
    then obtain i where "x = y" "component xs i < component ys i" "\<forall>j < i. component xs j = component ys j"
      by (auto simp: older_def)
    then show ?thesis
      by (auto simp: older_def component_Cons less_Suc_eq_0_disj intro!: exI [of _ "Suc i"] split: nat.split)
  qed (auto simp: older_def component_Cons intro!: exI [of _ 0])
qed

lemma tuple_cmp_older:
  "length a = length b \<Longrightarrow>
     (tuple_cmp a b = -1 \<longleftrightarrow> older a b) \<and> (tuple_cmp a b = 1 \<longleftrightarrow> older b a)
     \<and> (tuple_cmp a b = 0 \<longleftrightarrow> component a = component b) \<and> tuple_cmp a b \<in> {-1, 0, 1}"
proof (induction a b rule: list_induct2)
  case Nil
  then show ?case by (simp add: older_def component_def)
next
  case (Cons x xs y ys)
  have "component (x # xs) = component (y # ys) \<longleftrightarrow> x = y \<and> component xs = component ys"
    by (auto simp: fun_eq_iff component_Cons split: nat.splits)
  then show ?case using Cons by (auto simp: older_Cons)
qed

lemma older_padded: "older (padded m a) (padded n b) = older a b"
  by (simp add: older_def component_padded)

lemma length_padded: "length k \<le> n \<Longrightarrow> length (padded n k) = n"
  by (simp add: padded_def)

lemma older_trans: "older a b \<Longrightarrow> older b c \<Longrightarrow> older a c"
proof -
  assume "older a b" "older b c"
  then obtain i j where i: "component a i < component b i" "\<forall>k < i. component a k = component b k"
    and j: "component b j < component c j" "\<forall>k < j. component b k = component c k"
    by (auto simp: older_def)
  have "component a (min i j) < component c (min i j)"
    using i j by (cases i j rule: linorder_cases) (auto simp: min_def)
  moreover have "\<forall>k < min i j. component a k = component c k" using i(2) j(2) by simp
  ultimately show ?thesis unfolding older_def by blast
qed

lemma older_irrefl: "\<not> older a a"
  by (simp add: older_def)

lemma compare_versions_older:
  "compare_versions a b =
     (case (version_key a, version_key b) of
        (Some ka, Some kb) \<Rightarrow> Some (if older ka kb then -1 else if older kb ka then 1 else 0)
      | _ \<Rightarrow> None)"
proof -
  have "tuple_cmp (padded n ka) (padded n kb) = (if older ka kb then -1 else if older kb ka then 1 else 0)"
    if "length ka \<le> n" "length kb \<le> n" for ka kb n
    using tuple_cmp_older [of "padded n ka" "padded n kb"] that by (auto simp: length_padded older_padded)
  then show ?thesis by (auto simp: compare_versions_def Let_def split: option.split)
qed

lemma older_asym: "older a b \<Longrightarrow> \<not> older b a"
  using older_trans older_irrefl by blast

lemma compare_swap: "compare_versions b a = map_option uminus (compare_versions a b)"
  by (auto simp: compare_versions_older older_asym split: option.split)

lemma compare_newer:
  "compare_versions a b = Some 1 \<longleftrightarrow> (\<exists>ka kb. version_key a = Some ka \<and> version_key b = Some kb \<and> older kb ka)"
  by (auto simp: compare_versions_older older_asym split: option.split)

lemma compare_newer_trans: "compare_versions a b = Some 1 \<Longrightarrow> compare_versions b c = Some 1 \<Longrightarrow> compare_versions a c = Some 1"
  unfolding compare_newer using older_trans by fastforce

text \<open>Two version tags are compared, when both have a number in them, by their first component that differs, a missing one
  counting as zero: the result is -1, 0 or 1 as the first is older, equal or newer, it changes its sign with the order
  of the two, and newer than newer is newer.\<close>

theorem first_difference_decides:
  "compare_versions a b =
     (case (version_key a, version_key b) of
        (Some ka, Some kb) \<Rightarrow> Some (if older ka kb then -1 else if older kb ka then 1 else 0)
      | _ \<Rightarrow> None)
   \<and> compare_versions b a = map_option uminus (compare_versions a b)
   \<and> (compare_versions a b = Some 1 \<and> compare_versions b c = Some 1 \<longrightarrow> compare_versions a c = Some 1)"
  using compare_versions_older compare_swap compare_newer_trans by blast

section \<open>The pill and the digest agree\<close>

lemma lstrip_char_truthy: "truthy_str v \<longleftrightarrow> or_empty v \<noteq> []"
  by (cases v) (auto simp: truthy_str_def or_empty_def)

lemma version_key_or_empty: "version_key (Some (or_empty t)) = version_key t"
  by (cases t) (simp_all add: version_key_def truthy_str_def or_empty_def)

lemma compare_or_empty: "compare_versions (Some (or_empty t)) (Some (or_empty u)) = compare_versions t u"
  by (simp add: compare_versions_def version_key_or_empty)

lemma pill_agrees:
  assumes "truthy_str (rl_tag e)"
  shows "has_update (r\<lparr>ur_current := current, ur_latest := rl_tag e\<rparr>) = (missed_releases (e # es) current \<noteq> [])"
proof (cases "truthy_str current")
  case True
  have "compare_versions current (rl_tag e) = map_option uminus (compare_versions (rl_tag e) current)" by (rule compare_swap)
  then show ?thesis
    using True assms by (auto simp: has_update_def missed_releases_def compare_or_empty split: option.split)
qed (simp add: has_update_def missed_releases_def)

lemma compare_orderable: "version_key a \<noteq> None \<Longrightarrow> version_key b \<noteq> None \<Longrightarrow> \<exists>c. compare_versions a b = Some c \<and> (c \<le> 0 \<longleftrightarrow> c \<noteq> 1)"
  by (auto simp: compare_versions_older split: option.split)

lemma missed_loop_newer:
  assumes "version_key current \<noteq> None"
    and "sorted_wrt (\<lambda>x y. compare_versions (rl_tag x) (rl_tag y) = Some 1) es"
    and "\<forall>x \<in> set es. version_key (rl_tag x) \<noteq> None"
  shows "missed_loop (or_empty current) es = map digest (filter (\<lambda>x. compare_versions (rl_tag x) current = Some 1) es)"
  using assms(2,3)
proof (induction es)
  case (Cons e es)
  obtain c where c: "compare_versions (rl_tag e) current = Some c" "c \<le> 0 \<longleftrightarrow> c \<noteq> 1"
    using compare_orderable [of "rl_tag e" current] Cons.prems(2) assms(1) by auto
  show ?case
  proof (cases "c = 1")
    case True
    then show ?thesis using Cons c by (simp add: compare_or_empty)
  next
    case False
    have "compare_versions (rl_tag x) current \<noteq> Some 1" if "x \<in> set es" for x
    proof
      assume "compare_versions (rl_tag x) current = Some 1"
      moreover have "compare_versions (rl_tag e) (rl_tag x) = Some 1" using Cons.prems(1) that by simp
      ultimately have "compare_versions (rl_tag e) current = Some 1" by (rule compare_newer_trans [rotated])
      then show False using c False by simp
    qed
    then show ?thesis using c False by (simp add: compare_or_empty filter_empty_conv)
  qed
qed simp

text \<open>C30. An update is announced for a polled product exactly when the digest of the releases it is missing is not empty, whatever
  its version and the feed are; and in a feed that goes strictly from newer to older, the digest holds exactly the
  releases that are newer than the version that runs, in the order of the feed.\<close>

theorem update_iff_missed:
  "(truthy_str (rl_tag e) \<longrightarrow>
      has_update (r\<lparr>ur_current := current, ur_latest := rl_tag e\<rparr>) = (missed_releases (e # es) current \<noteq> []))
   \<and> (version_key current \<noteq> None
      \<and> sorted_wrt (\<lambda>x y. compare_versions (rl_tag x) (rl_tag y) = Some 1) (e # es)
      \<and> (\<forall>x \<in> set (e # es). version_key (rl_tag x) \<noteq> None)
      \<longrightarrow> missed_releases (e # es) current = map digest (filter (\<lambda>x. compare_versions (rl_tag x) current = Some 1) (e # es)))"
proof -
  have "truthy_str current" if "version_key current \<noteq> None"
    using that by (auto simp: version_key_def split: if_splits)
  then show ?thesis
    using pill_agrees missed_loop_newer [of current "e # es"] by (auto simp: missed_releases_def)
qed

definition demo_release :: "string \<Rightarrow> release" where
  "demo_release t = \<lparr>rl_tag = Some t, rl_title = [], rl_released_at = None, rl_notes_url = None, rl_body = None\<rparr>"

lemma demo_keys:
  "version_key (Some ''v2.0.1'') = Some [2, 0, 1]" "version_key (Some ''v2.0'') = Some [2, 0]" "version_key (Some ''1.9'') = Some [1, 9]"
  by (simp_all add: version_key_def truthy_str_def or_empty_def) code_simp+

definition demo_row :: update_row where
  "demo_row = \<lparr>ur_repo = ''o/r'', ur_current = Some ''v2.0'', ur_latest = Some ''v2.0.1'', ur_released_at = None, ur_notes_url = None,
     ur_breaking = False, ur_checked = 1, ur_error = None, ur_missed = []\<rparr>"

theorem first_difference_decides_witness:
  "compare_versions (Some ''v2.0.1'') (Some ''v2.0'') = Some 1 \<and> compare_versions (Some ''v2.0'') (Some ''1.9'') = Some 1
     \<and> compare_versions (Some ''v2.0.1'') (Some ''1.9'') = Some 1"
proof -
  have "compare_versions (Some ''v2.0.1'') (Some ''v2.0'') = Some 1" "compare_versions (Some ''v2.0'') (Some ''1.9'') = Some 1"
    by (simp_all add: compare_versions_def demo_keys padded_def Let_def)
  then show ?thesis using first_difference_decides by blast
qed

theorem update_iff_missed_witness:
  "missed_releases [demo_release ''v2.0.1'', demo_release ''v2.0'', demo_release ''1.9''] (Some ''v2.0'') = [digest (demo_release ''v2.0.1'')]
   \<and> has_update (demo_row\<lparr>ur_current := Some ''v2.0'', ur_latest := rl_tag (demo_release ''v2.0.1'')\<rparr>)"
proof -
  have m: "missed_releases [demo_release ''v2.0.1'', demo_release ''v2.0'', demo_release ''1.9''] (Some ''v2.0'')
      = map digest (filter (\<lambda>x. compare_versions (rl_tag x) (Some ''v2.0'') = Some 1)
          [demo_release ''v2.0.1'', demo_release ''v2.0'', demo_release ''1.9''])"
    using update_iff_missed [where e = "demo_release ''v2.0.1''" and r = demo_row and current = "Some ''v2.0''"
        and es = "[demo_release ''v2.0'', demo_release ''1.9'']"]
    by (simp add: demo_release_def demo_keys compare_versions_def padded_def Let_def)
  have "compare_versions (Some ''v2.0.1'') (Some ''v2.0'') = Some 1" "compare_versions (Some ''v2.0'') (Some ''v2.0'') = Some 0"
    "compare_versions (Some ''1.9'') (Some ''v2.0'') = Some (-1)"
    by (simp_all add: compare_versions_def demo_keys padded_def Let_def)
  then have l: "missed_releases [demo_release ''v2.0.1'', demo_release ''v2.0'', demo_release ''1.9''] (Some ''v2.0'')
      = [digest (demo_release ''v2.0.1'')]"
    unfolding m by (simp add: demo_release_def)
  then show ?thesis
    using update_iff_missed [where e = "demo_release ''v2.0.1''" and r = demo_row and current = "Some ''v2.0''"
        and es = "[demo_release ''v2.0'', demo_release ''1.9'']"]
    by (simp add: demo_release_def truthy_str_def)
qed

section \<open>A poll keeps what was known\<close>

lemma parse_vanilla_truthy: "parse_vanilla_version src = Some v \<Longrightarrow> v \<noteq> []"
proof -
  have "version_line l = Some v \<Longrightarrow> v \<noteq> []" for l
    by (auto simp: version_line_def split: list.splits if_splits)
  then have "find_version b s = Some v \<Longrightarrow> v \<noteq> []" for b s
    by (induction b s rule: find_version.induct) (auto split: option.splits if_splits)
  then show "parse_vanilla_version src = Some v \<Longrightarrow> v \<noteq> []" by (simp add: parse_vanilla_version_def)
qed

lemma write_error_row:
  "map_of (write_error p repo err now rows) p =
     Some (case map_of rows p of Some r \<Rightarrow> r\<lparr>ur_checked := now, ur_error := Some err\<rparr>
       | None \<Rightarrow> \<lparr>ur_repo = repo, ur_current = None, ur_latest = None, ur_released_at = None, ur_notes_url = None,
            ur_breaking = False, ur_checked = now, ur_error = Some err, ur_missed = []\<rparr>)"
  "p \<noteq> q \<Longrightarrow> map_of (write_error p repo err now rows) q = map_of rows q"
  by (simp_all add: write_error_def update_conv' split: option.split)

lemma write_state_row: "map_of (write_state p r rows) q = (if p = q then Some r else map_of rows q)"
  by (simp add: write_state_def update_conv')

definition keeps_or_reads :: "poll_env \<Rightarrow> pyfloat \<Rightarrow> string \<Rightarrow> string \<Rightarrow> update_table \<Rightarrow> update_table \<Rightarrow> bool" where
  "keeps_or_reads E now p repo rows rows' \<longleftrightarrow>
     (\<exists>err. rows' = write_error p repo err now rows)
     \<or> (\<exists>r. rows' = write_state p r rows \<and> ur_checked r = now \<and> ur_error r = None
          \<and> ur_current r = pe_current E p \<and> truthy_str (ur_latest r))"

lemma keeps: "keeps_or_reads E now p repo rows (write_error p repo err now rows)"
  unfolding keeps_or_reads_def by blast

lemma reads:
  "ur_checked r = now \<Longrightarrow> ur_error r = None \<Longrightarrow> ur_current r = pe_current E p \<Longrightarrow> truthy_str (ur_latest r) \<Longrightarrow>
     keeps_or_reads E now p repo rows (write_state p r rows)"
  unfolding keeps_or_reads_def by blast

lemma poll_product_cases: "keeps_or_reads E now p repo rows (poll_product E now web (p, repo) rows)"
  unfolding poll_product_def poll_vanilla_def poll_one_def Let_def fst_conv snd_conv
  by (auto intro!: keeps reads dest: parse_vanilla_truthy simp: truthy_str_def [of "Some _"]
      split: web_reply.split list.split option.split)

lemma poll_product_other: "p \<noteq> q \<Longrightarrow> map_of (poll_product E now web (p, repo) rows) q = map_of rows q"
  using poll_product_cases [of E now p repo rows web, unfolded keeps_or_reads_def] by (auto simp: write_error_row write_state_row)

lemma poll_product_row:
  assumes "map_of rows p = Some r"
  shows "\<exists>r'. map_of (poll_product E now web (p, repo) rows) p = Some r' \<and> ur_checked r' = now
    \<and> (if ur_error r' = None then ur_current r' = pe_current E p \<and> truthy_str (ur_latest r')
       else r' = r\<lparr>ur_checked := now, ur_error := ur_error r'\<rparr>)"
  using poll_product_cases [of E now p repo rows web, unfolded keeps_or_reads_def] assms by (auto simp: write_error_row write_state_row)

lemma poll_product_present: "map_of (poll_product E now web (p, repo) rows) p \<noteq> None"
  using poll_product_cases [of E now p repo rows web, unfolded keeps_or_reads_def] by (auto simp: write_error_row write_state_row)

lemma poll_products_other:
  "q \<notin> fst ` set products \<Longrightarrow> map_of (fold (poll_product E now web) products rows) q = map_of rows q"
  by (induction products arbitrary: rows) (auto simp: poll_product_other)

lemma poll_products_row:
  "distinct (map fst products) \<Longrightarrow> (p, repo) \<in> set products \<Longrightarrow>
     \<exists>rows'. map_of rows' p = map_of rows p
       \<and> map_of (fold (poll_product E now web) products rows) p = map_of (poll_product E now web (p, repo) rows') p"
proof (induction products arbitrary: rows)
  case (Cons pr products)
  show ?case
  proof (cases "pr = (p, repo)")
    case True
    then have "p \<notin> fst ` set products" using Cons.prems(1) by auto
    then show ?thesis using True poll_products_other by (intro exI [of _ rows]) simp
  next
    case False
    then have q: "(p, repo) \<in> set products" using Cons.prems(2) by auto
    then have "p \<in> fst ` set products" by force
    then have n: "fst pr \<noteq> p" using Cons.prems(1) by auto
    then have "map_of (poll_product E now web pr rows) p = map_of rows p" using poll_product_other n by (cases pr) auto
    then show ?thesis using Cons.IH [of "poll_product E now web pr rows"] Cons.prems(1) q by simp
  qed
qed simp

lemma map_of_filter_keys: "map_of (filter (\<lambda>pr. fst pr \<in> K) rows) p = (if p \<in> K then map_of rows p else None)"
  by (induction rows) auto

text \<open>C29. After a poll the table has a row for exactly the tracked products. A product whose row was there before either was
  read, and then shows the version that runs and a release, or keeps everything that was known of it and shows the
  error: one product's failure neither clears its own row nor touches another's.\<close>

theorem poll_keeps_last_good:
  assumes "distinct (map fst products)" and "(p, repo) \<in> set products" and "map_of rows p = Some r"
  shows "dom (map_of (poll_all E now web products rows)) = fst ` set products
    \<and> (\<exists>r'. map_of (poll_all E now web products rows) p = Some r' \<and> ur_checked r' = now
         \<and> (if ur_error r' = None then ur_current r' = pe_current E p \<and> truthy_str (ur_latest r')
            else r' = r\<lparr>ur_checked := now, ur_error := ur_error r'\<rparr>))"
proof -
  define rows0 where "rows0 = snd (prune_untracked products rows)"
  have r0: "map_of rows0 q = (if q \<in> fst ` set products then map_of rows q else None)" for q
    by (simp add: rows0_def prune_untracked_def map_of_filter_keys)
  have poll: "poll_all E now web products rows = fold (poll_product E now web) products rows0"
    by (simp add: poll_all_def rows0_def)
  have "map_of (poll_all E now web products rows) q \<noteq> None \<longleftrightarrow> q \<in> fst ` set products" for q
  proof
    assume "q \<in> fst ` set products"
    then obtain u where "(q, u) \<in> set products" by force
    then show "map_of (poll_all E now web products rows) q \<noteq> None"
      using poll_products_row [OF assms(1), of q u rows0 E now web] poll_product_present unfolding poll by metis
  next
    assume "map_of (poll_all E now web products rows) q \<noteq> None"
    then show "q \<in> fst ` set products" using poll_products_other [of q products E now web rows0] r0 [of q] poll by metis
  qed
  then have "dom (map_of (poll_all E now web products rows)) = fst ` set products" by auto
  moreover have "map_of rows0 p = Some r" using assms(2,3) by (force simp: r0)
  then obtain rows' where "map_of rows' p = Some r"
      "map_of (poll_all E now web products rows) p = map_of (poll_product E now web (p, repo) rows') p"
    using poll_products_row [OF assms(1,2), of rows0 E now web] poll by auto
  ultimately show ?thesis using poll_product_row [of rows' p r E now web repo] by simp
qed


definition demo_poll :: poll_env where
  "demo_poll = \<lparr>pe_time = (\<lambda>_. None), pe_xml = (\<lambda>_. None), pe_status_text = (\<lambda>_. ''bad status''), pe_current = (\<lambda>_. Some ''v2.0''),
     pe_vanilla = (\<lambda>_. None)\<rparr>"

theorem poll_keeps_last_good_witness:
  "\<exists>r'. map_of (poll_all demo_poll 2 (\<lambda>_. Raises ''no route'') [(''subarr'', ''o/r'')] [(''gone'', demo_row), (''subarr'', demo_row)]) ''subarr'' = Some r'
     \<and> ur_checked r' = 2 \<and> dom (map_of (poll_all demo_poll 2 (\<lambda>_. Raises ''no route'') [(''subarr'', ''o/r'')]
          [(''gone'', demo_row), (''subarr'', demo_row)])) = {''subarr''}"
  using poll_keeps_last_good [of "[(''subarr'', ''o/r'')]" "''subarr''" "''o/r''" "[(''gone'', demo_row), (''subarr'', demo_row)]" demo_row
      demo_poll 2 "\<lambda>_. Raises ''no route''"] by auto

text \<open>A release candidate has one more number than its release and counts as newer: who runs the candidate is never told of the
  release.\<close>

lemma candidate_outranks_its_release:
  "compare_versions (Some ''v2.0.0-rc1'') (Some ''v2.0.0'') = Some 1"
  "\<not> has_update (demo_row\<lparr>ur_current := Some ''v2.0.0-rc1'', ur_latest := Some ''v2.0.0''\<rparr>)"
proof -
  have k: "version_key (Some ''v2.0.0-rc1'') = Some [2, 0, 0, 1]" "version_key (Some ''v2.0.0'') = Some [2, 0, 0]"
    by (simp_all add: version_key_def truthy_str_def or_empty_def) code_simp+
  show c: "compare_versions (Some ''v2.0.0-rc1'') (Some ''v2.0.0'') = Some 1"
    by (simp add: compare_versions_def k padded_def Let_def)
  then show "\<not> has_update (demo_row\<lparr>ur_current := Some ''v2.0.0-rc1'', ur_latest := Some ''v2.0.0''\<rparr>)"
    by (simp add: has_update_def)
qed

lemma demo_compare: "compare_versions (Some ''v2.0'') (Some ''v2.0.1'') = Some (-1)"
  by (simp add: compare_versions_def demo_keys padded_def Let_def)

text \<open>The row shows the version that ran at the last good poll. After an upgrade, while the feed cannot be read, the update that
  was installed is still announced.\<close>

lemma installed_update_is_still_announced:
  "has_update demo_row \<Longrightarrow>
   \<exists>r'. map_of (poll_all (demo_poll\<lparr>pe_current := (\<lambda>_. Some ''v2.0.1'')\<rparr>) 2 (\<lambda>_. Raises ''no route'') [(''subarr'', ''o/r'')]
        [(''subarr'', demo_row)]) ''subarr'' = Some r' \<and> has_update r'"
  using demo_compare
  by (simp add: poll_all_def prune_untracked_def poll_product_def poll_one_def write_error_def demo_poll_def truthy_str_def
      has_update_def demo_row_def)

lemma demo_row_has_update: "has_update demo_row"
  by (simp add: has_update_def demo_row_def truthy_str_def demo_compare)

text \<open>A note that says there are no breaking changes marks the release as breaking.\<close>

lemma no_breaking_changes_is_breaking: "sublist ''breaking'' (lower ''No breaking changes.'')"
  by code_simp


end
