(* ===== verification/Watchdog.thy ===== *)
theory Watchdog
  imports SubgenCaps
begin

text \<open>
  The subgen watchdog (\<open>src/src/subarr/subgen_watchdog.py\<close>): what each probe of the capabilities does to
  the adopted capabilities, the outage the dashboard shows, and when a restart of subgen is reported.
\<close>

section \<open>State\<close>

type_synonym identity = "string option \<times> string option"

definition identity_of :: "subgen_caps \<Rightarrow> identity" where
  "identity_of c = (subarr_subgen_patch_rev c, version c)"

record watchdog =
  wg_caps :: "subgen_caps option"
  wg_restart_at :: "pyfloat option"
  wg_restart_from :: "identity option"
  wg_restart_to :: "identity option"
  wg_misses :: nat
  wg_since :: "pyfloat option"
  wg_cause :: "string option"

definition bounce_min_unreachable :: nat where "bounce_min_unreachable = 2"

definition boot_watchdog :: "subgen_caps option \<Rightarrow> watchdog" where
  "boot_watchdog c = \<lparr>wg_caps = c, wg_restart_at = None, wg_restart_from = None, wg_restart_to = None, wg_misses = 0,
     wg_since = None, wg_cause = None\<rparr>"

record outage =
  ou_since :: pyfloat
  ou_seconds :: pyfloat
  ou_consecutive :: nat
  ou_cause :: string

definition transport :: string where "transport = ''transport''"

definition outage_at :: "pyfloat \<Rightarrow> watchdog \<Rightarrow> outage option" where
  "outage_at now w =
     (case wg_since w of
        None \<Rightarrow> None
      | Some since \<Rightarrow>
          if wg_misses w < bounce_min_unreachable then None
          else Some \<lparr>ou_since = since, ou_seconds = max 0 (now - since), ou_consecutive = wg_misses w,
                     ou_cause = (if truthy_str (wg_cause w) then or_empty (wg_cause w) else transport)\<rparr>)"

section \<open>One probe\<close>

text \<open>When a probe ran and what it brought back.\<close>

record probe_event =
  pe_at :: pyfloat
  pe_caps :: subgen_caps

text \<open>The restart hook is called with the old and the new capabilities and the time.\<close>

type_synonym restart = "subgen_caps \<times> subgen_caps \<times> pyfloat"

definition failure_cause :: "probe_event \<Rightarrow> string" where
  "failure_cause e = (let f = probe_failure (pe_caps e) in if truthy_str f then or_empty f else transport)"

definition miss :: "probe_event \<Rightarrow> watchdog \<Rightarrow> watchdog" where
  "miss e w = w\<lparr>wg_misses := wg_misses w + 1, wg_since := (case wg_since w of None \<Rightarrow> Some (pe_at e) | s \<Rightarrow> s),
     wg_cause := Some (failure_cause e)\<rparr>"

definition probe_once :: "probe_event \<Rightarrow> watchdog \<Rightarrow> restart option \<times> watchdog" where
  "probe_once e w =
     (let new = pe_caps e in
      if \<not> reachable new then (None, miss e w)
      else (let w1 = w\<lparr>wg_since := None, wg_cause := None, wg_misses := 0, wg_caps := Some new\<rparr> in
        case wg_caps w of
          None \<Rightarrow> (None, w1)
        | Some old \<Rightarrow>
            if \<not> reachable old then (None, w1)
            else if identity_of old = identity_of new \<and> wg_misses w < bounce_min_unreachable then (None, w1)
            else (Some (old, new, pe_at e),
                  w1\<lparr>wg_restart_at := Some (pe_at e), wg_restart_from := Some (identity_of old),
                     wg_restart_to := Some (identity_of new)\<rparr>)))"

fun watch :: "probe_event list \<Rightarrow> watchdog \<Rightarrow> restart list \<times> watchdog" where
  "watch [] w = ([], w)"
| "watch (e # es) w =
     (case probe_once e w of (r, w') \<Rightarrow> (case watch es w' of (rs, w'') \<Rightarrow> ((case r of None \<Rightarrow> rs | Some x \<Rightarrow> x # rs), w'')))"

section \<open>The history as specification\<close>

text \<open>The probes that failed since the last one that answered, newest first, and the last capabilities that
  answered before them.\<close>

definition failed_since :: "probe_event list \<Rightarrow> probe_event list" where
  "failed_since past = takeWhile (\<lambda>e. \<not> reachable (pe_caps e)) (rev past)"

definition last_answer :: "subgen_caps option \<Rightarrow> probe_event list \<Rightarrow> subgen_caps option" where
  "last_answer boot past =
     (case dropWhile (\<lambda>e. \<not> reachable (pe_caps e)) (rev past) of [] \<Rightarrow> boot | e # _ \<Rightarrow> Some (pe_caps e))"

definition is_restart :: "subgen_caps option \<Rightarrow> probe_event list \<Rightarrow> probe_event \<Rightarrow> restart option" where
  "is_restart boot past e =
     (case last_answer boot past of
        None \<Rightarrow> None
      | Some old \<Rightarrow>
          if reachable (pe_caps e) \<and> reachable old
            \<and> (identity_of old \<noteq> identity_of (pe_caps e) \<or> bounce_min_unreachable \<le> length (failed_since past))
          then Some (old, pe_caps e, pe_at e) else None)"

definition restarts :: "subgen_caps option \<Rightarrow> probe_event list \<Rightarrow> restart list" where
  "restarts boot es = List.map_filter (\<lambda>i. is_restart boot (take i es) (es ! i)) [0..<length es]"

lemma failed_since_snoc: "failed_since (past @ [e]) = (if reachable (pe_caps e) then [] else e # failed_since past)"
  by (simp add: failed_since_def)

lemma last_answer_snoc: "last_answer boot (past @ [e]) = (if reachable (pe_caps e) then Some (pe_caps e) else last_answer boot past)"
  by (simp add: last_answer_def)

lemma watch_append: "watch (xs @ ys) w = (case watch xs w of (rs, w') \<Rightarrow> (case watch ys w' of (rs', w'') \<Rightarrow> (rs @ rs', w'')))"
  by (induction xs arbitrary: w) (auto simp: case_prod_beta split: option.split)

lemma map_filter_cong': "(\<And>x. x \<in> set xs \<Longrightarrow> f x = g x) \<Longrightarrow> List.map_filter f xs = List.map_filter g xs"
  by (induction xs) (auto simp: List.map_filter_simps split: option.split)

lemma restarts_snoc:
  "restarts boot (es @ [e]) = restarts boot es @ (case is_restart boot es e of None \<Rightarrow> [] | Some r \<Rightarrow> [r])"
proof -
  have snoc: "List.map_filter f (xs @ [x]) = List.map_filter f xs @ (case f x of None \<Rightarrow> [] | Some y \<Rightarrow> [y])"
    for f :: "nat \<Rightarrow> restart option" and xs x
    by (induction xs) (auto simp: List.map_filter_simps split: option.split)
  have "List.map_filter (\<lambda>i. is_restart boot (take i (es @ [e])) ((es @ [e]) ! i)) [0..<length es]
      = List.map_filter (\<lambda>i. is_restart boot (take i es) (es ! i)) [0..<length es]"
    by (rule map_filter_cong') (simp add: nth_append)
  then show ?thesis by (simp add: restarts_def snoc)
qed

section \<open>The watchdog implements the specification\<close>

text \<open>The state after a history of probes, in terms of the history.\<close>

definition tracks :: "subgen_caps option \<Rightarrow> probe_event list \<Rightarrow> watchdog \<Rightarrow> bool" where
  "tracks boot past w \<longleftrightarrow>
     wg_caps w = last_answer boot past \<and> wg_misses w = length (failed_since past)
     \<and> wg_since w = (if failed_since past = [] then None else Some (pe_at (last (failed_since past))))
     \<and> wg_cause w = (if failed_since past = [] then None else Some (failure_cause (hd (failed_since past))))"

lemma tracks_boot: "tracks boot [] (boot_watchdog boot)"
  by (simp add: tracks_def boot_watchdog_def last_answer_def failed_since_def)

lemma tracks_probe:
  assumes "tracks boot past w"
  shows "fst (probe_once e w) = is_restart boot past e" "tracks boot (past @ [e]) (snd (probe_once e w))"
  using assms
  by (auto simp: tracks_def probe_once_def miss_def is_restart_def failed_since_snoc last_answer_snoc Let_def split: option.split)

lemma watch_tracks: "fst (watch es (boot_watchdog boot)) = restarts boot es \<and> tracks boot es (snd (watch es (boot_watchdog boot)))"
proof (induction es rule: rev_induct)
  case Nil
  then show ?case by (simp add: tracks_boot restarts_def List.map_filter_simps)
next
  case (snoc e es)
  with tracks_probe [of boot es _ e] show ?case
    by (auto simp: watch_append restarts_snoc case_prod_beta split: option.split)
qed

text \<open>C34. For every history of probes the watchdog reports a restart exactly at those answers that follow
  an earlier answer and either name another build or come after at least two missed probes in a row;
  a single missed probe never counts. The adopted capabilities are those of the last answer, and an
  outage is shown exactly while the last two or more probes failed, since the first of them and with
  the cause of the latest.\<close>

theorem watchdog_refines_history:
  fixes es :: "probe_event list" and boot :: "subgen_caps option"
  defines "w \<equiv> snd (watch es (boot_watchdog boot))" and "failed \<equiv> failed_since es"
  shows "fst (watch es (boot_watchdog boot)) = restarts boot es
    \<and> wg_caps w = last_answer boot es
    \<and> outage_at now w =
        (if length failed < 2 then None
         else Some \<lparr>ou_since = pe_at (last failed), ou_seconds = max 0 (now - pe_at (last failed)),
                    ou_consecutive = length failed, ou_cause = failure_cause (hd failed)\<rparr>)"
proof -
  have t: "tracks boot es w" "fst (watch es (boot_watchdog boot)) = restarts boot es"
    using watch_tracks [of es boot] by (simp_all add: w_def)
  have "truthy_str (Some (failure_cause e))" for e
    by (simp add: failure_cause_def truthy_str_def transport_def or_empty_def Let_def split: option.split)
  with t show ?thesis
    by (auto simp: tracks_def outage_at_def bounce_min_unreachable_def failed_def or_empty_def)
qed

end
