(* ===== verification/Spec2Isabelle.thy ===== *)
theory Spec2Isabelle
  imports
    Aftercare
    ArrMediainfo
    Auth
    AutoQueue
    CircuitBreaker
    Completion
    Config
    CoverageAssembly
    CoverageBuild
    CoverageCache
    CoveragePasses
    CoverageRows
    Decimal
    EpisodePaths
    Feeder
    ForcedSegments
    Langs
    Ledger
    Libraries
    LoginThrottle
    MediaProbe
    Onboarding
    OrphanPrune
    Paths
    PendingOrder
    PendingQueue
    PendingReconcile
    PendingWalks
    PerFileTask
    Prelude
    ProbeStore
    ProbeWalk
    QueueApi
    QueueView
    RefreshQueue
    Relink
    SanitizeCue
    ScanRun
    Scheduler
    Schedules
    SettingsApi
    SidecarLang
    SidecarScan
    Sidecars
    Srt
    SrtTiming
    SubgenCaps
    Submission
    TaskHealth
    Tournament
    TranscriptSignals
    UpdateChecker
    VerdictStore
    Watchdog
begin

text \<open>
  Verification of subarr, the service that finds videos without subtitles and has them
  transcribed by subgen. The theories follow the Python modules under \<open>src/src/subarr/\<close>; a
  definition has the name of the function it translates where HOL allows it.

  How the parts work together. The configuration is read from the environment and from what was
  saved in the web interface; the setup wizard and the settings pages change it while the program
  runs. The coverage engine builds one row per wanted video from what Bazarr, Sonarr and Radarr
  report, attaches the probe of its file, decides the language of its audio, scores it and says
  whether the connected subgen can fill the gap; the coverage cache publishes the build. Rows worth
  filling become jobs of the pending queue, by hand, by the scheduler under the auto-queue rules, or by
  the backfill. The feeder hands jobs to subgen in queue order, as many as the depth target and the
  GPU capacity allow, each with the language override and the Whisper task that the verdict store and
  the per-file configuration decide; the scan runner sends them and records the replies, and the
  ledger keeps each job until the completion watcher finds its subtitle, re-times it and tells the
  others. The queue page shows the scans, one outcome per file. Paths are canonical throughout, that
  is library slug and path below the library root, and are translated for the file system, for subgen
  and for the arr services. Subtitles on disk are recognised by name; generated and foreign ones are
  parsed, linted, re-timed, judged and sanitised.

  Data. Records and datatypes are the source's; strings are lists of Latin-1 characters, on which
  lower case, white space and digits are those of Python; times and floats are exact rationals
  (\<open>pyfloat\<close>); integers are unbounded as in Python. A dict is an association list or a map, an SQLite
  table is its list of rows in rowid order, and a statement is the list function it denotes. A
  function that raises returns a sum or an option, and a handler that mutates state returns the
  new state. Code outside the repository is an argument: the clock, the answers of HTTP services,
  directory listings, symbolic link resolution, the probe of a file, hashes.

  Shared.
  \<^item> \<open>Prelude\<close>: string primitives, tables of rows, sorting; the collections \<open>pystr\<close> and \<open>table_simps\<close>.
    \<open>Decimal\<close>: decimal text of numbers and its round trip.

  Configuration and access.
  \<^item> \<open>Libraries\<close> (\<open>libraries.py\<close>, \<open>instances.py\<close>) and \<open>Paths\<close> (\<open>paths.py\<close>): the validators and
    the translations between the four kinds of path; what an accepted configuration guarantees,
    that a canonical path never leaves its library, and the round trip through subgen.
  \<^item> \<open>Config\<close> (\<open>config.py\<close>, \<open>config_store.py\<close>): the table of fields, the store of overrides with its
    faults, the precedence of the environment, and that every loaded field has its type.
  \<^item> \<open>Onboarding\<close> (\<open>onboarding.py\<close>, \<open>routers/onboarding.py\<close>): the setup wizard; its secrets stay masked and
    survive their masks, and what it sets survives a restart.
  \<^item> \<open>SettingsApi\<close> (\<open>routers/libraries.py\<close>, \<open>routers/instances.py\<close>): libraries and instances in the web
    interface. The locale \<open>durable_setting\<close> is the contract of a value that is checked, saved, adopted and rebuilt;
    it is interpreted on both.
  \<^item> \<open>Auth\<close> (\<open>auth.py\<close>, \<open>auth_store.py\<close>, \<open>api_keys.py\<close>, \<open>api_security.py\<close> and their routers): who gets through the
    gates, over all histories of requests. \<open>LoginThrottle\<close> (\<open>login_throttle.py\<close>) and \<open>CircuitBreaker\<close>
    (\<open>circuit_breaker.py\<close>): each refined against a specification that reads the whole history of calls.
  \<^item> \<open>UpdateChecker\<close> (\<open>update_checker.py\<close>): the order of versions, the missed releases, the poll.

  From gaps to jobs.
  \<^item> \<open>MediaProbe\<close> (\<open>media_probe.py\<close>), \<open>SidecarLang\<close>, \<open>CoverageRows\<close>, \<open>CoveragePasses\<close>, \<open>CoverageAssembly\<close>,
    \<open>CoverageBuild\<close> (\<open>coverage_engine.py\<close>): labels of tracks, languages of sidecar names, audio labels,
    routing and score, the assembly of the rows over the instances and the whole build. The locales
    \<open>dedup_pass\<close>, \<open>row_pass\<close> and \<open>single_row_pass\<close> state what a pass over the rows keeps, and are
    interpreted on every pass of the build.
  \<^item> \<open>RefreshQueue\<close>, \<open>CoverageCache\<close> (\<open>coverage_cache.py\<close>): the coalescing of refreshes, and when a degraded build is held back.
  \<^item> \<open>AutoQueue\<close> (\<open>auto_queue.py\<close>), \<open>Schedules\<close>, \<open>PendingWalks\<close>, \<open>Scheduler\<close> (\<open>schedule_store.py\<close>, \<open>pending_store.py\<close>,
    \<open>scheduler.py\<close>, \<open>arr_resolve.py\<close>): the decision on each row, when a walk is due, its approval and what it queues; the locale
    \<open>row_enqueuer\<close> is interpreted on decided rows and on stored rows.
  \<^item> \<open>ProbeStore\<close>, \<open>ProbeWalk\<close>, \<open>ArrMediainfo\<close> (\<open>probe_store.py\<close>, \<open>probe_walker.py\<close>, \<open>arr_mediainfo.py\<close>): the probe cache and what fills
    it. \<open>OrphanPrune\<close> (\<open>orphan_prune.py\<close>): a sweep over any store that satisfies the locale \<open>path_store\<close>, interpreted on the
    probe and the verdict store and on their union. \<open>Relink\<close> (\<open>relink.py\<close>): the rules offered for moved files.
  \<^item> \<open>Langs\<close> (\<open>langs.py\<close>), \<open>SubgenCaps\<close> (\<open>subgen_client.py\<close>), \<open>PerFileTask\<close> (\<open>per_file_task.py\<close>),
    \<open>EpisodePaths\<close>, \<open>VerdictStore\<close> (\<open>audio_lang_store.py\<close>), \<open>Submission\<close> (\<open>submission_language.py\<close>): language codes, the capability
    probe, verdicts on audio languages with their carrying over, and what is sent with a job.

  From jobs to subtitles.
  \<^item> \<open>PendingQueue\<close>, \<open>PendingOrder\<close> (\<open>pending_queue.py\<close>): every operation of the store; the invariant over all
    sequences of operations and the order the feeder sees. \<open>Feeder\<close> (\<open>pending_feeder.py\<close>,
    \<open>subgen_capacity.py\<close>): one tick; the locale \<open>work_source\<close> states what it needs of its queue, and is
    interpreted on the queue store. \<open>PendingReconcile\<close> with \<open>Sidecars\<close> (\<open>pending_reconcile.py\<close>): removal of satisfied jobs.
  \<^item> \<open>ScanRun\<close> (\<open>scan_runner.py\<close>, \<open>scan_store.py\<close>, the hooks of \<open>app.py\<close>): the run of a scan with cancellation, the verdict on each reply,
    the slots a skip frees, and the marks of a restart.
  \<^item> \<open>Ledger\<close> (\<open>provenance.py\<close>), \<open>Completion\<close> (\<open>completion_watcher.py\<close>), \<open>Watchdog\<close> (\<open>subgen_watchdog.py\<close>): open jobs, their
    completion, and restarts of subgen.
  \<^item> \<open>QueueView\<close>, \<open>QueueApi\<close> (\<open>routers/queue.py\<close>, \<open>backfill.py\<close>): the history in which each file is judged by its latest attempt, its
    cache, and the actions of the page with their status codes.
  \<^item> \<open>Srt\<close>, \<open>SrtTiming\<close> (\<open>subtitle_readability.py\<close>, \<open>subtitle_retime.py\<close>): the SubRip round trip, the linter and the re-timer.
    \<open>SanitizeCue\<close> (\<open>subtitle_sanitize.py\<close>), \<open>SidecarScan\<close> (\<open>sidecar_scanner.py\<close>), \<open>ForcedSegments\<close> (\<open>forced_segment.py\<close>).
  \<^item> \<open>TranscriptSignals\<close>, \<open>Tournament\<close>, \<open>Aftercare\<close> (\<open>transcript_signals.py\<close>, \<open>tournament.py\<close>, \<open>aftercare.py\<close>, \<open>aftercare_store.py\<close>,
    \<open>existing_audit.py\<close>): the judgement of subtitles, the winner of a tournament, the review backlog.
  \<^item> \<open>TaskHealth\<close> (\<open>task_health.py\<close>, \<open>crash_store.py\<close>): the supervision of background tasks and the redaction of what it stores.

  State machines are \<open>inductive\<close> step relations whose invariants are proved over all reachable states
  (\<open>queue_step\<close>, \<open>ledger_step\<close>, \<open>store_step\<close>, \<open>probe_step\<close>, \<open>pending_step\<close>, \<open>registry_step\<close>, \<open>auth_step\<close>). Lemmas at the end of a
  theory that show a defect or a contradiction to a comment are the findings of the manifest.

  Bounds. The chain of exception causes is read to the eight entries of \<open>_PROBE_CHAIN_MAX\<close>, which is
  also the fuel of its model; a folder job is expanded up to the 500 files of the code's own cap. The
  substitution of \<open>SanitizeCue\<close> has the length of the text as fuel, and \<open>SanitizeCue\<close> proves that more changes nothing,
  since each round drops a character. Every other function is total, by structural recursion or by a measure: the length of the
  text that is left (\<open>split_blocks\<close>, \<open>redact_secrets\<close>, \<open>strip_all\<close>, \<open>digit_runs\<close>), the utterances that are left
  (\<open>assemble_windows_from\<close>), the pending jobs (\<open>feed_loop\<close>, each round of which takes one job out of them).

  Not modelled: asyncio scheduling (an operation is one step, as the store's lock makes it; where the code
  gives up control inside an operation, as the history cache, the instance requests and the coverage refreshes do, its
  parts are separate steps), SQLite itself, HTTP exchanges and the shaping of JSON answers, ffprobe and the audio
  models, hashing, log messages and the wording of explanations (constructors stand for them), the web
  interface, and the modules the manifest lists as not modelled: the clients of other services, the
  remaining routers, the audio sampling and the arena, telemetry, and the upkeep of the database.
\<close>

end
